(* ===== verification/Go_Prelude.thy ===== *)
theory Go_Prelude
  imports Main "HOL-Library.Word"
begin

unbundle bit_operations_syntax

text \<open>
  Shared ground of the development: the outcome type of a Go call (a value, an
  \<^verbatim>\<open>error\<close> result, or a run-time panic), the checked slice operations of the language
  (index, assignment, re-slicing, \<^verbatim>\<open>copy\<close>), and the generic list facts the components use.
  A Go slice is the list of its elements; \<^verbatim>\<open>f(buf[off:])\<close>, where \<^verbatim>\<open>f\<close> writes through
  the sub-slice, is \<open>go_at off f buf\<close>, so writes through an alias reach the whole buffer.
\<close>

section \<open>Machine types\<close>

type_synonym byte = "8 word"
type_synonym u16 = "16 word"
type_synonym u32 = "32 word"
type_synonym u64 = "64 word"
type_synonym bytes = "byte list"

section \<open>Outcomes of a call\<close>

text \<open>
  \<open>Explicit\<close> is a call of \<^verbatim>\<open>panic\<close>. \<open>Blocked\<close> is not a panic of Go but a goroutine that waits for
  ever; nothing after it runs either.
\<close>

datatype go_panic =
    IndexOutOfRange
  | SliceBounds
  | DivideByZero
  | NilDereference
  | TypeAssertion
  | Explicit string
  | Blocked

datatype (dead 'e, 'a) go = Ok 'a | Err 'e | Panic go_panic

primrec bind_go :: "('e, 'a) go \<Rightarrow> ('a \<Rightarrow> ('e, 'b) go) \<Rightarrow> ('e, 'b) go" where
  "bind_go (Ok x) f = f x"
| "bind_go (Err e) f = Err e"
| "bind_go (Panic p) f = Panic p"

primrec is_ok :: "('e, 'a) go \<Rightarrow> bool" where
  "is_ok (Ok x) = True"
| "is_ok (Err e) = False"
| "is_ok (Panic p) = False"

primrec is_panic :: "('e, 'a) go \<Rightarrow> bool" where
  "is_panic (Ok x) = False"
| "is_panic (Err e) = False"
| "is_panic (Panic p) = True"

primrec no_panic :: "('e, 'a) go \<Rightarrow> bool" where
  "no_panic (Ok x) = True"
| "no_panic (Err e) = True"
| "no_panic (Panic p) = False"

section \<open>Checked slice operations\<close>

definition go_nth :: "'a list \<Rightarrow> nat \<Rightarrow> ('e, 'a) go" where
  "go_nth xs i = (if i < length xs then Ok (xs ! i) else Panic IndexOutOfRange)"

definition go_set :: "'a list \<Rightarrow> nat \<Rightarrow> 'a \<Rightarrow> ('e, 'a list) go" where
  "go_set xs i v = (if i < length xs then Ok (xs[i := v]) else Panic IndexOutOfRange)"

definition go_slice :: "'a list \<Rightarrow> nat \<Rightarrow> nat \<Rightarrow> ('e, 'a list) go" where
  "go_slice xs lo hi =
     (if lo \<le> hi \<and> hi \<le> length xs then Ok (take (hi - lo) (drop lo xs)) else Panic SliceBounds)"

definition go_from :: "'a list \<Rightarrow> nat \<Rightarrow> ('e, 'a list) go" where
  "go_from xs lo = go_slice xs lo (length xs)"

definition go_copy :: "'a list \<Rightarrow> 'a list \<Rightarrow> 'a list" where
  "go_copy dst src = take (length dst) src @ drop (length src) dst"

definition go_at :: "nat \<Rightarrow> ('a list \<Rightarrow> ('e, 'a list) go) \<Rightarrow> 'a list \<Rightarrow> ('e, 'a list) go" where
  "go_at off f buf =
     bind_go (go_from buf off) (\<lambda>sub. bind_go (f sub) (\<lambda>sub'. Ok (take off buf @ sub')))"

section \<open>Lemma collections\<close>

named_theorems go_simps \<open>evaluation of checked slice operations within bounds\<close>
named_theorems go_elims \<open>inversion of outcomes\<close>

lemma bind_go_assoc: "bind_go (bind_go m f) g = bind_go m (\<lambda>x. bind_go (f x) g)"
  by (cases m) simp_all

lemma bind_go_Ok_right [simp]: "bind_go m Ok = m"
  by (cases m) simp_all

lemma bind_go_eq_Ok [go_elims]: "bind_go m f = Ok y \<longleftrightarrow> (\<exists>x. m = Ok x \<and> f x = Ok y)"
  by (cases m) simp_all

lemma bind_go_eq_Err [go_elims]:
  "bind_go m f = Err e \<longleftrightarrow> m = Err e \<or> (\<exists>x. m = Ok x \<and> f x = Err e)"
  by (cases m) simp_all

lemma bind_go_eq_Panic [go_elims]:
  "bind_go m f = Panic p \<longleftrightarrow> m = Panic p \<or> (\<exists>x. m = Ok x \<and> f x = Panic p)"
  by (cases m) simp_all

lemma bind_go_cong [fundef_cong]:
  "m = m' \<Longrightarrow> (\<And>x. m' = Ok x \<Longrightarrow> f x = f' x) \<Longrightarrow> bind_go m f = bind_go m' f'"
  by (cases m') simp_all

lemma is_ok_iff: "is_ok m \<longleftrightarrow> (\<exists>x. m = Ok x)"
  by (cases m) simp_all

lemma is_panic_iff: "is_panic m \<longleftrightarrow> (\<exists>p. m = Panic p)"
  by (cases m) simp_all

lemma no_panic_iff: "no_panic m \<longleftrightarrow> \<not> is_panic m"
  by (cases m) simp_all

lemma no_panic_bind:
  "no_panic m \<Longrightarrow> (\<And>x. m = Ok x \<Longrightarrow> no_panic (f x)) \<Longrightarrow> no_panic (bind_go m f)"
  by (cases m) simp_all

lemma go_nth_in [go_simps]: "i < length xs \<Longrightarrow> go_nth xs i = Ok (xs ! i)"
  by (simp add: go_nth_def)

lemma go_set_in [go_simps]: "i < length xs \<Longrightarrow> go_set xs i v = Ok (xs[i := v])"
  by (simp add: go_set_def)

lemma go_slice_in [go_simps]:
  "lo \<le> hi \<Longrightarrow> hi \<le> length xs \<Longrightarrow> go_slice xs lo hi = Ok (take (hi - lo) (drop lo xs))"
  by (simp add: go_slice_def)

lemma go_from_in [go_simps]: "lo \<le> length xs \<Longrightarrow> go_from xs lo = Ok (drop lo xs)"
  by (simp add: go_from_def go_slice_def)

lemma go_from_out: "length xs < lo \<Longrightarrow> go_from xs lo = Panic SliceBounds"
  by (simp add: go_from_def go_slice_def)

lemma go_at_in [go_simps]:
  "off \<le> length buf \<Longrightarrow>
     go_at off f buf = bind_go (f (drop off buf)) (\<lambda>sub. Ok (take off buf @ sub))"
  by (simp add: go_at_def go_from_in)

lemma length_go_copy [simp]: "length (go_copy dst src) = length dst"
  by (simp add: go_copy_def min_def)

lemma go_copy_fits: "length src \<le> length dst \<Longrightarrow> go_copy dst src = src @ drop (length src) dst"
  by (simp add: go_copy_def)

section \<open>List facts\<close>

lemma append_take_drop_assoc: "take n xs @ drop n xs @ ys = xs @ ys"
  by (simp flip: append_assoc)

lemma take_list_update_snoc:
  "i < length xs \<Longrightarrow> take (Suc i) (xs[i := v]) = take i xs @ [v]"
  by (simp add: take_Suc_conv_app_nth)

lemma take_update_below: "i < n \<Longrightarrow> take n (xs[i := v]) = (take n xs)[i := v]"
  by (simp add: take_update_swap)

lemma take_update_above [simp]: "n \<le> i \<Longrightarrow> take n (xs[i := v]) = take n xs"
  by (simp add: take_update_cancel)

lemma drop_update_below [simp]: "i < n \<Longrightarrow> drop n (xs[i := v]) = drop n xs"
  by (simp add: drop_update_cancel)

section \<open>Machines\<close>

text \<open>A step relation and a property that its steps keep.\<close>

locale machine =
  fixes step :: "'s \<Rightarrow> 's \<Rightarrow> bool" and inv :: "'s \<Rightarrow> bool"
  assumes step_keeps: "inv s \<Longrightarrow> step s t \<Longrightarrow> inv t"
begin

lemma steps_keep: "step\<^sup>*\<^sup>* s t \<Longrightarrow> inv s \<Longrightarrow> inv t"
  by (induction rule: rtranclp_induct) (auto intro: step_keeps)

end

end
