(* ===== verification/Sproto_Wire.thy ===== *)
theory Sproto_Wire
  imports Go_Prelude
begin

unbundle bit_operations_syntax

text \<open>
  The little-endian primitives of gosproto: \<^verbatim>\<open>writeUint16/32/64\<close> of \<^verbatim>\<open>encode.go\<close>,
  \<^verbatim>\<open>readUint16/32/64\<close> of \<^verbatim>\<open>decode.go\<close>, \<^verbatim>\<open>Append\<close> of \<^verbatim>\<open>sproto.go\<close> and
  \<^verbatim>\<open>readChunk\<close>. The locale \<open>le_codec\<close> is the contract of one width (what a write puts
  into a buffer, what a read finds there); it is interpreted on the three widths.
\<close>

datatype sproto_error =
    ErrNonPtr
  | ErrNonStruct
  | ErrNil
  | ErrDecode
  | ErrUnpack
  | ErrMalformedInteger string
  | ErrMalformedStruct string
  | ErrTagFields string
  | ErrUnknownWire string
  | ErrTagNumber string
  | ErrExpectWire string
  | ErrExpectArray string
  | ErrNoCoder string
  | ErrTagRepeated string
  | ErrKindStruct

type_synonym 'a sproto = "(sproto_error, 'a) go"

section \<open>Writing integers\<close>

definition writeUint16 :: "bytes \<Rightarrow> u16 \<Rightarrow> ('e, bytes) go" where
  "writeUint16 buf v =
     bind_go (go_set buf 0 (ucast (v AND 0xff))) (\<lambda>buf.
     go_set buf 1 (ucast (drop_bit 8 v)))"

definition writeUint32 :: "bytes \<Rightarrow> u32 \<Rightarrow> ('e, bytes) go" where
  "writeUint32 buf v =
     bind_go (go_set buf 0 (ucast (v AND 0xff))) (\<lambda>buf.
     bind_go (go_set buf 1 (ucast (drop_bit 8 v AND 0xff))) (\<lambda>buf.
     bind_go (go_set buf 2 (ucast (drop_bit 16 v AND 0xff))) (\<lambda>buf.
     go_set buf 3 (ucast (drop_bit 24 v AND 0xff)))))"

definition writeUint64 :: "bytes \<Rightarrow> u64 \<Rightarrow> ('e, bytes) go" where
  "writeUint64 buf v =
     bind_go (go_set buf 0 (ucast (v AND 0xff))) (\<lambda>buf.
     bind_go (go_set buf 1 (ucast (drop_bit 8 v AND 0xff))) (\<lambda>buf.
     bind_go (go_set buf 2 (ucast (drop_bit 16 v AND 0xff))) (\<lambda>buf.
     bind_go (go_set buf 3 (ucast (drop_bit 24 v AND 0xff))) (\<lambda>buf.
     bind_go (go_set buf 4 (ucast (drop_bit 32 v AND 0xff))) (\<lambda>buf.
     bind_go (go_set buf 5 (ucast (drop_bit 40 v AND 0xff))) (\<lambda>buf.
     bind_go (go_set buf 6 (ucast (drop_bit 48 v AND 0xff))) (\<lambda>buf.
     go_set buf 7 (ucast (drop_bit 56 v AND 0xff)))))))))"

section \<open>Reading integers\<close>

definition readUint16 :: "bytes \<Rightarrow> ('e, u16) go" where
  "readUint16 buf =
     bind_go (go_nth buf 1) (\<lambda>b1.
     bind_go (go_nth buf 0) (\<lambda>b0.
     Ok (push_bit 8 (ucast b1) OR ucast b0)))"

definition readUint32 :: "bytes \<Rightarrow> ('e, u32) go" where
  "readUint32 buf =
     bind_go (go_nth buf 3) (\<lambda>b3.
     bind_go (go_nth buf 2) (\<lambda>b2.
     bind_go (go_nth buf 1) (\<lambda>b1.
     bind_go (go_nth buf 0) (\<lambda>b0.
     Ok (push_bit 24 (ucast b3) OR push_bit 16 (ucast b2) OR push_bit 8 (ucast b1)
         OR ucast b0)))))"

definition readUint64 :: "bytes \<Rightarrow> ('e, u64) go" where
  "readUint64 buf =
     bind_go (go_nth buf 7) (\<lambda>b7.
     bind_go (go_nth buf 6) (\<lambda>b6.
     bind_go (go_nth buf 5) (\<lambda>b5.
     bind_go (go_nth buf 4) (\<lambda>b4.
     bind_go (go_nth buf 3) (\<lambda>b3.
     bind_go (go_nth buf 2) (\<lambda>b2.
     bind_go (go_nth buf 1) (\<lambda>b1.
     bind_go (go_nth buf 0) (\<lambda>b0.
     Ok (push_bit 56 (ucast b7) OR push_bit 48 (ucast b6) OR push_bit 40 (ucast b5)
         OR push_bit 32 (ucast b4) OR push_bit 24 (ucast b3) OR push_bit 16 (ucast b2)
         OR push_bit 8 (ucast b1) OR ucast b0)))))))))"

section \<open>Chunks and growing buffers\<close>

text \<open>
  \<^verbatim>\<open>int(readUint32(chunk))\<close> is exact on the 64-bit targets, so the size is \<open>unat\<close>.
\<close>

definition readChunk :: "bytes \<Rightarrow> (nat \<times> bytes) sproto" where
  "readChunk chunk =
     (if length chunk < 4 then Err ErrDecode
      else bind_go (readUint32 chunk) (\<lambda>n.
        let sz = unat n; expected = 4 + sz
        in if length chunk < expected then Err ErrDecode
           else bind_go (go_slice chunk 4 expected) (\<lambda>d. Ok (expected, d))))"

text \<open>
  A slice with spare capacity: the backing array and the length of the slice, so the capacity
  is the length of the backing array. \<open>Append\<close> reallocates to twice the need when the
  capacity is short and writes behind the old length otherwise.
\<close>

record slice =
  backing :: bytes
  len :: nat

definition make_slice :: "nat \<Rightarrow> nat \<Rightarrow> slice" where
  "make_slice l c = \<lparr>backing = replicate c 0, len = l\<rparr>"

definition contents :: "slice \<Rightarrow> bytes" where
  "contents s = take (len s) (backing s)"

definition wf_slice :: "slice \<Rightarrow> bool" where
  "wf_slice s \<longleftrightarrow> len s \<le> length (backing s)"

definition Append :: "slice \<Rightarrow> bytes \<Rightarrow> slice" where
  "Append dst src =
     (let l = len dst; n = length src;
          buf = (if l + n > length (backing dst)
                 then go_copy (replicate ((l + n) * 2) 0) (contents dst)
                 else backing dst)
      in \<lparr>backing = take l buf @ src @ drop (l + n) buf, len = l + n\<rparr>)"

section \<open>Byte strings of integers\<close>

definition le16 :: "u16 \<Rightarrow> bytes" where
  "le16 v = [ucast v, ucast (drop_bit 8 v)]"

definition le32 :: "u32 \<Rightarrow> bytes" where
  "le32 v = [ucast v, ucast (drop_bit 8 v), ucast (drop_bit 16 v), ucast (drop_bit 24 v)]"

definition le64 :: "u64 \<Rightarrow> bytes" where
  "le64 v = [ucast v, ucast (drop_bit 8 v), ucast (drop_bit 16 v), ucast (drop_bit 24 v),
             ucast (drop_bit 32 v), ucast (drop_bit 40 v), ucast (drop_bit 48 v),
             ucast (drop_bit 56 v)]"

lemma length_le [simp]: "length (le16 a) = 2" "length (le32 b) = 4" "length (le64 c) = 8"
  by (simp_all add: le16_def le32_def le64_def)

lemma byte_mask: "(0xff :: 'a::len word) = mask 8"
  by (simp add: mask_eq_exp_minus_1)

lemma low_byte: "ucast (v AND 0xff :: 'a::len word) = (ucast v :: byte)"
  by (rule bit_word_eqI) (auto simp: byte_mask bit_simps dest: bit_imp_le_length)

lemma writeUint16_eq:
  "writeUint16 buf v = (if 2 \<le> length buf then Ok (le16 v @ drop 2 buf) else Panic IndexOutOfRange)"
proof (cases "2 \<le> length buf")
  case True
  then obtain a b r where "buf = a # b # r"
    by (metis One_nat_def Suc_1 Suc_le_length_iff)
  then show ?thesis
    by (simp add: writeUint16_def go_set_def low_byte le16_def)
next
  case False
  then show ?thesis
    by (auto simp: writeUint16_def go_set_def)
qed

lemma length_ge_4D: "4 \<le> length xs \<Longrightarrow> \<exists>a b c d r. xs = a # b # c # d # r"
  by (cases xs; cases "tl xs"; cases "tl (tl xs)"; cases "tl (tl (tl xs))") auto

lemma length_ge_8D:
  "8 \<le> length xs \<Longrightarrow> \<exists>a b c d e f g h r. xs = a # b # c # d # e # f # g # h # r"
  using length_ge_4D [of xs] length_ge_4D [of "drop 4 xs"] by fastforce

lemma writeUint32_eq:
  "writeUint32 buf v = (if 4 \<le> length buf then Ok (le32 v @ drop 4 buf) else Panic IndexOutOfRange)"
proof (cases "4 \<le> length buf")
  case True
  then obtain a b c d r where "buf = a # b # c # d # r"
    using length_ge_4D by blast
  then show ?thesis
    by (simp add: writeUint32_def go_set_def low_byte le32_def numeral_eq_Suc)
next
  case False
  then show ?thesis
    by (auto simp: writeUint32_def go_set_def)
qed

lemma writeUint64_eq:
  "writeUint64 buf v = (if 8 \<le> length buf then Ok (le64 v @ drop 8 buf) else Panic IndexOutOfRange)"
proof (cases "8 \<le> length buf")
  case True
  then obtain a b c d e f g h r where "buf = a # b # c # d # e # f # g # h # r"
    using length_ge_8D by blast
  then show ?thesis
    by (simp add: writeUint64_def go_set_def low_byte le64_def numeral_eq_Suc)
next
  case False
  then show ?thesis
    by (auto simp: writeUint64_def go_set_def)
qed

lemma byte_of: "ucast (ucast w :: byte) = take_bit 8 (w :: 'a::len word)"
  by (rule bit_word_eqI) (auto simp: bit_simps dest: bit_imp_le_length)

lemma join_step:
  "push_bit k (take_bit 8 (drop_bit k v)) OR take_bit k v = take_bit (k + 8) (v :: 'a::len word)"
proof (rule bit_word_eqI)
  fix n
  assume "n < LENGTH('a)"
  then show "bit (push_bit k (take_bit 8 (drop_bit k v)) OR take_bit k v) n = bit (take_bit (k + 8) v) n"
    by (cases "n < k") (auto simp: bit_simps)
qed

lemmas join_steps =
  join_step [of 8, simplified] join_step [of 16, simplified] join_step [of 24, simplified]
  join_step [of 32, simplified] join_step [of 40, simplified] join_step [of 48, simplified]
  join_step [of 56, simplified]

lemma readUint16_le16: "readUint16 (le16 v @ rest) = Ok v"
  by (simp add: readUint16_def le16_def go_nth_def byte_of join_steps take_bit_word_eq_self)

lemma readUint32_le32: "readUint32 (le32 v @ rest) = Ok v"
  by (simp add: readUint32_def le32_def go_nth_def byte_of join_steps or.assoc
      take_bit_word_eq_self)

lemma readUint64_le64: "readUint64 (le64 v @ rest) = Ok v"
  by (simp add: readUint64_def le64_def go_nth_def byte_of join_steps or.assoc
      take_bit_word_eq_self)

lemma le16_readUint16: "readUint16 buf = Ok v \<Longrightarrow> buf = le16 v @ drop 2 buf"
proof -
  assume r: "readUint16 buf = Ok v"
  then have "2 \<le> length buf"
    by (auto simp: readUint16_def go_nth_def split: if_splits)
  then obtain a b rest where buf: "buf = a # b # rest"
    by (metis One_nat_def Suc_1 Suc_le_length_iff)
  with r have v: "v = push_bit 8 (ucast b) OR ucast a"
    by (simp add: readUint16_def go_nth_def)
  have "ucast v = a" and "ucast (drop_bit 8 v) = b"
    unfolding v by (rule bit_word_eqI, auto simp: bit_simps dest: bit_imp_le_length)+
  with buf show ?thesis by (simp add: le16_def)
qed

lemma le32_readUint32: "readUint32 buf = Ok v \<Longrightarrow> buf = le32 v @ drop 4 buf"
proof -
  assume r: "readUint32 buf = Ok v"
  then have "4 \<le> length buf"
    by (auto simp: readUint32_def go_nth_def split: if_splits)
  then obtain a b c d rest where buf: "buf = a # b # c # d # rest"
    using length_ge_4D by blast
  with r have v: "v = push_bit 24 (ucast d) OR push_bit 16 (ucast c) OR push_bit 8 (ucast b) OR ucast a"
    by (simp add: readUint32_def go_nth_def)
  have "ucast v = a" and "ucast (drop_bit 8 v) = b"
    and "ucast (drop_bit 16 v) = c" and "ucast (drop_bit 24 v) = d"
    unfolding v by (rule bit_word_eqI, auto simp: bit_simps dest: bit_imp_le_length)+
  with buf show ?thesis by (simp add: le32_def)
qed

section \<open>The contract of one integer width\<close>

locale le_codec =
  fixes width :: nat
    and le :: "'w \<Rightarrow> bytes"
    and put :: "bytes \<Rightarrow> 'w \<Rightarrow> ('e, bytes) go"
    and get :: "bytes \<Rightarrow> ('f, 'w) go"
  assumes le_width: "length (le v) = width"
    and put_law: "put buf v =
      (if width \<le> length buf then Ok (le v @ drop width buf) else Panic IndexOutOfRange)"
    and get_law: "get (le v @ rest) = Ok v"
begin

lemma put_keeps_length: "put buf v = Ok buf' \<Longrightarrow> length buf' = length buf"
  by (auto simp: put_law le_width split: if_splits)

lemma put_at_law:
  "off + width \<le> length buf \<Longrightarrow>
     go_at off (\<lambda>sub. put sub v) buf = Ok (take off buf @ le v @ drop (off + width) buf)"
  by (simp add: go_at_in put_law add.commute)

lemma get_after_put:
  assumes "off + width \<le> length buf"
  shows "bind_go (go_at off (\<lambda>sub. put sub v) buf)
           (\<lambda>buf'. Ok (get (drop off buf'))) = Ok (Ok v)"
  using assms by (simp add: put_at_law get_law)

lemma le_inj: "le v @ r = le w @ s \<Longrightarrow> v = w"
  by (metis go.inject(1) get_law)

end

interpretation le16: le_codec 2 le16 writeUint16 readUint16
  by unfold_locales (simp_all add: writeUint16_eq readUint16_le16)

interpretation le32: le_codec 4 le32 writeUint32 readUint32
  by unfold_locales (simp_all add: writeUint32_eq readUint32_le32)

interpretation le64: le_codec 8 le64 writeUint64 readUint64
  by unfold_locales (simp_all add: writeUint64_eq readUint64_le64)

section \<open>Chunks\<close>

lemma readUint32_total: "4 \<le> length buf \<Longrightarrow> \<exists>v. readUint32 buf = Ok v"
  by (auto simp: readUint32_def go_nth_def)

lemma readUint16_total: "2 \<le> length buf \<Longrightarrow> \<exists>v. readUint16 buf = Ok v"
  by (auto simp: readUint16_def go_nth_def)

lemma readUint64_total: "8 \<le> length buf \<Longrightarrow> \<exists>v. readUint64 buf = Ok v"
  by (auto simp: readUint64_def go_nth_def)

definition chunk_of :: "bytes \<Rightarrow> bytes" where
  "chunk_of d = le32 (word_of_nat (length d)) @ d"

lemma length_chunk_of [simp]: "length (chunk_of d) = 4 + length d"
  by (simp add: chunk_of_def)

lemma readChunk_chunk_of:
  assumes "length d < 2 ^ 32"
  shows "readChunk (chunk_of d @ rest) = Ok (4 + length d, d)"
proof -
  have "unat (word_of_nat (length d) :: u32) = length d"
    using assms by (simp add: unat_of_nat take_bit_nat_eq_self)
  then show ?thesis
    by (simp add: readChunk_def chunk_of_def readUint32_le32 go_slice_def)
qed

lemma readChunk_inv:
  assumes "readChunk chunk = Ok (n, d)"
  shows "n = 4 + length d" and "n \<le> length chunk" and "chunk = chunk_of d @ drop n chunk"
proof -
  from assms obtain v where v: "(readUint32 chunk :: u32 sproto) = Ok v" and n: "n = 4 + unat v"
    and le: "4 + unat v \<le> length chunk" and d: "d = take (unat v) (drop 4 chunk)"
    by (auto simp: readChunk_def Let_def go_slice_def go_elims split: if_splits)
  show n': "n = 4 + length d" and "n \<le> length chunk"
    using n le d by simp_all
  have "length d = unat v"
    using le d by simp
  then have "chunk_of d @ drop n chunk = le32 v @ drop 4 chunk"
    unfolding d n chunk_of_def by (simp add: d flip: drop_drop add.commute)
  then show "chunk = chunk_of d @ drop n chunk"
    using le32_readUint32 [OF v] by simp
qed

lemma readChunk_no_panic: "\<not> is_panic (readChunk chunk)"
proof (cases "4 \<le> length chunk")
  case True
  then obtain v where "(readUint32 chunk :: u32 sproto) = Ok v"
    using readUint32_total by blast
  then show ?thesis
    by (simp add: readChunk_def Let_def go_slice_def)
qed (simp add: readChunk_def)

section \<open>Append\<close>

lemma contents_make_slice [simp]: "contents (make_slice 0 c) = []"
  by (simp add: contents_def make_slice_def)

lemma wf_make_slice [simp]: "l \<le> c \<Longrightarrow> wf_slice (make_slice l c)"
  by (simp add: wf_slice_def make_slice_def)

lemma Append_contents:
  assumes "wf_slice dst"
  shows "contents (Append dst src) = contents dst @ src" and "wf_slice (Append dst src)"
  using assms by (auto simp: Append_def contents_def wf_slice_def go_copy_def Let_def)

end
