(* ===== verification/Go_Strings.thy ===== *)
theory Go_Strings
  imports Go_Prelude
begin

text \<open>
  The functions of Go's \<^verbatim>\<open>strings\<close> and \<^verbatim>\<open>strconv\<close> packages that the sources use, on
  strings as character lists: \<^verbatim>\<open>strings.Split\<close> with a one-character separator,
  \<^verbatim>\<open>strings.HasPrefix\<close>, \<^verbatim>\<open>strings.HasSuffix\<close>, \<^verbatim>\<open>strings.TrimSpace\<close>,
  \<^verbatim>\<open>strconv.ParseInt\<close> in base ten (with \<^verbatim>\<open>Atoi\<close>) and \<^verbatim>\<open>strconv.Itoa\<close>.
  The facts are the laws the parsers and printers rely on: joining inverts splitting and parsing
  inverts printing within the range of the type.
\<close>

section \<open>Splitting\<close>

fun go_split :: "char \<Rightarrow> string \<Rightarrow> string list" where
  "go_split c [] = [[]]"
| "go_split c (x # xs) =
     (if x = c then [] # go_split c xs
      else (case go_split c xs of [] \<Rightarrow> [[x]] | p # ps \<Rightarrow> (x # p) # ps))"

fun go_join :: "string \<Rightarrow> string list \<Rightarrow> string" where
  "go_join sep [] = []"
| "go_join sep [p] = p"
| "go_join sep (p # q # ps) = p @ sep @ go_join sep (q # ps)"

definition has_prefix :: "string \<Rightarrow> string \<Rightarrow> bool" where
  "has_prefix s p \<longleftrightarrow> length p \<le> length s \<and> take (length p) s = p"

definition has_suffix :: "string \<Rightarrow> string \<Rightarrow> bool" where
  "has_suffix s p \<longleftrightarrow> length p \<le> length s \<and> drop (length s - length p) s = p"

definition is_space :: "char \<Rightarrow> bool" where
  "is_space c \<longleftrightarrow> c \<in> {CHR '' '', CHR 0x09, CHR 0x0A, CHR 0x0B, CHR 0x0C, CHR 0x0D, CHR 0x85, CHR 0xA0}"

definition trim_space :: "string \<Rightarrow> string" where
  "trim_space s = rev (dropWhile is_space (rev (dropWhile is_space s)))"

lemma go_split_not_Nil [simp]: "go_split c s \<noteq> []"
  by (induction s) (auto split: list.splits)

lemma go_join_split: "go_join [c] (go_split c s) = s"
proof (induction s)
  case (Cons x xs)
  obtain p ps where "go_split c xs = p # ps"
    by (cases "go_split c xs") auto
  with Cons show ?case
    by (cases ps) auto
qed simp

lemma go_split_join:
  "ps \<noteq> [] \<Longrightarrow> \<forall>p \<in> set ps. c \<notin> set p \<Longrightarrow> go_split c (go_join [c] ps) = ps"
proof (induction "[c]" ps rule: go_join.induct)
  case (2 p)
  then have "c \<notin> set p" by simp
  then show ?case by (induction p) auto
next
  case (3 p q ps)
  then have p: "c \<notin> set p" and rest: "go_split c (go_join [c] (q # ps)) = q # ps"
    by auto
  from p rest show ?case by (induction p) auto
qed simp

section \<open>Decimal numbers\<close>

definition is_digit :: "char \<Rightarrow> bool" where
  "is_digit c \<longleftrightarrow> 48 \<le> (of_char c :: nat) \<and> (of_char c :: nat) \<le> 57"

definition digit_char :: "nat \<Rightarrow> char" where
  "digit_char d = char_of (48 + d)"

fun digits_value :: "nat \<Rightarrow> string \<Rightarrow> nat option" where
  "digits_value acc [] = Some acc"
| "digits_value acc (c # cs) =
     (if is_digit c then digits_value (10 * acc + (of_char c - 48)) cs else None)"

definition parse_digits :: "string \<Rightarrow> nat option" where
  "parse_digits s = (if s = [] then None else digits_value 0 s)"

text \<open>
  \<^verbatim>\<open>strconv.ParseInt(s, 10, bits)\<close>: an optional sign, at least one digit, nothing else,
  and a value in the range of the width; \<open>None\<close> is the error.
\<close>

definition parse_int :: "nat \<Rightarrow> string \<Rightarrow> int option" where
  "parse_int bits s =
     (let (neg, ds) = (case s of [] \<Rightarrow> (False, [])
                       | c # cs \<Rightarrow> if c = CHR ''-'' then (True, cs)
                                   else if c = CHR ''+'' then (False, cs) else (False, s))
      in case parse_digits ds of
           None \<Rightarrow> None
         | Some n \<Rightarrow>
             (let v = (if neg then - int n else int n)
              in if - (2 ^ (bits - 1)) \<le> v \<and> v < 2 ^ (bits - 1) then Some v else None))"

definition atoi :: "string \<Rightarrow> int option" where
  "atoi s = parse_int 64 s"

fun show_nat :: "nat \<Rightarrow> string" where
  "show_nat n = (if n < 10 then [digit_char n] else show_nat (n div 10) @ [digit_char (n mod 10)])"

declare show_nat.simps [simp del]

definition itoa :: "int \<Rightarrow> string" where
  "itoa v = (if v < 0 then CHR ''-'' # show_nat (nat (- v)) else show_nat (nat v))"

lemma digit_char_props:
  assumes "d < 10"
  shows "is_digit (digit_char d)" and "of_char (digit_char d) = 48 + d"
  using assms by (simp_all add: is_digit_def digit_char_def)

lemma digits_value_append:
  "digits_value acc (xs @ ys) = Option.bind (digits_value acc xs) (\<lambda>a. digits_value a ys)"
  by (induction acc xs rule: digits_value.induct) auto

lemma digits_value_show_nat: "digits_value 0 (show_nat n) = Some n"
proof (induction n rule: show_nat.induct)
  case (1 n)
  then show ?case
    by (subst show_nat.simps) (auto simp: digits_value_append digit_char_props)
qed

lemma show_nat_digits: "c \<in> set (show_nat n) \<Longrightarrow> is_digit c"
proof (induction n rule: show_nat.induct)
  case (1 n)
  then show ?case
    by (subst (asm) (2) show_nat.simps) (auto simp: digit_char_props split: if_splits)
qed

lemma show_nat_not_Nil [simp]: "show_nat n \<noteq> []"
  by (subst show_nat.simps) simp

lemma parse_digits_show_nat: "parse_digits (show_nat n) = Some n"
  by (simp add: parse_digits_def digits_value_show_nat)

lemma show_nat_Cons:
  obtains c cs where "show_nat n = c # cs" "c \<noteq> CHR ''-''" "c \<noteq> CHR ''+''"
proof -
  obtain c cs where s: "show_nat n = c # cs"
    by (cases "show_nat n") auto
  then have "is_digit c"
    using show_nat_digits [of c n] by simp
  then have "c \<noteq> CHR ''-''" "c \<noteq> CHR ''+''"
    by (auto simp: is_digit_def)
  with s that show ?thesis by blast
qed

lemma parse_int_itoa:
  assumes "- (2 ^ (bits - 1)) \<le> v" "v < 2 ^ (bits - 1)"
  shows "parse_int bits (itoa v) = Some v"
proof (cases "v < 0")
  case True
  then show ?thesis
    using assms by (simp add: itoa_def parse_int_def parse_digits_show_nat)
next
  case False
  obtain c cs where "show_nat (nat v) = c # cs" "c \<noteq> CHR ''-''" "c \<noteq> CHR ''+''"
    by (rule show_nat_Cons)
  moreover have "parse_digits (show_nat (nat v)) = Some (nat v)"
    by (rule parse_digits_show_nat)
  ultimately show ?thesis
    using assms False by (simp add: itoa_def parse_int_def)
qed

lemma itoa_no_comma: "CHR '','' \<notin> set (itoa v)"
  using show_nat_digits [of "CHR '',''"] by (auto simp: itoa_def is_digit_def)

end
