(* ===== verification/Sproto_Meta.thy ===== *)
theory Sproto_Meta
  imports Sproto_Wire Go_Strings "HOL-Library.Multiset"
begin

text \<open>
  The type descriptions of gosproto (\<^verbatim>\<open>meta.go\<close>, \<^verbatim>\<open>enum.go\<close>). The reflected Go types are an
  environment of named struct types; a struct tag \<^verbatim>\<open>sproto:"..."\<close> is the string that
  \<^verbatim>\<open>Tag.Get\<close> returns. The package registry \<^verbatim>\<open>stMap\<close> maps a struct type to the address of
  its \<^verbatim>\<open>SprotoType\<close> in an explicit heap, because the description of a recursive type points
  to itself while it is still being built. Encoders and decoders, which the code stores as
  function values, are constructors of three datatypes. \<open>getSprotoTypeLocked\<close> recurses
  through the field types; its fuel bounds the nesting and \<open>getSprotoTypeLocked_fuel\<close> shows
  that one more than the number of declared structs is enough. The main result is that a
  successful lookup leaves a registry in which every entry is the exact description of its
  declaration.
\<close>

section \<open>Reflected types\<close>

datatype ikind =
    KInt8 | KUint8 | KInt16 | KUint16 | KInt32 | KUint32 | KInt64 | KUint64 | KInt | KUint

datatype rtype =
    TBool
  | TInt ikind
  | TString
  | TStruct string
  | TPtr rtype
  | TSlice rtype
  | TOther

record StructField =
  fName :: string
  fType :: rtype
  fTag :: string

text \<open>A struct name that the environment does not declare is the empty struct.\<close>

type_synonym tenv = "(string \<times> StructField list) list"

definition struct_fields :: "tenv \<Rightarrow> string \<Rightarrow> StructField list" where
  "struct_fields env t = (case map_of env t of None \<Rightarrow> [] | Some fs \<Rightarrow> fs)"

section \<open>Field and type descriptions\<close>

definition WireVarintName :: string where "WireVarintName = ''integer''"
definition WireBooleanName :: string where "WireBooleanName = ''boolean''"
definition WireBytesName :: string where "WireBytesName = ''string''"
definition WireStructName :: string where "WireStructName = ''struct''"

datatype headerEncoder = HeaderDefault | HeaderBool | HeaderInt

datatype encoder =
    EncInt | EncString | EncBytes | EncStruct
  | EncBoolSlice | EncIntSlice | EncStringSlice | EncStructSlice

datatype decoder =
    DecBool | DecInt | DecString | DecBytes | DecStruct
  | DecBoolSlice | DecIntSlice | DecStringSlice | DecStructSlice

record SprotoField =
  sfName :: string
  sfOrigName :: string
  sfWire :: string
  sfTag :: int
  sfArray :: bool
  sfSt :: "nat option"
  sfIndex :: "nat list"
  sfHeaderEnc :: "headerEncoder option"
  sfEnc :: "encoder option"
  sfDec :: "decoder option"

definition new_SprotoField :: SprotoField where
  "new_SprotoField = \<lparr>sfName = [], sfOrigName = [], sfWire = [], sfTag = 0, sfArray = False,
     sfSt = None, sfIndex = [], sfHeaderEnc = None, sfEnc = None, sfDec = None\<rparr>"

fun parseOptions :: "string list \<Rightarrow> SprotoField \<Rightarrow> SprotoField" where
  "parseOptions [] sf = sf"
| "parseOptions (f # fs) sf =
     parseOptions fs
       (if f = ''array'' then sf\<lparr>sfArray := True\<rparr>
        else if has_prefix f ''name='' then sf\<lparr>sfOrigName := drop (length ''name='') f\<rparr>
        else sf)"

definition parse :: "string \<Rightarrow> SprotoField \<Rightarrow> SprotoField sproto" where
  "parse s sf =
     (let fields = go_split CHR '','' s
      in if length fields < 2 then Err (ErrTagFields s)
         else
           let sf = sf\<lparr>sfWire := fields ! 0\<rparr>
           in if sfWire sf \<in> {WireVarintName, WireBooleanName, WireBytesName, WireStructName}
              then (case atoi (fields ! 1) of
                      None \<Rightarrow> Err (ErrTagNumber s)
                    | Some n \<Rightarrow> Ok (parseOptions (drop 2 fields) (sf\<lparr>sfTag := n\<rparr>)))
              else Err (ErrUnknownWire s))"

definition assertWire :: "string \<Rightarrow> bool \<Rightarrow> SprotoField \<Rightarrow> unit sproto" where
  "assertWire expectedWire expectedArray sf =
     (if sfWire sf \<noteq> expectedWire then Err (ErrExpectWire (sfName sf))
      else if sfArray sf \<noteq> expectedArray then Err (ErrExpectArray (sfName sf))
      else Ok ())"

text \<open>
  The coder selection of \<^verbatim>\<open>setEncAndDec\<close>: the field with its coders, and the struct type to
  describe next, if any. The \<^verbatim>\<open>String\<close> branches call \<^verbatim>\<open>assertWire\<close> and drop its result.
\<close>

definition with_coders ::
  "headerEncoder \<Rightarrow> encoder option \<Rightarrow> decoder \<Rightarrow> SprotoField \<Rightarrow> SprotoField" where
  "with_coders h e d sf = sf\<lparr>sfHeaderEnc := Some h, sfEnc := e, sfDec := Some d\<rparr>"

fun selectCoders :: "rtype \<Rightarrow> SprotoField \<Rightarrow> (SprotoField \<times> string option) sproto" where
  "selectCoders TBool sf =
     bind_go (assertWire WireBooleanName False sf) (\<lambda>_.
     Ok (with_coders HeaderBool None DecBool sf, None))"
| "selectCoders (TInt k) sf =
     bind_go (assertWire WireVarintName False sf) (\<lambda>_.
     Ok (with_coders HeaderInt (Some EncInt) DecInt sf, None))"
| "selectCoders TString sf = Ok (with_coders HeaderDefault (Some EncString) DecString sf, None)"
| "selectCoders (TPtr (TStruct t)) sf =
     bind_go (assertWire WireStructName False sf) (\<lambda>_.
     Ok (with_coders HeaderDefault (Some EncStruct) DecStruct sf, Some t))"
| "selectCoders (TSlice TBool) sf =
     bind_go (assertWire WireBooleanName True sf) (\<lambda>_.
     Ok (with_coders HeaderDefault (Some EncBoolSlice) DecBoolSlice sf, None))"
| "selectCoders (TSlice (TInt k)) sf =
     (if k = KUint8 \<and> sfWire sf = WireBytesName
      then bind_go (assertWire WireBytesName False sf) (\<lambda>_.
           Ok (with_coders HeaderDefault (Some EncBytes) DecBytes sf, None))
      else bind_go (assertWire WireVarintName True sf) (\<lambda>_.
           Ok (with_coders HeaderDefault (Some EncIntSlice) DecIntSlice sf, None)))"
| "selectCoders (TSlice TString) sf =
     Ok (with_coders HeaderDefault (Some EncStringSlice) DecStringSlice sf, None)"
| "selectCoders (TSlice (TPtr (TStruct t))) sf =
     bind_go (assertWire WireStructName True sf) (\<lambda>_.
     Ok (with_coders HeaderDefault (Some EncStructSlice) DecStructSlice sf, Some t))"
| "selectCoders ty sf = Err (ErrNoCoder (sfName sf))"

record SprotoType =
  stName :: string
  stFields :: "SprotoField option list"
  stTagMap :: "int \<Rightarrow> nat option"
  stOrder :: "nat list"

definition field_tag :: "SprotoType \<Rightarrow> nat \<Rightarrow> int" where
  "field_tag st i = sfTag (the (stFields st ! i))"

definition st_Len :: "SprotoType \<Rightarrow> nat" where
  "st_Len st = length (stOrder st)"

definition st_Less :: "SprotoType \<Rightarrow> nat \<Rightarrow> nat \<Rightarrow> bool" where
  "st_Less st i j \<longleftrightarrow> field_tag st (stOrder st ! i) < field_tag st (stOrder st ! j)"

definition st_Swap :: "SprotoType \<Rightarrow> nat \<Rightarrow> nat \<Rightarrow> SprotoType" where
  "st_Swap st i j =
     st\<lparr>stOrder := (stOrder st)[i := stOrder st ! j, j := stOrder st ! i]\<rparr>"

text \<open>
  \<^verbatim>\<open>sort.Sort\<close> leaves the order of fields with equal tags open; those are only fields without
  a tag number, which the encoder skips, so a stable sort is one of its outcomes.
\<close>

definition sort_order :: "SprotoType \<Rightarrow> SprotoType" where
  "sort_order st = st\<lparr>stOrder := sort_key (field_tag st) (stOrder st)\<rparr>"

definition FieldByTag :: "SprotoType \<Rightarrow> int \<Rightarrow> SprotoField option" where
  "FieldByTag st tag = (case stTagMap st tag of Some index \<Rightarrow> stFields st ! index | None \<Rightarrow> None)"

section \<open>The registry\<close>

record registry =
  heap :: "SprotoType list"
  stMap :: "string \<Rightarrow> nat option"

definition empty_registry :: registry where
  "empty_registry = \<lparr>heap = [], stMap = (\<lambda>_. None)\<rparr>"

text \<open>A registry computation; \<open>None\<close> only when the fuel is used up.\<close>

type_synonym 'a reg = "registry \<Rightarrow> ('a sproto \<times> registry) option"

definition setEncAndDec ::
  "(string \<Rightarrow> nat reg) \<Rightarrow> StructField \<Rightarrow> SprotoField \<Rightarrow> SprotoField reg" where
  "setEncAndDec get f sf r =
     (case selectCoders (fType f) sf of
        Ok (sf, None) \<Rightarrow> Some (Ok sf, r)
      | Ok (sf, Some stype) \<Rightarrow>
          (case get stype r of
             None \<Rightarrow> None
           | Some (Ok a, r) \<Rightarrow> Some (Ok (sf\<lparr>sfSt := Some a\<rparr>), r)
           | Some (Err e, r) \<Rightarrow> Some (Err e, r)
           | Some (Panic p, r) \<Rightarrow> Some (Panic p, r))
      | Err e \<Rightarrow> Some (Err e, r)
      | Panic p \<Rightarrow> Some (Panic p, r))"

definition init :: "(string \<Rightarrow> nat reg) \<Rightarrow> nat \<Rightarrow> StructField \<Rightarrow> SprotoField reg" where
  "init get i f r =
     (let sf = new_SprotoField\<lparr>sfName := fName f, sfOrigName := fName f\<rparr>
      in if fTag f = [] then Some (Ok (sf\<lparr>sfTag := -1\<rparr>), r)
         else
           case parse (fTag f) (sf\<lparr>sfIndex := [i]\<rparr>) of
             Ok sf \<Rightarrow> setEncAndDec get f sf r
           | Err e \<Rightarrow> Some (Err e, r)
           | Panic p \<Rightarrow> Some (Panic p, r))"

definition new_SprotoType :: "string \<Rightarrow> nat \<Rightarrow> SprotoType" where
  "new_SprotoType t n =
     \<lparr>stName = t, stFields = replicate n None, stTagMap = (\<lambda>_. None), stOrder = replicate n 0\<rparr>"

text \<open>\<^verbatim>\<open>st.Fields[i] = sf; st.order[i] = i\<close> through the pointer \<open>a\<close>.\<close>

definition store_field :: "nat \<Rightarrow> nat \<Rightarrow> SprotoField \<Rightarrow> registry \<Rightarrow> registry" where
  "store_field a i sf r =
     (let st = heap r ! a
      in r\<lparr>heap := (heap r)[a := st\<lparr>stFields := (stFields st)[i := Some sf],
                                    stOrder := (stOrder st)[i := i]\<rparr>]\<rparr>)"

definition store_tag :: "nat \<Rightarrow> nat \<Rightarrow> int \<Rightarrow> registry \<Rightarrow> registry" where
  "store_tag a i tag r =
     (let st = heap r ! a
      in r\<lparr>heap := (heap r)[a := st\<lparr>stTagMap := (stTagMap st)(tag := Some i)\<rparr>]\<rparr>)"

fun initFields ::
  "(string \<Rightarrow> nat reg) \<Rightarrow> string \<Rightarrow> nat \<Rightarrow> nat \<Rightarrow> StructField list \<Rightarrow> unit reg" where
  "initFields get t a i [] r = Some (Ok (), r)"
| "initFields get t a i (f # fs) r =
     (case init get i f r of
        None \<Rightarrow> None
      | Some (Err e, r) \<Rightarrow> Some (Err e, r\<lparr>stMap := (stMap r)(t := None)\<rparr>)
      | Some (Panic p, r) \<Rightarrow> Some (Panic p, r)
      | Some (Ok sf, r) \<Rightarrow>
          let r = store_field a i sf r
          in if sfTag sf \<ge> 0
             then if stTagMap (heap r ! a) (sfTag sf) \<noteq> None
                  then Some (Err (ErrTagRepeated (sfName sf)), r)
                  else initFields get t a (Suc i) fs (store_tag a i (sfTag sf) r)
             else initFields get t a (Suc i) fs r)"

definition new_entry :: "tenv \<Rightarrow> string \<Rightarrow> registry \<Rightarrow> registry" where
  "new_entry env t r =
     \<lparr>heap = heap r @ [new_SprotoType t (length (struct_fields env t))],
      stMap = (stMap r)(t := Some (length (heap r)))\<rparr>"

primrec getSprotoTypeLocked :: "tenv \<Rightarrow> nat \<Rightarrow> string \<Rightarrow> nat reg" where
  "getSprotoTypeLocked env 0 = (\<lambda>t r. None)"
| "getSprotoTypeLocked env (Suc fuel) = (\<lambda>t r.
     case stMap r t of
       Some a \<Rightarrow> Some (Ok a, r)
     | None \<Rightarrow>
         let a = length (heap r); r = new_entry env t r
         in case initFields (getSprotoTypeLocked env fuel) t a 0 (struct_fields env t) r of
              None \<Rightarrow> None
            | Some (Ok _, r) \<Rightarrow> Some (Ok a, r\<lparr>heap := (heap r)[a := sort_order (heap r ! a)]\<rparr>)
            | Some (Err e, r) \<Rightarrow> Some (Err e, r)
            | Some (Panic p, r) \<Rightarrow> Some (Panic p, r))"

definition GetSprotoType :: "tenv \<Rightarrow> rtype \<Rightarrow> nat reg" where
  "GetSprotoType env ty r =
     (case ty of
        TStruct t \<Rightarrow> getSprotoTypeLocked env (Suc (length env)) t r
      | _ \<Rightarrow> Some (Err ErrKindStruct, r))"

definition EnumName :: "(32 word \<Rightarrow> string option) \<Rightarrow> 32 word \<Rightarrow> string" where
  "EnumName m v = (case m v of Some s \<Rightarrow> s | None \<Rightarrow> itoa (sint v))"

section \<open>What a description should be\<close>

text \<open>
  The description of one field, apart from the address of its struct type: the field with its
  coders and the name of the struct type it refers to.
\<close>

definition field_spec :: "nat \<Rightarrow> StructField \<Rightarrow> (SprotoField \<times> string option) sproto" where
  "field_spec i f =
     (let sf = new_SprotoField\<lparr>sfName := fName f, sfOrigName := fName f\<rparr>
      in if fTag f = [] then Ok (sf\<lparr>sfTag := -1\<rparr>, None)
         else bind_go (parse (fTag f) (sf\<lparr>sfIndex := [i]\<rparr>)) (selectCoders (fType f)))"

definition link_field ::
  "(string \<Rightarrow> nat option) \<Rightarrow> SprotoField \<times> string option \<Rightarrow> SprotoField option" where
  "link_field m x =
     (case x of
        (sf, None) \<Rightarrow> Some sf
      | (sf, Some t) \<Rightarrow> (case m t of None \<Rightarrow> None | Some a \<Rightarrow> Some (sf\<lparr>sfSt := Some a\<rparr>)))"

definition field_ok :: "(string \<Rightarrow> nat option) \<Rightarrow> nat \<Rightarrow> StructField \<Rightarrow> SprotoField option \<Rightarrow> bool" where
  "field_ok m i f d \<longleftrightarrow> d \<noteq> None \<and> (\<exists>x. field_spec i f = Ok x \<and> d = link_field m x)"

text \<open>The first \<open>k\<close> fields are described: the state of the loop of \<open>getSprotoTypeLocked\<close>.\<close>

definition described ::
  "tenv \<Rightarrow> (string \<Rightarrow> nat option) \<Rightarrow> string \<Rightarrow> nat \<Rightarrow> SprotoType \<Rightarrow> bool" where
  "described env m t k st \<longleftrightarrow>
     stName st = t \<and>
     length (stFields st) = length (struct_fields env t) \<and>
     length (stOrder st) = length (struct_fields env t) \<and>
     k \<le> length (struct_fields env t) \<and>
     (\<forall>i < k. field_ok m i (struct_fields env t ! i) (stFields st ! i)) \<and>
     (\<forall>tag i. stTagMap st tag = Some i \<longleftrightarrow> 0 \<le> tag \<and> i < k \<and> field_tag st i = tag)"

definition describes ::
  "tenv \<Rightarrow> (string \<Rightarrow> nat option) \<Rightarrow> string \<Rightarrow> SprotoType \<Rightarrow> bool" where
  "describes env m t st \<longleftrightarrow>
     described env m t (length (struct_fields env t)) st \<and>
     stOrder st = sort_key (field_tag st) [0..<length (struct_fields env t)]"

text \<open>The registry invariant; the types in \<open>P\<close> are still being described.\<close>

definition registry_ok :: "tenv \<Rightarrow> string set \<Rightarrow> registry \<Rightarrow> bool" where
  "registry_ok env P r \<longleftrightarrow>
     inj_on (stMap r) (dom (stMap r)) \<and>
     (\<forall>t a. stMap r t = Some a \<longrightarrow> a < length (heap r)) \<and>
     (\<forall>t a. stMap r t = Some a \<longrightarrow> t \<notin> P \<longrightarrow> describes env (stMap r) t (heap r ! a))"

definition extends :: "nat set \<Rightarrow> registry \<Rightarrow> registry \<Rightarrow> bool" where
  "extends A r r' \<longleftrightarrow>
     stMap r \<subseteq>\<^sub>m stMap r' \<and> length (heap r) \<le> length (heap r') \<and>
     (\<forall>b < length (heap r). b \<notin> A \<longrightarrow> heap r' ! b = heap r ! b)"

lemma extends_refl [simp]: "extends A r r"
  by (simp add: extends_def)

lemma extends_trans: "extends A r r' \<Longrightarrow> extends A r' r'' \<Longrightarrow> extends A r r''"
  by (auto simp: extends_def intro: map_le_trans)

lemma extends_mono: "extends A r r' \<Longrightarrow> A \<subseteq> B \<Longrightarrow> extends B r r'"
  by (auto simp: extends_def)

lemma assertWire_no_panic [simp]: "assertWire w arr sf \<noteq> Panic p"
  by (simp add: assertWire_def)

lemma selectCoders_no_panic [simp]: "selectCoders ty sf \<noteq> Panic p"
  by (induction ty sf rule: selectCoders.induct) (auto simp: go_elims)

lemma parse_no_panic [simp]: "parse s sf \<noteq> Panic p"
  by (simp add: parse_def Let_def split: option.split)

lemma field_spec_no_panic [simp]: "field_spec i f \<noteq> Panic p"
  by (auto simp: field_spec_def Let_def go_elims)

lemma init_eq:
  "init get i f r =
     (case field_spec i f of
        Ok (sf, None) \<Rightarrow> Some (Ok sf, r)
      | Ok (sf, Some t) \<Rightarrow>
          (case get t r of
             None \<Rightarrow> None
           | Some (Ok a, r) \<Rightarrow> Some (Ok (sf\<lparr>sfSt := Some a\<rparr>), r)
           | Some (Err e, r) \<Rightarrow> Some (Err e, r)
           | Some (Panic p, r) \<Rightarrow> Some (Panic p, r))
      | Err e \<Rightarrow> Some (Err e, r)
      | Panic p \<Rightarrow> Some (Panic p, r))"
  by (simp add: init_def field_spec_def setEncAndDec_def Let_def split: go.split)

lemma link_field_mono:
  "link_field m x = Some sf \<Longrightarrow> m \<subseteq>\<^sub>m m' \<Longrightarrow> link_field m' x = Some sf"
  by (fastforce simp: link_field_def map_le_def dom_def split: prod.splits option.splits)

lemma field_ok_mono: "field_ok m i f d \<Longrightarrow> m \<subseteq>\<^sub>m m' \<Longrightarrow> field_ok m' i f d"
  using link_field_mono unfolding field_ok_def by (metis option.exhaust)

lemma described_mono: "described env m t k st \<Longrightarrow> m \<subseteq>\<^sub>m m' \<Longrightarrow> described env m' t k st"
  using field_ok_mono unfolding described_def by blast

lemma describes_mono: "describes env m t st \<Longrightarrow> m \<subseteq>\<^sub>m m' \<Longrightarrow> describes env m' t st"
  using described_mono unfolding describes_def by blast

lemma registry_ok_update:
  assumes "registry_ok env P r" "t \<in> P" "stMap r t = Some a"
  shows "registry_ok env P (r\<lparr>heap := (heap r)[a := st]\<rparr>)"
proof -
  have "(heap r)[a := st] ! b = heap r ! b" if "stMap r t' = Some b" "t' \<notin> P" for t' b
    using assms that unfolding registry_ok_def by (metis domI inj_onD nth_list_update_neq)
  then show ?thesis
    using assms by (simp add: registry_ok_def)
qed

lemma extends_update: "extends {a} r (r\<lparr>heap := (heap r)[a := st]\<rparr>)"
  by (simp add: extends_def)

lemma take_Suc_order:
  assumes "take i xs = [0..<i]" "i < length xs"
  shows "take (Suc i) (xs[i := i]) = [0..<Suc i]"
  using assms by (simp add: take_Suc_conv_app_nth)

text \<open>One round of the field loop: the field is stored and, when it has a tag, entered.\<close>

definition store_round :: "nat \<Rightarrow> nat \<Rightarrow> SprotoField \<Rightarrow> registry \<Rightarrow> registry" where
  "store_round a i sf r =
     (let r = store_field a i sf r in if sfTag sf \<ge> 0 then store_tag a i (sfTag sf) r else r)"

lemma store_round_eq:
  assumes "a < length (heap r)"
  shows "store_round a i sf r =
    r\<lparr>heap := (heap r)[a := (heap r ! a)\<lparr>stFields := (stFields (heap r ! a))[i := Some sf],
       stOrder := (stOrder (heap r ! a))[i := i],
       stTagMap := (if sfTag sf \<ge> 0 then (stTagMap (heap r ! a))(sfTag sf := Some i)
                    else stTagMap (heap r ! a))\<rparr>]\<rparr>"
  using assms by (simp add: store_round_def store_field_def store_tag_def Let_def)

lemma described_store:
  assumes st: "described env m t i st" and i: "i < length (struct_fields env t)"
    and sf: "field_ok m i (struct_fields env t ! i) (Some sf)"
    and new: "sfTag sf \<ge> 0 \<Longrightarrow> stTagMap st (sfTag sf) = None"
  shows "described env m t (Suc i) (st\<lparr>stFields := (stFields st)[i := Some sf],
       stOrder := (stOrder st)[i := i],
       stTagMap := (if sfTag sf \<ge> 0 then (stTagMap st)(sfTag sf := Some i) else stTagMap st)\<rparr>)"
    (is "described _ _ _ _ ?st")
proof -
  have tags [simp]: "field_tag (st\<lparr>stFields := (stFields st)[i := Some sf], stOrder := ord, stTagMap := tm\<rparr>) j =
      (if j = i then sfTag sf else field_tag st j)" for j ord tm
    using st i by (auto simp: field_tag_def described_def nth_list_update)
  have "stTagMap ?st tag = Some j \<longleftrightarrow> 0 \<le> tag \<and> j < Suc i \<and> field_tag ?st j = tag" for tag j
  proof (cases "sfTag sf \<ge> 0 \<and> tag = sfTag sf")
    case True
    with new have "stTagMap st tag = None" by simp
    then have "\<not> (j < i \<and> field_tag st j = tag)"
      using st True unfolding described_def by (metis option.distinct(1))
    with True show ?thesis by auto
  next
    case False
    then have "stTagMap ?st tag = stTagMap st tag" by auto
    moreover have "stTagMap st tag = Some j \<longleftrightarrow> 0 \<le> tag \<and> j < i \<and> field_tag st j = tag"
      using st by (simp add: described_def)
    ultimately show ?thesis using False by auto
  qed
  moreover have "field_ok m j (struct_fields env t ! j) (stFields ?st ! j)" if "j < Suc i" for j
    using that st sf i by (auto simp: described_def nth_list_update less_Suc_eq)
  ultimately show ?thesis
    using st i by (simp add: described_def)
qed

lemma initFields_Cons:
  "initFields get t a i (f # fs) r = Some (Ok (), r'') \<longleftrightarrow>
     (\<exists>sf r'. init get i f r = Some (Ok sf, r') \<and>
        (sfTag sf \<ge> 0 \<longrightarrow> stTagMap (heap (store_field a i sf r') ! a) (sfTag sf) = None) \<and>
        initFields get t a (Suc i) fs (store_round a i sf r') = Some (Ok (), r''))"
  by (auto simp: Let_def store_round_def split: option.splits prod.splits go.splits if_splits)

locale registry_lookup =
  fixes env :: tenv and get :: "string \<Rightarrow> nat reg"
  assumes get_ok: "registry_ok env P r \<Longrightarrow> get t r = Some (Ok a, r') \<Longrightarrow>
      registry_ok env P r' \<and> extends {} r r' \<and> stMap r' t = Some a"
begin

lemma init_ok:
  assumes "registry_ok env P r" "init get i f r = Some (Ok sf, r')"
  shows "registry_ok env P r' \<and> extends {} r r' \<and> field_ok (stMap r') i f (Some sf)"
proof -
  from assms(2) obtain sf' s where spec: "field_spec i f = Ok (sf', s)"
    by (auto simp: init_eq split: go.splits)
  show ?thesis
  proof (cases s)
    case None
    with assms spec show ?thesis
      by (auto simp: init_eq field_ok_def link_field_def)
  next
    case (Some t)
    with assms(2) spec obtain a where "get t r = Some (Ok a, r')" and "sf = sf'\<lparr>sfSt := Some a\<rparr>"
      by (auto simp: init_eq split: option.splits go.splits)
    with get_ok [OF assms(1)] spec Some show ?thesis
      by (auto simp: field_ok_def link_field_def)
  qed
qed

text \<open>One round of the loop: what holds when the field is described, and when it is stored.\<close>

lemma round_init:
  assumes "registry_ok env P r" "stMap r t = Some a" "described env (stMap r) t i (heap r ! a)"
    and "init get i f r = Some (Ok sf, r')"
  shows "registry_ok env P r'" "extends {} r r'" "field_ok (stMap r') i f (Some sf)" "a < length (heap r')"
    "heap r' ! a = heap r ! a" "stMap r' t = Some a" "described env (stMap r') t i (heap r' ! a)"
proof -
  show ok: "registry_ok env P r'" and ext: "extends {} r r'" and "field_ok (stMap r') i f (Some sf)"
    using init_ok [OF assms(1,4)] by auto
  have "a < length (heap r)"
    using assms(1,2) by (simp add: registry_ok_def)
  with ext assms(2) show "a < length (heap r')" and same: "heap r' ! a = heap r ! a" and "stMap r' t = Some a"
    by (auto simp: extends_def map_le_def dom_def)
  show "described env (stMap r') t i (heap r' ! a)"
    using assms(3) ext described_mono unfolding same by (auto simp: extends_def)
qed

lemma round_store:
  assumes "registry_ok env P r" "t \<in> P" "stMap r t = Some a"
    and "described env (stMap r) t i (heap r ! a)" "take i (stOrder (heap r ! a)) = [0..<i]"
    and "i < length (struct_fields env t)" "init get i (struct_fields env t ! i) r = Some (Ok sf, r')"
    and "sfTag sf \<ge> 0 \<Longrightarrow> stTagMap (heap (store_field a i sf r') ! a) (sfTag sf) = None"
  shows "registry_ok env P (store_round a i sf r')" "stMap (store_round a i sf r') t = Some a"
    "described env (stMap (store_round a i sf r')) t (Suc i) (heap (store_round a i sf r') ! a)"
    "take (Suc i) (stOrder (heap (store_round a i sf r') ! a)) = [0..<Suc i]"
    "extends {a} r (store_round a i sf r')"
proof -
  note r' = round_init [OF assms(1,3,4,7)]
  note round = store_round_eq [OF r'(4), of i sf]
  show "registry_ok env P (store_round a i sf r')"
    unfolding round using r'(1) assms(2) r'(6) by (rule registry_ok_update)
  show "stMap (store_round a i sf r') t = Some a"
    using r'(6) by (simp add: round)
  show "described env (stMap (store_round a i sf r')) t (Suc i) (heap (store_round a i sf r') ! a)"
    using described_store [OF r'(7) assms(6) r'(3)] assms(8) r'(4) by (simp add: round store_field_def Let_def)
  show "take (Suc i) (stOrder (heap (store_round a i sf r') ! a)) = [0..<Suc i]"
    using take_Suc_order [OF assms(5)] r'(7) assms(6) r'(4) by (simp add: round described_def r'(5) del: upt_Suc)
  show "extends {a} r (store_round a i sf r')"
    unfolding round by (rule extends_trans [OF extends_mono [OF r'(2)] extends_update]) simp
qed

lemma initFields_ok:
  assumes "registry_ok env P r" "t \<in> P" "stMap r t = Some a"
    and "described env (stMap r) t i (heap r ! a)" "take i (stOrder (heap r ! a)) = [0..<i]"
    and "fs = drop i (struct_fields env t)"
    and "initFields get t a i fs r = Some (Ok (), r'')"
  shows "registry_ok env P r'' \<and> extends {a} r r'' \<and>
    described env (stMap r'') t (length (struct_fields env t)) (heap r'' ! a) \<and>
    stOrder (heap r'' ! a) = [0..<length (struct_fields env t)]"
  using assms
proof (induction fs arbitrary: i r)
  case Nil
  then have "i = length (struct_fields env t)"
    by (simp add: described_def)
  with Nil show ?case by (simp add: described_def)
next
  case (Cons f fs)
  then have i: "i < length (struct_fields env t)"
    by (metis drop_eq_Nil list.discI not_le)
  with Cons.prems(6) have f: "f = struct_fields env t ! i"
    and fs: "fs = drop (Suc i) (struct_fields env t)"
    by (metis Cons_nth_drop_Suc list.inject)+
  from Cons.prems(7) obtain sf r' where step: "init get i f r = Some (Ok sf, r')"
    and new: "sfTag sf \<ge> 0 \<Longrightarrow> stTagMap (heap (store_field a i sf r') ! a) (sfTag sf) = None"
    and rest: "initFields get t a (Suc i) fs (store_round a i sf r') = Some (Ok (), r'')"
    unfolding initFields_Cons by blast
  note r1 = round_store [OF Cons.prems(1-5) i step [unfolded f] new]
  have "registry_ok env P r'' \<and> extends {a} (store_round a i sf r') r'' \<and>
    described env (stMap r'') t (length (struct_fields env t)) (heap r'' ! a) \<and>
    stOrder (heap r'' ! a) = [0..<length (struct_fields env t)]"
    using Cons.IH [OF r1(1) Cons.prems(2) r1(2-4) fs rest] .
  with r1(5) show ?case
    using extends_trans by blast
qed

end


lemma registry_ok_new:
  assumes ok: "registry_ok env P r" and t: "stMap r t = None"
  shows "registry_ok env (insert t P) (new_entry env t r)"
proof -
  have le: "stMap r \<subseteq>\<^sub>m (stMap r)(t := Some (length (heap r)))"
    using t by (auto simp: map_le_def dom_def)
  have bound: "b < length (heap r)" if "stMap r t' = Some b" for t' b
    using ok that by (auto simp: registry_ok_def)
  then have fresh: "stMap r t' \<noteq> Some (length (heap r))" for t'
    by blast
  have "inj_on ((stMap r)(t := Some (length (heap r)))) (dom ((stMap r)(t := Some (length (heap r)))))"
    using ok fresh by (auto simp: registry_ok_def inj_on_def dom_def split: if_splits)
  moreover have "describes env ((stMap r)(t := Some (length (heap r)))) t' (heap (new_entry env t r) ! b)"
    if "stMap r t' = Some b" "t' \<notin> P" for t' b
    using ok that bound [OF that(1)] describes_mono [OF _ le]
    by (simp add: registry_ok_def nth_append new_entry_def)
  ultimately show ?thesis
    using bound by (auto simp: registry_ok_def less_SucI new_entry_def)
qed

lemma described_new [simp]: "described env m t 0 (new_SprotoType t (length (struct_fields env t)))"
  by (simp add: described_def new_SprotoType_def)

lemma field_tag_sort_order [simp]: "field_tag (sort_order st) = field_tag st"
  by (simp add: field_tag_def sort_order_def fun_eq_iff)

lemma describes_sort_order:
  assumes "described env m t (length (struct_fields env t)) st"
    and "stOrder st = [0..<length (struct_fields env t)]"
  shows "describes env m t (sort_order st)"
proof -
  have "described env m t (length (struct_fields env t)) (sort_order st)"
    using assms(1) by (simp add: described_def) (simp add: sort_order_def)
  moreover have "stOrder (sort_order st) = sort_key (field_tag st) [0..<length (struct_fields env t)]"
    using assms(2) by (simp add: sort_order_def)
  ultimately show ?thesis by (simp add: describes_def)
qed

lemma registry_ok_finish:
  assumes ok: "registry_ok env (insert t P) r" and t: "stMap r t = Some a"
    and st: "describes env (stMap r) t st"
  shows "registry_ok env P (r\<lparr>heap := (heap r)[a := st]\<rparr>)"
proof -
  have "registry_ok env (insert t P) (r\<lparr>heap := (heap r)[a := st]\<rparr>)"
    using ok _ t by (rule registry_ok_update) simp
  moreover have "a < length (heap r)"
    using ok t by (simp add: registry_ok_def)
  ultimately have "describes env (stMap r) t' ((heap r)[a := st] ! b)"
    if "stMap r t' = Some b" "t' \<notin> P" for t' b
    using t st that by (cases "t' = t") (auto simp: registry_ok_def)
  then show ?thesis
    using ok by (simp add: registry_ok_def)
qed

lemma getSprotoTypeLocked_lookup: "registry_lookup env (getSprotoTypeLocked env fuel)"
proof (induction fuel)
  case 0
  show ?case by unfold_locales simp_all
next
  case (Suc fuel)
  show ?case
  proof
    fix P r t a r'
    assume ok: "registry_ok env P r" and call: "getSprotoTypeLocked env (Suc fuel) t r = Some (Ok a, r')"
    show "registry_ok env P r' \<and> extends {} r r' \<and> stMap r' t = Some a"
    proof (cases "stMap r t")
      case (Some b)
      with ok call show ?thesis by simp
    next
      case None
      let ?fs = "struct_fields env t"
      let ?r1 = "new_entry env t r"
      from None call obtain r2 where a: "a = length (heap r)"
        and loop: "initFields (getSprotoTypeLocked env fuel) t a 0 ?fs ?r1 = Some (Ok (), r2)"
        and r': "r' = r2\<lparr>heap := (heap r2)[a := sort_order (heap r2 ! a)]\<rparr>"
        by (auto simp: Let_def split: option.splits go.splits)
      have "registry_ok env (insert t P) r2 \<and> extends {a} ?r1 r2 \<and>
          described env (stMap r2) t (length ?fs) (heap r2 ! a) \<and>
          stOrder (heap r2 ! a) = [0..<length ?fs]"
        by (rule registry_lookup.initFields_ok [OF Suc.IH registry_ok_new [OF ok None] _ _ _ _ _ loop])
          (simp_all add: a new_entry_def)
      then have ok2: "registry_ok env (insert t P) r2" and ext: "extends {a} ?r1 r2"
        and d: "describes env (stMap r2) t (sort_order (heap r2 ! a))"
        by (auto intro: describes_sort_order)
      have ta: "stMap r2 t = Some a"
        using ext by (auto simp: extends_def map_le_def a new_entry_def)
      have "extends {} r r'"
        using ext None unfolding extends_def r'
        by (auto simp: a new_entry_def nth_append map_le_def dom_def split: if_splits)
      moreover have "registry_ok env P r'"
        unfolding r' by (rule registry_ok_finish [OF ok2 ta d])
      ultimately show ?thesis
        using ta by (simp add: r')
    qed
  qed
qed

interpretation locked: registry_lookup env "getSprotoTypeLocked env fuel" for env fuel
  by (rule getSprotoTypeLocked_lookup)

section \<open>Enough fuel\<close>

lemma initFields_grows:
  assumes grow: "\<And>t r a r'. get t r = Some (Ok a, r') \<Longrightarrow> dom (stMap r) \<subseteq> dom (stMap r')"
    and "initFields get t a i fs r = Some (Ok (), r'')"
  shows "dom (stMap r) \<subseteq> dom (stMap r'')"
  using assms(2)
proof (induction fs arbitrary: i r)
  case (Cons f fs)
  from Cons.prems obtain sf r' where step: "init get i f r = Some (Ok sf, r')"
    and rest: "initFields get t a (Suc i) fs (store_round a i sf r') = Some (Ok (), r'')"
    unfolding initFields_Cons by blast
  have "dom (stMap r) \<subseteq> dom (stMap r')"
    using step grow by (fastforce simp: init_eq split: go.splits option.splits)
  moreover have "stMap (store_round a i sf r') = stMap r'"
    by (simp add: store_round_def store_field_def store_tag_def Let_def)
  ultimately show ?case
    using Cons.IH [OF rest] by simp
qed simp


lemma init_grows:
  assumes "\<And>t r a r'. get t r = Some (Ok a, r') \<Longrightarrow> dom (stMap r) \<subseteq> dom (stMap r')"
    and "init get i f r = Some (Ok sf, r')"
  shows "dom (stMap r) \<subseteq> dom (stMap r')"
  using assms by (fastforce simp: init_eq split: go.splits option.splits)

lemma stMap_store [simp]:
  "stMap (store_field a i sf r) = stMap r" "stMap (store_tag a i tag r) = stMap r"
  by (simp_all add: store_field_def store_tag_def Let_def)

lemma dom_new_entry [simp]: "dom (stMap (new_entry env t r)) = insert t (dom (stMap r))"
  by (simp add: new_entry_def)

lemma getSprotoTypeLocked_grows:
  "getSprotoTypeLocked env fuel t r = Some (Ok a, r') \<Longrightarrow> dom (stMap r) \<subseteq> dom (stMap r')"
proof (induction fuel arbitrary: t r a r')
  case (Suc fuel)
  show ?case
  proof (cases "stMap r t")
    case None
    with Suc.prems obtain r2 where "initFields (getSprotoTypeLocked env fuel) t (length (heap r)) 0
        (struct_fields env t) (new_entry env t r) = Some (Ok (), r2)"
      and "stMap r' = stMap r2"
      by (auto simp: Let_def split: option.splits go.splits)
    with initFields_grows [where get = "getSprotoTypeLocked env fuel", OF Suc.IH] show ?thesis
      by fastforce
  qed (use Suc.prems in simp)
qed simp

lemma initFields_returns:
  assumes grow: "\<And>t r a r'. get t r = Some (Ok a, r') \<Longrightarrow> dom (stMap r) \<subseteq> dom (stMap r')"
    and ret: "\<And>t r'. dom (stMap r) \<subseteq> dom (stMap r') \<Longrightarrow> get t r' \<noteq> None"
  shows "initFields get t a i fs r \<noteq> None"
  using ret
proof (induction fs arbitrary: i r)
  case (Cons f fs)
  have "init get i f r \<noteq> None"
    using Cons.prems [of r] by (auto simp: init_eq simp del: not_None_eq split: go.splits option.splits)
  then obtain res r' where step: "init get i f r = Some (res, r')"
    by auto
  show ?case
  proof (cases res)
    case (Ok sf)
    have g: "dom (stMap r) \<subseteq> dom (stMap r')"
      by (rule init_grows [OF grow step [unfolded Ok]])
    have "initFields get t a (Suc i) fs r'' \<noteq> None" if "stMap r'' = stMap r'" for r''
      by (rule Cons.IH) (use g that Cons.prems in auto)
    with step Ok show ?thesis
      by (simp add: Let_def)
  qed (use step in auto)
qed simp

lemma getSprotoTypeLocked_fuel:
  "card (dom (map_of env) - dom (stMap r)) < fuel \<Longrightarrow> getSprotoTypeLocked env fuel t r \<noteq> None"
proof (induction fuel arbitrary: t r)
  case (Suc fuel)
  show ?case
  proof (cases "stMap r t = None \<and> t \<in> dom (map_of env)")
    case True
    have ret: "getSprotoTypeLocked env fuel t' r' \<noteq> None"
      if "insert t (dom (stMap r)) \<subseteq> dom (stMap r')" for t' r'
    proof (rule Suc.IH)
      have "dom (map_of env) - dom (stMap r') \<subset> dom (map_of env) - dom (stMap r)"
        using that True by (auto simp: dom_def)
      then have "card (dom (map_of env) - dom (stMap r')) < card (dom (map_of env) - dom (stMap r))"
        by (intro psubset_card_mono) (simp_all add: finite_dom_map_of)
      with Suc.prems show "card (dom (map_of env) - dom (stMap r')) < fuel"
        by simp
    qed
    have "initFields (getSprotoTypeLocked env fuel) t (length (heap r)) 0
        (struct_fields env t) (new_entry env t r) \<noteq> None"
      by (rule initFields_returns [OF getSprotoTypeLocked_grows]) (auto intro: ret [simplified])
    with True show ?thesis
      by (auto simp: Let_def split: go.splits)
  next
    case False
    then show ?thesis
      by (auto simp: Let_def struct_fields_def domIff split: option.splits)
  qed
qed simp


lemma initFields_no_panic:
  assumes "\<And>t r p r'. get t r \<noteq> Some (Panic p, r')"
  shows "initFields get t a i fs r \<noteq> Some (Panic p, r')"
proof (induction fs arbitrary: i r)
  case (Cons f fs)
  have "init get i f r \<noteq> Some (Panic p, r')" for p r'
    using assms by (auto simp: init_eq split: go.splits option.splits)
  with Cons.IH show ?case
    by (auto simp: Let_def split: option.splits go.splits)
qed simp

lemma getSprotoTypeLocked_no_panic: "getSprotoTypeLocked env fuel t r \<noteq> Some (Panic p, r')"
proof (induction fuel arbitrary: t r p r')
  case (Suc fuel)
  then show ?case
    using initFields_no_panic [where get = "getSprotoTypeLocked env fuel"]
    by (auto simp: Let_def split: option.splits go.splits)
qed simp

section \<open>Properties\<close>

text \<open>
  C11: \<^verbatim>\<open>GetSprotoType\<close> always returns, for every declaration of struct types (recursive ones
  too) and every state of the registry: it yields a description or an error and never panics or
  recurses without end.
\<close>

theorem GetSprotoType_total:
  "\<exists>res r'. GetSprotoType env ty r = Some (res, r') \<and> \<not> is_panic res"
proof (cases ty)
  case (TStruct t)
  have "card (dom (map_of env) - dom (stMap r)) \<le> card (dom (map_of env))"
    by (intro card_mono) (auto simp: finite_dom_map_of)
  also have "\<dots> \<le> length env"
    by (metis card_length dom_map_of_conv_image_fst length_map list.set_map)
  finally have "getSprotoTypeLocked env (Suc (length env)) t r \<noteq> None"
    by (intro getSprotoTypeLocked_fuel) simp
  moreover have "getSprotoTypeLocked env (Suc (length env)) t r \<noteq> Some (Panic p, r')" for p r'
    by (rule getSprotoTypeLocked_no_panic)
  ultimately show ?thesis
    unfolding TStruct GetSprotoType_def by (force simp: is_panic_iff)
qed (simp_all add: GetSprotoType_def)

lemma describes_sorted:
  assumes "describes env m t st"
  shows "mset (stOrder st) = mset [0..<length (stFields st)]"
    and "i < j \<Longrightarrow> j < st_Len st \<Longrightarrow> \<not> st_Less st j i"
proof -
  have st: "stOrder st = sort_key (field_tag st) [0..<length (stFields st)]"
    using assms by (simp add: describes_def described_def)
  then show "mset (stOrder st) = mset [0..<length (stFields st)]"
    by simp
  have "sorted (map (field_tag st) (stOrder st))"
    unfolding st by (rule sorted_sort_key)
  then show "\<not> st_Less st j i" if "i < j" "j < st_Len st"
    using that sorted_nth_mono [of "map (field_tag st) (stOrder st)" i j]
    by (simp add: st_Less_def st_Len_def)
qed

lemma describes_FieldByTag:
  assumes "describes env m t st" "0 \<le> tag"
  shows "FieldByTag st tag = Some sf \<longleftrightarrow>
    (\<exists>i < length (stFields st). stFields st ! i = Some sf \<and> sfTag sf = tag)"
proof -
  have d: "stTagMap st tag = Some i \<longleftrightarrow> i < length (stFields st) \<and> field_tag st i = tag" for i
    using assms by (simp add: describes_def described_def)
  have some: "\<exists>sf. stFields st ! i = Some sf" if "i < length (stFields st)" for i
    using assms that by (auto simp: describes_def described_def field_ok_def)
  show ?thesis
  proof (cases "stTagMap st tag")
    case None
    then show ?thesis
      using d by (fastforce simp: FieldByTag_def field_tag_def)
  next
    case (Some i)
    have only: "j = i" if "j < length (stFields st)" "stFields st ! j = Some sf" "sfTag sf = tag" for j
      using Some d [of j] that by (simp add: field_tag_def)
    have "i < length (stFields st)" "field_tag st i = tag"
      using Some d [of i] by simp_all
    moreover obtain sf' where "stFields st ! i = Some sf'"
      using some calculation(1) by blast
    ultimately show ?thesis
      using Some only by (auto simp: FieldByTag_def field_tag_def)
  qed
qed

text \<open>
  C9: A successful \<^verbatim>\<open>GetSprotoType\<close> keeps the registry invariant: every registered type is
  the exact description of its declaration, with every field present and linked to the
  registered description of its struct type; the lookup order is a permutation of the fields
  without an inversion under \<^verbatim>\<open>Less\<close>; and \<^verbatim>\<open>FieldByTag\<close> finds precisely the field
  declared with a tag number.
\<close>

theorem GetSprotoType_describes:
  assumes ok: "registry_ok env {} r"
    and call: "GetSprotoType env (TStruct t) r = Some (Ok a, r')"
  shows "registry_ok env {} r' \<and> stMap r' t = Some a \<and> describes env (stMap r') t (heap r' ! a) \<and>
    mset (stOrder (heap r' ! a)) = mset [0..<length (struct_fields env t)] \<and>
    (\<forall>i j. i < j \<and> j < st_Len (heap r' ! a) \<longrightarrow> \<not> st_Less (heap r' ! a) j i) \<and>
    (\<forall>tag sf. 0 \<le> tag \<longrightarrow>
       (FieldByTag (heap r' ! a) tag = Some sf \<longleftrightarrow>
        (\<exists>i < length (struct_fields env t). stFields (heap r' ! a) ! i = Some sf \<and> sfTag sf = tag)))"
proof -
  have ok': "registry_ok env {} r'" and ta: "stMap r' t = Some a"
    using locked.get_ok [OF ok] call by (auto simp: GetSprotoType_def simp del: getSprotoTypeLocked.simps)
  then have d: "describes env (stMap r') t (heap r' ! a)"
    by (simp add: registry_ok_def)
  then have "length (stFields (heap r' ! a)) = length (struct_fields env t)"
    by (simp add: describes_def described_def)
  with ok' ta d describes_sorted [OF d] describes_FieldByTag [OF d] show ?thesis
    by simp
qed


definition node_env :: tenv where
  "node_env =
     [(''Node'', [\<lparr>fName = ''Next'', fType = TPtr (TStruct ''Node''), fTag = ''struct,3''\<rparr>,
                \<lparr>fName = ''skipped'', fType = TOther, fTag = []\<rparr>,
                \<lparr>fName = ''Value'', fType = TSlice (TInt KInt32), fTag = ''integer,1,array''\<rparr>])]"

lemma registry_ok_empty [simp]: "registry_ok env P empty_registry"
  by (simp add: registry_ok_def empty_registry_def)

theorem GetSprotoType_describes_witness:
  "\<exists>a r'. GetSprotoType node_env (TStruct ''Node'') empty_registry = Some (Ok a, r') \<and>
     registry_ok node_env {} r' \<and> describes node_env (stMap r') ''Node'' (heap r' ! a)"
proof -
  have "map_option (is_ok \<circ> fst) (GetSprotoType node_env (TStruct ''Node'') empty_registry) = Some True"
    by code_simp
  then obtain a r' where call: "GetSprotoType node_env (TStruct ''Node'') empty_registry = Some (Ok a, r')"
    by (auto simp: is_ok_iff)
  show ?thesis
    using GetSprotoType_describes [OF registry_ok_empty call] call by blast
qed

text \<open>The struct tag the code generators write for a field.\<close>

definition tag_string :: "string \<Rightarrow> int \<Rightarrow> bool \<Rightarrow> string \<Rightarrow> string" where
  "tag_string wire n arr nm =
     go_join '','' ([wire, itoa n] @ (if arr then [''array''] else []) @ [''name='' @ nm])"

text \<open>
  \<^verbatim>\<open>parse\<close> reads back what a struct tag states: wire type, tag number in the range of
  \<^verbatim>\<open>int\<close>, the array mark and the original name, whatever the name is (without a comma).
\<close>

theorem parse_tag_string:
  assumes wire: "wire \<in> {WireVarintName, WireBooleanName, WireBytesName, WireStructName}"
    and n: "- (2 ^ 63) \<le> n" "n < 2 ^ 63"
    and nm: "CHR '','' \<notin> set nm"
  shows "parse (tag_string wire n arr nm) sf =
    Ok (sf\<lparr>sfWire := wire, sfTag := n, sfArray := arr \<or> sfArray sf, sfOrigName := nm\<rparr>)"
proof -
  let ?fs = "[wire, itoa n] @ (if arr then [''array''] else []) @ [''name='' @ nm]"
  have "CHR '','' \<notin> set wire"
    using wire by (auto simp: WireVarintName_def WireBooleanName_def WireBytesName_def WireStructName_def)
  then have "go_split CHR '','' (tag_string wire n arr nm) = ?fs"
    unfolding tag_string_def using nm itoa_no_comma by (intro go_split_join) auto
  moreover have "atoi (itoa n) = Some n"
    unfolding atoi_def using n by (intro parse_int_itoa) auto
  moreover have "has_prefix (''name='' @ nm) ''name=''"
    by (simp add: has_prefix_def)
  ultimately show ?thesis
    using wire by (auto simp: parse_def Let_def)
qed

theorem parse_tag_string_witness:
  "parse (tag_string ''integer'' 7 True ''hp'') new_SprotoField =
    Ok (new_SprotoField\<lparr>sfWire := ''integer'', sfTag := 7, sfArray := True, sfOrigName := ''hp''\<rparr>)"
  using parse_tag_string [of "''integer''" 7 "''hp''" True new_SprotoField]
  by (simp add: WireVarintName_def)

text \<open>
  A repeated tag number is reported once only: the branch leaves the half-built description
  registered, so the second lookup of the same type succeeds with it.
\<close>

definition repeated_env :: tenv where
  "repeated_env =
     [(''T'', [\<lparr>fName = ''A'', fType = TBool, fTag = ''boolean,1''\<rparr>,
             \<lparr>fName = ''B'', fType = TBool, fTag = ''boolean,1''\<rparr>,
             \<lparr>fName = ''C'', fType = TBool, fTag = ''boolean,2''\<rparr>])]"

lemma tag_repeated_then_accepted:
  "\<exists>r a r'. GetSprotoType repeated_env (TStruct ''T'') empty_registry = Some (Err (ErrTagRepeated ''B''), r) \<and>
     GetSprotoType repeated_env (TStruct ''T'') r = Some (Ok a, r') \<and> FieldByTag (heap r' ! a) 2 = None"
proof -
  have "map_option fst (GetSprotoType repeated_env (TStruct ''T'') empty_registry) = Some (Err (ErrTagRepeated ''B''))"
    by code_simp
  then obtain r where r: "GetSprotoType repeated_env (TStruct ''T'') empty_registry = Some (Err (ErrTagRepeated ''B''), r)"
    by auto
  have "map_option (\<lambda>(_, r). stMap r ''T'') (GetSprotoType repeated_env (TStruct ''T'') empty_registry) = Some (Some 0)"
    and "map_option (\<lambda>(_, r). FieldByTag (heap r ! 0) 2) (GetSprotoType repeated_env (TStruct ''T'') empty_registry) = Some None"
    by code_simp+
  with r show ?thesis
    by (auto simp: GetSprotoType_def)
qed

end
