(* ===== verification/Sproto_Encode.thy ===== *)
theory Sproto_Encode
  imports Sproto_Meta
begin

unbundle bit_operations_syntax

text \<open>
  The encoder of gosproto (\<^verbatim>\<open>encode.go\<close>). Reflected values are the datatype \<open>gval\<close>: an
  integer keeps its kind and the 64-bit pattern that \<^verbatim>\<open>uint64(v.Int())\<close> or \<^verbatim>\<open>v.Uint()\<close>
  yields, nil pointers and nil slices are \<open>None\<close>, a struct is the list of its fields. The
  encoders write through offsets into preallocated buffers as the code does; the second half
  shows that they produce the concatenation of a header block and of length-prefixed chunks.
\<close>

section \<open>Reflected values\<close>

datatype gval =
    GBool bool
  | GInt ikind u64
  | GString bytes
  | GPtr "gval list option"
  | GBools "bool list option"
  | GInts ikind "u64 list option"
  | GStrings "bytes list option"
  | GPtrs "gval list option list option"
  | GOther

text \<open>A \<^verbatim>\<open>reflect\<close> accessor called on a value of another kind.\<close>

definition reflect_panic :: "'a sproto" where
  "reflect_panic = Panic (Explicit ''reflect'')"

section \<open>Header words\<close>

definition EncodeBufferSize :: nat where "EncodeBufferSize = 4096"
definition MaxEmbeddedInt :: u64 where "MaxEmbeddedInt = 0x7fff - 1"
definition MaxInt32 :: u64 where "MaxInt32 = 0x7fffffff"

fun headerEncodeDefault :: "gval \<Rightarrow> (u16 \<times> bool) sproto" where
  "headerEncodeDefault (GString s) = Ok (0, s = [])"
| "headerEncodeDefault (GPtr p) = Ok (0, p = None)"
| "headerEncodeDefault (GBools p) = Ok (0, p = None)"
| "headerEncodeDefault (GInts k p) = Ok (0, p = None)"
| "headerEncodeDefault (GStrings p) = Ok (0, p = None)"
| "headerEncodeDefault (GPtrs p) = Ok (0, p = None)"
| "headerEncodeDefault _ = reflect_panic"

fun headerEncodeBool :: "gval \<Rightarrow> (u16 \<times> bool) sproto" where
  "headerEncodeBool (GBool b) =
     (if b = False then Ok (0, True)
      else let n = (if b then 1 else 0) in Ok (2 * (n + 1), False))"
| "headerEncodeBool _ = reflect_panic"

fun headerEncodeInt :: "gval \<Rightarrow> (u16 \<times> bool) sproto" where
  "headerEncodeInt v =
     (let n = (case v of GInt k m \<Rightarrow> m | _ \<Rightarrow> 0)
      in if n = 0 then Ok (0, True)
         else if n \<le> MaxEmbeddedInt then Ok (ucast (2 * (n + 1)), False)
         else Ok (0, False))"

definition headerEncode :: "SprotoField \<Rightarrow> gval \<Rightarrow> (u16 \<times> bool) sproto" where
  "headerEncode sf v =
     (case sfHeaderEnc sf of
        None \<Rightarrow> Panic NilDereference
      | Some HeaderDefault \<Rightarrow> headerEncodeDefault v
      | Some HeaderBool \<Rightarrow> headerEncodeBool v
      | Some HeaderInt \<Rightarrow> headerEncodeInt v)"

section \<open>Data of scalar and slice fields\<close>

definition extractInt :: "ikind \<Rightarrow> u64 \<Rightarrow> u64 \<times> nat" where
  "extractInt k m =
     (if k \<in> {KInt8, KInt16, KInt32} then (m, 4)
      else if k \<in> {KInt, KInt64}
      then (m, if - 0x80000000 \<le> sint m \<and> sint m \<le> 0x7fffffff then 4 else 8)
      else if k \<in> {KUint8, KUint16} then (m, 4)
      else (m, if m \<le> MaxInt32 then 4 else 8))"

definition encodeInt :: "ikind \<Rightarrow> u64 \<Rightarrow> bytes option sproto" where
  "encodeInt k m =
     (let (n, sz) = extractInt k m
      in if n \<le> MaxEmbeddedInt then Ok None
         else
           let buf = replicate sz 0
           in bind_go (if sz = 4 then writeUint32 buf (ucast n) else writeUint64 buf n)
                (\<lambda>buf. Ok (Some buf)))"

definition encodeString :: "bytes \<Rightarrow> bytes option sproto" where
  "encodeString str = Ok (Some (go_copy (replicate (length str) 0) str))"

definition encodeBytes :: "u64 list \<Rightarrow> bytes option sproto" where
  "encodeBytes bs = Ok (Some (go_copy (replicate (length bs) 0) (map ucast bs)))"

fun encodeBools_loop :: "nat \<Rightarrow> bool list \<Rightarrow> bytes \<Rightarrow> bytes sproto" where
  "encodeBools_loop i [] buf = Ok buf"
| "encodeBools_loop i (b # bs) buf =
     bind_go (go_set buf i (if b then 1 else 0)) (encodeBools_loop (Suc i) bs)"

definition encodeBoolSlice :: "bool list \<Rightarrow> bytes option sproto" where
  "encodeBoolSlice bs =
     bind_go (encodeBools_loop 0 bs (replicate (length bs) 0)) (\<lambda>buf. Ok (Some buf))"

text \<open>
  The write loop that \<^verbatim>\<open>encodeStringSlice\<close> and \<^verbatim>\<open>encodeStructSlice\<close> share: a length word
  and the bytes, at a running offset.
\<close>

fun writeChunks :: "bytes list \<Rightarrow> nat \<Rightarrow> bytes \<Rightarrow> bytes sproto" where
  "writeChunks [] offset buf = Ok buf"
| "writeChunks (d # ds) offset buf =
     bind_go (go_at offset (\<lambda>sub. writeUint32 sub (word_of_nat (length d))) buf) (\<lambda>buf.
     bind_go (go_at (offset + 4) (\<lambda>sub. Ok (go_copy sub d)) buf) (\<lambda>buf.
     writeChunks ds (offset + (4 + length d)) buf))"

definition chunks_size :: "bytes list \<Rightarrow> nat" where
  "chunks_size ds = sum_list (map (\<lambda>d. 4 + length d) ds)"

definition encodeStringSlice :: "bytes list \<Rightarrow> bytes option sproto" where
  "encodeStringSlice strs =
     bind_go (writeChunks strs 0 (replicate (chunks_size strs) 0)) (\<lambda>buf. Ok (Some buf))"

fun intLen_loop :: "ikind \<Rightarrow> u64 list \<Rightarrow> nat \<Rightarrow> nat" where
  "intLen_loop k [] intLen = intLen"
| "intLen_loop k (m # ms) intLen =
     (let (n, tmp) = extractInt k m in intLen_loop k ms (if tmp > intLen then tmp else intLen))"

fun writeInts :: "nat \<Rightarrow> u64 list \<Rightarrow> nat \<Rightarrow> bytes \<Rightarrow> bytes sproto" where
  "writeInts intLen [] offset buf = Ok buf"
| "writeInts intLen (val # vals) offset buf =
     bind_go (if intLen = 4 then go_at offset (\<lambda>sub. writeUint32 sub (ucast val)) buf
              else go_at offset (\<lambda>sub. writeUint64 sub val) buf)
       (writeInts intLen vals (offset + intLen))"

definition encodeIntSlice :: "ikind \<Rightarrow> u64 list \<Rightarrow> bytes option sproto" where
  "encodeIntSlice k ms =
     (let vals = map (fst \<circ> extractInt k) ms; intLen = intLen_loop k ms 4
      in bind_go (go_set (replicate (1 + intLen * length ms) 0) 0 (word_of_nat intLen)) (\<lambda>buf.
         bind_go (writeInts intLen vals 1 buf) (\<lambda>buf. Ok (Some buf))))"

section \<open>Messages\<close>

definition skipTag :: "int \<Rightarrow> int \<Rightarrow> u16" where
  "skipTag tag nextTag =
     (if nextTag > tag + 1
      then let span = nextTag - tag - 1 in word_of_int ((span - 1) * 2 + 1)
      else 0)"

fun encodeHeaders_loop :: "u16 list \<Rightarrow> nat \<Rightarrow> bytes \<Rightarrow> (nat \<times> bytes) sproto" where
  "encodeHeaders_loop [] i buf = Ok (i, buf)"
| "encodeHeaders_loop (v # vs) i buf =
     bind_go (go_at i (\<lambda>sub. writeUint16 sub v) buf) (encodeHeaders_loop vs (i + 2))"

definition encodeHeaders :: "u16 list \<Rightarrow> nat \<Rightarrow> slice sproto" where
  "encodeHeaders headers reserved =
     bind_go (writeUint16 (replicate ((length headers + 1) * 2 + reserved) 0)
                (word_of_nat (length headers))) (\<lambda>buf.
     bind_go (encodeHeaders_loop headers 2 buf) (\<lambda>(i, buf).
     bind_go (go_slice buf 0 i) (\<lambda>_. Ok \<lparr>backing = buf, len = i\<rparr>)))"

text \<open>The local variables of \<^verbatim>\<open>encodeMessage\<close>.\<close>

record enc_state =
  headers :: "u16 list"
  offset :: nat
  tag :: int
  buffer :: slice
  dataLen :: bytes

definition enc_init :: "SprotoType \<Rightarrow> enc_state" where
  "enc_init st = \<lparr>headers = replicate (length (stFields st) * 2) 0, offset = 0, tag = -1,
     buffer = make_slice 0 EncodeBufferSize, dataLen = replicate 4 0\<rparr>"

definition put_word :: "u16 \<Rightarrow> enc_state \<Rightarrow> enc_state sproto" where
  "put_word w s =
     bind_go (go_set (headers s) (offset s) w) (\<lambda>hs. Ok (s\<lparr>headers := hs, offset := offset s + 1\<rparr>))"

definition put_header :: "int \<Rightarrow> u16 \<Rightarrow> enc_state \<Rightarrow> enc_state sproto" where
  "put_header nextTag header s =
     (let skip = skipTag (tag s) nextTag
      in bind_go (if skip > 0 then put_word skip s else Ok s) (\<lambda>s.
         bind_go (put_word header s) (\<lambda>s. Ok (s\<lparr>tag := nextTag\<rparr>))))"

definition put_data :: "bytes option \<Rightarrow> enc_state \<Rightarrow> enc_state sproto" where
  "put_data data s =
     (case data of
        None \<Rightarrow> Ok s
      | Some d \<Rightarrow>
          bind_go (writeUint32 (dataLen s) (word_of_nat (length d))) (\<lambda>dl.
          Ok (s\<lparr>dataLen := dl, buffer := Append (Append (buffer s) dl) d\<rparr>)))"

definition deref :: "'a list \<Rightarrow> nat option \<Rightarrow> 'a sproto" where
  "deref h a = (case a of Some i \<Rightarrow> if i < length h then Ok (h ! i) else Panic NilDereference
                | None \<Rightarrow> Panic NilDereference)"

definition field_ptr :: "SprotoType \<Rightarrow> nat \<Rightarrow> SprotoField sproto" where
  "field_ptr st i =
     bind_go (go_nth (stFields st) i) (\<lambda>p. case p of Some sf \<Rightarrow> Ok sf | None \<Rightarrow> Panic NilDereference)"

text \<open>\<^verbatim>\<open>FieldByIndex\<close>; with an empty index it is the struct itself, which is not used then.\<close>

definition FieldByIndex :: "gval list \<Rightarrow> nat list \<Rightarrow> gval sproto" where
  "FieldByIndex vs index =
     (case index of [] \<Rightarrow> Ok GOther | [i] \<Rightarrow> go_nth vs i | _ \<Rightarrow> reflect_panic)"

lemma FieldByIndex_size: "FieldByIndex vs index = Ok v \<Longrightarrow> size v \<le> size_list size vs"
  by (auto simp: FieldByIndex_def go_nth_def reflect_panic_def less_imp_le
      split: list.splits if_splits intro!: size_list_estimation')

function (sequential)
    encodeMessage :: "SprotoType list \<Rightarrow> nat option \<Rightarrow> gval list option \<Rightarrow> bytes sproto"
and encodeFields ::
      "SprotoType list \<Rightarrow> SprotoType \<Rightarrow> gval list \<Rightarrow> nat list \<Rightarrow> enc_state \<Rightarrow> enc_state sproto"
and encodeData :: "SprotoType list \<Rightarrow> SprotoField \<Rightarrow> gval \<Rightarrow> bytes option sproto"
and encodeStructs :: "SprotoType list \<Rightarrow> nat option \<Rightarrow> gval list option list \<Rightarrow> bytes list sproto"
where
  "encodeMessage h a p =
     bind_go (deref h a) (\<lambda>st.
     bind_go (case p of None \<Rightarrow> Ok (enc_init st)
              | Some vs \<Rightarrow> encodeFields h st vs (stOrder st) (enc_init st)) (\<lambda>s.
     bind_go (go_slice (headers s) 0 (offset s)) (\<lambda>hs.
     bind_go (encodeHeaders hs (len (buffer s))) (\<lambda>hdr.
     Ok (contents (Append hdr (contents (buffer s))))))))"
| "encodeFields h st vs [] s = Ok s"
| "encodeFields h st vs (i # is) s =
     bind_go (field_ptr st i) (\<lambda>sf.
     bind_go (FieldByIndex vs (sfIndex sf)) (\<lambda>v1.
     if sfTag sf < 0 then encodeFields h st vs is s
     else
       bind_go (headerEncode sf v1) (\<lambda>(header, isNil).
       if isNil then encodeFields h st vs is s
       else
         bind_go (put_header (sfTag sf) header s) (\<lambda>s.
         bind_go (if sfEnc sf = None then Ok None else encodeData h sf v1) (\<lambda>data.
         bind_go (put_data data s) (\<lambda>s.
         encodeFields h st vs is s))))))"
| "encodeData h sf v =
     (case (sfEnc sf, v) of
        (Some EncInt, GInt k m) \<Rightarrow> encodeInt k m
      | (Some EncString, GString s) \<Rightarrow> encodeString s
      | (Some EncBytes, GInts k (Some ms)) \<Rightarrow> encodeBytes ms
      | (Some EncStruct, GPtr p) \<Rightarrow> bind_go (encodeMessage h (sfSt sf) p) (\<lambda>d. Ok (Some d))
      | (Some EncBoolSlice, GBools (Some bs)) \<Rightarrow> encodeBoolSlice bs
      | (Some EncIntSlice, GInts k (Some ms)) \<Rightarrow> encodeIntSlice k ms
      | (Some EncStringSlice, GStrings (Some ss)) \<Rightarrow> encodeStringSlice ss
      | (Some EncStructSlice, GPtrs (Some ps)) \<Rightarrow>
          bind_go (encodeStructs h (sfSt sf) ps) (\<lambda>vals.
          bind_go (writeChunks vals 0 (replicate (chunks_size vals) 0)) (\<lambda>buf. Ok (Some buf)))
      | _ \<Rightarrow> reflect_panic)"
| "encodeStructs h a [] = Ok []"
| "encodeStructs h a (p # ps) =
     bind_go (encodeMessage h a p) (\<lambda>val.
     bind_go (encodeStructs h a ps) (\<lambda>vals. Ok (val # vals)))"
  by pat_completeness auto

termination
  apply (relation "measures
     [case_sum
        (case_sum (\<lambda>(h, a, p). 4 * size_option (size_list size) p)
                  (\<lambda>(h, st, vs, is, s). 4 * size_list size vs + 1))
        (case_sum (\<lambda>(h, sf, v). 4 * size v)
                  (\<lambda>(h, a, ps). 4 * size_list (size_option (size_list size)) ps)),
      case_sum (case_sum (\<lambda>_. 0) (\<lambda>(h, st, vs, is, s). length is)) (\<lambda>_. 0)]")
  apply (auto dest!: FieldByIndex_size)
  done

declare encodeMessage.simps [simp del] encodeData.simps [simp del]

section \<open>Sequential writers\<close>

text \<open>
  The contract of the write loops: one call puts the bytes of its element at the offset and
  leaves the rest of the buffer alone, and the loop advances by the number of bytes written.
\<close>

locale piece_writer =
  fixes piece :: "'x \<Rightarrow> bytes"
    and put :: "'x \<Rightarrow> nat \<Rightarrow> bytes \<Rightarrow> bytes sproto"
    and loop :: "'x list \<Rightarrow> nat \<Rightarrow> bytes \<Rightarrow> bytes sproto"
  assumes loop_Nil: "loop [] off buf = Ok buf"
    and loop_Cons: "loop (x # xs) off buf = bind_go (put x off buf) (loop xs (off + length (piece x)))"
    and put_law: "off + length (piece x) \<le> length buf \<Longrightarrow>
      put x off buf = Ok (take off buf @ piece x @ drop (off + length (piece x)) buf)"
begin

lemma loop_law:
  "off + length (concat (map piece xs)) \<le> length buf \<Longrightarrow>
     loop xs off buf =
       Ok (take off buf @ concat (map piece xs) @ drop (off + length (concat (map piece xs))) buf)"
proof (induction xs arbitrary: off buf)
  case (Cons x xs)
  let ?buf = "take off buf @ piece x @ drop (off + length (piece x)) buf"
  have "loop (x # xs) off buf = loop xs (off + length (piece x)) ?buf"
    using Cons.prems by (simp add: loop_Cons put_law)
  also have "\<dots> = Ok (take (off + length (piece x)) ?buf @ concat (map piece xs) @
      drop (off + length (piece x) + length (concat (map piece xs))) ?buf)"
    using Cons.prems by (intro Cons.IH) auto
  also have "take (off + length (piece x)) ?buf = take off buf @ piece x"
    using Cons.prems by simp
  also have "drop (off + length (piece x) + length (concat (map piece xs))) ?buf =
      drop (off + length (concat (map piece (x # xs)))) buf"
    using Cons.prems by (simp add: ac_simps)
  finally show ?case by simp
qed (simp add: loop_Nil)

lemma loop_fills:
  "length (concat (map piece xs)) = n \<Longrightarrow>
     loop xs 0 (replicate n 0) = Ok (concat (map piece xs))"
  using loop_law [of 0 xs "replicate n 0"] by simp

end

definition bool_byte :: "bool \<Rightarrow> byte" where
  "bool_byte b = (if b then 1 else 0)"

definition int_bytes :: "nat \<Rightarrow> u64 \<Rightarrow> bytes" where
  "int_bytes intLen v = (if intLen = 4 then le32 (ucast v) else le64 v)"

interpretation bools: piece_writer "\<lambda>b. [bool_byte b]" "\<lambda>b off buf. go_set buf off (bool_byte b)"
    "\<lambda>bs off buf. encodeBools_loop off bs buf"
proof
  fix off b and bs :: "bool list" and buf :: bytes
  show "encodeBools_loop off (b # bs) buf =
    bind_go (go_set buf off (bool_byte b)) (\<lambda>buf. encodeBools_loop (off + length [bool_byte b]) bs buf)"
    by (simp add: bool_byte_def)
  show "go_set buf off (bool_byte b) =
      Ok (take off buf @ [bool_byte b] @ drop (off + length [bool_byte b]) buf)"
    if "off + length [bool_byte b] \<le> length buf"
    using that by (simp add: go_set_def upd_conv_take_nth_drop)
qed simp

definition put_chunk :: "bytes \<Rightarrow> nat \<Rightarrow> bytes \<Rightarrow> bytes sproto" where
  "put_chunk d off buf =
     bind_go (go_at off (\<lambda>sub. writeUint32 sub (word_of_nat (length d))) buf)
       (go_at (off + 4) (\<lambda>sub. Ok (go_copy sub d)))"

interpretation chunks: piece_writer chunk_of put_chunk writeChunks
proof
  fix off d and ds :: "bytes list" and buf :: bytes
  show "writeChunks (d # ds) off buf = bind_go (put_chunk d off buf) (writeChunks ds (off + length (chunk_of d)))"
    by (simp add: put_chunk_def bind_go_assoc)
  show "put_chunk d off buf = Ok (take off buf @ chunk_of d @ drop (off + length (chunk_of d)) buf)"
    if "off + length (chunk_of d) \<le> length buf"
    using that by (simp add: put_chunk_def le32.put_at_law go_at_in go_copy_fits chunk_of_def ac_simps)
qed simp

definition put_int :: "nat \<Rightarrow> u64 \<Rightarrow> nat \<Rightarrow> bytes \<Rightarrow> bytes sproto" where
  "put_int intLen v off buf =
     (if intLen = 4 then go_at off (\<lambda>sub. writeUint32 sub (ucast v)) buf
      else go_at off (\<lambda>sub. writeUint64 sub v) buf)"

interpretation ints4: piece_writer "int_bytes 4" "put_int 4" "writeInts 4"
  by unfold_locales (simp_all add: int_bytes_def put_int_def le32.put_at_law)

interpretation ints8: piece_writer "int_bytes 8" "put_int 8" "writeInts 8"
  by unfold_locales (simp_all add: int_bytes_def put_int_def le64.put_at_law)

definition header_loop :: "u16 list \<Rightarrow> nat \<Rightarrow> bytes \<Rightarrow> bytes sproto" where
  "header_loop vs i buf = bind_go (encodeHeaders_loop vs i buf) (\<lambda>(i, buf). Ok buf)"

interpretation words: piece_writer le16 "\<lambda>v off. go_at off (\<lambda>sub. writeUint16 sub v)" header_loop
  by unfold_locales (simp_all add: header_loop_def [abs_def] bind_go_assoc le16.put_at_law)


section \<open>What the encoders write\<close>

lemma encodeBoolSlice_eq: "encodeBoolSlice bs = Ok (Some (map bool_byte bs))"
proof -
  have "concat (map (\<lambda>b. [bool_byte b]) bs) = map bool_byte bs"
    by (induction bs) simp_all
  with bools.loop_fills [of bs "length bs"] show ?thesis
    by (simp add: encodeBoolSlice_def)
qed

lemma chunks_size_eq: "chunks_size ds = length (concat (map chunk_of ds))"
  by (induction ds) (simp_all add: chunks_size_def)

lemma writeChunks_eq:
  "writeChunks ds 0 (replicate (chunks_size ds) 0) = Ok (concat (map chunk_of ds))"
  by (rule chunks.loop_fills) (simp add: chunks_size_eq)

lemma encodeStringSlice_eq: "encodeStringSlice ss = Ok (Some (concat (map chunk_of ss)))"
  by (simp add: encodeStringSlice_def writeChunks_eq)

lemma encodeString_eq: "encodeString s = Ok (Some s)"
  by (simp add: encodeString_def go_copy_def)

lemma encodeBytes_eq: "encodeBytes ms = Ok (Some (map ucast ms))"
  by (simp add: encodeBytes_def go_copy_def)

lemma extractInt_size: "snd (extractInt k m) = 4 \<or> snd (extractInt k m) = 8"
  by (simp add: extractInt_def)

lemma fst_extractInt [simp]: "fst (extractInt k m) = m"
  by (simp add: extractInt_def)

definition wide :: "ikind \<Rightarrow> u64 \<Rightarrow> bool" where
  "wide k m \<longleftrightarrow> snd (extractInt k m) = 8"

definition int_size :: "ikind \<Rightarrow> u64 list \<Rightarrow> nat" where
  "int_size k ms = (if \<exists>m \<in> set ms. wide k m then 8 else 4)"

lemma intLen_loop_8: "intLen_loop k ms 8 = 8"
proof (induction ms)
  case (Cons m ms)
  then show ?case
    using extractInt_size [of k m] by (auto simp: split_def)
qed simp

lemma intLen_loop_eq: "intLen_loop k ms 4 = int_size k ms"
proof (induction ms)
  case (Cons m ms)
  then show ?case
    using extractInt_size [of k m]
    by (auto simp: split_def int_size_def wide_def intLen_loop_8)
qed (simp add: int_size_def)

lemma length_int_bytes: "n \<in> {4, 8} \<Longrightarrow> length (int_bytes n v) = n"
  by (auto simp: int_bytes_def)

lemma length_concat_ints: "n \<in> {4, 8} \<Longrightarrow> length (concat (map (int_bytes n) ms)) = n * length ms"
  by (induction ms) (auto simp: length_int_bytes)

lemma writeInts_eq:
  assumes "n \<in> {4, 8}"
  shows "writeInts n ms 1 (b # replicate (n * length ms) 0) = Ok (b # concat (map (int_bytes n) ms))"
  using assms ints4.loop_law [of 1 ms "b # replicate (n * length ms) 0"]
    ints8.loop_law [of 1 ms "b # replicate (n * length ms) 0"]
  by (auto simp: length_concat_ints)

lemma encodeIntSlice_eq:
  "encodeIntSlice k ms =
     Ok (Some (word_of_nat (int_size k ms) # concat (map (int_bytes (int_size k ms)) ms)))"
proof -
  have "map (fst \<circ> extractInt k) ms = ms"
    by (induction ms) simp_all
  moreover have "int_size k ms \<in> {4, 8}"
    by (simp add: int_size_def)
  ultimately show ?thesis
    using writeInts_eq [of "int_size k ms" ms]
    by (simp add: encodeIntSlice_def intLen_loop_eq go_set_def Let_def)
qed

lemma encodeInt_eq:
  "encodeInt k m = Ok (if m \<le> MaxEmbeddedInt then None
     else Some (int_bytes (if wide k m then 8 else 4) m))"
  using extractInt_size [of k m]
  by (auto simp: encodeInt_def split_def wide_def int_bytes_def writeUint32_eq writeUint64_eq)

lemma encodeHeaders_loop_pos:
  "encodeHeaders_loop vs i buf = Ok (j, buf') \<Longrightarrow> j = i + 2 * length vs"
  by (induction vs i buf rule: encodeHeaders_loop.induct) (auto simp: go_elims)

definition header_block :: "u16 list \<Rightarrow> bytes" where
  "header_block hs = le16 (word_of_nat (length hs)) @ concat (map le16 hs)"

lemma length_words [simp]: "length (concat (map le16 hs)) = 2 * length hs"
  by (induction hs) simp_all

lemma length_header_block [simp]: "length (header_block hs) = 2 + 2 * length hs"
  by (simp add: header_block_def)

lemma encodeHeaders_eq:
  obtains s where "encodeHeaders hs n = Ok s" "contents s = header_block hs" "wf_slice s"
proof -
  let ?k = "2 * length hs"
  let ?buf = "le16 (word_of_nat (length hs)) @ replicate (?k + n) 0"
  have "header_loop hs 2 ?buf = Ok (header_block hs @ replicate n 0)"
    using words.loop_law [of 2 hs ?buf] by (simp add: header_block_def)
  then obtain i where loop: "encodeHeaders_loop hs 2 ?buf = Ok (i, header_block hs @ replicate n 0)"
    by (auto simp: header_loop_def go_elims)
  then have i: "i = length (header_block hs)"
    using encodeHeaders_loop_pos by fastforce
  have "writeUint16 (replicate ((length hs + 1) * 2 + n) 0) (word_of_nat (length hs)) = (Ok ?buf :: bytes sproto)"
    by (simp add: writeUint16_eq add.commute mult.commute)
  with loop i have "encodeHeaders hs n = Ok \<lparr>backing = header_block hs @ replicate n 0, len = i\<rparr>"
    by (simp add: encodeHeaders_def go_slice_def)
  with that i show ?thesis
    by (simp add: contents_def wf_slice_def)
qed


section \<open>Messages as item lists\<close>

text \<open>
  An item is what one encoded field contributes: its tag, its header word and its data.
\<close>

type_synonym item = "int \<times> u16 \<times> bytes option"

fun words_of :: "int \<Rightarrow> item list \<Rightarrow> u16 list" where
  "words_of prev [] = []"
| "words_of prev ((t, w, d) # its) =
     (if skipTag prev t > 0 then [skipTag prev t] else []) @ w # words_of t its"

definition item_chunk :: "item \<Rightarrow> bytes" where
  "item_chunk it = (case it of (t, w, None) \<Rightarrow> [] | (t, w, Some d) \<Rightarrow> chunk_of d)"

definition message_bytes :: "item list \<Rightarrow> bytes" where
  "message_bytes its = header_block (words_of (-1) its) @ concat (map item_chunk its)"

fun encItems :: "SprotoType list \<Rightarrow> SprotoType \<Rightarrow> gval list \<Rightarrow> nat list \<Rightarrow> item list sproto" where
  "encItems h st vs [] = Ok []"
| "encItems h st vs (i # is) =
     bind_go (field_ptr st i) (\<lambda>sf.
     bind_go (FieldByIndex vs (sfIndex sf)) (\<lambda>v1.
     if sfTag sf < 0 then encItems h st vs is
     else
       bind_go (headerEncode sf v1) (\<lambda>(header, isNil).
       if isNil then encItems h st vs is
       else
         bind_go (if sfEnc sf = None then Ok None else encodeData h sf v1) (\<lambda>data.
         bind_go (encItems h st vs is) (\<lambda>its. Ok ((sfTag sf, header, data) # its))))))"

definition enc_words :: "enc_state \<Rightarrow> u16 list" where
  "enc_words s = take (offset s) (headers s)"

definition enc_ok :: "nat \<Rightarrow> enc_state \<Rightarrow> bool" where
  "enc_ok k s \<longleftrightarrow> offset s + 2 * k \<le> length (headers s) \<and> wf_slice (buffer s) \<and> length (dataLen s) = 4"

lemma put_word_ok:
  assumes "offset s < length (headers s)"
  obtains s' where "put_word w s = Ok s'" "enc_words s' = enc_words s @ [w]" "offset s' = Suc (offset s)"
    "length (headers s') = length (headers s)" "tag s' = tag s" "buffer s' = buffer s"
    "dataLen s' = dataLen s"
  using assms that
  by (simp add: put_word_def go_set_def enc_words_def take_list_update_snoc del: take_update_above)

lemma put_header_ok:
  assumes "enc_ok (Suc k) s"
  obtains s' where "put_header t w s = Ok s'"
    "enc_words s' = enc_words s @ (if skipTag (tag s) t > 0 then [skipTag (tag s) t] else []) @ [w]"
    "enc_ok k s'" "tag s' = t" "contents (buffer s') = contents (buffer s)"
proof (cases "skipTag (tag s) t > 0")
  case True
  have off: "offset s < length (headers s)"
    using assms by (simp add: enc_ok_def)
  obtain s1 where s1: "put_word (skipTag (tag s) t) s = Ok s1"
    "enc_words s1 = enc_words s @ [skipTag (tag s) t]" "offset s1 = Suc (offset s)"
    "length (headers s1) = length (headers s)" "buffer s1 = buffer s" "dataLen s1 = dataLen s"
    using put_word_ok [OF off] by metis
  then have off1: "offset s1 < length (headers s1)"
    using assms by (simp add: enc_ok_def)
  obtain s2 where s2: "put_word w s1 = Ok s2"
    "enc_words s2 = enc_words s1 @ [w]" "offset s2 = Suc (offset s1)"
    "length (headers s2) = length (headers s1)" "buffer s2 = buffer s1" "dataLen s2 = dataLen s1"
    using put_word_ok [OF off1] by metis
  show ?thesis
    by (rule that [of "s2\<lparr>tag := t\<rparr>"])
      (use True s1 s2 assms in \<open>simp_all add: put_header_def enc_ok_def enc_words_def\<close>)
next
  case False
  have off: "offset s < length (headers s)"
    using assms by (simp add: enc_ok_def)
  obtain s2 where s2: "put_word w s = Ok s2"
    "enc_words s2 = enc_words s @ [w]" "offset s2 = Suc (offset s)"
    "length (headers s2) = length (headers s)" "buffer s2 = buffer s" "dataLen s2 = dataLen s"
    using put_word_ok [OF off] by metis
  show ?thesis
    by (rule that [of "s2\<lparr>tag := t\<rparr>"])
      (use False s2 assms in \<open>simp_all add: put_header_def enc_ok_def enc_words_def\<close>)
qed

lemma put_data_ok:
  assumes "enc_ok k s"
  obtains s' where "put_data d s = Ok s'" "enc_words s' = enc_words s" "enc_ok k s'" "tag s' = tag s"
    "contents (buffer s') = contents (buffer s) @ item_chunk (t, w, d)"
proof (cases d)
  case None
  with assms that [of s] show ?thesis by (simp add: put_data_def item_chunk_def)
next
  case (Some x)
  from assms have wf: "wf_slice (buffer s)"
    by (simp add: enc_ok_def)
  show ?thesis
    by (rule that [of "s\<lparr>dataLen := le32 (word_of_nat (length x)),
          buffer := Append (Append (buffer s) (le32 (word_of_nat (length x)))) x\<rparr>"])
      (use assms wf Some in \<open>simp_all add: put_data_def writeUint32_eq enc_ok_def enc_words_def
         Append_contents item_chunk_def chunk_of_def\<close>)
qed

lemma encodeFields_items:
  assumes "encItems h st vs is = Ok its" "enc_ok (length is) s"
  shows "\<exists>s'. encodeFields h st vs is s = Ok s' \<and> enc_ok 0 s' \<and>
    enc_words s' = enc_words s @ words_of (tag s) its \<and>
    contents (buffer s') = contents (buffer s) @ concat (map item_chunk its)"
  using assms
proof (induction "is" arbitrary: its s)
  case Nil
  then show ?case by simp
next
  case (Cons i "is")
  have ok: "enc_ok (length is) s"
    using Cons.prems(2) by (simp add: enc_ok_def)
  from Cons.prems(1) obtain sf v1 where f: "field_ptr st i = Ok sf" "FieldByIndex vs (sfIndex sf) = Ok v1"
    by (auto simp: go_elims)
  show ?case
  proof (cases "sfTag sf < 0")
    case True
    with f Cons.prems(1) Cons.IH [OF _ ok] show ?thesis by simp
  next
    case False
    with f Cons.prems(1) obtain w isNil where hd: "headerEncode sf v1 = Ok (w, isNil)"
      by (auto simp: go_elims)
    show ?thesis
    proof (cases isNil)
      case True
      with f False hd Cons.prems(1) Cons.IH [OF _ ok] show ?thesis by simp
    next
      case nonnil: False
      with f False hd Cons.prems(1) obtain d its' where
        d: "(if sfEnc sf = None then Ok None else encodeData h sf v1) = Ok d"
        and its': "encItems h st vs is = Ok its'" and its: "its = (sfTag sf, w, d) # its'"
        by (auto simp: go_elims)
      obtain s1 where s1: "put_header (sfTag sf) w s = Ok s1" "enc_ok (length is) s1" "tag s1 = sfTag sf"
        "enc_words s1 = enc_words s @ (if skipTag (tag s) (sfTag sf) > 0 then [skipTag (tag s) (sfTag sf)] else []) @ [w]"
        "contents (buffer s1) = contents (buffer s)"
        using put_header_ok Cons.prems(2) by (metis length_Cons)
      obtain s2 where s2: "put_data d s1 = Ok s2" "enc_words s2 = enc_words s1" "enc_ok (length is) s2"
        "tag s2 = tag s1" "contents (buffer s2) = contents (buffer s1) @ item_chunk (sfTag sf, w, d)"
        using put_data_ok [OF s1(2)] by metis
      show ?thesis
        using Cons.IH [OF its' s2(3)] f False hd nonnil d its s1 s2 by auto
    qed
  qed
qed

lemma encodeMessage_items:
  assumes "deref h a = Ok st" "length (stOrder st) \<le> length (stFields st)"
    and "encItems h st vs (stOrder st) = Ok its"
  shows "encodeMessage h a (Some vs) = Ok (message_bytes its)"
proof -
  have "enc_ok (length (stOrder st)) (enc_init st)"
    using assms(2) by (simp add: enc_ok_def enc_init_def EncodeBufferSize_def)
  then obtain s where s: "encodeFields h st vs (stOrder st) (enc_init st) = Ok s" "enc_ok 0 s"
    "enc_words s = words_of (-1) its" "contents (buffer s) = concat (map item_chunk its)"
    using encodeFields_items [OF assms(3)] by (fastforce simp: enc_init_def enc_words_def)
  obtain hdr where "encodeHeaders (words_of (-1) its) (len (buffer s)) = Ok hdr"
    "contents hdr = header_block (words_of (-1) its)" "wf_slice hdr"
    by (rule encodeHeaders_eq)
  with s assms(1) show ?thesis
    by (simp add: encodeMessage.simps go_slice_def enc_ok_def enc_words_def Append_contents message_bytes_def)
qed

lemma encodeMessage_nil:
  assumes "deref h a = Ok st"
  shows "encodeMessage h a None = Ok (message_bytes [])"
proof -
  obtain hdr where "encodeHeaders [] 0 = Ok hdr" "contents hdr = header_block []" "wf_slice hdr"
    by (rule encodeHeaders_eq)
  with assms show ?thesis
    by (simp add: encodeMessage.simps go_slice_def enc_init_def make_slice_def Append_contents
        message_bytes_def contents_def [of "\<lparr>backing = _, len = 0\<rparr>"])
qed

end
