(* ===== verification/Sproto_Decode.thy ===== *)
theory Sproto_Decode
  imports Sproto_Encode
begin

unbundle bit_operations_syntax

text \<open>
  The decoder of gosproto (\<^verbatim>\<open>decode.go\<close>). A destination struct is the list of its field
  values together with the name of its Go type, which fixes the kinds the setters use and the
  struct types that \<^verbatim>\<open>reflect.New\<close> allocates. When a call returns an error the destination
  holds the fields decoded so far; that partial content is not part of the model. The message
  for an unknown tag goes to \<^verbatim>\<open>os.Stderr\<close> and is left out too.
\<close>

section \<open>Setters and zero values\<close>

fun is_signed :: "ikind \<Rightarrow> bool" where
  "is_signed k = (k \<in> {KInt8, KInt16, KInt32, KInt64, KInt})"

fun int_width :: "ikind \<Rightarrow> nat" where
  "int_width KInt8 = 8"
| "int_width KUint8 = 8"
| "int_width KInt16 = 16"
| "int_width KUint16 = 16"
| "int_width KInt32 = 32"
| "int_width KUint32 = 32"
| "int_width KInt64 = 64"
| "int_width KUint64 = 64"
| "int_width KInt = 64"
| "int_width KUint = 64"

text \<open>
  \<^verbatim>\<open>SetInt\<close> and \<^verbatim>\<open>SetUint\<close> truncate to the width of the destination; the pattern kept is
  its sign or zero extension.
\<close>

definition set_int :: "ikind \<Rightarrow> u64 \<Rightarrow> u64" where
  "set_int k n =
     (if is_signed k then signed_take_bit (int_width k - 1) n else take_bit (int_width k) n)"

fun zero_val :: "rtype \<Rightarrow> gval" where
  "zero_val TBool = GBool False"
| "zero_val (TInt k) = GInt k 0"
| "zero_val TString = GString []"
| "zero_val (TPtr (TStruct t)) = GPtr None"
| "zero_val (TSlice TBool) = GBools None"
| "zero_val (TSlice (TInt k)) = GInts k None"
| "zero_val (TSlice TString) = GStrings None"
| "zero_val (TSlice (TPtr (TStruct t))) = GPtrs None"
| "zero_val _ = GOther"

definition zero_struct :: "tenv \<Rightarrow> string \<Rightarrow> gval list" where
  "zero_struct env t = map (zero_val \<circ> fType) (struct_fields env t)"

section \<open>Field decoders\<close>

definition decodeBool :: "u16 option \<Rightarrow> gval sproto" where
  "decodeBool val =
     (case val of None \<Rightarrow> Panic NilDereference
      | Some n \<Rightarrow> if n = 0 then Ok (GBool False) else Ok (GBool True))"

definition decodeInt :: "u16 option \<Rightarrow> bytes \<Rightarrow> SprotoField \<Rightarrow> ikind \<Rightarrow> gval sproto" where
  "decodeInt val data sf k =
     bind_go
       (case val of
          Some n \<Rightarrow> Ok (ucast n)
        | None \<Rightarrow>
            if length data = 0 then Ok 0
            else if length data = 4 then bind_go (readUint32 data) (\<lambda>n. Ok (ucast n))
            else if length data = 8 then readUint64 data
            else Err (ErrMalformedInteger (sfName sf)))
       (\<lambda>n. Ok (GInt k (set_int k n)))"

definition decodeString :: "bytes \<Rightarrow> gval sproto" where
  "decodeString data = Ok (GString data)"

definition decodeBytes :: "bytes \<Rightarrow> gval sproto" where
  "decodeBytes data =
     Ok (GInts KUint8 (Some (map ucast (go_copy (replicate (length data) 0) data))))"

definition decodeBoolSlice :: "bytes \<Rightarrow> gval sproto" where
  "decodeBoolSlice data = Ok (GBools (Some (map (\<lambda>v. v \<noteq> 0) data)))"

fun decodeInts_loop :: "ikind \<Rightarrow> nat \<Rightarrow> bytes \<Rightarrow> nat \<Rightarrow> nat \<Rightarrow> u64 list sproto" where
  "decodeInts_loop k intLen data 0 i = Ok []"
| "decodeInts_loop k intLen data (Suc sz) i =
     bind_go (go_from data (i * intLen)) (\<lambda>d.
     bind_go (if intLen = 4 then bind_go (readUint32 d) (\<lambda>n. Ok (ucast n)) else readUint64 d) (\<lambda>n.
     bind_go (decodeInts_loop k intLen data sz (Suc i)) (\<lambda>ns. Ok (set_int k n # ns))))"

definition decodeIntSlice :: "bytes \<Rightarrow> SprotoField \<Rightarrow> ikind \<Rightarrow> gval sproto" where
  "decodeIntSlice data sf k =
     (let dataLen = length data
      in if dataLen < 1 then Err ErrDecode
         else
           let intLen = unat (data ! 0)
           in if intLen = 0 then Panic DivideByZero
              else if (dataLen - 1) mod intLen \<noteq> 0 then Err (ErrMalformedInteger (sfName sf))
              else
                let sz = (dataLen - 1) div intLen
                in bind_go (go_from data 1) (\<lambda>data.
                   bind_go (decodeInts_loop k intLen data sz 0) (\<lambda>vals. Ok (GInts k (Some vals)))))"

lemma readChunk_shorter: "readChunk data = Ok (n, d) \<Longrightarrow> length d + 4 \<le> length data \<and> n = length d + 4"
  using readChunk_inv(1,2) by fastforce

lemma go_from_shorter: "go_from xs n = Ok ys \<Longrightarrow> length ys = length xs - n \<and> n \<le> length xs"
  by (auto simp: go_from_def go_slice_def split: if_splits)

function decodeStrings_loop :: "bytes \<Rightarrow> bytes list sproto" where
  "decodeStrings_loop data =
     (if data = [] then Ok []
      else bind_go (readChunk data) (\<lambda>(expected, val).
           bind_go (go_from data expected) (\<lambda>data.
           bind_go (decodeStrings_loop data) (\<lambda>vals. Ok (val # vals)))))"
  by pat_completeness auto

termination
  by (relation "measure length") (auto dest!: readChunk_shorter go_from_shorter)

definition decodeStringSlice :: "bytes \<Rightarrow> gval sproto" where
  "decodeStringSlice data = bind_go (decodeStrings_loop data) (\<lambda>vals. Ok (GStrings (Some vals)))"

section \<open>Headers\<close>

record Tag =
  Tag_Tag :: u16
  Tag_Val :: "u16 option"

fun decodeHeader_loop :: "bytes \<Rightarrow> nat \<Rightarrow> nat \<Rightarrow> u16 \<Rightarrow> Tag list \<Rightarrow> Tag list sproto" where
  "decodeHeader_loop chunk 0 i tg tags = Ok tags"
| "decodeHeader_loop chunk (Suc fn) i tg tags =
     bind_go (go_from chunk ((i + 1) * 2)) (\<lambda>c.
     bind_go (readUint16 c) (\<lambda>v.
     if v mod 2 \<noteq> 0 then decodeHeader_loop chunk fn (Suc i) (tg + (v + 1) div 2) tags
     else
       let val = (if v \<noteq> 0 then Some (v div 2 - 1) else None)
       in decodeHeader_loop chunk fn (Suc i) (tg + 1) (tags @ [\<lparr>Tag_Tag = tg, Tag_Val = val\<rparr>])))"

definition decodeHeader :: "bytes \<Rightarrow> (nat \<times> Tag list) sproto" where
  "decodeHeader chunk =
     (if length chunk < 2 then Err ErrDecode
      else bind_go (readUint16 chunk) (\<lambda>n.
        let fn = unat n; expected = 2 + fn * 2
        in if length chunk < expected then Err ErrDecode
           else bind_go (decodeHeader_loop chunk fn 0 0 []) (\<lambda>tags. Ok (expected, tags))))"

section \<open>Messages\<close>

definition tag_data :: "bytes \<Rightarrow> nat \<Rightarrow> Tag \<Rightarrow> (nat \<times> bytes) sproto" where
  "tag_data chunk total_used tg =
     (if Tag_Val tg = None
      then bind_go (go_from chunk total_used) (\<lambda>c.
           bind_go (readChunk c) (\<lambda>(used, data). Ok (total_used + used, data)))
      else Ok (total_used, []))"

lemma tag_data_shorter:
  "tag_data chunk n tg = Ok (m, data) \<Longrightarrow> data = [] \<or> length data + 4 \<le> length chunk"
  by (auto simp: tag_data_def go_elims split: if_splits dest!: readChunk_shorter go_from_shorter)

lemma decodeHeader_long: "decodeHeader chunk = Ok x \<Longrightarrow> 2 \<le> length chunk"
  by (auto simp: decodeHeader_def split: if_splits)

text \<open>The type of the destination field \<^verbatim>\<open>v.FieldByIndex(sf.index)\<close>.\<close>

definition field_dest :: "tenv \<Rightarrow> string \<Rightarrow> SprotoField \<Rightarrow> (nat \<times> rtype) sproto" where
  "field_dest env t sf =
     (case sfIndex sf of
        [i] \<Rightarrow> bind_go (go_nth (struct_fields env t) i) (\<lambda>f. Ok (i, fType f))
      | _ \<Rightarrow> reflect_panic)"

function (sequential)
    decodeMessage :: "tenv \<Rightarrow> SprotoType list \<Rightarrow> bytes \<Rightarrow> nat option \<Rightarrow> string \<Rightarrow> gval list \<Rightarrow>
      (nat \<times> gval list) sproto"
and decodeTags :: "tenv \<Rightarrow> SprotoType list \<Rightarrow> bytes \<Rightarrow> SprotoType \<Rightarrow> string \<Rightarrow> Tag list \<Rightarrow> nat \<Rightarrow>
      gval list \<Rightarrow> (nat \<times> gval list) sproto"
and decodeData :: "tenv \<Rightarrow> SprotoType list \<Rightarrow> SprotoField \<Rightarrow> u16 option \<Rightarrow> bytes \<Rightarrow> rtype \<Rightarrow> gval sproto"
and decodeStructs :: "tenv \<Rightarrow> SprotoType list \<Rightarrow> SprotoField \<Rightarrow> string \<Rightarrow> bytes \<Rightarrow>
      gval list option list sproto"
where
  "decodeMessage env h chunk a t vs =
     bind_go (decodeHeader chunk) (\<lambda>(n, tags).
     bind_go (deref h a) (\<lambda>st. decodeTags env h chunk st t tags n vs))"
| "decodeTags env h chunk st t [] n vs = Ok (n, vs)"
| "decodeTags env h chunk st t (tg # tags) n vs =
     bind_go (tag_data chunk n tg) (\<lambda>(n, data).
     case FieldByTag st (uint (Tag_Tag tg)) of
       None \<Rightarrow> decodeTags env h chunk st t tags n vs
     | Some sf \<Rightarrow>
         bind_go (field_dest env t sf) (\<lambda>(i, ty).
         bind_go (decodeData env h sf (Tag_Val tg) data ty) (\<lambda>v.
         decodeTags env h chunk st t tags n (vs[i := v]))))"
| "decodeData env h sf val data ty =
     (case (sfDec sf, ty) of
        (None, _) \<Rightarrow> Panic NilDereference
      | (Some DecBool, TBool) \<Rightarrow> decodeBool val
      | (Some DecInt, TInt k) \<Rightarrow> decodeInt val data sf k
      | (Some DecString, TString) \<Rightarrow> decodeString data
      | (Some DecBytes, TSlice (TInt KUint8)) \<Rightarrow> decodeBytes data
      | (Some DecBoolSlice, TSlice TBool) \<Rightarrow> decodeBoolSlice data
      | (Some DecIntSlice, TSlice (TInt k)) \<Rightarrow> decodeIntSlice data sf k
      | (Some DecStringSlice, TSlice TString) \<Rightarrow> decodeStringSlice data
      | (Some DecStruct, TPtr (TStruct t)) \<Rightarrow>
          bind_go (decodeMessage env h data (sfSt sf) t (zero_struct env t)) (\<lambda>(used, vs).
          if used \<noteq> length data then Err (ErrMalformedStruct (sfName sf)) else Ok (GPtr (Some vs)))
      | (Some DecStructSlice, TSlice (TPtr (TStruct t))) \<Rightarrow>
          bind_go (decodeStructs env h sf t data) (\<lambda>ps. Ok (GPtrs (Some ps)))
      | _ \<Rightarrow> reflect_panic)"
| "decodeStructs env h sf t data =
     (if data = [] then Ok []
      else
        bind_go (readChunk data) (\<lambda>(expected, buf).
        bind_go (decodeMessage env h buf (sfSt sf) t (zero_struct env t)) (\<lambda>(used, vs).
        if used \<noteq> length buf then Err (ErrMalformedStruct (sfName sf))
        else
          bind_go (go_from data expected) (\<lambda>data.
          bind_go (decodeStructs env h sf t data) (\<lambda>ps. Ok (Some vs # ps))))))"
  by pat_completeness auto

text \<open>
  Every nested call gets strictly fewer bytes, because a chunk carries a length word; a field
  whose value sits in the header gets none.
\<close>

termination
  apply (relation "measures
     [case_sum
        (case_sum (\<lambda>(env, h, chunk, a, t, vs). 4 * length chunk)
                  (\<lambda>(env, h, chunk, st, t, tags, n, vs).
                     if 2 \<le> length chunk then 4 * length chunk - 1 else 2))
        (case_sum (\<lambda>(env, h, sf, val, data, ty). 4 * length data + 1)
                  (\<lambda>(env, h, sf, t, data). 4 * length data)),
      case_sum (case_sum (\<lambda>_. 0) (\<lambda>(env, h, chunk, st, t, tags, n, vs). length tags)) (\<lambda>_. 0)]")
  apply (auto dest!: tag_data_shorter decodeHeader_long readChunk_shorter go_from_shorter)
  done

declare decodeMessage.simps [simp del] decodeData.simps [simp del] decodeStructs.simps [simp del]
  decodeStrings_loop.simps [simp del]

end
