(* ===== verification/Sproto_Field.thy ===== *)
theory Sproto_Field
  imports Sproto_Decode
begin

unbundle bit_operations_syntax

text \<open>
  What survives the wire. \<open>typed\<close> says that a value has a Go type of the environment, and
  \<open>wire_image\<close> is the value that decoding its encoding yields: uncoded fields come back as
  zero values, nil elements of a struct slice as zero structs, and integers as the width the
  encoder chose leaves them. The predicate \<open>coded\<close> is the contract between the encoder and the
  decoder of one field; the lemmas establish it for every scalar and slice coder.
\<close>


section \<open>Typed values and their image on the wire\<close>

lemma elem_size: "(v :: gval) \<in> set vs \<Longrightarrow> size v < Suc (size_list size vs)"
  by (induction vs) auto

lemma elems_size:
  "Some vs \<in> set ps \<Longrightarrow> (v :: gval) \<in> set vs \<Longrightarrow>
     size v < Suc (size_list (size_option (size_list size)) ps)"
  by (induction ps) (auto dest: elem_size)

function typed :: "tenv \<Rightarrow> rtype \<Rightarrow> gval \<Rightarrow> bool" where
  "typed env ty (GBool b) = (ty = TBool)"
| "typed env ty (GInt k m) = (ty = TInt k \<and> set_int k m = m)"
| "typed env ty (GString s) = (ty = TString)"
| "typed env ty (GPtr p) =
     (case ty of
        TPtr (TStruct t) \<Rightarrow>
          (case p of None \<Rightarrow> True
           | Some vs \<Rightarrow> list_all2 (\<lambda>f v. typed env (fType f) v) (struct_fields env t) vs)
      | _ \<Rightarrow> False)"
| "typed env ty (GBools p) = (ty = TSlice TBool)"
| "typed env ty (GInts k p) =
     (ty = TSlice (TInt k) \<and>
      (case p of None \<Rightarrow> True | Some ms \<Rightarrow> list_all (\<lambda>m. set_int k m = m) ms))"
| "typed env ty (GStrings p) = (ty = TSlice TString)"
| "typed env ty (GPtrs ps) =
     (case ty of
        TSlice (TPtr (TStruct t)) \<Rightarrow>
          (case ps of None \<Rightarrow> True
           | Some ps \<Rightarrow> list_all (\<lambda>p. case p of None \<Rightarrow> True
               | Some vs \<Rightarrow> list_all2 (\<lambda>f v. typed env (fType f) v) (struct_fields env t) vs) ps)
      | _ \<Rightarrow> False)"
| "typed env ty GOther = (zero_val ty = GOther)"
  by pat_completeness auto

termination
  by (relation "measure (\<lambda>(env, ty, v). size v)") (auto dest: elem_size elems_size)

text \<open>The tag number a field declares; negative when it is not coded.\<close>

definition declared_tag :: "StructField \<Rightarrow> int" where
  "declared_tag f =
     (if fTag f = [] then -1
      else case parse (fTag f) new_SprotoField of Ok sf \<Rightarrow> sfTag sf | _ \<Rightarrow> -1)"

definition narrow :: "ikind \<Rightarrow> u64 \<Rightarrow> u64" where
  "narrow k m = set_int k (ucast (ucast m :: u32))"

definition int_image :: "ikind \<Rightarrow> u64 \<Rightarrow> u64" where
  "int_image k m = (if m \<le> MaxEmbeddedInt \<or> wide k m then m else narrow k m)"

definition ints_image :: "ikind \<Rightarrow> u64 list \<Rightarrow> u64 list" where
  "ints_image k ms = (if \<exists>m \<in> set ms. wide k m then ms else map (narrow k) ms)"

function wire_image :: "tenv \<Rightarrow> rtype \<Rightarrow> gval \<Rightarrow> gval" where
  "wire_image env ty (GBool b) = GBool b"
| "wire_image env ty (GInt k m) = GInt k (int_image k m)"
| "wire_image env ty (GString s) = GString s"
| "wire_image env ty (GPtr p) =
     (case ty of
        TPtr (TStruct t) \<Rightarrow>
          GPtr (map_option (\<lambda>vs. map (\<lambda>(f, v). if declared_tag f < 0 then zero_val (fType f)
            else wire_image env (fType f) v) (zip (struct_fields env t) vs)) p)
      | _ \<Rightarrow> GPtr p)"
| "wire_image env ty (GBools p) = GBools p"
| "wire_image env ty (GInts k p) = GInts k (map_option (ints_image k) p)"
| "wire_image env ty (GStrings p) = GStrings p"
| "wire_image env ty (GPtrs ps) =
     (case ty of
        TSlice (TPtr (TStruct t)) \<Rightarrow>
          GPtrs (map_option (map (\<lambda>p. case p of None \<Rightarrow> Some (zero_struct env t)
            | Some vs \<Rightarrow> Some (map (\<lambda>(f, v). if declared_tag f < 0 then zero_val (fType f)
                else wire_image env (fType f) v) (zip (struct_fields env t) vs)))) ps)
      | _ \<Rightarrow> GPtrs ps)"
| "wire_image env ty GOther = GOther"
  by pat_completeness auto

termination
  by (relation "measure (\<lambda>(env, ty, v). size v)")
    (auto dest: elem_size elems_size dest!: set_zip_rightD)

definition image_struct :: "tenv \<Rightarrow> string \<Rightarrow> gval list \<Rightarrow> gval list" where
  "image_struct env t vs =
     map (\<lambda>(f, v). if declared_tag f < 0 then zero_val (fType f) else wire_image env (fType f) v)
       (zip (struct_fields env t) vs)"

definition typed_struct :: "tenv \<Rightarrow> string \<Rightarrow> gval list \<Rightarrow> bool" where
  "typed_struct env t vs \<longleftrightarrow> list_all2 (\<lambda>f v. typed env (fType f) v) (struct_fields env t) vs"


section \<open>One field\<close>

definition header_val :: "u16 \<Rightarrow> u16 option" where
  "header_val w = (if w \<noteq> 0 then Some (w div 2 - 1) else None)"

definition data_bytes :: "bytes option \<Rightarrow> bytes" where
  "data_bytes d = (case d of None \<Rightarrow> [] | Some x \<Rightarrow> x)"

definition field_data :: "SprotoType list \<Rightarrow> SprotoField \<Rightarrow> gval \<Rightarrow> bytes option sproto" where
  "field_data h sf v = (if sfEnc sf = None then Ok None else encodeData h sf v)"

text \<open>
  What the encoder and the decoder of a field owe each other: a field that is left out has the
  zero value as its image, and one that is written is read back as its image.
\<close>

definition coded :: "tenv \<Rightarrow> SprotoType list \<Rightarrow> SprotoField \<Rightarrow> rtype \<Rightarrow> gval \<Rightarrow> bool" where
  "coded env h sf ty v \<longleftrightarrow>
     (\<exists>w. headerEncode sf v = Ok (w, True) \<and> wire_image env ty v = zero_val ty) \<or>
     (\<exists>w d. headerEncode sf v = Ok (w, False) \<and> field_data h sf v = Ok d \<and>
        even (unat w) \<and> (w = 0 \<longleftrightarrow> d \<noteq> None) \<and>
        (length (data_bytes d) < 2 ^ 32 \<longrightarrow>
           decodeData env h sf (header_val w) (data_bytes d) ty = Ok (wire_image env ty v)))"

lemma coded_nilI:
  "headerEncode sf v = Ok (w, True) \<Longrightarrow> wire_image env ty v = zero_val ty \<Longrightarrow> coded env h sf ty v"
  by (auto simp: coded_def)

lemma coded_dataI:
  assumes "headerEncode sf v = Ok (0, False)" "sfEnc sf \<noteq> None" "encodeData h sf v = Ok (Some x)"
    and "length x < 2 ^ 32 \<Longrightarrow> decodeData env h sf None x ty = Ok (wire_image env ty v)"
  shows "coded env h sf ty v"
  using assms by (simp add: coded_def field_data_def header_val_def data_bytes_def)

lemma coded_embedI:
  assumes "headerEncode sf v = Ok (w, False)" "field_data h sf v = Ok None" "even (unat w)" "w \<noteq> 0"
    and "decodeData env h sf (Some (w div 2 - 1)) [] ty = Ok (wire_image env ty v)"
  shows "coded env h sf ty v"
  using assms by (simp add: coded_def header_val_def data_bytes_def)

lemma embedded_word:
  assumes "m \<le> MaxEmbeddedInt"
  defines "w \<equiv> ucast (2 * (m + 1)) :: u16"
  shows "even (unat w)" and "w \<noteq> 0" and "ucast (w div 2 - 1) = m"
proof -
  have m: "unat m \<le> 32766"
    using assms(1) by (simp add: MaxEmbeddedInt_def word_le_nat_alt)
  then have "unat (2 * (m + 1)) = 2 * (unat m + 1)"
    by (simp add: unat_word_ariths)
  then have w: "unat w = 2 * (unat m + 1)"
    using m unfolding w_def by (simp add: unsigned_ucast_eq take_bit_nat_eq_self)
  then show "even (unat w)" by simp
  from w show "w \<noteq> 0" by auto
  have "unat (w div 2) = unat m + 1"
    using w by (simp add: unat_div)
  then have "unat (w div 2 - 1) = unat m"
    by (metis add_diff_cancel_right' le_add2 unat_1 unat_sub word_le_nat_alt)
  then show "ucast (w div 2 - 1) = m"
    using m by (simp add: word_unat_eq_iff unsigned_ucast_eq take_bit_nat_eq_self)
qed

lemma coded_bool:
  "coded env h (with_coders HeaderBool None DecBool sf) TBool (GBool b)"
proof (cases b)
  case True
  then show ?thesis
    by (intro coded_embedI [where w = 4])
      (simp_all add: headerEncode_def with_coders_def field_data_def decodeData.simps decodeBool_def)
qed (simp add: coded_nilI headerEncode_def with_coders_def)

lemma le_not_Nil [simp]: "le32 v \<noteq> []" "le64 u \<noteq> []"
  by (simp_all add: le32_def le64_def)

lemma readUint32_le32' [simp]: "readUint32 (le32 v) = Ok v"
  using readUint32_le32 [of v "[]"] by simp

lemma readUint64_le64' [simp]: "readUint64 (le64 v) = Ok v"
  using readUint64_le64 [of v "[]"] by simp

lemma coded_int:
  assumes "set_int k m = m"
  shows "coded env h (with_coders HeaderInt (Some EncInt) DecInt sf) (TInt k) (GInt k m)"
    (is "coded env h ?sf _ _")
proof -
  consider (zero) "m = 0" | (small) "m \<noteq> 0" "m \<le> MaxEmbeddedInt" | (big) "\<not> m \<le> MaxEmbeddedInt"
    by blast
  then show ?thesis
  proof cases
    case zero
    then show ?thesis
      by (intro coded_nilI) (simp_all add: headerEncode_def with_coders_def int_image_def)
  next
    case small
    then show ?thesis
      using assms embedded_word [OF small(2)]
      by (intro coded_embedI [where w = "ucast (2 * (m + 1))"])
        (simp_all add: headerEncode_def with_coders_def field_data_def encodeData.simps
          encodeInt_eq decodeData.simps decodeInt_def int_image_def del: distrib_left_numeral)
  next
    case big
    then have "m \<noteq> 0" by auto
    with big show ?thesis
      using assms
      by (intro coded_dataI [where x = "int_bytes (if wide k m then 8 else 4) m"])
        (auto simp: headerEncode_def with_coders_def encodeData.simps encodeInt_eq decodeData.simps
          decodeInt_def int_image_def int_bytes_def narrow_def)
  qed
qed

lemma coded_string: "coded env h (with_coders HeaderDefault (Some EncString) DecString sf) TString (GString s)"
proof (cases "s = []")
  case True
  then show ?thesis
    by (intro coded_nilI) (simp_all add: headerEncode_def with_coders_def)
next
  case False
  then show ?thesis
    by (intro coded_dataI [where x = s])
      (simp_all add: headerEncode_def with_coders_def encodeData.simps encodeString_eq
        decodeData.simps decodeString_def)
qed

lemma set_int_byte:
  assumes "set_int KUint8 m = m"
  shows "narrow KUint8 m = m" and "ucast (ucast m :: byte) = m"
proof -
  from assms have m: "take_bit 8 m = m" by (simp add: set_int_def)
  have "ucast (ucast m :: byte) = take_bit 8 m"
    by (rule bit_word_eqI) (auto simp: bit_simps dest: bit_imp_le_length)
  moreover have "take_bit 8 (ucast (ucast m :: u32)) = take_bit 8 m"
    by (rule bit_word_eqI) (auto simp: bit_simps dest: bit_imp_le_length)
  ultimately show "narrow KUint8 m = m" and "ucast (ucast m :: byte) = m"
    using m by (simp_all add: narrow_def set_int_def)
qed

lemma ints_image_bytes: "list_all (\<lambda>m. set_int KUint8 m = m) ms \<Longrightarrow> ints_image KUint8 ms = ms"
  by (auto simp: ints_image_def list_all_iff set_int_byte intro!: map_idI)

lemma coded_bytes:
  assumes "typed env (TSlice (TInt KUint8)) (GInts KUint8 p)"
  shows "coded env h (with_coders HeaderDefault (Some EncBytes) DecBytes sf) (TSlice (TInt KUint8)) (GInts KUint8 p)"
proof (cases p)
  case None
  then show ?thesis
    by (intro coded_nilI) (simp_all add: headerEncode_def with_coders_def)
next
  case (Some ms)
  with assms have ms: "list_all (\<lambda>m. set_int KUint8 m = m) ms" by simp
  then have "map (ucast \<circ> (ucast :: u64 \<Rightarrow> byte)) ms = ms"
    by (auto simp: list_all_iff set_int_byte intro!: map_idI)
  with Some ms show ?thesis
    by (intro coded_dataI [where x = "map ucast ms"])
      (simp_all add: headerEncode_def with_coders_def encodeData.simps encodeBytes_eq
        decodeData.simps decodeBytes_def go_copy_def ints_image_bytes)
qed

lemma coded_bools:
  "coded env h (with_coders HeaderDefault (Some EncBoolSlice) DecBoolSlice sf) (TSlice TBool) (GBools p)"
proof (cases p)
  case None
  then show ?thesis
    by (intro coded_nilI) (simp_all add: headerEncode_def with_coders_def)
next
  case (Some bs)
  have "map ((\<lambda>v. v \<noteq> 0) \<circ> bool_byte) bs = bs"
    by (rule map_idI) (simp add: bool_byte_def)
  with Some show ?thesis
    by (intro coded_dataI [where x = "map bool_byte bs"])
      (simp_all add: headerEncode_def with_coders_def encodeData.simps encodeBoolSlice_eq
        decodeData.simps decodeBoolSlice_def)
qed


definition read_int :: "ikind \<Rightarrow> nat \<Rightarrow> u64 \<Rightarrow> u64" where
  "read_int k n m = (if n = 4 then narrow k m else set_int k m)"

lemma decodeInts_loop_eq:
  assumes "n \<in> {4, 8}" "length pre = i * n"
  shows "decodeInts_loop k n (pre @ concat (map (int_bytes n) ms)) (length ms) i = Ok (map (read_int k n) ms)"
  using assms(2)
proof (induction ms arbitrary: i pre)
  case (Cons m ms)
  have len: "length (int_bytes n m) = n"
    using assms(1) by (rule length_int_bytes)
  have "decodeInts_loop k n ((pre @ int_bytes n m) @ concat (map (int_bytes n) ms)) (length ms) (Suc i)
      = Ok (map (read_int k n) ms)"
    using Cons.prems len by (intro Cons.IH) simp
  moreover have "i * n \<le> length pre" "drop (i * n) (pre @ int_bytes n m @ concat (map (int_bytes n) ms))
      = int_bytes n m @ concat (map (int_bytes n) ms)"
    using Cons.prems by simp_all
  moreover have "(if n = 4 then bind_go (readUint32 (int_bytes n m @ r)) (\<lambda>n. Ok (ucast n))
      else readUint64 (int_bytes n m @ r)) = (Ok (if n = 4 then ucast (ucast m :: u32) else m) :: u64 sproto)" for r
    by (simp add: int_bytes_def readUint32_le32 readUint64_le64)
  moreover have "set_int k (if n = 4 then ucast (ucast m :: u32) else m) = read_int k n m"
    by (simp add: read_int_def narrow_def)
  ultimately show ?case
    by (simp add: go_from_in)
qed simp

lemma coded_ints:
  assumes "typed env (TSlice (TInt k)) (GInts k p)"
  shows "coded env h (with_coders HeaderDefault (Some EncIntSlice) DecIntSlice sf) (TSlice (TInt k)) (GInts k p)"
proof (cases p)
  case None
  then show ?thesis
    by (intro coded_nilI) (simp_all add: headerEncode_def with_coders_def)
next
  case (Some ms)
  let ?n = "int_size k ms"
  have n: "?n \<in> {4, 8}"
    by (simp add: int_size_def)
  have "map (read_int k ?n) ms = ints_image k ms"
    using assms Some
    by (auto simp: read_int_def int_size_def ints_image_def list_all_iff intro!: map_idI)
  moreover have "decodeInts_loop k ?n (concat (map (int_bytes ?n) ms)) (length ms) 0 = Ok (map (read_int k ?n) ms)"
    using decodeInts_loop_eq [OF n, of "[]" 0] by simp
  moreover have "unat (word_of_nat ?n :: byte) = ?n"
    using n by auto
  ultimately show ?thesis
    using Some n
    by (intro coded_dataI [where x = "word_of_nat ?n # concat (map (int_bytes ?n) ms)"])
      (auto simp: headerEncode_def with_coders_def encodeData.simps encodeIntSlice_eq
        decodeData.simps decodeIntSlice_def Let_def go_from_in length_concat_ints)
qed

lemma chunk_of_not_Nil [simp]: "chunk_of d \<noteq> []"
  by (simp add: chunk_of_def)

lemma decodeStrings_loop_eq:
  "length (concat (map chunk_of ss)) < 2 ^ 32 \<Longrightarrow> decodeStrings_loop (concat (map chunk_of ss)) = Ok ss"
proof (induction ss)
  case Nil
  then show ?case by (simp add: decodeStrings_loop.simps)
next
  case (Cons s ss)
  then have "readChunk (chunk_of s @ concat (map chunk_of ss)) = Ok (4 + length s, s)"
    by (intro readChunk_chunk_of) simp
  with Cons show ?case
    by (subst decodeStrings_loop.simps) (simp add: go_from_in)
qed

lemma coded_strings:
  "coded env h (with_coders HeaderDefault (Some EncStringSlice) DecStringSlice sf) (TSlice TString) (GStrings p)"
proof (cases p)
  case None
  then show ?thesis
    by (intro coded_nilI) (simp_all add: headerEncode_def with_coders_def)
next
  case (Some ss)
  then show ?thesis
    by (intro coded_dataI [where x = "concat (map chunk_of ss)"])
      (simp_all add: headerEncode_def with_coders_def encodeData.simps encodeStringSlice_eq
        decodeData.simps decodeStringSlice_def decodeStrings_loop_eq del: length_concat)
qed

end
