(* ===== verification/Sproto_Message.thy ===== *)
theory Sproto_Message
  imports Sproto_Field
begin

unbundle bit_operations_syntax

text \<open>
  One message: the header words written for a list of items are read back as the tags of the
  items, and a struct all of whose fields are \<open>coded\<close> is decoded from its encoding, with
  arbitrary bytes behind it.
\<close>

section \<open>The header block\<close>

fun scan_words :: "u16 \<Rightarrow> u16 list \<Rightarrow> Tag list" where
  "scan_words tg [] = []"
| "scan_words tg (v # vs) =
     (if v mod 2 \<noteq> 0 then scan_words (tg + (v + 1) div 2) vs
      else \<lparr>Tag_Tag = tg, Tag_Val = header_val v\<rparr> # scan_words (tg + 1) vs)"

lemma decodeHeader_loop_scan:
  "drop (2 * (i + 1)) chunk = concat (map le16 ws) @ rest \<Longrightarrow> 2 * (i + 1) \<le> length chunk \<Longrightarrow>
     decodeHeader_loop chunk (length ws) i tg tags = Ok (tags @ scan_words tg ws)"
proof (induction ws arbitrary: i tg tags)
  case (Cons w ws)
  have "drop (2 * (Suc i + 1)) chunk = drop 2 (drop (2 * (i + 1)) chunk)"
    by (simp add: algebra_simps)
  also have "\<dots> = concat (map le16 ws) @ rest"
    unfolding Cons.prems(1) by simp
  finally have next_words: "drop (2 * (Suc i + 1)) chunk = concat (map le16 ws) @ rest" .
  have "length (drop (2 * (i + 1)) chunk) \<ge> 2"
    unfolding Cons.prems(1) by simp
  then have bound: "2 * (Suc i + 1) \<le> length chunk"
    by simp
  have c: "go_from chunk ((i + 1) * 2) = Ok (le16 w @ concat (map le16 ws) @ rest)"
    using Cons.prems by (simp add: go_from_in mult.commute)
  show ?case
    using Cons.IH [OF next_words bound]
    by (simp add: c [simplified] readUint16_le16 Let_def header_val_def)
qed simp

lemma word_odd_iff: "(v :: u16) mod 2 = 0 \<longleftrightarrow> even (unat v)"
proof -
  have "unat (v mod 2) = unat v mod 2"
    by (simp add: unat_mod)
  then show ?thesis
    by (metis even_iff_mod_2_eq_zero unat_eq_zero)
qed

lemma skipTag_val:
  assumes "-1 \<le> prev" "prev + 1 < t" "t < 32768"
  shows "unat (skipTag prev t) = nat (2 * (t - prev - 1) - 1)"
    and "word_of_int (prev + 1) + (skipTag prev t + 1) div 2 = (word_of_int t :: u16)"
proof -
  define span where "span = t - prev - 1"
  have span: "1 \<le> span" "span \<le> 32767"
    using assms by (auto simp: span_def)
  have s: "skipTag prev t = word_of_int (2 * span - 1)"
    using assms by (simp add: skipTag_def span_def Let_def algebra_simps)
  have u: "uint (skipTag prev t) = 2 * span - 1"
    unfolding s using span by (subst uint_word_of_int) simp
  then show "unat (skipTag prev t) = nat (2 * (t - prev - 1) - 1)"
    by (simp add: span_def flip: nat_uint_eq)
  have "uint (skipTag prev t + 1) = 2 * span"
    using u span by (simp add: uint_word_ariths)
  then have "uint ((skipTag prev t + 1) div 2) = span"
    by (simp add: uint_div)
  then have "(skipTag prev t + 1) div 2 = word_of_int span"
    by (metis word_of_int_uint)
  then show "word_of_int (prev + 1) + (skipTag prev t + 1) div 2 = (word_of_int t :: u16)"
    by (simp add: span_def flip: wi_hom_add)
qed

text \<open>Items in strictly increasing tag order, within the range of the skip words.\<close>

fun ascending :: "int \<Rightarrow> item list \<Rightarrow> bool" where
  "ascending prev [] = True"
| "ascending prev ((t, w, d) # its) = (prev < t \<and> t < 32768 \<and> even (unat w) \<and> ascending t its)"

definition item_tag :: "item \<Rightarrow> Tag" where
  "item_tag it = (case it of (t, w, d) \<Rightarrow> \<lparr>Tag_Tag = word_of_int t, Tag_Val = header_val w\<rparr>)"

lemma scan_items:
  "-1 \<le> prev \<Longrightarrow> ascending prev its \<Longrightarrow>
     scan_words (word_of_int (prev + 1)) (words_of prev its) = map item_tag its"
proof (induction prev its rule: words_of.induct)
  case (2 prev t w d its)
  then have t: "prev < t" "t < 32768" and w: "w mod 2 = 0"
    and IH: "scan_words (word_of_int (t + 1)) (words_of t its) = map item_tag its"
    by (simp_all add: word_odd_iff)
  have rest: "scan_words (word_of_int t) (w # words_of t its) = item_tag (t, w, d) # map item_tag its"
    using IH w by (simp add: item_tag_def wi_hom_add)
  show ?case
  proof (cases "prev + 1 < t")
    case True
    have "unat (skipTag prev t) = nat (2 * (t - prev - 1) - 1)"
      using skipTag_val(1) [OF "2.prems"(1) True t(2)] .
    moreover have "odd (nat (2 * (t - prev - 1) - 1))"
      using True by (auto simp: even_nat_iff)
    ultimately have odd: "odd (unat (skipTag prev t))"
      by simp
    then have "skipTag prev t > 0"
      by (metis even_zero unat_0 word_greater_zero_iff)
    moreover have "scan_words g (skipTag prev t # ws) = scan_words (g + (skipTag prev t + 1) div 2) ws" for g ws
      using odd by (simp add: word_odd_iff)
    moreover note skipTag_val(2) [OF "2.prems"(1) True t(2)]
    ultimately show ?thesis
      using rest by (simp only: words_of.simps if_True append.simps list.map)
  next
    case False
    with t have "t = prev + 1" and "skipTag prev t = 0"
      by (simp_all add: skipTag_def)
    with rest show ?thesis by simp
  qed
qed simp

lemma length_words_of:
  "ascending prev its \<Longrightarrow> prev < 32768 \<Longrightarrow> int (length (words_of prev its)) \<le> 32767 - prev"
proof (induction prev its rule: words_of.induct)
  case (2 prev t w d its)
  then have "int (length (words_of t its)) \<le> 32767 - t" "prev < t"
    by simp_all
  moreover have "\<not> skipTag prev t > 0" if "t = prev + 1"
    using that by (simp add: skipTag_def)
  ultimately show ?case
    by (cases "t = prev + 1") auto
qed simp

lemma decodeHeader_items:
  assumes "ascending (-1) its"
  shows "decodeHeader (header_block (words_of (-1) its) @ rest) =
    Ok (length (header_block (words_of (-1) its)), map item_tag its)"
proof -
  let ?ws = "words_of (-1) its"
  have "length ?ws \<le> 32768"
    using length_words_of [OF assms] by simp
  then have n: "unat (word_of_nat (length ?ws) :: u16) = length ?ws"
    by (simp add: unat_of_nat take_bit_nat_eq_self)
  have "decodeHeader_loop (header_block ?ws @ rest) (length ?ws) 0 0 [] = Ok (scan_words 0 ?ws)"
    using decodeHeader_loop_scan [where i = 0 and tags = "[]" and ws = ?ws and rest = rest and tg = 0]
    by (simp add: header_block_def)
  moreover have "scan_words 0 ?ws = map item_tag its"
    using scan_items [OF _ assms] by simp
  ultimately show ?thesis
    using n by (simp add: decodeHeader_def header_block_def readUint16_le16 Let_def)
qed

section \<open>One message\<close>

text \<open>What the message coder needs of field \<open>i\<close> of the struct \<open>t\<close> with the value \<open>vs\<close>.\<close>

definition field_link ::
  "tenv \<Rightarrow> SprotoType list \<Rightarrow> string \<Rightarrow> SprotoType \<Rightarrow> gval list \<Rightarrow> nat \<Rightarrow> SprotoField \<Rightarrow> bool" where
  "field_link env h t st vs i sf \<longleftrightarrow>
     (let f = struct_fields env t ! i
      in i < length (stFields st) \<and> i < length (struct_fields env t) \<and> i < length vs \<and>
         stFields st ! i = Some sf \<and> sfTag sf = declared_tag f \<and> sfTag sf < 32768 \<and>
         (if sfTag sf < 0 then sfIndex sf \<in> {[], [i]}
          else sfIndex sf = [i] \<and> FieldByTag st (sfTag sf) = Some sf \<and>
               coded env h sf (fType f) (vs ! i)))"

definition field_image :: "tenv \<Rightarrow> string \<Rightarrow> gval list \<Rightarrow> nat \<Rightarrow> gval" where
  "field_image env t vs i =
     (let f = struct_fields env t ! i
      in if declared_tag f < 0 then zero_val (fType f) else wire_image env (fType f) (vs ! i))"

lemma encItems_skip:
  assumes "field_link env h t st vs i sf"
    and "sfTag sf < 0 \<or> headerEncode sf (vs ! i) = Ok (w, True)"
  shows "encItems h st vs (i # is) = encItems h st vs is"
proof -
  have "\<exists>v. FieldByIndex vs (sfIndex sf) = Ok v \<and> (0 \<le> sfTag sf \<longrightarrow> v = vs ! i)"
    using assms(1) by (auto simp: field_link_def Let_def FieldByIndex_def go_nth_def split: if_splits)
  with assms show ?thesis
    by (auto simp: field_link_def Let_def field_ptr_def go_nth_def)
qed

lemma encItems_item:
  assumes "field_link env h t st vs i sf" "0 \<le> sfTag sf"
    and "headerEncode sf (vs ! i) = Ok (w, False)" "field_data h sf (vs ! i) = Ok d"
  shows "encItems h st vs (i # is) =
    bind_go (encItems h st vs is) (\<lambda>its. Ok ((sfTag sf, w, d) # its))"
  using assms
  by (auto simp: field_link_def Let_def field_ptr_def go_nth_def FieldByIndex_def field_data_def)

lemma tag_data_item:
  assumes "w = 0 \<longleftrightarrow> d \<noteq> None" "length (data_bytes d) < 2 ^ 32"
    and "drop n chunk = item_chunk (t, w, d) @ rest" "n \<le> length chunk"
  shows "tag_data chunk n (item_tag (t, w, d)) = Ok (n + length (item_chunk (t, w, d)), data_bytes d)"
proof (cases d)
  case None
  with assms show ?thesis
    by (simp add: tag_data_def item_tag_def header_val_def item_chunk_def data_bytes_def)
next
  case (Some x)
  with assms show ?thesis
    by (simp add: tag_data_def item_tag_def header_val_def item_chunk_def data_bytes_def
        go_from_in readChunk_chunk_of)
qed

lemma decodeTags_item:
  assumes link: "field_link env h t st vs i sf" "0 \<le> sfTag sf"
    and dec: "decodeData env h sf (header_val w) (data_bytes d) (fType (struct_fields env t ! i)) = Ok v"
    and item: "w = 0 \<longleftrightarrow> d \<noteq> None" "length (data_bytes d) < 2 ^ 32"
      "drop n chunk = item_chunk (sfTag sf, w, d) @ rest" "n \<le> length chunk"
  shows "decodeTags env h chunk st t (item_tag (sfTag sf, w, d) # tags) n acc =
    decodeTags env h chunk st t tags (n + length (item_chunk (sfTag sf, w, d))) (acc[i := v])"
proof -
  have tg: "uint (word_of_int (sfTag sf) :: u16) = sfTag sf"
    using link by (simp add: field_link_def Let_def uint_word_of_int)
  have sf: "FieldByTag st (sfTag sf) = Some sf" "sfIndex sf = [i]" "i < length (struct_fields env t)"
    using link unfolding field_link_def Let_def by (auto split: if_splits)
  then have "field_dest env t sf = Ok (i, fType (struct_fields env t ! i))"
    by (simp add: field_dest_def go_nth_def)
  moreover have "Tag_Tag (item_tag (sfTag sf, w, d)) = word_of_int (sfTag sf)"
    "Tag_Val (item_tag (sfTag sf, w, d)) = header_val w"
    by (simp_all add: item_tag_def)
  ultimately show ?thesis
    using sf(1) dec tg by (simp add: tag_data_item [OF item])
qed

lemma field_image_nil:
  assumes "field_link env h t st vs i sf" "coded env h sf (fType (struct_fields env t ! i)) (vs ! i)"
    and "headerEncode sf (vs ! i) = Ok (w, True)"
  shows "field_image env t vs i = zero_val (fType (struct_fields env t ! i))"
  using assms by (auto simp: field_image_def Let_def coded_def)

definition decodes_to ::
  "tenv \<Rightarrow> SprotoType list \<Rightarrow> string \<Rightarrow> SprotoType \<Rightarrow> gval list \<Rightarrow> nat list \<Rightarrow> item list \<Rightarrow> bool" where
  "decodes_to env h t st vs is its \<longleftrightarrow>
     (\<forall>n chunk rest acc.
        drop n chunk = concat (map item_chunk its) @ rest \<longrightarrow> n \<le> length chunk \<longrightarrow>
        length (concat (map item_chunk its)) < 2 ^ 32 \<longrightarrow> length acc = length (struct_fields env t) \<longrightarrow>
        (\<forall>j \<in> set is. acc ! j = zero_val (fType (struct_fields env t ! j))) \<longrightarrow>
        (\<exists>acc'. decodeTags env h chunk st t (map item_tag its) n acc =
             Ok (n + length (concat (map item_chunk its)), acc') \<and>
           length acc' = length acc \<and>
           (\<forall>j. acc' ! j = (if j \<in> set is then field_image env t vs j else acc ! j))))"

lemma decodes_to_skip:
  assumes "decodes_to env h t st vs is its" "i \<notin> set is"
    and "field_image env t vs i = zero_val (fType (struct_fields env t ! i))"
  shows "decodes_to env h t st vs (i # is) its"
  unfolding decodes_to_def
proof (intro allI impI)
  fix n chunk rest acc
  assume *: "drop n chunk = concat (map item_chunk its) @ rest" "n \<le> length chunk"
    "length (concat (map item_chunk its)) < 2 ^ 32" "length acc = length (struct_fields env t)"
    and z: "\<forall>j \<in> set (i # is). acc ! j = zero_val (fType (struct_fields env t ! j))"
  then obtain acc' where acc': "decodeTags env h chunk st t (map item_tag its) n acc =
      Ok (n + length (concat (map item_chunk its)), acc')" "length acc' = length acc"
    "\<And>j. acc' ! j = (if j \<in> set is then field_image env t vs j else acc ! j)"
    using assms(1) unfolding decodes_to_def by (metis list.set_intros(2))
  moreover have "acc' ! j = (if j \<in> set (i # is) then field_image env t vs j else acc ! j)" for j
    using acc'(3) [of j] z assms(2,3) by auto
  ultimately show "\<exists>acc'. decodeTags env h chunk st t (map item_tag its) n acc =
      Ok (n + length (concat (map item_chunk its)), acc') \<and> length acc' = length acc \<and>
      (\<forall>j. acc' ! j = (if j \<in> set (i # is) then field_image env t vs j else acc ! j))"
    by blast
qed


lemma decodes_to_item:
  assumes link: "field_link env h t st vs i sf" "0 \<le> sfTag sf"
    and item: "w = 0 \<longleftrightarrow> d \<noteq> None"
      "length (data_bytes d) < 2 ^ 32 \<longrightarrow>
         decodeData env h sf (header_val w) (data_bytes d) (fType (struct_fields env t ! i)) =
           Ok (wire_image env (fType (struct_fields env t ! i)) (vs ! i))"
    and rest: "decodes_to env h t st vs is its" "i \<notin> set is"
  shows "decodes_to env h t st vs (i # is) ((sfTag sf, w, d) # its)"
  unfolding decodes_to_def
proof (intro allI impI)
  fix n chunk rest acc
  let ?c = "item_chunk (sfTag sf, w, d)" and ?cs = "concat (map item_chunk its)"
  let ?v = "field_image env t vs i"
  assume chunk: "drop n chunk = concat (map item_chunk ((sfTag sf, w, d) # its)) @ rest"
    and n: "n \<le> length chunk"
    and len: "length (concat (map item_chunk ((sfTag sf, w, d) # its))) < 2 ^ 32"
    and acc: "length acc = length (struct_fields env t)"
    and z: "\<forall>j \<in> set (i # is). acc ! j = zero_val (fType (struct_fields env t ! j))"
  have i: "i < length acc"
    using link acc by (simp add: field_link_def Let_def)
  have v: "wire_image env (fType (struct_fields env t ! i)) (vs ! i) = ?v"
    using link by (simp add: field_image_def field_link_def Let_def)
  have "length (data_bytes d) \<le> length ?c"
    by (cases d) (simp_all add: data_bytes_def item_chunk_def)
  then have d: "length (data_bytes d) < 2 ^ 32"
    using len by simp
  have c: "drop n chunk = ?c @ ?cs @ rest"
    using chunk by simp
  have first: "decodeTags env h chunk st t (map item_tag ((sfTag sf, w, d) # its)) n acc =
      decodeTags env h chunk st t (map item_tag its) (n + length ?c) (acc[i := ?v])"
    using decodeTags_item [OF link _ item(1) d c n, of ?v] item(2) d v by simp
  have "drop (n + length ?c) chunk = drop (length ?c) (drop n chunk)"
    by (simp add: add.commute)
  also have "\<dots> = ?cs @ rest"
    unfolding c by simp
  finally have next_chunk: "drop (n + length ?c) chunk = ?cs @ rest" .
  have "length ?c \<le> length (drop n chunk)"
    unfolding c by simp
  then have "n + length ?c \<le> length chunk"
    using n by simp
  moreover have "\<forall>j \<in> set is. acc[i := ?v] ! j = zero_val (fType (struct_fields env t ! j))"
    using z rest(2) by (metis nth_list_update_neq list.set_intros(2))
  moreover have "length ?cs < 2 ^ 32"
    using len by simp
  ultimately obtain acc' where acc': "decodeTags env h chunk st t (map item_tag its) (n + length ?c) (acc[i := ?v]) =
      Ok (n + length ?c + length ?cs, acc')" "length acc' = length acc"
    "\<forall>j. acc' ! j = (if j \<in> set is then field_image env t vs j else acc[i := ?v] ! j)"
    using rest(1) next_chunk acc unfolding decodes_to_def by (metis length_list_update)
  have "acc' ! j = (if j \<in> set (i # is) then field_image env t vs j else acc ! j)" for j
    using acc'(3) i by (auto simp: nth_list_update)
  with first acc' show "\<exists>acc'. decodeTags env h chunk st t (map item_tag ((sfTag sf, w, d) # its)) n acc =
      Ok (n + length (concat (map item_chunk ((sfTag sf, w, d) # its))), acc') \<and>
      length acc' = length acc \<and>
      (\<forall>j. acc' ! j = (if j \<in> set (i # is) then field_image env t vs j else acc ! j))"
    by (intro exI [of _ acc']) simp
qed

lemma message_items:
  assumes "\<forall>i \<in> set is. \<exists>sf. field_link env h t st vs i sf" "distinct is"
    and "sorted_wrt (\<lambda>i j. field_tag st j \<ge> 0 \<longrightarrow> field_tag st i < field_tag st j) is"
    and "\<forall>i \<in> set is. field_tag st i \<ge> 0 \<longrightarrow> prev < field_tag st i"
  shows "\<exists>its. encItems h st vs is = Ok its \<and> ascending prev its \<and> decodes_to env h t st vs is its"
  using assms
proof (induction "is" arbitrary: prev)
  case Nil
  then show ?case by (simp add: decodes_to_def)
next
  case (Cons i "is")
  then obtain sf where link: "field_link env h t st vs i sf"
    by auto
  then have tg: "field_tag st i = sfTag sf"
    by (simp add: field_link_def field_tag_def Let_def)
  have i: "i \<notin> set is"
    using Cons.prems(2) by simp
  have IH: "\<exists>its. encItems h st vs is = Ok its \<and> ascending p its \<and> decodes_to env h t st vs is its"
    if "\<forall>i \<in> set is. field_tag st i \<ge> 0 \<longrightarrow> p < field_tag st i" for p
    using that Cons.prems by (intro Cons.IH) simp_all
  have skip: ?case
    if "encItems h st vs (i # is) = encItems h st vs is"
      "field_image env t vs i = zero_val (fType (struct_fields env t ! i))"
  proof -
    obtain its where "encItems h st vs is = Ok its" "ascending prev its" "decodes_to env h t st vs is its"
      using IH [of prev] Cons.prems(4) by auto
    with that decodes_to_skip [OF _ i] show ?thesis by fastforce
  qed
  show ?case
  proof (cases "sfTag sf < 0")
    case True
    moreover have "field_image env t vs i = zero_val (fType (struct_fields env t ! i))"
      using True link by (simp add: field_image_def field_link_def Let_def)
    ultimately show ?thesis
      using encItems_skip [OF link] skip by blast
  next
    case False
    then have cd: "coded env h sf (fType (struct_fields env t ! i)) (vs ! i)"
      using link by (simp add: field_link_def Let_def)
    then consider (nil) w where "headerEncode sf (vs ! i) = Ok (w, True)"
      | (item) w d where "headerEncode sf (vs ! i) = Ok (w, False)" "field_data h sf (vs ! i) = Ok d"
        "even (unat w)" "w = 0 \<longleftrightarrow> d \<noteq> None"
        "length (data_bytes d) < 2 ^ 32 \<longrightarrow>
           decodeData env h sf (header_val w) (data_bytes d) (fType (struct_fields env t ! i)) =
             Ok (wire_image env (fType (struct_fields env t ! i)) (vs ! i))"
      unfolding coded_def by blast
    then show ?thesis
    proof cases
      case nil
      then show ?thesis
        using encItems_skip [OF link] field_image_nil [OF link cd nil] skip by blast
    next
      case item
      obtain its where its: "encItems h st vs is = Ok its" "ascending (sfTag sf) its"
        "decodes_to env h t st vs is its"
        using IH [of "sfTag sf"] Cons.prems(3) tg by auto
      have "prev < sfTag sf" "sfTag sf < 32768"
        using Cons.prems(4) False tg link by (auto simp: field_link_def Let_def)
      then have "ascending prev ((sfTag sf, w, d) # its)"
        using its item by simp
      moreover have "decodes_to env h t st vs (i # is) ((sfTag sf, w, d) # its)"
        using decodes_to_item [OF link _ item(4,5) its(3) i] False by simp
      moreover have "encItems h st vs (i # is) = Ok ((sfTag sf, w, d) # its)"
        using encItems_item [OF link _ item(1,2)] False its(1) by simp
      ultimately show ?thesis by blast
    qed
  qed
qed


lemma nth_zero_struct: "j < length (struct_fields env t) \<Longrightarrow>
    zero_struct env t ! j = zero_val (fType (struct_fields env t ! j))"
  by (simp add: zero_struct_def)

lemma length_zero_struct [simp]: "length (zero_struct env t) = length (struct_fields env t)"
  by (simp add: zero_struct_def)

lemma length_image_struct:
  "length vs = length (struct_fields env t) \<Longrightarrow> length (image_struct env t vs) = length (struct_fields env t)"
  by (simp add: image_struct_def)

lemma nth_image_struct: "length vs = length (struct_fields env t) \<Longrightarrow> j < length vs \<Longrightarrow>
    image_struct env t vs ! j = field_image env t vs j"
  by (simp add: image_struct_def field_image_def Let_def)

text \<open>
  The round trip of one message, given that of its fields: any bytes may follow the message.
\<close>

definition message_codec :: "tenv \<Rightarrow> SprotoType list \<Rightarrow> nat \<Rightarrow> string \<Rightarrow> gval list \<Rightarrow> bool" where
  "message_codec env h a t vs \<longleftrightarrow>
     (\<exists>d. encodeMessage h (Some a) (Some vs) = Ok d \<and>
        (length d < 2 ^ 32 \<longrightarrow>
           (\<forall>rest. decodeMessage env h (d @ rest) (Some a) t (zero_struct env t) =
              Ok (length d, image_struct env t vs))))"

lemma sorted_wrt_distinct:
  assumes "sorted_wrt P xs" "distinct xs"
    and "\<And>x y. x \<in> set xs \<Longrightarrow> y \<in> set xs \<Longrightarrow> x \<noteq> y \<Longrightarrow> P x y \<Longrightarrow> Q x y"
  shows "sorted_wrt Q xs"
  using assms by (induction xs) auto

lemma describes_order_strict:
  assumes st: "describes env m t st"
  shows "sorted_wrt (\<lambda>i j. field_tag st j \<ge> 0 \<longrightarrow> field_tag st i < field_tag st j) (stOrder st)"
proof (rule sorted_wrt_distinct)
  let ?n = "length (struct_fields env t)"
  have order: "stOrder st = sort_key (field_tag st) [0..<?n]"
    using st by (simp add: describes_def)
  show "sorted_wrt (\<lambda>i j. field_tag st i \<le> field_tag st j) (stOrder st)"
    using sorted_sort_key [of "field_tag st" "[0..<?n]"] by (simp add: order sorted_map)
  show "distinct (stOrder st)"
    by (simp add: order)
  have tag_inj: "i = j" if "i < ?n" "j < ?n" "field_tag st i = field_tag st j" "0 \<le> field_tag st j" for i j
    using st that unfolding describes_def described_def by (metis option.inject)
  fix i j
  assume "i \<in> set (stOrder st)" "j \<in> set (stOrder st)" "i \<noteq> j" "field_tag st i \<le> field_tag st j"
  then show "field_tag st j \<ge> 0 \<longrightarrow> field_tag st i < field_tag st j"
    using tag_inj [of i j] by (auto simp: order less_le)
qed

lemma message_codecI:
  assumes a: "a < length h" and st: "describes env m t (h ! a)"
    and len: "length vs = length (struct_fields env t)"
    and links: "\<forall>i < length vs. \<exists>sf. field_link env h t (h ! a) vs i sf"
  shows "message_codec env h a t vs"
proof -
  let ?st = "h ! a" and ?n = "length (struct_fields env t)"
  have order: "stOrder ?st = sort_key (field_tag ?st) [0..<?n]"
    using st by (simp add: describes_def)
  then have set: "set (stOrder ?st) = {..<?n}" and dist: "distinct (stOrder ?st)"
    by auto
  note sorted = describes_order_strict [OF st]
  obtain its where its: "encItems h ?st vs (stOrder ?st) = Ok its" "ascending (-1) its"
    "decodes_to env h t ?st vs (stOrder ?st) its"
    using message_items [of "stOrder ?st" env h t ?st vs "-1"] links dist sorted set len by auto
  have "length (stOrder ?st) \<le> length (stFields ?st)"
    using st by (simp add: order describes_def described_def)
  then have enc: "encodeMessage h (Some a) (Some vs) = Ok (message_bytes its)"
    using its(1) a by (intro encodeMessage_items) (simp_all add: deref_def)
  let ?hb = "header_block (words_of (-1) its)" and ?cs = "concat (map item_chunk its)"
  have "decodeMessage env h (message_bytes its @ rest) (Some a) t (zero_struct env t) =
      Ok (length (message_bytes its), image_struct env t vs)"
    if small: "length (message_bytes its) < 2 ^ 32" for rest
  proof -
    have drop: "drop (length ?hb) (?hb @ ?cs @ rest) = ?cs @ rest" by simp
    have bound: "length ?hb \<le> length (?hb @ ?cs @ rest)" "length ?cs < 2 ^ 32"
      using small by (simp_all add: message_bytes_def)
    have zeros: "\<forall>j \<in> set (stOrder ?st). zero_struct env t ! j = zero_val (fType (struct_fields env t ! j))"
      by (simp add: set nth_zero_struct)
    obtain acc where acc: "decodeTags env h (?hb @ ?cs @ rest) ?st t (map item_tag its) (length ?hb) (zero_struct env t) =
        Ok (length ?hb + length ?cs, acc)" "length acc = ?n"
      "\<forall>j. acc ! j = (if j \<in> set (stOrder ?st) then field_image env t vs j else zero_struct env t ! j)"
      using its(3) [unfolded decodes_to_def, rule_format, OF drop bound length_zero_struct] zeros by auto
    have "acc = image_struct env t vs"
      using acc(2,3) len by (intro nth_equalityI) (simp_all add: length_image_struct nth_image_struct set)
    with acc(1) show ?thesis
      using a decodeHeader_items [OF its(2), of "?cs @ rest"]
      by (simp add: decodeMessage.simps message_bytes_def deref_def del: length_header_block)
  qed
  with enc show ?thesis
    by (auto simp: message_codec_def)
qed

end
