(* ===== verification/Sproto_Pack.thy ===== *)
theory Sproto_Pack
  imports Sproto_Wire
begin

unbundle bit_operations_syntax

text \<open>
  The zero-packing of \<^verbatim>\<open>gosproto/pack.go\<close>. \<open>Pack\<close> writes through a pre-allocated buffer
  (every write is bounds checked, so an overrun is a panic of the model) and keeps the open run of
  full segments in \<^verbatim>\<open>ffS\<close>, \<^verbatim>\<open>ffN\<close>, \<^verbatim>\<open>ffP\<close>; \<open>Unpack\<close> reads segments back.
  The lemmas show that the buffer never overruns and that \<open>Unpack\<close> inverts \<open>Pack\<close> up to the
  zero padding to a multiple of eight bytes.
\<close>

section \<open>Packing\<close>

fun packSegment_loop ::
  "bytes \<Rightarrow> bytes \<Rightarrow> nat \<Rightarrow> nat \<Rightarrow> byte \<Rightarrow> (bytes \<times> nat \<times> byte) sproto" where
  "packSegment_loop dst [] i notzero header = Ok (dst, notzero, header)"
| "packSegment_loop dst (v # vs) i notzero header =
     (if v \<noteq> 0
      then bind_go (go_set dst (notzero + 1) v) (\<lambda>dst.
             packSegment_loop dst vs (i + 1) (notzero + 1) (header OR push_bit i 1))
      else packSegment_loop dst vs (i + 1) notzero header)"

definition packSegment :: "bytes \<Rightarrow> bytes \<Rightarrow> nat \<Rightarrow> (bytes \<times> nat) sproto" where
  "packSegment dst src ffN =
     bind_go (packSegment_loop dst src 0 0 0) (\<lambda>(dst, notzero, header).
       if ffN > 0 \<and> notzero \<ge> 6 then Ok (dst, 8)
       else if notzero = 8 then Ok (dst, 10)
       else bind_go (go_set dst 0 header) (\<lambda>dst. Ok (dst, notzero + 1)))"

definition align8 :: "nat \<Rightarrow> nat" where
  "align8 n = nat ((int n + 7) AND (NOT 7))"

function zeroFill :: "bytes \<Rightarrow> nat \<Rightarrow> nat \<Rightarrow> bytes sproto" where
  "zeroFill dst i m =
     (if i < m then bind_go (go_set dst (2 + i) 0) (\<lambda>dst. zeroFill dst (i + 1) m) else Ok dst)"
  by pat_completeness auto
termination
  by (relation "measure (\<lambda>(dst, i, m). m - i)") auto

declare zeroFill.simps [simp del]

definition writeFF :: "bytes \<Rightarrow> bytes \<Rightarrow> nat \<Rightarrow> bytes sproto" where
  "writeFF dst src n =
     (let a8 = align8 n
      in bind_go (go_set dst 0 0xff) (\<lambda>dst.
         bind_go (go_set dst 1 (word_of_int (int a8 div 8 - 1))) (\<lambda>dst.
         let n = (if n > length src then length src else n)
         in bind_go (go_slice src 0 n) (\<lambda>s.
            bind_go (go_at 2 (\<lambda>sub. Ok (go_copy sub s)) dst) (\<lambda>dst.
            zeroFill dst n a8)))))"

text \<open>The variables of the packing loop.\<close>

record pack_state =
  packed :: bytes
  offset :: nat
  ffS :: bytes
  ffN :: nat
  ffP :: nat

text \<open>One round of the loop on the remaining input, up to \<^verbatim>\<open>offset += used\<close>.\<close>

definition packRound :: "pack_state \<Rightarrow> bytes \<Rightarrow> pack_state sproto" where
  "packRound s src =
     (let input = (if length src \<ge> 8 then take 8 src else src)
      in bind_go (go_from (packed s) (offset s)) (\<lambda>sub.
         bind_go (packSegment sub input (ffN s)) (\<lambda>(sub, used).
         let s = s\<lparr>packed := take (offset s) (packed s) @ sub\<rparr>
         in bind_go
              (if used = 10 then Ok (s\<lparr>ffS := src, ffP := offset s, ffN := 1\<rparr>)
               else if used = 8 \<and> ffN s > 0 then
                 (let s = s\<lparr>ffN := ffN s + 1\<rparr>
                  in if ffN s = 256
                     then bind_go (go_at (ffP s) (\<lambda>d. writeFF d (ffS s) (ffN s * 8)) (packed s))
                            (\<lambda>p. Ok (s\<lparr>packed := p, ffN := 0\<rparr>))
                     else Ok s)
               else if ffN s > 0
                    then bind_go (go_at (ffP s) (\<lambda>d. writeFF d (ffS s) (ffN s * 8)) (packed s))
                           (\<lambda>p. Ok (s\<lparr>packed := p, ffN := 0\<rparr>))
                    else Ok s)
              (\<lambda>s. Ok (s\<lparr>offset := offset s + used\<rparr>)))))"

function packLoop :: "pack_state \<Rightarrow> bytes \<Rightarrow> pack_state sproto" where
  "packLoop s src =
     (if length src > 0
      then bind_go (packRound s src) (\<lambda>s.
             if length src \<le> 8 then Ok s else packLoop s (drop 8 src))
      else Ok s)"
  by pat_completeness auto
termination
  by (relation "measure (\<lambda>(s, src). length src)") auto

declare packLoop.simps [simp del]

definition pack_maxsz :: "nat \<Rightarrow> nat" where
  "pack_maxsz n = n + ((n + 2047) div 2048) * 100"

definition Pack :: "bytes \<Rightarrow> bytes sproto" where
  "Pack src =
     bind_go (packLoop \<lparr>packed = replicate (pack_maxsz (length src)) 0, offset = 0,
                        ffS = [], ffN = 0, ffP = 0\<rparr> src) (\<lambda>s.
     bind_go (if ffN s > 0
              then go_at (ffP s) (\<lambda>d. writeFF d (ffS s) (length (ffS s))) (packed s)
              else Ok (packed s)) (\<lambda>p.
     go_slice p 0 (offset s)))"

section \<open>Unpacking\<close>

text \<open>The loop \<^verbatim>\<open>for i := 0; i < 8; i++\<close> runs over the list of its indices.\<close>

fun unpackBits ::
  "nat list \<Rightarrow> bytes \<Rightarrow> byte \<Rightarrow> nat \<Rightarrow> bytes \<Rightarrow> (bytes \<times> nat) sproto" where
  "unpackBits [] src header notzero buf = Ok (buf, notzero)"
| "unpackBits (i # is) src header notzero buf =
     (if header mod 2 = 1
      then (if length src < notzero + 1 + 1 then Err ErrUnpack
            else bind_go (go_nth src (notzero + 1)) (\<lambda>b.
                 bind_go (go_set buf i b) (\<lambda>buf.
                 unpackBits is src (drop_bit 1 header) (notzero + 1) buf)))
      else bind_go (go_set buf i 0) (\<lambda>buf.
           unpackBits is src (drop_bit 1 header) notzero buf))"

definition unpackRound :: "bytes \<Rightarrow> slice \<Rightarrow> bytes \<Rightarrow> (nat \<times> slice \<times> bytes) sproto" where
  "unpackRound src unpacked buf =
     bind_go (go_nth src 0) (\<lambda>header.
       if header = 0xff
       then (if length src < 2 then Err ErrUnpack
             else bind_go (go_nth src 1) (\<lambda>b.
                  let used = 2 + (unat b + 1) * 8
                  in if length src < used then Err ErrUnpack
                     else bind_go (go_slice src 2 used) (\<lambda>d.
                          Ok (used, Append unpacked d, buf))))
       else bind_go (unpackBits [0..<8] src header 0 buf) (\<lambda>(buf, notzero).
            Ok (notzero + 1, Append unpacked buf, buf)))"

lemma unpackBits_notzero: "unpackBits is src h nz buf = Ok (b, n) \<Longrightarrow> nz \<le> n"
  by (induction "is" src h nz buf arbitrary: b n rule: unpackBits.induct)
    (fastforce simp: go_elims split: if_splits)+

lemma unpackRound_used: "unpackRound src u buf = Ok (used, r) \<Longrightarrow> 0 < used"
  by (auto simp: unpackRound_def Let_def go_elims split: if_splits)

function unpackLoop :: "bytes \<Rightarrow> slice \<Rightarrow> bytes \<Rightarrow> slice sproto" where
  "unpackLoop src unpacked buf =
     (if length src > 0
      then bind_go (unpackRound src unpacked buf) (\<lambda>(used, unpacked, buf).
           bind_go (go_from src used) (\<lambda>src'. unpackLoop src' unpacked buf))
      else Ok unpacked)"
  by pat_completeness auto
termination
  by (relation "measure (\<lambda>(src, u, b). length src)")
    (auto simp: go_from_def go_slice_def split: if_splits dest!: unpackRound_used)

declare unpackLoop.simps [simp del]

definition Unpack :: "bytes \<Rightarrow> bytes sproto" where
  "Unpack src =
     bind_go (unpackLoop src (make_slice 0 (length src)) (replicate 8 0)) (\<lambda>u.
     Ok (contents u))"

section \<open>The wire grammar of packed data\<close>

definition nz :: "bytes \<Rightarrow> bytes" where
  "nz vs = filter (\<lambda>b. b \<noteq> 0) vs"

fun hdr :: "nat \<Rightarrow> bytes \<Rightarrow> byte" where
  "hdr i [] = 0"
| "hdr i (v # vs) = (if v \<noteq> 0 then push_bit i 1 OR hdr (i + 1) vs else hdr (i + 1) vs)"

inductive packed_as :: "bytes \<Rightarrow> bytes \<Rightarrow> bool" where
  packed_nil: "packed_as [] []"
| packed_seg: "length vs = 8 \<Longrightarrow> length (nz vs) < 8 \<Longrightarrow> packed_as w xs \<Longrightarrow>
     packed_as ((hdr 0 vs # nz vs) @ w) (vs @ xs)"
| packed_run: "length d = 8 * k \<Longrightarrow> 0 < k \<Longrightarrow> k \<le> 256 \<Longrightarrow> packed_as w xs \<Longrightarrow>
     packed_as ((0xff # word_of_nat (k - 1) # d) @ w) (d @ xs)"

lemma packed_as_append:
  "packed_as w xs \<Longrightarrow> packed_as w' xs' \<Longrightarrow> packed_as (w @ w') (xs @ xs')"
proof (induction rule: packed_as.induct)
  case (packed_seg vs w xs)
  then show ?case using packed_as.packed_seg [of vs "w @ w'" "xs @ xs'"] by simp
next
  case (packed_run d k w xs)
  then show ?case using packed_as.packed_run [of d k "w @ w'" "xs @ xs'"] by simp
qed simp

lemma packed_as_seg1: "length vs = 8 \<Longrightarrow> length (nz vs) < 8 \<Longrightarrow> packed_as (hdr 0 vs # nz vs) vs"
  using packed_seg [OF _ _ packed_nil] by simp

lemma packed_as_run1:
  "length d = 8 * k \<Longrightarrow> 0 < k \<Longrightarrow> k \<le> 256 \<Longrightarrow> packed_as (0xff # word_of_nat (k - 1) # d) d"
  using packed_run [OF _ _ _ packed_nil] by simp

section \<open>Segments\<close>

lemma nz_simps [simp]: "nz [] = []" "nz (v # vs) = (if v \<noteq> 0 then v # nz vs else nz vs)"
  "nz (xs @ ys) = nz xs @ nz ys" "nz (replicate k 0) = []"
  by (simp_all add: nz_def)

lemma length_nz: "length (nz vs) \<le> length vs"
  by (simp add: nz_def)

lemma bit_hdr:
  "bit (hdr i vs) n \<longleftrightarrow> n < 8 \<and> i \<le> n \<and> n - i < length vs \<and> vs ! (n - i) \<noteq> 0"
proof (induction vs arbitrary: i)
  case (Cons v vs)
  have "bit (hdr i (v # vs)) n \<longleftrightarrow> n < 8 \<and> (n = i \<and> v \<noteq> 0 \<or> bit (hdr (Suc i) vs) n)"
    by (auto simp: bit_simps dest: bit_imp_le_length)
  also have "\<dots> \<longleftrightarrow> n < 8 \<and> i \<le> n \<and> n - i < length (v # vs) \<and> (v # vs) ! (n - i) \<noteq> 0"
    using Cons.IH [of "Suc i"] by (cases "n = i") (auto simp: nth_Cons')
  finally show ?case .
qed simp

lemma hdr_pad [simp]: "hdr i (vs @ replicate k 0) = hdr i vs"
  by (rule bit_word_eqI) (auto simp: bit_hdr nth_append)

lemma hdr_not_ff:
  assumes "length vs \<le> 8" "length (nz vs) < 8"
  shows "hdr 0 vs \<noteq> 0xff"
proof
  assume eq: "hdr 0 vs = 0xff"
  have all: "n < length vs \<and> vs ! n \<noteq> 0" if "n < 8" for n
  proof -
    have "bit (hdr 0 vs) n"
      using that by (simp add: eq byte_mask bit_simps)
    then show ?thesis by (simp add: bit_hdr)
  qed
  from all [of 7] assms(1) have "length vs = 8" by simp
  moreover from this all have "nz vs = vs"
    by (auto simp: nz_def filter_id_conv in_set_conv_nth)
  ultimately show False using assms(2) by simp
qed

lemma packSegment_loop_eq:
  "notzero + length (nz vs) < length dst \<Longrightarrow>
   packSegment_loop dst vs i notzero h =
     Ok (take (notzero + 1) dst @ nz vs @ drop (notzero + 1 + length (nz vs)) dst,
         notzero + length (nz vs), h OR hdr i vs)"
proof (induction vs arbitrary: dst i notzero h)
  case (Cons v vs)
  show ?case
  proof (cases "v = 0")
    case False
    have "packSegment_loop dst (v # vs) i notzero h =
      packSegment_loop (dst[notzero + 1 := v]) vs (i + 1) (notzero + 1) (h OR push_bit i 1)"
      using Cons.prems False by (simp add: go_set_def)
    also have "\<dots> = Ok (take (notzero + 2) (dst[notzero + 1 := v]) @ nz vs @
        drop (notzero + 2 + length (nz vs)) dst, notzero + 1 + length (nz vs),
        (h OR push_bit i 1) OR hdr (i + 1) vs)"
      using Cons.prems False by (subst Cons.IH) simp_all
    also have "take (notzero + 2) (dst[notzero + 1 := v]) = take (notzero + 1) dst @ [v]"
      using Cons.prems False take_list_update_snoc [of "notzero + 1" dst v] by simp
    finally show ?thesis
      using False by (simp add: or.assoc)
  qed (use Cons in simp)
qed simp

lemma packSegment_eq:
  assumes "length vs \<le> 8" "9 \<le> length dst"
  shows "packSegment dst vs f =
    (if f > 0 \<and> 6 \<le> length (nz vs)
     then Ok (take 1 dst @ nz vs @ drop (1 + length (nz vs)) dst, 8)
     else if length (nz vs) = 8
     then Ok (take 1 dst @ nz vs @ drop (1 + length (nz vs)) dst, 10)
     else Ok ((hdr 0 vs # nz vs) @ drop (1 + length (nz vs)) dst, length (nz vs) + 1))"
proof -
  obtain d0 dst' where "dst = d0 # dst'"
    using assms(2) by (cases dst) auto
  moreover have "length (nz vs) < length dst"
    using length_nz [of vs] assms by linarith
  ultimately show ?thesis
    by (simp add: packSegment_def packSegment_loop_eq go_set_def)
qed

section \<open>Runs of full segments\<close>

lemma align8_eq: "align8 n = (n + 7) div 8 * 8"
proof -
  have clear: "x AND NOT (mask 3) = push_bit 3 (drop_bit 3 x)" for x :: int
    by (rule bit_eqI) (auto simp: bit_simps)
  have "(int n + 7) AND (NOT 7) = push_bit 3 (drop_bit 3 (int n + 7))"
    using clear [of "int n + 7"] by (simp add: mask_eq_exp_minus_1)
  also have "\<dots> = int ((n + 7) div 8 * 8)"
    by (simp add: push_bit_eq_mult drop_bit_eq_div zdiv_int)
  finally show ?thesis by (simp only: align8_def nat_int)
qed

lemma zeroFill_eq:
  "i \<le> m \<Longrightarrow> 2 + m \<le> length dst \<Longrightarrow>
     zeroFill dst i m = Ok (take (2 + i) dst @ replicate (m - i) 0 @ drop (2 + m) dst)"
proof (induction dst i m rule: zeroFill.induct)
  case (1 dst i m)
  show ?case
  proof (cases "i < m")
    case True
    have "zeroFill dst i m = zeroFill (dst[2 + i := 0]) (i + 1) m"
      using True "1.prems" by (subst zeroFill.simps) (simp add: go_set_def)
    also have "\<dots> = Ok (take (2 + (i + 1)) (dst[2 + i := 0]) @ replicate (m - (i + 1)) 0 @ drop (2 + m) dst)"
      using True "1.prems" by (subst "1.IH") (simp_all add: go_set_def)
    also have "take (2 + (i + 1)) (dst[2 + i := 0]) = take (2 + i) dst @ [0]"
      using True "1.prems" take_list_update_snoc [of "2 + i" dst 0] by simp
    finally show ?thesis
      using True by (simp add: Suc_diff_Suc flip: replicate_Suc)
  qed (use "1.prems" in \<open>simp add: zeroFill.simps\<close>)
qed

lemma writeFF_eq:
  assumes "2 + align8 n \<le> length dst" "m = min n (length src)"
  shows "writeFF dst src n =
    Ok ((0xff # word_of_int (int (align8 n) div 8 - 1) # take m src @ replicate (align8 n - m) 0)
        @ drop (2 + align8 n) dst)"
proof -
  obtain a b r where dst: "dst = a # b # r"
    using assms(1) by (metis Suc_le_length_iff add_2_eq_Suc add_leD1 One_nat_def Suc_1)
  have "m \<le> align8 n"
    using assms(2) by (simp add: align8_eq)
  have "(if n > length src then length src else n) = m"
    using assms(2) by auto
  then show ?thesis
    using assms(1) \<open>m \<le> align8 n\<close> assms(2)
    by (simp add: writeFF_def Let_def dst go_set_def go_slice_def go_at_in zeroFill_eq go_copy_def
        min_absorb1 min_absorb2)
qed

section \<open>The invariant of the packing loop\<close>

text \<open>
  \<open>dn\<close> is the input consumed so far (whole segments), \<open>rest\<close> what is left, padded.
  Outside a run the written prefix of the buffer is the packed form of \<open>dn\<close>; inside a run
  it is, up to \<^verbatim>\<open>ffP\<close>, the packed form of what precedes the run.
  Full groups of 256 segments, at most \<open>F\<close> of them so far, cost two bytes each.
\<close>

definition pack_room :: "nat \<Rightarrow> pack_state \<Rightarrow> bool" where
  "pack_room n s \<longleftrightarrow> (\<exists>F. 2048 * F + 8 * ffN s \<le> n \<and>
     offset s \<le> n + 2 * F + (if ffN s > 0 then 2 else 0))"

definition pack_run :: "bytes \<Rightarrow> bytes \<Rightarrow> bytes \<Rightarrow> pack_state \<Rightarrow> bool" where
  "pack_run pad dn rest s \<longleftrightarrow> (\<exists>pre run. dn = pre @ run \<and> length run = 8 * ffN s \<and>
     packed_as (take (ffP s) (packed s)) pre \<and> ffS s @ pad = run @ rest \<and>
     offset s = ffP s + 2 + 8 * ffN s \<and> ffN s < 256)"

definition pack_inv :: "nat \<Rightarrow> bytes \<Rightarrow> bytes \<Rightarrow> bytes \<Rightarrow> pack_state \<Rightarrow> bool" where
  "pack_inv tot pad dn rest s \<longleftrightarrow>
     length (packed s) = pack_maxsz tot \<and> pack_room (length dn) s \<and>
     (if ffN s = 0 then packed_as (take (offset s) (packed s)) dn else pack_run pad dn rest s)"

lemma pack_maxsz_ge: "2048 * F < n \<Longrightarrow> n + 100 * (F + 1) \<le> pack_maxsz n"
proof -
  assume "2048 * F < n"
  then have "F + 1 \<le> (n + 2047) div 2048"
    by (simp add: less_eq_div_iff_mult_less_eq)
  then have "100 * (F + 1) \<le> (n + 2047) div 2048 * 100" by simp
  then show ?thesis unfolding pack_maxsz_def by simp
qed

lemma pack_room_fits:
  assumes "pack_room n s" "n < tot"
  shows "offset s + 9 \<le> pack_maxsz tot"
proof -
  from assms(1) obtain F where F: "2048 * F + 8 * ffN s \<le> n"
    "offset s \<le> n + 2 * F + (if ffN s > 0 then 2 else 0)"
    by (auto simp: pack_room_def)
  with assms(2) have "tot + 100 * (F + 1) \<le> pack_maxsz tot"
    by (intro pack_maxsz_ge) linarith
  with F assms(2) show ?thesis by (auto split: if_splits)
qed

lemma align8_mult [simp]: "align8 (n * 8) = n * 8" "align8 (8 * n) = 8 * n"
  by (simp_all add: align8_eq)

text \<open>Closing a run: the two run bytes and the raw segments replace what was written there.\<close>

lemma close_run:
  assumes "packed_as (take p buf) pre" "length run = 8 * k" "0 < k" "k \<le> 256"
    and "p + 2 + 8 * k \<le> length buf" "align8 n = 8 * k"
    and "take (min n (length src)) src @ replicate (8 * k - min n (length src)) 0 = run"
  shows "\<exists>buf'. go_at p (\<lambda>d. writeFF d src n) buf = Ok buf' \<and> length buf' = length buf \<and>
           packed_as (take (p + 2 + 8 * k) buf') (pre @ run) \<and>
           drop (p + 2 + 8 * k) buf' = drop (p + 2 + 8 * k) buf"
proof -
  let ?ff = "0xff # word_of_nat (k - 1) # run"
  have byte: "word_of_int (int (8 * k) div 8 - 1) = (word_of_nat (k - 1) :: byte)"
    using assms(3) by (simp add: of_nat_diff)
  have "writeFF (drop p buf) src n = Ok (?ff @ drop (2 + 8 * k) (drop p buf))"
    using assms(5,6,7) byte by (subst writeFF_eq [OF _ refl]) auto
  then have w: "go_at p (\<lambda>d. writeFF d src n) buf = Ok (take p buf @ ?ff @ drop (p + 2 + 8 * k) buf)"
    using assms(5) by (simp add: go_at_in add_ac)
  have "packed_as (take p buf @ ?ff) (pre @ run)"
    using assms(1-4) by (intro packed_as_append packed_as_run1)
  then show ?thesis
    using assms(2,5) by (intro exI [of _ "take p buf @ ?ff @ drop (p + 2 + 8 * k) buf"]) (simp add: w)
qed

lemma seg_pad:
  assumes "src \<noteq> []" "pad = replicate (length pad) 0" "length pad < 8" "8 dvd (length src + length pad)"
  shows "take 8 (src @ pad) = take 8 src @ replicate (8 - length src) 0"
    and "length (take 8 (src @ pad)) = 8"
proof -
  have "8 \<le> length src + length pad"
    using assms(1,4) by (metis add_gr_0 dvd_imp_le length_greater_0_conv)
  moreover have "length src < 8 \<Longrightarrow> length src + length pad < 16"
    using assms(3) by linarith
  ultimately have "length src < 8 \<Longrightarrow> length pad = 8 - length src"
    using assms(4) by (auto simp: dvd_def)
  then show "take 8 (src @ pad) = take 8 src @ replicate (8 - length src) 0"
    by (cases "length src < 8") (use assms(2) in auto)
  show "length (take 8 (src @ pad)) = 8"
    using \<open>8 \<le> length src + length pad\<close> by simp
qed


text \<open>The three outcomes of one round, as equations.\<close>

abbreviation seg_raw :: "bytes \<Rightarrow> bytes \<Rightarrow> bytes" where
  "seg_raw sub inp \<equiv> take 1 sub @ nz inp @ drop (1 + length (nz inp)) sub"

lemma packRound_extend:
  assumes "offset s + 9 \<le> length (packed s)" "0 < ffN s" "6 \<le> length (nz (take 8 src))"
    and "p = take (offset s) (packed s) @ seg_raw (drop (offset s) (packed s)) (take 8 src)"
  shows "packRound s src =
    (if ffN s + 1 = 256
     then bind_go (go_at (ffP s) (\<lambda>d. writeFF d (ffS s) ((ffN s + 1) * 8)) p)
            (\<lambda>p. Ok (s\<lparr>packed := p, ffN := 0, offset := offset s + 8\<rparr>))
     else Ok (s\<lparr>packed := p, ffN := ffN s + 1, offset := offset s + 8\<rparr>))"
proof -
  have "(if length src \<ge> 8 then take 8 src else src) = take 8 src" by simp
  then show ?thesis
    using assms by (simp add: packRound_def Let_def go_from_in packSegment_eq bind_go_assoc)
qed

lemma packRound_open:
  assumes "offset s + 9 \<le> length (packed s)" "ffN s = 0" "length (nz (take 8 src)) = 8"
    and "p = take (offset s) (packed s) @ seg_raw (drop (offset s) (packed s)) (take 8 src)"
  shows "packRound s src =
    Ok (s\<lparr>packed := p, ffS := src, ffP := offset s, ffN := 1, offset := offset s + 10\<rparr>)"
proof -
  have "(if length src \<ge> 8 then take 8 src else src) = take 8 src" by simp
  then show ?thesis
    using assms by (simp add: packRound_def Let_def go_from_in packSegment_eq)
qed

lemma packRound_own:
  assumes "offset s + 9 \<le> length (packed s)" "k = length (nz (take 8 src))"
    and "ffN s = 0 \<and> k < 8 \<or> 0 < ffN s \<and> k < 6"
    and "p = take (offset s) (packed s) @
           (hdr 0 (take 8 src) # nz (take 8 src)) @ drop (offset s + 1 + k) (packed s)"
  shows "packRound s src =
    (if 0 < ffN s
     then bind_go (go_at (ffP s) (\<lambda>d. writeFF d (ffS s) (ffN s * 8)) p)
            (\<lambda>p. Ok (s\<lparr>packed := p, ffN := 0, offset := offset s + (k + 1)\<rparr>))
     else Ok (s\<lparr>packed := p, offset := offset s + (k + 1)\<rparr>))"
proof -
  have "(if length src \<ge> 8 then take 8 src else src) = take 8 src" by simp
  moreover have "drop (1 + k) (drop (offset s) (packed s)) = drop (offset s + 1 + k) (packed s)"
    by (simp add: add_ac)
  ultimately show ?thesis
    using assms by (auto simp: packRound_def Let_def go_from_in packSegment_eq bind_go_assoc)
qed

lemma take_zeros: "pad = replicate (length pad) 0 \<Longrightarrow> n \<le> length pad \<Longrightarrow> take n pad = replicate n 0"
  by (metis min.absorb1 take_replicate)

lemma run_from_source:
  assumes "src @ pad = run @ rest" "pad = replicate (length pad) 0"
  shows "take (min (length run) (length src)) src @
           replicate (length run - min (length run) (length src)) 0 = run"
proof -
  have "run = take (length run) (src @ pad)"
    using assms(1) by simp
  also have "\<dots> = take (length run) src @ take (length run - length src) pad"
    by simp
  finally have run: "take (length run) src @ take (length run - length src) pad = run" ..
  have "length run \<le> length src + length pad"
    using arg_cong [OF assms(1), of length] by simp
  then have "take (length run - length src) pad = replicate (length run - length src) 0"
    using assms(2) by (intro take_zeros) auto
  with run show ?thesis
    by (cases "length run \<le> length src") (simp_all add: min_absorb1 min_absorb2)
qed

lemma pack_runI:
  assumes "dn = pre @ run" "length run = 8 * ffN s" "packed_as (take (ffP s) (packed s)) pre"
    and "ffS s @ pad = run @ rest" "offset s = ffP s + 2 + 8 * ffN s" "ffN s < 256"
  shows "pack_run pad dn rest s"
  using assms unfolding pack_run_def by blast

lemma pack_run_step:
  assumes "pack_run pad dn (seg @ rest) s" "ffN s + 1 < 256" "length seg = 8"
    and "take (ffP s) p = take (ffP s) (packed s)"
  shows "pack_run pad (dn @ seg) (rest)
           (s\<lparr>packed := p, ffN := ffN s + 1, offset := offset s + 8\<rparr>)"
proof -
  from assms(1) obtain pre run where
    "dn = pre @ run" "length run = 8 * ffN s" "packed_as (take (ffP s) (packed s)) pre"
    "ffS s @ pad = run @ seg @ rest" "offset s = ffP s + 2 + 8 * ffN s"
    by (auto simp: pack_run_def)
  then show ?thesis
    using assms(2-4) by (intro pack_runI [of _ pre "run @ seg"]) auto
qed

lemma inv_extend:
  assumes inv: "pack_inv tot pad dn (seg @ rest) s" and ff: "0 < ffN s" "6 \<le> length (nz (take 8 src))"
    and seg: "length seg = 8" and tot: "length dn < tot"
    and pad: "pad = replicate (length pad) 0"
  shows "\<exists>s'. packRound s src = Ok s' \<and>
           pack_inv tot pad (dn @ seg) (rest) s'"
proof -
  have len: "length (packed s) = pack_maxsz tot" and room: "pack_room (length dn) s"
    and run: "pack_run pad dn (seg @ rest) s"
    using inv ff(1) by (simp_all add: pack_inv_def)
  from run obtain pre run where R: "dn = pre @ run" "length run = 8 * ffN s"
    "packed_as (take (ffP s) (packed s)) pre" "ffS s @ pad = run @ seg @ rest"
    "offset s = ffP s + 2 + 8 * ffN s" "ffN s < 256"
    by (auto simp: pack_run_def)
  have fits: "offset s + 9 \<le> length (packed s)"
    using pack_room_fits [OF room tot] len by simp
  define p where "p = take (offset s) (packed s) @ seg_raw (drop (offset s) (packed s)) (take 8 src)"
  have lp: "length p = length (packed s)"
    using fits length_nz [of "take 8 src"] by (simp add: p_def)
  have tp: "take (ffP s) p = take (ffP s) (packed s)"
    using fits R(5) by (simp add: p_def)
  let ?run = "run @ seg"
  have lrun: "length ?run = 8 * (ffN s + 1)" and src': "ffS s @ pad = ?run @ rest"
    using R(2,4) seg by simp_all
  have room': "pack_room (length dn + 8) (s\<lparr>packed := q, ffN := m, offset := offset s + 8\<rparr>)"
    if "m = ffN s + 1 \<or> m = 0 \<and> ffN s = 255" for q m
  proof -
    obtain F where "2048 * F + 8 * ffN s \<le> length dn" "offset s \<le> length dn + 2 * F + 2"
      using room ff(1) by (auto simp: pack_room_def)
    with that show ?thesis
      unfolding pack_room_def by (intro exI [of _ "if m = 0 then F + 1 else F"]) auto
  qed
  show ?thesis
  proof (cases "ffN s + 1 = 256")
    case True
    have "\<exists>q. go_at (ffP s) (\<lambda>d. writeFF d (ffS s) ((ffN s + 1) * 8)) p = Ok q \<and>
        length q = length p \<and> packed_as (take (ffP s + 2 + 8 * 256) q) (pre @ ?run) \<and>
        drop (ffP s + 2 + 8 * 256) q = drop (ffP s + 2 + 8 * 256) p"
      using R tp fits lp True lrun run_from_source [OF src' pad]
      by (intro close_run) (auto simp: ac_simps align8_eq)
    then obtain q where "packRound s src = Ok (s\<lparr>packed := q, ffN := 0, offset := offset s + 8\<rparr>)"
      "length q = length p" "packed_as (take (offset s + 8) q) (dn @ seg)"
      using packRound_extend [OF fits ff p_def] True R by auto
    then show ?thesis
      using lp len seg True room' [of 0 q] by (intro exI) (auto simp: pack_inv_def)
  next
    case False
    then have "packRound s src = Ok (s\<lparr>packed := p, ffN := ffN s + 1, offset := offset s + 8\<rparr>)"
      using packRound_extend [OF fits ff p_def] by simp
    then show ?thesis
      using lp len seg False R(6) room' [of "ffN s + 1" p] pack_run_step [OF run _ seg tp]
      by (intro exI) (auto simp: pack_inv_def)
  qed
qed

lemma inv_open:
  assumes inv: "pack_inv tot pad dn (seg @ rest) s" and ff: "ffN s = 0" "length (nz (take 8 src)) = 8"
    and seg: "length seg = 8" "src @ pad = seg @ rest" and tot: "length dn < tot"
  shows "\<exists>s'. packRound s src = Ok s' \<and>
           pack_inv tot pad (dn @ seg) (rest) s'"
proof -
  have len: "length (packed s) = pack_maxsz tot" and room: "pack_room (length dn) s"
    and dn: "packed_as (take (offset s) (packed s)) dn"
    using inv ff(1) by (simp_all add: pack_inv_def)
  have fits: "offset s + 9 \<le> length (packed s)"
    using pack_room_fits [OF room tot] len by simp
  define p where "p = take (offset s) (packed s) @ seg_raw (drop (offset s) (packed s)) (take 8 src)"
  let ?s = "s\<lparr>packed := p, ffS := src, ffP := offset s, ffN := 1, offset := offset s + 10\<rparr>"
  have "length p = length (packed s)" "take (offset s) p = take (offset s) (packed s)"
    using fits length_nz [of "take 8 src"] by (simp_all add: p_def)
  moreover have "pack_run pad (dn @ seg) (rest) ?s"
    using dn seg calculation by (intro pack_runI [of _ dn seg]) auto
  moreover have "pack_room (length dn + 8) ?s"
    using room ff(1) unfolding pack_room_def by auto
  ultimately show ?thesis
    using packRound_open [OF fits ff p_def] len seg by (simp add: pack_inv_def)
qed

lemma inv_own:
  assumes inv: "pack_inv tot pad dn (seg @ rest) s" and k: "k = length (nz (take 8 src))"
    and ff: "ffN s = 0 \<and> k < 8 \<or> 0 < ffN s \<and> k < 6"
    and seg: "length seg = 8" "nz seg = nz (take 8 src)" "hdr 0 seg = hdr 0 (take 8 src)"
    and tot: "length dn < tot" and pad: "pad = replicate (length pad) 0"
  shows "\<exists>s'. packRound s src = Ok s' \<and> pack_inv tot pad (dn @ seg) rest s'"
proof -
  have len: "length (packed s) = pack_maxsz tot" and room: "pack_room (length dn) s"
    using inv by (simp_all add: pack_inv_def)
  have fits: "offset s + 9 \<le> length (packed s)"
    using pack_room_fits [OF room tot] len by simp
  define own where "own = hdr 0 seg # nz seg"
  define p where "p = take (offset s) (packed s) @ own @ drop (offset s + 1 + k) (packed s)"
  have own: "length own = k + 1" "packed_as own seg"
    using k seg ff packed_as_seg1 [of seg] by (auto simp: own_def)
  have lp: "length p = length (packed s)" "take (offset s) p = take (offset s) (packed s)"
    "take (k + 1) (drop (offset s) p) = own"
    using fits own(1) ff by (auto simp: p_def)
  have room': "pack_room (length dn + 8) (s\<lparr>packed := q, ffN := 0, offset := offset s + (k + 1)\<rparr>)" for q
  proof -
    obtain F where "2048 * F + 8 * ffN s \<le> length dn"
      "offset s \<le> length dn + 2 * F + (if ffN s > 0 then 2 else 0)"
      using room by (auto simp: pack_room_def)
    with ff show ?thesis unfolding pack_room_def by (intro exI [of _ F]) auto
  qed
  note round = packRound_own [OF fits k ff p_def [unfolded own_def seg(2,3)]]
  have split_at: "take (offset s + (k + 1)) q = take (offset s) q @ take (k + 1) (drop (offset s) q)" for q :: bytes
    by (rule take_add)
  show ?thesis
  proof (cases "ffN s = 0")
    case True
    then have "packed_as (take (offset s + (k + 1)) p) (dn @ seg)"
      using inv own(2) unfolding split_at lp by (intro packed_as_append) (simp_all add: pack_inv_def)
    then show ?thesis
      using round True lp len seg(1) room' [of p] by (auto simp: pack_inv_def pack_room_def)
  next
    case False
    then obtain pre run where R: "dn = pre @ run" "length run = 8 * ffN s"
      "packed_as (take (ffP s) (packed s)) pre" "ffS s @ pad = run @ seg @ rest"
      "offset s = ffP s + 2 + 8 * ffN s" "ffN s < 256"
      using inv by (auto simp: pack_inv_def pack_run_def)
    have tp: "take (ffP s) p = take (ffP s) (packed s)"
      using lp(2) R(5) by (metis le_add1 min.absorb1 take_take add.assoc)
    have "\<exists>q. go_at (ffP s) (\<lambda>d. writeFF d (ffS s) (ffN s * 8)) p = Ok q \<and> length q = length p \<and>
        packed_as (take (ffP s + 2 + 8 * ffN s) q) (pre @ run) \<and>
        drop (ffP s + 2 + 8 * ffN s) q = drop (ffP s + 2 + 8 * ffN s) p"
      using R tp fits lp False run_from_source [OF R(4) pad]
      by (intro close_run) (auto simp: ac_simps)
    then obtain q where q: "go_at (ffP s) (\<lambda>d. writeFF d (ffS s) (ffN s * 8)) p = Ok q"
      "length q = length p" "packed_as (take (offset s) q) dn" "drop (offset s) q = drop (offset s) p"
      using R by auto
    have "packed_as (take (offset s + (k + 1)) q) (dn @ seg)"
      using q(3,4) own(2) lp(3) unfolding split_at by (intro packed_as_append) simp_all
    then show ?thesis
      using round q False lp(1) len seg(1) room' [of q] by (auto simp: pack_inv_def)
  qed
qed

lemma packRound_inv:
  assumes inv: "pack_inv tot pad dn (src @ pad) s" and src: "src \<noteq> []" "length dn < tot"
    and pad: "pad = replicate (length pad) 0" "length pad < 8" "8 dvd (length src + length pad)"
  shows "\<exists>s'. packRound s src = Ok s' \<and>
           pack_inv tot pad (dn @ take 8 (src @ pad)) (drop 8 (src @ pad)) s'"
proof -
  define seg where "seg = take 8 (src @ pad)"
  define rest where "rest = drop 8 (src @ pad)"
  have split: "src @ pad = seg @ rest"
    by (simp only: seg_def rest_def append_take_drop_id)
  have seg: "length seg = 8" "nz seg = nz (take 8 src)" "hdr 0 seg = hdr 0 (take 8 src)"
    unfolding seg_def using seg_pad [OF src(1) pad] by simp_all
  note inv' = inv [unfolded split]
  define k where "k = length (nz (take 8 src))"
  have "k \<le> 8"
    using length_nz [of "take 8 src"] by (simp add: k_def)
  then consider "0 < ffN s" "6 \<le> k" | "ffN s = 0" "k = 8" | "ffN s = 0 \<and> k < 8 \<or> 0 < ffN s \<and> k < 6"
    by linarith
  then have "\<exists>s'. packRound s src = Ok s' \<and> pack_inv tot pad (dn @ seg) rest s'"
  proof cases
    case 1
    then show ?thesis using inv_extend [OF inv' _ _ seg(1) src(2) pad(1)] by (simp add: k_def)
  next
    case 2
    then show ?thesis using inv_open [OF inv' _ _ seg(1) split src(2)] by (simp add: k_def)
  next
    case 3
    then show ?thesis using inv_own [OF inv' k_def _ seg src(2) pad(1)] by simp
  qed
  then show ?thesis by (simp only: seg_def rest_def)
qed

lemma packLoop_inv:
  assumes "pack_inv tot pad dn (src @ pad) s" "length dn + length src = tot" "8 dvd length dn"
    and "pad = replicate (length pad) 0" "length pad < 8" "8 dvd (tot + length pad)"
    and "src \<noteq> [] \<or> pad = []"
  shows "\<exists>s'. packLoop s src = Ok s' \<and> pack_inv tot pad (dn @ src @ pad) [] s'"
  using assms
proof (induction s src arbitrary: dn rule: packLoop.induct)
  case (1 s src)
  show ?case
  proof (cases "src = []")
    case True
    with "1.prems" show ?thesis by (simp add: packLoop.simps)
  next
    case False
    have d: "8 dvd (length src + length pad)"
      using "1.prems"(2,3,6) by (metis dvd_add_right_iff add.assoc)
    obtain s1 where s1: "packRound s src = Ok s1"
      "pack_inv tot pad (dn @ take 8 (src @ pad)) (drop 8 (src @ pad)) s1"
      using packRound_inv [OF "1.prems"(1) False _ "1.prems"(4,5) d] "1.prems"(2) False by auto
    show ?thesis
    proof (cases "length src \<le> 8")
      case True
      then have "length (src @ pad) \<le> 8"
        using d False "1.prems"(5) by (auto simp: dvd_def)
      with True s1 False show ?thesis
        by (simp add: packLoop.simps)
    next
      case long: False
      have "\<exists>s'. packLoop s1 (drop 8 src) = Ok s' \<and>
          pack_inv tot pad ((dn @ take 8 src) @ drop 8 src @ pad) [] s'"
        using long s1 "1.prems" by (intro "1.IH") auto
      with s1 long False show ?thesis
        by (subst packLoop.simps) (simp add: append_take_drop_assoc)
    qed
  qed
qed

definition pad_of :: "bytes \<Rightarrow> bytes" where
  "pad_of src = replicate ((8 - length src mod 8) mod 8) 0"

lemma pad_of: "pad_of src = replicate (length (pad_of src)) 0" "length (pad_of src) < 8"
  "8 dvd (length src + length (pad_of src))"
proof -
  show "8 dvd (length src + length (pad_of src))"
  proof (cases "length src mod 8 = 0")
    case False
    then have "(8 - length src mod 8) mod 8 = 8 - length src mod 8"
      by simp
    moreover have "length src + (8 - length src mod 8) = 8 * (length src div 8) + 8"
      using mult_div_mod_eq [of 8 "length src"] mod_less_divisor [of 8 "length src"] by linarith
    ultimately show ?thesis
      by (simp add: pad_of_def)
  qed (simp add: pad_of_def mod_eq_0_iff_dvd)
qed (simp_all add: pad_of_def)

lemma pack_room_bound:
  assumes "pack_room (n + p) s" "p < 8" "8 dvd (n + p)"
  shows "offset s \<le> n + p + 2 * ((n + 2047) div 2048)"
proof -
  from assms(1) obtain F where F: "2048 * F + 8 * ffN s \<le> n + p"
    "offset s \<le> n + p + 2 * F + (if ffN s > 0 then 2 else 0)"
    by (auto simp: pack_room_def)
  have "F + (if ffN s > 0 then 1 else 0) \<le> (n + 2047) div 2048"
    using F(1) assms(2,3) by (auto simp: less_eq_div_iff_mult_less_eq)
  with F(2) show ?thesis by (auto split: if_splits)
qed

lemma pack_room_maxsz:
  assumes "pack_room (n + p) s" "p < 8" "8 dvd (n + p)"
  shows "offset s \<le> pack_maxsz n"
proof (cases "n = 0")
  case True
  with assms(2,3) have "p = 0" by (auto simp: dvd_def)
  with True pack_room_bound [OF assms] show ?thesis by simp
next
  case False
  then have "1 \<le> (n + 2047) div 2048" by (simp add: less_eq_div_iff_mult_less_eq)
  then have "p + 2 * ((n + 2047) div 2048) \<le> (n + 2047) div 2048 * 100"
    using assms(2) by linarith
  with pack_room_bound [OF assms] show ?thesis unfolding pack_maxsz_def by linarith
qed

lemma Pack_packed_as:
  "\<exists>w. Pack src = Ok w \<and> packed_as w (src @ pad_of src) \<and>
       length w \<le> length (src @ pad_of src) + 2 * ((length src + 2047) div 2048)"
proof -
  let ?s0 = "\<lparr>packed = replicate (pack_maxsz (length src)) 0, offset = 0, ffS = [], ffN = 0, ffP = 0\<rparr>"
  have "pack_inv (length src) (pad_of src) [] (src @ pad_of src) ?s0"
    by (simp add: pack_inv_def pack_room_def packed_nil)
  moreover have "src \<noteq> [] \<or> pad_of src = []"
    by (auto simp: pad_of_def)
  ultimately obtain s where s: "packLoop ?s0 src = Ok s"
    "pack_inv (length src) (pad_of src) (src @ pad_of src) [] s"
    using packLoop_inv [OF _ _ _ pad_of] by fastforce
  then have len: "length (packed s) = pack_maxsz (length src)"
    and room: "pack_room (length src + length (pad_of src)) s"
    by (simp_all add: pack_inv_def)
  note bound = pack_room_bound [OF room pad_of(2,3)]
  have fits: "offset s \<le> pack_maxsz (length src)"
    using pack_room_maxsz [OF room pad_of(2,3)] .
  show ?thesis
  proof (cases "ffN s = 0")
    case True
    with s fits len bound show ?thesis
      by (simp add: Pack_def go_slice_def pack_inv_def)
  next
    case False
    then have "pack_run (pad_of src) (src @ pad_of src) [] s"
      using s(2) by (simp add: pack_inv_def)
    then obtain pre run where R: "src @ pad_of src = pre @ run" "length run = 8 * ffN s"
      "packed_as (take (ffP s) (packed s)) pre" "ffS s @ pad_of src = run"
      "offset s = ffP s + 2 + 8 * ffN s" "ffN s < 256"
      unfolding pack_run_def append_Nil2 by blast
    have "align8 (length (ffS s)) = 8 * ffN s"
      using R(2,4) pad_of(2) [of src] by (auto simp: align8_eq)
    moreover have "ffS s @ replicate (8 * ffN s - length (ffS s)) 0 = run"
      using R(2,4) pad_of(1) [of src] by (metis add_diff_cancel_left' length_append)
    ultimately obtain q where q: "go_at (ffP s) (\<lambda>d. writeFF d (ffS s) (length (ffS s))) (packed s) = Ok q"
      "length q = length (packed s)" "packed_as (take (offset s) q) (src @ pad_of src)"
      using close_run [of "ffP s" "packed s" pre run "ffN s" "length (ffS s)" "ffS s"] R False fits len
      by auto
    then show ?thesis
      using s(1) False fits len bound by (simp add: Pack_def go_slice_def)
  qed
qed

section \<open>Unpacking\<close>

lemma hdr_parity: "hdr 0 (v # vs) mod 2 = 1 \<longleftrightarrow> v \<noteq> 0"
proof -
  have "hdr 0 (v # vs) mod 2 = 1 \<longleftrightarrow> bit (hdr 0 (v # vs)) 0"
    by (simp only: odd_iff_mod_2_eq_one [symmetric] bit_0)
  also have "\<dots> \<longleftrightarrow> v \<noteq> 0"
    by (simp only: bit_hdr) simp
  finally show ?thesis .
qed

lemma hdr_shift: "length vs \<le> 7 \<Longrightarrow> drop_bit 1 (hdr 0 (v # vs)) = hdr 0 vs"
  by (rule bit_word_eqI) (auto simp: bit_drop_bit_eq bit_hdr simp del: hdr.simps)

lemma unpackBits_eq:
  "i + length vs = 8 \<Longrightarrow> length buf = 8 \<Longrightarrow> length pre = nzc + 1 \<Longrightarrow>
   unpackBits [i..<8] (pre @ nz vs @ rest) (hdr 0 vs) nzc buf =
     Ok (take i buf @ vs, nzc + length (nz vs))"
proof (induction vs arbitrary: i buf pre nzc)
  case (Cons v vs)
  then have up: "[i..<8] = i # [Suc i..<8]"
    by (simp add: upt_conv_Cons)
  have shift: "drop_bit 1 (hdr 0 (v # vs)) = hdr 0 vs"
    using Cons.prems by (intro hdr_shift) simp
  have tk: "take (Suc i) (buf[i := w]) = take i buf @ [w]" for w
    using Cons.prems by (intro take_list_update_snoc) simp
  show ?case
  proof (cases "v = 0")
    case True
    have "unpackBits [Suc i..<8] (pre @ nz vs @ rest) (hdr 0 vs) nzc (buf[i := 0]) =
        Ok (take (Suc i) (buf[i := 0]) @ vs, nzc + length (nz vs))"
      using Cons.prems by (intro Cons.IH) simp_all
    moreover have "hdr 0 (v # vs) mod 2 \<noteq> 1"
      using True by (simp only: hdr_parity simp_thms)
    ultimately show ?thesis
      using True Cons.prems shift tk by (simp add: up go_set_def del: hdr.simps)
  next
    case False
    have "unpackBits [Suc i..<8] ((pre @ [v]) @ nz vs @ rest) (hdr 0 vs) (nzc + 1) (buf[i := v]) =
        Ok (take (Suc i) (buf[i := v]) @ vs, nzc + 1 + length (nz vs))"
      using Cons.prems by (intro Cons.IH) simp_all
    moreover have "hdr 0 (v # vs) mod 2 = 1"
      using False by (simp only: hdr_parity simp_thms)
    ultimately show ?thesis
      using False Cons.prems shift tk
      by (simp add: up go_set_def go_nth_def nth_append del: hdr.simps)
  qed
qed simp

lemma unpackRound_seg:
  assumes "length vs = 8" "length (nz vs) < 8" "length buf = 8"
  shows "unpackRound ((hdr 0 vs # nz vs) @ w) u buf = Ok (length (nz vs) + 1, Append u vs, vs)"
  using hdr_not_ff [of vs] assms unpackBits_eq [of 0 vs buf "[hdr 0 vs]" 0 w]
  by (simp add: unpackRound_def go_nth_def)

lemma unpackRound_run:
  assumes "length d = 8 * k" "0 < k" "k \<le> 256"
  shows "unpackRound ((0xff # word_of_nat (k - 1) # d) @ w) u buf = Ok (2 + 8 * k, Append u d, buf)"
proof -
  have "unat (word_of_nat (k - 1) :: byte) = k - 1"
    using assms(3) by (simp add: unat_of_nat take_bit_nat_eq_self)
  then have "2 + (unat (word_of_nat (k - 1) :: byte) + 1) * 8 = 2 + 8 * k"
    using assms(2) by simp
  then show ?thesis
    using assms by (simp add: unpackRound_def go_nth_def Let_def go_slice_def)
qed

lemma unpackLoop_packed:
  "packed_as w xs \<Longrightarrow> wf_slice u \<Longrightarrow> length buf = 8 \<Longrightarrow>
   \<exists>u'. unpackLoop w u buf = Ok u' \<and> contents u' = contents u @ xs"
proof (induction arbitrary: u buf rule: packed_as.induct)
  case packed_nil
  then show ?case by (simp add: unpackLoop.simps)
next
  case (packed_seg vs w xs)
  from packed_seg.IH [of "Append u vs" vs] packed_seg.hyps packed_seg.prems
    unpackRound_seg [of vs buf w u]
  show ?case
    by (subst unpackLoop.simps) (simp add: go_from_in Append_contents)
next
  case (packed_run d k w xs)
  from packed_run.IH [of "Append u d" buf] packed_run.hyps packed_run.prems
    unpackRound_run [of d k w u buf]
  show ?case
    by (subst unpackLoop.simps) (simp add: go_from_in Append_contents)
qed

lemma Unpack_packed_as: "packed_as w xs \<Longrightarrow> Unpack w = Ok xs"
  using unpackLoop_packed [of w xs "make_slice 0 (length w)" "replicate 8 0"]
  by (auto simp: Unpack_def)

text \<open>On arbitrary input: whole segments or \<open>ErrUnpack\<close>, never a panic.\<close>

lemma unpackBits_total:
  "length buf = 8 \<Longrightarrow> \<forall>i \<in> set is. i < 8 \<Longrightarrow> nzc < length src \<Longrightarrow>
   (\<exists>b n. unpackBits is src h nzc buf = Ok (b, n) \<and> length b = 8 \<and> n < length src)
     \<or> unpackBits is src h nzc buf = Err ErrUnpack"
proof (induction "is" arbitrary: h nzc buf)
  case (Cons i "is")
  show ?case
  proof (cases "h mod 2 = 1")
    case True
    then show ?thesis
      using Cons.prems Cons.IH [of "buf[i := src ! (nzc + 1)]" "nzc + 1" "drop_bit 1 h"]
      by (auto simp: go_nth_def go_set_def)
  next
    case False
    then show ?thesis
      using Cons.prems Cons.IH [of "buf[i := 0]" nzc "drop_bit 1 h"] by (auto simp: go_set_def)
  qed
qed simp

lemma unpackRound_total:
  assumes "src \<noteq> []" "length buf = 8"
  shows "(\<exists>used u' b. unpackRound src u buf = Ok (used, u', b) \<and> length b = 8 \<and> used \<le> length src \<and>
           0 < used \<and> (\<exists>d. u' = Append u d \<and> 8 dvd length d)) \<or> unpackRound src u buf = Err ErrUnpack"
proof (cases "src ! 0 = 0xff")
  case True
  then show ?thesis
    using assms by (auto simp: unpackRound_def go_nth_def Let_def go_slice_def)
next
  case False
  have "\<forall>i \<in> set [0..<8]. i < 8" by simp
  from unpackBits_total [OF assms(2) this, of 0 src "src ! 0"] assms(1)
  consider (ok) b n where "unpackBits [0..<8] src (src ! 0) 0 buf = Ok (b, n)" "length b = 8" "n < length src"
    | (err) "unpackBits [0..<8] src (src ! 0) 0 buf = Err ErrUnpack"
    by auto
  then show ?thesis
  proof cases
    case ok
    then show ?thesis
      using False assms(1) by (auto simp: unpackRound_def go_nth_def)
  next
    case err
    then show ?thesis
      using False assms(1) by (auto simp: unpackRound_def go_nth_def)
  qed
qed

lemma unpackLoop_total:
  "length buf = 8 \<Longrightarrow> wf_slice u \<Longrightarrow>
   (\<exists>u' d. unpackLoop src u buf = Ok u' \<and> contents u' = contents u @ d \<and> 8 dvd length d)
     \<or> unpackLoop src u buf = Err ErrUnpack"
proof (induction "length src" arbitrary: src u buf rule: less_induct)
  case less
  show ?case
  proof (cases "src = []")
    case True
    then show ?thesis by (simp add: unpackLoop.simps)
  next
    case False
    from unpackRound_total [OF False less.prems(1), of u] show ?thesis
    proof
      assume "\<exists>used u' b. unpackRound src u buf = Ok (used, u', b) \<and> length b = 8 \<and> used \<le> length src \<and>
           0 < used \<and> (\<exists>d. u' = Append u d \<and> 8 dvd length d)"
      then obtain used b d where r: "unpackRound src u buf = Ok (used, Append u d, b)" "length b = 8"
        "used \<le> length src" "0 < used" "8 dvd length d"
        by auto
      have "unpackLoop src u buf = unpackLoop (drop used src) (Append u d) b"
        using r False by (subst unpackLoop.simps) (simp add: go_from_in)
      moreover have "length (drop used src) < length src"
        using r False by simp
      ultimately show ?thesis
        using less.hyps [of "drop used src" b "Append u d"] r(2,5) less.prems(2)
        by (auto simp: Append_contents)
    next
      assume "unpackRound src u buf = Err ErrUnpack"
      then show ?thesis
        using False by (subst (2) unpackLoop.simps) simp
    qed
  qed
qed

section \<open>Properties\<close>

text \<open>
  C8: \<open>Unpack\<close> inverts \<open>Pack\<close>. For every byte string \<open>Pack\<close> returns (no write leaves
  the pre-allocated buffer), and unpacking the result gives the input followed by the zeros that
  fill its last eight-byte segment.
\<close>

theorem Unpack_Pack:
  "\<exists>w. Pack src = Ok w \<and> Unpack w = Ok (src @ replicate ((8 - length src mod 8) mod 8) 0)"
  using Pack_packed_as [of src] Unpack_packed_as unfolding pad_of_def by blast

text \<open>
  The packed form exceeds the padded input by at most two bytes for every started group of
  2048 input bytes, which is what the buffer size computed by \<open>Pack\<close> relies on.
\<close>

theorem Pack_overhead:
  "\<exists>w. Pack src = Ok w \<and>
     length w \<le> length src + (8 - length src mod 8) mod 8 + 2 * ((length src + 2047) div 2048)"
  using Pack_packed_as [of src] unfolding pad_of_def by auto

text \<open>
  C12: \<open>Unpack\<close> is safe on arbitrary bytes: it terminates with a whole number of eight-byte
  segments or with \<open>ErrUnpack\<close>, and no index of it leaves its slice.
\<close>

theorem Unpack_total:
  "(\<exists>d. Unpack src = Ok d \<and> 8 dvd length d) \<or> Unpack src = Err ErrUnpack"
  using unpackLoop_total [of "replicate 8 0" "make_slice 0 (length src)" src]
  by (auto simp: Unpack_def)

end
