(* ===== verification/Sproto_Codec.thy ===== *)
theory Sproto_Codec
  imports Sproto_Message Sproto_Pack
begin

unbundle bit_operations_syntax

text \<open>
  The round trip of gosproto and its interface: \<^verbatim>\<open>getbase\<close>, \<^verbatim>\<open>Encode\<close>, \<^verbatim>\<open>Decode\<close>,
  \<^verbatim>\<open>EncodePacked\<close> and \<^verbatim>\<open>DecodePacked\<close>. An \<^verbatim>\<open>interface{}\<close> argument is its dynamic type
  with, for a pointer to a struct, the fields it points to.
\<close>

section \<open>The interface of the package\<close>

datatype iface = IfaceNil | Iface rtype "gval list option"

definition getbase :: "iface \<Rightarrow> (string \<times> gval list) sproto" where
  "getbase sp =
     (case sp of
        IfaceNil \<Rightarrow> Err ErrNil
      | Iface ty v \<Rightarrow>
          (case ty of
             TPtr el \<Rightarrow>
               (case el of
                  TStruct t \<Rightarrow> (case v of None \<Rightarrow> Err ErrNil | Some vs \<Rightarrow> Ok (t, vs))
                | _ \<Rightarrow> Err ErrNonStruct)
           | _ \<Rightarrow> Err ErrNonPtr))"

text \<open>The common shape of the entry points: look the type up, then work with its description.\<close>

definition with_type ::
  "tenv \<Rightarrow> iface \<Rightarrow> (SprotoType list \<Rightarrow> nat \<Rightarrow> string \<Rightarrow> gval list \<Rightarrow> 'a sproto) \<Rightarrow> 'a reg" where
  "with_type env sp f r =
     (case getbase sp of
        Err e \<Rightarrow> Some (Err e, r)
      | Panic p \<Rightarrow> Some (Panic p, r)
      | Ok (t, vs) \<Rightarrow>
          (case GetSprotoType env (TStruct t) r of
             None \<Rightarrow> None
           | Some (Err e, r) \<Rightarrow> Some (Err e, r)
           | Some (Panic p, r) \<Rightarrow> Some (Panic p, r)
           | Some (Ok a, r) \<Rightarrow> Some (f (heap r) a t vs, r)))"

definition Encode :: "tenv \<Rightarrow> iface \<Rightarrow> bytes reg" where
  "Encode env sp = with_type env sp (\<lambda>h a t vs. encodeMessage h (Some a) (Some vs))"

text \<open>The result pairs the bytes used with the struct that the destination holds then.\<close>

definition Decode :: "tenv \<Rightarrow> bytes \<Rightarrow> iface \<Rightarrow> (nat \<times> gval list) reg" where
  "Decode env data sp =
     with_type env sp (\<lambda>h a t vs. decodeMessage env h data (Some a) t (zero_struct env t))"

definition EncodePacked :: "tenv \<Rightarrow> iface \<Rightarrow> bytes reg" where
  "EncodePacked env sp r =
     (case Encode env sp r of
        None \<Rightarrow> None
      | Some (res, r) \<Rightarrow> Some (bind_go res Pack, r))"

definition DecodePacked :: "tenv \<Rightarrow> bytes \<Rightarrow> iface \<Rightarrow> gval list reg" where
  "DecodePacked env data sp r =
     (case Unpack data of
        Err e \<Rightarrow> Some (Err e, r)
      | Panic p \<Rightarrow> Some (Panic p, r)
      | Ok unpacked \<Rightarrow>
          (case Decode env unpacked sp r of
             None \<Rightarrow> None
           | Some (res, r) \<Rightarrow> Some (bind_go res (\<lambda>(n, vs). Ok vs), r)))"

section \<open>Struct fields\<close>

lemma message_codec_nil:
  assumes "a < length h"
  shows "encodeMessage h (Some a) None = Ok (message_bytes [])"
    and "decodeMessage env h (message_bytes [] @ rest) (Some a) t vs = Ok (length (message_bytes []), vs)"
proof -
  show "encodeMessage h (Some a) None = Ok (message_bytes [])"
    using assms by (intro encodeMessage_nil) (simp add: deref_def)
  have "decodeHeader (message_bytes [] @ rest) = Ok (length (message_bytes []), [])"
    using decodeHeader_items [of "[]" rest] by (simp add: message_bytes_def)
  then show "decodeMessage env h (message_bytes [] @ rest) (Some a) t vs = Ok (length (message_bytes []), vs)"
    using assms by (simp add: decodeMessage.simps deref_def)
qed

definition element_image :: "tenv \<Rightarrow> string \<Rightarrow> gval list option \<Rightarrow> gval list" where
  "element_image env t p = (case p of None \<Rightarrow> zero_struct env t | Some vs \<Rightarrow> image_struct env t vs)"

lemma element_codec:
  assumes "a < length h" "\<And>vs. p = Some vs \<Longrightarrow> message_codec env h a t vs"
  obtains d where "encodeMessage h (Some a) p = Ok d"
    "length d < 2 ^ 32 \<Longrightarrow>
       decodeMessage env h d (Some a) t (zero_struct env t) = Ok (length d, element_image env t p)"
proof (cases p)
  case None
  with that message_codec_nil(1) [OF assms(1)] message_codec_nil(2) [OF assms(1), where rest = "[]"]
  show ?thesis by (simp add: element_image_def)
next
  case (Some vs)
  with assms(2) that show ?thesis
    unfolding message_codec_def element_image_def by (metis append_Nil2 option.simps(5))
qed

lemma wire_image_ptr: "wire_image env (TPtr (TStruct t)) (GPtr (Some vs)) = GPtr (Some (image_struct env t vs))"
  by (simp add: image_struct_def)

lemma wire_image_ptrs:
  "wire_image env (TSlice (TPtr (TStruct t))) (GPtrs (Some ps)) =
     GPtrs (Some (map (Some \<circ> element_image env t) ps))"
  by (auto simp: element_image_def image_struct_def split: option.split)

lemma coded_struct:
  assumes "a < length h" "\<And>vs. p = Some vs \<Longrightarrow> message_codec env h a t vs"
  shows "coded env h ((with_coders HeaderDefault (Some EncStruct) DecStruct sf)\<lparr>sfSt := Some a\<rparr>)
    (TPtr (TStruct t)) (GPtr p)"
proof (cases p)
  case None
  then show ?thesis
    by (intro coded_nilI) (simp_all add: headerEncode_def with_coders_def)
next
  case (Some vs)
  obtain d where d: "encodeMessage h (Some a) p = Ok d"
    "length d < 2 ^ 32 \<Longrightarrow>
       decodeMessage env h d (Some a) t (zero_struct env t) = Ok (length d, element_image env t p)"
    using element_codec [OF assms(1), of p env t] assms(2) by auto
  show ?thesis
    by (intro coded_dataI [where x = d])
      (use Some d in \<open>simp_all add: headerEncode_def with_coders_def encodeData.simps decodeData.simps
         wire_image_ptr element_image_def del: wire_image.simps\<close>)
qed

lemma structs_codec:
  assumes "a < length h" "\<And>vs. Some vs \<in> set ps \<Longrightarrow> message_codec env h a t vs" "sfSt sf = Some a"
  shows "\<exists>ds. encodeStructs h (Some a) ps = Ok ds \<and>
    (length (concat (map chunk_of ds)) < 2 ^ 32 \<longrightarrow>
       decodeStructs env h sf t (concat (map chunk_of ds)) = Ok (map (Some \<circ> element_image env t) ps))"
  using assms(2)
proof (induction ps)
  case Nil
  then show ?case by (simp add: decodeStructs.simps)
next
  case (Cons p ps)
  obtain d where d: "encodeMessage h (Some a) p = Ok d"
    "length d < 2 ^ 32 \<Longrightarrow>
       decodeMessage env h d (Some a) t (zero_struct env t) = Ok (length d, element_image env t p)"
    using element_codec [OF assms(1), of p env t] Cons.prems by auto
  obtain ds where ds: "encodeStructs h (Some a) ps = Ok ds"
    "length (concat (map chunk_of ds)) < 2 ^ 32 \<Longrightarrow>
       decodeStructs env h sf t (concat (map chunk_of ds)) = Ok (map (Some \<circ> element_image env t) ps)"
    using Cons.IH Cons.prems by auto
  have "decodeStructs env h sf t (chunk_of d @ concat (map chunk_of ds)) =
      Ok (Some (element_image env t p) # map (Some \<circ> element_image env t) ps)"
    if "length (chunk_of d @ concat (map chunk_of ds)) < 2 ^ 32"
  proof -
    have small: "length d < 2 ^ 32" "length (concat (map chunk_of ds)) < 2 ^ 32"
      using that by simp_all
    show ?thesis
      using d(2) [OF small(1)] ds(2) [OF small(2)] readChunk_chunk_of [OF small(1)] assms(3)
      by (subst decodeStructs.simps) (simp add: go_from_in)
  qed
  with d(1) ds(1) show ?case by simp
qed

lemma coded_structs:
  assumes "a < length h" "\<And>qs vs. ps = Some qs \<Longrightarrow> Some vs \<in> set qs \<Longrightarrow> message_codec env h a t vs"
  shows "coded env h ((with_coders HeaderDefault (Some EncStructSlice) DecStructSlice sf)\<lparr>sfSt := Some a\<rparr>)
    (TSlice (TPtr (TStruct t))) (GPtrs ps)" (is "coded env h ?sf _ _")
proof (cases ps)
  case None
  then show ?thesis
    by (intro coded_nilI) (simp_all add: headerEncode_def with_coders_def)
next
  case (Some qs)
  obtain ds where ds: "encodeStructs h (Some a) qs = Ok ds"
    "length (concat (map chunk_of ds)) < 2 ^ 32 \<Longrightarrow>
       decodeStructs env h ?sf t (concat (map chunk_of ds)) = Ok (map (Some \<circ> element_image env t) qs)"
    using structs_codec [OF assms(1), of qs env t ?sf] assms(2) Some by auto
  show ?thesis
    by (intro coded_dataI [where x = "concat (map chunk_of ds)"])
      (use Some ds in \<open>simp_all add: headerEncode_def encodeData.simps decodeData.simps
         with_coders_def writeChunks_eq wire_image_ptrs del: wire_image.simps length_concat\<close>)
qed

section \<open>The round trip\<close>

lemma sfTag_parseOptions [simp]: "sfTag (parseOptions fs sf) = sfTag sf"
  by (induction fs sf rule: parseOptions.induct) simp_all

lemma sfIndex_parseOptions [simp]: "sfIndex (parseOptions fs sf) = sfIndex sf"
  by (induction fs sf rule: parseOptions.induct) simp_all

lemma parse_tag_any: "parse s sf = Ok sf1 \<Longrightarrow> \<exists>sf2. parse s sf' = Ok sf2 \<and> sfTag sf2 = sfTag sf1"
  by (auto simp: parse_def Let_def split: if_splits option.splits)

lemma parse_index: "parse s sf = Ok sf1 \<Longrightarrow> sfIndex sf1 = sfIndex sf"
  by (auto simp: parse_def Let_def split: if_splits option.splits)

lemma selectCoders_keeps:
  "selectCoders ty sf = Ok (sf', s) \<Longrightarrow> sfTag sf' = sfTag sf \<and> sfIndex sf' = sfIndex sf"
  by (induction ty sf rule: selectCoders.induct)
    (auto simp: go_elims with_coders_def split: if_splits)

lemma link_field_keeps:
  "link_field m (sf, s) = Some sf' \<Longrightarrow> sfTag sf' = sfTag sf \<and> sfIndex sf' = sfIndex sf"
  by (auto simp: link_field_def split: option.splits)

lemma field_spec_tag:
  assumes "field_spec i f = Ok (sf, s)"
  shows "sfTag sf = declared_tag f" and "sfIndex sf \<in> {[], [i]}" and "fTag f \<noteq> [] \<Longrightarrow> sfIndex sf = [i]"
proof -
  consider "fTag f = []" "sf = new_SprotoField\<lparr>sfName := fName f, sfOrigName := fName f, sfTag := -1\<rparr>"
    | sf1 where "fTag f \<noteq> []" "parse (fTag f) (new_SprotoField\<lparr>sfName := fName f, sfOrigName := fName f, sfIndex := [i]\<rparr>) = Ok sf1"
      "selectCoders (fType f) sf1 = Ok (sf, s)"
    using assms by (auto simp: field_spec_def Let_def go_elims split: if_splits)
  then have "sfTag sf = declared_tag f \<and> sfIndex sf \<in> {[], [i]} \<and> (fTag f \<noteq> [] \<longrightarrow> sfIndex sf = [i])"
  proof cases
    case 1
    then show ?thesis by (simp add: declared_tag_def new_SprotoField_def)
  next
    case 2
    from 2(2) obtain sf2 where "parse (fTag f) new_SprotoField = Ok sf2" "sfTag sf2 = sfTag sf1"
      using parse_tag_any by blast
    with 2 selectCoders_keeps [OF 2(3)] parse_index [OF 2(2)] show ?thesis
      by (simp add: declared_tag_def)
  qed
  then show "sfTag sf = declared_tag f" and "sfIndex sf \<in> {[], [i]}" and "fTag f \<noteq> [] \<Longrightarrow> sfIndex sf = [i]"
    by blast+
qed

lemma coded_field:
  assumes sel: "selectCoders ty sf0 = Ok (sf1, s)" and link: "link_field m (sf1, s) = Some sf"
    and ty: "typed env ty v"
    and bound: "\<And>t a. m t = Some a \<Longrightarrow> a < length h"
    and IH: "\<And>t a vs. m t = Some a \<Longrightarrow> typed_struct env t vs \<Longrightarrow> size_list size vs < size v \<Longrightarrow>
      message_codec env h a t vs"
  shows "coded env h sf ty v"
proof (cases v)
  case (GPtr p)
  with ty obtain t where t: "ty = TPtr (TStruct t)"
    by (auto split: rtype.splits)
  with sel link obtain a where a: "m t = Some a"
    and sf: "sf = (with_coders HeaderDefault (Some EncStruct) DecStruct sf0)\<lparr>sfSt := Some a\<rparr>"
    by (auto simp: go_elims link_field_def split: option.splits)
  have "message_codec env h a t vs" if "p = Some vs" for vs
    using ty t GPtr that by (intro IH [OF a]) (simp_all add: typed_struct_def)
  then show ?thesis
    unfolding sf t GPtr by (intro coded_struct bound [OF a])
next
  case (GPtrs ps)
  with ty obtain t where t: "ty = TSlice (TPtr (TStruct t))"
    by (auto split: rtype.splits)
  with sel link obtain a where a: "m t = Some a"
    and sf: "sf = (with_coders HeaderDefault (Some EncStructSlice) DecStructSlice sf0)\<lparr>sfSt := Some a\<rparr>"
    by (auto simp: go_elims link_field_def split: option.splits)
  have "message_codec env h a t vs" if ps: "ps = Some qs" "Some vs \<in> set qs" for qs vs
  proof (rule IH [OF a])
    show "typed_struct env t vs"
      using ty t GPtrs ps by (auto simp: typed_struct_def list_all_iff)
    have "size_list size vs < size_list (size_option (size_list size)) qs"
      using ps(2) by (rule size_list_estimation) simp
    then show "size_list size vs < size v"
      using GPtrs ps by simp
  qed
  then show ?thesis
    unfolding sf t GPtrs by (intro coded_structs bound [OF a])
next
  case GOther
  with ty sel show ?thesis
    by (cases "(ty, sf0)" rule: selectCoders.cases) (auto split: if_splits)
next
  case (GInts k p)
  with ty have t: "ty = TSlice (TInt k)" and p: "typed env ty (GInts k p)"
    by simp_all
  show ?thesis
  proof (cases "k = KUint8 \<and> sfWire sf0 = WireBytesName")
    case True
    with sel link t have sf: "sf = with_coders HeaderDefault (Some EncBytes) DecBytes sf0"
      by (auto simp: go_elims link_field_def)
    show ?thesis
      using p coded_bytes True unfolding sf GInts t by blast
  next
    case False
    with sel link t have sf: "sf = with_coders HeaderDefault (Some EncIntSlice) DecIntSlice sf0"
      by (auto simp: go_elims link_field_def simp del: de_Morgan_conj split: if_splits)
    show ?thesis
      using p coded_ints unfolding sf GInts t by blast
  qed
qed (use sel link ty in \<open>auto simp: go_elims link_field_def coded_bool coded_int coded_string coded_bools coded_strings\<close>)


definition small_tags :: "tenv \<Rightarrow> bool" where
  "small_tags env \<longleftrightarrow> list_all (\<lambda>(t, fs). list_all (\<lambda>f. declared_tag f < 32768) fs) env"

lemma small_tagsD: "small_tags env \<Longrightarrow> f \<in> set (struct_fields env t) \<Longrightarrow> declared_tag f < 32768"
  by (cases "map_of env t") (auto simp: small_tags_def struct_fields_def list_all_iff dest: map_of_SomeD)

lemma field_linkI:
  assumes st: "describes env m t st" and i: "i < length (struct_fields env t)" "i < length vs"
    and small: "small_tags env"
    and coded: "\<And>sf0 sf1 s sf. selectCoders (fType (struct_fields env t ! i)) sf0 = Ok (sf1, s) \<Longrightarrow>
      link_field m (sf1, s) = Some sf \<Longrightarrow> coded env h sf (fType (struct_fields env t ! i)) (vs ! i)"
  shows "\<exists>sf. field_link env h t st vs i sf"
proof -
  let ?f = "struct_fields env t ! i"
  from st i(1) obtain sf1 s sf where sf: "field_spec i ?f = Ok (sf1, s)" "link_field m (sf1, s) = Some sf"
    "stFields st ! i = Some sf"
    unfolding describes_def described_def field_ok_def by (metis option.exhaust prod.exhaust)
  have keeps: "sfTag sf = declared_tag ?f" "sfIndex sf \<in> {[], [i]}" "fTag ?f \<noteq> [] \<Longrightarrow> sfIndex sf = [i]"
    using link_field_keeps [OF sf(2)] field_spec_tag [OF sf(1)] by auto
  have "sfIndex sf = [i] \<and> FieldByTag st (sfTag sf) = Some sf \<and> coded env h sf (fType ?f) (vs ! i)"
    if "0 \<le> sfTag sf"
  proof -
    have tagged: "fTag ?f \<noteq> []"
      using that keeps(1) by (auto simp: declared_tag_def)
    then obtain sf0 where "selectCoders (fType ?f) sf0 = Ok (sf1, s)"
      using sf(1) by (auto simp: field_spec_def Let_def go_elims split: if_splits)
    moreover have "FieldByTag st (sfTag sf) = Some sf"
      using describes_FieldByTag [OF st that] sf(3) i(1) st by (auto simp: describes_def described_def)
    ultimately show ?thesis
      using coded sf(2) keeps(3) tagged by blast
  qed
  then show ?thesis
    using i sf(3) keeps small_tagsD [OF small, of ?f t] st
    by (intro exI [of _ sf]) (auto simp: field_link_def Let_def describes_def described_def)
qed

lemma struct_round_trip:
  assumes reg: "registry_ok env {} r" and small: "small_tags env"
  shows "stMap r t = Some a \<Longrightarrow> typed_struct env t vs \<Longrightarrow> message_codec env (heap r) a t vs"
proof (induction "size_list size vs" arbitrary: t a vs rule: less_induct)
  case less
  have bound: "b < length (heap r)" if "stMap r t' = Some b" for t' b
    using reg that by (simp add: registry_ok_def)
  have st: "describes env (stMap r) t (heap r ! a)"
    using reg less.prems(1) by (simp add: registry_ok_def)
  have ty: "list_all2 (\<lambda>f v. typed env (fType f) v) (struct_fields env t) vs"
    using less.prems(2) by (simp add: typed_struct_def)
  then have len: "length vs = length (struct_fields env t)"
    by (simp add: list_all2_lengthD)
  have "\<exists>sf. field_link env (heap r) t (heap r ! a) vs i sf" if i: "i < length vs" for i
  proof (rule field_linkI [OF st _ i small])
    show "i < length (struct_fields env t)"
      using i len by simp
    fix sf0 sf1 s sf
    assume sel: "selectCoders (fType (struct_fields env t ! i)) sf0 = Ok (sf1, s)"
      and link: "link_field (stMap r) (sf1, s) = Some sf"
    show "coded env (heap r) sf (fType (struct_fields env t ! i)) (vs ! i)"
    proof (rule coded_field [OF sel link _ bound])
      show "typed env (fType (struct_fields env t ! i)) (vs ! i)"
        using ty i len by (simp add: list_all2_conv_all_nth)
      fix t' a' vs'
      assume "stMap r t' = Some a'" "typed_struct env t' vs'" "size_list size vs' < size (vs ! i)"
      moreover have "size (vs ! i) < Suc (size_list size vs)"
        using i by (intro elem_size) simp
      ultimately show "message_codec env (heap r) a' t' vs'"
        by (intro less.hyps) simp_all
    qed
  qed
  then show ?case
    using message_codecI [OF bound [OF less.prems(1)] st len] by blast
qed

section \<open>Which values come back unchanged\<close>

lemma ucast_ucast_u32: "ucast (ucast (m :: u64) :: u32) = take_bit 32 m"
  by (rule bit_word_eqI) (auto simp: bit_simps dest: bit_imp_le_length)

lemma set_int_take_bit:
  "int_width k \<le> 32 \<Longrightarrow> set_int k (take_bit 32 m) = set_int k m"
  by (cases k) (simp_all add: set_int_def signed_take_bit_take_bit)

lemma uint_take_32: "uint (take_bit 32 (m :: u64)) = uint m mod 2 ^ 32"
  by (simp only: unsigned_take_bit_eq) (simp add: take_bit_eq_mod)

lemma uint_of_sint: "uint (m :: u64) = sint m mod 2 ^ 64"
  by (simp add: uint_sint take_bit_eq_mod)

lemma sint_bounds: "- (2 ^ 63) \<le> sint (m :: u64)" "sint (m :: u64) < 2 ^ 63"
  using sint_ge [of m] sint_lt [of m] by simp_all

lemma uint_nonneg: "0 \<le> sint (m :: u64) \<Longrightarrow> uint m = sint m"
  using sint_bounds(2) [of m] by (simp add: uint_of_sint)

lemma uint_neg: "sint (m :: u64) < 0 \<Longrightarrow> uint m = sint m + 2 ^ 64"
proof -
  assume "sint m < 0"
  have "sint m mod 2 ^ 64 = (sint m + 2 ^ 64) mod 2 ^ 64"
    by simp
  also have "\<dots> = sint m + 2 ^ 64"
    using \<open>sint m < 0\<close> sint_bounds(1) [of m] by (intro mod_pos_pos_trivial) simp_all
  finally show ?thesis by (simp add: uint_of_sint)
qed

lemma sint_small: "uint (m :: u64) < 2 ^ 63 \<Longrightarrow> sint m = uint m"
  using uint_neg [of m] uint_nonneg [of m] sint_bounds(1) [of m] by (cases "sint m < 0") simp_all

lemma set_int_64: "int_width k = 64 \<Longrightarrow> set_int k m = m"
proof -
  have "signed_take_bit 63 m = m"
  proof (rule bit_word_eqI)
    fix n
    assume "n < LENGTH(64)"
    then show "bit (signed_take_bit 63 m) n = bit m n"
      by (cases "n = 63") (auto simp: bit_simps min_def)
  qed
  moreover have "take_bit 64 m = m"
    by (rule bit_word_eqI) (simp add: bit_simps)
  moreover assume "int_width k = 64"
  ultimately show ?thesis
    by (cases k) (simp_all add: set_int_def)
qed

text \<open>An integer that keeps its value when the encoder stores it in four bytes.\<close>

definition int_exact :: "ikind \<Rightarrow> u64 \<Rightarrow> bool" where
  "int_exact k m \<longleftrightarrow> (k \<in> {KInt, KInt64} \<longrightarrow> 0 \<le> sint m \<or> sint m < - (2 ^ 31))"

lemma narrow_exact:
  assumes "int_exact k m" "set_int k m = m" "\<not> wide k m"
  shows "narrow k m = m"
proof (cases "int_width k \<le> 32")
  case True
  then show ?thesis
    using assms(2) by (simp add: narrow_def ucast_ucast_u32 set_int_take_bit)
next
  case False
  then have w: "int_width k = 64" and k: "k \<in> {KInt, KInt64, KUint, KUint64}"
    by (cases k; simp)+
  have "uint m < 2 ^ 32"
  proof (cases "k \<in> {KInt, KInt64}")
    case True
    then have "0 \<le> sint m \<and> sint m \<le> 0x7fffffff"
      using assms by (auto simp: wide_def extractInt_def int_exact_def split: if_splits)
    then show ?thesis
      using uint_nonneg [of m] by simp
  next
    case False
    then have "m \<le> MaxInt32"
      using assms(3) k by (auto simp: wide_def extractInt_def split: if_splits)
    then show ?thesis
      by (simp add: MaxInt32_def word_le_def)
  qed
  then have "take_bit 32 m = m"
    by (intro word_uint_eqI) (simp add: uint_take_32)
  then show ?thesis
    using w by (simp add: narrow_def ucast_ucast_u32 set_int_64)
qed

lemma int_image_exact:
  "int_exact k m \<Longrightarrow> set_int k m = m \<Longrightarrow> int_image k m = m"
  by (simp add: int_image_def narrow_exact)

lemma int_image_negative:
  assumes k: "k \<in> {KInt, KInt64}" and m: "- (2 ^ 31) \<le> sint m" "sint m < 0"
  shows "sint (int_image k m) = sint m + 2 ^ 32"
proof -
  note u = uint_neg [OF m(2)]
  have "\<not> m \<le> MaxEmbeddedInt"
    using u m by (simp add: MaxEmbeddedInt_def word_le_def)
  moreover have "\<not> wide k m"
    using k m by (auto simp: wide_def extractInt_def)
  ultimately have im: "int_image k m = take_bit 32 m"
    using k by (auto simp: int_image_def narrow_def ucast_ucast_u32 set_int_64)
  have "uint m mod 2 ^ 32 = (sint m + 2 ^ 32) mod 2 ^ 32"
    unfolding u by (simp add: mod_add_eq [symmetric])
  also have "\<dots> = sint m + 2 ^ 32"
    using m by (intro mod_pos_pos_trivial) simp_all
  finally have "uint (int_image k m) = sint m + 2 ^ 32"
    by (simp add: im uint_take_32)
  then show ?thesis
    using sint_small [of "int_image k m"] m by simp
qed

function wire_exact :: "tenv \<Rightarrow> rtype \<Rightarrow> gval \<Rightarrow> bool" where
  "wire_exact env ty (GBool b) = True"
| "wire_exact env ty (GInt k m) = int_exact k m"
| "wire_exact env ty (GString s) = True"
| "wire_exact env ty (GPtr p) =
     (case (ty, p) of
        (TPtr (TStruct t), Some vs) \<Rightarrow>
          list_all (\<lambda>(f, v). if declared_tag f < 0 then v = zero_val (fType f)
            else wire_exact env (fType f) v) (zip (struct_fields env t) vs)
      | _ \<Rightarrow> True)"
| "wire_exact env ty (GBools p) = True"
| "wire_exact env ty (GInts k p) = (case p of None \<Rightarrow> True | Some ms \<Rightarrow> list_all (int_exact k) ms)"
| "wire_exact env ty (GStrings p) = True"
| "wire_exact env ty (GPtrs ps) =
     (case (ty, ps) of
        (TSlice (TPtr (TStruct t)), Some ps) \<Rightarrow>
          list_all (\<lambda>p. case p of None \<Rightarrow> False
            | Some vs \<Rightarrow> list_all (\<lambda>(f, v). if declared_tag f < 0 then v = zero_val (fType f)
                else wire_exact env (fType f) v) (zip (struct_fields env t) vs)) ps
      | _ \<Rightarrow> True)"
| "wire_exact env ty GOther = True"
  by pat_completeness auto

termination
  by (relation "measure (\<lambda>(env, ty, v). size v)")
    (auto dest: elem_size elems_size dest!: set_zip_rightD)

definition exact_struct :: "tenv \<Rightarrow> string \<Rightarrow> gval list \<Rightarrow> bool" where
  "exact_struct env t vs \<longleftrightarrow>
     list_all (\<lambda>(f, v). if declared_tag f < 0 then v = zero_val (fType f)
       else wire_exact env (fType f) v) (zip (struct_fields env t) vs)"


lemma ints_image_exact:
  "list_all (int_exact k) ms \<Longrightarrow> list_all (\<lambda>m. set_int k m = m) ms \<Longrightarrow> ints_image k ms = ms"
  by (auto simp: ints_image_def list_all_iff narrow_exact intro!: map_idI)

lemma image_struct_exact:
  assumes "typed_struct env t vs" "exact_struct env t vs"
    and IH: "\<And>(f :: StructField) v. v \<in> set vs \<Longrightarrow> typed env (fType f) v \<Longrightarrow> wire_exact env (fType f) v \<Longrightarrow>
      wire_image env (fType f) v = v"
  shows "image_struct env t vs = vs"
proof (rule nth_equalityI)
  have len: "length vs = length (struct_fields env t)"
    using assms(1) by (simp add: typed_struct_def list_all2_lengthD)
  then show "length (image_struct env t vs) = length vs"
    by (simp add: length_image_struct)
  fix i
  assume "i < length (image_struct env t vs)"
  then have i: "i < length vs" "i < length (struct_fields env t)"
    using len by (simp_all add: length_image_struct)
  have "typed env (fType (struct_fields env t ! i)) (vs ! i)"
    using assms(1) i by (simp add: typed_struct_def list_all2_conv_all_nth)
  moreover have "if declared_tag (struct_fields env t ! i) < 0 then vs ! i = zero_val (fType (struct_fields env t ! i))
      else wire_exact env (fType (struct_fields env t ! i)) (vs ! i)"
    using assms(2) i by (simp add: exact_struct_def list_all_length)
  ultimately show "image_struct env t vs ! i = vs ! i"
    using i IH [of "vs ! i" "struct_fields env t ! i"]
    by (simp add: nth_image_struct len field_image_def Let_def split: if_splits)
qed

lemma wire_image_exact:
  "typed env ty v \<Longrightarrow> wire_exact env ty v \<Longrightarrow> wire_image env ty v = v"
proof (induction "size v" arbitrary: ty v rule: less_induct)
  case less
  show ?case
  proof (cases v)
    case (GPtr p)
    with less.prems obtain t where t: "ty = TPtr (TStruct t)"
      by (auto split: rtype.splits)
    have "image_struct env t vs = vs" if "p = Some vs" for vs
      using less.prems GPtr t that
      by (intro image_struct_exact less.hyps)
        (auto simp: typed_struct_def exact_struct_def dest: elem_size)
    then show ?thesis
      using GPtr t by (cases p) (simp_all add: image_struct_def)
  next
    case (GPtrs ps)
    with less.prems obtain t where t: "ty = TSlice (TPtr (TStruct t))"
      by (auto split: rtype.splits)
    have "Some (element_image env t p) = p" if ps: "ps = Some qs" and p: "p \<in> set qs" for qs p
    proof -
      obtain vs where vs: "p = Some vs" "exact_struct env t vs" "typed_struct env t vs"
        using less.prems GPtrs t ps p
        by (cases p) (fastforce simp: list_all_iff exact_struct_def typed_struct_def)+
      have "image_struct env t vs = vs"
        using vs ps p GPtrs
        by (intro image_struct_exact less.hyps) (auto dest: elems_size)
      with vs(1) show ?thesis by (simp add: element_image_def)
    qed
    then show ?thesis
      unfolding t GPtrs
      by (cases ps) (simp, simp add: wire_image_ptrs map_idI del: wire_image.simps)
  qed (use less.prems in \<open>auto simp: int_image_exact ints_image_exact split: option.splits\<close>)
qed


section \<open>Properties\<close>

lemma GetSprotoType_again:
  "GetSprotoType env (TStruct t) r = Some (Ok a, r') \<Longrightarrow> registry_ok env {} r \<Longrightarrow>
     registry_ok env {} r' \<and> stMap r' t = Some a \<and> GetSprotoType env (TStruct t) r' = Some (Ok a, r')"
  using locked.get_ok [of env "{}" r "Suc (length env)" t a r'] unfolding GetSprotoType_def by auto

lemma codec_round_trip:
  assumes "registry_ok env {} r" "GetSprotoType env (TStruct t) r = Some (Ok a, r')"
    and "small_tags env" "typed_struct env t vs"
  obtains d where "Encode env (Iface (TPtr (TStruct t)) (Some vs)) r = Some (Ok d, r')"
    "\<And>rest ws. length d < 2 ^ 32 \<Longrightarrow>
       Decode env (d @ rest) (Iface (TPtr (TStruct t)) (Some ws)) r' =
         Some (Ok (length d, image_struct env t vs), r')"
proof -
  have again: "registry_ok env {} r'" "stMap r' t = Some a" "GetSprotoType env (TStruct t) r' = Some (Ok a, r')"
    using GetSprotoType_again assms(1,2) by blast+
  obtain d where "encodeMessage (heap r') (Some a) (Some vs) = Ok d"
    "length d < 2 ^ 32 \<Longrightarrow>
       \<forall>rest. decodeMessage env (heap r') (d @ rest) (Some a) t (zero_struct env t) =
         Ok (length d, image_struct env t vs)"
    using struct_round_trip [OF again(1) assms(3) again(2) assms(4)] unfolding message_codec_def by blast
  with that show ?thesis
    using assms(2) again(3) by (simp add: Encode_def Decode_def with_type_def getbase_def)
qed

text \<open>
  C2: The round trip of gosproto. Encoding a value of a registered struct type, whose tag numbers
  are below 32768, succeeds without a panic, and decoding the bytes (when there are less than
  2 to the 32 of them) uses all of them and yields the wire image of the value, whatever the
  destination held before.
\<close>

theorem Decode_Encode:
  assumes "registry_ok env {} r" "GetSprotoType env (TStruct t) r = Some (Ok a, r')"
    and "small_tags env" "typed_struct env t vs"
  shows "\<exists>d. Encode env (Iface (TPtr (TStruct t)) (Some vs)) r = Some (Ok d, r') \<and>
    (length d < 2 ^ 32 \<longrightarrow>
       (\<forall>ws. Decode env d (Iface (TPtr (TStruct t)) (Some ws)) r' =
          Some (Ok (length d, image_struct env t vs), r')))"
  by (rule codec_round_trip [OF assms]) (metis append_Nil2)

text \<open>
  C3: A value whose integers keep their value in four bytes, whose uncoded fields are zero and
  whose struct slices have no nil element survives the packed round trip unchanged:
  \<^verbatim>\<open>DecodePacked\<close> after \<^verbatim>\<open>EncodePacked\<close> is the identity.
\<close>

theorem DecodePacked_EncodePacked:
  assumes "registry_ok env {} r" "GetSprotoType env (TStruct t) r = Some (Ok a, r')"
    and "small_tags env" "typed_struct env t vs" "exact_struct env t vs"
    and "Encode env (Iface (TPtr (TStruct t)) (Some vs)) r = Some (Ok d, r')" "length d < 2 ^ 32"
  shows "\<exists>w. EncodePacked env (Iface (TPtr (TStruct t)) (Some vs)) r = Some (Ok w, r') \<and>
    DecodePacked env w (Iface (TPtr (TStruct t)) (Some ws)) r' = Some (Ok vs, r')"
proof -
  obtain w where w: "Pack d = Ok w" "Unpack w = Ok (d @ pad_of d)"
    using Pack_packed_as [of d] Unpack_packed_as by blast
  have "Decode env (d @ pad_of d) (Iface (TPtr (TStruct t)) (Some ws)) r' =
      Some (Ok (length d, image_struct env t vs), r')"
    using assms(6,7) by (rule_tac codec_round_trip [OF assms(1-4)]) auto
  moreover have "image_struct env t vs = vs"
    using image_struct_exact [OF assms(4,5)] wire_image_exact by blast
  ultimately show ?thesis
    using assms(6) w by (simp add: EncodePacked_def DecodePacked_def)
qed

text \<open>
  A value of kind \<^verbatim>\<open>int\<close> or \<^verbatim>\<open>int64\<close> between -2147483648 and -1 does not survive: the
  encoder stores four bytes, the decoder reads them as an unsigned number, and the value comes
  back larger by 4294967296. Every other integer of its kind's range comes back as it is.
\<close>

theorem decodeInt_encodeInt:
  assumes "set_int k m = m" "encodeInt k m = Ok (Some d)"
  shows "\<exists>m'. decodeInt None d sf k = Ok (GInt k m') \<and>
    sint m' = (if k \<in> {KInt, KInt64} \<and> - (2 ^ 31) \<le> sint m \<and> sint m < 0
               then sint m + 2 ^ 32 else sint m)"
proof -
  have m: "\<not> m \<le> MaxEmbeddedInt" and d: "d = int_bytes (if wide k m then 8 else 4) m"
    using assms(2) by (auto simp: encodeInt_eq split: if_splits)
  have "decodeInt None d sf k = Ok (GInt k (int_image k m))"
    using assms(1) m unfolding d
    by (auto simp: decodeInt_def int_image_def int_bytes_def narrow_def)
  moreover have "sint (int_image k m) = (if k \<in> {KInt, KInt64} \<and> - (2 ^ 31) \<le> sint m \<and> sint m < 0
      then sint m + 2 ^ 32 else sint m)"
    using int_image_negative [of k m] int_image_exact [of k m] assms(1)
    by (auto simp: int_exact_def not_le not_less)
  ultimately show ?thesis by blast
qed

section \<open>Concrete messages\<close>

definition player_env :: tenv where
  "player_env =
     [(''Player'', [\<lparr>fName = ''Id'', fType = TInt KInt32, fTag = ''integer,0''\<rparr>,
        \<lparr>fName = ''Name'', fType = TString, fTag = ''string,1''\<rparr>,
        \<lparr>fName = ''Alive'', fType = TBool, fTag = ''boolean,2''\<rparr>,
        \<lparr>fName = ''Gold'', fType = TSlice (TInt KInt64), fTag = ''integer,5,array''\<rparr>,
        \<lparr>fName = ''Friends'', fType = TSlice (TPtr (TStruct ''Player'')), fTag = ''struct,9,array''\<rparr>])]"

definition player :: "gval list" where
  "player = [GInt KInt32 70000, GString [72, 105], GBool True, GInts KInt64 (Some [1, 5000000000]),
     GPtrs (Some [])]"

definition player_ref :: iface where
  "player_ref = Iface (TPtr (TStruct ''Player'')) (Some player)"

definition player_items :: "item list" where
  "player_items = [(0, 0, Some [112, 17, 1, 0]), (1, 0, Some [72, 105]), (2, 4, None),
     (5, 0, Some [8, 1, 0, 0, 0, 0, 0, 0, 0, 0, 242, 5, 42, 1, 0, 0, 0]), (9, 0, Some [])]"

definition player_bytes :: bytes where
  "player_bytes = [7, 0, 0, 0, 0, 0, 4, 0, 3, 0, 0, 0, 5, 0, 0, 0,
     4, 0, 0, 0, 112, 17, 1, 0, 2, 0, 0, 0, 72, 105,
     17, 0, 0, 0, 8, 1, 0, 0, 0, 0, 0, 0, 0, 0, 242, 5, 42, 1, 0, 0, 0,
     0, 0, 0, 0]"

lemma player_message: "message_bytes player_items = player_bytes"
  by code_simp

text \<open>
  The items are evaluated and \<open>encodeMessage_items\<close> puts them together; the buffer of 4096
  bytes that \<open>encodeMessage\<close> starts with need not be evaluated.
\<close>

lemma player_lookup:
  obtains a r where "GetSprotoType player_env (TStruct ''Player'') empty_registry = Some (Ok a, r)"
    "Encode player_env player_ref empty_registry = Some (Ok player_bytes, r)"
proof -
  have "map_option (\<lambda>(x, r). is_ok x) (GetSprotoType player_env (TStruct ''Player'') empty_registry) = Some True"
    by code_simp
  then obtain a r where call: "GetSprotoType player_env (TStruct ''Player'') empty_registry = Some (Ok a, r)"
    by (auto simp: is_ok_iff)
  have "map_option (\<lambda>(x, r). bind_go x (\<lambda>a. encItems (heap r) (heap r ! a) player (stOrder (heap r ! a))))
      (GetSprotoType player_env (TStruct ''Player'') empty_registry) = Some (Ok player_items)"
    by code_simp
  then have items: "encItems (heap r) (heap r ! a) player (stOrder (heap r ! a)) = Ok player_items"
    by (simp add: call)
  have reg: "registry_ok player_env {} r" "stMap r ''Player'' = Some a"
    using GetSprotoType_again [OF call registry_ok_empty] by simp_all
  then have "a < length (heap r)" "length (stOrder (heap r ! a)) \<le> length (stFields (heap r ! a))"
    by (auto simp: registry_ok_def describes_def described_def)
  then have "encodeMessage (heap r) (Some a) (Some player) = Ok player_bytes"
    using encodeMessage_items [OF _ _ items, of "Some a"] by (simp add: deref_def player_message)
  then have "Encode player_env player_ref empty_registry = Some (Ok player_bytes, r)"
    by (simp add: Encode_def with_type_def player_ref_def getbase_def call)
  with call that show ?thesis by blast
qed

lemma player_typed:
  "small_tags player_env" "typed_struct player_env ''Player'' player" "exact_struct player_env ''Player'' player"
  by code_simp+

theorem Decode_Encode_witness:
  "\<exists>r. Encode player_env player_ref empty_registry = Some (Ok player_bytes, r) \<and>
     Decode player_env player_bytes player_ref r =
       Some (Ok (length player_bytes, image_struct player_env ''Player'' player), r)"
proof -
  obtain a r where r: "GetSprotoType player_env (TStruct ''Player'') empty_registry = Some (Ok a, r)"
    "Encode player_env player_ref empty_registry = Some (Ok player_bytes, r)"
    by (rule player_lookup)
  have "length player_bytes < 2 ^ 32"
    by (simp add: player_bytes_def)
  with r Decode_Encode [OF registry_ok_empty r(1) player_typed(1,2)] show ?thesis
    unfolding player_ref_def by auto
qed

theorem DecodePacked_EncodePacked_witness:
  "\<exists>r w. EncodePacked player_env player_ref empty_registry = Some (Ok w, r) \<and>
     DecodePacked player_env w player_ref r = Some (Ok player, r)"
proof -
  obtain a r where r: "GetSprotoType player_env (TStruct ''Player'') empty_registry = Some (Ok a, r)"
    "Encode player_env player_ref empty_registry = Some (Ok player_bytes, r)"
    by (rule player_lookup)
  have "length player_bytes < 2 ^ 32"
    by (simp add: player_bytes_def)
  with r DecodePacked_EncodePacked [OF registry_ok_empty r(1) player_typed] show ?thesis
    unfolding player_ref_def by blast
qed

theorem decodeInt_encodeInt_witness:
  "\<exists>m'. decodeInt None [251, 255, 255, 255] new_SprotoField KInt64 = Ok (GInt KInt64 m') \<and>
     sint m' = 4294967291"
proof -
  have "set_int KInt64 (-5) = -5" "encodeInt KInt64 (-5) = Ok (Some [251, 255, 255, 255])"
    by code_simp+
  from decodeInt_encodeInt [OF this, of new_SprotoField] show ?thesis
    by simp
qed

end
