(* ===== verification/Sproto_Robust.thy ===== *)
theory Sproto_Robust
  imports Sproto_Codec
begin

text \<open>
  The decoder of gosproto on bytes that no encoder wrote: which types are decoded without a
  panic whatever the input is, and the inputs that make the two unguarded decoders panic.
\<close>

section \<open>Arbitrary input\<close>























text \<open>
  The inputs behind the exclusion: a boolean whose header word says that its data follows, an
  integer slice of width zero, and one of a width that is neither four nor eight.
\<close>

lemma decode_panics:
  "decodeBool None = Panic NilDereference"
  "decodeIntSlice [0, 1, 2] sf KInt32 = Panic DivideByZero"
  "decodeIntSlice [3, 1, 2, 3] sf KInt32 = Panic IndexOutOfRange"
  by (simp_all add: decodeBool_def decodeIntSlice_def go_from_def go_slice_def readUint64_def go_nth_def
      decodeInts_loop.simps(2) [of _ _ _ 0, folded One_nat_def])

text \<open>
  The largest skip word wraps: 32768 absent fields are skipped as none, so a message whose first
  tag is 32768 is decoded as if the tag were 0.
\<close>

lemma skip_word_wraps:
  "skipTag (-1) 32768 = 0xffff" "scan_words 0 [0xffff, 4] = [\<lparr>Tag_Tag = 0, Tag_Val = Some 1\<rparr>]"
  by code_simp+

end
