(* ===== verification/Cellnet_Event.thy ===== *)
theory Cellnet_Event
  imports Sproto_Robust
begin

text \<open>
  The ground of cellnet: events, handlers and chains as data, the process-wide tables of codecs
  and message types (\<^verbatim>\<open>codec.go\<close>, \<^verbatim>\<open>msgmeta.go\<close>), and the operations of an event
  (\<^verbatim>\<open>event.go\<close>, \<^verbatim>\<open>handler_encode.go\<close>, \<^verbatim>\<open>handler_decode.go\<close>). Events are referred to by
  pointers in the code and shared between a chain and the closures it posts, so they live in a
  heap and an operation takes the address. A message object is the name of its Go type, whether
  the interface holds a pointer, and the fields. The state \<open>net\<close> holds what the package keeps in
  variables and what the sessions and peers keep. A run ends in a state or in a panic.
\<close>

section \<open>Messages, codecs and message types\<close>

datatype net_error = ErrMessageNotFound | ErrCodecNotFound | ErrCodec | ErrTimeout
  | ErrInvalidPeerSession | ErrReplayMessageNotFound

type_synonym 'a run = "(net_error, 'a) go"

record message =
  mType :: string
  mPtr :: bool
  mBody :: "gval list"

text \<open>
  The interface \<^verbatim>\<open>Codec\<close>. \<open>cDecode\<close> gets the bytes and the object to fill and yields the
  object afterwards.
\<close>

record Codec =
  cName :: string
  cEncode :: "message \<Rightarrow> bytes run"
  cDecode :: "bytes \<Rightarrow> message \<Rightarrow> message run"

record msgtype =
  tName :: string
  tZero :: "gval list"

record MessageMeta =
  meta_Type :: msgtype
  meta_Name :: string
  meta_ID :: u32
  meta_Codec :: "Codec option"

section \<open>Handlers, chains and events\<close>

datatype EventType =
    Event_None | Event_Connected | Event_ConnectFailed | Event_Accepted | Event_AcceptFailed
  | Event_Closed | Event_Recv | Event_Send

datatype Result =
    Result_OK | Result_SocketError | Result_SocketTimeout | Result_PackageCrack
  | Result_CodecError | Result_RequestClose | Result_NextChain

text \<open>The dynamic value of an \<^verbatim>\<open>interface{}\<close> tag.\<close>

datatype any = AnyInt64 int | AnyString string

text \<open>
  The handler types. A callback is the index of a user function; readers and writers with a
  state refer to their cell in the state.
\<close>

datatype EventHandler =
    CallbackHandler nat
  | MatchMsgIDHandler u32
  | DecodePacketHandler
  | EncodePacketHandler
  | MsgLogHandler
  | QueuePostHandler "nat option" "EventHandler list"
  | FixedLengthFrameReader nat
  | FixedLengthFrameWriter
  | PrivatePacketReader nat
  | PrivatePacketWriter nat
  | BoxHandler
  | UnboxHandler HandlerChain
  | RetChanHandler nat
  | RemoveRecvHandler nat int
and HandlerChain = HandlerChain (chain_id: int) (chain_list: "EventHandler list")

record Event =
  evUID :: int
  evType :: EventType
  evMsgID :: u32
  evMsg :: "message option"
  evData :: "bytes option"
  evTag :: "any option"
  evTransmitTag :: "any option"
  evSes :: "nat option"
  evChainSend :: "HandlerChain option"
  evR :: Result
  evChainid :: int

section \<open>The state\<close>

text \<open>
  A connection: the bytes that the other side has sent and that are not read yet (reading past
  them is the end of the stream), the bytes written, and whether it is closed.
\<close>

record conn =
  cIn :: bytes
  cOut :: bytes
  cClosed :: bool

text \<open>
  What a function that makes a read or write chain passes to \<^verbatim>\<open>NewHandlerChain\<close>: handlers
  with a state of their own are allocated anew by each call.
\<close>

datatype handler_maker =
    MakeFrameReader nat
  | MakeFrameWriter
  | MakePacketReader
  | MakePacketWriter
  | MakeHandler EventHandler

record chain_mgr =
  recvChainByID :: "(int \<times> HandlerChain) list"
  chainIDAcc :: int
  recvChainListDirty :: bool
  recvChainList :: "HandlerChain list"
  sendChain :: "HandlerChain option"
  readChainCreator :: "handler_maker list option"
  writeChainCreator :: "handler_maker list option"

record ses_mgr =
  sesMap :: "(64 word \<times> nat) list"
  sesIDAcc :: "64 word"

record socket_options =
  maxPacketSize :: int
  connReadBuffer :: int
  connWriteBuffer :: int
  connNoDelay :: bool
  connReadTimeout :: int
  connWriteTimeout :: int

record peer =
  pName :: string
  pAddress :: string
  pTag :: "any option"
  pRunning :: bool
  pQueue :: "nat option"
  pChains :: chain_mgr
  pSessions :: ses_mgr
  pOptions :: socket_options

record session =
  sID :: "64 word"
  sPeer :: nat
  sNeedNotifyWrite :: bool
  sSendList :: "nat option list"
  sConn :: conn
  sTag :: "any option"
  sReadChain :: HandlerChain
  sWriteChain :: HandlerChain

text \<open>
  The unbuffered channel on which a synchronous call waits for its reply: whether the caller
  still waits, and what was sent.
\<close>

record ret_chan =
  rcWaiting :: bool
  rcValues :: "message option list"

record net =
  codecByName :: "string \<Rightarrow> Codec option"
  metaByName :: "string \<Rightarrow> MessageMeta option"
  metaByID :: "u32 \<Rightarrow> MessageMeta option"
  metaByType :: "string \<Rightarrow> MessageMeta option"
  blockedByID :: "u32 \<Rightarrow> MessageMeta option"
  enableHandlerLog :: bool
  debugEnabled :: bool
  evuid :: int
  chainidgen :: int
  events :: "Event list"
  sers :: "u16 list"
  frames :: "bytes list"
  queues :: "(EventHandler list \<times> nat) list list"
  rets :: "ret_chan list"
  peers :: "peer list"
  sessions :: "session list"

text \<open>Access through a pointer.\<close>

definition event :: "net \<Rightarrow> nat \<Rightarrow> Event" where
  "event n a = events n ! a"

definition upd_event :: "nat \<Rightarrow> (Event \<Rightarrow> Event) \<Rightarrow> net \<Rightarrow> net" where
  "upd_event a f n = n\<lparr>events := (events n)[a := f (events n ! a)]\<rparr>"

definition SetResult :: "Result \<Rightarrow> nat \<Rightarrow> net \<Rightarrow> net" where
  "SetResult r a = upd_event a (\<lambda>ev. ev\<lparr>evR := r\<rparr>)"

definition Result_of :: "net \<Rightarrow> nat \<Rightarrow> Result" where
  "Result_of n a = evR (event n a)"

section \<open>Codecs and message types\<close>

definition RegisterCodec :: "string \<Rightarrow> Codec \<Rightarrow> net \<Rightarrow> net run" where
  "RegisterCodec name c n =
     (if codecByName n name \<noteq> None then Panic (Explicit ''duplicate codec'')
      else Ok (n\<lparr>codecByName := (codecByName n)(name := Some c)\<rparr>))"

definition FetchCodec :: "net \<Rightarrow> string \<Rightarrow> Codec option" where
  "FetchCodec n name = codecByName n name"

definition RegisterMessageMeta ::
  "string \<Rightarrow> string \<Rightarrow> msgtype \<Rightarrow> u32 \<Rightarrow> net \<Rightarrow> net run" where
  "RegisterMessageMeta codecName name t i n =
     (let meta = \<lparr>meta_Type = t, meta_Name = name, meta_ID = i, meta_Codec = FetchCodec n codecName\<rparr>
      in if meta_Codec meta = None then Panic (Explicit ''codec not register'')
         else if metaByName n name \<noteq> None then Panic (Explicit ''duplicate name'')
         else if metaByID n (meta_ID meta) \<noteq> None then Panic (Explicit ''duplicate id'')
         else if metaByType n (tName t) \<noteq> None then Panic (Explicit ''duplicate type'')
         else Ok (n\<lparr>metaByName := (metaByName n)(name := Some meta),
                    metaByID := (metaByID n)(meta_ID meta := Some meta),
                    metaByType := (metaByType n)(tName t := Some meta)\<rparr>))"

definition MessageMetaByName :: "net \<Rightarrow> string \<Rightarrow> MessageMeta option" where
  "MessageMetaByName n name = metaByName n name"

text \<open>A pointer type stands for its element type; the key of a message is its element type.\<close>

definition MessageMetaByType :: "net \<Rightarrow> message \<Rightarrow> MessageMeta option" where
  "MessageMetaByType n m = metaByType n (mType m)"

definition MessageMetaByID :: "net \<Rightarrow> u32 \<Rightarrow> MessageMeta option" where
  "MessageMetaByID n i = metaByID n i"

definition MessageNameByID :: "net \<Rightarrow> u32 \<Rightarrow> string" where
  "MessageNameByID n i = (case MessageMetaByID n i of Some meta \<Rightarrow> meta_Name meta | None \<Rightarrow> [])"

section \<open>Encoding and decoding messages\<close>

text \<open>\<^verbatim>\<open>(data, msgid, err)\<close>; \<^verbatim>\<open>reflect.TypeOf(nil).Kind()\<close> is a nil dereference.\<close>

definition EncodeMessage :: "net \<Rightarrow> message option \<Rightarrow> (bytes option \<times> u32 \<times> net_error option) run" where
  "EncodeMessage n msg =
     (case msg of
        None \<Rightarrow> Panic NilDereference
      | Some m \<Rightarrow>
          (case MessageMetaByType n m of
             None \<Rightarrow> Ok (None, 0, Some ErrMessageNotFound)
           | Some meta \<Rightarrow>
               (case meta_Codec meta of
                  None \<Rightarrow> Ok (None, 0, Some ErrCodecNotFound)
                | Some c \<Rightarrow>
                    (case cEncode c m of
                       Ok d \<Rightarrow> Ok (Some d, meta_ID meta, None)
                     | Err e \<Rightarrow> Ok (None, meta_ID meta, Some e)
                     | Panic p \<Rightarrow> Panic p))))"

definition DecodeMessage :: "net \<Rightarrow> u32 \<Rightarrow> bytes option \<Rightarrow> (message option \<times> net_error option) run" where
  "DecodeMessage n msgid data =
     (case MessageMetaByID n msgid of
        None \<Rightarrow> Ok (None, Some ErrMessageNotFound)
      | Some meta \<Rightarrow>
          (case meta_Codec meta of
             None \<Rightarrow> Ok (None, Some ErrCodecNotFound)
           | Some c \<Rightarrow>
               (let msg = \<lparr>mType = tName (meta_Type meta), mPtr = True, mBody = tZero (meta_Type meta)\<rparr>
                in case cDecode c (case data of Some d \<Rightarrow> d | None \<Rightarrow> []) msg of
                     Ok m \<Rightarrow> Ok (Some m, None)
                   | Err e \<Rightarrow> Ok (None, Some e)
                   | Panic p \<Rightarrow> Panic p)))"

definition errToResult :: "net_error option \<Rightarrow> Result" where
  "errToResult err = (if err = None then Result_OK else Result_CodecError)"

section \<open>Operations of an event\<close>

definition new_Event :: "EventType \<Rightarrow> nat option \<Rightarrow> Event" where
  "new_Event t s = \<lparr>evUID = 0, evType = t, evMsgID = 0, evMsg = None, evData = None, evTag = None,
     evTransmitTag = None, evSes = s, evChainSend = None, evR = Result_OK, evChainid = 0\<rparr>"

definition genSesEvUID :: "net \<Rightarrow> int \<times> net" where
  "genSesEvUID n = (evuid n + 1, n\<lparr>evuid := evuid n + 1\<rparr>)"

definition NewEvent :: "EventType \<Rightarrow> nat option \<Rightarrow> net \<Rightarrow> nat \<times> net" where
  "NewEvent t s n =
     (let (u, n) = (if enableHandlerLog n then genSesEvUID n else (0, n))
      in (length (events n), n\<lparr>events := events n @ [(new_Event t s)\<lparr>evUID := u\<rparr>]\<rparr>))"

definition clone_of :: "Event \<Rightarrow> Event" where
  "clone_of ev =
     (new_Event (evType ev) (evSes ev))\<lparr>evUID := evUID ev, evMsgID := evMsgID ev, evMsg := evMsg ev,
        evTag := evTag ev, evTransmitTag := evTransmitTag ev, evChainSend := evChainSend ev,
        evData := Some (case evData ev of None \<Rightarrow> [] | Some d \<Rightarrow> go_copy (replicate (length d) 0) d)\<rparr>"

definition Clone :: "nat \<Rightarrow> net \<Rightarrow> nat \<times> net" where
  "Clone a n = (length (events n), n\<lparr>events := events n @ [clone_of (event n a)]\<rparr>)"

definition MsgSize :: "Event \<Rightarrow> nat" where
  "MsgSize ev = (case evData ev of None \<Rightarrow> 0 | Some d \<Rightarrow> length d)"

definition SessionID :: "net \<Rightarrow> Event \<Rightarrow> 64 word" where
  "SessionID n ev = (case evSes ev of None \<Rightarrow> 0 | Some s \<Rightarrow> sID (sessions n ! s))"

definition PeerName :: "net \<Rightarrow> Event \<Rightarrow> string" where
  "PeerName n ev =
     (case evSes ev of
        None \<Rightarrow> []
      | Some s \<Rightarrow>
          (let p = peers n ! sPeer (sessions n ! s)
           in if pName p \<noteq> [] then pName p else pAddress p))"

definition MsgName :: "net \<Rightarrow> Event \<Rightarrow> string" where
  "MsgName n ev = (case MessageMetaByID n (evMsgID ev) of None \<Rightarrow> [] | Some meta \<Rightarrow> meta_Name meta)"

definition FromMessage :: "message \<Rightarrow> nat \<Rightarrow> net \<Rightarrow> net run" where
  "FromMessage m a n =
     bind_go (EncodeMessage n (Some m)) (\<lambda>(d, i, err).
     Ok (upd_event a (\<lambda>ev. ev\<lparr>evData := d, evMsgID := i, evMsg := None\<rparr>) n))"

definition Parse :: "nat \<Rightarrow> net \<Rightarrow> net run" where
  "Parse a n =
     (let ev = event n a
      in if evMsg ev = None \<and> evData ev \<noteq> None \<and> evMsgID ev \<noteq> 0
         then bind_go (DecodeMessage n (evMsgID ev) (evData ev)) (\<lambda>(m, err).
              Ok (upd_event a (\<lambda>ev. ev\<lparr>evMsg := m\<rparr>) n))
         else if evMsgID ev = 0 \<and> evMsg ev \<noteq> None
         then (case MessageMetaByType n (the (evMsg ev)) of
                 None \<Rightarrow> Ok n
               | Some meta \<Rightarrow> Ok (upd_event a (\<lambda>ev. ev\<lparr>evMsgID := meta_ID meta\<rparr>) n))
         else Ok n)"

text \<open>\<^verbatim>\<open>MsgLog\<close>; the line it prints is left out, what it does to the event is not.\<close>

definition MsgLog :: "nat \<Rightarrow> net \<Rightarrow> net run" where
  "MsgLog a n = (if \<not> debugEnabled n then Ok n else Parse a n)"

definition IsBlockedMessageByID :: "net \<Rightarrow> u32 \<Rightarrow> bool" where
  "IsBlockedMessageByID n i \<longleftrightarrow> blockedByID n i \<noteq> None"

definition BlockMessageLog :: "string \<Rightarrow> net \<Rightarrow> (net_error, net) go" where
  "BlockMessageLog name n =
     (case MessageMetaByName n name of
        None \<Rightarrow> Err ErrMessageNotFound
      | Some meta \<Rightarrow> Ok (n\<lparr>blockedByID := (blockedByID n)(meta_ID meta := Some meta)\<rparr>))"

section \<open>The message tables agree\<close>

text \<open>
  Every entry of one table is the entry of the other two: names, numbers and types of the
  registered messages are in bijection, and each has a codec.
\<close>

definition metas_ok :: "net \<Rightarrow> bool" where
  "metas_ok n \<longleftrightarrow>
     (\<forall>k meta. metaByName n k = Some meta \<longleftrightarrow>
        meta_Name meta = k \<and> metaByID n (meta_ID meta) = Some meta) \<and>
     (\<forall>k meta. metaByType n k = Some meta \<longleftrightarrow>
        tName (meta_Type meta) = k \<and> metaByID n (meta_ID meta) = Some meta) \<and>
     (\<forall>i meta. metaByID n i = Some meta \<longrightarrow> meta_ID meta = i \<and> meta_Codec meta \<noteq> None)"

definition empty_net :: net where
  "empty_net = \<lparr>codecByName = (\<lambda>_. None), metaByName = (\<lambda>_. None), metaByID = (\<lambda>_. None),
     metaByType = (\<lambda>_. None), blockedByID = (\<lambda>_. None), enableHandlerLog = False,
     debugEnabled = False, evuid = 0, chainidgen = 500, events = [], sers = [], frames = [],
     queues = [], rets = [], peers = [], sessions = []\<rparr>"

lemma metas_ok_empty: "metas_ok empty_net"
  by (simp add: metas_ok_def empty_net_def)

end
