(* ===== verification/Cellnet_Codec.thy ===== *)
theory Cellnet_Codec
  imports Cellnet_Event
begin

unbundle bit_operations_syntax

text \<open>
  Message numbers and the sproto codec of cellnet: \<^verbatim>\<open>util/strhash.go\<close>, which derives the
  number of a message from its name, \<^verbatim>\<open>codec/sproto/sproto.go\<close>, and the messages of
  \<^verbatim>\<open>proto/msg_sp.go\<close>. The locale \<open>lawful_codec\<close> is what the message layer relies on (decoding
  an encoded object into a fresh one yields it); it is interpreted on the sproto codec, where
  the round trip of gosproto discharges it.
\<close>

section \<open>Message numbers\<close>

definition crcPOLY :: u32 where "crcPOLY = 0x04c11db7"

definition crc_shift :: "u32 \<Rightarrow> u32" where
  "crc_shift c = (if c AND 0x80000000 \<noteq> 0 then push_bit 1 c XOR crcPOLY else push_bit 1 c)"

fun crc_inner :: "nat \<Rightarrow> nat \<Rightarrow> u32 \<Rightarrow> u32 list \<Rightarrow> u32 list" where
  "crc_inner 0 i c table = table"
| "crc_inner (Suc j) i c table =
     (let c = crc_shift c in crc_inner j i c (table[i := c]))"

definition initCRCTable :: "u32 list \<Rightarrow> u32 list" where
  "initCRCTable table =
     foldl (\<lambda>table i. crc_inner 8 i (push_bit 24 (word_of_nat i)) table) table [0..<256]"

definition crcTable :: "u32 list" where
  "crcTable = initCRCTable (replicate 256 0)"

text \<open>\<^verbatim>\<open>range s\<close> yields the runes of the string, given here as their code points.\<close>

fun hash_runes :: "u32 \<Rightarrow> u32 list \<Rightarrow> u32" where
  "hash_runes h [] = h"
| "hash_runes h (b # bs) =
     hash_runes ((drop_bit 8 h AND 0x00FFFFFF) XOR crcTable ! unat ((h XOR b) AND 0x000000FF)) bs"

definition StringHash :: "string \<Rightarrow> u32" where
  "StringHash s = hash_runes 0 (map of_char s)"

text \<open>The entry of the table, without the table.\<close>

definition crc_entry :: "nat \<Rightarrow> u32" where
  "crc_entry i = (crc_shift ^^ 8) (push_bit 24 (word_of_nat i))"

lemma crc_inner_eq:
  "i < length table \<Longrightarrow> crc_inner (Suc j) i c table = table[i := (crc_shift ^^ Suc j) c]"
proof (induction j arbitrary: c table)
  case (Suc j)
  have "crc_inner (Suc (Suc j)) i c table = crc_inner (Suc j) i (crc_shift c) (table[i := crc_shift c])"
    by (simp add: Let_def)
  also have "\<dots> = (table[i := crc_shift c])[i := (crc_shift ^^ Suc j) (crc_shift c)]"
    using Suc.prems by (intro Suc.IH) simp
  also have "\<dots> = table[i := (crc_shift ^^ Suc (Suc j)) c]"
    by (simp add: funpow_swap1)
  finally show ?case .
qed (simp add: Let_def)

lemma initCRCTable_prefix:
  assumes "k \<le> length table"
  shows "foldl (\<lambda>table i. crc_inner 8 i (push_bit 24 (word_of_nat i)) table) table [0..<k] =
    map crc_entry [0..<k] @ drop k table"
  using assms
proof (induction k)
  case (Suc k)
  let ?t = "map crc_entry [0..<k] @ drop k table"
  have "crc_inner 8 k c ?t = ?t[k := (crc_shift ^^ 8) c]" for c
    using crc_inner_eq [of k ?t 7 c] Suc.prems by simp
  moreover have "?t[k := v] = map crc_entry [0..<k] @ v # drop (Suc k) table" for v
    using Suc.prems by (simp add: list_update_append Cons_nth_drop_Suc [symmetric])
  ultimately show ?case
    using Suc by (simp add: crc_entry_def [of k])
qed simp

lemma crcTable_nth: "i < 256 \<Longrightarrow> crcTable ! i = crc_entry i"
  using initCRCTable_prefix [of 256 "replicate 256 0"]
  by (simp add: crcTable_def initCRCTable_def del: upt_rec_numeral)

lemma byte_index: "unat (w AND 0x000000FF :: u32) < 256"
proof -
  have "w AND 0x000000FF = take_bit 8 w"
    by (simp add: take_bit_eq_mask mask_eq_exp_minus_1)
  then show ?thesis
    by (simp add: unsigned_take_bit_eq take_bit_nat_eq_self_iff [symmetric])
      (simp add: take_bit_eq_mod)
qed

lemma hash_runes_step [code]:
  "hash_runes h [] = h"
  "hash_runes h (b # bs) =
     hash_runes ((drop_bit 8 h AND 0x00FFFFFF) XOR
       (crc_shift ^^ 8) (push_bit 24 ((h XOR b) AND 0x000000FF))) bs"
  by (simp_all add: crcTable_nth byte_index crc_entry_def)

section \<open>The sproto codec\<close>

text \<open>
  The codec works with the description registry of gosproto; an entry, once made, stays as it
  is (\<open>GetSprotoType_again\<close>), so the codec is taken over a registry that holds the messages.
\<close>

fun lift_sproto :: "'a sproto \<Rightarrow> 'a run" where
  "lift_sproto (Ok x) = Ok x"
| "lift_sproto (Err e) = Err ErrCodec"
| "lift_sproto (Panic p) = Panic p"

definition result_of :: "('a sproto \<times> registry) option \<Rightarrow> 'a run" where
  "result_of x = (case x of Some (res, r) \<Rightarrow> lift_sproto res | None \<Rightarrow> Panic (Explicit ''unreachable''))"

definition msg_iface :: "message \<Rightarrow> iface" where
  "msg_iface m = Iface (if mPtr m then TPtr (TStruct (mType m)) else TStruct (mType m)) (Some (mBody m))"

definition sproto_Encode :: "tenv \<Rightarrow> registry \<Rightarrow> message \<Rightarrow> bytes run" where
  "sproto_Encode env r m =
     bind_go (result_of (Encode env (msg_iface m) r)) (\<lambda>data. lift_sproto (Pack data))"

definition sproto_Decode :: "tenv \<Rightarrow> registry \<Rightarrow> bytes \<Rightarrow> message \<Rightarrow> message run" where
  "sproto_Decode env r data m =
     (if length data = 0 then Ok m
      else bind_go (lift_sproto (Unpack data)) (\<lambda>raw.
           bind_go (result_of (Decode env raw (msg_iface m) r)) (\<lambda>(n, vs). Ok (m\<lparr>mBody := vs\<rparr>))))"

definition sprotoCodec :: "tenv \<Rightarrow> registry \<Rightarrow> Codec" where
  "sprotoCodec env r = \<lparr>cName = ''sproto'', cEncode = sproto_Encode env r, cDecode = sproto_Decode env r\<rparr>"

text \<open>The package name is the last element of the import path, as \<^verbatim>\<open>path.Base\<close> gives it.\<close>

fun AutoRegisterMessageMeta :: "string \<Rightarrow> msgtype list \<Rightarrow> net \<Rightarrow> net run" where
  "AutoRegisterMessageMeta pkg [] n = Ok n"
| "AutoRegisterMessageMeta pkg (tp # tps) n =
     (let msgName = pkg @ ''.'' @ tName tp
      in bind_go (RegisterMessageMeta ''sproto'' msgName tp (StringHash msgName) n)
           (AutoRegisterMessageMeta pkg tps))"

section \<open>What the message layer relies on\<close>

text \<open>A codec that restores a good message when it decodes into a fresh object of its type.\<close>

locale lawful_codec =
  fixes c :: Codec and good :: "message \<Rightarrow> bool" and fresh :: "message \<Rightarrow> bool"
  assumes encode_decode: "good m \<Longrightarrow>
    \<exists>d. cEncode c m = Ok d \<and> (\<forall>m0. mType m0 = mType m \<and> mPtr m0 \<and> fresh m0 \<longrightarrow> cDecode c d m0 = Ok m)"
begin

lemma message_round_trip:
  assumes "metas_ok n" "good m" "MessageMetaByType n m = Some meta" "meta_Codec meta = Some c"
    and "fresh \<lparr>mType = mType m, mPtr = True, mBody = tZero (meta_Type meta)\<rparr>"
  shows "\<exists>d. EncodeMessage n (Some m) = Ok (Some d, meta_ID meta, None) \<and>
    DecodeMessage n (meta_ID meta) (Some d) = Ok (Some m, None)"
proof -
  obtain d where d: "cEncode c m = Ok d" "\<And>m0. mType m0 = mType m \<Longrightarrow> mPtr m0 \<Longrightarrow> fresh m0 \<Longrightarrow> cDecode c d m0 = Ok m"
    using encode_decode [OF assms(2)] by blast
  have "tName (meta_Type meta) = mType m" "metaByID n (meta_ID meta) = Some meta"
    using assms(1,3) unfolding metas_ok_def MessageMetaByType_def by blast+
  with assms(3-5) d show ?thesis
    by (simp add: EncodeMessage_def DecodeMessage_def MessageMetaByID_def)
qed

end

text \<open>
  The messages that the sproto codec carries without loss: a pointer to a registered struct,
  exact on the wire, with an encoding of less than 2 to the 32 bytes.
\<close>

definition sproto_good :: "tenv \<Rightarrow> registry \<Rightarrow> message \<Rightarrow> bool" where
  "sproto_good env r m \<longleftrightarrow>
     registry_ok env {} r \<and> small_tags env \<and> mPtr m \<and> stMap r (mType m) \<noteq> None \<and>
     typed_struct env (mType m) (mBody m) \<and> exact_struct env (mType m) (mBody m) \<and>
     (\<exists>d. Encode env (msg_iface m) r = Some (Ok d, r) \<and> length d < 2 ^ 32)"

lemma packed_not_Nil: "packed_as w xs \<Longrightarrow> xs \<noteq> [] \<Longrightarrow> w \<noteq> []"
  by (induction rule: packed_as.induct) auto

lemma encodeMessage_not_Nil:
  "encodeMessage h a p = Ok d \<Longrightarrow> d \<noteq> []"
proof
  assume enc: "encodeMessage h a p = Ok d" and "d = []"
  then obtain s :: enc_state and hs hdr where "encodeHeaders hs (len (buffer s)) = Ok hdr"
    "contents (Append hdr (contents (buffer s))) = []"
    by (auto simp: encodeMessage.simps go_elims)
  moreover obtain hdr' where "encodeHeaders hs (len (buffer s)) = Ok hdr'" "contents hdr' = header_block hs" "wf_slice hdr'"
    by (rule encodeHeaders_eq)
  ultimately show False
    by (simp add: Append_contents header_block_def le16_def)
qed

lemma sproto_codec_law:
  assumes "sproto_good env r m"
  shows "\<exists>d. sproto_Encode env r m = Ok d \<and>
    (\<forall>m0. mType m0 = mType m \<and> mPtr m0 \<longrightarrow> sproto_Decode env r d m0 = Ok (m0\<lparr>mBody := mBody m\<rparr>))"
proof -
  let ?t = "mType m"
  from assms obtain a raw where r: "registry_ok env {} r" "small_tags env" "mPtr m" "stMap r ?t = Some a"
    "typed_struct env ?t (mBody m)" "exact_struct env ?t (mBody m)"
    and raw: "Encode env (msg_iface m) r = Some (Ok raw, r)" "length raw < 2 ^ 32"
    unfolding sproto_good_def by auto
  have get: "GetSprotoType env (TStruct ?t) r = Some (Ok a, r)"
    using r(4) by (simp add: GetSprotoType_def)
  obtain w where w: "Pack raw = Ok w" "packed_as w (raw @ pad_of raw)"
    using Pack_packed_as by blast
  then have unpack: "Unpack w = Ok (raw @ pad_of raw)"
    by (simp add: Unpack_packed_as)
  have dec: "Decode env (raw @ pad_of raw) (Iface (TPtr (TStruct ?t)) (Some ws)) r = Some (Ok (length raw, mBody m), r)" for ws
    using codec_round_trip [OF r(1) get r(2,5)] raw r(3)
      image_struct_exact [OF r(5,6)] wire_image_exact
    by (force simp: msg_iface_def)
  have "encodeMessage (heap r) (Some a) (Some (mBody m)) = Ok raw"
    using raw(1) r(3) get by (simp add: Encode_def with_type_def msg_iface_def getbase_def)
  then have "w \<noteq> []"
    using encodeMessage_not_Nil packed_not_Nil [OF w(2)] by auto
  then have "sproto_Decode env r w m0 = Ok (m0\<lparr>mBody := mBody m\<rparr>)" if "mType m0 = ?t" "mPtr m0" for m0
    using that unpack dec by (simp add: sproto_Decode_def result_of_def msg_iface_def)
  then show ?thesis
    using raw w by (auto simp: sproto_Encode_def result_of_def)
qed

interpretation sproto: lawful_codec "sprotoCodec env r" "sproto_good env r" "\<lambda>_. True" for env r
proof
  fix m
  assume good: "sproto_good env r m"
  then have "mPtr m" by (simp add: sproto_good_def)
  then have "m0\<lparr>mBody := mBody m\<rparr> = m" if "mType m0 = mType m" "mPtr m0" for m0
    using that by simp
  with sproto_codec_law [OF good]
  show "\<exists>d. cEncode (sprotoCodec env r) m = Ok d \<and>
      (\<forall>m0. mType m0 = mType m \<and> mPtr m0 \<and> True \<longrightarrow> cDecode (sprotoCodec env r) d m0 = Ok m)"
    by (fastforce simp: sprotoCodec_def)
qed

section \<open>The message tables\<close>

lemma RegisterMessageMeta_ok:
  assumes "metas_ok n" "RegisterMessageMeta codec name t i n = Ok n'"
  shows "metas_ok n'"
proof -
  let ?meta = "\<lparr>meta_Type = t, meta_Name = name, meta_ID = i, meta_Codec = FetchCodec n codec\<rparr>"
  obtain e where e: "e = ?meta" by simp
  then have e_sel [simp]: "meta_Name e = name" "meta_ID e = i" "meta_Type e = t" "meta_Codec e = FetchCodec n codec"
    by simp_all
  from assms(2) have new: "FetchCodec n codec \<noteq> None" "metaByName n name = None" "metaByID n i = None"
    "metaByType n (tName t) = None"
    and n': "n' = n\<lparr>metaByName := (metaByName n)(name := Some e), metaByID := (metaByID n)(i := Some e),
        metaByType := (metaByType n)(tName t := Some e)\<rparr>"
    by (auto simp: RegisterMessageMeta_def Let_def e split: if_splits)
  have old: "metaByName n k = Some meta \<longleftrightarrow> meta_Name meta = k \<and> metaByID n (meta_ID meta) = Some meta"
    "metaByType n k = Some meta \<longleftrightarrow> tName (meta_Type meta) = k \<and> metaByID n (meta_ID meta) = Some meta"
    "metaByID n j = Some meta \<Longrightarrow> meta_ID meta = j \<and> meta_Codec meta \<noteq> None" for k j meta
    using assms(1) unfolding metas_ok_def by blast+
  have "metaByName n' k = Some meta \<longleftrightarrow> meta_Name meta = k \<and> metaByID n' (meta_ID meta) = Some meta" for k meta
    using old(1) [of k meta] old(1) [of name meta] new unfolding n' by (cases "meta = e") auto
  moreover have "metaByType n' k = Some meta \<longleftrightarrow> tName (meta_Type meta) = k \<and> metaByID n' (meta_ID meta) = Some meta" for k meta
    using old(2) [of k meta] old(2) [of "tName t" meta] new unfolding n' by (cases "meta = e") auto
  moreover have "meta_ID meta = j \<and> meta_Codec meta \<noteq> None" if "metaByID n' j = Some meta" for j meta
    using that old(3) [of j meta] new unfolding n' by (cases "meta = e") (auto split: if_splits)
  ultimately show ?thesis
    unfolding metas_ok_def by blast
qed

text \<open>
  \<^verbatim>\<open>RegisterMessageMeta\<close> keeps the three tables of message types in agreement: afterwards
  every name, number and type leads to the same entry, the new message is found under all
  three keys, and a name, number or type that is taken (or a codec that is missing) makes the
  registration panic instead of replacing an entry.
\<close>

theorem RegisterMessageMeta_agree:
  assumes "metas_ok n"
  shows "(\<forall>n'. RegisterMessageMeta codec name t i n = Ok n' \<longrightarrow>
      metas_ok n' \<and>
      (\<exists>meta. MessageMetaByName n' name = Some meta \<and> MessageMetaByID n' i = Some meta \<and>
         MessageMetaByType n' \<lparr>mType = tName t, mPtr = True, mBody = []\<rparr> = Some meta \<and>
         meta_Codec meta = FetchCodec n codec \<and> meta_Codec meta \<noteq> None) \<and>
      (\<forall>k meta. MessageMetaByID n k = Some meta \<longrightarrow> MessageMetaByID n' k = Some meta)) \<and>
    (is_panic (RegisterMessageMeta codec name t i n) \<longleftrightarrow>
       FetchCodec n codec = None \<or> MessageMetaByName n name \<noteq> None \<or> MessageMetaByID n i \<noteq> None \<or>
       MessageMetaByType n \<lparr>mType = tName t, mPtr = True, mBody = []\<rparr> \<noteq> None)"
  using RegisterMessageMeta_ok [OF assms]
  by (auto simp: RegisterMessageMeta_def Let_def MessageMetaByName_def MessageMetaByID_def
      MessageMetaByType_def split: if_splits)

section \<open>The messages of the game\<close>

definition login_env :: tenv where
  "login_env =
     [(''LoginREQ'', [\<lparr>fName = ''PlatformToken'', fType = TString, fTag = ''string,0,name=PlatformToken''\<rparr>]),
      (''LoginACK'', [\<lparr>fName = ''Result'', fType = TInt KInt32, fTag = ''integer,0,name=Result''\<rparr>,
                    \<lparr>fName = ''Token'', fType = TString, fTag = ''string,1,name=Token''\<rparr>]),
      (''PeerConnected'', []), (''PeerDisconnected'', []), (''PeerConnectError'', []),
      (''PeerRecvError'', []), (''PeerSendError'', [])]"

definition SProtoStructs :: "msgtype list" where
  "SProtoStructs = map (\<lambda>(t, fs). \<lparr>tName = t, tZero = zero_struct login_env t\<rparr>) login_env"

definition init_messages :: "registry \<Rightarrow> net run" where
  "init_messages r =
     bind_go (RegisterCodec ''sproto'' (sprotoCodec login_env r) empty_net)
       (AutoRegisterMessageMeta ''proto'' SProtoStructs)"

text \<open>The same computation on integers, for evaluation.\<close>

definition shift_int :: "int \<Rightarrow> int" where
  "shift_int c = (if c < 2147483648 then 2 * c else (2 * c - 4294967296) XOR 79764919)"

lemma top_bit_iff: "c AND 0x80000000 = 0 \<longleftrightarrow> uint (c :: u32) < 2147483648"
proof -
  have "0x80000000 = (push_bit 31 1 :: u32)"
    by simp
  then have "c AND 0x80000000 = 0 \<longleftrightarrow> \<not> bit c 31"
    by (simp add: bit_iff_and_push_bit_not_eq_0)
  also have "\<dots> \<longleftrightarrow> \<not> bit (uint c) 31"
    by (simp add: bit_uint_iff)
  also have "\<dots> \<longleftrightarrow> uint c < 2147483648"
  proof (cases "uint c < 2147483648")
    case True
    then show ?thesis
      by (simp add: bit_iff_odd)
  next
    case False
    have "uint c div 2147483648 = 1"
      using False uint_lt2p [of c] by (intro int_div_pos_eq [of _ _ _ "uint c - 2147483648"]) simp_all
    with False show ?thesis
      by (simp add: bit_iff_odd)
  qed
  finally show ?thesis .
qed

lemma uint_double: "uint (push_bit (Suc 0) c) = (2 * uint c) mod 4294967296" for c :: u32
proof -
  have "push_bit (Suc 0) c = c * 2"
    by (simp add: push_bit_eq_mult)
  then show ?thesis
    by (simp add: uint_word_ariths mult.commute)
qed

lemma uint_times2: "uint (c * 2) = (2 * uint c) mod 4294967296" for c :: u32
  by (simp add: uint_word_ariths mult.commute)

lemma uint_crc_shift: "uint (crc_shift c) = shift_int (uint c)"
proof (cases "uint c < 2147483648")
  case True
  then show ?thesis
    using uint_ge_0 [of c] by (simp add: crc_shift_def top_bit_iff shift_int_def uint_double del: push_bit_Suc)
next
  case False
  have "(2 * uint c) mod 4294967296 = 2 * uint c - 4294967296"
  proof -
    have "(2 * uint c) mod 4294967296 = (2 * uint c - 4294967296) mod 4294967296"
      by simp
    also have "\<dots> = 2 * uint c - 4294967296"
      using False uint_lt2p [of c] by (intro mod_pos_pos_trivial) simp_all
    finally show ?thesis .
  qed
  with False show ?thesis
    by (simp add: crc_shift_def top_bit_iff shift_int_def uint_double uint_times2 unsigned_xor_eq crcPOLY_def)
qed

definition shift8 :: "int \<Rightarrow> int" where
  "shift8 c = shift_int (shift_int (shift_int (shift_int (shift_int (shift_int (shift_int (shift_int c)))))))"

lemma uint_crc8: "uint ((crc_shift ^^ 8) c) = shift8 (uint c)"
  by (simp add: eval_nat_numeral uint_crc_shift shift8_def)

fun hash_int :: "int \<Rightarrow> int list \<Rightarrow> int" where
  "hash_int h [] = h"
| "hash_int h (b # bs) = hash_int ((h div 256) XOR shift8 (((h XOR b) mod 256) * 16777216)) bs"

lemma uint_hash_runes: "uint (hash_runes h bs) = hash_int (uint h) (map uint bs)"
proof (induction bs arbitrary: h)
  case (Cons b bs)
  let ?x = "(h XOR b) AND 0x000000FF" and ?y = "(uint h XOR uint b) mod 256"
  have "?x = take_bit 8 (h XOR b)"
    by (simp add: take_bit_eq_mask mask_eq_exp_minus_1)
  then have "uint ?x = ?y"
    by (simp only: unsigned_take_bit_eq unsigned_xor_eq) (simp add: take_bit_eq_mod)
  moreover have "uint (push_bit 24 ?x) = (uint ?x * 16777216) mod 4294967296"
    by (simp add: push_bit_eq_mult uint_word_ariths)
  moreover have "(?y * 16777216) mod 4294967296 = ?y * 16777216"
    by (intro mod_pos_pos_trivial) simp_all
  ultimately have "uint (push_bit 24 ?x) = ?y * 16777216"
    by simp
  moreover have "drop_bit 8 h AND 0x00FFFFFF = drop_bit 8 h"
  proof -
    have "drop_bit 8 h AND 0x00FFFFFF = take_bit 24 (drop_bit 8 h)"
      by (simp add: take_bit_eq_mask mask_eq_exp_minus_1)
    then show ?thesis
      by (simp add: take_bit_drop_bit take_bit_word_eq_self)
  qed
  moreover have "uint (drop_bit 8 h) = uint h div 256"
    by (simp add: drop_bit_eq_div uint_div)
  ultimately show ?case
    by (simp only: hash_runes_step hash_int.simps list.map Cons.IH unsigned_xor_eq uint_crc8)
qed simp

lemma uint_word_of_nat_eq: "k < 4294967296 \<Longrightarrow> uint (word_of_nat k :: u32) = int k"
  by (simp add: unsigned_of_nat take_bit_eq_mod)

lemma uint_of_char: "uint (of_char c :: u32) = of_char c"
proof -
  have "(of_char c :: nat) < 4294967296"
    using nat_of_char_less_256 [of c] by linarith
  then have "uint (word_of_nat (of_char c) :: u32) = int (of_char c)"
    by (rule uint_word_of_nat_eq)
  then show ?thesis
    by (simp only: of_nat_of_char)
qed

lemma StringHash_int: "uint (StringHash s) = hash_int 0 (map of_char s)"
proof -
  have "map uint (map of_char s :: u32 list) = map of_char s"
    by (simp add: uint_of_char)
  then show ?thesis
    by (simp add: StringHash_def uint_hash_runes del: map_map)
qed

lemma StringHash_eqI: "hash_int 0 (map of_char s) = uint w \<Longrightarrow> StringHash s = w"
  using StringHash_int [of s] by (simp add: word_uint_eq_iff)

lemma string_hashes:
  "StringHash ''proto.LoginREQ'' = 2266274450"
  "StringHash ''proto.LoginACK'' = 3964561136"
  "StringHash ''proto.PeerConnected'' = 1162626543"
  "StringHash ''proto.PeerDisconnected'' = 3629069126"
  "StringHash ''proto.PeerConnectError'' = 780565736"
  "StringHash ''proto.PeerRecvError'' = 3264497882"
  "StringHash ''proto.PeerSendError'' = 4009711215"
  by (rule StringHash_eqI, simp add: shift8_def shift_int_def)+

lemma metas_ok_cong:
  "metaByName n' = metaByName n \<Longrightarrow> metaByID n' = metaByID n \<Longrightarrow> metaByType n' = metaByType n \<Longrightarrow>
     metas_ok n' = metas_ok n"
  by (simp add: metas_ok_def)

lemma RegisterCodec_ok: "RegisterCodec name c n = Ok n' \<Longrightarrow> metas_ok n \<Longrightarrow> metas_ok n'"
  by (subst metas_ok_cong [of n' n]) (auto simp: RegisterCodec_def split: if_splits)

lemma AutoRegisterMessageMeta_ok:
  "AutoRegisterMessageMeta pkg tps n = Ok n' \<Longrightarrow> metas_ok n \<Longrightarrow> metas_ok n'"
  by (induction tps arbitrary: n) (auto simp: Let_def go_elims dest: RegisterMessageMeta_ok)

definition message_meta :: "registry \<Rightarrow> string \<Rightarrow> MessageMeta" where
  "message_meta r t = \<lparr>meta_Type = \<lparr>tName = t, tZero = zero_struct login_env t\<rparr>, meta_Name = ''proto.'' @ t,
     meta_ID = StringHash (''proto.'' @ t), meta_Codec = Some (sprotoCodec login_env r)\<rparr>"

definition message_table :: "registry \<Rightarrow> u32 \<Rightarrow> MessageMeta option" where
  "message_table r =
     (\<lambda>_. None)(2266274450 := Some (message_meta r ''LoginREQ''), 3964561136 := Some (message_meta r ''LoginACK''),
        1162626543 := Some (message_meta r ''PeerConnected''), 3629069126 := Some (message_meta r ''PeerDisconnected''),
        780565736 := Some (message_meta r ''PeerConnectError''), 3264497882 := Some (message_meta r ''PeerRecvError''),
        4009711215 := Some (message_meta r ''PeerSendError''))"

lemma init_messages_ok:
  "\<exists>n. init_messages r = Ok n \<and> metaByID n = message_table r"
  by (simp add: init_messages_def RegisterCodec_def empty_net_def SProtoStructs_def login_env_def
      RegisterMessageMeta_def FetchCodec_def Let_def string_hashes message_meta_def message_table_def)

text \<open>
  The package initialiser of the game's protocol registers its seven messages without a
  collision, under the numbers that the generated file states beside their types, each with
  the sproto codec.
\<close>

theorem init_messages_ids:
  "\<exists>n. init_messages r = Ok n \<and> metas_ok n \<and>
     map (MessageNameByID n) [2266274450, 3964561136, 1162626543, 3629069126, 780565736, 3264497882, 4009711215] =
       [''proto.LoginREQ'', ''proto.LoginACK'', ''proto.PeerConnected'', ''proto.PeerDisconnected'',
        ''proto.PeerConnectError'', ''proto.PeerRecvError'', ''proto.PeerSendError'']"
proof -
  obtain n where n: "init_messages r = Ok n" and ids: "metaByID n = message_table r"
    using init_messages_ok [of r] by blast
  have "metas_ok n"
    using n unfolding init_messages_def go_elims
    using AutoRegisterMessageMeta_ok RegisterCodec_ok metas_ok_empty by blast
  with n ids show ?thesis
    by (simp add: MessageNameByID_def MessageMetaByID_def message_meta_def message_table_def)
qed

definition one_codec_net :: net where
  "one_codec_net = empty_net\<lparr>codecByName := (\<lambda>_. None)(''sproto'' := Some (sprotoCodec [] empty_registry))\<rparr>"

theorem RegisterMessageMeta_agree_witness:
  "\<exists>n. RegisterMessageMeta ''sproto'' ''game.Ping'' \<lparr>tName = ''Ping'', tZero = []\<rparr> 7 one_codec_net = Ok n \<and>
     metas_ok n \<and> MessageNameByID n 7 = ''game.Ping'' \<and>
     \<not> is_panic (RegisterMessageMeta ''sproto'' ''game.Ping'' \<lparr>tName = ''Ping'', tZero = []\<rparr> 7 one_codec_net)"
proof -
  let ?reg = "RegisterMessageMeta ''sproto'' ''game.Ping'' \<lparr>tName = ''Ping'', tZero = []\<rparr> 7 one_codec_net"
  have ok: "metas_ok one_codec_net"
    using metas_ok_empty by (subst metas_ok_cong [of _ empty_net]) (simp_all add: one_codec_net_def)
  have "is_ok ?reg"
    by (simp add: RegisterMessageMeta_def one_codec_net_def empty_net_def FetchCodec_def Let_def)
  then obtain n where n: "?reg = Ok n"
    by (auto simp: is_ok_iff)
  then have "MessageNameByID n 7 = ''game.Ping''"
    by (auto simp: RegisterMessageMeta_def one_codec_net_def empty_net_def FetchCodec_def Let_def
        MessageNameByID_def MessageMetaByID_def)
  with n RegisterMessageMeta_agree [OF ok, of "''sproto''" "''game.Ping''" "\<lparr>tName = ''Ping'', tZero = []\<rparr>" 7]
  show ?thesis by auto
qed

end
