(* ===== verification/Cellnet_Handler.thy ===== *)
theory Cellnet_Handler
  imports Cellnet_Codec "HOL-Library.Multiset"
begin

text \<open>
  The handlers and handler chains of cellnet: one definition per \<^verbatim>\<open>Call\<close> method (encoder,
  decoder, matcher, log, queue post, fixed-length frames, the packet framing of the socket
  package, the boxing of the rpc package), their dispatch, \<^verbatim>\<open>HandlerChain.Call\<close>,
  \<^verbatim>\<open>HandlerChainList.Call\<close>, \<^verbatim>\<open>HandlerChainCall\<close> and the event queue. What the user's
  callbacks do is a parameter \<open>cb\<close>: the effect of callback number \<open>i\<close> on the event at an address.
\<close>

section \<open>Connections\<close>

text \<open>
  \<^verbatim>\<open>io.ReadFull\<close>: all the bytes or an error; what was left is consumed then. With an empty
  buffer the connection is not read at all.
\<close>

definition ReadFull :: "nat \<Rightarrow> conn \<Rightarrow> bytes option \<times> conn" where
  "ReadFull k c =
     (if k = 0 \<or> \<not> cClosed c \<and> k \<le> length (cIn c)
      then (Some (take k (cIn c)), c\<lparr>cIn := drop k (cIn c)\<rparr>)
      else (None, c\<lparr>cIn := []\<rparr>))"

text \<open>
  \<^verbatim>\<open>Write\<close> of a connection, which reports an error when it takes less than all: the number
  of bytes taken and whether there was an error.
\<close>

definition conn_Write :: "bytes \<Rightarrow> conn \<Rightarrow> (nat \<times> bool) \<times> conn" where
  "conn_Write p c =
     (if cClosed c then ((0, True), c) else ((length p, False), c\<lparr>cOut := cOut c @ p\<rparr>))"

text \<open>
  \<^verbatim>\<open>writeFull\<close> over any writer; \<open>None\<close> when the loop has not ended within the fuel. The
  buffer is shifted in place, and the whole of it is written again after a short write.
\<close>

fun writeFull ::
  "nat \<Rightarrow> (bytes \<Rightarrow> 'c \<Rightarrow> (nat \<times> bool) \<times> 'c) \<Rightarrow> bytes \<Rightarrow> nat \<Rightarrow> 'c \<Rightarrow> (bool \<times> bytes \<times> 'c) option" where
  "writeFull 0 wr p sizeToWrite c = None"
| "writeFull (Suc fuel) wr p sizeToWrite c =
     (let ((n, err), c) = wr p c
      in if err then Some (True, p, c)
         else if n \<ge> sizeToWrite then Some (False, p, c)
         else writeFull fuel wr
                (go_copy (take (sizeToWrite - n) p) (take (sizeToWrite - n) (drop n p)) @ drop (sizeToWrite - n) p)
                (sizeToWrite - n) c)"

definition upd_session :: "nat \<Rightarrow> (session \<Rightarrow> session) \<Rightarrow> net \<Rightarrow> net" where
  "upd_session s f n = n\<lparr>sessions := (sessions n)[s := f (sessions n ! s)]\<rparr>"

definition upd_peer :: "nat \<Rightarrow> (peer \<Rightarrow> peer) \<Rightarrow> net \<Rightarrow> net" where
  "upd_peer p f n = n\<lparr>peers := (peers n)[p := f (peers n ! p)]\<rparr>"

section \<open>The handlers\<close>

definition DecodePacket_Call :: "nat \<Rightarrow> net \<Rightarrow> net run" where
  "DecodePacket_Call a n =
     bind_go (DecodeMessage n (evMsgID (event n a)) (evData (event n a))) (\<lambda>(msg, err).
     let n = upd_event a (\<lambda>ev. ev\<lparr>evMsg := msg\<rparr>) n; r = errToResult err
     in if r \<noteq> Result_OK
        then bind_go (DecodeMessage n (evMsgID (event n a)) (evData (event n a))) (\<lambda>(msg, _).
             Ok (SetResult r a (upd_event a (\<lambda>ev. ev\<lparr>evMsg := msg\<rparr>) n)))
        else Ok n)"

definition EncodePacket_Call :: "nat \<Rightarrow> net \<Rightarrow> net run" where
  "EncodePacket_Call a n =
     bind_go (EncodeMessage n (evMsg (event n a))) (\<lambda>(d, i, err).
     let n = upd_event a (\<lambda>ev. ev\<lparr>evData := d, evMsgID := i\<rparr>) n; r = errToResult err
     in Ok (if r \<noteq> Result_OK then SetResult r a n else n))"

definition MatchMsgID_Call :: "u32 \<Rightarrow> nat \<Rightarrow> net \<Rightarrow> net" where
  "MatchMsgID_Call msgid a n =
     (if evMsgID (event n a) \<noteq> msgid then SetResult Result_NextChain a n else n)"

text \<open>\<^verbatim>\<open>Post\<close> through a nil queue is a nil dereference.\<close>

definition Post :: "nat option \<Rightarrow> EventHandler list \<times> nat \<Rightarrow> net \<Rightarrow> net run" where
  "Post q task n =
     (case q of
        None \<Rightarrow> Panic NilDereference
      | Some i \<Rightarrow> Ok (n\<lparr>queues := (queues n)[i := queues n ! i @ [task]]\<rparr>))"

definition QueuePost_Call :: "nat option \<Rightarrow> EventHandler list \<Rightarrow> nat \<Rightarrow> net \<Rightarrow> net run" where
  "QueuePost_Call q hlist a n = Post q (hlist, a) n"

text \<open>
  The frame reader fills its header buffer and lets \<^verbatim>\<open>Data\<close> alias it; the next reader of the
  chain replaces \<^verbatim>\<open>Data\<close> before the buffer is filled again, so the event holds a copy here.
\<close>

definition FrameReader_Call :: "nat \<Rightarrow> nat \<Rightarrow> net \<Rightarrow> net run" where
  "FrameReader_Call f a n =
     (case evSes (event n a) of
        None \<Rightarrow> Panic TypeAssertion
      | Some s \<Rightarrow>
          (let c0 = sConn (sessions n ! s); (res, c) = ReadFull (length (frames n ! f)) c0;
               n = upd_session s (\<lambda>ses. ses\<lparr>sConn := c\<rparr>) n
           in case res of
                None \<Rightarrow>
                  Ok (SetResult Result_SocketError a
                    (n\<lparr>frames := (frames n)[f := go_copy (frames n ! f) (if cClosed c0 then [] else cIn c0)]\<rparr>))
              | Some d \<Rightarrow>
                  Ok (upd_event a (\<lambda>ev. ev\<lparr>evData := Some d\<rparr>) (n\<lparr>frames := (frames n)[f := d]\<rparr>))))"

text \<open>The connection takes all or reports an error, so the loop ends in its first round.\<close>

definition FrameWriter_Call :: "nat \<Rightarrow> net \<Rightarrow> net run" where
  "FrameWriter_Call a n =
     (case evSes (event n a) of
        None \<Rightarrow> Panic TypeAssertion
      | Some s \<Rightarrow>
          (let d = (case evData (event n a) of Some d \<Rightarrow> d | None \<Rightarrow> [])
           in case writeFull 1 conn_Write d (length d) (sConn (sessions n ! s)) of
                None \<Rightarrow> Panic (Explicit ''unreachable'')
              | Some (err, d', c) \<Rightarrow>
                  (let n = upd_session s (\<lambda>ses. ses\<lparr>sConn := c\<rparr>) n
                   in Ok (if err then SetResult Result_PackageCrack a n else n))))"

text \<open>
  The reader of the packet framing: serial number, message number and size from the ten bytes
  of the frame (\<^verbatim>\<open>binary.Read\<close> fails when they do not suffice), then the payload.
\<close>

definition PrivateReader_body :: "nat \<Rightarrow> nat \<Rightarrow> nat \<Rightarrow> u16 \<Rightarrow> u32 \<Rightarrow> net \<Rightarrow> net" where
  "PrivateReader_body k a s ser bodySize n =
     (let maxSize = maxPacketSize (pOptions (peers n ! sPeer (sessions n ! s)))
      in if maxSize > 0 \<and> uint bodySize > maxSize then SetResult Result_PackageCrack a n
         else if sers n ! k \<noteq> ser then SetResult Result_PackageCrack a n
         else
           let (res, c) = ReadFull (unat bodySize) (sConn (sessions n ! s));
               n = upd_session s (\<lambda>ses. ses\<lparr>sConn := c\<rparr>) n
           in case res of
                None \<Rightarrow> SetResult Result_PackageCrack a n
              | Some body \<Rightarrow>
                  upd_event a (\<lambda>ev. ev\<lparr>evData := Some body\<rparr>)
                    (n\<lparr>sers := (sers n)[k := sers n ! k + 1]\<rparr>))"

definition PrivateReader_Call :: "nat \<Rightarrow> nat \<Rightarrow> net \<Rightarrow> net run" where
  "PrivateReader_Call k a n =
     (let d = (case evData (event n a) of Some d \<Rightarrow> d | None \<Rightarrow> [])
      in if length d < 2 then Ok (SetResult Result_PackageCrack a n)
         else bind_go (readUint16 d) (\<lambda>ser.
           if length d < 6 then Ok (SetResult Result_PackageCrack a n)
           else bind_go (readUint32 (drop 2 d)) (\<lambda>msgid.
             let n = upd_event a (\<lambda>ev. ev\<lparr>evMsgID := msgid\<rparr>) n
             in if length d < 10 then Ok (SetResult Result_PackageCrack a n)
                else bind_go (readUint32 (drop 6 d)) (\<lambda>bodySize.
                  case evSes (event n a) of
                    None \<Rightarrow> Panic NilDereference
                  | Some s \<Rightarrow> Ok (PrivateReader_body k a s ser bodySize n)))))"

text \<open>Writing integers and bytes to a \<^verbatim>\<open>bytes.Buffer\<close> does not fail.\<close>

definition PrivateWriter_Call :: "nat \<Rightarrow> nat \<Rightarrow> net \<Rightarrow> net" where
  "PrivateWriter_Call k a n =
     (let ev = event n a; d = (case evData ev of Some d \<Rightarrow> d | None \<Rightarrow> []);
          out = le16 (sers n ! k) @ le32 (evMsgID ev) @ le32 (word_of_nat (length d)) @ d
      in upd_event a (\<lambda>ev. ev\<lparr>evData := Some out\<rparr>) (n\<lparr>sers := (sers n)[k := sers n ! k + 1]\<rparr>))"

text \<open>The fields of \<^verbatim>\<open>coredef.RemoteCallACK\<close>: message number, data, call number.\<close>

definition RemoteCallACK :: "u32 \<Rightarrow> bytes option \<Rightarrow> int \<Rightarrow> message" where
  "RemoteCallACK i d callid =
     \<lparr>mType = ''RemoteCallACK'', mPtr = True,
      mBody = [GInt KUint32 (ucast i), GInts KUint8 (map_option (map ucast) d), GInt KInt64 (word_of_int callid)]\<rparr>"

definition Box_Call :: "nat \<Rightarrow> net \<Rightarrow> net run" where
  "Box_Call a n =
     (let ev = event n a
      in case evTransmitTag ev of
           Some (AnyInt64 callid) \<Rightarrow> FromMessage (RemoteCallACK (evMsgID ev) (evData ev) callid) a n
         | _ \<Rightarrow> Panic TypeAssertion)"

definition Unbox_Call :: "HandlerChain \<Rightarrow> nat \<Rightarrow> net \<Rightarrow> net run" where
  "Unbox_Call feedbackChain a n =
     (case evMsg (event n a) of
        None \<Rightarrow> Panic TypeAssertion
      | Some m \<Rightarrow>
          (if mType m = ''RemoteCallACK'' \<and> mPtr m
           then (case mBody m of
                   [GInt _ i, GInts _ d, GInt _ callid] \<Rightarrow>
                     Ok (upd_event a (\<lambda>ev. ev\<lparr>evMsgID := ucast i, evData := map_option (map ucast) d,
                           evTransmitTag := Some (AnyInt64 (sint callid)), evChainSend := Some feedbackChain\<rparr>) n)
                 | _ \<Rightarrow> Panic TypeAssertion)
           else Panic TypeAssertion))"

text \<open>
  Sending on the channel of a synchronous call waits until the caller takes the value: for ever,
  when the caller has given up or has its value.
\<close>

definition RetChan_Call :: "nat \<Rightarrow> nat \<Rightarrow> net \<Rightarrow> net run" where
  "RetChan_Call r a n =
     (if rcWaiting (rets n ! r)
      then Ok (n\<lparr>rets := (rets n)[r := \<lparr>rcWaiting = False, rcValues = rcValues (rets n ! r) @ [evMsg (event n a)]\<rparr>]\<rparr>)
      else Panic Blocked)"

section \<open>The chain manager of a peer\<close>

definition AddChainRecv :: "HandlerChain \<Rightarrow> chain_mgr \<Rightarrow> int \<times> chain_mgr" where
  "AddChainRecv recv m =
     (let autoID = chainIDAcc m + 1
      in (autoID, m\<lparr>chainIDAcc := autoID, recvChainByID := recvChainByID m @ [(autoID, recv)],
                    recvChainListDirty := True\<rparr>))"

definition RemoveChainRecv :: "int \<Rightarrow> chain_mgr \<Rightarrow> chain_mgr" where
  "RemoveChainRecv i m =
     m\<lparr>recvChainByID := filter (\<lambda>(k, c). k \<noteq> i) (recvChainByID m), recvChainListDirty := True\<rparr>"

definition SetChainSend :: "HandlerChain \<Rightarrow> chain_mgr \<Rightarrow> chain_mgr" where
  "SetChainSend c m = m\<lparr>sendChain := Some c\<rparr>"

definition ChainSend :: "chain_mgr \<Rightarrow> HandlerChain option" where
  "ChainSend m = sendChain m"

text \<open>
  The loop over the map of chains visits them in an order that the language leaves open:
  \<open>ord\<close> is the order that this call happens to see, a permutation of the entries.
\<close>

type_synonym chain_order = "HandlerChain list \<Rightarrow> HandlerChain list"

definition ChainListRecv :: "chain_order \<Rightarrow> chain_mgr \<Rightarrow> HandlerChain list \<times> chain_mgr" where
  "ChainListRecv ord m =
     (if recvChainListDirty m
      then let l = ord (map snd (recvChainByID m))
           in (l, m\<lparr>recvChainList := l, recvChainListDirty := False\<rparr>)
      else (recvChainList m, m))"

definition SetReadWriteChain :: "handler_maker list \<Rightarrow> handler_maker list \<Rightarrow> chain_mgr \<Rightarrow> chain_mgr" where
  "SetReadWriteChain rd wr m = m\<lparr>readChainCreator := Some rd, writeChainCreator := Some wr\<rparr>"

definition NewHandlerChainManager :: chain_mgr where
  "NewHandlerChainManager = \<lparr>recvChainByID = [], chainIDAcc = 0, recvChainListDirty = False,
     recvChainList = [], sendChain = None, readChainCreator = None, writeChainCreator = None\<rparr>"

section \<open>Calling handlers and chains\<close>

type_synonym callbacks = "nat \<Rightarrow> nat \<Rightarrow> net \<Rightarrow> net run"

fun callHandler :: "callbacks \<Rightarrow> EventHandler \<Rightarrow> nat \<Rightarrow> net \<Rightarrow> net run" where
  "callHandler cb (CallbackHandler i) a n = cb i a n"
| "callHandler cb (MatchMsgIDHandler i) a n = Ok (MatchMsgID_Call i a n)"
| "callHandler cb DecodePacketHandler a n = DecodePacket_Call a n"
| "callHandler cb EncodePacketHandler a n = EncodePacket_Call a n"
| "callHandler cb MsgLogHandler a n = MsgLog a n"
| "callHandler cb (QueuePostHandler q hs) a n = QueuePost_Call q hs a n"
| "callHandler cb (FixedLengthFrameReader f) a n = FrameReader_Call f a n"
| "callHandler cb FixedLengthFrameWriter a n = FrameWriter_Call a n"
| "callHandler cb (PrivatePacketReader k) a n = PrivateReader_Call k a n"
| "callHandler cb (PrivatePacketWriter k) a n = Ok (PrivateWriter_Call k a n)"
| "callHandler cb BoxHandler a n = Box_Call a n"
| "callHandler cb (UnboxHandler c) a n = Unbox_Call c a n"
| "callHandler cb (RetChanHandler r) a n = RetChan_Call r a n"
| "callHandler cb (RemoveRecvHandler p i) a n =
     Ok (upd_peer p (\<lambda>pe. pe\<lparr>pChains := RemoveChainRecv i (pChains pe)\<rparr>) n)"

fun callList :: "callbacks \<Rightarrow> EventHandler list \<Rightarrow> nat \<Rightarrow> net \<Rightarrow> net run" where
  "callList cb [] a n = Ok n"
| "callList cb (h # hs) a n =
     bind_go (callHandler cb h a n) (\<lambda>n.
     if Result_of n a = Result_NextChain then Ok (SetResult Result_OK a n)
     else if Result_of n a \<noteq> Result_OK then Ok n
     else callList cb hs a n)"

definition HandlerChain_Call :: "callbacks \<Rightarrow> HandlerChain \<Rightarrow> nat \<Rightarrow> net \<Rightarrow> net run" where
  "HandlerChain_Call cb c a n =
     callList cb (chain_list c) a (upd_event a (\<lambda>ev. ev\<lparr>evChainid := chain_id c\<rparr>) n)"

fun HandlerChainCall :: "callbacks \<Rightarrow> EventHandler list \<Rightarrow> nat \<Rightarrow> net \<Rightarrow> net run" where
  "HandlerChainCall cb [] a n = Ok n"
| "HandlerChainCall cb (h # hs) a n =
     bind_go (callHandler cb h a n) (\<lambda>n.
     if Result_of n a \<noteq> Result_OK then Ok n else HandlerChainCall cb hs a n)"

fun HandlerChainList_Call :: "callbacks \<Rightarrow> HandlerChain list \<Rightarrow> nat \<Rightarrow> net \<Rightarrow> net run" where
  "HandlerChainList_Call cb [] a n = Ok n"
| "HandlerChainList_Call cb (c # cs) a n =
     (let (cloned, n) = Clone a n
      in bind_go (HandlerChain_Call cb c cloned n) (HandlerChainList_Call cb cs a))"

definition genChainID :: "net \<Rightarrow> int \<times> net" where
  "genChainID n = (chainidgen n + 1, n\<lparr>chainidgen := chainidgen n + 1\<rparr>)"

text \<open>The objects that \<^verbatim>\<open>AddAny\<close> accepts: one handler or a slice of them.\<close>

definition AddAny :: "EventHandler list \<Rightarrow> EventHandler list list \<Rightarrow> EventHandler list" where
  "AddAny lst objs = foldl (@) lst objs"

definition NewHandlerChain :: "EventHandler list list \<Rightarrow> net \<Rightarrow> HandlerChain \<times> net" where
  "NewHandlerChain objs n =
     (let (i, n) = genChainID n in (HandlerChain i (AddAny [] objs), n))"

text \<open>
  A handler with a state gets a fresh cell: the header buffer of a frame reader, the serial
  number, 1 at the start, of a packet reader or writer.
\<close>

fun make_handler :: "handler_maker \<Rightarrow> net \<Rightarrow> EventHandler \<times> net" where
  "make_handler (MakeFrameReader sz) n =
     (FixedLengthFrameReader (length (frames n)), n\<lparr>frames := frames n @ [replicate sz 0]\<rparr>)"
| "make_handler MakeFrameWriter n = (FixedLengthFrameWriter, n)"
| "make_handler MakePacketReader n = (PrivatePacketReader (length (sers n)), n\<lparr>sers := sers n @ [1]\<rparr>)"
| "make_handler MakePacketWriter n = (PrivatePacketWriter (length (sers n)), n\<lparr>sers := sers n @ [1]\<rparr>)"
| "make_handler (MakeHandler h) n = (h, n)"

fun make_handlers :: "handler_maker list \<Rightarrow> net \<Rightarrow> EventHandler list \<times> net" where
  "make_handlers [] n = ([], n)"
| "make_handlers (x # xs) n =
     (let (h, n) = make_handler x n; (hs, n) = make_handlers xs n in (h # hs, n))"

definition call_creator :: "handler_maker list option \<Rightarrow> net \<Rightarrow> (HandlerChain \<times> net) run" where
  "call_creator f n =
     (case f of
        None \<Rightarrow> Panic NilDereference
      | Some xs \<Rightarrow> (let (hs, n) = make_handlers xs n in Ok (NewHandlerChain [hs] n)))"

definition CreateChainRead :: "nat \<Rightarrow> net \<Rightarrow> (HandlerChain \<times> net) run" where
  "CreateChainRead p n = call_creator (readChainCreator (pChains (peers n ! p))) n"

definition CreateChainWrite :: "nat \<Rightarrow> net \<Rightarrow> (HandlerChain \<times> net) run" where
  "CreateChainWrite p n = call_creator (writeChainCreator (pChains (peers n ! p))) n"

section \<open>The event queue\<close>

text \<open>
  One round of the loop of \<^verbatim>\<open>StartLoop\<close>: the oldest task is taken and run. \<^verbatim>\<open>capturePanic\<close> is
  never set by the package, so a panic of a task is a panic of the program.
\<close>

definition queue_step :: "callbacks \<Rightarrow> nat \<Rightarrow> net \<Rightarrow> net run" where
  "queue_step cb q n =
     (case queues n ! q of
        [] \<Rightarrow> Ok n
      | (hs, a) # rest \<Rightarrow> HandlerChainCall cb hs a (n\<lparr>queues := (queues n)[q := rest]\<rparr>))"

section \<open>Registration\<close>

definition RegisterHandler :: "nat \<Rightarrow> string \<Rightarrow> EventHandler list \<Rightarrow> net \<Rightarrow> net run" where
  "RegisterHandler p msgName handlers n =
     (case MessageMetaByName n msgName of
        None \<Rightarrow> Panic (Explicit ''message register failed, name not found'')
      | Some meta \<Rightarrow>
          (let (c, n) = NewHandlerChain
                 [[MatchMsgIDHandler (meta_ID meta)], [DecodePacketHandler],
                  case pQueue (peers n ! p) of
                    Some q \<Rightarrow> [QueuePostHandler (Some q) handlers]
                  | None \<Rightarrow> handlers] n
           in Ok (upd_peer p (\<lambda>pe. pe\<lparr>pChains := snd (AddChainRecv c (pChains pe))\<rparr>) n)))"

definition RegisterMessage :: "nat \<Rightarrow> string \<Rightarrow> nat \<Rightarrow> net \<Rightarrow> net run" where
  "RegisterMessage p msgName userCallback n = RegisterHandler p msgName [CallbackHandler userCallback] n"

definition RegisterRawHandler :: "nat \<Rightarrow> string \<Rightarrow> EventHandler list \<Rightarrow> net \<Rightarrow> net run" where
  "RegisterRawHandler p msgName handlers n =
     (case MessageMetaByName n msgName of
        None \<Rightarrow> Panic (Explicit ''message register failed'')
      | Some meta \<Rightarrow>
          (let (c, n) = NewHandlerChain [[MatchMsgIDHandler (meta_ID meta)], [DecodePacketHandler], handlers] n
           in Ok (upd_peer p (\<lambda>pe. pe\<lparr>pChains := snd (AddChainRecv c (pChains pe))\<rparr>) n)))"

section \<open>Writing\<close>

text \<open>A writer that reports an error whenever it takes less than it was given.\<close>

definition writer_contract :: "(bytes \<Rightarrow> 'c \<Rightarrow> (nat \<times> bool) \<times> 'c) \<Rightarrow> bool" where
  "writer_contract wr \<longleftrightarrow> (\<forall>p c n c'. wr p c = ((n, False), c') \<longrightarrow> length p \<le> n)"

lemma conn_Write_contract: "writer_contract conn_Write"
  by (auto simp: writer_contract_def conn_Write_def split: if_splits)

lemma writeFull_contract:
  assumes "writer_contract wr" "wr p c = ((n, err), c')"
  shows "writeFull (Suc fuel) wr p (length p) c = Some (err, p, c')"
  using assms by (cases err) (auto simp: writer_contract_def)

text \<open>
  A writer that may take one byte of the buffer without an error: the second round writes the
  whole buffer again, so bytes are sent twice.
\<close>

definition stutter :: "bytes \<Rightarrow> nat \<times> bytes \<Rightarrow> (nat \<times> bool) \<times> nat \<times> bytes" where
  "stutter p c = (if fst c = 0 then ((1, False), 1, snd c @ take 1 p) else ((length p, False), 1, snd c @ p))"

lemma writeFull_short_write:
  "writeFull 2 stutter [1, 2, 3] 3 (0, []) = Some (False, [2, 3, 3], 1, [1, 2, 3, 3])"
  by code_simp

section \<open>What a handler touches\<close>

text \<open>The step from \<open>n\<close> to \<open>n'\<close> changes no event but the one at \<open>a\<close>.\<close>

definition only_event :: "nat \<Rightarrow> net \<Rightarrow> net \<Rightarrow> bool" where
  "only_event a n n' \<longleftrightarrow>
     length (events n) \<le> length (events n') \<and>
     (\<forall>b < length (events n). b \<noteq> a \<longrightarrow> events n' ! b = events n ! b)"

definition local_callbacks :: "callbacks \<Rightarrow> bool" where
  "local_callbacks cb \<longleftrightarrow> (\<forall>i a n n'. cb i a n = Ok n' \<longrightarrow> only_event a n n')"

lemma only_event_refl [simp]: "only_event a n n"
  by (simp add: only_event_def)

lemma only_event_trans: "only_event a n n' \<Longrightarrow> only_event a n' n'' \<Longrightarrow> only_event a n n''"
  by (auto simp: only_event_def)

lemma only_event_upd [simp]: "only_event a n (upd_event a f n)"
  by (simp add: only_event_def upd_event_def)

lemma only_event_same: "events n' = events n \<Longrightarrow> only_event a n n'"
  by (simp add: only_event_def)

lemma only_event_SetResult [simp]: "only_event a n (SetResult r a n)"
  by (simp add: SetResult_def)

lemma only_event_more:
  "only_event a n (upd_event a f n') \<longleftrightarrow> only_event a n n'"
  by (auto simp: only_event_def upd_event_def)

lemma only_event_SetResult_more: "only_event a n (SetResult r a n') \<longleftrightarrow> only_event a n n'"
  by (simp add: SetResult_def only_event_more)

lemma events_upd [simp]:
  "events (upd_session s f n) = events n" "events (upd_peer p g n) = events n"
  by (simp_all add: upd_session_def upd_peer_def)

lemma only_event_fields:
  "only_event a n (n'\<lparr>frames := x\<rparr>) \<longleftrightarrow> only_event a n n'"
  "only_event a n (n'\<lparr>sers := y\<rparr>) \<longleftrightarrow> only_event a n n'"
  "only_event a n (n'\<lparr>queues := z\<rparr>) \<longleftrightarrow> only_event a n n'"
  "only_event a n (n'\<lparr>rets := w\<rparr>) \<longleftrightarrow> only_event a n n'"
  "only_event a n (upd_session s f n') \<longleftrightarrow> only_event a n n'"
  "only_event a n (upd_peer p g n') \<longleftrightarrow> only_event a n n'"
  by (simp_all add: only_event_def)

lemmas only_event_simps = only_event_more only_event_SetResult_more only_event_fields

lemma only_event_PrivateReader_body:
  "only_event a n (PrivateReader_body k a s ser sz n') \<longleftrightarrow> only_event a n n'"
  by (simp add: PrivateReader_body_def Let_def only_event_simps split: prod.split option.split)

lemma callHandler_local:
  assumes "local_callbacks cb" "callHandler cb h a n = Ok n'"
  shows "only_event a n n'"
proof (cases h)
  case (CallbackHandler i)
  with assms show ?thesis by (auto simp: local_callbacks_def)
qed (use assms(2) in \<open>auto simp: MatchMsgID_Call_def DecodePacket_Call_def EncodePacket_Call_def MsgLog_def
      Parse_def QueuePost_Call_def Post_def FrameReader_Call_def FrameWriter_Call_def PrivateReader_Call_def
      PrivateWriter_Call_def Box_Call_def FromMessage_def Unbox_Call_def RetChan_Call_def Let_def go_elims
      only_event_simps only_event_PrivateReader_body split: if_splits option.splits prod.splits any.splits list.splits gval.splits\<close>)


lemma callList_local:
  assumes "local_callbacks cb"
  shows "callList cb hs a n = Ok n' \<Longrightarrow> only_event a n n'"
proof (induction hs arbitrary: n)
  case (Cons h hs)
  then obtain n1 where h: "callHandler cb h a n = Ok n1"
    and rest: "n' = SetResult Result_OK a n1 \<or> n' = n1 \<or> callList cb hs a n1 = Ok n'"
    by (auto simp: go_elims split: if_splits)
  have "only_event a n n1"
    using callHandler_local [OF assms h] .
  with rest Cons.IH only_event_trans show ?case
    by (metis only_event_SetResult)
qed simp

lemma HandlerChain_Call_local:
  "local_callbacks cb \<Longrightarrow> HandlerChain_Call cb c a n = Ok n' \<Longrightarrow> only_event a n n'"
  unfolding HandlerChain_Call_def by (meson callList_local only_event_trans only_event_upd)

text \<open>
  C13: Dispatching an event to the receive chains does not change the event: every chain works on
  a clone of its own, whatever the other chains and the callbacks did, so a result that a
  handler sets ends its chain and nothing else. (The test of the event's result after the
  dispatch in \<^verbatim>\<open>recvThread\<close> therefore never fires.) The callbacks are assumed to modify no
  event but the one they are given.
\<close>

theorem HandlerChainList_Call_isolated:
  assumes "local_callbacks cb" "a < length (events n)" "HandlerChainList_Call cb cs a n = Ok n'"
  shows "events n' ! a = events n ! a \<and> Result_of n' a = Result_of n a"
proof -
  have "a < length (events n) \<Longrightarrow> HandlerChainList_Call cb cs a n = Ok n' \<Longrightarrow> events n' ! a = events n ! a" for n
  proof (induction cs arbitrary: n)
    case (Cons c cs)
    let ?n1 = "n\<lparr>events := events n @ [clone_of (event n a)]\<rparr>"
    from Cons.prems(2) obtain n2 where call: "HandlerChain_Call cb c (length (events n)) ?n1 = Ok n2"
      and rest: "HandlerChainList_Call cb cs a n2 = Ok n'"
      by (auto simp: Clone_def Let_def go_elims)
    have "only_event (length (events n)) ?n1 n2"
      by (rule HandlerChain_Call_local [OF assms(1) call])
    then have "length (events n) \<le> length (events n2)" and same: "events n2 ! a = events n ! a"
      using Cons.prems(1) by (auto simp: only_event_def nth_append)
    then show ?case
      using Cons.IH [OF _ rest] Cons.prems(1) by simp
  qed simp
  with assms show ?thesis
    by (simp add: Result_of_def event_def)
qed

text \<open>
  A chain that was entered with the result \<^verbatim>\<open>OK\<close> never leaves \<^verbatim>\<open>NextChain\<close> behind: a
  matcher that does not match ends its chain quietly.
\<close>

theorem HandlerChain_Call_no_NextChain:
  assumes "a < length (events n)" "Result_of n a = Result_OK"
    and "local_callbacks cb" "HandlerChain_Call cb c a n = Ok n'"
  shows "Result_of n' a \<noteq> Result_NextChain"
proof -
  have "a < length (events n) \<Longrightarrow> Result_of n a = Result_OK \<Longrightarrow> callList cb hs a n = Ok n' \<Longrightarrow>
      Result_of n' a \<noteq> Result_NextChain" for hs n
  proof (induction hs arbitrary: n)
    case (Cons h hs)
    from Cons.prems(3) obtain n1 where h: "callHandler cb h a n = Ok n1"
      by (auto simp: go_elims)
    have "a < length (events n1)"
      using callHandler_local [OF assms(3) h] Cons.prems(1) by (simp add: only_event_def)
    with h Cons show ?case
      by (auto simp: Result_of_def SetResult_def upd_event_def event_def split: if_splits)
  qed (simp add: Result_of_def)
  from this [of "upd_event a (\<lambda>ev. ev\<lparr>evChainid := chain_id c\<rparr>) n" "chain_list c"] assms
  show ?thesis
    by (simp add: HandlerChain_Call_def Result_of_def event_def upd_event_def)
qed


section \<open>Registered messages\<close>

lemma event_upd [simp]: "a < length (events n) \<Longrightarrow> event (upd_event a f n) a = f (event n a)"
  by (simp add: event_def upd_event_def)

lemma length_upd_event [simp]: "length (events (upd_event a f n)) = length (events n)"
  by (simp add: upd_event_def)

lemma upd_event_twice: "a < length (events n) \<Longrightarrow> upd_event a f (upd_event a g n) = upd_event a (f \<circ> g) n"
  by (simp add: upd_event_def)

lemma DecodeMessage_upd [simp]: "DecodeMessage (upd_event a f n) i d = DecodeMessage n i d"
  by (simp add: DecodeMessage_def MessageMetaByID_def upd_event_def)

text \<open>The event at the point where the handlers of a registered message start.\<close>

definition delivered :: "HandlerChain \<Rightarrow> message \<Rightarrow> nat \<Rightarrow> net \<Rightarrow> net" where
  "delivered c m a n =
     upd_event a (\<lambda>ev. ev\<lparr>evMsg := Some m\<rparr>) (upd_event a (\<lambda>ev. ev\<lparr>evChainid := chain_id c\<rparr>) n)"

lemma registered_chain_cases:
  assumes a: "a < length (events n)" and ok: "Result_of n a = Result_OK"
    and c: "chain_list c = MatchMsgIDHandler i # DecodePacketHandler # hs"
  shows "evMsgID (event n a) \<noteq> i \<Longrightarrow>
      HandlerChain_Call cb c a n = Ok (upd_event a (\<lambda>ev. ev\<lparr>evChainid := chain_id c, evR := Result_OK\<rparr>) n)"
    and "evMsgID (event n a) = i \<Longrightarrow> DecodeMessage n i (evData (event n a)) = Ok (m, Some e) \<Longrightarrow>
      HandlerChain_Call cb c a n =
        Ok (upd_event a (\<lambda>ev. ev\<lparr>evChainid := chain_id c, evMsg := m, evR := Result_CodecError\<rparr>) n)"
    and "evMsgID (event n a) = i \<Longrightarrow> DecodeMessage n i (evData (event n a)) = Ok (Some msg, None) \<Longrightarrow>
      HandlerChain_Call cb c a n = callList cb hs a (delivered c msg a n)"
proof -
  have r: "evR (event n a) = Result_OK"
    using ok by (simp add: Result_of_def)
  show "HandlerChain_Call cb c a n = Ok (upd_event a (\<lambda>ev. ev\<lparr>evChainid := chain_id c, evR := Result_OK\<rparr>) n)"
    if "evMsgID (event n a) \<noteq> i"
    using that a r by (simp add: HandlerChain_Call_def c MatchMsgID_Call_def SetResult_def Result_of_def
        upd_event_twice comp_def)
  show "HandlerChain_Call cb c a n =
      Ok (upd_event a (\<lambda>ev. ev\<lparr>evChainid := chain_id c, evMsg := m, evR := Result_CodecError\<rparr>) n)"
    if "evMsgID (event n a) = i" "DecodeMessage n i (evData (event n a)) = Ok (m, Some e)"
    using that a r by (simp add: HandlerChain_Call_def c MatchMsgID_Call_def SetResult_def Result_of_def
        upd_event_twice comp_def DecodePacket_Call_def errToResult_def Let_def)
  show "HandlerChain_Call cb c a n = callList cb hs a (delivered c msg a n)"
    if "evMsgID (event n a) = i" "DecodeMessage n i (evData (event n a)) = Ok (Some msg, None)"
    using that a r by (simp add: HandlerChain_Call_def c MatchMsgID_Call_def Result_of_def
        upd_event_twice comp_def DecodePacket_Call_def errToResult_def Let_def delivered_def)
qed

text \<open>
  C14: What a chain made by \<^verbatim>\<open>RegisterMessage\<close> does with an event. For another message number
  the callback does not run and the event keeps the result \<^verbatim>\<open>OK\<close>; when the payload does not
  decode, the callback does not run and the result is \<^verbatim>\<open>CodecError\<close>; otherwise the callback
  runs on the event with the decoded message (or, with a queue, is posted there once, behind
  the tasks that are waiting).
\<close>

theorem registered_message_call:
  assumes a: "a < length (events n)" and ok: "Result_of n a = Result_OK"
    and c: "chain_list c = [MatchMsgIDHandler i, DecodePacketHandler, tail]"
    and t: "tail = CallbackHandler k \<or> tail = QueuePostHandler (Some q) [CallbackHandler k]"
    and d: "DecodeMessage n i (evData (event n a)) = Ok (m, err)"
  shows "(evMsgID (event n a) \<noteq> i \<longrightarrow>
      HandlerChain_Call cb c a n = Ok (upd_event a (\<lambda>ev. ev\<lparr>evChainid := chain_id c, evR := Result_OK\<rparr>) n)) \<and>
    (evMsgID (event n a) = i \<and> err \<noteq> None \<longrightarrow>
      HandlerChain_Call cb c a n =
        Ok (upd_event a (\<lambda>ev. ev\<lparr>evChainid := chain_id c, evMsg := m, evR := Result_CodecError\<rparr>) n)) \<and>
    (evMsgID (event n a) = i \<and> err = None \<longrightarrow>
      (\<exists>msg. m = Some msg \<and>
         HandlerChain_Call cb c a n =
           (if tail = CallbackHandler k
            then bind_go (cb k a (delivered c msg a n)) (\<lambda>n'.
                 Ok (if Result_of n' a = Result_NextChain then SetResult Result_OK a n' else n'))
            else let n' = delivered c msg a n
                 in Ok (n'\<lparr>queues := (queues n')[q := queues n' ! q @ [([CallbackHandler k], a)]]\<rparr>))))"
proof -
  note cases = registered_chain_cases [OF a ok, of c i "[tail]"]
  have msg: "\<exists>msg. m = Some msg" if "err = None"
    using d that by (auto simp: DecodeMessage_def Let_def split: option.splits go.splits)
  have r: "Result_of (delivered c msg a n) a = Result_OK" for msg
    using a ok by (simp add: delivered_def Result_of_def)
  have "callList cb [CallbackHandler k] a n' = bind_go (cb k a n') (\<lambda>n'.
      Ok (if Result_of n' a = Result_NextChain then SetResult Result_OK a n' else n'))" for n'
    by (cases "cb k a n'") simp_all
  moreover have "callList cb [QueuePostHandler (Some q) [CallbackHandler k]] a n' =
      Ok (n'\<lparr>queues := (queues n')[q := queues n' ! q @ [([CallbackHandler k], a)]]\<rparr>)"
    if "Result_of n' a = Result_OK" for n'
    using that by (simp add: QueuePost_Call_def Post_def Result_of_def event_def)
  ultimately show ?thesis
    using cases c d t msg r by (auto simp: Let_def)
qed

section \<open>Dispatch on a small state\<close>

definition quiet :: callbacks where
  "quiet i a n = Ok n"

definition one_event_net :: net where
  "one_event_net = empty_net\<lparr>events := [(new_Event Event_Recv None)\<lparr>evMsgID := 7, evData := Some [1, 2]\<rparr>]\<rparr>"

definition match7 :: HandlerChain where
  "match7 = HandlerChain 501 [MatchMsgIDHandler 7, DecodePacketHandler, CallbackHandler 0]"

definition match8 :: HandlerChain where
  "match8 = HandlerChain 502 [MatchMsgIDHandler 8, DecodePacketHandler, CallbackHandler 0]"

lemmas small_defs = quiet_def one_event_net_def match7_def match8_def empty_net_def new_Event_def

lemma quiet_local: "local_callbacks quiet"
  by (simp add: local_callbacks_def quiet_def)

theorem HandlerChainList_Call_isolated_witness:
  "\<exists>n'. HandlerChainList_Call quiet [match7, match8] 0 one_event_net = Ok n' \<and>
     events n' ! 0 = events one_event_net ! 0 \<and> Result_of n' 0 = Result_OK \<and>
     Result_of n' 1 = Result_CodecError \<and> Result_of n' 2 = Result_OK"
proof -
  let ?r = "HandlerChainList_Call quiet [match7, match8] 0 one_event_net"
  obtain n' where n': "?r = Ok n'" "Result_of n' 1 = Result_CodecError" "Result_of n' 2 = Result_OK"
    by (simp add: small_defs HandlerChain_Call_def MatchMsgID_Call_def DecodePacket_Call_def DecodeMessage_def
        MessageMetaByID_def Clone_def clone_of_def SetResult_def Result_of_def errToResult_def event_def upd_event_def Let_def)
  moreover have "Result_of one_event_net 0 = Result_OK" "0 < length (events one_event_net)"
    by (simp_all add: small_defs Result_of_def event_def)
  ultimately show ?thesis
    using HandlerChainList_Call_isolated [OF quiet_local, of 0 one_event_net "[match7, match8]" n'] by auto
qed

theorem HandlerChain_Call_no_NextChain_witness:
  "\<exists>n'. HandlerChain_Call quiet match8 0 one_event_net = Ok n' \<and> Result_of n' 0 \<noteq> Result_NextChain"
proof -
  obtain n' where "HandlerChain_Call quiet match8 0 one_event_net = Ok n'"
    by (simp add: small_defs HandlerChain_Call_def MatchMsgID_Call_def SetResult_def Result_of_def event_def upd_event_def)
  with HandlerChain_Call_no_NextChain [OF _ _ quiet_local, of 0 one_event_net match8 n'] show ?thesis
    by (simp add: small_defs Result_of_def event_def)
qed

theorem registered_message_call_witness:
  "HandlerChain_Call quiet match7 0 one_event_net =
     Ok (upd_event 0 (\<lambda>ev. ev\<lparr>evChainid := 501, evMsg := None, evR := Result_CodecError\<rparr>) one_event_net)"
  using registered_message_call [of 0 one_event_net match7 7 "CallbackHandler 0" 0 0 None
      "Some ErrMessageNotFound" quiet]
  by (simp add: small_defs Result_of_def event_def DecodeMessage_def MessageMetaByID_def)

section \<open>The table of receive chains\<close>

text \<open>
  What the clients of the chain table rely on: adding hands out a fresh number and adds one
  entry, removing drops the entry of that number and no other.
\<close>

locale chain_table =
  fixes ok :: "'m \<Rightarrow> bool"
    and add :: "'c \<Rightarrow> 'm \<Rightarrow> int \<times> 'm"
    and remove :: "int \<Rightarrow> 'm \<Rightarrow> 'm"
    and entries :: "'m \<Rightarrow> (int \<times> 'c) multiset"
  assumes add_ok: "ok m \<Longrightarrow> ok (snd (add c m))"
    and remove_ok: "ok m \<Longrightarrow> ok (remove i m)"
    and add_entries: "ok m \<Longrightarrow> entries (snd (add c m)) = add_mset (fst (add c m), c) (entries m)"
    and add_fresh: "ok m \<Longrightarrow> (fst (add c m), d) \<notin># entries m"
    and remove_entries: "ok m \<Longrightarrow> entries (remove i m) = filter_mset (\<lambda>(k, c). k \<noteq> i) (entries m)"
begin

lemma remove_other: "ok m \<Longrightarrow> \<forall>c. (i, c) \<notin># entries m \<Longrightarrow> entries (remove i m) = entries m"
  by (auto simp: remove_entries filter_mset_eq_conv)

lemma fresh_filter: "ok m \<Longrightarrow> filter_mset (\<lambda>(k, d). k \<noteq> fst (add c m)) (entries m) = entries m"
  using add_fresh [of m c] by (auto simp: filter_mset_eq_conv)

lemma add_remove: "ok m \<Longrightarrow> entries (remove (fst (add c m)) (snd (add c m))) = entries m"
  by (simp add: add_ok add_entries remove_entries fresh_filter)

text \<open>Two clients: the removal of the first leaves exactly the entry of the second.\<close>

lemma add_add_remove:
  assumes "ok m" and m1: "m1 = snd (add c m)"
  shows "entries (remove (fst (add c m)) (snd (add d m1))) = add_mset (fst (add d m1), d) (entries m)"
proof -
  have ok1: "ok m1"
    using assms by (simp add: add_ok)
  have "(fst (add c m), c) \<in># entries m1"
    using assms by (simp add: add_entries)
  then have "fst (add d m1) \<noteq> fst (add c m)"
    using add_fresh [OF ok1] by metis
  then show ?thesis
    using assms ok1 by (simp add: add_ok add_entries remove_entries fresh_filter)
qed

end

definition chains_ok :: "chain_mgr \<Rightarrow> bool" where
  "chains_ok m \<longleftrightarrow> distinct (map fst (recvChainByID m)) \<and> (\<forall>(k, c) \<in> set (recvChainByID m). k \<le> chainIDAcc m) \<and>
     (\<not> recvChainListDirty m \<longrightarrow> mset (recvChainList m) = mset (map snd (recvChainByID m)))"

definition chain_entries :: "chain_mgr \<Rightarrow> (int \<times> HandlerChain) multiset" where
  "chain_entries m = mset (recvChainByID m)"

lemma NewHandlerChainManager_ok: "chains_ok NewHandlerChainManager"
  by (simp add: chains_ok_def NewHandlerChainManager_def)

lemma AddChainRecv_ok: "chains_ok m \<Longrightarrow> chains_ok (snd (AddChainRecv c m))"
  by (fastforce simp: chains_ok_def AddChainRecv_def Let_def)

lemma RemoveChainRecv_ok: "chains_ok m \<Longrightarrow> chains_ok (RemoveChainRecv i m)"
  by (auto simp: chains_ok_def RemoveChainRecv_def distinct_map_filter)

interpretation chains: chain_table chains_ok AddChainRecv RemoveChainRecv chain_entries
proof
  fix m c d i
  assume ok: "chains_ok m"
  show "chains_ok (snd (AddChainRecv c m))" "chains_ok (RemoveChainRecv i m)"
    using ok by (simp_all add: AddChainRecv_ok RemoveChainRecv_ok)
  show "chain_entries (snd (AddChainRecv c m)) = add_mset (fst (AddChainRecv c m), c) (chain_entries m)"
    by (simp add: chain_entries_def AddChainRecv_def Let_def)
  show "(fst (AddChainRecv c m), d) \<notin># chain_entries m"
    using ok by (fastforce simp: chain_entries_def AddChainRecv_def Let_def chains_ok_def)
  show "chain_entries (RemoveChainRecv i m) = filter_mset (\<lambda>(k, c). k \<noteq> i) (chain_entries m)"
    by (simp add: chain_entries_def RemoveChainRecv_def)
qed

lemma ChainListRecv_ok:
  assumes "\<forall>xs. mset (ord xs) = mset xs" "chains_ok m"
  shows "chains_ok (snd (ChainListRecv ord m))" "chain_entries (snd (ChainListRecv ord m)) = chain_entries m"
    "mset (fst (ChainListRecv ord m)) = image_mset snd (chain_entries m)"
  using assms by (auto simp: chains_ok_def ChainListRecv_def chain_entries_def Let_def)

text \<open>
  The receive chains of a peer. The list that the dispatch runs over is, whatever the order
  of the map iteration, exactly the registered chains, through the cache and its dirty flag;
  adding a chain and removing it by the number it got restores the table, also when another
  chain was added in between, which stays.
\<close>

theorem ChainListRecv_current:
  assumes "chains_ok m" "\<forall>xs. mset (ord xs) = mset xs"
  shows "mset (fst (ChainListRecv ord m)) = image_mset snd (chain_entries m) \<and>
    mset (fst (ChainListRecv ord (snd (AddChainRecv c m)))) = add_mset c (image_mset snd (chain_entries m)) \<and>
    mset (fst (ChainListRecv ord (RemoveChainRecv (fst (AddChainRecv c m)) (snd (AddChainRecv c m))))) =
      image_mset snd (chain_entries m) \<and>
    mset (fst (ChainListRecv ord (RemoveChainRecv (fst (AddChainRecv c m))
      (snd (AddChainRecv d (snd (AddChainRecv c m))))))) = add_mset d (image_mset snd (chain_entries m))"
  using assms chains.add_remove [OF assms(1), of c] chains.add_add_remove [OF assms(1) refl, of c d]
    chains.add_entries [OF assms(1), of c]
  by (simp add: ChainListRecv_ok(3) AddChainRecv_ok RemoveChainRecv_ok)

theorem ChainListRecv_current_witness:
  "mset (fst (ChainListRecv rev (snd (AddChainRecv match7 (snd (AddChainRecv match8 NewHandlerChainManager)))))) =
     {#match7, match8#}"
proof -
  let ?m = "snd (AddChainRecv match8 NewHandlerChainManager)"
  have "chain_entries ?m = {#(1, match8)#}"
    by (simp add: chain_entries_def AddChainRecv_def NewHandlerChainManager_def)
  then show ?thesis
    using ChainListRecv_current [OF AddChainRecv_ok [OF NewHandlerChainManager_ok], of rev match8 match7 match7]
    by simp
qed

end
