(* ===== verification/Cellnet_Session.thy ===== *)
theory Cellnet_Session
  imports Cellnet_Handler
begin

text \<open>
  The session manager (\<^verbatim>\<open>sesmgr.go\<close>) and the shared data of a peer (\<^verbatim>\<open>peerprofile.go\<close>).
  The manager is a table from 64-bit session numbers to sessions; its mutex makes every
  operation one step. The accumulator wraps around, so \<^verbatim>\<open>Add\<close> looks for a free number, a
  hundred times at most.
\<close>

section \<open>The profile of a peer\<close>

definition IsRunning :: "peer \<Rightarrow> bool" where
  "IsRunning p = pRunning p"

definition SetRunning :: "bool \<Rightarrow> peer \<Rightarrow> peer" where
  "SetRunning v p = p\<lparr>pRunning := v\<rparr>"

definition NameOrAddress :: "peer \<Rightarrow> string" where
  "NameOrAddress p = (if pName p \<noteq> [] then pName p else pAddress p)"

definition SetAddress :: "string \<Rightarrow> peer \<Rightarrow> peer" where
  "SetAddress a p = p\<lparr>pAddress := a\<rparr>"

definition SetName :: "string \<Rightarrow> peer \<Rightarrow> peer" where
  "SetName a p = p\<lparr>pName := a\<rparr>"

definition SetTag :: "any option \<Rightarrow> peer \<Rightarrow> peer" where
  "SetTag t p = p\<lparr>pTag := t\<rparr>"

section \<open>The session table\<close>

definition totalTryCount :: nat where
  "totalTryCount = 100"

text \<open>The loop of \<^verbatim>\<open>Add\<close>: the number found, the tries left, the accumulator.\<close>

fun findID :: "nat \<Rightarrow> 64 word \<Rightarrow> ses_mgr \<Rightarrow> 64 word \<times> nat \<times> ses_mgr" where
  "findID 0 i m = (i, 0, m)"
| "findID (Suc tryCount) i m =
     (let i = sesIDAcc m + 1; m = m\<lparr>sesIDAcc := i\<rparr>
      in if map_of (sesMap m) i = None then (i, Suc tryCount, m) else findID tryCount i m)"

text \<open>Storing under a key that is there replaces the entry.\<close>

definition store_session :: "64 word \<Rightarrow> nat \<Rightarrow> ses_mgr \<Rightarrow> ses_mgr" where
  "store_session i s m = m\<lparr>sesMap := filter (\<lambda>(k, _). k \<noteq> i) (sesMap m) @ [(i, s)]\<rparr>"

definition mgr_Add :: "nat \<Rightarrow> ses_mgr \<Rightarrow> 64 word \<times> ses_mgr" where
  "mgr_Add s m = (let (i, tryCount, m) = findID totalTryCount 0 m in (i, store_session i s m))"

definition Add :: "nat \<Rightarrow> nat \<Rightarrow> net \<Rightarrow> net" where
  "Add p s n =
     (let (i, m) = mgr_Add s (pSessions (peers n ! p))
      in upd_peer p (\<lambda>pe. pe\<lparr>pSessions := m\<rparr>) (upd_session s (\<lambda>ses. ses\<lparr>sID := i\<rparr>) n))"

definition mgr_Remove :: "64 word \<Rightarrow> ses_mgr \<Rightarrow> ses_mgr" where
  "mgr_Remove i m = m\<lparr>sesMap := filter (\<lambda>(k, _). k \<noteq> i) (sesMap m)\<rparr>"

definition Remove :: "nat \<Rightarrow> nat \<Rightarrow> net \<Rightarrow> net" where
  "Remove p s n =
     upd_peer p (\<lambda>pe. pe\<lparr>pSessions := mgr_Remove (sID (sessions n ! s)) (pSessions pe)\<rparr>) n"

definition GetSession :: "64 word \<Rightarrow> ses_mgr \<Rightarrow> nat option" where
  "GetSession i m = map_of (sesMap m) i"

definition SessionCount :: "ses_mgr \<Rightarrow> nat" where
  "SessionCount m = length (sesMap m)"

text \<open>The sessions in the order in which the loop over the map happens to see them.\<close>

fun visit :: "(nat \<Rightarrow> net \<Rightarrow> bool \<times> net) \<Rightarrow> nat list \<Rightarrow> net \<Rightarrow> net" where
  "visit f [] n = n"
| "visit f (s # ss) n = (let (go_on, n) = f s n in if go_on then visit f ss n else n)"

definition VisitSession :: "(nat list \<Rightarrow> nat list) \<Rightarrow> nat \<Rightarrow> (nat \<Rightarrow> net \<Rightarrow> bool \<times> net) \<Rightarrow> net \<Rightarrow> net" where
  "VisitSession ord p f n = visit f (ord (map snd (sesMap (pSessions (peers n ! p))))) n"

definition NewSessionManager :: ses_mgr where
  "NewSessionManager = \<lparr>sesMap = [], sesIDAcc = 0\<rparr>"

text \<open>Closing a session: \<^verbatim>\<open>nil\<close> is put behind the events that wait to be written.\<close>

definition Close :: "nat \<Rightarrow> net \<Rightarrow> net" where
  "Close s = upd_session s (\<lambda>ses. ses\<lparr>sSendList := sSendList ses @ [None]\<rparr>)"

definition CloseAllSession :: "(nat list \<Rightarrow> nat list) \<Rightarrow> nat \<Rightarrow> net \<Rightarrow> net" where
  "CloseAllSession ord p n = VisitSession ord p (\<lambda>s n. (True, Close s n)) n"

section \<open>Finding a number\<close>

definition sessions_ok :: "ses_mgr \<Rightarrow> bool" where
  "sessions_ok m \<longleftrightarrow> distinct (map fst (sesMap m))"

lemma findID_table [simp]: "sesMap (snd (snd (findID k i m))) = sesMap m"
  by (induction k i m rule: findID.induct) (simp_all add: Let_def)

lemma findID_spec:
  assumes "\<forall>j < t. map_of (sesMap m) (sesIDAcc m + 1 + word_of_nat j) \<noteq> None"
    and "map_of (sesMap m) (sesIDAcc m + 1 + word_of_nat t) = None" "t < k"
  shows "findID k i m = (sesIDAcc m + 1 + word_of_nat t, k - t, m\<lparr>sesIDAcc := sesIDAcc m + 1 + word_of_nat t\<rparr>)"
  using assms
proof (induction k i m arbitrary: t rule: findID.induct)
  case (2 k i m)
  show ?case
  proof (cases t)
    case 0
    with 2 show ?thesis by (simp add: Let_def)
  next
    case (Suc u)
    let ?m = "m\<lparr>sesIDAcc := sesIDAcc m + 1\<rparr>"
    have taken: "map_of (sesMap m) (sesIDAcc m + 1) \<noteq> None"
      using 2(2)[rule_format, of 0] Suc by simp
    have "\<forall>j < u. map_of (sesMap ?m) (sesIDAcc ?m + 1 + word_of_nat j) \<noteq> None"
      using 2(2)[rule_format, of "Suc j" for j] Suc by (simp add: ac_simps)
    moreover have "map_of (sesMap ?m) (sesIDAcc ?m + 1 + word_of_nat u) = None"
      using 2(3) Suc by (simp add: ac_simps)
    ultimately show ?thesis
      using 2(1)[of "sesIDAcc m + 1" ?m u] 2(4) taken Suc by (auto simp: Let_def ac_simps)
  qed
qed simp

lemma findID_exhausted:
  assumes "\<forall>j < k. map_of (sesMap m) (sesIDAcc m + 1 + word_of_nat j) \<noteq> None" "0 < k"
  shows "findID k i m = (sesIDAcc m + word_of_nat k, 0, m\<lparr>sesIDAcc := sesIDAcc m + word_of_nat k\<rparr>)"
  using assms
proof (induction k i m rule: findID.induct)
  case (2 k i m)
  let ?m = "m\<lparr>sesIDAcc := sesIDAcc m + 1\<rparr>"
  have taken: "map_of (sesMap m) (sesIDAcc m + 1) \<noteq> None"
    using 2(2)[rule_format, of 0] by simp
  show ?case
  proof (cases "k = 0")
    case True
    with taken show ?thesis by (simp add: Let_def)
  next
    case False
    have "\<forall>j < k. map_of (sesMap ?m) (sesIDAcc ?m + 1 + word_of_nat j) \<noteq> None"
      using 2(2)[rule_format, of "Suc j" for j] by (simp add: ac_simps)
    then show ?thesis
      using 2(1)[of "sesIDAcc m + 1" ?m] taken False by (simp add: Let_def ac_simps)
  qed
qed simp

lemma store_session_ok: "sessions_ok m \<Longrightarrow> sessions_ok (store_session i s m)"
  by (auto simp: sessions_ok_def store_session_def distinct_map_filter)

lemma map_of_filter_key: "map_of (filter (\<lambda>(k, _). k \<noteq> i) xs) j = (if j = i then None else map_of xs j)"
  by (induction xs) auto

lemma GetSession_store: "GetSession j (store_session i s m) = (if j = i then Some s else GetSession j m)"
  by (simp add: GetSession_def store_session_def map_add_def map_of_filter_key split: option.split)

lemma GetSession_mgr_Remove: "GetSession j (mgr_Remove i m) = (if j = i then None else GetSession j m)"
  by (simp add: GetSession_def mgr_Remove_def map_of_filter_key)

lemma mgr_Remove_ok: "sessions_ok m \<Longrightarrow> sessions_ok (mgr_Remove i m)"
  by (auto simp: sessions_ok_def mgr_Remove_def distinct_map_filter)

lemma filter_absent: "map_of xs i = None \<Longrightarrow> filter (\<lambda>(k, _). k \<noteq> i) xs = xs"
  by (induction xs) (auto split: if_splits)

lemma length_filter_key:
  "distinct (map fst xs) \<Longrightarrow> map_of xs i \<noteq> None \<Longrightarrow> length (filter (\<lambda>(k, _). k \<noteq> i) xs) = length xs - 1"
proof (induction xs)
  case (Cons x xs)
  show ?case
  proof (cases "fst x = i")
    case True
    with Cons.prems have "map_of xs i = None"
      by (auto simp: map_of_eq_None_iff)
    with True show ?thesis
      by (simp add: case_prod_beta filter_absent [unfolded case_prod_beta])
  next
    case False
    with Cons show ?thesis
      by (cases xs) (auto simp: case_prod_beta split: if_splits)
  qed
qed simp

lemma GetSession_findID: "GetSession j (snd (snd (findID k i m))) = GetSession j m"
  by (simp add: GetSession_def)

text \<open>
  Adding a session. When one of the hundred numbers after the accumulator is free, the
  session gets the first free one, in wrap-around order, every other session keeps its entry
  and the table has one entry more; when all of them are taken, the session gets the last
  of them and the session that had it is lost from the table, which does not grow.
\<close>

theorem mgr_Add_spec:
  assumes ok: "sessions_ok m"
    and first: "\<forall>j < t. GetSession (sesIDAcc m + 1 + word_of_nat j) m \<noteq> None"
    and stop: "t < 100 \<and> GetSession (sesIDAcc m + 1 + word_of_nat t) m = None \<or> t = 100"
    and add: "mgr_Add s m = (i, m')"
  shows "sessions_ok m' \<and> GetSession i m' = Some s \<and> (\<forall>j. j \<noteq> i \<longrightarrow> GetSession j m' = GetSession j m) \<and>
    (if t < 100
     then i = sesIDAcc m + 1 + word_of_nat t \<and> GetSession i m = None \<and> SessionCount m' = SessionCount m + 1
     else i = sesIDAcc m + 100 \<and> GetSession i m \<noteq> None \<and> SessionCount m' = SessionCount m)"
proof -
  note first' = first [unfolded GetSession_def]
  have gen: "sessions_ok m' \<and> GetSession i m' = Some s \<and> (\<forall>j. j \<noteq> i \<longrightarrow> GetSession j m' = GetSession j m)"
    if "findID 100 0 m = (i, k, m1)" for k m1
    using that add ok GetSession_findID [of _ 100 0 m] findID_table [of 100 0 m]
      store_session_ok [of m1 i s] GetSession_store [of _ i s m1]
    by (auto simp: mgr_Add_def totalTryCount_def sessions_ok_def)
  show ?thesis
  proof (cases "t < 100")
    case True
    then have free: "map_of (sesMap m) (sesIDAcc m + 1 + word_of_nat t) = None"
      using stop by (simp add: GetSession_def)
    from findID_spec [OF first' free True, of 0] have f: "findID 100 0 m =
        (sesIDAcc m + 1 + word_of_nat t, 100 - t, m\<lparr>sesIDAcc := sesIDAcc m + 1 + word_of_nat t\<rparr>)" .
    with add have "i = sesIDAcc m + 1 + word_of_nat t"
      "m' = store_session i s (m\<lparr>sesIDAcc := sesIDAcc m + 1 + word_of_nat t\<rparr>)"
      by (auto simp: mgr_Add_def totalTryCount_def)
    with gen f free True show ?thesis
      by (auto simp: GetSession_def SessionCount_def store_session_def filter_absent)
  next
    case False
    with stop have t: "t = 100"
      by simp
    from findID_exhausted [of 100 m 0] first' t have f: "findID 100 0 m =
        (sesIDAcc m + 100, 0, m\<lparr>sesIDAcc := sesIDAcc m + 100\<rparr>)"
      by simp
    with add have i: "i = sesIDAcc m + 100" and m': "m' = store_session i s (m\<lparr>sesIDAcc := sesIDAcc m + 100\<rparr>)"
      by (auto simp: mgr_Add_def totalTryCount_def)
    have taken: "map_of (sesMap m) i \<noteq> None"
      using first' [rule_format, of 99] t i by (simp add: ac_simps)
    have "length (filter (\<lambda>(k, _). k \<noteq> i) (sesMap m)) = length (sesMap m) - 1"
      using ok taken by (simp add: sessions_ok_def length_filter_key)
    moreover have "sesMap m \<noteq> []"
      using taken by auto
    ultimately have "SessionCount m' = SessionCount m"
      using ok taken m' by (simp add: SessionCount_def store_session_def sessions_ok_def)
    with gen f i taken t show ?thesis
      by (auto simp: GetSession_def)
  qed
qed

theorem mgr_Add_spec_witness:
  "mgr_Add 7 \<lparr>sesMap = [(3, 1), (0, 5)], sesIDAcc = 2\<rparr> = (4, \<lparr>sesMap = [(3, 1), (0, 5), (4, 7)], sesIDAcc = 4\<rparr>) \<and>
   GetSession 4 (snd (mgr_Add 7 \<lparr>sesMap = [(3, 1), (0, 5)], sesIDAcc = 2\<rparr>)) = Some 7"
proof -
  let ?m = "\<lparr>sesMap = [(3, 1), (0, 5)], sesIDAcc = 2\<rparr> :: ses_mgr"
  have add: "mgr_Add 7 ?m = (4, \<lparr>sesMap = [(3, 1), (0, 5), (4, 7)], sesIDAcc = 4\<rparr>)"
    using findID_spec [of 1 ?m 100 0] by (simp add: mgr_Add_def totalTryCount_def store_session_def)
  have ok: "sessions_ok ?m"
    by (simp add: sessions_ok_def)
  show ?thesis
    using mgr_Add_spec [OF ok, of 1, OF _ _ add] add by (simp add: GetSession_def)
qed

section \<open>Closing all sessions\<close>

lemma visit_Close:
  "distinct ss \<Longrightarrow> \<forall>s \<in> set ss. s < length (sessions n) \<Longrightarrow> i < length (sessions n) \<Longrightarrow>
     sessions (visit (\<lambda>s n. (True, Close s n)) ss n) ! i =
       (if i \<in> set ss then (sessions n ! i)\<lparr>sSendList := sSendList (sessions n ! i) @ [None]\<rparr> else sessions n ! i)"
  by (induction ss arbitrary: n) (auto simp: Close_def upd_session_def nth_list_update)

text \<open>
  \<^verbatim>\<open>CloseAllSession\<close> asks every session of the table to close, behind what it still has to
  write, once each, and touches no other session, whatever the order of the map iteration.
\<close>

theorem CloseAllSession_closes:
  assumes "\<forall>xs. mset (ord xs) = mset xs" "i < length (sessions n)"
    and "distinct (map snd (sesMap (pSessions (peers n ! p))))"
    and "\<forall>(k, s) \<in> set (sesMap (pSessions (peers n ! p))). s < length (sessions n)"
  shows "sessions (CloseAllSession ord p n) ! i =
    (if \<exists>k. (k, i) \<in> set (sesMap (pSessions (peers n ! p)))
     then (sessions n ! i)\<lparr>sSendList := sSendList (sessions n ! i) @ [None]\<rparr> else sessions n ! i)"
proof -
  let ?ss = "map snd (sesMap (pSessions (peers n ! p)))"
  have perm: "mset (ord ?ss) = mset ?ss"
    using assms(1) by blast
  then have "set (ord ?ss) = set ?ss" "distinct (ord ?ss)"
    using assms(3) by (metis set_mset_mset, metis mset_eq_imp_distinct_iff)
  moreover have "(\<exists>k. (k, i) \<in> set (sesMap (pSessions (peers n ! p)))) \<longleftrightarrow> i \<in> set ?ss"
    by force
  moreover have "\<forall>s \<in> set ?ss. s < length (sessions n)"
    using assms(4) by auto
  ultimately show ?thesis
    using visit_Close [of "ord ?ss" n i] assms(2) by (simp only: CloseAllSession_def VisitSession_def)
qed

definition idle_conn :: conn where
  "idle_conn = \<lparr>cIn = [], cOut = [], cClosed = False\<rparr>"

definition idle_session :: session where
  "idle_session = \<lparr>sID = 1, sPeer = 0, sNeedNotifyWrite = True, sSendList = [], sConn = idle_conn,
     sTag = None, sReadChain = HandlerChain 0 [], sWriteChain = HandlerChain 0 []\<rparr>"

definition idle_peer :: peer where
  "idle_peer = \<lparr>pName = [], pAddress = [], pTag = None, pRunning = True, pQueue = None,
     pChains = NewHandlerChainManager, pSessions = \<lparr>sesMap = [(1, 0)], sesIDAcc = 1\<rparr>,
     pOptions = \<lparr>maxPacketSize = 0, connReadBuffer = -1, connWriteBuffer = -1, connNoDelay = False,
        connReadTimeout = 0, connWriteTimeout = 0\<rparr>\<rparr>"

theorem CloseAllSession_closes_witness:
  "sSendList (sessions (CloseAllSession rev 0 (empty_net\<lparr>peers := [idle_peer], sessions := [idle_session]\<rparr>)) ! 0) = [None]"
  using CloseAllSession_closes [of rev 0 "empty_net\<lparr>peers := [idle_peer], sessions := [idle_session]\<rparr>" 0]
  by (simp add: idle_peer_def idle_session_def)

end
