(* ===== verification/Cellnet_Socket.thy ===== *)
theory Cellnet_Socket
  imports Cellnet_Packet
begin

text \<open>
  The socket package: options, the peer's defaults, sessions with their send list, the rounds of
  the receive and the send thread, and the system events (\<^verbatim>\<open>extend/sysevent.go\<close>). A thread is
  modelled by its rounds: one definition is one turn of its loop, from the start of the body to
  the next, and the interleaving of the threads with each other and with the application is the
  step relation of the theory on session lifetimes. Deadlines are not modelled beyond their
  effect, which is that reading past the bytes that have arrived is an error.
\<close>

section \<open>Options\<close>

definition SetMaxPacketSize :: "int \<Rightarrow> socket_options \<Rightarrow> socket_options" where
  "SetMaxPacketSize sz opts = opts\<lparr>maxPacketSize := sz\<rparr>"

definition SetSocketDeadline :: "int \<Rightarrow> int \<Rightarrow> socket_options \<Rightarrow> socket_options" where
  "SetSocketDeadline rd wr opts = opts\<lparr>connReadTimeout := rd, connWriteTimeout := wr\<rparr>"

definition SocketDeadline :: "socket_options \<Rightarrow> int \<times> int" where
  "SocketDeadline opts = (connReadTimeout opts, connWriteTimeout opts)"

definition SetSocketOption :: "int \<Rightarrow> int \<Rightarrow> bool \<Rightarrow> socket_options \<Rightarrow> socket_options" where
  "SetSocketOption readBufferSize writeBufferSize nodelay opts =
     opts\<lparr>connReadBuffer := readBufferSize, connWriteBuffer := writeBufferSize, connNoDelay := nodelay\<rparr>"

text \<open>The calls that \<^verbatim>\<open>Apply\<close> makes on a TCP connection, in order.\<close>

datatype conn_call = SetReadBuffer int | SetWriteBuffer int | SetNoDelay bool

definition Apply :: "bool \<Rightarrow> socket_options \<Rightarrow> conn_call list" where
  "Apply is_tcp opts =
     (if is_tcp
      then (if connReadBuffer opts \<ge> 0 then [SetReadBuffer (connReadBuffer opts)] else []) @
           (if connWriteBuffer opts \<ge> 0 then [SetWriteBuffer (connWriteBuffer opts)] else []) @
           [SetNoDelay (connNoDelay opts)]
      else [])"

definition newSocketOptions :: socket_options where
  "newSocketOptions = \<lparr>maxPacketSize = 0, connReadBuffer = -1, connWriteBuffer = -1,
     connNoDelay = False, connReadTimeout = 0, connWriteTimeout = 0\<rparr>"

section \<open>Peers\<close>

text \<open>A network error that says whether it is a timeout; \<open>None\<close> is no error.\<close>

definition socket_errToResult :: "bool option \<Rightarrow> Result" where
  "socket_errToResult err =
     (case err of
        None \<Rightarrow> Result_OK
      | Some timeout \<Rightarrow> if timeout then Result_SocketTimeout else Result_SocketError)"

definition newSocketPeer :: "nat option \<Rightarrow> ses_mgr \<Rightarrow> net \<Rightarrow> peer \<times> net" where
  "newSocketPeer queue sm n =
     (let (c, n) = NewHandlerChain [[EncodePacketHandler]] n;
          m = SetReadWriteChain [MakeFrameReader 10, MakePacketReader] [MakePacketWriter, MakeFrameWriter]
                (SetChainSend c NewHandlerChainManager)
      in (\<lparr>pName = [], pAddress = [], pTag = None, pRunning = False, pQueue = queue,
           pChains = m, pSessions = sm, pOptions = newSocketOptions\<rparr>, n))"

section \<open>Sessions\<close>

definition newSession :: "conn \<Rightarrow> nat \<Rightarrow> net \<Rightarrow> (nat \<times> net) run" where
  "newSession c p n =
     bind_go (CreateChainRead p n) (\<lambda>(rc, n).
     bind_go (CreateChainWrite p n) (\<lambda>(wc, n).
     Ok (length (sessions n),
         n\<lparr>sessions := sessions n @ [\<lparr>sID = 0, sPeer = p, sNeedNotifyWrite = True, sSendList = [],
            sConn = c, sTag = None, sReadChain = rc, sWriteChain = wc\<rparr>]\<rparr>)))"

definition RawSend :: "callbacks \<Rightarrow> nat \<Rightarrow> nat \<Rightarrow> net \<Rightarrow> net run" where
  "RawSend cb s a n =
     (if evType (event n a) \<noteq> Event_Send then Panic (Explicit ''invalid event type, require Event_Send'')
      else
        let n = upd_event a (\<lambda>ev. ev\<lparr>evSes := Some s\<rparr>) n
        in bind_go (case evChainSend (event n a) of
                      Some c \<Rightarrow> HandlerChain_Call cb c a n
                    | None \<Rightarrow> Ok n) (\<lambda>n.
           bind_go (MsgLog a n) (\<lambda>n.
           Ok (upd_session s (\<lambda>ses. ses\<lparr>sSendList := sSendList ses @ [Some a]\<rparr>) n))))"

definition Send :: "callbacks \<Rightarrow> nat \<Rightarrow> message option \<Rightarrow> net \<Rightarrow> net run" where
  "Send cb s data n =
     (let (a, n) = NewEvent Event_Send (Some s) n;
          n = upd_event a (\<lambda>ev. ev\<lparr>evMsg := data\<rparr>) n;
          n = (if evChainSend (event n a) = None
               then upd_event a (\<lambda>ev. ev\<lparr>evChainSend := ChainSend (pChains (peers n ! sPeer (sessions n ! s)))\<rparr>) n
               else n)
      in RawSend cb s a n)"

text \<open>
  \<^verbatim>\<open>Event.Send\<close>, the reply to an event: through the chain that the receiver put into the event,
  else through that of the peer.
\<close>

definition Event_Reply :: "callbacks \<Rightarrow> nat \<Rightarrow> message option \<Rightarrow> net \<Rightarrow> net run" where
  "Event_Reply cb e data n =
     (case evSes (event n e) of
        None \<Rightarrow> Ok n
      | Some s \<Rightarrow>
          (let (a, n) = NewEvent Event_Send (Some s) n;
               chain = (case evChainSend (event n e) of
                          Some c \<Rightarrow> Some c
                        | None \<Rightarrow> ChainSend (pChains (peers n ! sPeer (sessions n ! s))))
           in RawSend cb s a (upd_event a (\<lambda>ev. ev\<lparr>evMsg := data, evTransmitTag := evTransmitTag (event n e),
                evChainSend := chain\<rparr>) n)))"

section \<open>The send list\<close>

text \<open>The loop of \<^verbatim>\<open>Pick\<close>: the events up to the first \<^verbatim>\<open>nil\<close>, and whether there was one.\<close>

fun pick_loop :: "nat option list \<Rightarrow> nat list \<times> bool" where
  "pick_loop [] = ([], False)"
| "pick_loop (None # evs) = ([], True)"
| "pick_loop (Some a # evs) = (let (ret, exit) = pick_loop evs in (a # ret, exit))"

text \<open>\<open>None\<close> while the list is empty: the caller waits. What stood behind a \<^verbatim>\<open>nil\<close> is dropped.\<close>

definition Pick :: "nat \<Rightarrow> net \<Rightarrow> ((nat list \<times> bool) \<times> net) option" where
  "Pick s n =
     (if sSendList (sessions n ! s) = [] then None
      else Some (pick_loop (sSendList (sessions n ! s)), upd_session s (\<lambda>ses. ses\<lparr>sSendList := []\<rparr>) n))"

text \<open>The loop over the picked events; a failed write does not stop it.\<close>

fun write_list :: "callbacks \<Rightarrow> nat \<Rightarrow> nat list \<Rightarrow> bool \<Rightarrow> net \<Rightarrow> (bool \<times> net) run" where
  "write_list cb s [] willExit n = Ok (willExit, n)"
| "write_list cb s (a # as) willExit n =
     bind_go (HandlerChain_Call cb (sWriteChain (sessions n ! s)) a n) (\<lambda>n.
     write_list cb s as (willExit \<or> Result_of n a \<noteq> Result_OK) n)"

text \<open>One turn of \<^verbatim>\<open>sendThread\<close>: \<open>None\<close> when it waits, otherwise whether the loop goes on.\<close>

definition send_round :: "callbacks \<Rightarrow> nat \<Rightarrow> net \<Rightarrow> (bool \<times> net) run option" where
  "send_round cb s n =
     (case Pick s n of
        None \<Rightarrow> None
      | Some ((writeList, willExit), n) \<Rightarrow>
          Some (bind_go (write_list cb s writeList willExit n) (\<lambda>(willExit, n). Ok (\<not> willExit, n))))"

text \<open>What \<^verbatim>\<open>sendThread\<close> does after its loop.\<close>

definition send_exit :: "nat \<Rightarrow> net \<Rightarrow> net" where
  "send_exit s = upd_session s (\<lambda>ses. ses\<lparr>sNeedNotifyWrite := False, sConn := (sConn ses)\<lparr>cClosed := True\<rparr>\<rparr>)"

section \<open>System events\<close>

fun result_code :: "Result \<Rightarrow> u64" where
  "result_code Result_OK = 0"
| "result_code Result_SocketError = 1"
| "result_code Result_SocketTimeout = 2"
| "result_code Result_PackageCrack = 3"
| "result_code Result_CodecError = 4"
| "result_code Result_RequestClose = 5"
| "result_code Result_NextChain = 6"

definition result_message :: "string \<Rightarrow> Result \<Rightarrow> message" where
  "result_message t r = \<lparr>mType = t, mPtr = True, mBody = [GInt KInt32 (result_code r)]\<rparr>"

text \<open>
  The two message types that the package looks up when it is initialised, after the
  registration of \<^verbatim>\<open>coredef\<close>; a missing one is a nil dereference.
\<close>

definition set_meta_id :: "string \<Rightarrow> nat \<Rightarrow> net \<Rightarrow> net run" where
  "set_meta_id name a n =
     (case MessageMetaByName n name of
        None \<Rightarrow> Panic NilDereference
      | Some meta \<Rightarrow> Ok (upd_event a (\<lambda>ev. ev\<lparr>evMsgID := meta_ID meta\<rparr>) n))"

definition PostSystemEvent ::
  "callbacks \<Rightarrow> nat option \<Rightarrow> EventType \<Rightarrow> HandlerChain list \<Rightarrow> Result \<Rightarrow> net \<Rightarrow> net run" where
  "PostSystemEvent cb ses t cs r n =
     (let (a, n) = NewEvent t ses n
      in bind_go
           (case t of
              Event_Closed \<Rightarrow> FromMessage (result_message ''SessionClosed'' r) a n
            | Event_AcceptFailed \<Rightarrow> FromMessage (result_message ''SessionAcceptFailed'' r) a n
            | Event_ConnectFailed \<Rightarrow> FromMessage (result_message ''SessionConnectFailed'' r) a n
            | Event_Accepted \<Rightarrow> set_meta_id ''coredef.SessionAccepted'' a n
            | Event_Connected \<Rightarrow> set_meta_id ''coredef.SessionConnected'' a n
            | _ \<Rightarrow> Panic (Explicit ''unknown system error'')) (\<lambda>n.
         bind_go (MsgLog a n) (\<lambda>n.
         HandlerChainList_Call cb cs a n)))"

section \<open>The receive thread\<close>

text \<open>The list of the receive chains, through the cache of the peer of the session.\<close>

definition peer_chains :: "chain_order \<Rightarrow> nat \<Rightarrow> net \<Rightarrow> HandlerChain list \<times> net" where
  "peer_chains ord p n =
     (let (cs, m) = ChainListRecv ord (pChains (peers n ! p))
      in (cs, upd_peer p (\<lambda>pe. pe\<lparr>pChains := m\<rparr>) n))"

definition recv_onClose :: "callbacks \<Rightarrow> chain_order \<Rightarrow> nat \<Rightarrow> nat \<Rightarrow> net \<Rightarrow> (bool \<times> net) run" where
  "recv_onClose cb ord s a n =
     (let (cs, n) = peer_chains ord (sPeer (sessions n ! s)) n
      in bind_go (PostSystemEvent cb (evSes (event n a)) Event_Closed cs (Result_of n a) n) (\<lambda>n. Ok (False, n)))"

text \<open>One turn of \<^verbatim>\<open>recvThread\<close>: whether the loop goes on.\<close>

definition recv_round :: "callbacks \<Rightarrow> chain_order \<Rightarrow> nat \<Rightarrow> net \<Rightarrow> (bool \<times> net) run" where
  "recv_round cb ord s n =
     (let (a, n) = NewEvent Event_Recv (Some s) n
      in bind_go (HandlerChain_Call cb (sReadChain (sessions n ! s)) a n) (\<lambda>n.
         if Result_of n a \<noteq> Result_OK then recv_onClose cb ord s a n
         else bind_go (MsgLog a n) (\<lambda>n.
           let (cs, n) = peer_chains ord (sPeer (sessions n ! s)) n
           in bind_go (HandlerChainList_Call cb cs a n) (\<lambda>n.
              if Result_of n a \<noteq> Result_OK then recv_onClose cb ord s a n else Ok (True, n)))))"

text \<open>What \<^verbatim>\<open>recvThread\<close> does after its loop.\<close>

definition recv_exit :: "nat \<Rightarrow> net \<Rightarrow> net" where
  "recv_exit s n = (if sNeedNotifyWrite (sessions n ! s) then Close s n else n)"

section \<open>The chains of a session implement the packet protocol\<close>

definition conn_of :: "net \<Rightarrow> nat \<Rightarrow> conn" where
  "conn_of n s = sConn (sessions n ! s)"

definition data_of :: "Event \<Rightarrow> bytes" where
  "data_of ev = (case evData ev of Some d \<Rightarrow> d | None \<Rightarrow> [])"

definition packet_of :: "net \<Rightarrow> nat \<Rightarrow> u32 \<times> bytes" where
  "packet_of n a = (evMsgID (event n a), data_of (event n a))"

definition size_limit :: "net \<Rightarrow> nat \<Rightarrow> int" where
  "size_limit n s = maxPacketSize (pOptions (peers n ! sPeer (sessions n ! s)))"

definition write_ready :: "net \<Rightarrow> nat \<Rightarrow> nat \<Rightarrow> bool" where
  "write_ready n s k \<longleftrightarrow> s < length (sessions n) \<and> k < length (sers n) \<and> \<not> cClosed (conn_of n s) \<and>
     chain_list (sWriteChain (sessions n ! s)) = [PrivatePacketWriter k, FixedLengthFrameWriter]"

definition read_ready :: "net \<Rightarrow> nat \<Rightarrow> nat \<Rightarrow> nat \<Rightarrow> bool" where
  "read_ready n s f k \<longleftrightarrow> s < length (sessions n) \<and> k < length (sers n) \<and> f < length (frames n) \<and>
     length (frames n ! f) = 10 \<and> \<not> cClosed (conn_of n s) \<and>
     chain_list (sReadChain (sessions n ! s)) = [FixedLengthFrameReader f, PrivatePacketReader k]"

definition sendable :: "net \<Rightarrow> nat \<Rightarrow> nat \<Rightarrow> bool" where
  "sendable n s a \<longleftrightarrow> a < length (events n) \<and> evSes (event n a) = Some s \<and> Result_of n a = Result_OK"

definition after_write :: "nat \<Rightarrow> nat \<Rightarrow> nat \<Rightarrow> net \<Rightarrow> net" where
  "after_write s k a n =
     (let out = packet_enc (sers n ! k) (packet_of n a)
      in n\<lparr>events := (events n)[a := (event n a)\<lparr>evChainid := chain_id (sWriteChain (sessions n ! s)), evData := Some out\<rparr>],
           sers := (sers n)[k := sers n ! k + 1],
           sessions := (sessions n)[s := (sessions n ! s)\<lparr>sConn := (conn_of n s)\<lparr>cOut := cOut (conn_of n s) @ out\<rparr>\<rparr>]\<rparr>)"

lemma write_chain:
  assumes "write_ready n s k" "sendable n s a"
  shows "HandlerChain_Call cb (sWriteChain (sessions n ! s)) a n = Ok (after_write s k a n)"
  using assms
  by (simp add: write_ready_def sendable_def HandlerChain_Call_def PrivateWriter_Call_def FrameWriter_Call_def
      Let_def Result_of_def event_def upd_event_def conn_Write_def conn_of_def upd_session_def after_write_def
      packet_enc_def data_of_def packet_of_def)

lemma after_write_facts:
  assumes "write_ready n s k" "sendable n s a"
  shows "write_ready (after_write s k a n) s k" "b \<noteq> a \<Longrightarrow> sendable (after_write s k a n) s b = sendable n s b"
    "b \<noteq> a \<Longrightarrow> event (after_write s k a n) b = event n b" "Result_of (after_write s k a n) a = Result_OK"
    "sers (after_write s k a n) ! k = sers n ! k + 1"
    "cOut (conn_of (after_write s k a n) s) =
       cOut (conn_of n s) @ packet_enc (sers n ! k) (packet_of n a)"
  using assms by (simp_all add: after_write_def Let_def write_ready_def sendable_def event_def Result_of_def conn_of_def)

lemma write_list_stream:
  assumes "write_ready n s k" "distinct as" "\<forall>a \<in> set as. sendable n s a"
  shows "\<exists>n'. write_list cb s as e n = Ok (e, n') \<and> write_ready n' s k \<and>
    sers n' ! k = sers n ! k + word_of_nat (length as) \<and>
    cOut (conn_of n' s) = cOut (conn_of n s) @
      packet_stream (sers n ! k) (map (packet_of n) as)"
  using assms
proof (induction as arbitrary: n)
  case (Cons a as)
  let ?n = "after_write s k a n"
  have a: "sendable n s a"
    using Cons.prems by simp
  note facts = after_write_facts [OF Cons.prems(1) a]
  have "\<forall>b \<in> set as. sendable ?n s b" and same: "\<forall>b \<in> set as. event ?n b = event n b"
    using Cons.prems(2,3) facts(2,3) by (metis distinct.simps(2) list.set_intros(2), metis distinct.simps(2))
  then obtain n' where "write_list cb s as e ?n = Ok (e, n')" "write_ready n' s k"
    "sers n' ! k = sers ?n ! k + word_of_nat (length as)"
    and out: "cOut (conn_of n' s) = cOut (conn_of ?n s) @
      packet_stream (sers ?n ! k) (map (packet_of ?n) as)"
    using Cons.IH [of ?n] Cons.prems(2) facts(1) by auto
  moreover have "map (packet_of ?n) as = map (packet_of n) as"
    using same by (simp add: packet_of_def)
  note out [unfolded this]
  ultimately show ?case
    using write_chain [OF Cons.prems(1) a, of cb] facts(4-6) by (simp add: ac_simps)
qed simp

definition after_read :: "nat \<Rightarrow> nat \<Rightarrow> nat \<Rightarrow> nat \<Rightarrow> u32 \<times> bytes \<Rightarrow> bytes \<Rightarrow> net \<Rightarrow> net" where
  "after_read s f k a p rest n =
     n\<lparr>events := (events n)[a := (event n a)\<lparr>evChainid := chain_id (sReadChain (sessions n ! s)),
          evMsgID := fst p, evData := Some (snd p)\<rparr>],
       frames := (frames n)[f := take 10 (cIn (conn_of n s))],
       sers := (sers n)[k := sers n ! k + 1],
       sessions := (sessions n)[s := (sessions n ! s)\<lparr>sConn := (conn_of n s)\<lparr>cIn := rest\<rparr>\<rparr>]\<rparr>"

lemma header_reads:
  "drop 2 (take 10 bs) = take 8 (drop 2 bs)" "drop 6 (take 10 bs) = take 4 (drop 6 bs)"
  "10 \<le> length bs \<Longrightarrow> readUint16 (take 10 bs) = readUint16 bs"
  "10 \<le> length bs \<Longrightarrow> readUint32 (take 8 (drop 2 bs)) = readUint32 (drop 2 bs)"
  "10 \<le> length bs \<Longrightarrow> readUint32 (take 4 (drop 6 bs)) = readUint32 (drop 6 bs)"
  by (auto simp: drop_take readUint16_def readUint32_def go_nth_def)

lemma private_reader:
  assumes "evData (event n a) = Some (take 10 bs)" "10 \<le> length bs" "evSes (event n a) = Some s" "a < length (events n)"
    and "readUint16 bs = (Ok ser :: (net_error, u16) go)" "readUint32 (drop 2 bs) = (Ok i :: (net_error, u32) go)"
    and "readUint32 (drop 6 bs) = (Ok sz :: (net_error, u32) go)"
  shows "PrivateReader_Call k a n = Ok (PrivateReader_body k a s ser sz (upd_event a (\<lambda>ev. ev\<lparr>evMsgID := i\<rparr>) n))"
  using assms by (simp add: PrivateReader_Call_def header_reads Let_def)

text \<open>The state after the frame reader found ten bytes.\<close>

definition after_frame :: "nat \<Rightarrow> nat \<Rightarrow> nat \<Rightarrow> net \<Rightarrow> net" where
  "after_frame s f a n =
     n\<lparr>events := (events n)[a := (event n a)\<lparr>evChainid := chain_id (sReadChain (sessions n ! s)),
          evData := Some (take 10 (cIn (conn_of n s)))\<rparr>],
       frames := (frames n)[f := take 10 (cIn (conn_of n s))],
       sessions := (sessions n)[s := (sessions n ! s)\<lparr>sConn := (conn_of n s)\<lparr>cIn := drop 10 (cIn (conn_of n s))\<rparr>\<rparr>]\<rparr>"

lemma frame_reader:
  assumes "read_ready n s f k" "sendable n s a"
    and "n1 = upd_event a (\<lambda>ev. ev\<lparr>evChainid := chain_id (sReadChain (sessions n ! s))\<rparr>) n"
  shows "10 \<le> length (cIn (conn_of n s)) \<Longrightarrow> FrameReader_Call f a n1 = Ok (after_frame s f a n)"
    "length (cIn (conn_of n s)) < 10 \<Longrightarrow> \<exists>n'. FrameReader_Call f a n1 = Ok n' \<and> Result_of n' a = Result_SocketError"
  using assms by (auto simp: FrameReader_Call_def ReadFull_def Let_def upd_session_def upd_event_def event_def conn_of_def
      read_ready_def sendable_def SetResult_def Result_of_def after_frame_def)

lemma reader_body:
  assumes "read_ready n s f k" "sendable n s a" "10 \<le> length (cIn (conn_of n s))"
    and n'_def: "n' = PrivateReader_body k a s ser sz (upd_event a (\<lambda>ev. ev\<lparr>evMsgID := i\<rparr>) (after_frame s f a n))"
  shows "size_limit n s > 0 \<and> uint sz > size_limit n s \<or> ser \<noteq> sers n ! k \<or> length (drop 10 (cIn (conn_of n s))) < unat sz \<Longrightarrow>
      Result_of n' a = Result_PackageCrack"
    and "\<not> (size_limit n s > 0 \<and> uint sz > size_limit n s \<or> ser \<noteq> sers n ! k \<or> length (drop 10 (cIn (conn_of n s))) < unat sz) \<Longrightarrow>
      n' = after_read s f k a (i, take (unat sz) (drop 10 (cIn (conn_of n s)))) (drop (10 + unat sz) (cIn (conn_of n s))) n"
proof -
  let ?n = "upd_event a (\<lambda>ev. ev\<lparr>evMsgID := i\<rparr>) (after_frame s f a n)"
  have f: "maxPacketSize (pOptions (peers ?n ! sPeer (sessions ?n ! s))) = size_limit n s" "sers ?n = sers n"
    "sConn (sessions ?n ! s) = (conn_of n s)\<lparr>cIn := drop 10 (cIn (conn_of n s))\<rparr>" "a < length (events ?n)"
    "\<not> cClosed (conn_of n s)"
    using assms(1,2) by (simp_all add: after_frame_def upd_event_def size_limit_def read_ready_def sendable_def)
  have res: "a < length (events m) \<Longrightarrow> Result_of (SetResult r a m) a = r" for m r
    by (simp add: Result_of_def SetResult_def)
  show "Result_of n' a = Result_PackageCrack"
    if "size_limit n s > 0 \<and> uint sz > size_limit n s \<or> ser \<noteq> sers n ! k \<or> length (drop 10 (cIn (conn_of n s))) < unat sz"
  proof (cases "unat sz = 0")
    case True
    with that f show ?thesis
      unfolding n'_def PrivateReader_body_def by (auto simp: Let_def f res)
  next
    case False
    with that f show ?thesis
      unfolding n'_def PrivateReader_body_def by (auto simp: Let_def f res ReadFull_def upd_session_def)
  qed
  show "n' = after_read s f k a (i, take (unat sz) (drop 10 (cIn (conn_of n s)))) (drop (10 + unat sz) (cIn (conn_of n s))) n"
    if "\<not> (size_limit n s > 0 \<and> uint sz > size_limit n s \<or> ser \<noteq> sers n ! k \<or> length (drop 10 (cIn (conn_of n s))) < unat sz)"
  proof -
    have "ReadFull (unat sz) (sConn (sessions ?n ! s)) =
        (Some (take (unat sz) (drop 10 (cIn (conn_of n s)))), (conn_of n s)\<lparr>cIn := drop (10 + unat sz) (cIn (conn_of n s))\<rparr>)"
      using that by (auto simp: ReadFull_def f add.commute)
    then have "n' = upd_event a (\<lambda>ev. ev\<lparr>evData := Some (take (unat sz) (drop 10 (cIn (conn_of n s))))\<rparr>)
        ((upd_session s (\<lambda>ses. ses\<lparr>sConn := (conn_of n s)\<lparr>cIn := drop (10 + unat sz) (cIn (conn_of n s))\<rparr>\<rparr>) ?n)
          \<lparr>sers := (sers n)[k := sers n ! k + 1]\<rparr>)"
      using that unfolding n'_def PrivateReader_body_def by (auto simp: Let_def f upd_session_def)
    then show ?thesis
      using assms(1,2) by (simp add: after_read_def after_frame_def upd_event_def upd_session_def event_def
          read_ready_def sendable_def)
  qed
qed

lemma read_chain:
  assumes ready: "read_ready n s f k" and a: "sendable n s a"
  shows "\<exists>n'. HandlerChain_Call cb (sReadChain (sessions n ! s)) a n = Ok n' \<and>
    (case packet_dec (size_limit n s) (sers n ! k) (cIn (conn_of n s)) of
       Inl r \<Rightarrow> Result_of n' a = r
     | Inr (p, rest) \<Rightarrow> n' = after_read s f k a p rest n)"
proof (cases "length (cIn (conn_of n s)) < 10")
  case True
  then obtain n' where "FrameReader_Call f a (upd_event a (\<lambda>ev. ev\<lparr>evChainid := chain_id (sReadChain (sessions n ! s))\<rparr>) n) = Ok n'"
    "Result_of n' a = Result_SocketError"
    using frame_reader(2) [OF ready a refl] by blast
  with True ready show ?thesis
    by (simp add: packet_dec_def HandlerChain_Call_def read_ready_def)
next
  case False
  let ?bs = "cIn (conn_of n s)"
  obtain ser i sz where hdr: "readUint16 ?bs = (Ok ser :: (net_error, u16) go)"
    "readUint32 (drop 2 ?bs) = (Ok i :: (net_error, u32) go)" "readUint32 (drop 6 ?bs) = (Ok sz :: (net_error, u32) go)"
  proof -
    have "2 \<le> length ?bs" "4 \<le> length (drop 2 ?bs)" "4 \<le> length (drop 6 ?bs)"
      using False by simp_all
    then show thesis
      using that readUint16_total readUint32_total by blast
  qed
  let ?n = "PrivateReader_body k a s ser sz (upd_event a (\<lambda>ev. ev\<lparr>evMsgID := i\<rparr>) (after_frame s f a n))"
  have len: "10 \<le> length ?bs"
    using False by simp
  have "evData (event (after_frame s f a n) a) = Some (take 10 ?bs)" "evSes (event (after_frame s f a n) a) = Some s"
    "a < length (events (after_frame s f a n))" "Result_of (after_frame s f a n) a = Result_OK"
    using a by (simp_all add: after_frame_def event_def sendable_def Result_of_def)
  then have "HandlerChain_Call cb (sReadChain (sessions n ! s)) a n =
      bind_go (Ok ?n) (\<lambda>n. if Result_of n a = Result_NextChain then Ok (SetResult Result_OK a n) else Ok n)"
    using ready frame_reader(1) [OF ready a refl len] private_reader [OF _ len _ _ hdr, of "after_frame s f a n" a s k]
    by (simp add: HandlerChain_Call_def read_ready_def)
  moreover have "Result_of (after_read s f k a p rest n) a = Result_OK" for p rest
    using a by (simp add: after_read_def sendable_def event_def Result_of_def)
  ultimately show ?thesis
    using len reader_body [OF ready a len refl, of sz ser i] unfolding packet_dec_def hdr
    by (cases "size_limit n s > 0 \<and> uint sz > size_limit n s \<or> ser \<noteq> sers n ! k \<or> length (drop 10 ?bs) < unat sz") auto
qed

lemma after_read_facts:
  assumes "read_ready n s f k" "sendable n s a" "10 \<le> length (cIn (conn_of n s))"
  shows "read_ready (after_read s f k a p rest n) s f k"
    "packet_of (after_read s f k a p rest n) a = p" "Result_of (after_read s f k a p rest n) a = Result_OK"
    "sers (after_read s f k a p rest n) ! k = sers n ! k + 1"
    "cIn (conn_of (after_read s f k a p rest n) s) = rest"
    "size_limit (after_read s f k a p rest n) s = size_limit n s"
    "length (events (after_read s f k a p rest n)) = length (events n)"
    "b \<noteq> a \<Longrightarrow> events (after_read s f k a p rest n) ! b = events n ! b"
  using assms
  by (simp_all add: after_read_def read_ready_def sendable_def packet_of_def data_of_def event_def Result_of_def
      conn_of_def size_limit_def)

text \<open>
  A receiver that takes \<open>m\<close> packets from its connection, each into a new event, and stops at the
  first failure: the addresses of the events.
\<close>

fun read_packets :: "callbacks \<Rightarrow> nat \<Rightarrow> nat \<Rightarrow> net \<Rightarrow> (nat list \<times> net) run" where
  "read_packets cb s 0 n = Ok ([], n)"
| "read_packets cb s (Suc m) n =
     (let (a, n) = NewEvent Event_Recv (Some s) n
      in bind_go (HandlerChain_Call cb (sReadChain (sessions n ! s)) a n) (\<lambda>n.
         if Result_of n a \<noteq> Result_OK then Ok ([a], n)
         else bind_go (read_packets cb s m n) (\<lambda>(as, n). Ok (a # as, n))))"

lemma NewEvent_facts:
  assumes "NewEvent t (Some s) n = (a, n1)" "read_ready n s f k"
  shows "read_ready n1 s f k" "sendable n1 s a" "a = length (events n)" "size_limit n1 s = size_limit n s"
    "conn_of n1 s = conn_of n s" "sers n1 = sers n" "length (events n1) = Suc (length (events n))"
    "b < length (events n) \<Longrightarrow> events n1 ! b = events n ! b"
  using assms
  by (auto simp: NewEvent_def genSesEvUID_def Let_def read_ready_def sendable_def new_Event_def event_def
      Result_of_def conn_of_def size_limit_def nth_append split: if_splits)

lemma read_packets_stream:
  assumes "read_ready n s f k" "\<forall>p \<in> set ps. packet_fits (size_limit n s) p"
    "cIn (conn_of n s) = packet_stream (sers n ! k) ps @ rest"
  shows "\<exists>as n'. read_packets cb s (length ps) n = Ok (as, n') \<and> map (packet_of n') as = ps \<and>
    cIn (conn_of n' s) = rest \<and> sers n' ! k = sers n ! k + word_of_nat (length ps) \<and>
    (\<forall>b < length (events n). events n' ! b = events n ! b) \<and> length (events n) \<le> length (events n') \<and>
    (\<forall>a \<in> set as. length (events n) \<le> a)"
  using assms
proof (induction ps arbitrary: n)
  case (Cons p ps)
  obtain a n1 where new: "NewEvent Event_Recv (Some s) n = (a, n1)"
    by fastforce
  note n1 = NewEvent_facts [OF new Cons.prems(1)]
  let ?rest = "packet_stream (sers n ! k + 1) ps @ rest"
  let ?n2 = "after_read s f k a p ?rest n1"
  have dec: "packet_dec (size_limit n s) (sers n ! k) (cIn (conn_of n s)) = Inr (p, ?rest)"
    using Cons.prems by (simp add: packet_dec_enc)
  then have call: "HandlerChain_Call cb (sReadChain (sessions n1 ! s)) a n1 = Ok ?n2"
    using read_chain [OF n1(1,2), of cb] by (simp add: n1)
  have long: "10 \<le> length (cIn (conn_of n1 s))"
    using Cons.prems(3) by (simp add: n1 packet_enc_def)
  note n2 = after_read_facts [OF n1(1,2) long, where p = p and rest = ?rest]
  have "\<forall>p \<in> set ps. packet_fits (size_limit ?n2 s) p" "cIn (conn_of ?n2 s) = packet_stream (sers ?n2 ! k) ps @ rest"
    using Cons.prems(2) n2(4-6) n1(4,6) by simp_all
  from Cons.IH [OF n2(1) this] obtain as n' where
    r: "read_packets cb s (length ps) ?n2 = Ok (as, n')" "map (packet_of n') as = ps" "cIn (conn_of n' s) = rest"
      "sers n' ! k = sers ?n2 ! k + word_of_nat (length ps)"
    and old: "\<forall>b < length (events ?n2). events n' ! b = events ?n2 ! b" "length (events ?n2) \<le> length (events n')"
      "\<forall>a \<in> set as. length (events ?n2) \<le> a"
    by blast
  have len: "length (events ?n2) = Suc (length (events n))" "a = length (events n)"
    using n1(3,7) n2(7) by simp_all
  have "packet_of n' a = p"
    using old(1) len n2(2) by (simp add: packet_of_def event_def)
  moreover have "\<forall>b < length (events n). events n' ! b = events n ! b"
    using old(1) len n2(8) n1(8) by simp
  moreover have "\<forall>x \<in> set (a # as). length (events n) \<le> x"
    using old(3) len by auto
  ultimately show ?case
    using new call n2(3,4) n1(6) r old(2) len by (simp add: ac_simps)
qed auto

text \<open>
  C4: What is sent arrives. The send thread of one session writes any number of events; a
  session at the other end, whose reader expects the serial number that the writer was about
  to use and whose size limit admits the packets, gets from those bytes exactly the message
  numbers and payloads of the events, in order, and nothing of what follows; the serial
  numbers of both ends agree again afterwards, also when they wrapped around.
\<close>

theorem packets_delivered:
  assumes w: "write_ready n s k" "distinct as" "\<forall>a \<in> set as. sendable n s a" "cOut (conn_of n s) = []"
    and r: "read_ready m t f j" "sers m ! j = sers n ! k" "\<forall>a \<in> set as. packet_fits (size_limit m t) (packet_of n a)"
    and wire: "write_list cb s as e n = Ok (e', n')" "cIn (conn_of m t) = cOut (conn_of n' s) @ rest"
  shows "e' = e \<and>
    (\<exists>bs m'. read_packets cb' t (length as) m = Ok (bs, m') \<and> map (packet_of m') bs = map (packet_of n) as \<and>
       cIn (conn_of m' t) = rest \<and> sers m' ! j = sers n' ! k)"
proof -
  from write_list_stream [OF w(1-3), of cb e] wire have e: "e' = e"
    and ser: "sers n' ! k = sers n ! k + word_of_nat (length as)"
    and out: "cOut (conn_of n' s) = packet_stream (sers n ! k) (map (packet_of n) as)"
    by (auto simp: w(4))
  let ?ps = "map (packet_of n) as"
  have "\<forall>p \<in> set ?ps. packet_fits (size_limit m t) p" "cIn (conn_of m t) = packet_stream (sers m ! j) ?ps @ rest"
    using r wire(2) out by simp_all
  from read_packets_stream [OF r(1) this, of cb'] show ?thesis
    by (auto simp: e ser r(2))
qed

end
