(* ===== verification/Cellnet_Lifetime.thy ===== *)
theory Cellnet_Lifetime
  imports Cellnet_Socket
begin

text \<open>
  The life of a session: its receive thread, its send thread and the task that waits for both
  run interleaved with each other, with the application and with the arrival of bytes. The step
  relation has one rule per turn of a thread (\<^verbatim>\<open>recvThread\<close>, \<^verbatim>\<open>sendThread\<close>, the closure of
  \<^verbatim>\<open>run\<close>); the invariant says how the two threads tell each other that they ended.
\<close>

section \<open>What the threads leave alone\<close>

text \<open>
  The session at \<open>s\<close> keeps its identity, its chains and whether its connection is closed, its
  send list only grows, and the header buffers keep their lengths.
\<close>

definition keeps :: "nat \<Rightarrow> net \<Rightarrow> net \<Rightarrow> bool" where
  "keeps s n n' \<longleftrightarrow>
     length (sessions n) \<le> length (sessions n') \<and>
     (s < length (sessions n) \<longrightarrow>
       sID (sessions n' ! s) = sID (sessions n ! s) \<and> sPeer (sessions n' ! s) = sPeer (sessions n ! s) \<and>
       sNeedNotifyWrite (sessions n' ! s) = sNeedNotifyWrite (sessions n ! s) \<and>
       cClosed (conn_of n' s) = cClosed (conn_of n s) \<and>
       sReadChain (sessions n' ! s) = sReadChain (sessions n ! s) \<and>
       sWriteChain (sessions n' ! s) = sWriteChain (sessions n ! s) \<and>
       (\<exists>zs. sSendList (sessions n' ! s) = sSendList (sessions n ! s) @ zs)) \<and>
     length (frames n) \<le> length (frames n') \<and>
     (\<forall>f < length (frames n). length (frames n' ! f) = length (frames n ! f))"

definition keeping_callbacks :: "nat \<Rightarrow> callbacks \<Rightarrow> bool" where
  "keeping_callbacks s cb \<longleftrightarrow> (\<forall>i a n n'. cb i a n = Ok n' \<longrightarrow> keeps s n n')"

lemma keeps_refl [simp]: "keeps s n n"
  by (simp add: keeps_def)

lemma keeps_trans [trans]: "keeps s n n' \<Longrightarrow> keeps s n' n'' \<Longrightarrow> keeps s n n''"
  unfolding keeps_def by (auto simp: conn_of_def)

lemma keeps_same: "sessions n' = sessions n \<Longrightarrow> frames n' = frames n \<Longrightarrow> keeps s n n'"
  by (simp add: keeps_def conn_of_def)

lemma keeps_fields [simp]:
  "keeps s n (upd_event a g n') = keeps s n n'" "keeps s n (SetResult r a n') = keeps s n n'"
  "keeps s n (n'\<lparr>events := x\<rparr>) = keeps s n n'" "keeps s n (n'\<lparr>sers := y\<rparr>) = keeps s n n'"
  "keeps s n (n'\<lparr>queues := z\<rparr>) = keeps s n n'" "keeps s n (n'\<lparr>rets := w\<rparr>) = keeps s n n'"
  "keeps s n (n'\<lparr>evuid := u\<rparr>) = keeps s n n'" "keeps s n (upd_peer p h n') = keeps s n n'"
  by (simp_all add: keeps_def upd_event_def SetResult_def conn_of_def upd_peer_def)

lemma nth_list_update': "j < length xs \<Longrightarrow> xs[i := x] ! j = (if i = j then x else xs ! j)"
  by simp

lemma keeps_conn:
  assumes "cClosed c = cClosed (sConn (sessions n ! t))"
  shows "keeps s n (upd_session t (\<lambda>ses. ses\<lparr>sConn := c\<rparr>) n)"
  using assms by (cases "t = s") (simp_all add: keeps_def upd_session_def conn_of_def)

lemma keeps_frame: "length d = length (frames n ! f) \<Longrightarrow> keeps s n (n\<lparr>frames := (frames n)[f := d]\<rparr>)"
  by (auto simp: keeps_def conn_of_def nth_list_update')

lemma ReadFull_keeps:
  assumes "ReadFull k (sConn (sessions n ! t)) = (res, c)"
  shows "keeps s n (upd_session t (\<lambda>ses. ses\<lparr>sConn := c\<rparr>) n)" "res = Some d \<Longrightarrow> length d = k"
  using assms by (auto simp: ReadFull_def conn_of_def split: if_splits intro!: keeps_conn)

lemma FrameReader_keeps:
  assumes "FrameReader_Call f a n = Ok n'"
  shows "keeps s n n'"
proof -
  obtain t where t: "evSes (event n a) = Some t"
    using assms by (auto simp: FrameReader_Call_def split: option.splits)
  obtain res c where rd: "ReadFull (length (frames n ! f)) (sConn (sessions n ! t)) = (res, c)"
    by fastforce
  let ?n = "upd_session t (\<lambda>ses. ses\<lparr>sConn := c\<rparr>) n"
  have same: "frames ?n = frames n"
    by (simp add: upd_session_def)
  have "keeps s ?n (?n\<lparr>frames := (frames n)[f := d]\<rparr>)" if "length d = length (frames n ! f)" for d
    using keeps_frame [of d ?n f s] that by (simp add: same)
  then have "keeps s n (?n\<lparr>frames := (frames n)[f := d]\<rparr>)" if "length d = length (frames n ! f)" for d
    using that ReadFull_keeps(1) [OF rd, of s] keeps_trans by blast
  then show ?thesis
    using assms t rd ReadFull_keeps(2) [OF rd]
    by (auto simp: FrameReader_Call_def Let_def same split: option.splits)
qed

lemma FrameWriter_keeps: "FrameWriter_Call a n = Ok n' \<Longrightarrow> keeps s n n'"
  by (auto simp: FrameWriter_Call_def Let_def conn_Write_def conn_of_def split: option.splits if_splits
      intro!: keeps_conn)

lemma PrivateReader_keeps:
  assumes "PrivateReader_Call k a n = Ok n'"
  shows "keeps s n n'"
proof -
  have body: "keeps s n (PrivateReader_body k a t ser sz m)" if "keeps s n m" for t ser sz m
  proof -
    obtain res c where rd: "ReadFull (unat sz) (sConn (sessions m ! t)) = (res, c)"
      by fastforce
    from ReadFull_keeps(1) [OF this] that have "keeps s n (upd_session t (\<lambda>ses. ses\<lparr>sConn := c\<rparr>) m)"
      using keeps_trans by blast
    with that rd show ?thesis
      by (simp add: PrivateReader_body_def Let_def split: option.split)
  qed
  with assms show ?thesis
    by (auto simp: PrivateReader_Call_def Let_def go_elims split: if_splits option.splits)
qed

lemma callHandler_keeps:
  assumes "keeping_callbacks s cb" "callHandler cb h a n = Ok n'"
  shows "keeps s n n'"
proof (cases h)
  case (CallbackHandler i)
  with assms show ?thesis by (auto simp: keeping_callbacks_def)
qed (use assms(2) FrameReader_keeps FrameWriter_keeps PrivateReader_keeps in \<open>auto simp: MatchMsgID_Call_def
      DecodePacket_Call_def EncodePacket_Call_def MsgLog_def Parse_def QueuePost_Call_def Post_def
      PrivateWriter_Call_def Box_Call_def FromMessage_def Unbox_Call_def RetChan_Call_def Let_def go_elims
      split: if_splits option.splits any.splits list.splits gval.splits\<close>)

lemma callList_keeps:
  assumes "keeping_callbacks s cb"
  shows "callList cb hs a n = Ok n' \<Longrightarrow> keeps s n n'"
proof (induction hs arbitrary: n)
  case (Cons h hs)
  then obtain n1 where h: "callHandler cb h a n = Ok n1"
    and rest: "n' = SetResult Result_OK a n1 \<or> n' = n1 \<or> callList cb hs a n1 = Ok n'"
    by (auto simp: go_elims split: if_splits)
  with callHandler_keeps [OF assms h] Cons.IH keeps_trans show ?case
    by (metis keeps_fields(2))
qed simp

lemma HandlerChain_Call_keeps:
  assumes "keeping_callbacks s cb" "HandlerChain_Call cb c a n = Ok n'"
  shows "keeps s n n'"
  using callList_keeps [OF assms(1)] assms(2) keeps_trans unfolding HandlerChain_Call_def
  by (metis keeps_fields(1) keeps_refl)

lemma HandlerChainList_Call_keeps:
  assumes "keeping_callbacks s cb"
  shows "HandlerChainList_Call cb cs a n = Ok n' \<Longrightarrow> keeps s n n'"
proof (induction cs arbitrary: n)
  case (Cons c cs)
  let ?n1 = "n\<lparr>events := events n @ [clone_of (event n a)]\<rparr>"
  from Cons.prems obtain n2 where call: "HandlerChain_Call cb c (length (events n)) ?n1 = Ok n2"
    and rest: "HandlerChainList_Call cb cs a n2 = Ok n'"
    by (auto simp: Clone_def Let_def go_elims)
  have "keeps s n ?n1"
    by simp
  also have "keeps s ?n1 n2"
    by (rule HandlerChain_Call_keeps [OF assms call])
  also have "keeps s n2 n'"
    by (rule Cons.IH [OF rest])
  finally show ?case .
qed simp

lemma MsgLog_keeps: "MsgLog a n = Ok n' \<Longrightarrow> keeps s n n'"
  by (auto simp: MsgLog_def Parse_def Let_def go_elims split: if_splits option.splits)

lemma NewEvent_keeps: "NewEvent t x n = (a, n') \<Longrightarrow> keeps s n n'"
  by (auto simp: NewEvent_def genSesEvUID_def Let_def split: if_splits)

lemma peer_chains_keeps: "keeps s n (snd (peer_chains ord p n))"
  by (simp add: peer_chains_def split: prod.splits)

lemma FromMessage_keeps: "FromMessage m a n = Ok n' \<Longrightarrow> keeps s n n'"
  by (auto simp: FromMessage_def go_elims)

lemma set_meta_id_keeps: "set_meta_id m a n = Ok n' \<Longrightarrow> keeps s n n'"
  by (auto simp: set_meta_id_def split: option.splits)

lemma PostSystemEvent_keeps:
  assumes "keeping_callbacks s cb" "PostSystemEvent cb x t cs r n = Ok n'"
  shows "keeps s n n'"
proof -
  obtain a n1 where new: "NewEvent t x n = (a, n1)"
    by fastforce
  with assms(2) obtain n2 n3 where body: "(case t of
        Event_Closed \<Rightarrow> FromMessage (result_message ''SessionClosed'' r) a n1
      | Event_AcceptFailed \<Rightarrow> FromMessage (result_message ''SessionAcceptFailed'' r) a n1
      | Event_ConnectFailed \<Rightarrow> FromMessage (result_message ''SessionConnectFailed'' r) a n1
      | Event_Accepted \<Rightarrow> set_meta_id ''coredef.SessionAccepted'' a n1
      | Event_Connected \<Rightarrow> set_meta_id ''coredef.SessionConnected'' a n1
      | _ \<Rightarrow> Panic (Explicit ''unknown system error'')) = Ok n2" and log: "MsgLog a n2 = Ok n3"
    and call: "HandlerChainList_Call cb cs a n3 = Ok n'"
    by (auto simp: PostSystemEvent_def go_elims)
  have "keeps s n n1"
    by (rule NewEvent_keeps [OF new])
  also have "keeps s n1 n2"
    using body by (cases t) (auto intro: FromMessage_keeps set_meta_id_keeps)
  also have "keeps s n2 n3"
    by (rule MsgLog_keeps [OF log])
  also have "keeps s n3 n'"
    by (rule HandlerChainList_Call_keeps [OF assms(1) call])
  finally show ?thesis .
qed

lemma recv_onClose_keeps:
  assumes "keeping_callbacks s cb" "recv_onClose cb ord t a n = Ok (b, n')"
  shows "keeps s n n' \<and> \<not> b"
proof -
  let ?n1 = "snd (peer_chains ord (sPeer (sessions n ! t)) n)"
  from assms(2) obtain "\<not> b" and post: "PostSystemEvent cb (evSes (event ?n1 a)) Event_Closed
      (fst (peer_chains ord (sPeer (sessions n ! t)) n)) (Result_of ?n1 a) ?n1 = Ok n'"
    by (auto simp: recv_onClose_def go_elims case_prod_beta)
  have "keeps s n ?n1"
    by (rule peer_chains_keeps)
  also have "keeps s ?n1 n'"
    by (rule PostSystemEvent_keeps [OF assms(1) post])
  finally show ?thesis
    using \<open>\<not> b\<close> by simp
qed

text \<open>The ways through a turn of the receive thread.\<close>

lemma recv_round_cases:
  assumes "recv_round cb ord t n = Ok (b, n')"
  obtains a n1 n2 where "NewEvent Event_Recv (Some t) n = (a, n1)"
    "HandlerChain_Call cb (sReadChain (sessions n1 ! t)) a n1 = Ok n2" "Result_of n2 a \<noteq> Result_OK"
    "recv_onClose cb ord t a n2 = Ok (b, n')"
  | a n1 n2 n3 n4 where "NewEvent Event_Recv (Some t) n = (a, n1)"
    "HandlerChain_Call cb (sReadChain (sessions n1 ! t)) a n1 = Ok n2" "Result_of n2 a = Result_OK"
    "MsgLog a n2 = Ok n3"
    "HandlerChainList_Call cb (fst (peer_chains ord (sPeer (sessions n3 ! t)) n3)) a
       (snd (peer_chains ord (sPeer (sessions n3 ! t)) n3)) = Ok n4"
    "if Result_of n4 a = Result_OK then b \<and> n' = n4 else recv_onClose cb ord t a n4 = Ok (b, n')"
proof -
  obtain a n1 where new: "NewEvent Event_Recv (Some t) n = (a, n1)"
    by fastforce
  with assms obtain n2 where n2: "HandlerChain_Call cb (sReadChain (sessions n1 ! t)) a n1 = Ok n2"
    by (auto simp: recv_round_def go_elims)
  show thesis
  proof (cases "Result_of n2 a = Result_OK")
    case True
    with assms new n2 obtain n3 n4 where "MsgLog a n2 = Ok n3"
      "HandlerChainList_Call cb (fst (peer_chains ord (sPeer (sessions n3 ! t)) n3)) a
       (snd (peer_chains ord (sPeer (sessions n3 ! t)) n3)) = Ok n4"
      "if Result_of n4 a = Result_OK then b \<and> n' = n4 else recv_onClose cb ord t a n4 = Ok (b, n')"
      by (auto simp: recv_round_def go_elims case_prod_beta split: if_splits)
    with that(2) new n2 True show thesis
      by blast
  next
    case False
    with assms new n2 that(1) show thesis
      by (simp add: recv_round_def)
  qed
qed

lemma recv_round_keeps:
  assumes cb: "keeping_callbacks s cb" and r: "recv_round cb ord t n = Ok (b, n')"
  shows "keeps s n n'"
  using r
proof (cases rule: recv_round_cases)
  case (1 a n1 n2)
  then show ?thesis
    using NewEvent_keeps HandlerChain_Call_keeps [OF cb] recv_onClose_keeps [OF cb] by (meson keeps_trans)
next
  case (2 a n1 n2 n3 n4)
  have "keeps s n n1"
    by (rule NewEvent_keeps [OF 2(1)])
  also have "keeps s n1 n2"
    by (rule HandlerChain_Call_keeps [OF cb 2(2)])
  also have "keeps s n2 n3"
    by (rule MsgLog_keeps [OF 2(4)])
  also have "keeps s n3 (snd (peer_chains ord (sPeer (sessions n3 ! t)) n3))"
    by (rule peer_chains_keeps)
  also have "keeps s \<dots> n4"
    by (rule HandlerChainList_Call_keeps [OF cb 2(5)])
  also have "keeps s n4 n'"
    using 2(6) recv_onClose_keeps [OF cb] by (auto split: if_splits)
  finally show ?thesis .
qed

section \<open>The threads of a session\<close>

record life =
  lnet :: net
  recvDone :: bool
  sendDone :: bool
  closeDone :: bool

definition arrive :: "nat \<Rightarrow> bytes \<Rightarrow> net \<Rightarrow> net" where
  "arrive s bs = upd_session s (\<lambda>ses. ses\<lparr>sConn := (sConn ses)\<lparr>cIn := cIn (sConn ses) @ bs\<rparr>\<rparr>)"

inductive life_step :: "callbacks \<Rightarrow> nat \<Rightarrow> nat \<Rightarrow> life \<Rightarrow> life \<Rightarrow> bool" for cb p s where
  recv_go: "\<not> recvDone r \<Longrightarrow> recv_round cb ord s (lnet r) = Ok (True, n) \<Longrightarrow> life_step cb p s r (r\<lparr>lnet := n\<rparr>)"
| recv_end: "\<not> recvDone r \<Longrightarrow> recv_round cb ord s (lnet r) = Ok (False, n) \<Longrightarrow>
    life_step cb p s r (r\<lparr>lnet := recv_exit s n, recvDone := True\<rparr>)"
| send_go: "\<not> sendDone r \<Longrightarrow> send_round cb s (lnet r) = Some (Ok (True, n)) \<Longrightarrow> life_step cb p s r (r\<lparr>lnet := n\<rparr>)"
| send_end: "\<not> sendDone r \<Longrightarrow> send_round cb s (lnet r) = Some (Ok (False, n)) \<Longrightarrow>
    life_step cb p s r (r\<lparr>lnet := send_exit s n, sendDone := True\<rparr>)"
| on_close: "recvDone r \<Longrightarrow> sendDone r \<Longrightarrow> \<not> closeDone r \<Longrightarrow>
    life_step cb p s r (r\<lparr>lnet := Remove p s (lnet r), closeDone := True\<rparr>)"
| app_close: "life_step cb p s r (r\<lparr>lnet := Close s (lnet r)\<rparr>)"
| app_send: "Send cb s m (lnet r) = Ok n \<Longrightarrow> life_step cb p s r (r\<lparr>lnet := n\<rparr>)"
| arrives: "life_step cb p s r (r\<lparr>lnet := arrive s bs (lnet r)\<rparr>)"

definition life_ok :: "nat \<Rightarrow> life \<Rightarrow> bool" where
  "life_ok s r \<longleftrightarrow>
     s < length (sessions (lnet r)) \<and>
     (cClosed (conn_of (lnet r) s) \<longleftrightarrow> sendDone r) \<and>
     (sNeedNotifyWrite (sessions (lnet r) ! s) \<longleftrightarrow> \<not> sendDone r) \<and>
     (recvDone r \<and> \<not> sendDone r \<longrightarrow> None \<in> set (sSendList (sessions (lnet r) ! s))) \<and>
     (closeDone r \<longrightarrow> recvDone r \<and> sendDone r) \<and>
     (\<exists>f k. chain_list (sReadChain (sessions (lnet r) ! s)) = [FixedLengthFrameReader f, PrivatePacketReader k] \<and>
        f < length (frames (lnet r)) \<and> length (frames (lnet r) ! f) = 10)"

lemma life_ok_keeps:
  assumes "life_ok s r" "keeps s (lnet r) n"
  shows "life_ok s (r\<lparr>lnet := n\<rparr>)"
proof -
  obtain f k where "chain_list (sReadChain (sessions (lnet r) ! s)) = [FixedLengthFrameReader f, PrivatePacketReader k]"
    "f < length (frames (lnet r))" "length (frames (lnet r) ! f) = 10" and s: "s < length (sessions (lnet r))"
    using assms(1) by (auto simp: life_ok_def)
  then have "\<exists>f k. chain_list (sReadChain (sessions n ! s)) = [FixedLengthFrameReader f, PrivatePacketReader k] \<and>
      f < length (frames n) \<and> length (frames n ! f) = 10"
    using assms(2) unfolding keeps_def by (metis order_less_le_trans)
  moreover have "s < length (sessions n)" "cClosed (conn_of n s) = cClosed (conn_of (lnet r) s)"
    "sNeedNotifyWrite (sessions n ! s) = sNeedNotifyWrite (sessions (lnet r) ! s)"
    "set (sSendList (sessions (lnet r) ! s)) \<subseteq> set (sSendList (sessions n ! s))"
    using assms(2) s unfolding keeps_def by auto
  ultimately show ?thesis
    using assms(1) unfolding life_ok_def by auto
qed

lemma Close_keeps: "keeps s n (Close t n)"
  by (cases "t = s") (simp_all add: Close_def keeps_def upd_session_def conn_of_def)

lemma arrive_keeps: "keeps s n (arrive t bs n)"
  by (cases "t = s") (simp_all add: arrive_def keeps_def upd_session_def conn_of_def)

lemma Remove_keeps: "keeps s n (Remove p t n)"
  by (simp add: Remove_def)

lemma RawSend_keeps:
  assumes "keeping_callbacks s cb" "RawSend cb t a n = Ok n'"
  shows "keeps s n n'"
proof -
  let ?n = "upd_event a (\<lambda>ev. ev\<lparr>evSes := Some t\<rparr>) n"
  from assms(2) obtain n1 n2 where chain: "(case evChainSend (event ?n a) of
        Some c \<Rightarrow> HandlerChain_Call cb c a ?n | None \<Rightarrow> Ok ?n) = Ok n1"
    and log: "MsgLog a n1 = Ok n2"
    and n': "n' = upd_session t (\<lambda>ses. ses\<lparr>sSendList := sSendList ses @ [Some a]\<rparr>) n2"
    by (auto simp: RawSend_def Let_def go_elims split: if_splits)
  have "keeps s n ?n"
    by simp
  also have "keeps s ?n n1"
    using chain HandlerChain_Call_keeps [OF assms(1)] by (auto split: option.splits)
  also have "keeps s n1 n2"
    by (rule MsgLog_keeps [OF log])
  also have "keeps s n2 n'"
    unfolding n' by (cases "t = s") (simp_all add: keeps_def upd_session_def conn_of_def)
  finally show ?thesis .
qed

lemma Send_keeps:
  assumes "keeping_callbacks s cb" "Send cb t m n = Ok n'"
  shows "keeps s n n'"
proof -
  obtain a n1 where new: "NewEvent Event_Send (Some t) n = (a, n1)"
    by fastforce
  with assms(2) obtain g where "RawSend cb t a (upd_event a g n1) = Ok n' \<or>
      RawSend cb t a (upd_event a g (upd_event a (\<lambda>ev. ev\<lparr>evMsg := m\<rparr>) n1)) = Ok n'"
    by (simp add: Send_def Let_def split: if_splits) blast+
  then show ?thesis
    using NewEvent_keeps [OF new, of s] RawSend_keeps [OF assms(1)] by (metis keeps_fields(1) keeps_refl keeps_trans)
qed

lemma pick_loop_exit: "snd (pick_loop evs) \<longleftrightarrow> None \<in> set evs"
  by (induction evs rule: pick_loop.induct) (simp_all add: case_prod_beta)

lemma write_list_keeps:
  assumes "keeping_callbacks s cb"
  shows "write_list cb s as e n = Ok (e', n') \<Longrightarrow> keeps s n n' \<and> (e \<longrightarrow> e')"
proof (induction as arbitrary: e n)
  case (Cons a as)
  then obtain n1 where call: "HandlerChain_Call cb (sWriteChain (sessions n ! s)) a n = Ok n1"
    and rest: "write_list cb s as (e \<or> Result_of n1 a \<noteq> Result_OK) n1 = Ok (e', n')"
    by (auto simp: go_elims)
  from Cons.IH [OF rest] HandlerChain_Call_keeps [OF assms call] show ?case
    using keeps_trans by blast
qed simp

lemma send_round_cases:
  assumes "keeping_callbacks s cb" "send_round cb s n = Some (Ok (b, n'))"
  shows "keeps s (upd_session s (\<lambda>ses. ses\<lparr>sSendList := []\<rparr>) n) n'" "None \<in> set (sSendList (sessions n ! s)) \<Longrightarrow> \<not> b"
proof -
  let ?n = "upd_session s (\<lambda>ses. ses\<lparr>sSendList := []\<rparr>) n"
  from assms(2) obtain e' where "write_list cb s (fst (pick_loop (sSendList (sessions n ! s))))
      (snd (pick_loop (sSendList (sessions n ! s)))) ?n = Ok (e', n')" "b = (\<not> e')"
    by (auto simp: send_round_def Pick_def go_elims case_prod_beta split: if_splits)
  with write_list_keeps [OF assms(1) this(1)]
  show "keeps s ?n n'" "None \<in> set (sSendList (sessions n ! s)) \<Longrightarrow> \<not> b"
    by (simp_all add: pick_loop_exit)
qed

lemma life_ok_emptied:
  assumes "life_ok s r" "\<not> recvDone r \<or> sendDone r"
  shows "life_ok s (r\<lparr>lnet := upd_session s (\<lambda>ses. ses\<lparr>sSendList := []\<rparr>) (lnet r)\<rparr>)"
  using assms by (auto simp: life_ok_def upd_session_def conn_of_def)

lemma life_step_ok:
  assumes cb: "keeping_callbacks s cb" and ok: "life_ok s r1" and step: "life_step cb p s r1 r2"
  shows "life_ok s r2"
  using step
proof (cases rule: life_step.cases)
  case (recv_go ord n)
  then show ?thesis
    using life_ok_keeps [OF ok recv_round_keeps [OF cb]] by simp
next
  case (recv_end ord n)
  from life_ok_keeps [OF ok recv_round_keeps [OF cb recv_end(3)]] have ok1: "life_ok s (r1\<lparr>lnet := n\<rparr>)" .
  from life_ok_keeps [OF ok1, of "Close s n"] Close_keeps have ok2: "life_ok s (r1\<lparr>lnet := Close s n\<rparr>)"
    by simp
  from ok1 ok2 show ?thesis
    unfolding recv_end(1) recv_exit_def life_ok_def by (auto simp: Close_def upd_session_def conn_of_def)
next
  case (send_go n)
  have "None \<notin> set (sSendList (sessions (lnet r1) ! s))"
    using send_round_cases(2) [OF cb send_go(3)] by blast
  then have "\<not> recvDone r1"
    using ok send_go(2) by (auto simp: life_ok_def)
  with life_ok_emptied [OF ok] life_ok_keeps send_round_cases(1) [OF cb send_go(3)] show ?thesis
    unfolding send_go(1) by fastforce
next
  case (send_end n)
  have "life_ok s (r1\<lparr>sendDone := False, recvDone := False, closeDone := False,
      lnet := upd_session s (\<lambda>ses. ses\<lparr>sSendList := []\<rparr>) (lnet r1)\<rparr>)"
    using ok send_end(2) by (auto simp: life_ok_def upd_session_def conn_of_def)
  from life_ok_keeps [OF this, of n] send_round_cases(1) [OF cb send_end(3)]
  have "life_ok s (r1\<lparr>sendDone := False, recvDone := False, closeDone := False, lnet := n\<rparr>)"
    by simp
  then show ?thesis
    using ok send_end(2) unfolding send_end(1) send_exit_def life_ok_def
    by (auto simp: upd_session_def conn_of_def)
next
  case on_close
  with life_ok_keeps [OF ok Remove_keeps] show ?thesis
    unfolding life_ok_def by auto
next
  case app_close
  then show ?thesis
    using life_ok_keeps [OF ok Close_keeps] by simp
next
  case (app_send m n)
  then show ?thesis
    using life_ok_keeps [OF ok Send_keeps [OF cb]] by simp
next
  case (arrives bs)
  then show ?thesis
    using life_ok_keeps [OF ok arrive_keeps] by simp
qed

text \<open>
  C6: Through any interleaving of the two threads, the application's sends and closes and the
  arrival of bytes: the connection is closed exactly when the send thread has ended; while the
  send thread still runs after the receive thread has ended, the request to end is in its
  list; \<^verbatim>\<open>OnClose\<close> has run only if both have ended.
\<close>

theorem life_invariant:
  assumes cb: "keeping_callbacks s cb" and start: "life_ok s r" and run: "(life_step cb p s)\<^sup>*\<^sup>* r r'"
  shows "life_ok s r'"
  using run start
proof (induction rule: rtranclp_induct)
  case (step r1 r2)
  then show ?case
    using life_step_ok [OF cb] by blast
qed

section \<open>Ending\<close>

lemma write_chain_total:
  assumes "chain_list c = [PrivatePacketWriter k, FixedLengthFrameWriter]" "evSes (event n a) \<noteq> None"
  shows "\<exists>n'. HandlerChain_Call cb c a n = Ok n' \<and> (\<forall>b. evSes (event n' b) = evSes (event n b))"
proof -
  have upd: "(\<And>ev. evSes (g ev) = evSes ev) \<Longrightarrow> evSes (event (upd_event a g m) b) = evSes (event m b)" for g m b
    by (cases "a < length (events m)") (auto simp: event_def upd_event_def nth_list_update list_update_beyond)
  have eq: "event (upd_session t h m) b = event m b" "event (m\<lparr>sers := xs\<rparr>) b = event m b" for t h m b xs
    by (simp_all add: event_def upd_session_def)
  show ?thesis
    using assms
    by (auto simp: HandlerChain_Call_def PrivateWriter_Call_def FrameWriter_Call_def Let_def conn_Write_def
        SetResult_def upd eq split: option.splits)
qed

lemma write_list_total:
  assumes cb: "keeping_callbacks s cb"
  shows "chain_list (sWriteChain (sessions n ! s)) = [PrivatePacketWriter k, FixedLengthFrameWriter] \<Longrightarrow>
    s < length (sessions n) \<Longrightarrow> \<forall>a \<in> set as. evSes (event n a) \<noteq> None \<Longrightarrow> \<exists>e' n'. write_list cb s as e n = Ok (e', n')"
proof (induction as arbitrary: e n)
  case (Cons a as)
  then obtain n1 where call: "HandlerChain_Call cb (sWriteChain (sessions n ! s)) a n = Ok n1"
    and same: "\<forall>b. evSes (event n1 b) = evSes (event n b)"
    using write_chain_total [of "sWriteChain (sessions n ! s)" k n a cb] by auto
  have "sWriteChain (sessions n1 ! s) = sWriteChain (sessions n ! s)" "s < length (sessions n1)"
    using HandlerChain_Call_keeps [OF cb call] Cons.prems(2) by (auto simp: keeps_def)
  with Cons.IH [of n1] Cons.prems same call show ?case
    by auto
qed simp

lemma pick_loop_events: "a \<in> set (fst (pick_loop evs)) \<Longrightarrow> Some a \<in> set evs"
  by (induction evs rule: pick_loop.induct) (auto simp: case_prod_beta)

lemma send_round_ends:
  assumes cb: "keeping_callbacks s cb" and s: "s < length (sessions n)" and none: "None \<in> set (sSendList (sessions n ! s))"
    and chain: "chain_list (sWriteChain (sessions n ! s)) = [PrivatePacketWriter k, FixedLengthFrameWriter]"
    and evs: "\<forall>a. Some a \<in> set (sSendList (sessions n ! s)) \<longrightarrow> evSes (event n a) \<noteq> None"
  shows "\<exists>n'. send_round cb s n = Some (Ok (False, n'))"
proof -
  let ?evs = "sSendList (sessions n ! s)" and ?n0 = "upd_session s (\<lambda>ses. ses\<lparr>sSendList := []\<rparr>) n"
  have "chain_list (sWriteChain (sessions ?n0 ! s)) = [PrivatePacketWriter k, FixedLengthFrameWriter]"
    "s < length (sessions ?n0)" "\<forall>a \<in> set (fst (pick_loop ?evs)). evSes (event ?n0 a) \<noteq> None"
    using chain s evs pick_loop_events [of _ ?evs] by (auto simp: upd_session_def event_def)
  from write_list_total [OF cb this] obtain e n' where
    "write_list cb s (fst (pick_loop ?evs)) (snd (pick_loop ?evs)) ?n0 = Ok (e, n')"
    by blast
  then have round: "send_round cb s n = Some (Ok (\<not> e, n'))"
    using none by (auto simp: send_round_def Pick_def case_prod_beta)
  with send_round_cases(2) [OF cb this none] show ?thesis
    by auto
qed

lemma closed_read_fails:
  assumes ch: "chain_list (sReadChain (sessions n ! s)) = [FixedLengthFrameReader f, PrivatePacketReader k]"
    "length (frames n ! f) = 10" and closed: "cClosed (conn_of n s)"
    and new: "NewEvent Event_Recv (Some s) n = (a, n1)"
    and call: "HandlerChain_Call cb (sReadChain (sessions n1 ! s)) a n1 = Ok n2"
  shows "Result_of n2 a \<noteq> Result_OK"
proof -
  have same: "sessions n1 = sessions n" "frames n1 = frames n" and a: "a < length (events n1)"
    and ses: "evSes (event n1 a) = Some s"
    using new by (auto simp: NewEvent_def genSesEvUID_def Let_def new_Event_def event_def split: if_splits)
  have "\<exists>m. FrameReader_Call f a (upd_event a g n1) = Ok m \<and> Result_of m a = Result_SocketError"
    if "\<And>ev. evSes (g ev) = evSes ev" for g
    using that a ses closed ch(2) by (simp add: FrameReader_Call_def ReadFull_def Let_def same conn_of_def
        Result_of_def SetResult_def event_def upd_event_def upd_session_def)
  then obtain m where "FrameReader_Call f a (upd_event a (\<lambda>ev. ev\<lparr>evChainid := chain_id (sReadChain (sessions n ! s))\<rparr>) n1) = Ok m"
    "Result_of m a = Result_SocketError"
    by (metis (no_types, lifting) Event.select_convs(8) Event.surjective Event.update_convs(11))
  then show ?thesis
    using call ch(1) by (auto simp: HandlerChain_Call_def same)
qed

text \<open>
  C7: A session winds down. When the receive thread has ended first, the send thread is not
  waiting: its next turn ends its loop and closes the connection. When the send thread has
  ended first, every turn of the receive thread that returns is its last, since the frame
  reader fails on the closed connection. When both have ended, the task behind \<^verbatim>\<open>run\<close> can
  run \<^verbatim>\<open>OnClose\<close>, after which the number of the session is not in the table of the acceptor.
\<close>

theorem session_winds_down:
  assumes cb: "keeping_callbacks s cb" and ok: "life_ok s r"
    and chain: "chain_list (sWriteChain (sessions (lnet r) ! s)) = [PrivatePacketWriter k, FixedLengthFrameWriter]"
    and evs: "\<forall>a. Some a \<in> set (sSendList (sessions (lnet r) ! s)) \<longrightarrow> evSes (event (lnet r) a) \<noteq> None"
  shows "(recvDone r \<and> \<not> sendDone r \<longrightarrow>
      (\<exists>r'. life_step cb p s r r' \<and> sendDone r' \<and> recvDone r' \<and> cClosed (conn_of (lnet r') s))) \<and>
    (sendDone r \<and> \<not> recvDone r \<longrightarrow> (\<forall>ord b n. recv_round cb ord s (lnet r) = Ok (b, n) \<longrightarrow> \<not> b)) \<and>
    (recvDone r \<and> sendDone r \<and> \<not> closeDone r \<and> p < length (peers (lnet r)) \<longrightarrow>
      (\<exists>r'. life_step cb p s r r' \<and> closeDone r' \<and>
         GetSession (sID (sessions (lnet r) ! s)) (pSessions (peers (lnet r') ! p)) = None))"
proof (intro conjI impI allI)
  let ?n = "lnet r"
  assume r: "recvDone r \<and> \<not> sendDone r"
  then have "s < length (sessions ?n)" "None \<in> set (sSendList (sessions ?n ! s))"
    using ok by (simp_all add: life_ok_def)
  from send_round_ends [OF cb this chain evs] obtain n where "send_round cb s ?n = Some (Ok (False, n))" ..
  then have step: "life_step cb p s r (r\<lparr>lnet := send_exit s n, sendDone := True\<rparr>)"
    using r by (intro life_step.send_end) simp_all
  with life_step_ok [OF cb ok step] r
  show "\<exists>r'. life_step cb p s r r' \<and> sendDone r' \<and> recvDone r' \<and> cClosed (conn_of (lnet r') s)"
    by (intro exI [of _ "r\<lparr>lnet := send_exit s n, sendDone := True\<rparr>"]) (simp add: life_ok_def)
next
  let ?n = "lnet r"
  fix ord b n
  assume r: "sendDone r \<and> \<not> recvDone r" and round: "recv_round cb ord s ?n = Ok (b, n)"
  obtain f k where ch: "chain_list (sReadChain (sessions ?n ! s)) = [FixedLengthFrameReader f, PrivatePacketReader k]"
    "length (frames ?n ! f) = 10" and closed: "cClosed (conn_of ?n s)"
    using ok r by (auto simp: life_ok_def)
  from round show "\<not> b"
    by (cases rule: recv_round_cases) (use recv_onClose_keeps [OF cb] closed_read_fails [OF ch closed] in blast)+
next
  let ?n = "lnet r"
  assume r: "recvDone r \<and> sendDone r \<and> \<not> closeDone r \<and> p < length (peers ?n)"
  then have "life_step cb p s r (r\<lparr>lnet := Remove p s ?n, closeDone := True\<rparr>)"
    by (intro life_step.on_close) simp_all
  moreover have "GetSession (sID (sessions ?n ! s)) (pSessions (peers (Remove p s ?n) ! p)) = None"
    using r by (simp add: Remove_def upd_peer_def GetSession_mgr_Remove)
  ultimately show "\<exists>r'. life_step cb p s r r' \<and> closeDone r' \<and>
      GetSession (sID (sessions ?n ! s)) (pSessions (peers (lnet r') ! p)) = None"
    by (intro exI [of _ "r\<lparr>lnet := Remove p s ?n, closeDone := True\<rparr>"]) simp
qed

section \<open>Sessions of a peer with the default chains\<close>

lemma make_socket_handlers:
  "make_handlers [MakeFrameReader 10, MakePacketReader] n =
     ([FixedLengthFrameReader (length (frames n)), PrivatePacketReader (length (sers n))],
      n\<lparr>frames := frames n @ [replicate 10 0], sers := sers n @ [1]\<rparr>)"
  "make_handlers [MakePacketWriter, MakeFrameWriter] n =
     ([PrivatePacketWriter (length (sers n)), FixedLengthFrameWriter], n\<lparr>sers := sers n @ [1]\<rparr>)"
  by simp_all

text \<open>
  C15: A new session of a peer that has its default chains is ready to read and to write
  packets: header buffer, reader and writer are fresh cells of its own, the serial numbers of
  both directions are 1, as at the other end, nothing waits in its list, and its life starts
  in a state that satisfies the invariant of the threads.
\<close>

theorem newSession_ready:
  assumes "\<not> cClosed c" "p < length (peers n)"
    and "readChainCreator (pChains (peers n ! p)) = Some [MakeFrameReader 10, MakePacketReader]"
    and "writeChainCreator (pChains (peers n ! p)) = Some [MakePacketWriter, MakeFrameWriter]"
  shows "\<exists>s n' f k j. newSession c p n = Ok (s, n') \<and> s = length (sessions n) \<and>
    read_ready n' s f k \<and> write_ready n' s j \<and> k \<noteq> j \<and> sers n' ! k = 1 \<and> sers n' ! j = 1 \<and>
    length (frames n) \<le> f \<and> length (sers n) \<le> k \<and> length (sers n) \<le> j \<and>
    conn_of n' s = c \<and> sPeer (sessions n' ! s) = p \<and> sSendList (sessions n' ! s) = [] \<and>
    life_ok s \<lparr>lnet = n', recvDone = False, sendDone = False, closeDone = False\<rparr>"
  using assms
  by (simp add: newSession_def CreateChainRead_def CreateChainWrite_def call_creator_def make_socket_handlers
      NewHandlerChain_def AddAny_def genChainID_def read_ready_def write_ready_def conn_of_def life_ok_def Let_def
      nth_append del: make_handlers.simps)

definition socket_net :: net where
  "socket_net = empty_net\<lparr>peers := [idle_peer\<lparr>pChains := SetReadWriteChain [MakeFrameReader 10, MakePacketReader]
     [MakePacketWriter, MakeFrameWriter] NewHandlerChainManager\<rparr>]\<rparr>"

theorem newSession_ready_witness:
  "\<exists>n'. newSession idle_conn 0 socket_net = Ok (0, n') \<and> read_ready n' 0 0 0 \<and> write_ready n' 0 1"
proof -
  from newSession_ready [of idle_conn 0 socket_net] obtain s n' where "newSession idle_conn 0 socket_net = Ok (s, n')" "s = 0"
    by (auto simp: socket_net_def idle_conn_def SetReadWriteChain_def empty_net_def)
  moreover from this have "read_ready n' 0 0 0" "write_ready n' 0 1"
    by (auto simp: newSession_def CreateChainRead_def CreateChainWrite_def call_creator_def make_socket_handlers
      NewHandlerChain_def AddAny_def genChainID_def read_ready_def write_ready_def conn_of_def socket_net_def idle_conn_def
      SetReadWriteChain_def empty_net_def simp del: make_handlers.simps)
  ultimately show ?thesis
    by blast
qed

section \<open>A message that does not encode\<close>

text \<open>
  C16: An event whose encoding failed still goes through the write chain: the packet writer
  advances its serial number, nothing is written, and the turn of the send thread is its last,
  so one message of an unregistered type closes the connection for everything behind it.
\<close>

theorem failed_encode_closes:
  assumes "s < length (sessions n)" "k < length (sers n)" "a < length (events n)"
    and "chain_list (sWriteChain (sessions n ! s)) = [PrivatePacketWriter k, FixedLengthFrameWriter]"
    and "sSendList (sessions n ! s) = [Some a]" "Result_of n a = Result_CodecError"
  shows "\<exists>n'. send_round cb s n = Some (Ok (False, n')) \<and> conn_of n' s = conn_of n s \<and> sers n' ! k = sers n ! k + 1"
  using assms
  by (simp add: send_round_def Pick_def HandlerChain_Call_def PrivateWriter_Call_def Let_def Result_of_def event_def
      upd_event_def upd_session_def conn_of_def)

section \<open>Small states\<close>

definition send_event :: "u32 \<Rightarrow> bytes \<Rightarrow> Event" where
  "send_event i d = (new_Event Event_Send (Some 0))\<lparr>evMsgID := i, evData := Some d\<rparr>"

definition pipe_net :: "bytes \<Rightarrow> net" where
  "pipe_net bs = empty_net\<lparr>peers := [idle_peer], sers := [1, 1], frames := [replicate 10 0],
     sessions := [idle_session\<lparr>sConn := idle_conn\<lparr>cIn := bs\<rparr>,
       sReadChain := HandlerChain 601 [FixedLengthFrameReader 0, PrivatePacketReader 0],
       sWriteChain := HandlerChain 602 [PrivatePacketWriter 1, FixedLengthFrameWriter]\<rparr>],
     events := [send_event 7 [1, 2], send_event 8 []]\<rparr>"

lemmas pipe_defs = pipe_net_def send_event_def idle_session_def idle_conn_def idle_peer_def new_Event_def

lemma pipe_ready: "read_ready (pipe_net bs) 0 0 0" "write_ready (pipe_net bs) 0 1"
  "\<forall>a \<in> set [0, 1]. sendable (pipe_net bs) 0 a"
  by (auto simp: read_ready_def write_ready_def sendable_def pipe_defs conn_of_def event_def Result_of_def)

theorem packets_delivered_witness:
  "\<exists>n' bs m' rest. write_list quiet 0 [0, 1] False (pipe_net []) = Ok (False, n') \<and> rest = [5 :: byte] \<and>
     read_packets quiet 0 2 (pipe_net (cOut (conn_of n' 0) @ rest)) = Ok (bs, m') \<and>
     map (packet_of m') bs = [(7, [1, 2]), (8, [])] \<and> cIn (conn_of m' 0) = rest"
proof -
  obtain n' where w: "write_list quiet 0 [0, 1] False (pipe_net []) = Ok (False, n')"
    using write_list_stream [OF pipe_ready(2), of "[0, 1]" "[]" quiet False] pipe_ready(3) by auto
  have pkts: "map (packet_of (pipe_net [])) [0, 1] = [(7, [1, 2]), (8, [])]"
    by (simp add: packet_of_def data_of_def event_def pipe_defs)
  let ?m = "pipe_net (cOut (conn_of n' 0) @ [5])"
  have m: "cIn (conn_of ?m 0) = cOut (conn_of n' 0) @ [5]" "sers ?m ! 0 = sers (pipe_net []) ! 1" "size_limit ?m 0 = 0"
    "cOut (conn_of (pipe_net []) 0) = []"
    by (simp_all add: conn_of_def size_limit_def pipe_defs)
  have "packet_of (pipe_net []) 0 = (7, [1, 2])" "packet_of (pipe_net []) (Suc 0) = (8, [])"
    using pkts by simp_all
  then have fits: "\<forall>a \<in> set [0, 1]. packet_fits (size_limit ?m 0) (packet_of (pipe_net []) a)"
    by (simp add: m packet_fits_def)
  from packets_delivered [OF pipe_ready(2) _ pipe_ready(3) m(4) pipe_ready(1) m(2) fits w m(1), of quiet]
  have "\<exists>bs m'. read_packets quiet 0 (length [0 :: nat, 1]) ?m = Ok (bs, m') \<and>
      map (packet_of m') bs = map (packet_of (pipe_net [])) [0, 1] \<and> cIn (conn_of m' 0) = [5]"
    by auto
  then show ?thesis
    using w unfolding pkts by (simp add: numeral_2_eq_2)
qed

definition failed_net :: net where
  "failed_net = (pipe_net [])\<lparr>events := [(send_event 7 [])\<lparr>evR := Result_CodecError\<rparr>],
     sessions := [(sessions (pipe_net []) ! 0)\<lparr>sSendList := [Some 0]\<rparr>]\<rparr>"

theorem failed_encode_closes_witness:
  "\<exists>n'. send_round quiet 0 failed_net = Some (Ok (False, n')) \<and> cOut (conn_of n' 0) = []"
  using failed_encode_closes [of 0 failed_net 1 0 quiet]
  by (auto simp: failed_net_def pipe_defs conn_of_def Result_of_def event_def)

lemma quiet_keeping: "keeping_callbacks s quiet"
  by (simp add: keeping_callbacks_def quiet_def)

lemma pipe_life: "life_ok 0 \<lparr>lnet = pipe_net bs, recvDone = False, sendDone = False, closeDone = False\<rparr>"
  by (simp add: life_ok_def pipe_defs conn_of_def)

theorem life_invariant_witness:
  "life_ok 0 \<lparr>lnet = Close 0 (pipe_net []), recvDone = False, sendDone = False, closeDone = False\<rparr>"
proof -
  let ?r = "\<lparr>lnet = pipe_net [], recvDone = False, sendDone = False, closeDone = False\<rparr>"
  have "life_step quiet 0 0 ?r (?r\<lparr>lnet := Close 0 (lnet ?r)\<rparr>)"
    by (rule life_step.app_close)
  then have "(life_step quiet 0 0)\<^sup>*\<^sup>* ?r (?r\<lparr>lnet := Close 0 (lnet ?r)\<rparr>)"
    by (rule r_into_rtranclp)
  from life_invariant [OF quiet_keeping pipe_life this] show ?thesis
    by simp
qed

theorem session_winds_down_witness:
  "\<exists>r'. life_step quiet 0 0 \<lparr>lnet = Close 0 (pipe_net []), recvDone = True, sendDone = False, closeDone = False\<rparr> r' \<and>
     sendDone r' \<and> recvDone r' \<and> cClosed (conn_of (lnet r') 0)"
proof -
  let ?r = "\<lparr>lnet = Close 0 (pipe_net []), recvDone = True, sendDone = False, closeDone = False\<rparr>"
  have "life_ok 0 ?r" "sSendList (sessions (lnet ?r) ! 0) = [None]"
    "chain_list (sWriteChain (sessions (lnet ?r) ! 0)) = [PrivatePacketWriter 1, FixedLengthFrameWriter]"
    by (simp_all add: life_ok_def pipe_defs conn_of_def Close_def upd_session_def)
  with session_winds_down [OF quiet_keeping, of 0 ?r 1 0] show ?thesis
    by simp
qed

section \<open>The reader against its specification\<close>

lemma packet_dec_result: "packet_dec l ser bs = Inl r \<Longrightarrow> r = Result_SocketError \<or> r = Result_PackageCrack"
  by (auto simp: packet_dec_def split: if_splits go.splits)

lemma packet_dec_packet:
  assumes "packet_dec l ser bs = Inr (p, rest)"
  shows "10 \<le> length bs" "0 < l \<Longrightarrow> int (length (snd p)) \<le> l"
proof -
  from assms show "10 \<le> length bs"
    by (auto simp: packet_dec_def split: if_splits)
  from assms obtain sz :: u32 where "p = (fst p, take (unat sz) (drop 10 bs))" "\<not> (l > 0 \<and> uint sz > l)"
    by (auto simp: packet_dec_def split: if_splits go.splits)
  moreover have "int (length (take (unat sz) (drop 10 bs))) \<le> uint sz"
    unfolding uint_nat by (rule iffD2 [OF of_nat_le_iff]) simp
  ultimately show "0 < l \<Longrightarrow> int (length (snd p)) \<le> l"
    by (metis linorder_not_less order_trans snd_conv)
qed

text \<open>
  C5: The read chain of a session does what the packet specification says. Too few bytes, a
  wrong serial number, a size above the limit or a payload that has not arrived end the chain
  with the result that closes the connection, and nothing else does; otherwise the event gets the
  message number and the payload, never longer than a positive size limit, the connection is left
  behind the packet, and the chain is ready for the next one with the serial number counted up.
\<close>

theorem read_chain_refines:
  assumes "read_ready n s f k" "sendable n s a"
  shows "\<exists>n'. HandlerChain_Call cb (sReadChain (sessions n ! s)) a n = Ok n' \<and>
    (case packet_dec (size_limit n s) (sers n ! k) (cIn (conn_of n s)) of
       Inl r \<Rightarrow> Result_of n' a = r \<and> (r = Result_SocketError \<or> r = Result_PackageCrack)
     | Inr (p, rest) \<Rightarrow> Result_of n' a = Result_OK \<and> packet_of n' a = p \<and> cIn (conn_of n' s) = rest \<and>
         sers n' ! k = sers n ! k + 1 \<and> read_ready n' s f k \<and>
         (0 < size_limit n s \<longrightarrow> int (length (snd p)) \<le> size_limit n s))"
proof -
  from read_chain [OF assms, of cb] obtain n' where call: "HandlerChain_Call cb (sReadChain (sessions n ! s)) a n = Ok n'"
    and spec: "case packet_dec (size_limit n s) (sers n ! k) (cIn (conn_of n s)) of
       Inl r \<Rightarrow> Result_of n' a = r | Inr (p, rest) \<Rightarrow> n' = after_read s f k a p rest n"
    by blast
  show ?thesis
  proof (cases "packet_dec (size_limit n s) (sers n ! k) (cIn (conn_of n s))")
    case (Inl r)
    with call spec packet_dec_result [OF Inl] show ?thesis by simp
  next
    case (Inr x)
    obtain p rest where x: "x = (p, rest)"
      by fastforce
    note facts = packet_dec_packet [OF Inr [unfolded x]]
    from call spec Inr x facts after_read_facts [OF assms facts(1), where p = p and rest = rest] show ?thesis
      by simp
  qed
qed

theorem read_chain_refines_witness:
  "\<exists>n'. HandlerChain_Call quiet (HandlerChain 601 [FixedLengthFrameReader 0, PrivatePacketReader 0]) 0
        (pipe_net (packet_enc 1 (9, [4, 5]) @ [6])) = Ok n' \<and>
      packet_of n' 0 = (9, [4, 5]) \<and> cIn (conn_of n' 0) = [6] \<and> sers n' ! 0 = 2"
proof -
  let ?n = "pipe_net (packet_enc 1 (9, [4, 5]) @ [6])"
  have "sReadChain (sessions ?n ! 0) = HandlerChain 601 [FixedLengthFrameReader 0, PrivatePacketReader 0]"
    "cIn (conn_of ?n 0) = packet_enc 1 (9, [4, 5]) @ [6]" "sers ?n ! 0 = 1" "size_limit ?n 0 = 0"
    by (simp_all add: pipe_defs conn_of_def size_limit_def)
  moreover have "packet_dec 0 1 (packet_enc 1 (9, [4, 5]) @ [6]) = Inr ((9, [4, 5]), [6])"
    by (rule packet_dec_enc) (simp add: packet_fits_def)
  moreover have "sendable ?n 0 0"
    using pipe_ready(3) by simp
  ultimately show ?thesis
    using read_chain_refines [OF pipe_ready(1), of _ 0 quiet] by fastforce
qed

end
