(* ===== verification/Objfmt_Binary.thy ===== *)
theory Objfmt_Binary
  imports Sproto_Codec
begin

text \<open>
  The binary format of goobjfmt (\<^verbatim>\<open>binary_size.go\<close>, \<^verbatim>\<open>codec.go\<close>, \<^verbatim>\<open>binary_writer.go\<close>,
  \<^verbatim>\<open>binary_reader.go\<close>), which the system messages and the rpc envelope of cellnet use. Reflected
  types and values are the datatypes \<open>btype\<close> and \<open>bval\<close>; an integer is its 64-bit pattern as in
  the encoder of gosproto. The encoder writes into a buffer that \<^verbatim>\<open>dataSize\<close> sized before; it is
  the pair of what is written and what is left of the buffer. A slice of bytes is assumed to
  have no capacity beyond its length.
\<close>

section \<open>Types and values\<close>

datatype objfmt_error = ErrInvalidType | ErrOutOfData

type_synonym 'a objfmt = "(objfmt_error, 'a) go"

datatype btype =
    BTBool
  | BTInt ikind
  | BTFloat32
  | BTFloat64
  | BTString
  | BTSlice btype
  | BTArray nat btype
  | BTStruct bfields
  | BTIface
  | BTPtr
and bfields = FNil | FCons string string btype bfields

datatype bval =
    BBool bool
  | BInt u64
  | BFloat32 u32
  | BFloat64 u64
  | BString bytes
  | BSlice "bval list option"
  | BArray "bval list"
  | BStruct "bval list"
  | BRef

fun slice_elems :: "bval list option \<Rightarrow> bval list" where
  "slice_elems None = []"
| "slice_elems (Some xs) = xs"

text \<open>
  The size and the alignment that the compiler gives a type in memory, on a 64-bit machine; a
  struct that ends in a field of size zero gets a byte of padding.
\<close>

definition round_up :: "nat \<Rightarrow> nat \<Rightarrow> nat" where
  "round_up n a = (n + a - 1) div a * a"

fun mem_align :: "btype \<Rightarrow> nat" and fields_align :: "bfields \<Rightarrow> nat" where
  "mem_align BTBool = 1"
| "mem_align (BTInt k) = int_width k div 8"
| "mem_align BTFloat32 = 4"
| "mem_align (BTArray k t) = mem_align t"
| "mem_align (BTStruct fs) = fields_align fs"
| "mem_align _ = 8"
| "fields_align FNil = 1"
| "fields_align (FCons name tg t fs) = max (mem_align t) (fields_align fs)"

fun mem_size :: "btype \<Rightarrow> nat" and fields_end :: "bfields \<Rightarrow> nat \<Rightarrow> bool \<Rightarrow> nat" where
  "mem_size BTBool = 1"
| "mem_size (BTInt k) = int_width k div 8"
| "mem_size BTFloat32 = 4"
| "mem_size BTFloat64 = 8"
| "mem_size BTString = 16"
| "mem_size (BTSlice t) = 24"
| "mem_size (BTArray k t) = k * mem_size t"
| "mem_size (BTStruct fs) = round_up (fields_end fs 0 False) (fields_align fs)"
| "mem_size BTIface = 16"
| "mem_size BTPtr = 8"
| "fields_end FNil off zero = (if zero \<and> off > 0 then off + 1 else off)"
| "fields_end (FCons name tg t fs) off zero =
     fields_end fs (round_up off (mem_align t) + mem_size t) (mem_size t = 0)"

section \<open>Sizes\<close>

text \<open>
  \<^verbatim>\<open>dataSize(v, sf)\<close>, with the \<^verbatim>\<open>binary\<close> tag of the field that the value was found in. The
  element of an array is asked for with \<^verbatim>\<open>v.Elem()\<close>, which panics.
\<close>

definition unsupported :: "string option \<Rightarrow> int objfmt" where
  "unsupported sf = (if sf = Some ''-'' then Ok 0 else Panic (Explicit ''size: unsupport kind''))"

fun dataSize :: "btype \<Rightarrow> bval \<Rightarrow> string option \<Rightarrow> int objfmt"
  and fieldsSize :: "bfields \<Rightarrow> bval list \<Rightarrow> int \<Rightarrow> int objfmt" where
  "dataSize (BTArray k t) v sf = Panic (Explicit ''reflect: call of Elem on array'')"
| "dataSize (BTSlice t) v sf =
     (case v of BSlice xs \<Rightarrow> Ok (int (length (slice_elems xs)) * int (mem_size t) + 4) | _ \<Rightarrow> unsupported sf)"
| "dataSize BTString v sf = (case v of BString s \<Rightarrow> Ok (int (length s) + 4) | _ \<Rightarrow> unsupported sf)"
| "dataSize BTBool v sf = Ok 1"
| "dataSize (BTInt k) v sf =
     (if k = KInt then Panic (Explicit ''do not support int, use int32/int64 instead'')
      else if k = KUint then unsupported sf
      else Ok (int (int_width k div 8)))"
| "dataSize BTFloat32 v sf = Ok 4"
| "dataSize BTFloat64 v sf = Ok 8"
| "dataSize (BTStruct fs) v sf = (case v of BStruct vs \<Rightarrow> fieldsSize fs vs 0 | _ \<Rightarrow> unsupported sf)"
| "dataSize BTIface v sf = unsupported sf"
| "dataSize BTPtr v sf = unsupported sf"
| "fieldsSize (FCons name tg t fs) (v # vs) acc =
     bind_go (dataSize t v (Some tg)) (\<lambda>s.
     if s < 0 then Ok (-1) else fieldsSize fs vs (acc + s))"
| "fieldsSize _ _ acc = Ok acc"

section \<open>The encoder\<close>

type_synonym coder = "bytes \<times> bytes"

definition put :: "bytes \<Rightarrow> coder \<Rightarrow> coder objfmt" where
  "put bs e =
     (if length bs \<le> length (snd e) then Ok (fst e @ bs, drop (length bs) (snd e)) else Panic SliceBounds)"

definition e_uint8 :: "byte \<Rightarrow> coder \<Rightarrow> coder objfmt" where
  "e_uint8 x e = (if snd e = [] then Panic IndexOutOfRange else put [x] e)"

definition e_bool :: "bool \<Rightarrow> coder \<Rightarrow> coder objfmt" where
  "e_bool x e = e_uint8 (if x then 1 else 0) e"

definition e_uint16 :: "u16 \<Rightarrow> coder \<Rightarrow> coder objfmt" where
  "e_uint16 x e = put (le16 x) e"

definition e_uint32 :: "u32 \<Rightarrow> coder \<Rightarrow> coder objfmt" where
  "e_uint32 x e = put (le32 x) e"

definition e_uint64 :: "u64 \<Rightarrow> coder \<Rightarrow> coder objfmt" where
  "e_uint64 x e = put (le64 x) e"

definition e_bytes :: "bytes \<Rightarrow> coder \<Rightarrow> coder objfmt" where
  "e_bytes x e = bind_go (e_uint32 (word_of_nat (length x)) e) (put x)"

text \<open>The integer kinds; the inner switches have no case for \<^verbatim>\<open>int\<close> and \<^verbatim>\<open>uint\<close>.\<close>

fun e_int :: "ikind \<Rightarrow> u64 \<Rightarrow> coder \<Rightarrow> coder objfmt" where
  "e_int KInt8 w e = e_uint8 (ucast w) e"
| "e_int KUint8 w e = e_uint8 (ucast w) e"
| "e_int KInt16 w e = e_uint16 (ucast w) e"
| "e_int KUint16 w e = e_uint16 (ucast w) e"
| "e_int KInt32 w e = e_uint32 (ucast w) e"
| "e_int KUint32 w e = e_uint32 (ucast w) e"
| "e_int KInt64 w e = e_uint64 w e"
| "e_int KUint64 w e = e_uint64 w e"
| "e_int _ w e = Ok e"

definition e_skip :: "btype \<Rightarrow> bval \<Rightarrow> coder \<Rightarrow> coder objfmt" where
  "e_skip t v e = bind_go (dataSize t v None) (\<lambda>n. put (replicate (nat n) 0) e)"

fun bytes_of :: "bval list \<Rightarrow> bytes" where
  "bytes_of [] = []"
| "bytes_of (BInt w # vs) = ucast w # bytes_of vs"
| "bytes_of (v # vs) = 0 # bytes_of vs"

fun each :: "('a \<Rightarrow> 's \<Rightarrow> 's objfmt) \<Rightarrow> 'a list \<Rightarrow> 's \<Rightarrow> 's objfmt" where
  "each f [] e = Ok e"
| "each f (x # xs) e = bind_go (f x e) (each f xs)"

text \<open>
  \<^verbatim>\<open>encoder.value\<close>. A field is skipped when its name is blank or its tag is \<^verbatim>\<open>-\<close>; a field that
  can be set has a name other than the blank one.
\<close>

definition kind_panic :: "'a objfmt" where
  "kind_panic = Panic (Explicit ''encode: unsupport kind'')"

fun e_value :: "btype \<Rightarrow> bval \<Rightarrow> coder \<Rightarrow> coder objfmt"
  and e_fields :: "bfields \<Rightarrow> bval list \<Rightarrow> coder \<Rightarrow> coder objfmt" where
  "e_value (BTArray k t) v e =
     (case v of
        BArray xs \<Rightarrow> bind_go (e_uint32 (word_of_nat (length xs)) e) (each (\<lambda>v e. e_value t v e) xs)
      | _ \<Rightarrow> kind_panic)"
| "e_value (BTStruct fs) v e = (case v of BStruct vs \<Rightarrow> e_fields fs vs e | _ \<Rightarrow> kind_panic)"
| "e_value (BTSlice t) v e =
     (case v of
        BSlice xs \<Rightarrow>
          (if t = BTInt KUint8 then e_bytes (bytes_of (slice_elems xs)) e
           else bind_go (e_uint32 (word_of_nat (length (slice_elems xs))) e)
                  (each (\<lambda>v e. e_value t v e) (slice_elems xs)))
      | _ \<Rightarrow> kind_panic)"
| "e_value BTString v e = (case v of BString s \<Rightarrow> e_bytes s e | _ \<Rightarrow> kind_panic)"
| "e_value BTBool v e = (case v of BBool b \<Rightarrow> e_bool b e | _ \<Rightarrow> kind_panic)"
| "e_value (BTInt k) v e = (case v of BInt w \<Rightarrow> e_int k w e | _ \<Rightarrow> kind_panic)"
| "e_value BTFloat32 v e = (case v of BFloat32 w \<Rightarrow> e_uint32 w e | _ \<Rightarrow> kind_panic)"
| "e_value BTFloat64 v e = (case v of BFloat64 w \<Rightarrow> e_uint64 w e | _ \<Rightarrow> kind_panic)"
| "e_value BTIface v e = kind_panic"
| "e_value BTPtr v e = kind_panic"
| "e_fields (FCons name tg t fs) (v # vs) e =
     bind_go (if name \<noteq> ''_'' \<and> tg \<noteq> ''-'' then e_value t v e else e_skip t v e) (e_fields fs vs)"
| "e_fields _ _ e = Ok e"

definition BinaryWrite :: "btype \<Rightarrow> bval \<Rightarrow> bytes objfmt" where
  "BinaryWrite t v =
     bind_go (dataSize t v None) (\<lambda>n.
     if n < 0 then Err ErrInvalidType
     else bind_go (e_value t v ([], replicate (nat n) 0)) (\<lambda>(done, rest). Ok (done @ rest)))"

definition BinarySize :: "btype \<Rightarrow> bval \<Rightarrow> int objfmt" where
  "BinarySize t v = dataSize t v None"

section \<open>The decoder\<close>

definition d_uint8 :: "bytes \<Rightarrow> (byte \<times> bytes) objfmt" where
  "d_uint8 buf = (case buf of [] \<Rightarrow> Panic IndexOutOfRange | b # r \<Rightarrow> Ok (b, r))"

definition d_bool :: "bytes \<Rightarrow> (bool \<times> bytes) objfmt" where
  "d_bool buf = bind_go (d_uint8 buf) (\<lambda>(b, r). Ok (b \<noteq> 0, r))"

definition d_uint16 :: "bytes \<Rightarrow> (u16 \<times> bytes) objfmt" where
  "d_uint16 buf = bind_go (go_slice buf 0 2) (\<lambda>h. bind_go (readUint16 h) (\<lambda>x. Ok (x, drop 2 buf)))"

definition d_uint32 :: "bytes \<Rightarrow> (u32 \<times> bytes) objfmt" where
  "d_uint32 buf = bind_go (go_slice buf 0 4) (\<lambda>h. bind_go (readUint32 h) (\<lambda>x. Ok (x, drop 4 buf)))"

definition d_uint64 :: "bytes \<Rightarrow> (u64 \<times> bytes) objfmt" where
  "d_uint64 buf = bind_go (go_slice buf 0 8) (\<lambda>h. bind_go (readUint64 h) (\<lambda>x. Ok (x, drop 8 buf)))"

text \<open>\<^verbatim>\<open>make([]byte, l)\<close> panics on a negative length.\<close>

definition d_bytes :: "bytes \<Rightarrow> (bytes \<times> bytes) objfmt" where
  "d_bytes buf =
     bind_go (d_uint32 buf) (\<lambda>(l, buf).
     if sint l < 0 then Panic (Explicit ''makeslice: len out of range'')
     else bind_go (go_slice buf 0 (nat (sint l))) (\<lambda>h. Ok (h, drop (nat (sint l)) buf)))"

fun d_int :: "ikind \<Rightarrow> bytes \<Rightarrow> (u64 \<times> bytes) objfmt" where
  "d_int KInt8 buf = bind_go (d_uint8 buf) (\<lambda>(x, r). Ok (scast x, r))"
| "d_int KUint8 buf = bind_go (d_uint8 buf) (\<lambda>(x, r). Ok (ucast x, r))"
| "d_int KInt16 buf = bind_go (d_uint16 buf) (\<lambda>(x, r). Ok (scast x, r))"
| "d_int KUint16 buf = bind_go (d_uint16 buf) (\<lambda>(x, r). Ok (ucast x, r))"
| "d_int KInt32 buf = bind_go (d_uint32 buf) (\<lambda>(x, r). Ok (scast x, r))"
| "d_int KUint32 buf = bind_go (d_uint32 buf) (\<lambda>(x, r). Ok (ucast x, r))"
| "d_int KInt64 buf = d_uint64 buf"
| "d_int KUint64 buf = d_uint64 buf"
| "d_int _ buf = kind_panic"

text \<open>A value found through an unexported field cannot be set.\<close>

definition exported :: "string \<Rightarrow> bool" where
  "exported name = (case name of [] \<Rightarrow> False | c # _ \<Rightarrow> 65 \<le> (of_char c :: nat) \<and> (of_char c :: nat) \<le> 90)"

definition set_val :: "bool \<Rightarrow> bval \<times> bytes \<Rightarrow> (bval \<times> bytes) objfmt" where
  "set_val ro r = (if ro then Panic (Explicit ''reflect: value obtained using unexported field'') else Ok r)"

fun zero_bval :: "btype \<Rightarrow> bval" and zero_fields :: "bfields \<Rightarrow> bval list" where
  "zero_bval BTBool = BBool False"
| "zero_bval (BTInt k) = BInt 0"
| "zero_bval BTFloat32 = BFloat32 0"
| "zero_bval BTFloat64 = BFloat64 0"
| "zero_bval BTString = BString []"
| "zero_bval (BTSlice t) = BSlice None"
| "zero_bval (BTArray k t) = BArray (replicate k (zero_bval t))"
| "zero_bval (BTStruct fs) = BStruct (zero_fields fs)"
| "zero_bval _ = BRef"
| "zero_fields FNil = []"
| "zero_fields (FCons name tg t fs) = zero_bval t # zero_fields fs"

fun times :: "nat \<Rightarrow> ('s \<Rightarrow> ('a \<times> 's) objfmt) \<Rightarrow> 's \<Rightarrow> ('a list \<times> 's) objfmt" where
  "times 0 f s = Ok ([], s)"
| "times (Suc n) f s = bind_go (f s) (\<lambda>(x, s). bind_go (times n f s) (\<lambda>(xs, s). Ok (x # xs, s)))"

fun index_loop :: "nat \<Rightarrow> ('a \<Rightarrow> 's \<Rightarrow> ('a \<times> 's) objfmt) \<Rightarrow> 'a list \<Rightarrow> 's \<Rightarrow> ('a list \<times> 's) objfmt" where
  "index_loop 0 f xs s = Ok (xs, s)"
| "index_loop (Suc n) f [] s = Panic (Explicit ''reflect: array index out of range'')"
| "index_loop (Suc n) f (x # xs) s =
     bind_go (f x s) (\<lambda>(x, s). bind_go (index_loop n f xs s) (\<lambda>(xs, s). Ok (x # xs, s)))"

text \<open>
  \<^verbatim>\<open>decoder.value\<close>: the new content of the destination and the rest of the bytes. The test for
  blank fields asks the struct, not the field, whether it can be set.
\<close>

fun d_value :: "btype \<Rightarrow> bool \<Rightarrow> bval \<Rightarrow> bytes \<Rightarrow> (bval \<times> bytes) objfmt"
  and d_fields :: "bfields \<Rightarrow> bool \<Rightarrow> bval list \<Rightarrow> bytes \<Rightarrow> (bval list \<times> bytes) objfmt" where
  "d_value (BTArray k t) ro v buf =
     (case v of
        BArray xs \<Rightarrow>
          bind_go (d_uint32 buf) (\<lambda>(l, buf).
          bind_go (index_loop (nat (sint l)) (\<lambda>v buf. d_value t ro v buf) xs buf) (\<lambda>(xs, buf). Ok (BArray xs, buf)))
      | _ \<Rightarrow> kind_panic)"
| "d_value (BTStruct fs) ro v buf =
     (case v of
        BStruct vs \<Rightarrow> bind_go (d_fields fs ro vs buf) (\<lambda>(vs, buf). Ok (BStruct vs, buf))
      | _ \<Rightarrow> kind_panic)"
| "d_value BTString ro v buf = bind_go (d_bytes buf) (\<lambda>(s, r). set_val ro (BString s, r))"
| "d_value (BTSlice t) ro v buf =
     (if t = BTInt KUint8
      then bind_go (d_bytes buf) (\<lambda>(s, r). set_val ro (BSlice (Some (map (\<lambda>b. BInt (ucast b)) s)), r))
      else bind_go (d_uint32 buf) (\<lambda>(l, buf).
             if sint l < 0 then Panic (Explicit ''reflect.MakeSlice: negative len'')
             else bind_go (times (nat (sint l)) (\<lambda>buf. d_value t False (zero_bval t) buf) buf) (\<lambda>(xs, r).
                  set_val ro (BSlice (Some xs), r))))"
| "d_value BTBool ro v buf = bind_go (d_bool buf) (\<lambda>(x, r). set_val ro (BBool x, r))"
| "d_value (BTInt k) ro v buf = bind_go (d_int k buf) (\<lambda>(x, r). set_val ro (BInt x, r))"
| "d_value BTFloat32 ro v buf = bind_go (d_uint32 buf) (\<lambda>(x, r). set_val ro (BFloat32 x, r))"
| "d_value BTFloat64 ro v buf = bind_go (d_uint64 buf) (\<lambda>(x, r). set_val ro (BFloat64 x, r))"
| "d_value BTIface ro v buf = Ok (v, buf)"
| "d_value BTPtr ro v buf = kind_panic"
| "d_fields (FCons name tg t fs) ro (v # vs) buf =
     bind_go (if \<not> ro \<or> name \<noteq> ''_'' then d_value t (ro \<or> \<not> exported name) v buf
              else bind_go (dataSize t v None) (\<lambda>n. bind_go (go_from buf (nat n)) (\<lambda>r. Ok (v, r)))) (\<lambda>(v, buf).
     bind_go (d_fields fs ro vs buf) (\<lambda>(vs, buf). Ok (v # vs, buf)))"
| "d_fields _ ro vs buf = Ok (vs, buf)"

text \<open>\<^verbatim>\<open>BinaryRead\<close> into an object of type \<open>t\<close> behind a pointer, with content \<open>v\<close> before.\<close>

definition BinaryRead :: "btype \<Rightarrow> bval \<Rightarrow> bytes \<Rightarrow> bval objfmt" where
  "BinaryRead t v data =
     (if data = [] then Ok v
      else bind_go (dataSize t v None) (\<lambda>n.
        if n < 0 then Err ErrInvalidType
        else if int (length data) < n then Err ErrOutOfData
        else bind_go (d_value t False v data) (\<lambda>(v, _). Ok v)))"

section \<open>The format\<close>

text \<open>What a value looks like on the wire, without buffers and offsets.\<close>

fun bwire :: "btype \<Rightarrow> bval \<Rightarrow> bytes" and bwire_fields :: "bfields \<Rightarrow> bval list \<Rightarrow> bytes" where
  "bwire BTBool v = (case v of BBool b \<Rightarrow> [if b then 1 else 0] | _ \<Rightarrow> [])"
| "bwire (BTInt k) v = (case v of BInt w \<Rightarrow> take (int_width k div 8) (le64 w) | _ \<Rightarrow> [])"
| "bwire BTFloat32 v = (case v of BFloat32 w \<Rightarrow> le32 w | _ \<Rightarrow> [])"
| "bwire BTFloat64 v = (case v of BFloat64 w \<Rightarrow> le64 w | _ \<Rightarrow> [])"
| "bwire BTString v = (case v of BString s \<Rightarrow> le32 (word_of_nat (length s)) @ s | _ \<Rightarrow> [])"
| "bwire (BTSlice t) v =
     (case v of
        BSlice xs \<Rightarrow> le32 (word_of_nat (length (slice_elems xs))) @ concat (map (bwire t) (slice_elems xs))
      | _ \<Rightarrow> [])"
| "bwire (BTStruct fs) v = (case v of BStruct vs \<Rightarrow> bwire_fields fs vs | _ \<Rightarrow> [])"
| "bwire _ v = []"
| "bwire_fields (FCons name tg t fs) (v # vs) = bwire t v @ bwire_fields fs vs"
| "bwire_fields _ _ = []"

text \<open>
  The values that the format carries: sized integers in range, strings and slices below \<open>2 ^ 31\<close>
  elements, structs whose fields are exported and not excluded by a tag; no arrays, pointers
  or interfaces.
\<close>

fun carried :: "btype \<Rightarrow> bval \<Rightarrow> bool" and carried_fields :: "bfields \<Rightarrow> bval list \<Rightarrow> bool" where
  "carried BTBool v = (case v of BBool b \<Rightarrow> True | _ \<Rightarrow> False)"
| "carried (BTInt k) v = (case v of BInt w \<Rightarrow> k \<noteq> KInt \<and> k \<noteq> KUint \<and> set_int k w = w | _ \<Rightarrow> False)"
| "carried BTFloat32 v = (case v of BFloat32 w \<Rightarrow> True | _ \<Rightarrow> False)"
| "carried BTFloat64 v = (case v of BFloat64 w \<Rightarrow> True | _ \<Rightarrow> False)"
| "carried BTString v = (case v of BString s \<Rightarrow> length s < 2 ^ 31 | _ \<Rightarrow> False)"
| "carried (BTSlice t) v =
     (case v of BSlice xs \<Rightarrow> length (slice_elems xs) < 2 ^ 31 \<and> list_all (carried t) (slice_elems xs) | _ \<Rightarrow> False)"
| "carried (BTStruct fs) v = (case v of BStruct vs \<Rightarrow> carried_fields fs vs | _ \<Rightarrow> False)"
| "carried _ v = False"
| "carried_fields (FCons name tg t fs) (v # vs) = (exported name \<and> tg \<noteq> ''-'' \<and> carried t v \<and> carried_fields fs vs)"
| "carried_fields FNil vs = (vs = [])"
| "carried_fields fs [] = False"

text \<open>A nil slice comes back empty.\<close>

fun bimage :: "btype \<Rightarrow> bval \<Rightarrow> bval" and bimages :: "bfields \<Rightarrow> bval list \<Rightarrow> bval list" where
  "bimage (BTSlice t) v = (case v of BSlice xs \<Rightarrow> BSlice (Some (map (bimage t) (slice_elems xs))) | _ \<Rightarrow> v)"
| "bimage (BTStruct fs) v = (case v of BStruct vs \<Rightarrow> BStruct (bimages fs vs) | _ \<Rightarrow> v)"
| "bimage _ v = v"
| "bimages (FCons name tg t fs) (v # vs) = bimage t v # bimages fs vs"
| "bimages _ vs = vs"

section \<open>The encoder writes the format\<close>

definition writes :: "(coder \<Rightarrow> coder objfmt) \<Rightarrow> bytes \<Rightarrow> bool" where
  "writes f bs \<longleftrightarrow> (\<forall>d b. (length bs \<le> length b \<longrightarrow> f (d, b) = Ok (d @ bs, drop (length bs) b)) \<and>
     (length b < length bs \<longrightarrow> is_panic (f (d, b))))"

lemma writes_put: "writes (put bs) bs"
  by (simp add: writes_def put_def)

lemma writes_uint8: "writes (e_uint8 x) [x]"
  by (auto simp: writes_def e_uint8_def put_def Suc_le_eq)

lemma writes_nil: "writes Ok []"
  by (simp add: writes_def)

lemma writes_seq:
  assumes "writes f bs" "writes g cs"
  shows "writes (\<lambda>e. bind_go (f e) g) (bs @ cs)"
  unfolding writes_def
proof (intro allI)
  fix d b
  show "(length (bs @ cs) \<le> length b \<longrightarrow> bind_go (f (d, b)) g = Ok (d @ bs @ cs, drop (length (bs @ cs)) b)) \<and>
      (length b < length (bs @ cs) \<longrightarrow> is_panic (bind_go (f (d, b)) g))"
  proof (cases "length bs \<le> length b")
    case True
    then have "f (d, b) = Ok (d @ bs, drop (length bs) b)"
      using assms(1) by (simp add: writes_def)
    moreover have "length b - length bs < length cs \<longleftrightarrow> length b < length bs + length cs"
      using True by linarith
    ultimately show ?thesis
      using assms(2) True by (auto simp: writes_def add.commute)
  next
    case False
    then have "is_panic (f (d, b))"
      using assms(1) by (simp add: writes_def)
    with False show ?thesis
      by (auto simp: is_panic_iff)
  qed
qed

lemma writes_each: "list_all (\<lambda>x. writes (f x) (w x)) xs \<Longrightarrow> writes (each f xs) (concat (map w xs))"
proof (induction xs)
  case Nil
  then show ?case
    by (simp add: writes_def)
next
  case (Cons x xs)
  then have "writes (\<lambda>e. bind_go (f x e) (each f xs)) (w x @ concat (map w xs))"
    by (intro writes_seq) simp_all
  then show ?case
    by (simp add: writes_def)
qed

lemma take_le64:
  "take 1 (le64 w) = [ucast w]" "take 2 (le64 w) = le16 (ucast w)" "take 4 (le64 w) = le32 (ucast w)"
  by (auto simp: le64_def le32_def le16_def numeral_eq_Suc intro!: bit_word_eqI simp: bit_simps dest: bit_imp_le_length)

lemma writes_int: "k \<noteq> KInt \<Longrightarrow> k \<noteq> KUint \<Longrightarrow> writes (e_int k w) (take (int_width k div 8) (le64 w))"
  by (cases k) (use take_le64 [of w] writes_uint8 [of "ucast w"] in \<open>auto simp: writes_def e_uint16_def e_uint32_def
      e_uint64_def put_def\<close>)

lemma writes_bytes: "writes (e_bytes bs) (le32 (word_of_nat (length bs)) @ bs)"
  using writes_seq [OF writes_put writes_put, of "le32 (word_of_nat (length bs))" bs]
  by (simp add: writes_def e_bytes_def e_uint32_def)

lemma bytes_of_wire:
  "list_all (carried (BTInt KUint8)) vs \<Longrightarrow> bytes_of vs = concat (map (bwire (BTInt KUint8)) vs)"
  by (induction vs rule: bytes_of.induct) (simp_all add: take_le64 flip: One_nat_def)

lemma not_exported_blank [simp]: "\<not> exported ''_''"
  by (simp add: exported_def)

lemma length_bytes_of [simp]: "length (bytes_of vs) = length vs"
  by (induction vs rule: bytes_of.induct) simp_all

lemma writes_slice:
  assumes "list_all (carried t) (slice_elems xs)" "\<forall>x \<in> set (slice_elems xs). writes (e_value t x) (bwire t x)"
  shows "writes (e_value (BTSlice t) (BSlice xs)) (bwire (BTSlice t) (BSlice xs))"
proof (cases "t = BTInt KUint8")
  case True
  then have eq: "bytes_of (slice_elems xs) = concat (map (bwire t) (slice_elems xs))"
    using assms(1) bytes_of_wire by simp
  have "bwire (BTSlice t) (BSlice xs) =
      le32 (word_of_nat (length (bytes_of (slice_elems xs)))) @ bytes_of (slice_elems xs)"
    by (simp flip: eq)
  moreover have "e_value (BTSlice t) (BSlice xs) = e_bytes (bytes_of (slice_elems xs))"
    using True by auto
  ultimately show ?thesis
    using writes_bytes by (simp only:)
next
  case False
  have "list_all (\<lambda>x. writes (e_value t x) (bwire t x)) (slice_elems xs)"
    using assms(2) by (simp add: list_all_iff)
  from writes_seq [OF writes_put writes_each [OF this]] False show ?thesis
    by (simp add: writes_def e_uint32_def)
qed

lemma writes_fields:
  assumes "exported name" "tg \<noteq> ''-''" "writes (e_value t v) (bwire t v)" "writes (e_fields fs vs) (bwire_fields fs vs)"
  shows "writes (e_fields (FCons name tg t fs) (v # vs)) (bwire_fields (FCons name tg t fs) (v # vs))"
proof -
  have "name \<noteq> ''_''"
    using assms(1) by auto
  with writes_seq [OF assms(3,4)] assms(2) show ?thesis
    by (simp add: writes_def)
qed

lemma writes_cases:
  "writes (e_value BTBool (BBool b)) (bwire BTBool (BBool b))"
  "writes (e_value BTFloat32 (BFloat32 x)) (bwire BTFloat32 (BFloat32 x))"
  "writes (e_value BTFloat64 (BFloat64 y)) (bwire BTFloat64 (BFloat64 y))"
  "writes (e_value BTString (BString s)) (bwire BTString (BString s))"
  "k \<noteq> KInt \<Longrightarrow> k \<noteq> KUint \<Longrightarrow> writes (e_value (BTInt k) (BInt w)) (bwire (BTInt k) (BInt w))"
  "writes (e_value (BTStruct fs) (BStruct vs)) (bwire (BTStruct fs) (BStruct vs)) =
     writes (e_fields fs vs) (bwire_fields fs vs)"
  "writes (e_fields FNil []) (bwire_fields FNil [])"
  using writes_uint8 writes_put writes_bytes writes_int
  by (simp_all add: writes_def e_bool_def e_uint32_def e_uint64_def)

lemma e_value_writes:
  "carried t v \<Longrightarrow> writes (e_value t v) (bwire t v)"
  "carried_fields fs vs \<Longrightarrow> writes (e_fields fs vs) (bwire_fields fs vs)"
proof (induction t v and fs vs rule: carried_carried_fields.induct)
  fix t v
  assume IH: "\<And>xs x. v = BSlice xs \<Longrightarrow> x \<in> set (slice_elems xs) \<Longrightarrow> carried t x \<Longrightarrow> writes (e_value t x) (bwire t x)"
  assume "carried (BTSlice t) v"
  then obtain xs where "v = BSlice xs" "list_all (carried t) (slice_elems xs)"
    by (auto split: bval.splits)
  with IH show "writes (e_value (BTSlice t) v) (bwire (BTSlice t) v)"
    using writes_slice [of t xs] by (simp add: list_all_iff)
qed (auto split: bval.splits simp del: e_value.simps bwire.simps e_fields.simps bwire_fields.simps
    intro!: writes_cases writes_fields simp: writes_cases(6))

lemma BinaryWrite_fits:
  assumes "carried t v" "dataSize t v None = Ok n" "int (length (bwire t v)) \<le> n"
  shows "BinaryWrite t v = Ok (bwire t v @ replicate (nat n - length (bwire t v)) 0)"
proof -
  have "e_value t v ([], replicate (nat n) 0) = Ok (bwire t v, drop (length (bwire t v)) (replicate (nat n) 0))"
    using e_value_writes(1) [OF assms(1)] assms(3) by (simp add: writes_def le_nat_iff)
  with assms(2,3) show ?thesis
    by (simp add: BinaryWrite_def)
qed

text \<open>
  C19: What \<^verbatim>\<open>BinaryWrite\<close> returns for a value that the format carries: the encoding of the
  value, filled with zeros up to \<^verbatim>\<open>dataSize\<close>, when it fits there, and otherwise a panic.
\<close>

theorem BinaryWrite_spec:
  assumes "carried t v" "dataSize t v None = Ok n" "0 \<le> n"
  shows "if int (length (bwire t v)) \<le> n
    then BinaryWrite t v = Ok (bwire t v @ replicate (nat n - length (bwire t v)) 0)
    else is_panic (BinaryWrite t v)"
proof (cases "int (length (bwire t v)) \<le> n")
  case True
  with BinaryWrite_fits [OF assms(1,2)] show ?thesis
    by simp
next
  case False
  then have "is_panic (e_value t v ([], replicate (nat n) 0))"
    using e_value_writes(1) [OF assms(1)] assms(3) by (simp add: writes_def nat_less_iff)
  with assms(2,3) False show ?thesis
    by (auto simp: BinaryWrite_def is_panic_iff)
qed

section \<open>The decoder reads the format\<close>

definition reads :: "(bytes \<Rightarrow> ('a \<times> bytes) objfmt) \<Rightarrow> bytes \<Rightarrow> 'a \<Rightarrow> bool" where
  "reads f bs x \<longleftrightarrow> (\<forall>rest. f (bs @ rest) = Ok (x, rest))"

lemma reads_times: "list_all2 (reads f) ws xs \<Longrightarrow> reads (times (length xs) f) (concat ws) xs"
  by (induction rule: list_all2_induct) (auto simp: reads_def)

lemma read_le: "readUint16 (le16 x) = Ok x" "readUint32 (le32 y) = Ok y" "readUint64 (le64 z) = Ok z"
  using readUint16_le16 [of x "[]"] readUint32_le32 [of y "[]"] readUint64_le64 [of z "[]"] by simp_all

lemma reads_uint:
  "reads d_uint8 [b] b" "reads d_uint16 (le16 x) x" "reads d_uint32 (le32 y) y" "reads d_uint64 (le64 z) z"
  by (simp_all add: read_le reads_def d_uint8_def d_uint16_def d_uint32_def d_uint64_def go_slice_def)

lemma sint_length: "k < 2 ^ 31 \<Longrightarrow> sint (word_of_nat k :: u32) = int k"
  by (simp add: signed_of_nat signed_take_bit_int_eq_self)

lemma reads_bytes: "length s < 2 ^ 31 \<Longrightarrow> reads d_bytes (le32 (word_of_nat (length s)) @ s) s"
  using reads_uint(3) [of "word_of_nat (length s)"] sint_length [of "length s"]
  by (simp add: reads_def d_bytes_def go_slice_def)

lemma extend_casts:
  "set_int KInt8 w = w \<Longrightarrow> scast (ucast w :: byte) = w" "set_int KUint8 w = w \<Longrightarrow> ucast (ucast w :: byte) = w"
  "set_int KInt16 w = w \<Longrightarrow> scast (ucast w :: u16) = w" "set_int KUint16 w = w \<Longrightarrow> ucast (ucast w :: u16) = w"
  "set_int KInt32 w = w \<Longrightarrow> scast (ucast w :: u32) = w" "set_int KUint32 w = w \<Longrightarrow> ucast (ucast w :: u32) = w"
proof -
  have s: "scast (ucast w :: 'a::len word) = signed_take_bit (LENGTH('a) - 1) w" if "LENGTH('a) \<le> 64" for w :: u64
    using that by (intro bit_word_eqI) (auto simp: bit_simps min_def)
  have u: "ucast (ucast w :: 'a::len word) = take_bit LENGTH('a) w" for w :: u64
    by (intro bit_word_eqI) (auto simp: bit_simps)
  show "set_int KInt8 w = w \<Longrightarrow> scast (ucast w :: byte) = w" "set_int KUint8 w = w \<Longrightarrow> ucast (ucast w :: byte) = w"
    "set_int KInt16 w = w \<Longrightarrow> scast (ucast w :: u16) = w" "set_int KUint16 w = w \<Longrightarrow> ucast (ucast w :: u16) = w"
    "set_int KInt32 w = w \<Longrightarrow> scast (ucast w :: u32) = w" "set_int KUint32 w = w \<Longrightarrow> ucast (ucast w :: u32) = w"
    by (simp_all add: set_int_def s u)
qed

lemma reads_int:
  assumes "k \<noteq> KInt" "k \<noteq> KUint" "set_int k w = w"
  shows "reads (d_int k) (take (int_width k div 8) (le64 w)) w"
  using assms reads_uint(1) [of "ucast w"] reads_uint(2) [of "ucast w"] reads_uint(3) [of "ucast w"] reads_uint(4) [of w]
    take_le64 [of w]
  by (cases k) (auto simp: reads_def extend_casts)

text \<open>A destination of the struct shape of its type.\<close>

fun shaped :: "btype \<Rightarrow> bval \<Rightarrow> bool" and shapeds :: "bfields \<Rightarrow> bval list \<Rightarrow> bool" where
  "shaped (BTStruct fs) v = (case v of BStruct vs \<Rightarrow> shapeds fs vs | _ \<Rightarrow> False)"
| "shaped _ v = True"
| "shapeds (FCons name tg t fs) (v # vs) = (shaped t v \<and> shapeds fs vs)"
| "shapeds FNil vs = (vs = [])"
| "shapeds fs [] = False"

lemma zero_shaped: "shaped t (zero_bval t)" "shapeds fs (zero_fields fs)"
  by (induction t and fs rule: zero_bval_zero_fields.induct) simp_all

lemma carried_shaped: "carried t v \<Longrightarrow> shaped t v" "carried_fields fs vs \<Longrightarrow> shapeds fs vs"
  by (induction t v and fs vs rule: carried_carried_fields.induct) (auto split: bval.splits)

lemma bytes_back:
  "list_all (carried (BTInt KUint8)) vs \<Longrightarrow> map (\<lambda>b. BInt (ucast b)) (bytes_of vs) = vs"
  by (induction vs rule: bytes_of.induct) (simp_all add: extend_casts)

lemma bimage_scalar: "bimage (BTInt k) = (\<lambda>v. v)"
  by (rule ext) simp

lemma reads_slice:
  assumes "list_all (carried t) (slice_elems xs)" "length (slice_elems xs) < 2 ^ 31"
    and "\<forall>x \<in> set (slice_elems xs). reads (d_value t False (zero_bval t)) (bwire t x) (bimage t x)"
  shows "reads (d_value (BTSlice t) False v0) (bwire (BTSlice t) (BSlice xs)) (bimage (BTSlice t) (BSlice xs))"
proof (cases "t = BTInt KUint8")
  case True
  then have eq: "bytes_of (slice_elems xs) = concat (map (bwire t) (slice_elems xs))"
    and same: "map (\<lambda>b. BInt (ucast b)) (bytes_of (slice_elems xs)) = slice_elems xs"
    using assms(1) bytes_of_wire bytes_back by simp_all
  have "reads d_bytes (le32 (word_of_nat (length (slice_elems xs))) @ bytes_of (slice_elems xs)) (bytes_of (slice_elems xs))"
    using reads_bytes [of "bytes_of (slice_elems xs)"] assms(2) by simp
  then show ?thesis
    using True same by (simp add: reads_def set_val_def bimage_scalar flip: eq [unfolded True])
next
  case False
  have "list_all2 (reads (d_value t False (zero_bval t))) (map (bwire t) (slice_elems xs)) (map (bimage t) (slice_elems xs))"
    using assms(3) by (simp add: list_all2_map1 list_all2_map2 list_all2_same)
  from reads_times [OF this] False show ?thesis
    using reads_uint(3) [of "word_of_nat (length (slice_elems xs))"] sint_length [OF assms(2)]
    by (simp add: reads_def set_val_def)
qed

lemma reads_cases:
  "reads (d_value BTBool False v0) (bwire BTBool (BBool b)) (BBool b)"
  "reads (d_value BTFloat32 False v0) (bwire BTFloat32 (BFloat32 x)) (BFloat32 x)"
  "reads (d_value BTFloat64 False v0) (bwire BTFloat64 (BFloat64 y)) (BFloat64 y)"
  "length s < 2 ^ 31 \<Longrightarrow> reads (d_value BTString False v0) (bwire BTString (BString s)) (BString s)"
  "k \<noteq> KInt \<Longrightarrow> k \<noteq> KUint \<Longrightarrow> set_int k w = w \<Longrightarrow>
     reads (d_value (BTInt k) False v0) (bwire (BTInt k) (BInt w)) (BInt w)"
  "reads (d_fields fs False ws) (bwire_fields fs vs) us \<Longrightarrow>
     reads (d_value (BTStruct fs) False (BStruct ws)) (bwire (BTStruct fs) (BStruct vs)) (BStruct us)"
  "reads (d_fields FNil False []) (bwire_fields FNil []) []"
  "exported name \<Longrightarrow> reads (d_value t False v0) (bwire t v) u \<Longrightarrow> reads (d_fields fs False ws) (bwire_fields fs vs) us \<Longrightarrow>
     reads (d_fields (FCons name tg t fs) False (v0 # ws)) (bwire_fields (FCons name tg t fs) (v # vs)) (u # us)"
  using reads_uint reads_bytes reads_int
  by (auto simp: reads_def set_val_def d_bool_def)

lemma d_value_reads:
  "carried t v \<Longrightarrow> shaped t v0 \<Longrightarrow> reads (d_value t False v0) (bwire t v) (bimage t v)"
  "carried_fields fs vs \<Longrightarrow> shapeds fs vs0 \<Longrightarrow> reads (d_fields fs False vs0) (bwire_fields fs vs) (bimages fs vs)"
proof (induction t v and fs vs arbitrary: v0 and vs0 rule: carried_carried_fields.induct)
  fix t v v0
  assume IH: "\<And>xs x w. v = BSlice xs \<Longrightarrow> x \<in> set (slice_elems xs) \<Longrightarrow> carried t x \<Longrightarrow> shaped t w \<Longrightarrow>
      reads (d_value t False w) (bwire t x) (bimage t x)"
  assume "carried (BTSlice t) v"
  then obtain xs where v: "v = BSlice xs" and xs: "list_all (carried t) (slice_elems xs)" "length (slice_elems xs) < 2 ^ 31"
    by (auto split: bval.splits)
  have "\<forall>x \<in> set (slice_elems xs). reads (d_value t False (zero_bval t)) (bwire t x) (bimage t x)"
    using IH [OF v] xs(1) zero_shaped(1) by (simp add: list_all_iff)
  from reads_slice [OF xs this] show "reads (d_value (BTSlice t) False v0) (bwire (BTSlice t) v) (bimage (BTSlice t) v)"
    unfolding v .
next
  fix name tg t fs v vs vs0
  assume "\<And>w. carried t v \<Longrightarrow> shaped t w \<Longrightarrow> reads (d_value t False w) (bwire t v) (bimage t v)"
    "\<And>ws. carried_fields fs vs \<Longrightarrow> shapeds fs ws \<Longrightarrow> reads (d_fields fs False ws) (bwire_fields fs vs) (bimages fs vs)"
    "carried_fields (FCons name tg t fs) (v # vs)" "shapeds (FCons name tg t fs) vs0"
  then show "reads (d_fields (FCons name tg t fs) False vs0) (bwire_fields (FCons name tg t fs) (v # vs))
      (bimages (FCons name tg t fs) (v # vs))"
    by (cases vs0) (simp_all add: reads_cases(8) del: d_fields.simps bwire_fields.simps)
qed (auto split: bval.splits simp del: d_value.simps bwire.simps d_fields.simps bwire_fields.simps
    simp: reads_cases)

section \<open>Sizes and the round trip\<close>

lemma dataSize_zero:
  "carried t v \<Longrightarrow> \<exists>n m. dataSize t v sf = Ok n \<and> dataSize t (zero_bval t) sf = Ok m \<and> 0 \<le> m \<and> m \<le> n"
  "carried_fields fs vs \<Longrightarrow> \<exists>n m. (\<forall>acc. fieldsSize fs vs acc = Ok (acc + n)) \<and>
     (\<forall>acc. fieldsSize fs (zero_fields fs) acc = Ok (acc + m)) \<and> 0 \<le> m \<and> m \<le> n"
proof (induction t v and fs vs arbitrary: sf rule: carried_carried_fields.induct)
  fix name tg t fs v vs
  assume "\<And>sf. carried t v \<Longrightarrow> \<exists>n m. dataSize t v sf = Ok n \<and> dataSize t (zero_bval t) sf = Ok m \<and> 0 \<le> m \<and> m \<le> n"
    and "carried_fields fs vs \<Longrightarrow> \<exists>n m. (\<forall>acc. fieldsSize fs vs acc = Ok (acc + n)) \<and>
      (\<forall>acc. fieldsSize fs (zero_fields fs) acc = Ok (acc + m)) \<and> 0 \<le> m \<and> m \<le> n"
    and c: "carried_fields (FCons name tg t fs) (v # vs)"
  then obtain n m n' m' where "dataSize t v (Some tg) = Ok n" "dataSize t (zero_bval t) (Some tg) = Ok m" "0 \<le> m" "m \<le> n"
    "\<forall>acc. fieldsSize fs vs acc = Ok (acc + n')" "\<forall>acc. fieldsSize fs (zero_fields fs) acc = Ok (acc + m')" "0 \<le> m'" "m' \<le> n'"
    by (metis carried_fields.simps(1))
  then show "\<exists>n m. (\<forall>acc. fieldsSize (FCons name tg t fs) (v # vs) acc = Ok (acc + n)) \<and>
      (\<forall>acc. fieldsSize (FCons name tg t fs) (zero_fields (FCons name tg t fs)) acc = Ok (acc + m)) \<and> 0 \<le> m \<and> m \<le> n"
    by (intro exI [of _ "n + n'"] exI [of _ "m + m'"]) simp
qed (auto split: bval.splits)

fun scalar :: "btype \<Rightarrow> bool" where
  "scalar BTBool = True"
| "scalar (BTInt k) = True"
| "scalar BTFloat32 = True"
| "scalar BTFloat64 = True"
| "scalar _ = False"

text \<open>Types whose slices have scalar elements, for which the size in memory is that on the wire.\<close>

fun flat :: "btype \<Rightarrow> bool" and flats :: "bfields \<Rightarrow> bool" where
  "flat (BTSlice t) = scalar t"
| "flat (BTStruct fs) = flats fs"
| "flat _ = True"
| "flats FNil = True"
| "flats (FCons name tg t fs) = (flat t \<and> flats fs)"

lemma int_bytes: "length (take (int_width k div 8) (le64 w)) = int_width k div 8"
  by (cases k) simp_all

lemma scalar_width: "scalar t \<Longrightarrow> carried t v \<Longrightarrow> length (bwire t v) = mem_size t"
  by (cases t) (auto split: bval.splits simp: int_bytes simp del: length_take)

lemma scalar_slice:
  "scalar t \<Longrightarrow> list_all (carried t) vs \<Longrightarrow> length (concat (map (bwire t) vs)) = length vs * mem_size t"
  by (induction vs) (simp_all add: scalar_width)

lemma dataSize_flat:
  "carried t v \<Longrightarrow> flat t \<Longrightarrow> dataSize t v sf = Ok (int (length (bwire t v)))"
  "carried_fields fs vs \<Longrightarrow> flats fs \<Longrightarrow> fieldsSize fs vs acc = Ok (acc + int (length (bwire_fields fs vs)))"
proof (induction t v and fs vs arbitrary: sf and acc rule: carried_carried_fields.induct)
  fix t v sf
  assume "carried (BTSlice t) v" "flat (BTSlice t)"
  then show "dataSize (BTSlice t) v sf = Ok (int (length (bwire (BTSlice t) v)))"
    using scalar_slice [of t] by (auto split: bval.splits)
qed (auto split: bval.splits simp: int_bytes simp del: length_take)

lemma empty_wire:
  "carried t v \<Longrightarrow> bwire t v = [] \<Longrightarrow> bimage t v = zero_bval t"
  "carried_fields fs vs \<Longrightarrow> bwire_fields fs vs = [] \<Longrightarrow> bimages fs vs = zero_fields fs"
proof (induction t v and fs vs rule: carried_carried_fields.induct)
  fix k v
  assume "carried (BTInt k) v" "bwire (BTInt k) v = []"
  then show "bimage (BTInt k) v = zero_bval (BTInt k)"
    using int_bytes [of k] by (cases k) (auto split: bval.splits simp: le64_def)
qed (auto split: bval.splits simp: le32_def le64_def)

lemma BinaryRead_wire:
  assumes "carried t v" "shaped t v0" "dataSize t v0 None = Ok m" "0 \<le> m" "m \<le> int (length bs)" "bs = bwire t v @ rest" "bs \<noteq> []"
  shows "BinaryRead t v0 bs = Ok (bimage t v)"
  using d_value_reads(1) [OF assms(1,2)] assms(3-7) by (auto simp: BinaryRead_def reads_def)

lemma BinaryWrite_reads:
  assumes c: "carried t v" and n: "dataSize t v None = Ok n" and fits: "int (length (bwire t v)) \<le> n"
  shows "\<exists>bs. BinaryWrite t v = Ok bs \<and> int (length bs) = n \<and> BinaryRead t (zero_bval t) bs = Ok (bimage t v)"
proof -
  let ?bs = "bwire t v @ replicate (nat n - length (bwire t v)) 0"
  have w: "BinaryWrite t v = Ok ?bs" and len: "int (length ?bs) = n"
    using BinaryWrite_fits [OF c n] fits by simp_all
  obtain m where m: "dataSize t (zero_bval t) None = Ok m" "0 \<le> m" "m \<le> n"
    using dataSize_zero(1) [OF c, of None] n by auto
  have "BinaryRead t (zero_bval t) ?bs = Ok (bimage t v)"
  proof (cases "?bs = []")
    case True
    then have "bimage t v = zero_bval t"
      using empty_wire(1) [OF c] by simp
    then show ?thesis
      unfolding True by (simp add: BinaryRead_def)
  next
    case False
    from BinaryRead_wire [OF c zero_shaped(1) m(1,2) _ refl this] m(3) len show ?thesis
      by simp
  qed
  with w len show ?thesis
    by blast
qed

text \<open>
  C18: The binary format round trips. A carried value whose encoding fits the size computed for it
  is written, and reading the bytes into a fresh object yields the value, nil slices as
  empty ones.
\<close>

theorem BinaryRead_BinaryWrite:
  assumes "carried t v" "dataSize t v None = Ok n" "int (length (bwire t v)) \<le> n"
  shows "\<exists>bs. BinaryWrite t v = Ok bs \<and> int (length bs) = n \<and> BinaryRead t (zero_bval t) bs = Ok (bimage t v)"
  using BinaryWrite_reads [OF assms] .

text \<open>
  For types whose slices have scalar elements the computed size is exactly that of the
  encoding, so such a value is always written and never padded.
\<close>

theorem BinaryWrite_exact:
  assumes "carried t v" "flat t"
  shows "BinaryWrite t v = Ok (bwire t v) \<and> BinarySize t v = Ok (int (length (bwire t v)))"
  using BinaryWrite_fits [OF assms(1) dataSize_flat(1) [OF assms]] dataSize_flat(1) [OF assms]
  by (simp add: BinarySize_def)

section \<open>Concrete values\<close>

text \<open>The rpc envelope of cellnet.\<close>

definition call_type :: btype where
  "call_type = BTStruct (FCons ''MsgID'' [] (BTInt KUint32) (FCons ''Data'' [] (BTSlice (BTInt KUint8))
     (FCons ''CallID'' [] (BTInt KInt64) FNil)))"

definition call_value :: bval where
  "call_value = BStruct [BInt 7, BSlice (Some [BInt 1, BInt 34]), BInt (-2)]"

lemma call_carried: "carried call_type call_value" "flat call_type"
  by (simp_all add: call_type_def call_value_def exported_def set_int_def)

lemma call_wire: "bwire call_type call_value = [7, 0, 0, 0, 2, 0, 0, 0, 1, 34, 254, 255, 255, 255, 255, 255, 255, 255]"
  by code_simp

theorem BinaryRead_BinaryWrite_witness:
  "\<exists>bs. BinaryWrite call_type call_value = Ok bs \<and> length bs = 18 \<and>
     BinaryRead call_type (zero_bval call_type) bs = Ok call_value"
proof -
  have "dataSize call_type call_value None = Ok 18" "bimage call_type call_value = call_value"
    by (simp_all add: call_type_def call_value_def)
  with BinaryRead_BinaryWrite [OF call_carried(1), of 18] call_wire show ?thesis
    by auto
qed

theorem BinaryWrite_exact_witness:
  "BinaryWrite call_type call_value = Ok [7, 0, 0, 0, 2, 0, 0, 0, 1, 34, 254, 255, 255, 255, 255, 255, 255, 255]"
  using BinaryWrite_exact [OF call_carried] call_wire by simp

text \<open>
  A slice of strings is sized by the sixteen bytes of a string header: a short string is followed
  by zeros, a longer one makes the writer panic.
\<close>

theorem BinaryWrite_spec_witness:
  "is_panic (BinaryWrite (BTSlice BTString) (BSlice (Some [BString (replicate 13 65)]))) \<and>
   BinaryWrite (BTSlice BTString) (BSlice (Some [BString [65]])) =
     Ok ([1, 0, 0, 0, 1, 0, 0, 0, 65] @ replicate 11 0)"
proof -
  have "bwire (BTSlice BTString) (BSlice (Some [BString [65]])) = [1, 0, 0, 0, 1, 0, 0, 0, 65]"
    by code_simp
  with BinaryWrite_spec [of "BTSlice BTString" "BSlice (Some [BString (replicate 13 65)])" 20]
    BinaryWrite_spec [of "BTSlice BTString" "BSlice (Some [BString [65]])" 20]
  show ?thesis
    by simp
qed

text \<open>
  The tag \<^verbatim>\<open>binary:"-"\<close> does not exclude a pointer: the size leaves it out, and the writer asks
  for its size again without the tag. A field that is excluded is read as if it were not. An
  array panics before anything is written.
\<close>

lemma excluded_pointer_panics:
  "is_panic (BinaryWrite (BTStruct (FCons ''Next'' ''-'' BTPtr FNil)) (BStruct [BRef]))"
  by (simp add: BinaryWrite_def unsupported_def e_skip_def)

lemma excluded_field_is_read:
  "BinaryRead (BTStruct (FCons ''X'' ''-'' (BTInt KUint8) FNil)) (BStruct [BInt 5]) [9] = Ok (BStruct [BInt 9])"
  by code_simp

lemma array_panics: "is_panic (BinaryWrite (BTArray 2 (BTInt KUint8)) (BArray [BInt 1, BInt 2]))"
  by (simp add: BinaryWrite_def)

lemma short_payload_panics:
  "is_panic (BinaryRead (BTStruct (FCons ''Data'' [] (BTSlice (BTInt KUint8)) FNil)) (BStruct [BSlice None]) [9, 0, 0, 0])"
  by code_simp

end
