(* ===== verification/Cellnet_Rpc.thy ===== *)
theory Cellnet_Rpc
  imports Cellnet_Lifetime Objfmt_Binary
begin

text \<open>
  The binary codec, the system messages of \<^verbatim>\<open>coredef\<close> and the rpc package. A request is encoded,
  boxed into a \<^verbatim>\<open>RemoteCallACK\<close> that carries the number of the receive chain which waits for
  the reply, and sent; the other end unboxes it, hands the request to its callback and sends the
  reply through a chain that boxes it with the same number.
\<close>

section \<open>The binary codec\<close>

fun to_bval :: "gval \<Rightarrow> bval" where
  "to_bval (GBool b) = BBool b"
| "to_bval (GInt k w) = BInt w"
| "to_bval (GString s) = BString s"
| "to_bval (GBools p) = BSlice (map_option (map BBool) p)"
| "to_bval (GInts k p) = BSlice (map_option (map BInt) p)"
| "to_bval (GStrings p) = BSlice (map_option (map BString) p)"
| "to_bval _ = BRef"

fun bval_bool :: "bval \<Rightarrow> bool" where
  "bval_bool (BBool b) = b"
| "bval_bool _ = False"

fun bval_int :: "bval \<Rightarrow> u64" where
  "bval_int (BInt w) = w"
| "bval_int _ = 0"

fun bval_bytes :: "bval \<Rightarrow> bytes" where
  "bval_bytes (BString s) = s"
| "bval_bytes _ = []"

text \<open>The new content of a field, by the kind of the field.\<close>

fun of_bval :: "gval \<Rightarrow> bval \<Rightarrow> gval" where
  "of_bval (GBool b) v = GBool (bval_bool v)"
| "of_bval (GInt k w) v = GInt k (bval_int v)"
| "of_bval (GString s) v = GString (bval_bytes v)"
| "of_bval (GBools p) (BSlice xs) = GBools (map_option (map bval_bool) xs)"
| "of_bval (GInts k p) (BSlice xs) = GInts k (map_option (map bval_int) xs)"
| "of_bval (GStrings p) (BSlice xs) = GStrings (map_option (map bval_bytes) xs)"
| "of_bval g v = g"

fun lift_objfmt :: "'a objfmt \<Rightarrow> 'a run" where
  "lift_objfmt (Ok x) = Ok x"
| "lift_objfmt (Err e) = Err ErrCodec"
| "lift_objfmt (Panic p) = Panic p"

text \<open>The struct types of the program, by name.\<close>

type_synonym struct_types = "string \<Rightarrow> btype option"

definition struct_type :: "struct_types \<Rightarrow> string \<Rightarrow> btype" where
  "struct_type tys t = (case tys t of Some ty \<Rightarrow> ty | None \<Rightarrow> BTPtr)"

definition binary_Encode :: "struct_types \<Rightarrow> message \<Rightarrow> bytes run" where
  "binary_Encode tys m = lift_objfmt (BinaryWrite (struct_type tys (mType m)) (BStruct (map to_bval (mBody m))))"

definition binary_Decode :: "struct_types \<Rightarrow> bytes \<Rightarrow> message \<Rightarrow> message run" where
  "binary_Decode tys data m =
     bind_go (lift_objfmt (BinaryRead (struct_type tys (mType m)) (BStruct (map to_bval (mBody m))) data)) (\<lambda>v.
     case v of
       BStruct vs \<Rightarrow> Ok (m\<lparr>mBody := map2 of_bval (mBody m) vs\<rparr>)
     | _ \<Rightarrow> Ok m)"

definition binaryCodec :: "struct_types \<Rightarrow> Codec" where
  "binaryCodec tys = \<lparr>cName = ''binary'', cEncode = binary_Encode tys, cDecode = binary_Decode tys\<rparr>"

section \<open>The system messages\<close>

definition result_type :: btype where
  "result_type = BTStruct (FCons ''Result'' [] (BTInt KInt32) FNil)"

definition core_types :: struct_types where
  "core_types = [''SessionAccepted'' \<mapsto> BTStruct FNil, ''SessionConnected'' \<mapsto> BTStruct FNil,
     ''SessionAcceptFailed'' \<mapsto> result_type, ''SessionConnectFailed'' \<mapsto> result_type,
     ''SessionClosed'' \<mapsto> result_type, ''RemoteCallACK'' \<mapsto> call_type]"

definition call_zero :: "gval list" where
  "call_zero = [GInt KUint32 0, GInts KUint8 None, GInt KInt64 0]"

definition result_zero :: "gval list" where
  "result_zero = [GInt KInt32 0]"

definition core_messages :: "(string \<times> gval list \<times> u32) list" where
  "core_messages =
     [(''SessionAccepted'', [], 2087448307), (''SessionConnected'', [], 3159799620),
      (''SessionAcceptFailed'', result_zero, 3257237101), (''SessionConnectFailed'', result_zero, 290677256),
      (''SessionClosed'', result_zero, 1747213404), (''RemoteCallACK'', call_zero, 14297662)]"

fun register_all :: "(string \<times> gval list \<times> u32) list \<Rightarrow> net \<Rightarrow> net run" where
  "register_all [] n = Ok n"
| "register_all ((t, z, i) # ms) n =
     bind_go (RegisterMessageMeta ''binary'' (''coredef.'' @ t) \<lparr>tName = t, tZero = z\<rparr> i n) (register_all ms)"

text \<open>The initialisers of the binary codec and of \<^verbatim>\<open>coredef\<close>, in the order of their imports.\<close>

definition init_core :: "net \<Rightarrow> net run" where
  "init_core n = bind_go (RegisterCodec ''binary'' (binaryCodec core_types) n) (register_all core_messages)"

section \<open>The rpc package\<close>

text \<open>\<^verbatim>\<open>MetaCall\<close>, looked up when the package is initialised.\<close>

definition MetaCall :: "net \<Rightarrow> MessageMeta run" where
  "MetaCall n = (case MessageMetaByName n ''coredef.RemoteCallACK'' of
     None \<Rightarrow> Panic NilDereference | Some meta \<Rightarrow> Ok meta)"

definition rpc_ChainSend :: "net \<Rightarrow> HandlerChain \<times> net" where
  "rpc_ChainSend n = NewHandlerChain [[EncodePacketHandler], [BoxHandler]] n"

definition rpc_chain :: "u32 \<Rightarrow> u32 \<Rightarrow> nat option \<Rightarrow> EventHandler list \<Rightarrow> net \<Rightarrow> HandlerChain \<times> net" where
  "rpc_chain callID msgID q tail n =
     (let (fb, n) = rpc_ChainSend n
      in NewHandlerChain [[MatchMsgIDHandler callID], [DecodePacketHandler], [UnboxHandler fb],
           [MatchMsgIDHandler msgID], [DecodePacketHandler], [QueuePostHandler q tail]] n)"

text \<open>The service side: \<^verbatim>\<open>RegisterMessage\<close>; the peer is not nil.\<close>

definition rpc_RegisterMessage :: "nat \<Rightarrow> string \<Rightarrow> nat \<Rightarrow> net \<Rightarrow> net run" where
  "rpc_RegisterMessage p msgName userCallback n =
     bind_go (MetaCall n) (\<lambda>call.
     case MessageMetaByName n msgName of
       None \<Rightarrow> Panic NilDereference
     | Some meta \<Rightarrow>
         (let (c, n) = rpc_chain (meta_ID call) (meta_ID meta) (pQueue (peers n ! p)) [CallbackHandler userCallback] n
          in Ok (upd_peer p (\<lambda>pe. pe\<lparr>pChains := snd (AddChainRecv c (pChains pe))\<rparr>) n)))"

text \<open>
  The requesting side. The closure that removes the chain refers to the variable that gets the
  number which \<^verbatim>\<open>AddChainRecv\<close> hands out next.
\<close>

definition buildRecvHandler :: "nat \<Rightarrow> string \<Rightarrow> EventHandler \<Rightarrow> net \<Rightarrow> (int \<times> net) run" where
  "buildRecvHandler p msgName tailHandler n =
     (case MessageMetaByName n msgName of
        None \<Rightarrow> Err ErrReplayMessageNotFound
      | Some meta \<Rightarrow>
          bind_go (MetaCall n) (\<lambda>call.
          let rpcID = chainIDAcc (pChains (peers n ! p)) + 1;
              (c, n) = rpc_chain (meta_ID call) (meta_ID meta) (pQueue (peers n ! p)) [tailHandler, RemoveRecvHandler p rpcID] n;
              (autoID, m) = AddChainRecv c (pChains (peers n ! p))
          in Ok (autoID, upd_peer p (\<lambda>pe. pe\<lparr>pChains := m\<rparr>) n)))"

text \<open>
  What a caller passes: nothing, a connector with its current session, a session, or something
  else. A connector without a session is asked for the peer of a nil session.
\<close>

datatype rpc_target = NilTarget | GetterTarget "nat option" | SessionTarget nat | OtherTarget

definition getPeerSession :: "rpc_target \<Rightarrow> net \<Rightarrow> (nat \<times> nat) run" where
  "getPeerSession ud n =
     (case ud of
        NilTarget \<Rightarrow> Err ErrInvalidPeerSession
      | GetterTarget None \<Rightarrow> Panic NilDereference
      | GetterTarget (Some s) \<Rightarrow> Ok (s, sPeer (sessions n ! s))
      | SessionTarget s \<Rightarrow> Ok (s, sPeer (sessions n ! s))
      | OtherTarget \<Rightarrow> Err ErrInvalidPeerSession)"

definition send_request :: "callbacks \<Rightarrow> nat \<Rightarrow> int \<Rightarrow> message option \<Rightarrow> net \<Rightarrow> net run" where
  "send_request cb s rpcid reqMsg n =
     (let (a, n) = NewEvent Event_Send (Some s) n; (fb, n) = rpc_ChainSend n
      in RawSend cb s a (upd_event a (\<lambda>ev. ev\<lparr>evTransmitTag := Some (AnyInt64 rpcid), evMsg := reqMsg,
           evChainSend := Some fb\<rparr>) n))"

text \<open>
  \<^verbatim>\<open>Call\<close> yields the number of the chain; the timer that it starts runs \<open>call_timeout\<close> later.
\<close>

definition Call :: "callbacks \<Rightarrow> rpc_target \<Rightarrow> message option \<Rightarrow> string \<Rightarrow> nat \<Rightarrow> net \<Rightarrow> (int \<times> net) run" where
  "Call cb sesOrPeer reqMsg ackMsgName userCallback n =
     bind_go (getPeerSession sesOrPeer n) (\<lambda>(s, p).
     bind_go (buildRecvHandler p ackMsgName (CallbackHandler userCallback) n) (\<lambda>(rpcid, n).
     bind_go (send_request cb s rpcid reqMsg n) (\<lambda>n. Ok (rpcid, n))))"

definition call_timeout :: "nat \<Rightarrow> int \<Rightarrow> net \<Rightarrow> net" where
  "call_timeout p rpcid = upd_peer p (\<lambda>pe. pe\<lparr>pChains := RemoveChainRecv rpcid (pChains pe)\<rparr>)"

text \<open>
  \<^verbatim>\<open>CallSync\<close> up to the point where it waits, with the channel it waits on, and its end: the
  value that was received or, when the timer wins, the error. The chain stays then.
\<close>

definition CallSync_begin :: "callbacks \<Rightarrow> rpc_target \<Rightarrow> message option \<Rightarrow> string \<Rightarrow> net \<Rightarrow> (nat \<times> net) run" where
  "CallSync_begin cb ud reqMsg ackMsgName n =
     bind_go (getPeerSession ud n) (\<lambda>(s, p).
     let r = length (rets n); n = n\<lparr>rets := rets n @ [\<lparr>rcWaiting = True, rcValues = []\<rparr>]\<rparr>
     in bind_go (buildRecvHandler p ackMsgName (RetChanHandler r) n) (\<lambda>(rpcid, n).
        bind_go (send_request cb s rpcid reqMsg n) (\<lambda>n. Ok (r, n))))"

definition CallSync_end :: "nat \<Rightarrow> net \<Rightarrow> (net_error, message option) go \<times> net" where
  "CallSync_end r n =
     (case rcValues (rets n ! r) of
        v # _ \<Rightarrow> (Ok v, n)
      | [] \<Rightarrow> (Err ErrTimeout, n\<lparr>rets := (rets n)[r := (rets n ! r)\<lparr>rcWaiting := False\<rparr>]\<rparr>))"

section \<open>The codec keeps its promise\<close>

fun gzero :: "gval \<Rightarrow> gval" where
  "gzero (GBool b) = GBool False"
| "gzero (GInt k w) = GInt k 0"
| "gzero (GString s) = GString []"
| "gzero (GBools p) = GBools None"
| "gzero (GInts k p) = GInts k None"
| "gzero (GStrings p) = GStrings None"
| "gzero g = GOther"

fun plain_field :: "gval \<Rightarrow> bool" where
  "plain_field (GPtr p) = False"
| "plain_field (GPtrs p) = False"
| "plain_field GOther = False"
| "plain_field g = True"

lemma of_to_bval: "plain_field g \<Longrightarrow> of_bval (gzero g) (to_bval g) = g"
  by (cases g) (auto simp: option.map_comp comp_def option.map_ident)

lemma map_of_to_bval: "list_all plain_field gs \<Longrightarrow> map2 of_bval (map gzero gs) (map to_bval gs) = gs"
  by (induction gs) (simp_all add: of_to_bval)

definition binary_good :: "struct_types \<Rightarrow> (string \<Rightarrow> gval list) \<Rightarrow> message \<Rightarrow> bool" where
  "binary_good tys zeros m \<longleftrightarrow>
     (let t = struct_type tys (mType m); v = BStruct (map to_bval (mBody m))
      in mPtr m \<and> carried t v \<and> flat t \<and> bimage t v = v \<and> list_all plain_field (mBody m) \<and>
         zeros (mType m) = map gzero (mBody m))"

definition binary_fresh :: "struct_types \<Rightarrow> (string \<Rightarrow> gval list) \<Rightarrow> message \<Rightarrow> bool" where
  "binary_fresh tys zeros m \<longleftrightarrow>
     mBody m = zeros (mType m) \<and> BStruct (map to_bval (mBody m)) = zero_bval (struct_type tys (mType m))"

interpretation binary: lawful_codec "binaryCodec tys" "binary_good tys zeros" "binary_fresh tys zeros" for tys zeros
proof
  fix m
  assume good: "binary_good tys zeros m"
  let ?t = "struct_type tys (mType m)" and ?v = "BStruct (map to_bval (mBody m))"
  have c: "carried ?t ?v" "flat ?t" "bimage ?t ?v = ?v" "mPtr m"
    and z: "list_all plain_field (mBody m)" "zeros (mType m) = map gzero (mBody m)"
    using good by (simp_all add: binary_good_def Let_def)
  from dataSize_flat(1) [OF c(1,2)] BinaryWrite_reads [OF c(1), of "int (length (bwire ?t ?v))"] obtain d where
    d: "BinaryWrite ?t ?v = Ok d" "BinaryRead ?t (zero_bval ?t) d = Ok ?v"
    using c(3) by auto
  have "binary_Decode tys d m0 = Ok m" if m0: "mType m0 = mType m" "mPtr m0" "binary_fresh tys zeros m0" for m0
  proof -
    have body: "mBody m0 = map gzero (mBody m)" "BStruct (map to_bval (mBody m0)) = zero_bval ?t"
      using m0(1) z(2) m0(3) [unfolded binary_fresh_def] by metis+
    then have "binary_Decode tys d m0 = Ok (m0\<lparr>mBody := map2 of_bval (mBody m0) (map to_bval (mBody m))\<rparr>)"
      using d(2) m0(1) by (simp add: binary_Decode_def)
    also have "map2 of_bval (mBody m0) (map to_bval (mBody m)) = mBody m"
      using z(1) unfolding body(1) by (rule map_of_to_bval)
    also have "m0\<lparr>mBody := mBody m\<rparr> = m"
      using m0 c(4) by simp
    finally show ?thesis .
  qed
  with d(1) show "\<exists>d. cEncode (binaryCodec tys) m = Ok d \<and>
      (\<forall>m0. mType m0 = mType m \<and> mPtr m0 \<and> binary_fresh tys zeros m0 \<longrightarrow> cDecode (binaryCodec tys) d m0 = Ok m)"
    by (auto simp: binaryCodec_def binary_Encode_def)
qed

section \<open>The tables after the initialisers\<close>

definition core_zeros :: "string \<Rightarrow> gval list" where
  "core_zeros t = (case map_of core_messages t of Some (z, i) \<Rightarrow> z | None \<Rightarrow> [])"

definition call_meta :: MessageMeta where
  "call_meta = \<lparr>meta_Type = \<lparr>tName = ''RemoteCallACK'', tZero = call_zero\<rparr>, meta_Name = ''coredef.RemoteCallACK'',
     meta_ID = 14297662, meta_Codec = Some (binaryCodec core_types)\<rparr>"

definition core_ready :: "net \<Rightarrow> bool" where
  "core_ready n \<longleftrightarrow> metas_ok n \<and> metaByID n 14297662 = Some call_meta"

lemma core_ready_tables:
  assumes "core_ready n"
  shows "MessageMetaByName n ''coredef.RemoteCallACK'' = Some call_meta"
    "metaByType n ''RemoteCallACK'' = Some call_meta" "MessageMetaByID n 14297662 = Some call_meta"
proof -
  have "metas_ok n" "metaByID n (meta_ID call_meta) = Some call_meta"
    using assms by (simp_all add: core_ready_def call_meta_def)
  then show "MessageMetaByName n ''coredef.RemoteCallACK'' = Some call_meta"
    "metaByType n ''RemoteCallACK'' = Some call_meta" "MessageMetaByID n 14297662 = Some call_meta"
    unfolding metas_ok_def MessageMetaByName_def MessageMetaByID_def by (simp_all add: call_meta_def)
qed

lemma register_all_ok: "register_all ms n = Ok n' \<Longrightarrow> metas_ok n \<Longrightarrow> metas_ok n'"
  by (induction ms n rule: register_all.induct) (auto simp: go_elims dest: RegisterMessageMeta_ok)

lemma init_core_ok: "\<exists>n. init_core empty_net = Ok n \<and> core_ready n"
proof -
  have "\<exists>n. init_core empty_net = Ok n \<and> metaByID n 14297662 = Some call_meta"
    by (simp add: init_core_def RegisterCodec_def empty_net_def core_messages_def RegisterMessageMeta_def FetchCodec_def
        Let_def call_meta_def)
  moreover have "metas_ok n" if "init_core empty_net = Ok n" for n
    using that metas_ok_empty register_all_ok RegisterCodec_ok unfolding init_core_def go_elims by blast
  ultimately show ?thesis
    by (auto simp: core_ready_def)
qed

lemma core_hashes:
  "StringHash ''SessionAccepted'' = 2087448307" "StringHash ''SessionConnected'' = 3159799620"
  "StringHash ''SessionAcceptFailed'' = 3257237101" "StringHash ''SessionConnectFailed'' = 290677256"
  "StringHash ''SessionClosed'' = 1747213404" "StringHash ''RemoteCallACK'' = 14297662"
  by (rule StringHash_eqI, simp add: shift8_def shift_int_def)+

text \<open>
  The initialisers of the binary codec and of \<^verbatim>\<open>coredef\<close> register the six system messages
  without a collision, and the literal numbers of the generated file are the hashes of the
  type names. (The sproto messages get the hash of the name with the package in front.)
\<close>

theorem core_messages_ids:
  "(\<exists>n. init_core empty_net = Ok n \<and> core_ready n) \<and>
   map (\<lambda>(t, z, i). i) core_messages = map (\<lambda>(t, z, i). StringHash t) core_messages"
  using init_core_ok by (simp add: core_messages_def core_hashes)

section \<open>The envelope\<close>

lemma take_bit_ucast:
  "take_bit 8 (ucast (x :: 8 word) :: u64) = ucast x" "take_bit 32 (ucast (y :: 32 word) :: u64) = ucast y"
  by (rule bit_word_eqI, auto simp: bit_simps dest: bit_imp_le_length)+

lemma signed_take_bit_all: "signed_take_bit 63 (z :: u64) = z"
proof (rule bit_word_eqI)
  fix k
  assume "k < LENGTH(64)"
  then have "k < 63 \<or> k = 63" by auto
  then show "bit (signed_take_bit 63 z) k = bit z k"
    by (auto simp: bit_simps min_def)
qed

lemma carried_bytes: "list_all (carried (BTInt KUint8)) (map BInt (map ucast (d :: bytes)))"
  by (simp add: list_all_iff set_int_def take_bit_ucast)

lemma bimage_bytes: "map (bimage (BTInt KUint8)) (map BInt ws) = map BInt ws"
  by simp

lemma RemoteCallACK_good:
  assumes "length d < 2 ^ 31"
  shows "binary_good core_types core_zeros (RemoteCallACK i (Some d) callid)"
proof -
  have "struct_type core_types ''RemoteCallACK'' = call_type" "core_zeros ''RemoteCallACK'' = call_zero"
    by (simp_all add: struct_type_def core_types_def core_zeros_def core_messages_def)
  then show ?thesis
    using assms carried_bytes [of d]
    by (simp add: binary_good_def Let_def RemoteCallACK_def call_type_def call_zero_def exported_def set_int_def
        take_bit_ucast signed_take_bit_all)
qed

lemma call_fresh: "binary_fresh core_types core_zeros \<lparr>mType = ''RemoteCallACK'', mPtr = True, mBody = call_zero\<rparr>"
  by (simp add: binary_fresh_def core_zeros_def core_messages_def struct_type_def core_types_def call_type_def call_zero_def)

text \<open>The wire form of an envelope; it does not depend on the process that writes it.\<close>

definition envelope :: "u32 \<Rightarrow> bytes \<Rightarrow> int \<Rightarrow> bytes" where
  "envelope i d callid = (case binary_Encode core_types (RemoteCallACK i (Some d) callid) of Ok w \<Rightarrow> w | _ \<Rightarrow> [])"

lemma envelope_messages:
  assumes "core_ready n" "length d < 2 ^ 31"
  shows "EncodeMessage n (Some (RemoteCallACK i (Some d) callid)) = Ok (Some (envelope i d callid), 14297662, None)"
    "DecodeMessage n 14297662 (Some (envelope i d callid)) = Ok (Some (RemoteCallACK i (Some d) callid), None)"
proof -
  let ?m = "RemoteCallACK i (Some d) callid"
  have m: "mType ?m = ''RemoteCallACK''"
    by (simp add: RemoteCallACK_def)
  have meta: "MessageMetaByType n ?m = Some call_meta" "metas_ok n"
    using core_ready_tables [OF assms(1)] assms(1) m by (simp_all add: MessageMetaByType_def core_ready_def)
  have "binary_fresh core_types core_zeros \<lparr>mType = mType ?m, mPtr = True, mBody = tZero (meta_Type call_meta)\<rparr>"
    using call_fresh m by (simp add: call_meta_def)
  from binary.message_round_trip [OF meta(2) RemoteCallACK_good [OF assms(2)] meta(1) _ this] obtain w where
    w: "EncodeMessage n (Some ?m) = Ok (Some w, 14297662, None)" "DecodeMessage n 14297662 (Some w) = Ok (Some ?m, None)"
    by (auto simp: call_meta_def)
  have "w = envelope i d callid"
    using w(1) meta(1) by (auto simp: EncodeMessage_def call_meta_def envelope_def binaryCodec_def split: go.splits)
  with w show "EncodeMessage n (Some ?m) = Ok (Some (envelope i d callid), 14297662, None)"
    "DecodeMessage n 14297662 (Some (envelope i d callid)) = Ok (Some ?m, None)"
    by simp_all
qed

definition int64 :: "int \<Rightarrow> bool" where
  "int64 i \<longleftrightarrow> - (2 ^ 63) \<le> i \<and> i < 2 ^ 63"

lemma sint_int64: "int64 i \<Longrightarrow> sint (word_of_int i :: u64) = i"
  by (simp add: int64_def signed_of_int signed_take_bit_int_eq_self)

lemma ucast_ucast_id: "ucast (ucast (x :: 32 word) :: 64 word) = x" "ucast (ucast (y :: 8 word) :: 64 word) = y"
  by (rule bit_word_eqI, simp add: bit_simps)+

lemma Unbox_RemoteCallACK:
  assumes "evMsg (event n a) = Some (RemoteCallACK i (Some d) callid)" "int64 callid"
  shows "Unbox_Call fb a n =
    Ok (upd_event a (\<lambda>ev. ev\<lparr>evMsgID := i, evData := Some d, evTransmitTag := Some (AnyInt64 callid), evChainSend := Some fb\<rparr>) n)"
  using assms by (simp add: Unbox_Call_def RemoteCallACK_def sint_int64 ucast_ucast_id comp_def)

lemma core_ready_upd [simp]: "core_ready (upd_event a f n) = core_ready n"
  by (simp add: core_ready_def upd_event_def metas_ok_def)

text \<open>The event when the envelope is open, and when the message inside is decoded.\<close>

definition unboxed :: "HandlerChain \<Rightarrow> HandlerChain \<Rightarrow> u32 \<Rightarrow> bytes \<Rightarrow> int \<Rightarrow> message \<Rightarrow> nat \<Rightarrow> net \<Rightarrow> net" where
  "unboxed c fb i d callid m a n =
     upd_event a (\<lambda>ev. ev\<lparr>evChainid := chain_id c, evMsgID := i, evData := Some d,
       evTransmitTag := Some (AnyInt64 callid), evChainSend := Some fb, evR := Result_OK, evMsg := Some m\<rparr>) n"

definition carries :: "net \<Rightarrow> nat \<Rightarrow> u32 \<Rightarrow> bytes \<Rightarrow> int \<Rightarrow> bool" where
  "carries n a i d callid \<longleftrightarrow> core_ready n \<and> a < length (events n) \<and> Result_of n a = Result_OK \<and>
     length d < 2 ^ 31 \<and> int64 callid \<and>
     evMsgID (event n a) = 14297662 \<and> evData (event n a) = Some (envelope i d callid)"

definition rpc_shape :: "HandlerChain \<Rightarrow> HandlerChain \<Rightarrow> u32 \<Rightarrow> EventHandler list \<Rightarrow> bool" where
  "rpc_shape c fb j hs \<longleftrightarrow> chain_list c =
     MatchMsgIDHandler 14297662 # DecodePacketHandler # UnboxHandler fb # MatchMsgIDHandler j # DecodePacketHandler # hs"

lemma upd_event_cong:
  "a < length (events n) \<Longrightarrow> f (event n a) = g (event n a) \<Longrightarrow> upd_event a f n = upd_event a g n"
  by (simp add: upd_event_def event_def)

lemma rpc_chain_opens:
  assumes "carries n a i d callid" "rpc_shape c fb j hs"
  shows "HandlerChain_Call cb c a n =
    callList cb (MatchMsgIDHandler j # DecodePacketHandler # hs) a
      (unboxed c fb i d callid (RemoteCallACK i (Some d) callid) a n)"
proof -
  let ?m = "RemoteCallACK i (Some d) callid"
  have a: "a < length (events n)" "Result_of n a = Result_OK" and r: "evR (event n a) = Result_OK"
    using assms(1) by (simp_all add: carries_def Result_of_def)
  have "HandlerChain_Call cb c a n =
      callList cb (UnboxHandler fb # MatchMsgIDHandler j # DecodePacketHandler # hs) a (delivered c ?m a n)"
    using assms envelope_messages(2) by (intro registered_chain_cases(3) [OF a]) (auto simp: carries_def rpc_shape_def)
  also have "\<dots> = callList cb (MatchMsgIDHandler j # DecodePacketHandler # hs) a (unboxed c fb i d callid ?m a n)"
  proof -
    let ?n = "delivered c ?m a n"
    have "Unbox_Call fb a ?n = Ok (upd_event a (\<lambda>ev. ev\<lparr>evMsgID := i, evData := Some d,
        evTransmitTag := Some (AnyInt64 callid), evChainSend := Some fb\<rparr>) ?n)"
      using assms(1) a by (intro Unbox_RemoteCallACK) (simp_all add: delivered_def carries_def)
    also have "\<dots> = Ok (unboxed c fb i d callid ?m a n)"
      using a r by (simp add: delivered_def unboxed_def upd_event_twice comp_def) (rule upd_event_cong, simp_all)
    finally show ?thesis
      using a by (simp add: Result_of_def unboxed_def)
  qed
  finally show ?thesis .
qed

lemma unboxed_facts:
  assumes "a < length (events n)" and n': "n' = unboxed c fb i d callid m a n"
  shows "Result_of n' a = Result_OK" "evMsgID (event n' a) = i" "evData (event n' a) = Some d"
    "DecodeMessage n' i x = DecodeMessage n i x" "a < length (events n')" "queues n' = queues n"
  using assms by (simp_all add: unboxed_def Result_of_def) (simp add: upd_event_def)

lemma rpc_chain_run:
  assumes "carries n a i d callid" "rpc_shape c fb j hs"
  shows "i \<noteq> j \<Longrightarrow> HandlerChain_Call cb c a n = Ok (unboxed c fb i d callid (RemoteCallACK i (Some d) callid) a n)"
    and "i = j \<Longrightarrow> DecodeMessage n i (Some d) = Ok (Some req, None) \<Longrightarrow>
      HandlerChain_Call cb c a n = callList cb hs a (unboxed c fb i d callid req a n)"
proof -
  have a: "a < length (events n)"
    using assms by (simp add: carries_def)
  note u = unboxed_facts [OF a refl, of c fb i d callid]
  let ?m = "RemoteCallACK i (Some d) callid"
  show "HandlerChain_Call cb c a n = Ok (unboxed c fb i d callid ?m a n)" if "i \<noteq> j"
    using that rpc_chain_opens [OF assms] u a
    by (simp add: MatchMsgID_Call_def SetResult_def Result_of_def)
      (simp add: unboxed_def upd_event_twice comp_def, rule upd_event_cong, simp_all)
  show "HandlerChain_Call cb c a n = callList cb hs a (unboxed c fb i d callid req a n)"
    if "i = j" "DecodeMessage n i (Some d) = Ok (Some req, None)"
    using that rpc_chain_opens [OF assms] u a
    by (simp add: MatchMsgID_Call_def DecodePacket_Call_def errToResult_def Let_def Result_of_def)
      (simp add: unboxed_def upd_event_twice comp_def)
qed

lemma Box_Call_envelope:
  assumes "core_ready n" "evTransmitTag (event n a) = Some (AnyInt64 callid)" "evData (event n a) = Some d" "length d < 2 ^ 31"
  shows "Box_Call a n = Ok (upd_event a (\<lambda>ev. ev\<lparr>evData := Some (envelope (evMsgID (event n a)) d callid),
    evMsgID := 14297662, evMsg := None\<rparr>) n)"
  using assms envelope_messages(1) [OF assms(1,4)] by (simp add: Box_Call_def FromMessage_def)

text \<open>
  C17: A remote call arrives as it was sent. What \<^verbatim>\<open>BoxHandler\<close> puts on the wire is an envelope
  from which the receive chain of the other side restores the number and the payload of the
  message and the number of the call. A chain that waits for this message decodes it and
  posts its handlers once, with the chain for the reply in the event; a chain that waits for
  another message posts nothing and leaves the result \<^verbatim>\<open>OK\<close>.
\<close>

theorem rpc_envelope:
  assumes "core_ready n" "a < length (events n)" "evTransmitTag (event n a) = Some (AnyInt64 callid)" "int64 callid"
    and "evData (event n a) = Some d" "length d < 2 ^ 31" and i: "i = evMsgID (event n a)"
    and "core_ready m" "b < length (events m)" "Result_of m b = Result_OK" "evMsgID (event m b) = 14297662"
    and "rpc_shape c fb j [QueuePostHandler (Some q) hs]" "DecodeMessage m j (Some d) = Ok (Some req, None)"
    and wire: "Box_Call a n = Ok n'" "evData (event m b) = evData (event n' a)"
  shows "(i = j \<longrightarrow> HandlerChain_Call cb c b m =
      Ok ((unboxed c fb i d callid req b m)\<lparr>queues := (queues m)[q := queues m ! q @ [(hs, b)]]\<rparr>)) \<and>
    (i \<noteq> j \<longrightarrow> (\<exists>m'. HandlerChain_Call cb c b m = Ok m' \<and> queues m' = queues m \<and> Result_of m' b = Result_OK))"
proof -
  have "n' = upd_event a (\<lambda>ev. ev\<lparr>evData := Some (envelope i d callid), evMsgID := 14297662, evMsg := None\<rparr>) n"
    using Box_Call_envelope [OF assms(1,3,5,6)] wire(1) i by simp
  then have c: "carries m b i d callid"
    using assms wire(2) by (simp add: carries_def)
  note u = unboxed_facts [OF assms(9) refl, of c fb i d callid]
  show ?thesis
    using rpc_chain_run [OF c assms(12), where cb = cb] assms(13) u
    by (auto simp: QueuePost_Call_def Post_def Result_of_def event_def)
qed

section \<open>Requests and replies\<close>

lemma EncodeMessage_cong: "metaByType n' = metaByType n \<Longrightarrow> EncodeMessage n' x = EncodeMessage n x"
  by (cases x) (simp_all add: EncodeMessage_def MessageMetaByType_def)

lemma core_ready_cong:
  "metaByName n' = metaByName n \<Longrightarrow> metaByID n' = metaByID n \<Longrightarrow> metaByType n' = metaByType n \<Longrightarrow>
     core_ready n' = core_ready n"
  using metas_ok_cong [of n' n] by (simp add: core_ready_def)

lemma NewEvent_shape:
  "\<exists>u v. NewEvent t ses n = (length (events n), n\<lparr>evuid := u, events := events n @ [(new_Event t ses)\<lparr>evUID := v\<rparr>]\<rparr>)"
  by (simp add: NewEvent_def genSesEvUID_def Let_def) (metis net.surjective net.update_convs(8))

lemma NewEvent_eqs:
  assumes "NewEvent t ses n = (a, n1)"
  shows "a = length (events n)" "length (events n1) = Suc a" "evType (event n1 a) = t" "evSes (event n1 a) = ses"
    "evR (event n1 a) = Result_OK" "peers n1 = peers n" "sessions n1 = sessions n" "rets n1 = rets n" "queues n1 = queues n"
    "core_ready n1 = core_ready n" "EncodeMessage n1 x = EncodeMessage n x"
    "b < length (events n) \<Longrightarrow> event n1 b = event n b" "debugEnabled n1 = debugEnabled n"
proof -
  obtain u v where "NewEvent t ses n = (length (events n), n\<lparr>evuid := u, events := events n @ [(new_Event t ses)\<lparr>evUID := v\<rparr>]\<rparr>)"
    using NewEvent_shape by blast
  with assms have n1: "n1 = n\<lparr>evuid := u, events := events n @ [(new_Event t ses)\<lparr>evUID := v\<rparr>]\<rparr>" and a: "a = length (events n)"
    by auto
  show "a = length (events n)" "length (events n1) = Suc a" "evType (event n1 a) = t" "evSes (event n1 a) = ses"
    "evR (event n1 a) = Result_OK" "peers n1 = peers n" "sessions n1 = sessions n" "rets n1 = rets n" "queues n1 = queues n"
    "b < length (events n) \<Longrightarrow> event n1 b = event n b" "debugEnabled n1 = debugEnabled n"
    unfolding n1 a by (simp_all add: new_Event_def event_def nth_append)
  show "core_ready n1 = core_ready n"
    unfolding n1 by (rule core_ready_cong) simp_all
  show "EncodeMessage n1 x = EncodeMessage n x"
    unfolding n1 by (rule EncodeMessage_cong) simp
qed

lemma keeps_upd_event [simp]:
  "peers (upd_event a f n) = peers n" "sessions (upd_event a f n) = sessions n" "rets (upd_event a f n) = rets n"
  "queues (upd_event a f n) = queues n" "debugEnabled (upd_event a f n) = debugEnabled n"
  by (simp_all add: upd_event_def)

lemma EncodeMessage_upd [simp]: "EncodeMessage (upd_event a f n) x = EncodeMessage n x"
  by (rule EncodeMessage_cong) (simp add: upd_event_def)

lemma Box_only: "Box_Call a n = Ok n' \<Longrightarrow> \<exists>f. n' = upd_event a f n"
  by (auto simp: Box_Call_def FromMessage_def Let_def go_elims split: option.splits any.splits)

lemma EncodePacket_only:
  assumes "EncodePacket_Call a n = Ok n'"
  shows "peers n' = peers n \<and> rets n' = rets n \<and> queues n' = queues n"
  using assms by (auto simp: EncodePacket_Call_def Let_def go_elims SetResult_def)

lemma MsgLog_only: "MsgLog a n = Ok n' \<Longrightarrow> peers n' = peers n \<and> rets n' = rets n \<and> queues n' = queues n"
  by (auto simp: MsgLog_def Parse_def Let_def go_elims split: if_splits option.splits)

lemma rpc_chain_only:
  assumes "HandlerChain_Call cb (HandlerChain k [EncodePacketHandler, BoxHandler]) a n = Ok n'"
  shows "peers n' = peers n \<and> rets n' = rets n \<and> queues n' = queues n"
  using assms by (auto simp: HandlerChain_Call_def go_elims SetResult_def dest!: EncodePacket_only Box_only split: if_splits)

lemma RawSend_only:
  assumes "RawSend cb s a n = Ok n'" "evChainSend (event n a) = Some (HandlerChain k [EncodePacketHandler, BoxHandler])"
    "a < length (events n)"
  shows "peers n' = peers n \<and> rets n' = rets n \<and> queues n' = queues n"
  using assms
  by (auto simp: RawSend_def Let_def go_elims upd_session_def dest!: rpc_chain_only MsgLog_only split: if_splits)

lemma send_request_only:
  assumes "send_request cb s rpcid req n = Ok n'"
  shows "peers n' = peers n \<and> rets n' = rets n \<and> queues n' = queues n"
proof -
  obtain a n1 where new: "NewEvent Event_Send (Some s) n = (a, n1)"
    by fastforce
  note n1 = NewEvent_eqs [OF new]
  let ?n2 = "n1\<lparr>chainidgen := chainidgen n1 + 1\<rparr>"
  let ?fb = "HandlerChain (chainidgen n1 + 1) [EncodePacketHandler, BoxHandler]"
  let ?f = "\<lambda>ev. ev\<lparr>evTransmitTag := Some (AnyInt64 rpcid), evMsg := req, evChainSend := Some ?fb\<rparr>"
  have "RawSend cb s a (upd_event a ?f ?n2) = Ok n'"
    using assms new by (simp add: send_request_def rpc_ChainSend_def NewHandlerChain_def genChainID_def AddAny_def Let_def)
  then have "peers n' = peers (upd_event a ?f ?n2) \<and> rets n' = rets (upd_event a ?f ?n2) \<and> queues n' = queues (upd_event a ?f ?n2)"
    by (rule RawSend_only) (simp_all add: n1)
  then show ?thesis
    by (simp add: n1)
qed

text \<open>The chain that waits for the answer of one call.\<close>

definition waiting_chain :: "net \<Rightarrow> nat \<Rightarrow> u32 \<Rightarrow> EventHandler \<Rightarrow> int \<Rightarrow> HandlerChain \<Rightarrow> bool" where
  "waiting_chain n p ack tail rpcid c \<longleftrightarrow>
     (\<exists>fb. rpc_shape c fb ack [QueuePostHandler (pQueue (peers n ! p)) [tail, RemoveRecvHandler p rpcid]] \<and>
       chain_list fb = [EncodePacketHandler, BoxHandler])"

lemma MetaCall_ready: "core_ready n \<Longrightarrow> MetaCall n = Ok call_meta"
  by (simp add: MetaCall_def core_ready_tables(1))

lemma rpc_chain_eq:
  "\<exists>c fb. rpc_chain 14297662 j q hs n = (c, n\<lparr>chainidgen := chainidgen n + 2\<rparr>) \<and>
     rpc_shape c fb j [QueuePostHandler q hs] \<and> chain_list fb = [EncodePacketHandler, BoxHandler]"
  by (simp add: rpc_chain_def rpc_ChainSend_def NewHandlerChain_def genChainID_def AddAny_def Let_def rpc_shape_def)

lemma buildRecvHandler_adds:
  assumes "core_ready n" "p < length (peers n)" "MessageMetaByName n ack = Some meta"
  shows "\<exists>c n'. buildRecvHandler p ack tail n = Ok (fst (AddChainRecv c (pChains (peers n ! p))), n') \<and>
    waiting_chain n p (meta_ID meta) tail (fst (AddChainRecv c (pChains (peers n ! p)))) c \<and>
    rets n' = rets n \<and> queues n' = queues n \<and> sessions n' = sessions n \<and> core_ready n' \<and>
    (\<forall>x. EncodeMessage n' x = EncodeMessage n x) \<and>
    peers n' = (peers n)[p := (peers n ! p)\<lparr>pChains := snd (AddChainRecv c (pChains (peers n ! p)))\<rparr>]"
proof -
  let ?m = "pChains (peers n ! p)"
  obtain c fb where c: "rpc_chain 14297662 (meta_ID meta) (pQueue (peers n ! p)) [tail, RemoveRecvHandler p (chainIDAcc ?m + 1)] n =
      (c, n\<lparr>chainidgen := chainidgen n + 2\<rparr>)"
    "rpc_shape c fb (meta_ID meta) [QueuePostHandler (pQueue (peers n ! p)) [tail, RemoveRecvHandler p (chainIDAcc ?m + 1)]]"
    "chain_list fb = [EncodePacketHandler, BoxHandler]"
    using rpc_chain_eq by blast
  have "buildRecvHandler p ack tail n =
      Ok (fst (AddChainRecv c ?m), upd_peer p (\<lambda>pe. pe\<lparr>pChains := snd (AddChainRecv c ?m)\<rparr>) (n\<lparr>chainidgen := chainidgen n + 2\<rparr>))"
    using assms c(1) by (simp add: buildRecvHandler_def MetaCall_ready call_meta_def AddChainRecv_def Let_def)
  moreover have "waiting_chain n p (meta_ID meta) tail (fst (AddChainRecv c ?m)) c"
    using c(2,3) by (auto simp: waiting_chain_def AddChainRecv_def Let_def)
  moreover have "core_ready (upd_peer p f (n\<lparr>chainidgen := k\<rparr>))"
    "EncodeMessage (upd_peer p f (n\<lparr>chainidgen := k\<rparr>)) x = EncodeMessage n x" for f k x
    using assms(1) core_ready_cong [of "upd_peer p f (n\<lparr>chainidgen := k\<rparr>)" n]
      EncodeMessage_cong [of "upd_peer p f (n\<lparr>chainidgen := k\<rparr>)" n x] by (simp_all add: upd_peer_def)
  ultimately show ?thesis
    by (intro exI [of _ c]) (simp, simp add: upd_peer_def)
qed

abbreviation peer_entries :: "nat \<Rightarrow> net \<Rightarrow> (int \<times> HandlerChain) multiset" where
  "peer_entries p n \<equiv> chain_entries (pChains (peers n ! p))"

lemma entries_after_add:
  assumes "p < length (peers n)" "chains_ok (pChains (peers n ! p))"
    and "peers n' = (peers n)[p := (peers n ! p)\<lparr>pChains := snd (AddChainRecv c (pChains (peers n ! p)))\<rparr>]"
  shows "peer_entries p n' = add_mset (fst (AddChainRecv c (pChains (peers n ! p))), c) (peer_entries p n)"
    "peer_entries p (call_timeout p (fst (AddChainRecv c (pChains (peers n ! p)))) n') = peer_entries p n"
  using assms chains.add_entries [OF assms(2), of c] chains.add_remove [OF assms(2), of c]
  by (simp_all add: call_timeout_def upd_peer_def)

lemma entries_after_build:
  assumes "core_ready n" "p < length (peers n)" "MessageMetaByName n ack = Some meta" "chains_ok (pChains (peers n ! p))"
    and "buildRecvHandler p ack tail n = Ok (rpcid, n1)" "send_request cb s rpcid req n1 = Ok n'"
  shows "\<exists>c. waiting_chain n p (meta_ID meta) tail rpcid c \<and> peer_entries p n' = add_mset (rpcid, c) (peer_entries p n) \<and>
    peer_entries p (call_timeout p rpcid n') = peer_entries p n \<and> rets n' = rets n \<and> queues n' = queues n"
proof -
  from buildRecvHandler_adds [OF assms(1-3), of tail] assms(5) obtain c where
    id: "rpcid = fst (AddChainRecv c (pChains (peers n ! p)))" and c: "waiting_chain n p (meta_ID meta) tail rpcid c"
    and n1: "rets n1 = rets n" "queues n1 = queues n"
      "peers n1 = (peers n)[p := (peers n ! p)\<lparr>pChains := snd (AddChainRecv c (pChains (peers n ! p)))\<rparr>]"
    by auto
  have n': "peers n' = peers n1" "rets n' = rets n1" "queues n' = queues n1"
    using send_request_only [OF assms(6)] by simp_all
  with entries_after_add [OF assms(2,4), of n' c] c n1 show ?thesis
    by (auto simp: id)
qed

text \<open>
  The chain of an asynchronous call. \<^verbatim>\<open>Call\<close> registers exactly one chain, which waits for the
  answer's message under the number that the request carries; when the timer fires, or when
  the posted handlers of an answer have run, the table of the peer is what it was before.
\<close>

theorem Call_leaves_no_chain:
  assumes "core_ready n" "getPeerSession target n = Ok (s, p)" "p < length (peers n)" "chains_ok (pChains (peers n ! p))"
    and "MessageMetaByName n ack = Some meta" "Call cb target req ack k n = Ok (rpcid, n')"
  shows "\<exists>c. waiting_chain n p (meta_ID meta) (CallbackHandler k) rpcid c \<and>
      peer_entries p n' = add_mset (rpcid, c) (peer_entries p n) \<and> (rpcid, c) \<notin># peer_entries p n \<and>
      peer_entries p (call_timeout p rpcid n') = peer_entries p n \<and>
      (\<forall>m. callHandler cb (RemoveRecvHandler p rpcid) a m = Ok (call_timeout p rpcid m))"
proof -
  from assms(2,6) obtain n1 where n1: "buildRecvHandler p ack (CallbackHandler k) n = Ok (rpcid, n1)"
      "send_request cb s rpcid req n1 = Ok n'"
    by (auto simp: Call_def go_elims)
  then obtain c where c: "waiting_chain n p (meta_ID meta) (CallbackHandler k) rpcid c"
      "peer_entries p n' = add_mset (rpcid, c) (peer_entries p n)" "peer_entries p (call_timeout p rpcid n') = peer_entries p n"
    using entries_after_build [OF assms(1,3,5,4)] by blast
  moreover have "(rpcid, c) \<notin># peer_entries p n"
  proof -
    from buildRecvHandler_adds [OF assms(1,3,5), of "CallbackHandler k"] n1(1)
    obtain d where "rpcid = fst (AddChainRecv d (pChains (peers n ! p)))"
      by auto
    then show ?thesis
      using chains.add_fresh [OF assms(4)] by simp
  qed
  ultimately show ?thesis
    by (auto simp: call_timeout_def)
qed

text \<open>The task that an answer to a synchronous call posts.\<close>

abbreviation sync_task :: "nat \<Rightarrow> nat \<Rightarrow> int \<Rightarrow> EventHandler list" where
  "sync_task r p rpcid \<equiv> [RetChanHandler r, RemoveRecvHandler p rpcid]"

lemma CallSync_begin_facts:
  assumes "core_ready n" "getPeerSession target n = Ok (s, p)" "p < length (peers n)" "chains_ok (pChains (peers n ! p))"
    and "MessageMetaByName n ack = Some meta" "CallSync_begin cb target req ack n = Ok (r, n')"
  shows "\<exists>rpcid c. r = length (rets n) \<and> rets n' = rets n @ [\<lparr>rcWaiting = True, rcValues = []\<rparr>] \<and>
    waiting_chain n p (meta_ID meta) (RetChanHandler r) rpcid c \<and>
    peer_entries p n' = add_mset (rpcid, c) (peer_entries p n) \<and>
    peer_entries p (call_timeout p rpcid n') = peer_entries p n"
proof -
  let ?n = "n\<lparr>rets := rets n @ [\<lparr>rcWaiting = True, rcValues = []\<rparr>]\<rparr>"
  from assms(2,6) obtain rpcid n1 where n1: "buildRecvHandler p ack (RetChanHandler r) ?n = Ok (rpcid, n1)"
      "send_request cb s rpcid req n1 = Ok n'" and r: "r = length (rets n)"
    by (auto simp: CallSync_begin_def Let_def go_elims)
  have "core_ready ?n" "p < length (peers ?n)" "MessageMetaByName ?n ack = Some meta" "chains_ok (pChains (peers ?n ! p))"
    using assms core_ready_cong [of ?n n] by (simp_all add: MessageMetaByName_def)
  from entries_after_build [OF this n1] r show ?thesis
    by (auto simp: waiting_chain_def)
qed

lemma sync_task_runs:
  assumes "rets n ! r = \<lparr>rcWaiting = True, rcValues = []\<rparr>" "r < length (rets n)" "Result_of n a = Result_OK"
  shows "\<exists>n'. HandlerChainCall cb (sync_task r p rpcid) a n = Ok n' \<and> peers n' = peers (call_timeout p rpcid n) \<and>
    fst (CallSync_end r n') = Ok (evMsg (event n a))"
  using assms by (simp add: RetChan_Call_def Result_of_def event_def CallSync_end_def call_timeout_def upd_peer_def)

lemma call_timeout_peers: "peers n = peers m \<Longrightarrow> peers (call_timeout p i n) = peers (call_timeout p i m)"
  by (simp add: call_timeout_def upd_peer_def)

text \<open>
  A synchronous call whose answer is run from the queue while the caller waits gets the
  message of the answer, and the chain that waited for it is gone.
\<close>

theorem CallSync_reply:
  assumes "core_ready n" "getPeerSession target n = Ok (s, p)" "p < length (peers n)" "chains_ok (pChains (peers n ! p))"
    and "MessageMetaByName n ack = Some meta" "CallSync_begin cb target req ack n = Ok (r, n1)"
  shows "\<exists>rpcid c. waiting_chain n p (meta_ID meta) (RetChanHandler r) rpcid c \<and> (rpcid, c) \<in># peer_entries p n1 \<and>
    (\<forall>n2 a q rest. rets n2 = rets n1 \<and> peers n2 = peers n1 \<and> Result_of n2 a = Result_OK \<and>
       queues n2 ! q = (sync_task r p rpcid, a) # rest \<longrightarrow>
       (\<exists>n3. queue_step cb q n2 = Ok n3 \<and> fst (CallSync_end r n3) = Ok (evMsg (event n2 a)) \<and>
          peer_entries p n3 = peer_entries p n))"
proof -
  from CallSync_begin_facts [OF assms] obtain rpcid c where r: "r = length (rets n)"
      "rets n1 = rets n @ [\<lparr>rcWaiting = True, rcValues = []\<rparr>]"
    and c: "waiting_chain n p (meta_ID meta) (RetChanHandler r) rpcid c"
      "peer_entries p n1 = add_mset (rpcid, c) (peer_entries p n)" "peer_entries p (call_timeout p rpcid n1) = peer_entries p n"
    by blast
  have "\<exists>n3. queue_step cb q n2 = Ok n3 \<and> fst (CallSync_end r n3) = Ok (evMsg (event n2 a)) \<and> peer_entries p n3 = peer_entries p n"
    if n2: "rets n2 = rets n1" "peers n2 = peers n1" "Result_of n2 a = Result_OK" "queues n2 ! q = (sync_task r p rpcid, a) # rest"
    for n2 a q rest
  proof -
    let ?n = "n2\<lparr>queues := (queues n2)[q := rest]\<rparr>"
    have "rets ?n ! r = \<lparr>rcWaiting = True, rcValues = []\<rparr>" "r < length (rets ?n)" "Result_of ?n a = Result_OK"
      using n2 r by (simp_all add: Result_of_def event_def nth_append)
    from sync_task_runs [OF this, of cb p rpcid] obtain n3 where
      "HandlerChainCall cb (sync_task r p rpcid) a ?n = Ok n3" "peers n3 = peers (call_timeout p rpcid ?n)"
      "fst (CallSync_end r n3) = Ok (evMsg (event ?n a))"
      by blast
    with n2 c(3) call_timeout_peers [of ?n n1] show ?thesis
      by (simp add: queue_step_def event_def)
  qed
  with c show ?thesis
    by (intro exI [of _ rpcid] exI [of _ c]) auto
qed

text \<open>
  The answer to a synchronous call that has timed out. The chain of the call is still
  registered, so the answer is posted to the queue, and the goroutine that runs the queue
  waits for ever in the handler: nobody receives from the channel any more.
\<close>

theorem CallSync_late_reply:
  assumes "core_ready n" "getPeerSession target n = Ok (s, p)" "p < length (peers n)" "chains_ok (pChains (peers n ! p))"
    and "MessageMetaByName n ack = Some meta" "CallSync_begin cb target req ack n = Ok (r, n1)"
    and "CallSync_end r n1 = (v, n2)"
  shows "v = Err ErrTimeout \<and>
    (\<exists>rpcid c. waiting_chain n p (meta_ID meta) (RetChanHandler r) rpcid c \<and> (rpcid, c) \<in># peer_entries p n2 \<and>
       (\<forall>n3 a q rest. rets n3 = rets n2 \<and> queues n3 ! q = (sync_task r p rpcid, a) # rest \<longrightarrow>
          queue_step cb q n3 = Panic Blocked))"
proof -
  from CallSync_begin_facts [OF assms(1-6)] obtain rpcid c where r: "r = length (rets n)"
      "rets n1 = rets n @ [\<lparr>rcWaiting = True, rcValues = []\<rparr>]"
    and c: "waiting_chain n p (meta_ID meta) (RetChanHandler r) rpcid c" "peer_entries p n1 = add_mset (rpcid, c) (peer_entries p n)"
    by blast
  have n2: "v = Err ErrTimeout" "rets n2 = rets n @ [\<lparr>rcWaiting = False, rcValues = []\<rparr>]" "peers n2 = peers n1"
    using assms(7) r by (auto simp: CallSync_end_def nth_append)
  have "queue_step cb q n3 = Panic Blocked"
    if "rets n3 = rets n2" "queues n3 ! q = (sync_task r p rpcid, a) # rest" for n3 a q rest
    using that n2(2) r(1) by (simp add: queue_step_def RetChan_Call_def nth_append)
  with n2 c show ?thesis
    by (intro conjI exI [of _ rpcid] exI [of _ c]) auto
qed

lemma MsgLog_envelope:
  assumes "core_ready n" "length d < 2 ^ 31" "a < length (events n)"
    and "evMsg (event n a) = None" "evMsgID (event n a) = 14297662" "evData (event n a) = Some (envelope i d callid)"
  shows "\<exists>m. MsgLog a n = Ok (upd_event a (\<lambda>ev. ev\<lparr>evMsg := m\<rparr>) n)"
proof (cases "debugEnabled n")
  case True
  then show ?thesis
    using assms envelope_messages(2) [OF assms(1,2)] by (auto simp: MsgLog_def Parse_def Let_def)
next
  case False
  have "upd_event a (\<lambda>ev. ev\<lparr>evMsg := None\<rparr>) n = upd_event a (\<lambda>ev. ev) n"
    using assms(3,4) by (intro upd_event_cong) simp_all
  then show ?thesis
    using False by (intro exI [of _ None]) (simp add: MsgLog_def upd_event_def)
qed

lemma rpc_send_chain:
  assumes "core_ready n" "a < length (events n)" "evMsg (event n a) = Some ack" "evR (event n a) = Result_OK"
    and "evTransmitTag (event n a) = Some (AnyInt64 callid)" "chain_list fb = [EncodePacketHandler, BoxHandler]"
    and "EncodeMessage n (Some ack) = Ok (Some d, i, None)" "length d < 2 ^ 31"
  shows "HandlerChain_Call cb fb a n = Ok (upd_event a (\<lambda>ev. ev\<lparr>evChainid := chain_id fb,
    evData := Some (envelope i d callid), evMsgID := 14297662, evMsg := None\<rparr>) n)"
proof -
  let ?m = "upd_event a (\<lambda>ev. ev\<lparr>evChainid := chain_id fb, evData := Some d, evMsgID := i\<rparr>) n"
  have "Box_Call a ?m = Ok (upd_event a (\<lambda>ev. ev\<lparr>evData := Some (envelope (evMsgID (event ?m a)) d callid),
      evMsgID := 14297662, evMsg := None\<rparr>) ?m)"
    using assms by (intro Box_Call_envelope) simp_all
  also have "\<dots> = Ok (upd_event a (\<lambda>ev. ev\<lparr>evChainid := chain_id fb,
    evData := Some (envelope i d callid), evMsgID := 14297662, evMsg := None\<rparr>) n)"
    using assms(2) by (simp add: upd_event_twice comp_def)
  finally show ?thesis
    using assms
    by (simp add: HandlerChain_Call_def EncodePacket_Call_def errToResult_def Let_def Result_of_def upd_event_twice comp_def)
qed

lemma RawSend_rpc:
  assumes "core_ready n" "a < length (events n)" "evMsg (event n a) = Some ack" "evR (event n a) = Result_OK"
    and "evTransmitTag (event n a) = Some (AnyInt64 callid)" "chain_list fb = [EncodePacketHandler, BoxHandler]"
    and "EncodeMessage n (Some ack) = Ok (Some d, i, None)" "length d < 2 ^ 31"
    and "evType (event n a) = Event_Send" "evChainSend (event n a) = Some fb" "s < length (sessions n)"
  shows "\<exists>n'. RawSend cb s a n = Ok n' \<and> sSendList (sessions n' ! s) = sSendList (sessions n ! s) @ [Some a] \<and>
    evMsgID (event n' a) = 14297662 \<and> evData (event n' a) = Some (envelope i d callid) \<and>
    Result_of n' a = Result_OK \<and> evSes (event n' a) = Some s"
proof -
  let ?n3 = "upd_event a (\<lambda>ev. ev\<lparr>evSes := Some s\<rparr>) n"
  let ?n4 = "upd_event a (\<lambda>ev. ev\<lparr>evChainid := chain_id fb,
    evData := Some (envelope i d callid), evMsgID := 14297662, evMsg := None\<rparr>) ?n3"
  have n3: "core_ready ?n3" "a < length (events ?n3)" "evMsg (event ?n3 a) = Some ack" "evR (event ?n3 a) = Result_OK"
    "evTransmitTag (event ?n3 a) = Some (AnyInt64 callid)" "EncodeMessage ?n3 (Some ack) = Ok (Some d, i, None)"
    "evChainSend (event ?n3 a) = Some fb" "evSes (event ?n3 a) = Some s" "sessions ?n3 = sessions n"
    using assms by simp_all
  have call: "HandlerChain_Call cb fb a ?n3 = Ok ?n4"
    by (rule rpc_send_chain [OF n3(1-5) assms(6) n3(6) assms(8)])
  obtain m where log: "MsgLog a ?n4 = Ok (upd_event a (\<lambda>ev. ev\<lparr>evMsg := m\<rparr>) ?n4)"
    using MsgLog_envelope [of ?n4 d a i callid] n3(1,2) assms(8) by auto
  let ?n5 = "upd_event a (\<lambda>ev. ev\<lparr>evMsg := m\<rparr>) ?n4"
  have "RawSend cb s a n = Ok (upd_session s (\<lambda>ses. ses\<lparr>sSendList := sSendList ses @ [Some a]\<rparr>) ?n5)"
    using assms(9) n3(7) call log by (simp add: RawSend_def Let_def)
  moreover have "event (upd_session s f ?n5) a = event ?n5 a" for f
    by (simp add: event_def)
  ultimately show ?thesis
    using n3(2,4,8,9) assms(11) by (simp add: Result_of_def) (simp add: upd_session_def)
qed

lemma send_request_ok:
  assumes "core_ready n" "s < length (sessions n)" "EncodeMessage n (Some req) = Ok (Some d, i, None)" "length d < 2 ^ 31"
  shows "\<exists>n'. send_request cb s rpcid (Some req) n = Ok n'"
proof -
  obtain a n1 where new: "NewEvent Event_Send (Some s) n = (a, n1)"
    by fastforce
  note n1 = NewEvent_eqs [OF new]
  let ?n2 = "n1\<lparr>chainidgen := chainidgen n1 + 1\<rparr>"
  let ?fb = "HandlerChain (chainidgen n1 + 1) [EncodePacketHandler, BoxHandler]"
  let ?n3 = "upd_event a (\<lambda>ev. ev\<lparr>evTransmitTag := Some (AnyInt64 rpcid), evMsg := Some req, evChainSend := Some ?fb\<rparr>) ?n2"
  have "core_ready ?n2" "EncodeMessage ?n2 x = EncodeMessage n1 x" "event ?n2 a = event n1 a" for x
    using assms(1) core_ready_cong [of ?n2 n1] EncodeMessage_cong [of ?n2 n1] n1(10) by (simp_all add: event_def)
  with assms n1 RawSend_rpc [of ?n3 a req rpcid ?fb d i s cb] obtain n' where "RawSend cb s a ?n3 = Ok n'"
    by auto
  then show ?thesis
    using new by (simp add: send_request_def rpc_ChainSend_def NewHandlerChain_def genChainID_def AddAny_def Let_def)
qed

lemma request_ok:
  assumes "core_ready n" "p < length (peers n)" "MessageMetaByName n ack = Some meta"
    and "s < length (sessions n)" "EncodeMessage n (Some req) = Ok (Some d, i, None)" "length d < 2 ^ 31"
  shows "\<exists>rpcid n1 n'. buildRecvHandler p ack tail n = Ok (rpcid, n1) \<and> send_request cb s rpcid (Some req) n1 = Ok n'"
proof -
  from buildRecvHandler_adds [OF assms(1-3), of tail] obtain rpcid n1 where b: "buildRecvHandler p ack tail n = Ok (rpcid, n1)"
    and n1: "sessions n1 = sessions n" "core_ready n1" "\<forall>x. EncodeMessage n1 x = EncodeMessage n x"
    by auto
  from send_request_ok [of n1 s req d i cb rpcid] n1 assms(4-6) b show ?thesis
    by auto
qed

lemma Call_ok:
  assumes "core_ready n" "p < length (peers n)" "MessageMetaByName n ack = Some meta"
    and "s < length (sessions n)" "EncodeMessage n (Some req) = Ok (Some d, i, None)" "length d < 2 ^ 31"
    and "getPeerSession target n = Ok (s, p)"
  shows "\<exists>rpcid n'. Call cb target (Some req) ack k n = Ok (rpcid, n')"
  using request_ok [OF assms(1-6), of "CallbackHandler k" cb] assms(7) by (auto simp: Call_def)

lemma CallSync_begin_ok:
  assumes "core_ready n" "p < length (peers n)" "MessageMetaByName n ack = Some meta"
    and "s < length (sessions n)" "EncodeMessage n (Some req) = Ok (Some d, i, None)" "length d < 2 ^ 31"
    and "getPeerSession target n = Ok (s, p)"
  shows "\<exists>n'. CallSync_begin cb target (Some req) ack n = Ok (length (rets n), n')"
proof -
  let ?n = "n\<lparr>rets := rets n @ [\<lparr>rcWaiting = True, rcValues = []\<rparr>]\<rparr>"
  have "core_ready ?n" "p < length (peers ?n)" "MessageMetaByName ?n ack = Some meta" "s < length (sessions ?n)"
    "EncodeMessage ?n (Some req) = Ok (Some d, i, None)"
    using assms core_ready_cong [of ?n n] EncodeMessage_cong [of ?n n] by (simp_all add: MessageMetaByName_def)
  from request_ok [OF this assms(6), of "RetChanHandler (length (rets n))" cb] assms(7) show ?thesis
    by (auto simp: CallSync_begin_def)
qed

text \<open>
  The reply of a service (\<^verbatim>\<open>Event.Send\<close> on the request's event) goes out as one envelope that
  carries the encoded reply and the number of the call it answers, behind whatever the
  session has to send already.
\<close>

theorem rpc_reply:
  assumes "core_ready n" "e < length (events n)" "evSes (event n e) = Some s" "s < length (sessions n)"
    and "evTransmitTag (event n e) = Some (AnyInt64 callid)" "evChainSend (event n e) = Some fb"
    and "chain_list fb = [EncodePacketHandler, BoxHandler]"
    and "EncodeMessage n (Some ack) = Ok (Some d, i, None)" "length d < 2 ^ 31"
  shows "\<exists>a n'. Event_Reply cb e (Some ack) n = Ok n' \<and>
    sSendList (sessions n' ! s) = sSendList (sessions n ! s) @ [Some a] \<and>
    evMsgID (event n' a) = 14297662 \<and> evData (event n' a) = Some (envelope i d callid) \<and>
    Result_of n' a = Result_OK \<and> evSes (event n' a) = Some s"
proof -
  obtain a n1 where new: "NewEvent Event_Send (Some s) n = (a, n1)"
    by fastforce
  note n1 = NewEvent_eqs [OF new]
  have e: "event n1 e = event n e"
    using n1(12) assms(2) .
  let ?n2 = "upd_event a (\<lambda>ev. ev\<lparr>evMsg := Some ack, evTransmitTag := Some (AnyInt64 callid), evChainSend := Some fb\<rparr>) n1"
  have a: "a < length (events n1)"
    by (simp add: n1)
  have reply: "Event_Reply cb e (Some ack) n = RawSend cb s a ?n2"
    using assms(3,5,6) new e by (simp add: Event_Reply_def Let_def)
  have "core_ready ?n2" "a < length (events ?n2)" "evMsg (event ?n2 a) = Some ack" "evR (event ?n2 a) = Result_OK"
    "evTransmitTag (event ?n2 a) = Some (AnyInt64 callid)" "EncodeMessage ?n2 (Some ack) = Ok (Some d, i, None)"
    "evType (event ?n2 a) = Event_Send" "evChainSend (event ?n2 a) = Some fb" "sessions ?n2 = sessions n"
    using assms(1,8) a n1 by simp_all
  with RawSend_rpc [of ?n2 a ack callid fb d i s cb] assms(4,7,9) reply show ?thesis
    by (intro exI [of _ a]) simp
qed

section \<open>A call in a small process\<close>

definition closed_msg :: message where
  "closed_msg = result_message ''SessionClosed'' Result_SocketError"

definition closed_meta :: MessageMeta where
  "closed_meta = \<lparr>meta_Type = \<lparr>tName = ''SessionClosed'', tZero = result_zero\<rparr>, meta_Name = ''coredef.SessionClosed'',
     meta_ID = 1747213404, meta_Codec = Some (binaryCodec core_types)\<rparr>"

text \<open>One peer with a queue and one session; an event to be boxed and one that carries its envelope.\<close>

definition rpc_net :: net where
  "rpc_net = (case init_core empty_net of Ok n \<Rightarrow> n | _ \<Rightarrow> empty_net)\<lparr>
     queues := [[]], peers := [fst (newSocketPeer (Some 0) \<lparr>sesMap = [], sesIDAcc = 0\<rparr> empty_net)],
     sessions := [\<lparr>sID = 1, sPeer = 0, sNeedNotifyWrite = True, sSendList = [],
       sConn = \<lparr>cIn = [], cOut = [], cClosed = False\<rparr>, sTag = None,
       sReadChain = HandlerChain 0 [], sWriteChain = HandlerChain 0 []\<rparr>],
     events :=
       [(new_Event Event_Send (Some 0))\<lparr>evMsgID := 1747213404, evData := Some [1, 0, 0, 0],
          evTransmitTag := Some (AnyInt64 5)\<rparr>,
        (new_Event Event_Recv (Some 0))\<lparr>evMsgID := 14297662, evData := Some (envelope 1747213404 [1, 0, 0, 0] 5)\<rparr>,
        (new_Event Event_Recv (Some 0))\<lparr>evTransmitTag := Some (AnyInt64 5),
          evChainSend := Some (HandlerChain 1 [EncodePacketHandler, BoxHandler])\<rparr>]\<rparr>"

lemma rpc_net_ready:
  "core_ready rpc_net" "MessageMetaByName rpc_net ''coredef.SessionClosed'' = Some closed_meta"
  "MessageMetaByType rpc_net closed_msg = Some closed_meta" "MessageMetaByID rpc_net 1747213404 = Some closed_meta"
proof -
  obtain n where n: "init_core empty_net = Ok n" "core_ready n"
    using init_core_ok by blast
  have same: "metaByName rpc_net = metaByName n" "metaByType rpc_net = metaByType n" "metaByID rpc_net = metaByID n"
    by (simp_all add: rpc_net_def n(1))
  then show "core_ready rpc_net"
    using n(2) core_ready_cong [of rpc_net n] by simp
  have "\<exists>n. init_core empty_net = Ok n \<and> metaByID n 1747213404 = Some closed_meta"
    by (simp add: init_core_def RegisterCodec_def empty_net_def core_messages_def RegisterMessageMeta_def FetchCodec_def
        Let_def closed_meta_def)
  then have "metaByID n (meta_ID closed_meta) = Some closed_meta" "metas_ok n"
    using n by (simp_all add: closed_meta_def core_ready_def)
  then show "MessageMetaByName rpc_net ''coredef.SessionClosed'' = Some closed_meta"
    "MessageMetaByType rpc_net closed_msg = Some closed_meta" "MessageMetaByID rpc_net 1747213404 = Some closed_meta"
    unfolding metas_ok_def MessageMetaByName_def MessageMetaByID_def MessageMetaByType_def same
    by (simp_all add: closed_meta_def closed_msg_def result_message_def)
qed

lemma closed_wire:
  "binary_Encode core_types closed_msg = Ok [1, 0, 0, 0]"
  "binary_Decode core_types [1, 0, 0, 0] \<lparr>mType = ''SessionClosed'', mPtr = True, mBody = result_zero\<rparr> = Ok closed_msg"
  by (simp_all add: closed_msg_def result_message_def binary_Encode_def binary_Decode_def struct_type_def core_types_def
      result_type_def result_zero_def BinaryWrite_def BinaryRead_def put_def e_uint32_def d_uint32_def exported_def
      go_slice_def readUint32_def le32_def set_val_def go_nth_def)

lemma rpc_net_messages:
  "EncodeMessage rpc_net (Some closed_msg) = Ok (Some [1, 0, 0, 0], 1747213404, None)"
  "DecodeMessage rpc_net 1747213404 (Some [1, 0, 0, 0]) = Ok (Some closed_msg, None)"
  using rpc_net_ready closed_wire by (simp_all add: EncodeMessage_def DecodeMessage_def closed_meta_def binaryCodec_def)

lemma rpc_net_parts:
  "getPeerSession (SessionTarget 0) rpc_net = Ok (0, 0)" "length (peers rpc_net) = 1" "length (events rpc_net) = 3"
  "length (sessions rpc_net) = 1" "queues rpc_net = [[]]"
  "chains_ok (pChains (peers rpc_net ! 0))" "chain_entries (pChains (peers rpc_net ! 0)) = {#}"
  by (simp_all add: rpc_net_def getPeerSession_def newSocketPeer_def NewHandlerChain_def genChainID_def Let_def chains_ok_def
      SetReadWriteChain_def SetChainSend_def NewHandlerChainManager_def chain_entries_def)

definition closed_chain :: HandlerChain where
  "closed_chain = HandlerChain 9 [MatchMsgIDHandler 14297662, DecodePacketHandler,
     UnboxHandler (HandlerChain 1 [EncodePacketHandler, BoxHandler]), MatchMsgIDHandler 1747213404,
     DecodePacketHandler, QueuePostHandler (Some 0) [CallbackHandler 0]]"

theorem rpc_envelope_witness:
  "HandlerChain_Call quiet closed_chain 1 rpc_net =
     Ok ((unboxed closed_chain (HandlerChain 1 [EncodePacketHandler, BoxHandler]) 1747213404 [1, 0, 0, 0] 5 closed_msg 1 rpc_net)
       \<lparr>queues := [[([CallbackHandler 0], 1)]]\<rparr>)"
proof -
  let ?fb = "HandlerChain 1 [EncodePacketHandler, BoxHandler]"
  have ev: "evTransmitTag (event rpc_net 0) = Some (AnyInt64 5)" "evData (event rpc_net 0) = Some [1, 0, 0, 0]"
    "evMsgID (event rpc_net 0) = 1747213404" "Result_of rpc_net 1 = Result_OK" "evMsgID (event rpc_net 1) = 14297662"
    "evData (event rpc_net 1) = Some (envelope 1747213404 [1, 0, 0, 0] 5)"
    by (simp_all add: rpc_net_def event_def Result_of_def new_Event_def)
  obtain n' where n': "Box_Call 0 rpc_net = Ok n'" "evData (event rpc_net 1) = evData (event n' 0)"
    using Box_Call_envelope [OF rpc_net_ready(1) ev(1,2)] ev(3,6) rpc_net_parts(3) by auto
  have "rpc_shape closed_chain ?fb 1747213404 [QueuePostHandler (Some 0) [CallbackHandler 0]]"
    by (simp add: rpc_shape_def closed_chain_def)
  from rpc_envelope [OF rpc_net_ready(1) _ ev(1) _ ev(2) _ refl rpc_net_ready(1) _ ev(4,5) this rpc_net_messages(2) n'] ev(3)
  show ?thesis
    by (simp add: rpc_net_parts int64_def)
qed

theorem Call_leaves_no_chain_witness:
  "\<exists>rpcid n'. Call quiet (SessionTarget 0) (Some closed_msg) ''coredef.SessionClosed'' 0 rpc_net = Ok (rpcid, n') \<and>
     size (peer_entries 0 n') = 1 \<and> peer_entries 0 (call_timeout 0 rpcid n') = {#}"
proof -
  obtain rpcid n' where c: "Call quiet (SessionTarget 0) (Some closed_msg) ''coredef.SessionClosed'' 0 rpc_net = Ok (rpcid, n')"
    using Call_ok [OF rpc_net_ready(1) _ rpc_net_ready(2) _ rpc_net_messages(1) _ rpc_net_parts(1), of quiet 0]
    by (auto simp: rpc_net_parts)
  from Call_leaves_no_chain [OF rpc_net_ready(1) rpc_net_parts(1) _ rpc_net_parts(6) rpc_net_ready(2) c, of 0] c
  show ?thesis
    by (auto simp: rpc_net_parts)
qed

theorem CallSync_reply_witness:
  "\<exists>n1. CallSync_begin quiet (SessionTarget 0) (Some closed_msg) ''coredef.SessionClosed'' rpc_net = Ok (length (rets rpc_net), n1) \<and>
     (\<exists>rpcid n3. queue_step quiet 0 (rpc_net\<lparr>rets := rets n1, peers := peers n1,
          queues := [[(sync_task (length (rets rpc_net)) 0 rpcid, 0)]]\<rparr>) = Ok n3 \<and> peer_entries 0 n3 = {#})"
proof -
  let ?r = "length (rets rpc_net)"
  obtain n1 where n1: "CallSync_begin quiet (SessionTarget 0) (Some closed_msg) ''coredef.SessionClosed'' rpc_net = Ok (?r, n1)"
    using CallSync_begin_ok [OF rpc_net_ready(1) _ rpc_net_ready(2) _ rpc_net_messages(1) _ rpc_net_parts(1), of quiet]
    by (auto simp: rpc_net_parts)
  let ?n2 = "\<lambda>rpcid. rpc_net\<lparr>rets := rets n1, peers := peers n1, queues := [[(sync_task ?r 0 rpcid, 0)]]\<rparr>"
  from CallSync_reply [OF rpc_net_ready(1) rpc_net_parts(1) _ rpc_net_parts(6) rpc_net_ready(2) n1] obtain rpcid where
    "\<forall>n2 a q rest. rets n2 = rets n1 \<and> peers n2 = peers n1 \<and> Result_of n2 a = Result_OK \<and>
       queues n2 ! q = (sync_task ?r 0 rpcid, a) # rest \<longrightarrow> (\<exists>n3. queue_step quiet q n2 = Ok n3 \<and> peer_entries 0 n3 = {#})"
    unfolding rpc_net_parts by (fastforce simp: rpc_net_parts)
  from this [rule_format, of "?n2 rpcid" 0 0 "[]"] have
    "\<exists>n3. queue_step quiet 0 (?n2 rpcid) = Ok n3 \<and> peer_entries 0 n3 = {#}"
    by (simp add: Result_of_def event_def rpc_net_def new_Event_def)
  with n1 show ?thesis
    by blast
qed

theorem CallSync_late_reply_witness:
  "\<exists>n1 rpcid. CallSync_begin quiet (SessionTarget 0) (Some closed_msg) ''coredef.SessionClosed'' rpc_net = Ok (length (rets rpc_net), n1) \<and>
     fst (CallSync_end (length (rets rpc_net)) n1) = Err ErrTimeout \<and>
     queue_step quiet 0 ((snd (CallSync_end (length (rets rpc_net)) n1))\<lparr>queues := [[(sync_task (length (rets rpc_net)) 0 rpcid, 0)]]\<rparr>) =
       Panic Blocked"
proof -
  let ?r = "length (rets rpc_net)"
  obtain n1 where n1: "CallSync_begin quiet (SessionTarget 0) (Some closed_msg) ''coredef.SessionClosed'' rpc_net = Ok (?r, n1)"
    using CallSync_begin_ok [OF rpc_net_ready(1) _ rpc_net_ready(2) _ rpc_net_messages(1) _ rpc_net_parts(1), of quiet]
    by (auto simp: rpc_net_parts)
  obtain v n2 where n2: "CallSync_end ?r n1 = (v, n2)"
    by fastforce
  from CallSync_late_reply [OF rpc_net_ready(1) rpc_net_parts(1) _ rpc_net_parts(6) rpc_net_ready(2) n1 n2] obtain rpcid where
    v: "v = Err ErrTimeout" and late: "\<forall>n3 a q rest. rets n3 = rets n2 \<and> queues n3 ! q = (sync_task ?r 0 rpcid, a) # rest \<longrightarrow>
          queue_step quiet q n3 = Panic Blocked"
    by (auto simp: rpc_net_parts)
  from late [rule_format, of "n2\<lparr>queues := [[(sync_task ?r 0 rpcid, 0)]]\<rparr>" 0 0 "[]"] n1 n2 v show ?thesis
    by (intro exI [of _ n1] exI [of _ rpcid]) simp
qed

theorem rpc_reply_witness:
  "\<exists>n'. Event_Reply quiet 2 (Some closed_msg) rpc_net = Ok n' \<and> length (sSendList (sessions n' ! 0)) = 1"
proof -
  let ?fb = "HandlerChain 1 [EncodePacketHandler, BoxHandler]"
  have ev: "evSes (event rpc_net 2) = Some 0" "evTransmitTag (event rpc_net 2) = Some (AnyInt64 5)"
    "evChainSend (event rpc_net 2) = Some ?fb" "sSendList (sessions rpc_net ! 0) = []"
    by (simp_all add: rpc_net_def event_def new_Event_def)
  show ?thesis
    using rpc_reply [OF rpc_net_ready(1) _ ev(1) _ ev(2,3) _ rpc_net_messages(1), of quiet] ev(4)
    by (auto simp: rpc_net_parts)
qed

end
