(* ===== verification/Cellnet_Delivery.thy ===== *)
theory Cellnet_Delivery
  imports Cellnet_Rpc
begin

text \<open>
  The path of one message through the whole of cellnet, in three lemmas: what \<^verbatim>\<open>Send\<close> leaves in the
  send list, what a turn of the send thread writes for it, and what a turn of the receive thread
  does with those bytes. The root theory composes them. The last section is a state on which the
  composition runs.
\<close>


section \<open>From Send to the callback\<close>

lemma MsgLog_off: "\<not> debugEnabled n \<Longrightarrow> MsgLog a n = Ok n"
  by (simp add: MsgLog_def)

text \<open>\<^verbatim>\<open>Send\<close> puts one event behind the send list, with the number and the encoding of the message.\<close>

lemma Send_queues:
  assumes w: "write_ready n s k" and off: "\<not> debugEnabled n"
    and ch: "ChainSend (pChains (peers n ! sPeer (sessions n ! s))) = Some ch" "chain_list ch = [EncodePacketHandler]"
    and enc: "EncodeMessage n (Some m) = Ok (Some d, i, None)"
  shows "\<exists>n1. Send cb s (Some m) n = Ok n1 \<and> sSendList (sessions n1 ! s) = sSendList (sessions n ! s) @ [Some (length (events n))] \<and>
    sendable n1 s (length (events n)) \<and> packet_of n1 (length (events n)) = (i, d) \<and> write_ready n1 s k \<and>
    conn_of n1 s = conn_of n s \<and> sers n1 = sers n"
proof -
  obtain a n0 where new: "NewEvent Event_Send (Some s) n = (a, n0)"
    by fastforce
  note n0 = NewEvent_eqs [OF new]
  have a: "a < length (events n0)" "evChainSend (event n0 a) = None" "sers n0 = sers n"
    using n0(2) NewEvent_shape [of Event_Send "Some s" n] new by (auto simp: event_def new_Event_def)
  let ?n1 = "upd_event a (\<lambda>ev. ev\<lparr>evMsg := Some m, evChainSend := Some ch, evSes := Some s\<rparr>) n0"
  let ?n2 = "upd_event a (\<lambda>ev. ev\<lparr>evMsg := Some m, evChainSend := Some ch, evSes := Some s, evChainid := chain_id ch,
      evData := Some d, evMsgID := i\<rparr>) n0"
  let ?n3 = "upd_session s (\<lambda>ses. ses\<lparr>sSendList := sSendList ses @ [Some a]\<rparr>) ?n2"
  have "HandlerChain_Call cb ch a ?n1 = Ok ?n2"
    using a n0(5,11) enc ch(2)
    by (simp add: HandlerChain_Call_def EncodePacket_Call_def errToResult_def Let_def Result_of_def upd_event_twice comp_def)
  then have "Send cb s (Some m) n = Ok ?n3"
    using new a n0(3,6,7,13) ch(1) off
    by (simp add: Send_def RawSend_def Let_def upd_event_twice comp_def MsgLog_off)
  moreover have "event ?n3 a = (event n0 a)\<lparr>evMsg := Some m, evChainSend := Some ch, evSes := Some s, evChainid := chain_id ch,
      evData := Some d, evMsgID := i\<rparr>"
    using a by (simp add: event_def upd_event_def)
  then have "sendable ?n3 s a" "packet_of ?n3 a = (i, d)"
    using a n0(5) by (simp_all add: sendable_def Result_of_def packet_of_def data_of_def)
  moreover have "write_ready ?n3 s k" "conn_of ?n3 s = conn_of n s" "sers ?n3 = sers n"
      "sSendList (sessions ?n3 ! s) = sSendList (sessions n ! s) @ [Some a]"
    using w n0(7) a(3) by (simp_all add: write_ready_def conn_of_def upd_session_def upd_event_def)
  ultimately show ?thesis
    by (intro exI [of _ ?n3]) (simp add: n0(1))
qed

text \<open>The send thread then writes one packet.\<close>

lemma send_round_writes:
  assumes "write_ready n s k" "sSendList (sessions n ! s) = [Some a]" "sendable n s a"
  shows "\<exists>n'. send_round cb s n = Some (Ok (True, n')) \<and> write_ready n' s k \<and>
    cOut (conn_of n' s) = cOut (conn_of n s) @ packet_enc (sers n ! k) (packet_of n a)"
proof -
  let ?n = "upd_session s (\<lambda>ses. ses\<lparr>sSendList := []\<rparr>) n"
  have ready: "write_ready ?n s k" "sendable ?n s a" "conn_of ?n s = conn_of n s" "packet_of ?n a = packet_of n a" "sers ?n = sers n"
    using assms(1,3)
    by (simp_all add: write_ready_def sendable_def conn_of_def upd_session_def Result_of_def event_def packet_of_def)
  have "write_list cb s [a] False ?n = Ok (False, after_write s k a ?n)"
    using write_chain [OF ready(1,2), of cb] after_write_facts(4) [OF ready(1,2)] by simp
  then have "send_round cb s n = Some (Ok (True, after_write s k a ?n))"
    using assms(2) by (simp add: send_round_def Pick_def)
  with after_write_facts(1,6) [OF ready(1,2)] ready(3-5) show ?thesis
    by simp
qed

lemma dispatch_registered:
  assumes a: "a < length (events n)" and ev: "evMsgID (event n a) = i" "evData (event n a) = Some d" "evSes (event n a) = Some s"
    and c: "chain_list c = [MatchMsgIDHandler i, DecodePacketHandler, CallbackHandler j]"
    and dec: "DecodeMessage n i (Some d) = Ok (Some m, None)"
  shows "\<exists>b n1. a \<noteq> b \<and> evMsg (event n1 b) = Some m \<and> evSes (event n1 b) = Some s \<and> sessions n1 = sessions n \<and>
    HandlerChainList_Call cb [c] a n = bind_go (cb j b n1) (\<lambda>n.
      Ok (if Result_of n b = Result_NextChain then SetResult Result_OK b n else n))"
proof -
  let ?b = "length (events n)"
  let ?n = "n\<lparr>events := events n @ [clone_of (event n a)]\<rparr>"
  have b: "?b < length (events ?n)" "Result_of ?n ?b = Result_OK" "evMsgID (event ?n ?b) = i"
      "evData (event ?n ?b) = Some d" "evSes (event ?n ?b) = Some s"
    using ev by (simp_all add: event_def Result_of_def clone_of_def new_Event_def go_copy_def)
  have "DecodeMessage ?n i (Some d) = Ok (Some m, None)"
    using dec by (simp add: DecodeMessage_def MessageMetaByID_def)
  then have run: "HandlerChain_Call cb c ?b ?n = callList cb [CallbackHandler j] ?b (delivered c m ?b ?n)"
    using registered_chain_cases(3) [OF b(1,2) c b(3)] b(4) by simp
  have "HandlerChainList_Call cb [c] a n = bind_go (cb j ?b (delivered c m ?b ?n)) (\<lambda>n.
      Ok (if Result_of n ?b = Result_NextChain then SetResult Result_OK ?b n else n))"
    using run by (cases "cb j ?b (delivered c m ?b ?n)") (simp_all add: Clone_def)
  moreover have "evMsg (event (delivered c m ?b ?n) ?b) = Some m" "evSes (event (delivered c m ?b ?n) ?b) = Some s"
    "sessions (delivered c m ?b ?n) = sessions n"
    using b by (simp_all add: delivered_def)
  ultimately show ?thesis
    using a by (intro exI [of _ ?b] exI [of _ "delivered c m ?b ?n"]) simp
qed

text \<open>
  One round of the receive thread on a packet, with one chain registered by \<^verbatim>\<open>RegisterMessage\<close> on a
  peer without a queue: the callback runs on a new event.
\<close>

lemma recv_round_delivers:
  assumes r: "read_ready n s f k" and off: "\<not> debugEnabled n"
    and p: "cIn (conn_of n s) = packet_enc (sers n ! k) (i, d) @ rest" "packet_fits (size_limit n s) (i, d)"
    and chains: "fst (ChainListRecv ord (pChains (peers n ! sPeer (sessions n ! s)))) = [c]"
      "chain_list c = [MatchMsgIDHandler i, DecodePacketHandler, CallbackHandler j]"
    and dec: "DecodeMessage n i (Some d) = Ok (Some m, None)"
  shows "\<exists>b n1 a. evMsg (event n1 b) = Some m \<and> evSes (event n1 b) = Some s \<and> cIn (conn_of n1 s) = rest \<and> a \<noteq> b \<and>
    recv_round cb ord s n =
      bind_go (cb j b n1) (\<lambda>n2. let n2 = (if Result_of n2 b = Result_NextChain then SetResult Result_OK b n2 else n2)
        in if Result_of n2 a \<noteq> Result_OK then recv_onClose cb ord s a n2 else Ok (True, n2))"
proof -
  obtain a n0 where new: "NewEvent Event_Recv (Some s) n = (a, n0)"
    by fastforce
  note n0 = NewEvent_facts [OF new r] and eqs = NewEvent_eqs [OF new]
  let ?n1 = "after_read s f k a (i, d) rest n0"
  have call: "HandlerChain_Call cb (sReadChain (sessions n0 ! s)) a n0 = Ok ?n1"
    using read_chain [OF n0(1,2), of cb] packet_dec_enc [OF p(2), of "sers n ! k" rest] p(1) n0(4-6) by simp
  have len: "10 \<le> length (cIn (conn_of n0 s))"
    using p(1) n0(5) by (simp add: packet_enc_def)
  note n1 = after_read_facts [OF n0(1,2) len, where p = "(i, d)" and rest = rest]
  have peer: "peers ?n1 = peers n" "sPeer (sessions ?n1 ! s) = sPeer (sessions n ! s)" "\<not> debugEnabled ?n1"
    "metaByID ?n1 = metaByID n"
    using n0(1) eqs(6,7,13) off NewEvent_shape [of Event_Recv "Some s" n] new
    by (auto simp: after_read_def read_ready_def nth_list_update)
  obtain n2 where n2: "peer_chains ord (sPeer (sessions ?n1 ! s)) ?n1 = ([c], n2)"
      "events n2 = events ?n1" "sessions n2 = sessions ?n1" "metaByID n2 = metaByID n"
    using chains(1) peer(4) unfolding peer
    by (cases "ChainListRecv ord (pChains (peers n ! sPeer (sessions n ! s)))")
      (auto simp: peer_chains_def peer upd_peer_def)
  have ev: "a < length (events n2)" "evMsgID (event n2 a) = i" "evData (event n2 a) = Some d" "evSes (event n2 a) = Some s"
    using n0(2,3,7) n2(2) by (simp_all add: after_read_def event_def sendable_def)
  have "DecodeMessage n2 i (Some d) = Ok (Some m, None)"
    using dec n2(4) by (simp add: DecodeMessage_def MessageMetaByID_def)
  from dispatch_registered [OF ev chains(2) this, of cb] obtain b n4 where b: "a \<noteq> b" "evMsg (event n4 b) = Some m"
      "evSes (event n4 b) = Some s" "sessions n4 = sessions n2"
    and run: "HandlerChainList_Call cb [c] a n2 = bind_go (cb j b n4) (\<lambda>n.
      Ok (if Result_of n b = Result_NextChain then SetResult Result_OK b n else n))"
    by blast
  have "cIn (conn_of n4 s) = rest"
    using b(4) n1(5) n2(3) by (simp add: conn_of_def)
  moreover have "recv_round cb ord s n = bind_go (cb j b n4) (\<lambda>n2.
      let n2 = (if Result_of n2 b = Result_NextChain then SetResult Result_OK b n2 else n2)
        in if Result_of n2 a \<noteq> Result_OK then recv_onClose cb ord s a n2 else Ok (True, n2))"
    using new call n1(3) n2(1) peer(3) run
    by (simp add: recv_round_def MsgLog_off Let_def bind_go_assoc)
  ultimately show ?thesis
    using b by blast
qed

section \<open>A closed session reported over the wire\<close>

definition closed_callback :: HandlerChain where
  "closed_callback = HandlerChain 604 [MatchMsgIDHandler 1747213404, DecodePacketHandler, CallbackHandler 0]"

definition wire_net :: "bytes \<Rightarrow> net" where
  "wire_net bs = (case init_core empty_net of Ok n \<Rightarrow> n | _ \<Rightarrow> empty_net)\<lparr>
     sers := [1, 1], frames := [replicate 10 0], sessions := sessions (pipe_net bs), events := [],
     peers := [idle_peer\<lparr>pChains := snd (AddChainRecv closed_callback
       (SetChainSend (HandlerChain 603 [EncodePacketHandler]) NewHandlerChainManager))\<rparr>]\<rparr>"

lemma wire_net_tables:
  "metas_ok (wire_net bs)" "MessageMetaByType (wire_net bs) closed_msg = Some closed_meta" "metaByID (wire_net bs) = metaByID rpc_net"
  "\<not> debugEnabled (wire_net bs)"
proof -
  obtain n where n: "init_core empty_net = Ok n"
    using init_core_ok by blast
  have same: "metaByName (wire_net bs) = metaByName rpc_net" "metaByID (wire_net bs) = metaByID rpc_net"
    "metaByType (wire_net bs) = metaByType rpc_net"
    by (simp_all add: wire_net_def rpc_net_def n)
  then show "metaByID (wire_net bs) = metaByID rpc_net" "MessageMetaByType (wire_net bs) closed_msg = Some closed_meta"
    "metas_ok (wire_net bs)"
    using rpc_net_ready(1,3) metas_ok_cong [of "wire_net bs" rpc_net] by (simp_all add: MessageMetaByType_def core_ready_def)
  have "\<exists>n. init_core empty_net = Ok n \<and> \<not> debugEnabled n"
    by (simp add: init_core_def RegisterCodec_def empty_net_def core_messages_def RegisterMessageMeta_def FetchCodec_def Let_def)
  then show "\<not> debugEnabled (wire_net bs)"
    by (auto simp: wire_net_def)
qed

lemma wire_net_ready:
  "write_ready (wire_net bs) 0 1" "read_ready (wire_net bs) 0 0 0" "sSendList (sessions (wire_net bs) ! 0) = []"
  "cOut (conn_of (wire_net bs) 0) = []" "cIn (conn_of (wire_net bs) 0) = bs" "size_limit (wire_net bs) 0 = 0"
  "sers (wire_net bs) = [1, 1]"
  "ChainSend (pChains (peers (wire_net bs) ! sPeer (sessions (wire_net bs) ! 0))) = Some (HandlerChain 603 [EncodePacketHandler])"
  "fst (ChainListRecv id (pChains (peers (wire_net bs) ! sPeer (sessions (wire_net bs) ! 0)))) = [closed_callback]"
  by (simp_all add: wire_net_def write_ready_def read_ready_def conn_of_def size_limit_def pipe_defs ChainSend_def ChainListRecv_def
      AddChainRecv_def SetChainSend_def NewHandlerChainManager_def Let_def)

lemma closed_msg_good: "binary_good core_types core_zeros closed_msg"
  "binary_fresh core_types core_zeros \<lparr>mType = mType closed_msg, mPtr = True, mBody = tZero (meta_Type closed_meta)\<rparr>"
  by (simp_all add: binary_good_def binary_fresh_def closed_msg_def result_message_def struct_type_def core_types_def result_type_def
      core_zeros_def core_messages_def result_zero_def closed_meta_def exported_def set_int_def Let_def)

end
