(* ===== verification/Cellnet_Kept.thy ===== *)
theory Cellnet_Kept
  imports Cellnet_Rpc
begin

text \<open>
  What the message layer leaves alone in a peer: handlers change nothing of a peer but its table of
  chains, and so do the rounds and the system events made of them, when the callbacks of the user do.
  The part of the peer is a function \<open>g\<close> of it.
\<close>

definition kept :: "(peer \<Rightarrow> 'x) \<Rightarrow> nat \<Rightarrow> net \<Rightarrow> net \<Rightarrow> bool" where
  "kept g p n n' \<longleftrightarrow> length (peers n) \<le> length (peers n') \<and> (p < length (peers n) \<longrightarrow> g (peers n' ! p) = g (peers n ! p))"

definition kept_callbacks :: "(peer \<Rightarrow> 'x) \<Rightarrow> nat \<Rightarrow> callbacks \<Rightarrow> bool" where
  "kept_callbacks g p cb \<longleftrightarrow> (\<forall>i a n n'. cb i a n = Ok n' \<longrightarrow> kept g p n n')"

definition chain_free :: "(peer \<Rightarrow> 'x) \<Rightarrow> bool" where
  "chain_free g \<longleftrightarrow> (\<forall>pe c. g (pe\<lparr>pChains := c\<rparr>) = g pe)"

lemma kept_refl [simp]: "kept g p n n"
  by (simp add: kept_def)

lemma kept_trans [trans]: "kept g p n n' \<Longrightarrow> kept g p n' n'' \<Longrightarrow> kept g p n n''"
  unfolding kept_def by auto

lemma kept_peers: "peers n' = peers n \<Longrightarrow> kept g p n n'"
  by (simp add: kept_def)

lemma kept_upd_peer:
  assumes "\<And>pe. g (f pe) = g pe"
  shows "kept g p n (upd_peer q f n') = kept g p n n'"
proof -
  have "g (peers (upd_peer q f n') ! p) = g (peers n' ! p)"
  proof (cases "q = p \<and> p < length (peers n')")
    case True
    then show ?thesis
      using assms by (simp add: upd_peer_def)
  next
    case False
    then have "(peers n')[q := x] ! p = peers n' ! p" for x
      by (cases "q = p") (simp_all add: not_less list_update_beyond)
    then show ?thesis
      by (simp add: upd_peer_def)
  qed
  then show ?thesis
    by (simp add: kept_def) (simp add: upd_peer_def)
qed

lemma kept_chains:
  assumes "chain_free g"
  shows "kept g p n (upd_peer q (\<lambda>pe. pe\<lparr>pChains := f pe\<rparr>) n') = kept g p n n'"
  by (rule kept_upd_peer) (use assms in \<open>simp add: chain_free_def\<close>)

lemma peer_chains_kept:
  assumes "chain_free g" "peer_chains ord q n = (cs, n')"
  shows "kept g p n n'"
  using assms by (auto simp: peer_chains_def Let_def kept_chains split: prod.splits)

lemma kept_fields [simp]:
  "kept g p n (upd_event a f n') = kept g p n n'" "kept g p n (SetResult r a n') = kept g p n n'"
  "kept g p n (n'\<lparr>events := x\<rparr>) = kept g p n n'" "kept g p n (n'\<lparr>sers := y\<rparr>) = kept g p n n'"
  "kept g p n (n'\<lparr>queues := z\<rparr>) = kept g p n n'" "kept g p n (n'\<lparr>rets := w\<rparr>) = kept g p n n'"
  "kept g p n (n'\<lparr>frames := v\<rparr>) = kept g p n n'" "kept g p n (upd_session s h n') = kept g p n n'"
  by (simp_all add: kept_def upd_event_def SetResult_def upd_session_def)

lemma PrivateReader_body_kept: "kept g p n (PrivateReader_body k a s ser sz n') = kept g p n n'"
  by (simp add: PrivateReader_body_def Let_def split: prod.split option.split)

lemma callHandler_kept:
  assumes "chain_free g" "kept_callbacks g p cb" "callHandler cb h a n = Ok n'"
  shows "kept g p n n'"
proof (cases h)
  case (CallbackHandler i)
  with assms show ?thesis by (auto simp: kept_callbacks_def)
next
  case (RemoveRecvHandler q i)
  with assms show ?thesis by (auto simp: kept_chains)
qed (use assms(3) in \<open>auto simp: MatchMsgID_Call_def DecodePacket_Call_def EncodePacket_Call_def MsgLog_def
      Parse_def QueuePost_Call_def Post_def FrameReader_Call_def FrameWriter_Call_def PrivateReader_Call_def
      PrivateWriter_Call_def Box_Call_def FromMessage_def Unbox_Call_def RetChan_Call_def Let_def go_elims
      PrivateReader_body_kept split: if_splits option.splits prod.splits any.splits list.splits gval.splits\<close>)

lemma callList_kept:
  assumes "chain_free g" "kept_callbacks g p cb"
  shows "callList cb hs a n = Ok n' \<Longrightarrow> kept g p n n'"
proof (induction hs arbitrary: n)
  case (Cons h hs)
  then obtain n1 where h: "callHandler cb h a n = Ok n1"
    and rest: "n' = SetResult Result_OK a n1 \<or> n' = n1 \<or> callList cb hs a n1 = Ok n'"
    by (auto simp: go_elims split: if_splits)
  have "kept g p n n1"
    using callHandler_kept [OF assms h] .
  with rest Cons.IH kept_trans show ?case
    by (metis kept_fields(2))
qed simp

lemma HandlerChainList_Call_kept:
  assumes "chain_free g" "kept_callbacks g p cb"
  shows "HandlerChainList_Call cb cs a n = Ok n' \<Longrightarrow> kept g p n n'"
proof (induction cs arbitrary: n)
  case (Cons c cs)
  let ?n = "n\<lparr>events := events n @ [clone_of (event n a)]\<rparr>"
  from Cons.prems obtain n1 where call: "HandlerChain_Call cb c (length (events n)) ?n = Ok n1"
    and rest: "HandlerChainList_Call cb cs a n1 = Ok n'"
    by (auto simp: Clone_def Let_def go_elims)
  have "kept g p (upd_event (length (events n)) f ?n) n1" if "f = (\<lambda>ev. ev\<lparr>evChainid := chain_id c\<rparr>)" for f
    using callList_kept [OF assms] call that by (simp add: HandlerChain_Call_def)
  then have "kept g p n n1"
    by (auto simp: kept_def upd_event_def)
  with Cons.IH [OF rest] show ?case
    using kept_trans by blast
qed simp

lemma PostSystemEvent_kept:
  assumes "chain_free g" "kept_callbacks g p cb" "PostSystemEvent cb ses t cs r n = Ok n'"
  shows "kept g p n n'"
proof -
  obtain a n1 where new: "NewEvent t ses n = (a, n1)"
    by fastforce
  have n1: "kept g p n n1"
    using NewEvent_eqs(6) [OF new] by (rule kept_peers)
  from assms(3) new obtain n2 n3 where
    n2: "(\<exists>m. FromMessage m a n1 = Ok n2) \<or> (\<exists>x. set_meta_id x a n1 = Ok n2)"
    and n3: "MsgLog a n2 = Ok n3" and rest: "HandlerChainList_Call cb cs a n3 = Ok n'"
    by (auto simp: PostSystemEvent_def Let_def go_elims split: EventType.splits)
  have "kept g p n1 n2"
    using n2 by (auto simp: FromMessage_def set_meta_id_def go_elims split: option.splits)
  moreover have "kept g p n2 n3"
    using MsgLog_only [OF n3] by (auto intro: kept_peers)
  ultimately show ?thesis
    using n1 HandlerChainList_Call_kept [OF assms(1,2) rest] kept_trans by blast
qed

lemma make_handlers_peers: "peers (snd (make_handlers xs n)) = peers n"
proof (induction xs arbitrary: n)
  case (Cons x xs)
  have "peers (snd (make_handler x n)) = peers n"
    by (cases x) simp_all
  with Cons.IH show ?case
    by (simp add: Let_def split: prod.split) (metis snd_conv)
qed simp

lemma call_creator_peers: "call_creator f n = Ok (c, n') \<Longrightarrow> peers n' = peers n"
  using make_handlers_peers
  by (auto simp: call_creator_def NewHandlerChain_def genChainID_def Let_def split: option.splits prod.splits)
    (metis snd_conv)

lemma newSession_peers: "newSession c p n = Ok (s, n') \<Longrightarrow> peers n' = peers n"
  by (auto simp: newSession_def CreateChainRead_def CreateChainWrite_def go_elims dest!: call_creator_peers)

lemma CloseAllSession_kept: "kept g p n (CloseAllSession ord q n)"
proof -
  have "peers (visit (\<lambda>s n. (True, Close s n)) ss n) = peers n" for ss
    by (induction ss arbitrary: n) (simp_all add: Close_def upd_session_def)
  then show ?thesis
    by (intro kept_peers) (simp add: CloseAllSession_def VisitSession_def)
qed

lemma PostSystemEvent_chains_kept:
  assumes "chain_free g" "kept_callbacks g p cb" "peer_chains ord q n = (cs, n1)" "PostSystemEvent cb ses t cs r n1 = Ok n'"
  shows "kept g p n n'"
  using peer_chains_kept [OF assms(1,3)] PostSystemEvent_kept [OF assms(1,2,4)] by (rule kept_trans)

end
