(* ===== verification/Cellnet_Peers.thy ===== *)
theory Cellnet_Peers
  imports Cellnet_Kept
begin

text \<open>
  Acceptors and connectors of the socket package (\<^verbatim>\<open>socket/base.go\<close>, \<^verbatim>\<open>socket/acceptor.go\<close>,
  \<^verbatim>\<open>socket/connector.go\<close>). \<^verbatim>\<open>Start\<close> runs a loop in a goroutine of its own; \<^verbatim>\<open>Stop\<close> runs in the
  application and waits for the end of that loop through the channel \<^verbatim>\<open>stopping\<close>. Each peer is a
  step relation with a program counter for the loop and one for the application, which calls
  \<^verbatim>\<open>Start\<close> and \<^verbatim>\<open>Stop\<close> one after the other and starts again only after the loop has ended. A step
  reads or writes shared data once. What the operating system answers (a connection, an error) is
  any answer, and everything else in the process may change the state, the flag \<^verbatim>\<open>running\<close> excepted.
\<close>

section \<open>The acceptor\<close>

datatype accept_result = AcceptErr bool | AcceptConn conn

text \<open>
  The points of \<^verbatim>\<open>accept\<close>: not started; before \<^verbatim>\<open>SetRunning(true)\<close>; in \<^verbatim>\<open>Accept\<close>; before the test
  of \<^verbatim>\<open>isStopping\<close>; before the event of a failed \<^verbatim>\<open>Accept\<close>; after the loop; before
  \<^verbatim>\<open>endStopping\<close>; ended.
\<close>

datatype accept_pc =
  ANone | AStart | AAccept | ATest accept_result | AFailed bool | AEnd | ASync | ADone

text \<open>
  The points of \<^verbatim>\<open>Stop\<close>: not called; after the two tests; after \<^verbatim>\<open>startStopping\<close>; after
  \<^verbatim>\<open>listener.Close\<close>; after \<^verbatim>\<open>CloseAllSession\<close>; in \<^verbatim>\<open>waitStopFinished\<close> after the test;
  receiving from the channel; after the receive;
  returned.
\<close>

datatype stop_pc =
    AppIdle | StopChecked | StopBegun | StopListener | StopSessions | StopTested | StopWait | StopReceived
  | Stopped

text \<open>The listener is nil, or open or closed; \<open>aAccepted\<close> are the goroutines of \<^verbatim>\<open>onAccepted\<close>.\<close>

record acceptor =
  aNet :: net
  aListener :: "bool option"
  aStopping :: bool
  aThread :: accept_pc
  aApp :: stop_pc
  aAccepted :: "conn list"

definition set_running :: "nat \<Rightarrow> bool \<Rightarrow> net \<Rightarrow> net" where
  "set_running p v = upd_peer p (SetRunning v)"

definition running :: "nat \<Rightarrow> net \<Rightarrow> bool" where
  "running p n = IsRunning (peers n ! p)"

text \<open>\<^verbatim>\<open>onAccepted\<close>; the threads that \<^verbatim>\<open>run\<close> starts are those of the theory on session lifetimes.\<close>

definition onAccepted :: "callbacks \<Rightarrow> chain_order \<Rightarrow> conn \<Rightarrow> nat \<Rightarrow> net \<Rightarrow> net run" where
  "onAccepted cb ord c p n =
     bind_go (newSession c p n) (\<lambda>(s, n).
     let n = Add p s n; (cs, n) = peer_chains ord p n
     in PostSystemEvent cb (Some s) Event_Accepted cs Result_OK n)"

definition post_failed :: "callbacks \<Rightarrow> chain_order \<Rightarrow> EventType \<Rightarrow> bool \<Rightarrow> nat \<Rightarrow> net \<Rightarrow> net run" where
  "post_failed cb ord t timeout p n =
     (let (cs, n) = peer_chains ord p n
      in PostSystemEvent cb None t cs (socket_errToResult (Some timeout)) n)"

inductive acc_step ::
  "callbacks \<Rightarrow> chain_order \<Rightarrow> (nat list \<Rightarrow> nat list) \<Rightarrow> nat \<Rightarrow> acceptor \<Rightarrow> acceptor \<Rightarrow> bool"
  for cb ord sord p where
  start_listen: "aApp st = AppIdle \<or> aApp st = Stopped \<Longrightarrow> aThread st = ANone \<or> aThread st = ADone \<Longrightarrow>
    \<not> aStopping st \<Longrightarrow> \<not> running p (aNet st) \<Longrightarrow>
    acc_step cb ord sord p st (st\<lparr>aNet := upd_peer p (SetAddress addr) (aNet st), aListener := Some True,
      aThread := AStart, aApp := AppIdle\<rparr>)"
| start_failed: "aApp st = AppIdle \<or> aApp st = Stopped \<Longrightarrow> aThread st = ANone \<or> aThread st = ADone \<Longrightarrow>
    \<not> aStopping st \<Longrightarrow> \<not> running p (aNet st) \<Longrightarrow>
    acc_step cb ord sord p st (st\<lparr>aNet := upd_peer p (SetAddress addr) (aNet st), aListener := None, aApp := AppIdle\<rparr>)"
| set_run: "aThread st = AStart \<Longrightarrow>
    acc_step cb ord sord p st (st\<lparr>aNet := set_running p True (aNet st), aThread := AAccept\<rparr>)"
| accept_conn: "aThread st = AAccept \<Longrightarrow> aListener st = Some True \<Longrightarrow>
    acc_step cb ord sord p st (st\<lparr>aThread := ATest (AcceptConn c)\<rparr>)"
| accept_err: "aThread st = AAccept \<Longrightarrow> aListener st \<noteq> None \<Longrightarrow>
    acc_step cb ord sord p st (st\<lparr>aThread := ATest (AcceptErr t)\<rparr>)"
| accept_stopping: "aThread st = ATest r \<Longrightarrow> aStopping st \<Longrightarrow>
    acc_step cb ord sord p st (st\<lparr>aThread := AEnd\<rparr>)"
| accept_failed: "aThread st = ATest (AcceptErr t) \<Longrightarrow> \<not> aStopping st \<Longrightarrow>
    acc_step cb ord sord p st (st\<lparr>aThread := AFailed t\<rparr>)"
| accept_posted: "aThread st = AFailed t \<Longrightarrow> post_failed cb ord Event_AcceptFailed t p (aNet st) = Ok n \<Longrightarrow>
    acc_step cb ord sord p st (st\<lparr>aNet := n, aThread := AEnd\<rparr>)"
| accept_spawn: "aThread st = ATest (AcceptConn c) \<Longrightarrow> \<not> aStopping st \<Longrightarrow>
    acc_step cb ord sord p st (st\<lparr>aThread := AAccept, aAccepted := aAccepted st @ [c]\<rparr>)"
| accepted: "aAccepted st = cs @ c # ds \<Longrightarrow> onAccepted cb ord c p (aNet st) = Ok n \<Longrightarrow>
    acc_step cb ord sord p st (st\<lparr>aNet := n, aAccepted := cs @ ds\<rparr>)"
| loop_end: "aThread st = AEnd \<Longrightarrow>
    acc_step cb ord sord p st (st\<lparr>aNet := set_running p False (aNet st), aThread := ASync\<rparr>)"
| end_send: "aThread st = ASync \<Longrightarrow> aStopping st \<Longrightarrow> aApp st = StopWait \<Longrightarrow>
    acc_step cb ord sord p st (st\<lparr>aThread := ADone, aApp := StopReceived\<rparr>)"
| end_default: "aThread st = ASync \<Longrightarrow> \<not> (aStopping st \<and> aApp st = StopWait) \<Longrightarrow>
    acc_step cb ord sord p st (st\<lparr>aThread := ADone, aStopping := False\<rparr>)"
| stop_check: "aApp st = AppIdle \<or> aApp st = Stopped \<Longrightarrow> running p (aNet st) \<Longrightarrow> \<not> aStopping st \<Longrightarrow>
    acc_step cb ord sord p st (st\<lparr>aApp := StopChecked\<rparr>)"
| stop_begin: "aApp st = StopChecked \<Longrightarrow> acc_step cb ord sord p st (st\<lparr>aStopping := True, aApp := StopBegun\<rparr>)"
| stop_listener: "aApp st = StopBegun \<Longrightarrow> aListener st = Some b \<Longrightarrow>
    acc_step cb ord sord p st (st\<lparr>aListener := Some False, aApp := StopListener\<rparr>)"
| stop_sessions: "aApp st = StopListener \<Longrightarrow>
    acc_step cb ord sord p st (st\<lparr>aNet := CloseAllSession sord p (aNet st), aApp := StopSessions\<rparr>)"
| stop_finished: "aApp st = StopSessions \<Longrightarrow> \<not> aStopping st \<Longrightarrow>
    acc_step cb ord sord p st (st\<lparr>aApp := Stopped\<rparr>)"
| stop_test: "aApp st = StopSessions \<Longrightarrow> aStopping st \<Longrightarrow>
    acc_step cb ord sord p st (st\<lparr>aApp := StopTested\<rparr>)"
| stop_wait: "aApp st = StopTested \<Longrightarrow> acc_step cb ord sord p st (st\<lparr>aApp := StopWait\<rparr>)"
| stop_received: "aApp st = StopReceived \<Longrightarrow>
    acc_step cb ord sord p st (st\<lparr>aStopping := False, aApp := Stopped\<rparr>)"
| others: "length (peers (aNet st)) \<le> length (peers n) \<Longrightarrow> running p n = running p (aNet st) \<Longrightarrow>
    acc_step cb ord sord p st (st\<lparr>aNet := n\<rparr>)"

definition NewAcceptor :: "nat option \<Rightarrow> net \<Rightarrow> acceptor" where
  "NewAcceptor q n =
     (let (pe, n) = newSocketPeer q NewSessionManager n
      in \<lparr>aNet = n\<lparr>peers := peers n @ [pe]\<rparr>, aListener = None, aStopping = False, aThread = ANone, aApp = AppIdle, aAccepted = []\<rparr>)"

section \<open>What keeps the flag\<close>

abbreviation flag_kept :: "nat \<Rightarrow> net \<Rightarrow> net \<Rightarrow> bool" where
  "flag_kept \<equiv> kept pRunning"

abbreviation flag_callbacks :: "nat \<Rightarrow> callbacks \<Rightarrow> bool" where
  "flag_callbacks \<equiv> kept_callbacks pRunning"

lemma flag_chain_free [simp]: "chain_free pRunning"
  by (simp add: chain_free_def)

lemma flag_kept_iff:
  "flag_kept p n n' \<longleftrightarrow> length (peers n) \<le> length (peers n') \<and> (p < length (peers n) \<longrightarrow> running p n' = running p n)"
  by (simp add: kept_def running_def IsRunning_def)

lemma post_failed_kept:
  assumes "chain_free g" "kept_callbacks g p cb" "post_failed cb ord t b q n = Ok n'"
  shows "kept g p n n'"
proof -
  obtain cs n1 where c: "peer_chains ord q n = (cs, n1)"
    by fastforce
  with assms(3) show ?thesis
    by (intro PostSystemEvent_chains_kept [OF assms(1,2) c]) (simp add: post_failed_def)
qed

lemma Add_flag: "flag_kept p n (Add q s n)"
  by (simp add: Add_def kept_upd_peer split: prod.split)


section \<open>Stopping an acceptor\<close>

definition waits_or_later :: "stop_pc \<Rightarrow> bool" where
  "waits_or_later pc \<longleftrightarrow> pc \<in> {StopListener, StopSessions, StopTested, StopWait, StopReceived, Stopped}"

definition acc_ok :: "nat \<Rightarrow> acceptor \<Rightarrow> bool" where
  "acc_ok p st \<longleftrightarrow> p < length (peers (aNet st)) \<and>
     (running p (aNet st) \<longleftrightarrow> aThread st \<notin> {ANone, AStart, ASync, ADone}) \<and>
     (aStopping st \<longrightarrow> aApp st \<in> {StopBegun, StopListener, StopSessions, StopTested, StopWait, StopReceived}) \<and>
     (aApp st \<in> {StopBegun, StopListener, StopSessions, StopTested, StopWait} \<and> \<not> aStopping st \<longrightarrow> aThread st = ADone) \<and>
     (aApp st \<in> {StopReceived, Stopped} \<longrightarrow> aThread st = ADone) \<and>
     (aApp st \<noteq> AppIdle \<longrightarrow> aThread st \<noteq> ANone \<and> aThread st \<noteq> AStart) \<and>
     (waits_or_later (aApp st) \<longrightarrow> aListener st = Some False) \<and>
     (aListener st = None \<longrightarrow> aThread st = ANone \<or> aThread st = ADone)"


lemma set_running_simps:
  "p < length (peers n) \<Longrightarrow> running p (set_running p v n) = v" "length (peers (set_running p v n)) = length (peers n)"
  by (simp_all add: running_def set_running_def upd_peer_def SetRunning_def IsRunning_def)

lemma set_address_flag: "flag_kept p n (upd_peer q (SetAddress addr) n)"
  by (simp add: kept_upd_peer SetAddress_def)



lemma NewAcceptor_ok: "p = length (peers n) \<Longrightarrow> acc_ok p (NewAcceptor q n)"
  by (simp add: acc_ok_def NewAcceptor_def newSocketPeer_def NewHandlerChain_def genChainID_def Let_def running_def
      IsRunning_def waits_or_later_def)





lemma acc_hangs:
  assumes "aApp st = StopWait" "aThread st = ADone" "acc_step cb ord sord p st st'"
  shows "aApp st' = StopWait \<and> aThread st' = ADone"
  using assms(3,1,2) by (induction rule: acc_step.induct) auto

interpretation hung: machine "acc_step cb ord sord p" "\<lambda>st. aApp st = StopWait \<and> aThread st = ADone" for cb ord sord p
  using acc_hangs by unfold_locales blast

text \<open>A run up to the point where the loop is before \<^verbatim>\<open>endStopping\<close> and \<^verbatim>\<open>Stop\<close> before the receive.\<close>

lemma acceptor_run:
  assumes "p = length (peers n)"
  shows "\<exists>st. (acc_step cb ord sord p)\<^sup>*\<^sup>* (NewAcceptor q n) st \<and> 
    aApp st = StopTested \<and> aThread st = ASync \<and> aStopping st"
proof -
  let ?R = "acc_step cb ord sord p"
  let ?s0 = "NewAcceptor q n"
  let ?s1 = "?s0\<lparr>aNet := upd_peer p (SetAddress []) (aNet ?s0), aListener := Some True, aThread := AStart, aApp := AppIdle\<rparr>"
  let ?s2 = "?s1\<lparr>aNet := set_running p True (aNet ?s1), aThread := AAccept\<rparr>"
  let ?s3 = "?s2\<lparr>aApp := StopChecked\<rparr>"
  let ?s4 = "?s3\<lparr>aStopping := True, aApp := StopBegun\<rparr>"
  let ?s5 = "?s4\<lparr>aListener := Some False, aApp := StopListener\<rparr>"
  let ?s6 = "?s5\<lparr>aThread := ATest (AcceptErr False)\<rparr>"
  let ?s7 = "?s6\<lparr>aThread := AEnd\<rparr>"
  let ?s8 = "?s7\<lparr>aNet := set_running p False (aNet ?s7), aThread := ASync\<rparr>"
  let ?s9 = "?s8\<lparr>aNet := CloseAllSession sord p (aNet ?s8), aApp := StopSessions\<rparr>"
  let ?s10 = "?s9\<lparr>aApp := StopTested\<rparr>"
  have new: "aApp ?s0 = AppIdle" "aThread ?s0 = ANone" "\<not> aStopping ?s0" "\<not> running p (aNet ?s0)" "p < length (peers (aNet ?s0))"
    using NewAcceptor_ok [OF assms, of q] by (simp_all add: acc_ok_def NewAcceptor_def split: prod.split)
  have run: "running p (aNet ?s2)"
    using set_running_simps(1) [of p "aNet ?s1" True] new(5) by (simp add: upd_peer_def)
  note [trans] = rtranclp.rtrancl_into_rtrancl
  have "?R\<^sup>*\<^sup>* ?s0 ?s0" by simp
  also have "?R ?s0 ?s1" using new by (intro start_listen) simp_all
  also have "?R ?s1 ?s2" by (intro set_run) simp
  also have "?R ?s2 ?s3" using run new(3) by (intro stop_check) simp_all
  also have "?R ?s3 ?s4" by (intro stop_begin) simp
  also have "?R ?s4 ?s5" by (intro stop_listener [where b = True]) simp_all
  also have "?R ?s5 ?s6" by (intro accept_err) simp_all
  also have "?R ?s6 ?s7" by (intro accept_stopping) simp_all
  also have "?R ?s7 ?s8" by (intro loop_end) simp
  also have "?R ?s8 ?s9" by (intro stop_sessions) simp
  also have "?R ?s9 ?s10" by (intro stop_test) simp_all
  finally have "?R\<^sup>*\<^sup>* ?s0 ?s10" .
  then show ?thesis
    by (intro exI [of _ ?s10]) simp
qed

text \<open>
  The wait of \<^verbatim>\<open>Stop\<close> can last for ever. \<^verbatim>\<open>Stop\<close> tests that the channel is there and receives
  from it in two steps; when the loop reaches \<^verbatim>\<open>endStopping\<close> in between, it finds no receiver,
  drops the channel and ends, and nothing wakes \<^verbatim>\<open>Stop\<close> any more. The first part gives such a
  run from a new acceptor, the second says that no later step of the process ends the wait.
\<close>

theorem acceptor_Stop_hangs:
  assumes "p = length (peers n)"
  shows "\<exists>st. (acc_step cb ord sord p)\<^sup>*\<^sup>* (NewAcceptor q n) st \<and> aApp st = StopWait \<and>
    (\<forall>st'. (acc_step cb ord sord p)\<^sup>*\<^sup>* st st' \<longrightarrow> aApp st' = StopWait)"
proof -
  let ?R = "acc_step cb ord sord p"
  obtain st where st: "?R\<^sup>*\<^sup>* (NewAcceptor q n) st" "aApp st = StopTested" "aThread st = ASync"
    using acceptor_run [OF assms] by blast
  let ?s1 = "st\<lparr>aThread := ADone, aStopping := False\<rparr>"
  let ?s2 = "?s1\<lparr>aApp := StopWait\<rparr>"
  have "?R st ?s1" "?R ?s1 ?s2"
    using st by (auto intro: end_default stop_wait)
  with st(1) have "?R\<^sup>*\<^sup>* (NewAcceptor q n) ?s2"
    by (meson rtranclp.rtrancl_into_rtrancl)
  then show ?thesis
    using hung.steps_keep [of cb ord sord p ?s2] by (intro exI [of _ ?s2]) auto
qed

lemma quiet_flag: "flag_callbacks p quiet"
  by (simp add: kept_callbacks_def quiet_def)


theorem acceptor_Stop_hangs_witness:
  "\<exists>st. (acc_step quiet id id 0)\<^sup>*\<^sup>* (NewAcceptor None empty_net) st \<and> aApp st = StopWait \<and>
    (\<forall>st'. (acc_step quiet id id 0)\<^sup>*\<^sup>* st st' \<longrightarrow> aApp st' = StopWait)"
  by (rule acceptor_Stop_hangs) (simp add: empty_net_def)

section \<open>The connector\<close>

text \<open>
  The points of \<^verbatim>\<open>connect\<close>: not started; before \<^verbatim>\<open>SetRunning(true)\<close>; in \<^verbatim>\<open>Dial\<close>; in \<^verbatim>\<open>Sleep\<close>; with
  the threads of the session started, before \<^verbatim>\<open>OnClose\<close> is set; before the event; receiving from
  \<^verbatim>\<open>closeSignal\<close>; after the receive; after the loop; before \<^verbatim>\<open>endStopping\<close>; ended. The watch is the
  goroutine that \<^verbatim>\<open>run\<close> starts for the session: waiting for its threads; before the test of
  \<^verbatim>\<open>OnClose\<close>; sending on \<^verbatim>\<open>closeSignal\<close>; ended.
\<close>

datatype connect_pc =
    KNone | KStart | KDial | KSleep | KRun nat | KPost nat | KWait | KClosed | KEnd | KSync | KDone

datatype watch_pc = WAlive nat | WEnded nat | WSignal | WGone

record connector =
  kNet :: net
  kAuto :: nat
  kTries :: nat
  kDefault :: "nat option"
  kOnClose :: bool
  kWatch :: watch_pc
  kStopping :: bool
  kThread :: connect_pc
  kApp :: stop_pc

definition SetAutoReconnectSec :: "nat \<Rightarrow> connector \<Rightarrow> connector" where
  "SetAutoReconnectSec sec st = st\<lparr>kAuto := sec\<rparr>"

definition DefaultSession :: "connector \<Rightarrow> nat option" where
  "DefaultSession st = kDefault st"

text \<open>
  \<open>StopListener\<close> and \<open>StopSessions\<close> stand for the two ends of the call of \<^verbatim>\<open>defaultSes.Close\<close> here.
\<close>

inductive con_step :: "callbacks \<Rightarrow> chain_order \<Rightarrow> nat \<Rightarrow> connector \<Rightarrow> connector \<Rightarrow> bool" for cb ord p where
  c_start: "kApp st = AppIdle \<or> kApp st = Stopped \<Longrightarrow> kThread st = KNone \<or> kThread st = KDone \<Longrightarrow>
    \<not> kStopping st \<Longrightarrow> \<not> running p (kNet st) \<Longrightarrow>
    con_step cb ord p st (st\<lparr>kThread := KStart, kApp := AppIdle\<rparr>)"
| c_run: "kThread st = KStart \<Longrightarrow>
    con_step cb ord p st (st\<lparr>kNet := upd_peer p (SetAddress addr) (set_running p True (kNet st)), kThread := KDial\<rparr>)"
| dial_failed: "kThread st = KDial \<Longrightarrow> kAuto st = 0 \<Longrightarrow> post_failed cb ord Event_ConnectFailed t p (kNet st) = Ok n \<Longrightarrow>
    con_step cb ord p st (st\<lparr>kTries := kTries st + 1, kNet := n, kThread := KEnd\<rparr>)"
| dial_retry: "kThread st = KDial \<Longrightarrow> kAuto st \<noteq> 0 \<Longrightarrow>
    con_step cb ord p st (st\<lparr>kTries := kTries st + 1, kThread := KSleep\<rparr>)"
| c_wake: "kThread st = KSleep \<Longrightarrow> con_step cb ord p st (st\<lparr>kThread := KDial\<rparr>)"
| dial_ok: "kThread st = KDial \<Longrightarrow> newSession c p (kNet st) = Ok (s, n) \<Longrightarrow>
    con_step cb ord p st (st\<lparr>kNet := n, kDefault := Some s, kOnClose := False, kWatch := WAlive s, kTries := 0, kThread := KRun s\<rparr>)"
| c_added: "kThread st = KRun s \<Longrightarrow>
    con_step cb ord p st (st\<lparr>kNet := Add p s (kNet st), kOnClose := True, kThread := KPost s\<rparr>)"
| c_posted: "kThread st = KPost s \<Longrightarrow> peer_chains ord p (kNet st) = (cs, n) \<Longrightarrow>
    PostSystemEvent cb (Some s) Event_Connected cs Result_OK n = Ok n' \<Longrightarrow>
    con_step cb ord p st (st\<lparr>kNet := n', kThread := KWait\<rparr>)"
| ses_ended: "kWatch st = WAlive s \<Longrightarrow> con_step cb ord p st (st\<lparr>kWatch := WEnded s\<rparr>)"
| on_close: "kWatch st = WEnded s \<Longrightarrow> kOnClose st \<Longrightarrow>
    con_step cb ord p st (st\<lparr>kNet := Remove p s (kNet st), kWatch := WSignal\<rparr>)"
| no_on_close: "kWatch st = WEnded s \<Longrightarrow> \<not> kOnClose st \<Longrightarrow> con_step cb ord p st (st\<lparr>kWatch := WGone\<rparr>)"
| c_signal: "kWatch st = WSignal \<Longrightarrow> kThread st = KWait \<Longrightarrow>
    con_step cb ord p st (st\<lparr>kWatch := WGone, kThread := KClosed\<rparr>)"
| c_exit: "kThread st = KClosed \<Longrightarrow> kStopping st \<or> kAuto st = 0 \<Longrightarrow>
    con_step cb ord p st (st\<lparr>kDefault := None, kThread := KEnd\<rparr>)"
| c_again: "kThread st = KClosed \<Longrightarrow> \<not> (kStopping st \<or> kAuto st = 0) \<Longrightarrow>
    con_step cb ord p st (st\<lparr>kDefault := None, kThread := KSleep\<rparr>)"
| c_end: "kThread st = KEnd \<Longrightarrow>
    con_step cb ord p st (st\<lparr>kNet := set_running p False (kNet st), kThread := KSync\<rparr>)"
| c_end_send: "kThread st = KSync \<Longrightarrow> kStopping st \<Longrightarrow> kApp st = StopWait \<Longrightarrow>
    con_step cb ord p st (st\<lparr>kThread := KDone, kApp := StopReceived\<rparr>)"
| c_end_default: "kThread st = KSync \<Longrightarrow> \<not> (kStopping st \<and> kApp st = StopWait) \<Longrightarrow>
    con_step cb ord p st (st\<lparr>kThread := KDone, kStopping := False\<rparr>)"
| c_stop_check: "kApp st = AppIdle \<or> kApp st = Stopped \<Longrightarrow> running p (kNet st) \<Longrightarrow> \<not> kStopping st \<Longrightarrow>
    con_step cb ord p st (st\<lparr>kApp := StopChecked\<rparr>)"
| c_stop_begin: "kApp st = StopChecked \<Longrightarrow> con_step cb ord p st (st\<lparr>kStopping := True, kApp := StopBegun\<rparr>)"
| c_stop_close: "kApp st = StopBegun \<Longrightarrow>
    con_step cb ord p st (st\<lparr>kNet := (case kDefault st of Some s \<Rightarrow> Close s (kNet st) | None \<Rightarrow> kNet st), kApp := StopSessions\<rparr>)"
| c_stop_finished: "kApp st = StopSessions \<Longrightarrow> \<not> kStopping st \<Longrightarrow> con_step cb ord p st (st\<lparr>kApp := Stopped\<rparr>)"
| c_stop_test: "kApp st = StopSessions \<Longrightarrow> kStopping st \<Longrightarrow> con_step cb ord p st (st\<lparr>kApp := StopTested\<rparr>)"
| c_stop_wait: "kApp st = StopTested \<Longrightarrow> con_step cb ord p st (st\<lparr>kApp := StopWait\<rparr>)"
| c_stop_received: "kApp st = StopReceived \<Longrightarrow> con_step cb ord p st (st\<lparr>kStopping := False, kApp := Stopped\<rparr>)"
| c_others: "length (peers (kNet st)) \<le> length (peers n) \<Longrightarrow> running p n = running p (kNet st) \<Longrightarrow>
    con_step cb ord p st (st\<lparr>kNet := n\<rparr>)"

definition NewConnectorBySessionManager :: "nat option \<Rightarrow> ses_mgr \<Rightarrow> net \<Rightarrow> connector" where
  "NewConnectorBySessionManager q sm n =
     (let (pe, n) = newSocketPeer q sm n
      in \<lparr>kNet = n\<lparr>peers := peers n @ [pe]\<rparr>, kAuto = 0, kTries = 0, kDefault = None, kOnClose = False, kWatch = WGone,
          kStopping = False, kThread = KNone, kApp = AppIdle\<rparr>)"

definition NewConnector :: "nat option \<Rightarrow> net \<Rightarrow> connector" where
  "NewConnector q n = NewConnectorBySessionManager q NewSessionManager n"

section \<open>Stopping a connector\<close>

definition con_ok :: "nat \<Rightarrow> connector \<Rightarrow> bool" where
  "con_ok p st \<longleftrightarrow> p < length (peers (kNet st)) \<and>
     (running p (kNet st) \<longleftrightarrow> kThread st \<notin> {KNone, KStart, KSync, KDone}) \<and>
     (kStopping st \<longrightarrow> kApp st \<in> {StopBegun, StopListener, StopSessions, StopTested, StopWait, StopReceived}) \<and>
     (kApp st \<in> {StopBegun, StopListener, StopSessions, StopTested, StopWait} \<and> \<not> kStopping st \<longrightarrow> kThread st = KDone) \<and>
     (kApp st \<in> {StopReceived, Stopped} \<longrightarrow> kThread st = KDone) \<and>
     (kApp st \<noteq> AppIdle \<longrightarrow> kThread st \<noteq> KNone \<and> kThread st \<noteq> KStart)"

lemma con_ok_flag: "con_ok p st \<Longrightarrow> flag_kept p (kNet st) n \<Longrightarrow> con_ok p (st\<lparr>kNet := n\<rparr>)"
  by (simp add: con_ok_def flag_kept_iff)

lemma con_ok_fields [simp]:
  "con_ok p (st\<lparr>kTries := a\<rparr>) = con_ok p st" "con_ok p (st\<lparr>kDefault := b\<rparr>) = con_ok p st"
  "con_ok p (st\<lparr>kOnClose := c\<rparr>) = con_ok p st" "con_ok p (st\<lparr>kWatch := d\<rparr>) = con_ok p st"
  by (simp_all add: con_ok_def)

lemma con_step_ok:
  assumes "con_step cb ord p st st'" "flag_callbacks p cb" "con_ok p st"
  shows "con_ok p st'"
  using assms
proof (induction rule: con_step.induct)
  case (c_run st addr)
  have "running p (upd_peer p (SetAddress addr) (set_running p True (kNet st)))"
    using set_address_flag [of p "set_running p True (kNet st)" p addr] c_run(3) set_running_simps(1) [of p "kNet st" True]
      set_running_simps(2) [of p True "kNet st"]
    by (simp add: flag_kept_iff con_ok_def)
  then show ?case
    using c_run set_running_simps(2) by (auto simp: con_ok_def upd_peer_def set_running_def)
next
  case (dial_failed st t n)
  have "con_ok p (st\<lparr>kNet := n\<rparr>)"
    by (rule con_ok_flag [OF dial_failed(5) post_failed_kept [OF flag_chain_free dial_failed(4,3)]])
  then show ?case
    using dial_failed(1) by (auto simp: con_ok_def)
next
  case (dial_ok st c s n)
  have "con_ok p (st\<lparr>kNet := n\<rparr>)"
    by (rule con_ok_flag [OF dial_ok(4) kept_peers [OF newSession_peers [OF dial_ok(2)]]])
  then show ?case
    using dial_ok(1) by (auto simp: con_ok_def)
next
  case (c_added st s)
  have "con_ok p (st\<lparr>kNet := Add p s (kNet st)\<rparr>)"
    by (rule con_ok_flag [OF c_added(3) Add_flag])
  then show ?case
    using c_added(1) by (auto simp: con_ok_def)
next
  case (c_posted st s cs n n')
  have "flag_kept p (kNet st) n"
    using c_posted(2) by (auto simp: peer_chains_def Let_def kept_upd_peer split: prod.splits)
  then have "con_ok p (st\<lparr>kNet := n'\<rparr>)"
    using PostSystemEvent_kept [OF flag_chain_free c_posted(4,3)] kept_trans by (intro con_ok_flag [OF c_posted(5)]) blast
  then show ?case
    using c_posted(1) by (auto simp: con_ok_def)
next
  case (on_close st s)
  have "flag_kept p (kNet st) (Remove p s (kNet st))"
    by (simp add: Remove_def kept_upd_peer)
  with on_close show ?case
    by (simp add: con_ok_flag)
next
  case (c_stop_close st)
  have "flag_kept p (kNet st) (case kDefault st of Some s \<Rightarrow> Close s (kNet st) | None \<Rightarrow> kNet st)"
    by (simp add: Close_def split: option.split)
  from con_ok_flag [OF c_stop_close(3) this] show ?case
    using c_stop_close(1) by (auto simp: con_ok_def)
next
  case (c_others st n)
  then show ?case
    by (intro con_ok_flag) (simp_all add: flag_kept_iff)
qed (auto simp: con_ok_def set_running_simps)

interpretation con: machine "con_step cb ord p" "\<lambda>st. flag_callbacks p cb \<and> con_ok p st" for cb ord p
  by unfold_locales (auto intro: con_step_ok)

lemma NewConnector_ok: "p = length (peers n) \<Longrightarrow> con_ok p (NewConnector q n)"
  by (simp add: con_ok_def NewConnector_def NewConnectorBySessionManager_def newSocketPeer_def NewHandlerChain_def
      genChainID_def Let_def running_def IsRunning_def)

text \<open>A step in which no dial succeeds.\<close>

definition undialled :: "callbacks \<Rightarrow> chain_order \<Rightarrow> nat \<Rightarrow> connector \<Rightarrow> connector \<Rightarrow> bool" where
  "undialled cb ord p st st' \<longleftrightarrow> con_step cb ord p st st' \<and> (\<forall>s. kThread st' \<noteq> KRun s)"

definition reconnecting :: "connector \<Rightarrow> bool" where
  "reconnecting st \<longleftrightarrow> kApp st = StopWait \<and> kAuto st \<noteq> 0 \<and> (kThread st = KDial \<or> kThread st = KSleep)"

lemma reconnecting_step:
  assumes "con_step cb ord p st st'" "\<forall>s. kThread st' \<noteq> KRun s" "reconnecting st"
  shows "reconnecting st'"
  using assms by (induction rule: con_step.induct) (auto simp: reconnecting_def)

interpretation redial: machine "undialled cb ord p" reconnecting for cb ord p
  using reconnecting_step by unfold_locales (auto simp: undialled_def)

text \<open>
  Stopping a connector. Whenever \<^verbatim>\<open>Stop\<close> has returned after it asked the loop to end, the loop
  of \<^verbatim>\<open>connect\<close> has ended. But a loop that tries to reconnect does not look at the request: as
  long as no dial succeeds, \<^verbatim>\<open>Stop\<close> does not return.
\<close>

theorem connector_Stop:
  assumes "flag_callbacks p cb" "p = length (peers n)" "(con_step cb ord p)\<^sup>*\<^sup>* (SetAutoReconnectSec sec (NewConnector q n)) st"
  shows "(kApp st = Stopped \<longrightarrow> kThread st = KDone \<and> \<not> kStopping st \<and> \<not> running p (kNet st)) \<and>
    (kApp st = StopWait \<and> kAuto st \<noteq> 0 \<and> (kThread st = KDial \<or> kThread st = KSleep) \<longrightarrow>
      (\<forall>st'. (undialled cb ord p)\<^sup>*\<^sup>* st st' \<longrightarrow> kApp st' = StopWait))"
proof -
  have "con_ok p (SetAutoReconnectSec sec (NewConnector q n))"
    using NewConnector_ok [OF assms(2), of q] by (simp add: con_ok_def SetAutoReconnectSec_def)
  then have "con_ok p st"
    using con.steps_keep [OF assms(3)] assms(1) by simp
  then have "kThread st = KDone \<and> \<not> kStopping st \<and> \<not> running p (kNet st)" if "kApp st = Stopped"
    using that unfolding con_ok_def by simp
  moreover have "kApp st' = StopWait" if "reconnecting st" "(undialled cb ord p)\<^sup>*\<^sup>* st st'" for st'
    using redial.steps_keep [OF that(2,1)] unfolding reconnecting_def by simp
  ultimately show ?thesis
    unfolding reconnecting_def by blast
qed

definition lost :: "connector \<Rightarrow> bool" where
  "lost st \<longleftrightarrow> kWatch st = WGone \<and> (kThread st = KWait \<or> (\<exists>s. kThread st = KRun s \<or> kThread st = KPost s))"

lemma lost_step: "con_step cb ord p st st' \<Longrightarrow> lost st \<Longrightarrow> lost st'"
  by (induction rule: con_step.induct) (auto simp: lost_def)

interpretation lost: machine "con_step cb ord p" lost for cb ord p
  using lost_step by unfold_locales blast

lemma connector_dials:
  assumes "p = length (peers n)"
  shows "\<exists>st. (con_step cb ord p)\<^sup>*\<^sup>* (SetAutoReconnectSec sec (NewConnector q n)) st \<and> kThread st = KDial \<and> kAuto st = sec \<and>
    kApp st = AppIdle \<and> \<not> kStopping st \<and> running p (kNet st) \<and>
    (\<exists>s m. newSession c p (kNet st) = Ok (s, m))"
proof -
  let ?R = "con_step cb ord p"
  let ?s0 = "SetAutoReconnectSec sec (NewConnector q n)"
  let ?s1 = "?s0\<lparr>kThread := KStart, kApp := AppIdle\<rparr>"
  let ?s2 = "?s1\<lparr>kNet := upd_peer p (SetAddress []) (set_running p True (kNet ?s1)), kThread := KDial\<rparr>"
  have new: "kApp ?s0 = AppIdle" "kThread ?s0 = KNone" "\<not> kStopping ?s0" "\<not> running p (kNet ?s0)" "kAuto ?s0 = sec"
    using NewConnector_ok [OF assms, of q]
    by (simp_all add: con_ok_def SetAutoReconnectSec_def NewConnector_def NewConnectorBySessionManager_def split: prod.split)
  have "?R ?s0 ?s1"
    using new by (intro c_start) simp_all
  moreover have "?R ?s1 ?s2"
    by (intro c_run) simp
  ultimately have run: "?R\<^sup>*\<^sup>* ?s0 ?s2"
    by (meson converse_rtranclp_into_rtranclp r_into_rtranclp)
  have "\<exists>s m. newSession c p (kNet ?s2) = Ok (s, m)" "running p (kNet ?s2)"
    using assms
    by (simp_all add: SetAutoReconnectSec_def NewConnector_def NewConnectorBySessionManager_def newSocketPeer_def
        NewHandlerChain_def genChainID_def Let_def set_running_def upd_peer_def SetReadWriteChain_def newSession_def
        CreateChainRead_def CreateChainWrite_def call_creator_def SetAddress_def SetRunning_def running_def IsRunning_def)
  with run new show ?thesis
    by (intro exI [of _ ?s2]) simp
qed

text \<open>
  The end of a connector's session can be lost. The threads of the session run before
  \<^verbatim>\<open>OnClose\<close> is set; when the session ends in between, nobody sends on \<^verbatim>\<open>closeSignal\<close>. The first
  part gives such a run from a new connector, the second says that \<^verbatim>\<open>connect\<close> then stays at this
  session for ever: it neither dials again nor ends, whatever the process does.
\<close>

theorem connector_close_lost:
  assumes "p = length (peers n)"
  shows "\<exists>st. (con_step cb ord p)\<^sup>*\<^sup>* (SetAutoReconnectSec sec (NewConnector q n)) st \<and>
    (\<forall>st'. (con_step cb ord p)\<^sup>*\<^sup>* st st' \<longrightarrow>
       kThread st' = KWait \<or> (\<exists>s. kThread st' = KRun s \<or> kThread st' = KPost s))"
proof -
  let ?R = "con_step cb ord p"
  obtain st s m where st: "?R\<^sup>*\<^sup>* (SetAutoReconnectSec sec (NewConnector q n)) st" "kThread st = KDial"
      "newSession idle_conn p (kNet st) = Ok (s, m)"
    using connector_dials [OF assms, of cb ord sec q idle_conn] by auto
  let ?s1 = "st\<lparr>kNet := m, kDefault := Some s, kOnClose := False, kWatch := WAlive s, kTries := 0, kThread := KRun s\<rparr>"
  let ?s2 = "?s1\<lparr>kWatch := WEnded s\<rparr>"
  let ?s3 = "?s2\<lparr>kWatch := WGone\<rparr>"
  have "?R st ?s1"
    using st(2,3) by (rule dial_ok)
  moreover have "?R ?s1 ?s2"
    by (rule ses_ended) simp
  moreover have "?R ?s2 ?s3"
    by (rule no_on_close) simp_all
  ultimately have "?R\<^sup>*\<^sup>* (SetAutoReconnectSec sec (NewConnector q n)) ?s3"
    using st(1) by (meson rtranclp.rtrancl_into_rtrancl)
  moreover have "lost ?s3"
    by (simp add: lost_def)
  ultimately show ?thesis
    using lost.steps_keep [of cb ord p ?s3] by (intro exI [of _ ?s3]) (auto simp: lost_def)
qed

theorem connector_Stop_witness:
  "\<exists>st. (con_step quiet id 0)\<^sup>*\<^sup>* (SetAutoReconnectSec 5 (NewConnector None empty_net)) st \<and> kApp st = StopWait \<and>
     (\<forall>st'. (undialled quiet id 0)\<^sup>*\<^sup>* st st' \<longrightarrow> kApp st' = StopWait)"
proof -
  let ?R = "con_step quiet id 0"
  have p: "0 = length (peers empty_net)"
    by (simp add: empty_net_def)
  obtain s0 where s0: "?R\<^sup>*\<^sup>* (SetAutoReconnectSec 5 (NewConnector None empty_net)) s0" "kThread s0 = KDial" "kAuto s0 = 5"
      "kApp s0 = AppIdle" "\<not> kStopping s0" "running 0 (kNet s0)"
    using connector_dials [OF p, of quiet id 5 None idle_conn] by auto
  let ?s1 = "s0\<lparr>kApp := StopChecked\<rparr>"
  let ?s2 = "?s1\<lparr>kStopping := True, kApp := StopBegun\<rparr>"
  let ?s3 = "?s2\<lparr>kNet := (case kDefault ?s2 of Some s \<Rightarrow> Close s (kNet ?s2) | None \<Rightarrow> kNet ?s2), kApp := StopSessions\<rparr>"
  let ?s4 = "?s3\<lparr>kApp := StopTested\<rparr>"
  let ?s5 = "?s4\<lparr>kApp := StopWait\<rparr>"
  note [trans] = rtranclp.rtrancl_into_rtrancl
  note s0(1)
  also have "?R s0 ?s1" using s0 by (intro c_stop_check) simp_all
  also have "?R ?s1 ?s2" by (intro c_stop_begin) simp
  also have "?R ?s2 ?s3" by (intro c_stop_close) simp
  also have "?R ?s3 ?s4" by (intro c_stop_test) simp_all
  also have "?R ?s4 ?s5" by (intro c_stop_wait) simp
  finally have run: "?R\<^sup>*\<^sup>* (SetAutoReconnectSec 5 (NewConnector None empty_net)) ?s5" .
  from connector_Stop [OF quiet_flag p run] s0(2,3) run show ?thesis
    by (intro exI [of _ ?s5]) simp
qed

theorem connector_close_lost_witness:
  "\<exists>st. (con_step quiet id 0)\<^sup>*\<^sup>* (SetAutoReconnectSec 0 (NewConnector None empty_net)) st \<and>
    (\<forall>st'. (con_step quiet id 0)\<^sup>*\<^sup>* st st' \<longrightarrow>
       kThread st' = KWait \<or> (\<exists>s. kThread st' = KRun s \<or> kThread st' = KPost s))"
  by (rule connector_close_lost) (simp add: empty_net_def)

end
