(* ===== verification/Cellnet_Websocket.thy ===== *)
theory Cellnet_Websocket
  imports Cellnet_Rpc
begin

text \<open>
  The websocket package (\<^verbatim>\<open>websocket/textpkt.go\<close>, \<^verbatim>\<open>websocket/session.go\<close>, \<^verbatim>\<open>websocket/base.go\<close>): a packet
  is a text frame with the name of the message, a line feed and the encoded message. The
  websocket library is not modelled: \<open>wsIn\<close> is what its \<^verbatim>\<open>ReadMessage\<close> is going to return and
  \<open>wsOut\<close> what was given to \<^verbatim>\<open>WriteMessage\<close>. A session of this package has its number, peer and tag
  in the table of sessions; the fields that only the socket package uses are idle there.
\<close>

section \<open>Packets\<close>

fun parse_loop :: "nat \<Rightarrow> bytes \<Rightarrow> bytes \<Rightarrow> bytes \<times> bytes option" where
  "parse_loop index [] pkt = ([], None)"
| "parse_loop index (d # ds) pkt =
     (if d = 10 then (take index pkt, Some (drop (index + 1) pkt)) else parse_loop (index + 1) ds pkt)"

definition parsePacket :: "bytes \<Rightarrow> bytes \<times> bytes option" where
  "parsePacket pkt = parse_loop 0 pkt pkt"

definition string_bytes :: "string \<Rightarrow> bytes" where
  "string_bytes s = map of_char s"

definition bytes_string :: "bytes \<Rightarrow> string" where
  "bytes_string bs = map (\<lambda>b. char_of (unat b)) bs"

definition composePacket :: "string \<Rightarrow> bytes option \<Rightarrow> bytes" where
  "composePacket msgName data = string_bytes msgName @ [10] @ (case data of Some d \<Rightarrow> d | None \<Rightarrow> [])"

section \<open>Sessions\<close>

datatype ws_message = WsText bytes | WsBinary bytes | WsClose | WsError

text \<open>\<open>wsPending\<close> are the goroutines of \<^verbatim>\<open>RawSend\<close> that have not run yet, by their events.\<close>

record ws_conn =
  wsIn :: "ws_message list"
  wsOut :: "ws_message list"
  wsPending :: "nat list"

definition ws_newPeer :: "nat option \<Rightarrow> ses_mgr \<Rightarrow> net \<Rightarrow> peer \<times> net" where
  "ws_newPeer queue sm n =
     (let (c, n) = NewHandlerChain [[EncodePacketHandler]] n
      in (\<lparr>pName = [], pAddress = [], pTag = None, pRunning = False, pQueue = queue,
           pChains = SetChainSend c NewHandlerChainManager, pSessions = sm, pOptions = newSocketOptions\<rparr>, n))"

definition ws_newSession :: "nat \<Rightarrow> net \<Rightarrow> nat \<times> net" where
  "ws_newSession p n =
     (length (sessions n),
      n\<lparr>sessions := sessions n @ [\<lparr>sID = 0, sPeer = p, sNeedNotifyWrite = False, sSendList = [],
         sConn = \<lparr>cIn = [], cOut = [], cClosed = False\<rparr>, sTag = None,
         sReadChain = HandlerChain 0 [], sWriteChain = HandlerChain 0 []\<rparr>]\<rparr>)"

definition ws_Close :: "ws_conn \<Rightarrow> ws_conn" where
  "ws_Close c = c\<lparr>wsOut := wsOut c @ [WsClose]\<rparr>"

definition ws_RawSend :: "callbacks \<Rightarrow> nat \<Rightarrow> nat \<Rightarrow> net \<Rightarrow> ws_conn \<Rightarrow> (net \<times> ws_conn) run" where
  "ws_RawSend cb s a n c =
     (let n = upd_event a (\<lambda>ev. ev\<lparr>evSes := Some s\<rparr>) n
      in bind_go (case evChainSend (event n a) of
                    Some h \<Rightarrow> HandlerChain_Call cb h a n
                  | None \<Rightarrow> Ok n) (\<lambda>n.
         bind_go (MsgLog a n) (\<lambda>n. Ok (n, c\<lparr>wsPending := wsPending c @ [a]\<rparr>))))"

text \<open>The goroutine that \<^verbatim>\<open>RawSend\<close> starts; the pending ones run in any order.\<close>

definition ws_write :: "nat \<Rightarrow> net \<Rightarrow> ws_conn \<Rightarrow> net \<times> ws_conn" where
  "ws_write a n c =
     (let c = c\<lparr>wsPending := remove1 a (wsPending c)\<rparr>
      in case MessageMetaByID n (evMsgID (event n a)) of
           None \<Rightarrow> (SetResult Result_CodecError a n, c)
         | Some meta \<Rightarrow> (n, c\<lparr>wsOut := wsOut c @ [WsText (composePacket (meta_Name meta) (evData (event n a)))]\<rparr>))"

definition ws_Send :: "callbacks \<Rightarrow> nat \<Rightarrow> message option \<Rightarrow> net \<Rightarrow> ws_conn \<Rightarrow> (net \<times> ws_conn) run" where
  "ws_Send cb s data n c =
     (let (a, n) = NewEvent Event_Send (Some s) n;
          n = upd_event a (\<lambda>ev. ev\<lparr>evMsg := data\<rparr>) n;
          n = (if evChainSend (event n a) \<noteq> None
               then upd_event a (\<lambda>ev. ev\<lparr>evChainSend := ChainSend (pChains (peers n ! sPeer (sessions n ! s)))\<rparr>) n
               else n)
      in ws_RawSend cb s a n c)"

text \<open>\<^verbatim>\<open>ReadPacket\<close> on what the library returned; frames of other types yield message number 0.\<close>

definition ws_ReadPacket :: "net \<Rightarrow> ws_message \<Rightarrow> u32 \<times> bytes option \<times> Result" where
  "ws_ReadPacket n m =
     (case m of
        WsError \<Rightarrow> (0, None, Result_SocketError)
      | WsText raw \<Rightarrow>
          (let (msgName, userdata) = parsePacket raw
           in if msgName \<noteq> []
              then (case MessageMetaByName n (bytes_string msgName) of
                      None \<Rightarrow> (0, None, Result_CodecError)
                    | Some meta \<Rightarrow>
                        if meta_Codec meta = None then (0, None, Result_CodecError)
                        else (meta_ID meta, userdata, Result_OK))
              else (0, userdata, Result_OK))
      | WsClose \<Rightarrow> (0, None, Result_RequestClose)
      | WsBinary raw \<Rightarrow> (0, None, Result_OK))"

definition ReadMessage :: "ws_conn \<Rightarrow> ws_message \<times> ws_conn" where
  "ReadMessage c = (case wsIn c of [] \<Rightarrow> (WsError, c) | m # ms \<Rightarrow> (m, c\<lparr>wsIn := ms\<rparr>))"

text \<open>One turn of \<^verbatim>\<open>recvThread\<close>: whether the loop goes on.\<close>

definition ws_recv_round :: "callbacks \<Rightarrow> chain_order \<Rightarrow> nat \<Rightarrow> net \<Rightarrow> ws_conn \<Rightarrow> (bool \<times> net \<times> ws_conn) run" where
  "ws_recv_round cb ord s n c =
     (let (m, c) = ReadMessage c; (msgid, data, result) = ws_ReadPacket n m;
          (chainList, n) = peer_chains ord (sPeer (sessions n ! s)) n
      in if result \<noteq> Result_OK
         then bind_go (PostSystemEvent cb (Some s) Event_Closed chainList result n) (\<lambda>n. Ok (False, n, c))
         else
           let (a, n) = NewEvent Event_Recv (Some s) n;
               n = upd_event a (\<lambda>ev. ev\<lparr>evMsgID := msgid, evData := data\<rparr>) n
           in bind_go (MsgLog a n) (\<lambda>n.
              bind_go (HandlerChainList_Call cb chainList a n) (\<lambda>n.
              if Result_of n a \<noteq> Result_OK
              then bind_go (PostSystemEvent cb (evSes (event n a)) Event_Closed chainList (Result_of n a) n) (\<lambda>n. Ok (False, n, c))
              else Ok (True, n, c))))"

section \<open>Packets come back\<close>

lemma parse_loop_append:
  "10 \<notin> set xs \<Longrightarrow> parse_loop k (xs @ 10 # ys) pkt = (take (k + length xs) pkt, Some (drop (k + length xs + 1) pkt))"
  by (induction xs arbitrary: k) auto

lemma parse_compose:
  "10 \<notin> set (string_bytes name) \<Longrightarrow>
     parsePacket (composePacket name data) = (string_bytes name, Some (case data of Some d \<Rightarrow> d | None \<Rightarrow> []))"
  by (simp add: parsePacket_def composePacket_def parse_loop_append)

lemma bytes_string_inverse: "bytes_string (string_bytes s) = s"
proof -
  have "unat (of_char c :: byte) = of_char c" for c
  proof -
    have "unat (word_of_nat (of_char c) :: byte) = of_char c"
      using nat_of_char_less_256 [of c] by (simp add: unsigned_of_nat take_bit_nat_eq_self)
    then show ?thesis
      by (simp only: of_nat_of_char)
  qed
  then show ?thesis
    by (simp add: bytes_string_def string_bytes_def comp_def)
qed

definition line_name :: "string \<Rightarrow> bool" where
  "line_name s \<longleftrightarrow> s \<noteq> [] \<and> 10 \<notin> set (string_bytes s)"

text \<open>
  What one end writes as a websocket packet the other end reads: for a registered message
  whose name is not empty and has no line feed, \<^verbatim>\<open>ReadPacket\<close> restores the number of the message
  and the bytes of the payload. When the name is unknown to the reader, or the frame carries a
  close, the result says so.
\<close>

theorem ws_packet_round_trip:
  assumes "metas_ok m" "MessageMetaByID n (evMsgID (event n a)) = Some meta" "line_name (meta_Name meta)"
    and "ws_write a n c = (n', c')"
  shows "n' = n \<and> (\<exists>raw. wsOut c' = wsOut c @ [WsText raw] \<and>
    (\<forall>meta'. MessageMetaByName m (meta_Name meta) = Some meta' \<longrightarrow>
       ws_ReadPacket m (WsText raw) = (meta_ID meta', Some (data_of (event n a)), Result_OK)) \<and>
    (MessageMetaByName m (meta_Name meta) = None \<longrightarrow> ws_ReadPacket m (WsText raw) = (0, None, Result_CodecError)))"
proof -
  let ?raw = "composePacket (meta_Name meta) (evData (event n a))"
  have out: "n' = n" "wsOut c' = wsOut c @ [WsText ?raw]"
    using assms(2,4) by (auto simp: ws_write_def Let_def)
  have parse: "parsePacket ?raw = (string_bytes (meta_Name meta), Some (data_of (event n a)))"
    using assms(3) by (simp add: parse_compose line_name_def data_of_def)
  have name: "string_bytes (meta_Name meta) \<noteq> []"
    using assms(3) by (simp add: line_name_def string_bytes_def)
  have "meta_Codec meta' \<noteq> None" if "MessageMetaByName m (meta_Name meta) = Some meta'" for meta'
    using assms(1) that unfolding metas_ok_def MessageMetaByName_def by blast
  then show ?thesis
    using out parse name by (auto simp: ws_ReadPacket_def bytes_string_inverse)
qed

text \<open>
  \<^verbatim>\<open>Send\<close> of a websocket session never sends the content of a message. It asks for a send chain
  only when the new event has one already, so nothing encodes the message: unless the log is
  at debug level, which fills in the number of the message, nothing is written at all, and
  with it the packet has the name of the message and an empty payload.
\<close>

theorem ws_Send_no_payload:
  assumes "ws_Send cb s (Some msg) n c = Ok (n1, c1)" "metas_ok n" "metaByID n 0 = None"
  shows "\<exists>a. wsPending c1 = wsPending c @ [a] \<and> wsOut c1 = wsOut c \<and>
    (\<not> debugEnabled n \<longrightarrow> wsOut (snd (ws_write a n1 c1)) = wsOut c) \<and>
    (debugEnabled n \<longrightarrow> (case MessageMetaByType n msg of
       None \<Rightarrow> wsOut (snd (ws_write a n1 c1)) = wsOut c
     | Some meta \<Rightarrow> wsOut (snd (ws_write a n1 c1)) = wsOut c @ [WsText (composePacket (meta_Name meta) None)]))"
proof -
  obtain u v where new: "NewEvent Event_Send (Some s) n =
      (length (events n), n\<lparr>evuid := u, events := events n @ [(new_Event Event_Send (Some s))\<lparr>evUID := v\<rparr>]\<rparr>)"
    using NewEvent_shape by blast
  let ?a = "length (events n)"
  let ?n = "n\<lparr>evuid := u, events := events n @ [(new_Event Event_Send (Some s))\<lparr>evUID := v, evMsg := Some msg, evSes := Some s\<rparr>]\<rparr>"
  have log: "MsgLog ?a ?n = Ok n1" and c1: "c1 = c\<lparr>wsPending := wsPending c @ [?a]\<rparr>"
    using assms(1) new
    by (auto simp: ws_Send_def ws_RawSend_def Let_def upd_event_def event_def new_Event_def go_elims)
  have ev: "event ?n ?a = (new_Event Event_Send (Some s))\<lparr>evUID := v, evMsg := Some msg, evSes := Some s\<rparr>"
    by (simp add: event_def)
  show ?thesis
  proof (cases "debugEnabled n")
    case False
    then have "n1 = ?n"
      using log by (simp add: MsgLog_def)
    then show ?thesis
      using False assms(3) ev c1 by (simp add: ws_write_def MessageMetaByID_def new_Event_def Let_def)
  next
    case True
    have parse: "Parse ?a ?n = Ok n1"
      using log True by (simp add: MsgLog_def)
    show ?thesis
    proof (cases "MessageMetaByType n msg")
      case None
      then have "n1 = ?n"
        using parse ev by (simp add: Parse_def MessageMetaByType_def new_Event_def)
      then show ?thesis
        using None True assms(3) ev c1 by (simp add: ws_write_def MessageMetaByID_def new_Event_def Let_def)
    next
      case (Some meta)
      then have n1: "n1 = upd_event ?a (\<lambda>ev. ev\<lparr>evMsgID := meta_ID meta\<rparr>) ?n"
        using parse ev by (simp add: Parse_def MessageMetaByType_def new_Event_def)
      have "metaByID n (meta_ID meta) = Some meta"
        using Some assms(2) unfolding metas_ok_def MessageMetaByType_def by blast
      then show ?thesis
        using Some True c1 ev
        by (simp add: ws_write_def MessageMetaByID_def new_Event_def Let_def n1) (simp add: upd_event_def event_def)
    qed
  qed
qed

section \<open>A ping\<close>

definition ping_meta :: MessageMeta where
  "ping_meta = \<lparr>meta_Type = \<lparr>tName = ''Ping'', tZero = []\<rparr>, meta_Name = ''game.Ping'', meta_ID = 7,
     meta_Codec = Some (sprotoCodec [] empty_registry)\<rparr>"

definition ping_net :: net where
  "ping_net = (case RegisterMessageMeta ''sproto'' ''game.Ping'' \<lparr>tName = ''Ping'', tZero = []\<rparr> 7 one_codec_net of
     Ok n \<Rightarrow> n | _ \<Rightarrow> one_codec_net)\<lparr>events := [(new_Event Event_Send None)\<lparr>evMsgID := 7, evData := Some [1, 2]\<rparr>]\<rparr>"

lemma ping_net_tables:
  "metaByID ping_net = [7 \<mapsto> ping_meta]" "metaByName ping_net = [''game.Ping'' \<mapsto> ping_meta]"
  "metaByType ping_net = [''Ping'' \<mapsto> ping_meta]" "\<not> debugEnabled ping_net"
  "events ping_net = [(new_Event Event_Send None)\<lparr>evMsgID := 7, evData := Some [1, 2]\<rparr>]"
  by (simp_all add: ping_net_def RegisterMessageMeta_def one_codec_net_def empty_net_def FetchCodec_def Let_def ping_meta_def)

lemma ping_net_ok: "metas_ok ping_net"
  unfolding metas_ok_def ping_net_tables by (auto simp: ping_meta_def split: if_splits)

definition ping_conn :: ws_conn where
  "ping_conn = \<lparr>wsIn = [], wsOut = [], wsPending = [0]\<rparr>"

theorem ws_packet_round_trip_witness:
  "ws_ReadPacket ping_net (WsText (composePacket ''game.Ping'' (Some [1, 2]))) = (7, Some [1, 2], Result_OK)"
proof -
  have ev: "evMsgID (event ping_net 0) = 7" "evData (event ping_net 0) = Some [1, 2]" "data_of (event ping_net 0) = [1, 2]"
    by (simp_all add: event_def ping_net_tables data_of_def)
  have name: "line_name (meta_Name ping_meta)"
    by (simp add: line_name_def string_bytes_def ping_meta_def of_char_of)
  have out: "wsOut (snd (ws_write 0 ping_net ping_conn)) = [WsText (composePacket ''game.Ping'' (Some [1, 2]))]"
    by (simp add: ws_write_def ev MessageMetaByID_def ping_net_tables ping_meta_def ping_conn_def)
  from ws_packet_round_trip [OF ping_net_ok, of ping_net 0 ping_meta ping_conn] out name ev show ?thesis
    by (cases "ws_write 0 ping_net ping_conn")
      (auto simp: MessageMetaByID_def MessageMetaByName_def ping_net_tables ping_conn_def, auto simp: ping_meta_def)
qed

theorem ws_Send_no_payload_witness:
  "\<exists>n1 c1. ws_Send quiet 0 (Some \<lparr>mType = ''Ping'', mPtr = True, mBody = []\<rparr>) ping_net ping_conn = Ok (n1, c1) \<and>
     (\<exists>a. wsPending c1 = [0, a] \<and> wsOut (snd (ws_write a n1 c1)) = [])"
proof -
  let ?r = "ws_Send quiet 0 (Some \<lparr>mType = ''Ping'', mPtr = True, mBody = []\<rparr>) ping_net ping_conn"
  obtain u v where "NewEvent Event_Send (Some 0) ping_net =
      (length (events ping_net), ping_net\<lparr>evuid := u, events := events ping_net @ [(new_Event Event_Send (Some 0))\<lparr>evUID := v\<rparr>]\<rparr>)"
    using NewEvent_shape by blast
  then obtain n1 c1 where r: "?r = Ok (n1, c1)"
    using ping_net_tables(4) by (auto simp: ws_Send_def ws_RawSend_def MsgLog_def Let_def upd_event_def event_def new_Event_def)
  have "metaByID ping_net 0 = None"
    by (simp add: ping_net_tables)
  from ws_Send_no_payload [OF r ping_net_ok this] r ping_net_tables(4) show ?thesis
    by (auto simp: ping_conn_def)
qed

end
