(* ===== verification/Cellnet_Timer.thy ===== *)
theory Cellnet_Timer
  imports Go_Prelude
begin

text \<open>
  The timers of cellnet (\<^verbatim>\<open>timer/after.go\<close>, \<^verbatim>\<open>timer/loop.go\<close>). \<^verbatim>\<open>After\<close> arms a timer whose goroutine posts a
  closure to the queue when it fires; a loop is such a closure that arms the next timer. The state
  is the loop, the number of its armed timers, and its closures in the queue, oldest first; a
  closure is given by the argument \<^verbatim>\<open>nextLoop\<close> of \<^verbatim>\<open>tick\<close>.
\<close>

datatype timer_error = NoTimerError

type_synonym 'a timed = "(timer_error, 'a) go"

record Loop =
  lDuration :: int
  lRunning :: bool
  lQueue :: bool

record timers =
  tmLoop :: Loop
  tmArmed :: nat
  tmTicks :: "bool list"

text \<open>\<^verbatim>\<open>After\<close> with a nil queue does nothing.\<close>

definition After :: "timers \<Rightarrow> timers" where
  "After s = (if lQueue (tmLoop s) then s\<lparr>tmArmed := tmArmed s + 1\<rparr> else s)"

definition set_loop_running :: "bool \<Rightarrow> timers \<Rightarrow> timers" where
  "set_loop_running v s = s\<lparr>tmLoop := (tmLoop s)\<lparr>lRunning := v\<rparr>\<rparr>"

definition rawPost :: "timers \<Rightarrow> timers timed" where
  "rawPost s =
     (if lDuration (tmLoop s) = 0 then Panic (Explicit ''seconds can be zero in loop'') else Ok (After s))"

definition loop_Start :: "timers \<Rightarrow> (bool \<times> timers) timed" where
  "loop_Start s =
     (if lRunning (tmLoop s) then Ok (False, s)
      else bind_go (rawPost (set_loop_running True s)) (\<lambda>s. Ok (True, s)))"

definition NextLoop :: "timers \<Rightarrow> timers timed" where
  "NextLoop s = (if lQueue (tmLoop s) then Ok (s\<lparr>tmTicks := tmTicks s @ [True]\<rparr>) else Panic NilDereference)"

definition loop_Stop :: "timers \<Rightarrow> timers" where
  "loop_Stop s = set_loop_running False s"

text \<open>\<^verbatim>\<open>tick\<close>; the user's callback may use the loop.\<close>

definition tick :: "(timers \<Rightarrow> timers timed) \<Rightarrow> bool \<Rightarrow> timers \<Rightarrow> timers timed" where
  "tick userCallback nextLoop s =
     bind_go (userCallback s) (\<lambda>s.
     if \<not> lRunning (tmLoop s) then Ok s
     else if \<not> nextLoop then rawPost s
     else Ok s)"

definition NewLoop :: "bool \<Rightarrow> int \<Rightarrow> timers" where
  "NewLoop q duration =
     \<lparr>tmLoop = \<lparr>lDuration = duration, lRunning = False, lQueue = q\<rparr>, tmArmed = 0, tmTicks = []\<rparr>"

section \<open>Runs of a loop\<close>

text \<open>The chain of timers: the armed ones and the closures in the queue that arm another.\<close>

definition pending :: "timers \<Rightarrow> nat" where
  "pending s = tmArmed s + count_list (tmTicks s) False"

text \<open>
  The application starts a stopped loop only after its last timer is through; it may stop the
  loop and ask for extra rounds at any time. \<open>armed\<close> is a timer that fires, \<open>round\<close> the queue that
  runs the oldest closure.
\<close>

inductive loop_step :: "(timers \<Rightarrow> timers timed) \<Rightarrow> timers \<Rightarrow> timers \<Rightarrow> bool" for cb where
  start: "lRunning (tmLoop s) \<or> pending s = 0 \<Longrightarrow> loop_Start s = Ok (b, s') \<Longrightarrow> loop_step cb s s'"
| stop: "loop_step cb s (loop_Stop s)"
| next_loop: "NextLoop s = Ok s' \<Longrightarrow> loop_step cb s s'"
| armed: "tmArmed s = Suc k \<Longrightarrow> loop_step cb s (s\<lparr>tmArmed := k, tmTicks := tmTicks s @ [False]\<rparr>)"
| round: "tmTicks s = b # rest \<Longrightarrow> tick cb b (s\<lparr>tmTicks := rest\<rparr>) = Ok s' \<Longrightarrow> loop_step cb s s'"

text \<open>A callback that may stop the loop and call \<^verbatim>\<open>NextLoop\<close>, but does not start it.\<close>

definition no_start :: "(timers \<Rightarrow> timers timed) \<Rightarrow> bool" where
  "no_start cb \<longleftrightarrow> (\<forall>s s'. cb s = Ok s' \<longrightarrow> pending s' = pending s \<and> lQueue (tmLoop s') = lQueue (tmLoop s) \<and>
     (lRunning (tmLoop s') \<longrightarrow> lRunning (tmLoop s)))"

definition loop_ok :: "timers \<Rightarrow> bool" where
  "loop_ok s \<longleftrightarrow> lQueue (tmLoop s) \<and> pending s \<le> 1 \<and> (lRunning (tmLoop s) \<longrightarrow> pending s = 1)"

lemma After_pending: "lQueue (tmLoop s) \<Longrightarrow> pending (After s) = Suc (pending s)" "tmLoop (After s) = tmLoop s"
  by (simp_all add: After_def pending_def)

lemma pending_set_running [simp]:
  "pending (set_loop_running v s) = pending s" "lQueue (tmLoop (set_loop_running v s)) = lQueue (tmLoop s)"
  "lRunning (tmLoop (set_loop_running v s)) = v"
  by (simp_all add: pending_def set_loop_running_def)

lemma tick_ok:
  assumes "no_start cb" "tmTicks s = b # rest" "tick cb b (s\<lparr>tmTicks := rest\<rparr>) = Ok s'" "loop_ok s"
  shows "loop_ok s'"
proof -
  let ?s = "s\<lparr>tmTicks := rest\<rparr>"
  have p: "pending s = pending ?s + (if b then 0 else 1)"
    using assms(2) by (simp add: pending_def)
  from assms(3) obtain s1 where s1: "cb ?s = Ok s1"
    and s': "s' = s1 \<and> (\<not> lRunning (tmLoop s1) \<or> b) \<or> lRunning (tmLoop s1) \<and> \<not> b \<and> s' = After s1"
    by (auto simp: tick_def rawPost_def go_elims split: if_splits)
  have "pending s1 = pending ?s" "lQueue (tmLoop s1) = lQueue (tmLoop s)" "lRunning (tmLoop s1) \<longrightarrow> lRunning (tmLoop s)"
    using assms(1) [unfolded no_start_def, rule_format, OF s1] by simp_all
  with s' p assms(4) show ?thesis
    by (cases b) (auto simp: loop_ok_def After_pending)
qed

lemma loop_step_ok: "loop_step cb s s' \<Longrightarrow> no_start cb \<Longrightarrow> loop_ok s \<Longrightarrow> loop_ok s'"
proof (induction rule: loop_step.induct)
  case (start s b s')
  then show ?case
    by (auto simp: loop_ok_def loop_Start_def rawPost_def After_pending split: if_splits)
next
  case (round s b rest s')
  then show ?case
    using tick_ok by blast
qed (auto simp: loop_ok_def loop_Stop_def NextLoop_def pending_def set_loop_running_def split: if_splits)

interpretation beat: machine "loop_step cb" "\<lambda>s. no_start cb \<and> loop_ok s" for cb
  using loop_step_ok by unfold_locales blast

text \<open>
  A loop never loses its beat and never doubles it: through any interleaving of firing timers,
  the queue, \<^verbatim>\<open>Stop\<close>, \<^verbatim>\<open>NextLoop\<close> and starts of an idle loop, a running loop has exactly one next
  round under way (an armed timer or its closure in the queue), a stopped one at most one.
\<close>

theorem loop_one_beat:
  assumes "no_start cb" "(loop_step cb)\<^sup>*\<^sup>* (NewLoop True d) s"
  shows "pending s \<le> 1 \<and> (lRunning (tmLoop s) \<longrightarrow> pending s = 1)"
proof -
  have "loop_ok (NewLoop True d)"
    by (simp add: loop_ok_def NewLoop_def pending_def)
  with beat.steps_keep [OF assms(2)] assms(1) show ?thesis
    by (simp add: loop_ok_def)
qed

text \<open>
  Stopping a loop does not disarm its timer: the callback runs once more, and a loop that is
  started again before that has two timers from then on.
\<close>

lemma restart_doubles:
  "loop_Start (loop_Stop (s\<lparr>tmLoop := \<lparr>lDuration = 5, lRunning = True, lQueue = True\<rparr>, tmArmed := 1, tmTicks := []\<rparr>)) =
     Ok (True, s\<lparr>tmLoop := \<lparr>lDuration = 5, lRunning = True, lQueue = True\<rparr>, tmArmed := 2, tmTicks := []\<rparr>)"
  by (simp add: loop_Start_def loop_Stop_def set_loop_running_def rawPost_def After_def)

lemma callback_after_Stop:
  "tick cb False (loop_Stop s) = cb (loop_Stop s) \<or> (\<exists>s'. cb (loop_Stop s) = Ok s' \<and> lRunning (tmLoop s'))"
  by (cases "cb (loop_Stop s)") (auto simp: tick_def)

theorem loop_one_beat_witness:
  "\<exists>s. (loop_step Ok)\<^sup>*\<^sup>* (NewLoop True 5) s \<and> lRunning (tmLoop s) \<and> pending s = 1"
proof -
  let ?s = "(NewLoop True 5)\<lparr>tmLoop := \<lparr>lDuration = 5, lRunning = True, lQueue = True\<rparr>, tmArmed := 1\<rparr>"
  have "loop_Start (NewLoop True 5) = Ok (True, ?s)"
    by (simp add: loop_Start_def NewLoop_def set_loop_running_def rawPost_def After_def)
  then have "loop_step Ok (NewLoop True 5) ?s"
    by (rule start [rotated]) (simp add: NewLoop_def pending_def)
  then have run: "(loop_step Ok)\<^sup>*\<^sup>* (NewLoop True 5) ?s"
    by (rule r_into_rtranclp)
  have "no_start Ok"
    by (simp add: no_start_def)
  from loop_one_beat [OF this run] run show ?thesis
    by (intro exI [of _ ?s]) simp
qed

end
