(* ===== verification/Objfmt_Text.thy ===== *)
theory Objfmt_Text
  imports Go_Strings "HOL-Library.Char_ord" "HOL-Library.List_Lexorder"
begin

text \<open>
  The text format of \<^verbatim>\<open>goobjfmt\<close>: the writer that keeps the indentation (\<^verbatim>\<open>text_writer.go\<close>), the
  marshaller of reflected values (\<^verbatim>\<open>text_marshaler.go\<close>) and the order of map keys (\<^verbatim>\<open>lib.go\<close>). A string is
  the list of its bytes. The underlying \<^verbatim>\<open>io.Writer\<close> accepts all bytes, or fails once its \<open>room\<close> is used
  up, after the bytes that still fit.
\<close>

section \<open>The writer\<close>

record text_writer =
  ind :: nat
  complete :: bool
  compact :: bool
  written :: string
  room :: "nat option"

type_synonym 'a text_op = "text_writer \<Rightarrow> (string, 'a) go \<times> text_writer"

definition done_op :: "'a \<Rightarrow> 'a text_op" where
  "done_op x w = (Ok x, w)"

definition fail_op :: "(string, 'a) go \<Rightarrow> 'a text_op" where
  "fail_op r w = (r, w)"

text \<open>\<^verbatim>\<open>if err := ...; err != nil { return err }\<close>\<close>

definition then_op :: "unit text_op \<Rightarrow> unit text_op \<Rightarrow> unit text_op" where
  "then_op m k w = (case m w of (Ok _, w1) \<Rightarrow> k w1 | (r, w1) \<Rightarrow> (r, w1))"

primrec seq_ops :: "unit text_op list \<Rightarrow> unit text_op" where
  "seq_ops [] = done_op ()"
| "seq_ops (m # ms) = then_op m (seq_ops ms)"

definition upd_op :: "(text_writer \<Rightarrow> text_writer) \<Rightarrow> unit text_op" where
  "upd_op f w = (Ok (), f w)"

text \<open>\<^verbatim>\<open>w.w.Write(p)\<close>; an error of it reads \<^verbatim>\<open>short write\<close>.\<close>

definition raw_Write :: "string \<Rightarrow> unit text_op" where
  "raw_Write p w =
     (case room w of
        None \<Rightarrow> (Ok (), w\<lparr>written := written w @ p\<rparr>)
      | Some r \<Rightarrow>
          if length p \<le> r then (Ok (), w\<lparr>written := written w @ p, room := Some (r - length p)\<rparr>)
          else (Err ''short write'', w\<lparr>written := written w @ take r p, room := Some 0\<rparr>))"

function indent_loop :: "nat \<Rightarrow> text_writer \<Rightarrow> text_writer" where
  "indent_loop remain w =
     (if remain > 0
      then let n = (if remain > 40 then 40 else remain)
           in indent_loop (remain - n) (snd (raw_Write (replicate n (CHR '' '')) w))
      else w)"
  by pat_completeness auto
termination
  by (relation "measure fst") (auto simp: Let_def)

declare indent_loop.simps [simp del]

definition writeIndent :: "text_writer \<Rightarrow> text_writer" where
  "writeIndent w =
     (if \<not> complete w then w else (indent_loop (ind w * 2) w)\<lparr>complete := False\<rparr>)"

definition indented :: "text_writer \<Rightarrow> text_writer" where
  "indented w = (if \<not> compact w \<and> complete w then writeIndent w else w)"

abbreviation newline :: char where "newline \<equiv> CHR 0x0A"

definition WriteByte :: "char \<Rightarrow> unit text_op" where
  "WriteByte c w =
     (let c1 = (if compact w \<and> c = newline then CHR '' '' else c);
          (r, w1) = raw_Write [c1] (indented w)
      in (r, w1\<lparr>complete := (c1 = newline)\<rparr>))"

text \<open>The fragments of a text with line ends: joined by blanks, or each written after the indentation.\<close>

fun compact_frags :: "nat \<Rightarrow> string list \<Rightarrow> unit text_op" where
  "compact_frags i [] = done_op ()"
| "compact_frags i (frag # frags) =
     then_op (if i > 0 then raw_Write '' '' else done_op ())
       (then_op (raw_Write frag) (compact_frags (i + 1) frags))"

fun line_frags :: "string list \<Rightarrow> unit text_op" where
  "line_frags [] = done_op ()"
| "line_frags (frag # frags) =
     then_op (upd_op (\<lambda>w. if complete w then writeIndent w else w))
       (then_op (raw_Write frag)
         (then_op (if frags \<noteq> [] then raw_Write [newline] else done_op ()) (line_frags frags)))"

definition Write :: "string \<Rightarrow> unit text_op" where
  "Write p w =
     (if newline \<notin> set p then
        let (r, w1) = raw_Write p (indented w) in (r, w1\<lparr>complete := False\<rparr>)
      else
        let frags = go_split newline p in
        if compact w then compact_frags 0 frags w
        else then_op (line_frags frags) (upd_op (\<lambda>w. w\<lparr>complete := (last frags = [])\<rparr>)) w)"

definition WriteString :: "string \<Rightarrow> unit text_op" where
  "WriteString s w =
     (if newline \<notin> set s then raw_Write s ((indented w)\<lparr>complete := False\<rparr>) else Write s w)"

definition indent :: "text_writer \<Rightarrow> text_writer" where
  "indent w = w\<lparr>ind := ind w + 1\<rparr>"

definition unindent :: "text_writer \<Rightarrow> text_writer" where
  "unindent w = (if ind w = 0 then w else w\<lparr>ind := ind w - 1\<rparr>)"

definition escape :: "char \<Rightarrow> string" where
  "escape c =
     (if c = newline then [CHR 0x5C, CHR ''n'']
      else if c = CHR 0x0D then [CHR 0x5C, CHR ''r'']
      else if c = CHR 0x09 then [CHR 0x5C, CHR ''t'']
      else if c = CHR 0x22 then [CHR 0x5C, CHR 0x22]
      else if c = CHR 0x5C then [CHR 0x5C, CHR 0x5C]
      else [c])"

definition writeString :: "string \<Rightarrow> unit text_op" where
  "writeString s =
     then_op (WriteByte (CHR 0x22))
       (then_op (seq_ops (map (\<lambda>c. raw_Write (escape c)) s)) (WriteByte (CHR 0x22)))"

section \<open>Reflected values\<close>

datatype int_kind =
    Kind_Int | Kind_Int8 | Kind_Int16 | Kind_Int32 | Kind_Int64 | Kind_Uint | Kind_Uint8 | Kind_Uint16 | Kind_Uint32 | Kind_Uint64 | Kind_Uintptr

text \<open>
  A value as \<^verbatim>\<open>reflect\<close> shows it. An integer carries the name of its type, a float its bits as a
  64-bit number; a slice knows whether its elements are of kind \<^verbatim>\<open>uint8\<close> and is \<open>None\<close> when nil; a
  map is its entries; a field has its name, the tag \<^verbatim>\<open>text\<close>, whether it is exported, and its
  value. \<open>GOther\<close> is a value of another kind with the text that \<^verbatim>\<open>fmt\<close> prints for it.
\<close>

datatype gval =
    GBool bool
  | GInt int_kind string int
  | GFloat bool u64
  | GString string
  | GSlice bool "gval list option"
  | GMap "(gval \<times> gval) list"
  | GPtr "gval option"
  | GStruct "gfield list"
  | GOther string
and gfield = GField string string bool gval

text \<open>What the values bring with them and the library prints: \<^verbatim>\<open>String\<close> methods of named integer
  types, \<^verbatim>\<open>MarshalText\<close> methods of structures, finite floats, and pointers.\<close>

record go_env =
  String_method :: "string \<Rightarrow> int \<Rightarrow> string option"
  MarshalText :: "gfield list \<Rightarrow> (string, string) go option"
  show_float :: "bool \<Rightarrow> u64 \<Rightarrow> string"
  show_other :: "gval \<Rightarrow> string"

definition float_inf :: "u64 \<Rightarrow> bool" where
  "float_inf b \<longleftrightarrow> b AND 0x7FFFFFFFFFFFFFFF = 0x7FF0000000000000"

definition float_nan :: "u64 \<Rightarrow> bool" where
  "float_nan b \<longleftrightarrow> b AND 0x7FFFFFFFFFFFFFFF > 0x7FF0000000000000"

definition float_neg :: "u64 \<Rightarrow> bool" where
  "float_neg b \<longleftrightarrow> b AND 0x8000000000000000 \<noteq> 0"

definition float_zero :: "u64 \<Rightarrow> bool" where
  "float_zero b \<longleftrightarrow> b AND 0x7FFFFFFFFFFFFFFF = 0"

text \<open>\<^verbatim>\<open>fmt.Sprint\<close> of a value.\<close>

definition Sprint :: "go_env \<Rightarrow> gval \<Rightarrow> string" where
  "Sprint e v =
     (case v of
        GBool b \<Rightarrow> if b then ''true'' else ''false''
      | GInt k ty i \<Rightarrow> (case String_method e ty i of Some s \<Rightarrow> s | None \<Rightarrow> itoa i)
      | GFloat wide b \<Rightarrow>
          if float_nan b then ''NaN'' else if float_inf b then if float_neg b then ''-Inf'' else ''+Inf''
          else show_float e wide b
      | GString s \<Rightarrow> s
      | GOther s \<Rightarrow> s
      | _ \<Rightarrow> show_other e v)"

section \<open>The order of map keys\<close>

definition is_signed_key :: "gval \<Rightarrow> bool" where
  "is_signed_key v = (case v of GInt k _ _ \<Rightarrow> k = Kind_Int32 \<or> k = Kind_Int64 | _ \<Rightarrow> False)"

definition is_unsigned_key :: "gval \<Rightarrow> bool" where
  "is_unsigned_key v = (case v of GInt k _ _ \<Rightarrow> k = Kind_Uint32 \<or> k = Kind_Uint64 | _ \<Rightarrow> False)"

definition key_number :: "gval \<Rightarrow> int" where
  "key_number v = (case v of GInt _ _ i \<Rightarrow> i | _ \<Rightarrow> 0)"

text \<open>\<^verbatim>\<open>sort.Sort(mapKeys(keys))\<close>, with what belongs to each key.\<close>

definition mapKeys :: "go_env \<Rightarrow> (gval \<times> 'a) list \<Rightarrow> (gval \<times> 'a) list" where
  "mapKeys e xs =
     (case xs of
        [] \<Rightarrow> []
      | (k, _) # _ \<Rightarrow>
          if is_signed_key k \<or> is_unsigned_key k then sort_key (\<lambda>x. key_number (fst x)) xs
          else sort_key (\<lambda>x. Sprint e (fst x)) xs)"

section \<open>The marshaller\<close>

record TextMarshaler =
  Compact :: bool
  IgnoreDefault :: bool

text \<open>\<^verbatim>\<open>reflect.Indirect\<close>: the zero value, of kind invalid, for a nil pointer.\<close>

definition Indirect :: "gval \<Rightarrow> gval option" where
  "Indirect v = (case v of GPtr p \<Rightarrow> p | _ \<Rightarrow> Some v)"

definition default_value :: "gval \<Rightarrow> bool" where
  "default_value v =
     (case v of
        GFloat _ b \<Rightarrow> float_zero b
      | GInt k _ i \<Rightarrow> (k \<in> {Kind_Int32, Kind_Int64, Kind_Int, Kind_Uint32, Kind_Uint64, Kind_Uint} \<and> i = 0)
      | GBool b \<Rightarrow> (\<not> b)
      | GSlice _ vs \<Rightarrow> (vs = None \<or> vs = Some [])
      | GString s \<Rightarrow> (s = [])
      | _ \<Rightarrow> False)"

definition ignoreField :: "TextMarshaler \<Rightarrow> gval \<Rightarrow> bool" where
  "ignoreField tm v \<longleftrightarrow>
     IgnoreDefault tm \<and> (case Indirect v of None \<Rightarrow> False | Some x \<Rightarrow> default_value x)"

definition writeName :: "string \<Rightarrow> unit text_op" where
  "writeName name = then_op (WriteString name) (WriteByte (CHR '':''))"

text \<open>\<^verbatim>\<open>if !w.compact { w.WriteByte(c) }\<close>\<close>

definition unless_compact :: "char \<Rightarrow> unit text_op" where
  "unless_compact c w = (if compact w then (Ok (), w) else WriteByte c w)"

definition writeBytes :: "gval list \<Rightarrow> unit text_op" where
  "writeBytes vs = writeString (map (\<lambda>v. char_of (nat (key_number v))) vs)"

text \<open>What \<^verbatim>\<open>v.Interface()\<close> does to a value that was reached through a field that is not exported.\<close>

definition interface_panic :: "(string, 'a) go" where
  "interface_panic = Panic (Explicit ''reflect.Value.Interface: cannot return value obtained from unexported field or method'')"

definition writeFloat :: "go_env \<Rightarrow> bool \<Rightarrow> bool \<Rightarrow> u64 \<Rightarrow> unit text_op" where
  "writeFloat e ro wide b =
     (if float_inf b \<and> \<not> float_neg b then Write ''inf''
      else if float_inf b then Write ''-inf''
      else if float_nan b then Write ''nan''
      else if ro then fail_op interface_panic
      else Write (Sprint e (GFloat wide b)))"

text \<open>An element of a repeated field, given how it is written.\<close>

definition write_elem :: "string \<Rightarrow> bool \<Rightarrow> gval \<times> unit text_op \<Rightarrow> unit text_op" where
  "write_elem name is_byte x =
     then_op (if is_byte then done_op () else writeName name)
       (then_op (unless_compact (CHR '' ''))
         (if fst x = GPtr None then Write (''<nil>'' @ [newline])
          else then_op (snd x) (WriteByte newline)))"

text \<open>An entry of a map, given how key and value are written.\<close>

definition write_entry :: "string \<Rightarrow> unit text_op \<Rightarrow> gval \<times> unit text_op \<Rightarrow> unit text_op" where
  "write_entry name key x =
     seq_ops
       [writeName name, unless_compact (CHR '' ''), WriteByte (CHR ''<''), unless_compact newline, upd_op indent,
        WriteString ''key:'', unless_compact (CHR '' ''), key, WriteByte newline,
        (if fst x = GPtr None then done_op ()
         else seq_ops [WriteString ''value:'', unless_compact (CHR '' ''), snd x, WriteByte newline]),
        upd_op unindent, WriteByte (CHR ''>''), WriteByte newline]"

text \<open>
  \<open>write_kind\<close> is \<^verbatim>\<open>writeAny\<close> after the dereference, \<open>write_field\<close> the body of the loop of \<^verbatim>\<open>writeStruct\<close>; \<open>ro\<close> says
  that the value was reached through a field that is not exported.
\<close>

fun writeAny :: "TextMarshaler \<Rightarrow> go_env \<Rightarrow> bool \<Rightarrow> gval \<Rightarrow> unit text_op"
and write_kind :: "TextMarshaler \<Rightarrow> go_env \<Rightarrow> bool \<Rightarrow> gval \<Rightarrow> unit text_op"
and write_field :: "TextMarshaler \<Rightarrow> go_env \<Rightarrow> bool \<Rightarrow> gfield \<Rightarrow> unit text_op" where
  "writeAny tm e ro v =
     (case v of
        GPtr None \<Rightarrow> fail_op (Panic (Explicit ''reflect: call of reflect.Value.Interface on zero Value''))
      | GPtr (Some x) \<Rightarrow> write_kind tm e ro x
      | _ \<Rightarrow> write_kind tm e ro v)"
| "write_kind tm e ro (GSlice is_byte vs) =
     (if is_byte then writeBytes (case vs of None \<Rightarrow> [] | Some l \<Rightarrow> l)
      else fail_op (Panic (Explicit ''reflect.Value.Bytes of non-byte slice'')))"
| "write_kind tm e ro (GString s) = writeString s"
| "write_kind tm e ro (GFloat wide b) = writeFloat e ro wide b"
| "write_kind tm e ro (GStruct fs) =
     seq_ops
       [WriteByte (CHR ''<''), unless_compact newline, upd_op indent,
        (if ro then fail_op interface_panic
         else case MarshalText e fs of
                Some (Ok text) \<Rightarrow> Write text
              | Some r \<Rightarrow> fail_op (bind_go r (\<lambda>_. Ok ()))
              | None \<Rightarrow> seq_ops (map (write_field tm e ro) fs)),
        upd_op unindent, WriteByte (CHR ''>'')]"
| "write_kind tm e ro v = (if ro then fail_op interface_panic else Write (Sprint e v))"
| "write_field tm e ro (GField name tag exported v) =
     (let ro1 = ro \<or> \<not> exported in
      if tag = ''-'' then done_op ()
      else
        case v of
          GPtr None \<Rightarrow> done_op ()
        | GSlice is_byte None \<Rightarrow> done_op ()
        | GSlice is_byte (Some vs) \<Rightarrow>
            then_op (if vs \<noteq> [] \<and> is_byte then then_op (writeName name) (WriteByte (CHR ''['')) else done_op ())
              (then_op (seq_ops (map (\<lambda>x. write_elem name is_byte (x, writeAny tm e ro1 x)) vs))
                (if vs \<noteq> [] \<and> is_byte then WriteString ''] '' else done_op ()))
        | GMap kvs \<Rightarrow>
            if ro1 \<and> length kvs > 1 \<and> \<not> (is_signed_key (fst (hd kvs)) \<or> is_unsigned_key (fst (hd kvs)))
            then fail_op interface_panic
            else seq_ops (map (\<lambda>(k, key, x). write_entry name key x)
                   (mapKeys e (map (\<lambda>(k, x). (k, writeAny tm e ro1 k, x, writeAny tm e ro1 x)) kvs)))
        | _ \<Rightarrow>
            if ignoreField tm v then done_op ()
            else seq_ops [writeName name, unless_compact (CHR '' ''), writeAny tm e ro1 v, WriteByte newline])"

definition writeStruct :: "TextMarshaler \<Rightarrow> go_env \<Rightarrow> gval \<Rightarrow> unit text_op" where
  "writeStruct tm e v =
     (case v of
        GStruct fs \<Rightarrow> seq_ops (map (write_field tm e False) fs)
      | _ \<Rightarrow> fail_op (Panic (Explicit ''reflect: call of reflect.Value.NumField on a value that is no struct'')))"

text \<open>The object is nil, or a value.\<close>

definition Marshal :: "TextMarshaler \<Rightarrow> go_env \<Rightarrow> nat option \<Rightarrow> gval option \<Rightarrow> (string, unit) go \<times> string" where
  "Marshal tm e limit obj =
     (let w = \<lparr>ind = 0, complete = True, compact = Compact tm, written = [], room = limit\<rparr>;
          (r, w1) =
            (case obj of
               None \<Rightarrow> (Ok (), snd (raw_Write ''<nil>'' w))
             | Some v \<Rightarrow>
                 (case Indirect v of
                    None \<Rightarrow> (Ok (), snd (raw_Write ''<nil>'' w))
                  | Some x \<Rightarrow> writeStruct tm e x w))
      in (r, written w1))"

definition Text :: "TextMarshaler \<Rightarrow> go_env \<Rightarrow> gval option \<Rightarrow> (string, string) go" where
  "Text tm e obj =
     (case Marshal tm e None obj of
        (Panic q, _) \<Rightarrow> Panic q
      | (_, s) \<Rightarrow> Ok s)"

definition MarshalTextString :: "go_env \<Rightarrow> gval option \<Rightarrow> (string, string) go" where
  "MarshalTextString = Text \<lparr>Compact = False, IgnoreDefault = False\<rparr>"

definition CompactTextString :: "go_env \<Rightarrow> gval option \<Rightarrow> (string, string) go" where
  "CompactTextString = Text \<lparr>Compact = True, IgnoreDefault = True\<rparr>"

end
