(* ===== verification/Objfmt_Layout.thy ===== *)
theory Objfmt_Layout
  imports Objfmt_Text "HOL-Library.Sublist"
begin

text \<open>
  What the text format prints, said without the writer: a value has a document, and the document has a
  layout, on many lines or on one. The marshaller of \<^verbatim>\<open>Objfmt_Text\<close> writes the layout of the document of
  its value, as far as the underlying writer takes it.
\<close>

section \<open>The document of a value\<close>

text \<open>
  What the marshaller prints, apart from the layout: texts, texts that the compact form leaves out,
  and changes of the indentation; with the outcome that ends it.
\<close>

datatype piece = Lit string | Soft string | In | Dedent

type_synonym doc = "piece list \<times> (string, unit) go"

fun then_doc :: "doc \<Rightarrow> doc \<Rightarrow> doc" where
  "then_doc (ps, Ok _) d = (ps @ fst d, snd d)"
| "then_doc (ps, r) d = (ps, r)"

primrec seq_docs :: "doc list \<Rightarrow> doc" where
  "seq_docs [] = ([], Ok ())"
| "seq_docs (d # ds) = then_doc d (seq_docs ds)"

abbreviation lit :: "string \<Rightarrow> doc" where "lit s \<equiv> ([Lit s], Ok ())"
abbreviation soft :: "string \<Rightarrow> doc" where "soft s \<equiv> ([Soft s], Ok ())"
abbreviation fail :: "(string, unit) go \<Rightarrow> doc" where "fail r \<equiv> ([], r)"
abbreviation nothing :: doc where "nothing \<equiv> ([], Ok ())"

definition quoted :: "string \<Rightarrow> string" where
  "quoted s = CHR 0x22 # concat (map escape s) @ [CHR 0x22]"

definition doc_name :: "string \<Rightarrow> doc" where
  "doc_name name = seq_docs [lit name, lit '':'']"

definition doc_float :: "go_env \<Rightarrow> bool \<Rightarrow> bool \<Rightarrow> u64 \<Rightarrow> doc" where
  "doc_float e ro wide b =
     (if float_inf b then lit (if float_neg b then ''-inf'' else ''inf'')
      else if float_nan b then lit ''nan''
      else if ro then fail interface_panic else lit (Sprint e (GFloat wide b)))"

definition doc_elem :: "string \<Rightarrow> bool \<Rightarrow> gval \<times> doc \<Rightarrow> doc" where
  "doc_elem name is_byte x =
     seq_docs [if is_byte then nothing else doc_name name, soft '' '',
               if fst x = GPtr None then lit (''<nil>'' @ [newline]) else then_doc (snd x) (lit [newline])]"

definition doc_entry :: "string \<Rightarrow> doc \<Rightarrow> gval \<times> doc \<Rightarrow> doc" where
  "doc_entry name key x =
     seq_docs
       [doc_name name, soft '' '', lit ''<'', soft [newline], ([In], Ok ()), lit ''key:'', soft '' '', key, lit [newline],
        (if fst x = GPtr None then nothing else seq_docs [lit ''value:'', soft '' '', snd x, lit [newline]]),
        ([Dedent], Ok ()), lit ''>'', lit [newline]]"

fun doc_any :: "TextMarshaler \<Rightarrow> go_env \<Rightarrow> bool \<Rightarrow> gval \<Rightarrow> doc"
and doc_kind :: "TextMarshaler \<Rightarrow> go_env \<Rightarrow> bool \<Rightarrow> gval \<Rightarrow> doc"
and doc_field :: "TextMarshaler \<Rightarrow> go_env \<Rightarrow> bool \<Rightarrow> gfield \<Rightarrow> doc" where
  "doc_any tm e ro v =
     (case v of
        GPtr None \<Rightarrow> fail (Panic (Explicit ''reflect: call of reflect.Value.Interface on zero Value''))
      | GPtr (Some x) \<Rightarrow> doc_kind tm e ro x
      | _ \<Rightarrow> doc_kind tm e ro v)"
| "doc_kind tm e ro (GSlice is_byte vs) =
     (if is_byte then lit (quoted (map (\<lambda>v. char_of (nat (key_number v))) (case vs of None \<Rightarrow> [] | Some l \<Rightarrow> l)))
      else fail (Panic (Explicit ''reflect.Value.Bytes of non-byte slice'')))"
| "doc_kind tm e ro (GString s) = lit (quoted s)"
| "doc_kind tm e ro (GFloat wide b) = doc_float e ro wide b"
| "doc_kind tm e ro (GStruct fs) =
     seq_docs
       [lit ''<'', soft [newline], ([In], Ok ()),
        (if ro then fail interface_panic
         else case MarshalText e fs of
                Some (Ok text) \<Rightarrow> lit text
              | Some r \<Rightarrow> fail (bind_go r (\<lambda>_. Ok ()))
              | None \<Rightarrow> seq_docs (map (doc_field tm e ro) fs)),
        ([Dedent], Ok ()), lit ''>'']"
| "doc_kind tm e ro v = (if ro then fail interface_panic else lit (Sprint e v))"
| "doc_field tm e ro (GField name tag exported v) =
     (let ro1 = ro \<or> \<not> exported in
      if tag = ''-'' then nothing
      else
        case v of
          GPtr None \<Rightarrow> nothing
        | GSlice is_byte None \<Rightarrow> nothing
        | GSlice is_byte (Some vs) \<Rightarrow>
            then_doc (if vs \<noteq> [] \<and> is_byte then then_doc (doc_name name) (lit ''['') else nothing)
              (then_doc (seq_docs (map (\<lambda>x. doc_elem name is_byte (x, doc_any tm e ro1 x)) vs))
                (if vs \<noteq> [] \<and> is_byte then lit ''] '' else nothing))
        | GMap kvs \<Rightarrow>
            if ro1 \<and> length kvs > 1 \<and> \<not> (is_signed_key (fst (hd kvs)) \<or> is_unsigned_key (fst (hd kvs)))
            then fail interface_panic
            else seq_docs (map (\<lambda>(k, key, x). doc_entry name key x)
                   (mapKeys e (map (\<lambda>(k, x). (k, doc_any tm e ro1 k, x, doc_any tm e ro1 x)) kvs)))
        | _ \<Rightarrow>
            if ignoreField tm v then nothing
            else seq_docs [doc_name name, soft '' '', doc_any tm e ro1 v, lit [newline]])"

definition doc_of :: "TextMarshaler \<Rightarrow> go_env \<Rightarrow> gval option \<Rightarrow> doc" where
  "doc_of tm e obj =
     (case Option.bind obj Indirect of
        None \<Rightarrow> lit ''<nil>''
      | Some (GStruct fs) \<Rightarrow> seq_docs (map (doc_field tm e False) fs)
      | Some _ \<Rightarrow> fail (Panic (Explicit ''reflect: call of reflect.Value.NumField on a value that is no struct'')))"

text \<open>
  The layout of a document: \<open>i\<close> is the indentation, \<open>fresh\<close> says that the line is empty. The compact form
  has blanks for line ends and no indentation.
\<close>

definition ends_line :: "string \<Rightarrow> bool" where
  "ends_line s \<longleftrightarrow> s \<noteq> [] \<and> last s = newline"

definition blank :: "char \<Rightarrow> char" where
  "blank c = (if c = newline then CHR '' '' else c)"

fun layout :: "bool \<Rightarrow> nat \<Rightarrow> bool \<Rightarrow> piece list \<Rightarrow> string" where
  "layout cpt i fresh [] = []"
| "layout cpt i fresh (Lit s # ps) =
     (if cpt then map blank s @ layout cpt i fresh ps
      else (if fresh then replicate (2 * i) (CHR '' '') else []) @ s @ layout cpt i (ends_line s) ps)"
| "layout cpt i fresh (Soft s # ps) =
     (if cpt then layout cpt i fresh ps
      else (if fresh then replicate (2 * i) (CHR '' '') else []) @ s @ layout cpt i (ends_line s) ps)"
| "layout cpt i fresh (In # ps) = layout cpt (i + 1) fresh ps"
| "layout cpt i fresh (Dedent # ps) = layout cpt (i - 1) fresh ps"

section \<open>The writer lays out the document\<close>

primrec after_ind :: "nat \<Rightarrow> piece list \<Rightarrow> nat" where
  "after_ind i [] = i"
| "after_ind i (p # ps) = after_ind (case p of In \<Rightarrow> i + 1 | Dedent \<Rightarrow> i - 1 | _ \<Rightarrow> i) ps"

primrec after_fresh :: "bool \<Rightarrow> piece list \<Rightarrow> bool" where
  "after_fresh fresh [] = fresh"
| "after_fresh fresh (p # ps) = after_fresh (case p of Lit s \<Rightarrow> ends_line s | Soft s \<Rightarrow> ends_line s | _ \<Rightarrow> fresh) ps"

definition flat :: "piece \<Rightarrow> string" where
  "flat p = (case p of Lit s \<Rightarrow> map blank s | _ \<Rightarrow> [])"

lemma layout_compact: "layout True i fresh ps = concat (map flat ps)"
proof (induction ps arbitrary: i fresh)
  case (Cons p ps)
  then show ?case by (cases p) (simp_all add: flat_def)
qed simp

lemma after_append:
  "after_ind i (ps @ qs) = after_ind (after_ind i ps) qs"
  "after_fresh fresh (ps @ qs) = after_fresh (after_fresh fresh ps) qs"
  by (induction ps arbitrary: i fresh) simp_all

lemma layout_append:
  "layout c i fresh (ps @ qs) = layout c i fresh ps @ layout c (after_ind i ps) (after_fresh fresh ps) qs"
proof (cases c)
  case False
  then show ?thesis
  proof (induction ps arbitrary: i fresh)
    case (Cons p ps)
    then show ?case by (cases p) simp_all
  qed simp
qed (simp add: layout_compact)

abbreviation printed :: "piece list \<Rightarrow> text_writer \<Rightarrow> string" where
  "printed ps w \<equiv> layout (compact w) (ind w) (complete w) ps"

definition laid :: "piece list \<Rightarrow> text_writer \<Rightarrow> text_writer \<Rightarrow> bool" where
  "laid ps w w' \<longleftrightarrow> compact w' = compact w \<and> ind w' = after_ind (ind w) ps
     \<and> (\<not> compact w \<longrightarrow> complete w' = after_fresh (complete w) ps)
     \<and> written w' = written w @ printed ps w \<and> room w' = map_option (\<lambda>n. n - length (printed ps w)) (room w)
     \<and> (\<forall>n. room w = Some n \<longrightarrow> length (printed ps w) \<le> n)"

definition broken :: "piece list \<Rightarrow> text_writer \<Rightarrow> text_writer \<Rightarrow> bool" where
  "broken ps w w' \<longleftrightarrow> compact w' = compact w
     \<and> (\<exists>n. room w = Some n \<and> n < length (printed ps w) \<and> written w' = written w @ take n (printed ps w) \<and> room w' = Some 0)"

definition writes :: "unit text_op \<Rightarrow> doc \<Rightarrow> bool" where
  "writes m d \<longleftrightarrow> (\<forall>w r w'. m w = (r, w') \<longrightarrow> (r = snd d \<and> laid (fst d) w w') \<or> broken (fst d) w w')"

named_theorems writes_intros \<open>an operation writes a document\<close>

lemma printed_append:
  assumes "laid ps w w1"
  shows "printed (ps @ qs) w = printed ps w @ printed qs w1"
proof (cases "compact w")
  case True
  with assms show ?thesis by (simp add: layout_compact laid_def)
next
  case False
  with assms show ?thesis by (simp add: layout_append laid_def)
qed

lemma laid_laid: "laid ps w w1 \<Longrightarrow> laid qs w1 w2 \<Longrightarrow> laid (ps @ qs) w w2"
  unfolding laid_def [of "ps @ qs"] printed_append
  by (cases "room w") (auto simp: laid_def after_append)

lemma laid_broken: "laid ps w w1 \<Longrightarrow> broken qs w1 w2 \<Longrightarrow> broken (ps @ qs) w w2"
  unfolding broken_def [of "ps @ qs"] printed_append
  by (cases "room w") (auto simp: laid_def broken_def)

lemma broken_more:
  assumes "broken ps w w1"
  shows "broken (ps @ qs) w w1"
proof -
  have "prefix (printed ps w) (printed (ps @ qs) w)" by (simp add: layout_append prefix_def)
  then obtain t where "printed (ps @ qs) w = printed ps w @ t" by (auto simp: prefix_def)
  with assms show ?thesis by (auto simp: broken_def)
qed

text \<open>Nothing is written once there is no room.\<close>

lemma broken_then:
  assumes "broken ps w w1" "laid qs w1 w2 \<or> broken qs w1 w2"
  shows "broken ps w w2"
  using assms by (auto simp: broken_def laid_def)

lemma writes_then [writes_intros]:
  assumes "writes m d" "writes k d'"
  shows "writes (then_op m k) (then_doc d d')"
  unfolding writes_def
proof (intro allI impI)
  fix w r w' assume run: "then_op m k w = (r, w')"
  obtain r1 w1 where m: "m w = (r1, w1)" by fastforce
  with assms(1) have 1: "(r1 = snd d \<and> laid (fst d) w w1) \<or> broken (fst d) w w1" by (simp add: writes_def)
  show "(r = snd (then_doc d d') \<and> laid (fst (then_doc d d')) w w') \<or> broken (fst (then_doc d d')) w w'"
  proof (cases "is_ok r1")
    case True
    then have k: "k w1 = (r, w')" using run m by (cases r1) (simp_all add: then_op_def)
    with assms(2) have 2: "(r = snd d' \<and> laid (fst d') w1 w') \<or> broken (fst d') w1 w'" by (simp add: writes_def)
    from 1 show ?thesis
    proof
      assume l: "r1 = snd d \<and> laid (fst d) w w1"
      with True have "then_doc d d' = (fst d @ fst d', snd d')" by (cases d; cases "snd d") auto
      with l 2 laid_laid laid_broken show ?thesis by auto
    next
      assume b: "broken (fst d) w w1"
      with 2 have "broken (fst d) w w'" using broken_then by blast
      moreover have "\<exists>qs. fst (then_doc d d') = fst d @ qs" by (cases d; cases "snd d") auto
      ultimately show ?thesis using broken_more by metis
    qed
  next
    case False
    then have "r = r1" "w' = w1" using run m by (cases r1; simp add: then_op_def)+
    moreover have "\<not> is_ok (snd d) \<Longrightarrow> then_doc d d' = d" by (cases d; cases "snd d") auto
    moreover have "\<exists>qs. fst (then_doc d d') = fst d @ qs" by (cases d; cases "snd d") auto
    ultimately show ?thesis using 1 False broken_more by metis
  qed
qed

lemma writes_done [writes_intros]: "writes (done_op ()) nothing"
  by (auto simp: writes_def done_op_def laid_def map_option.id [unfolded id_def])

lemma writes_fail [writes_intros]: "writes (fail_op r) (fail r)"
  by (auto simp: writes_def fail_op_def laid_def map_option.id [unfolded id_def])

lemma writes_seq_ops: "list_all2 writes ms ds \<Longrightarrow> writes (seq_ops ms) (seq_docs ds)"
  by (induction rule: list_all2_induct) (auto intro: writes_intros)

text \<open>The bytes that an operation adds, all of them or those that fit.\<close>

definition puts :: "string \<Rightarrow> text_writer \<Rightarrow> text_writer \<Rightarrow> bool" where
  "puts s w w' \<longleftrightarrow> written w' = written w @ s \<and> room w' = map_option (\<lambda>n. n - length s) (room w)
     \<and> (\<forall>n. room w = Some n \<longrightarrow> length s \<le> n)"

definition cuts :: "string \<Rightarrow> text_writer \<Rightarrow> text_writer \<Rightarrow> bool" where
  "cuts s w w' \<longleftrightarrow>
     (\<exists>n. room w = Some n \<and> n < length s \<and> written w' = written w @ take n s \<and> room w' = Some 0)"

definition same :: "text_writer \<Rightarrow> text_writer \<Rightarrow> bool" where
  "same w w' \<longleftrightarrow> compact w' = compact w \<and> ind w' = ind w"

lemma laid_puts: "laid ps w w' \<longleftrightarrow> compact w' = compact w \<and> ind w' = after_ind (ind w) ps
     \<and> (\<not> compact w \<longrightarrow> complete w' = after_fresh (complete w) ps) \<and> puts (printed ps w) w w'"
  by (simp add: laid_def puts_def)

lemma broken_cuts: "broken ps w w' \<longleftrightarrow> compact w' = compact w \<and> cuts (printed ps w) w w'"
  by (simp add: broken_def cuts_def)

lemma puts_then: "puts s w w1 \<Longrightarrow> puts t w1 w2 \<Longrightarrow> puts (s @ t) w w2"
  by (cases "room w") (auto simp: puts_def)

lemma puts_cuts: "puts s w w1 \<Longrightarrow> cuts t w1 w2 \<Longrightarrow> cuts (s @ t) w w2"
  by (cases "room w") (auto simp: puts_def cuts_def)

lemma cuts_then: "cuts s w w1 \<Longrightarrow> puts t w1 w2 \<or> cuts t w1 w2 \<Longrightarrow> cuts (s @ t) w w2"
  by (auto simp: puts_def cuts_def)

lemma puts_or:
  assumes "Q \<and> puts s w w1 \<or> cuts s w w1" "P \<and> puts t w1 w2 \<or> cuts t w1 w2"
  shows "P \<and> puts (s @ t) w w2 \<or> cuts (s @ t) w w2"
  using assms puts_then puts_cuts cuts_then by meson

lemma puts_complete [simp]:
  "puts s w (w'\<lparr>complete := b\<rparr>) = puts s w w'" "cuts s w (w'\<lparr>complete := b\<rparr>) = cuts s w w'"
  "puts s (w\<lparr>complete := b\<rparr>) w' = puts s w w'" "cuts s (w\<lparr>complete := b\<rparr>) w' = cuts s w w'"
  "same w (w'\<lparr>complete := b\<rparr>) = same w w'" "same (w\<lparr>complete := b\<rparr>) w' = same w w'"
  by (simp_all add: puts_def cuts_def same_def)

lemma puts_nil: "puts [] w w"
  by (simp add: puts_def map_option.id [unfolded id_def])

text \<open>
  Operations that write a given text and leave the writer alone otherwise, where \<open>P\<close> holds of whether
  the line is empty.
\<close>

definition emits :: "(bool \<Rightarrow> bool) \<Rightarrow> unit text_op \<Rightarrow> string \<Rightarrow> bool" where
  "emits P m s \<longleftrightarrow> (\<forall>w r w'. m w = (r, w') \<and> P (complete w) \<longrightarrow>
     same w w' \<and> complete w' = complete w \<and> (r = Ok () \<and> puts s w w' \<or> cuts s w w'))"

abbreviation always :: "bool \<Rightarrow> bool" where "always \<equiv> \<lambda>_. True"

lemma emits_raw: "emits P (raw_Write p) p"
  by (auto simp: emits_def raw_Write_def puts_def cuts_def same_def split: option.splits if_splits)

lemma emits_done: "emits P (done_op ()) []"
  by (simp add: emits_def done_op_def same_def puts_nil)

lemma emits_then:
  assumes "emits P m s" "emits P k t"
  shows "emits P (then_op m k) (s @ t)"
  unfolding emits_def
proof (intro allI impI)
  fix w r w' assume run: "then_op m k w = (r, w') \<and> P (complete w)"
  obtain r1 w1 where m: "m w = (r1, w1)" by fastforce
  with assms(1) run have 1: "same w w1" "complete w1 = complete w" "r1 = Ok () \<and> puts s w w1 \<or> cuts s w w1"
    by (simp_all add: emits_def)
  show "same w w' \<and> complete w' = complete w \<and> (r = Ok () \<and> puts (s @ t) w w' \<or> cuts (s @ t) w w')"
  proof (cases "is_ok r1")
    case True
    then have "k w1 = (r, w')" using run m by (cases r1) (simp_all add: then_op_def)
    moreover from 1(2) run have "P (complete w1)" by simp
    ultimately have "same w1 w' \<and> complete w' = complete w1 \<and> (r = Ok () \<and> puts t w1 w' \<or> cuts t w1 w')"
      using assms(2) unfolding emits_def by blast
    then show ?thesis using 1(1,2) puts_or [OF 1(3)] by (auto simp: same_def)
  next
    case False
    then have "r = r1" "w' = w1" using run m by (cases r1; simp add: then_op_def)+
    with 1 False show ?thesis by (auto simp: cuts_def)
  qed
qed

lemma emits_seq: "emits P (seq_ops (map (\<lambda>x. raw_Write (f x)) xs)) (concat (map f xs))"
  by (induction xs) (auto intro: emits_done emits_then emits_raw)

lemma indent_loop_puts:
  "same w (indent_loop n w) \<and> (puts (replicate n (CHR '' '')) w (indent_loop n w) \<or> cuts (replicate n (CHR '' '')) w (indent_loop n w))"
proof (induction n w rule: indent_loop.induct)
  case (1 n w)
  show ?case
  proof (cases "n > 0")
    case True
    define k where "k = (if n > 40 then 40 else n)"
    let ?w = "snd (raw_Write (replicate k (CHR '' '')) w)"
    have n: "replicate n (CHR '' '') = replicate k (CHR '' '') @ replicate (n - k) (CHR '' '')"
      by (simp add: k_def flip: replicate_add)
    have eq: "indent_loop n w = indent_loop (n - k) ?w" using True by (subst indent_loop.simps) (simp add: k_def Let_def)
    have "same w ?w \<and> (puts (replicate k (CHR '' '')) w ?w \<or> cuts (replicate k (CHR '' '')) w ?w)"
      using emits_raw [of always "replicate k (CHR '' '')"] by (auto simp: emits_def) (metis prod.collapse)+
    moreover have "same ?w (indent_loop (n - k) ?w) \<and> (puts (replicate (n - k) (CHR '' '')) ?w (indent_loop (n - k) ?w)
        \<or> cuts (replicate (n - k) (CHR '' '')) ?w (indent_loop (n - k) ?w))"
      using 1 [OF True k_def] by simp
    ultimately show ?thesis
      unfolding eq n by (auto simp: same_def intro: puts_then puts_cuts cuts_then)
  next
    case False
    then show ?thesis by (subst (1 2 3) indent_loop.simps) (simp add: same_def puts_nil)
  qed
qed

text \<open>A text at the place where the writer stands: after the indentation, when the line is empty.\<close>

abbreviation margin :: "text_writer \<Rightarrow> string" where
  "margin w \<equiv> (if \<not> compact w \<and> complete w then replicate (2 * ind w) (CHR '' '') else [])"

lemma indented_puts:
  "same w (indented w) \<and> (\<not> compact w \<longrightarrow> \<not> complete (indented w))
     \<and> (puts (margin w) w (indented w) \<or> cuts (margin w) w (indented w))"
proof (cases "\<not> compact w \<and> complete w")
  case True
  then show ?thesis
    using indent_loop_puts [of w "ind w * 2"] by (simp add: indented_def writeIndent_def mult.commute)
next
  case False
  then show ?thesis by (auto simp: indented_def same_def puts_nil)
qed

lemma emits_indented:
  assumes "emits always m s" "m (indented w) = (r, w1)"
  shows "same w w1" "\<not> compact w \<longrightarrow> \<not> complete w1"
    "(r = Ok () \<and> puts (margin w @ s) w w1) \<or> cuts (margin w @ s) w w1"
proof -
  from assms have 1: "same (indented w) w1 \<and> complete w1 = complete (indented w)
      \<and> (r = Ok () \<and> puts s (indented w) w1 \<or> cuts s (indented w) w1)"
    by (simp add: emits_def)
  note 2 = indented_puts [of w]
  from 1 2 show "same w w1" by (simp add: same_def)
  from 1 2 show "\<not> compact w \<longrightarrow> \<not> complete w1" by simp
  from 1 2 show "(r = Ok () \<and> puts (margin w @ s) w w1) \<or> cuts (margin w @ s) w w1"
    using puts_then puts_cuts cuts_then by meson
qed

lemma writes_lit:
  assumes "\<And>w r w'. m w = (r, w') \<Longrightarrow> same w w'
      \<and> (r = Ok () \<and> (\<not> compact w \<longrightarrow> complete w' = ends_line s) \<and> puts (margin w @ (if compact w then map blank s else s)) w w'
         \<or> cuts (margin w @ (if compact w then map blank s else s)) w w')"
  shows "writes m (lit s)"
  unfolding writes_def
proof (intro allI impI)
  fix w r w' assume "m w = (r, w')"
  note run = assms [OF this]
  have p: "printed [Lit s] w = margin w @ (if compact w then map blank s else s)" by simp
  show "(r = snd (lit s) \<and> laid (fst (lit s)) w w') \<or> broken (fst (lit s)) w w'"
    unfolding fst_conv laid_puts broken_cuts p using run by (simp add: same_def)
qed

lemma no_newline:
  "newline \<notin> set s \<Longrightarrow> map blank s = s" "newline \<notin> set s \<Longrightarrow> \<not> ends_line s"
  by (induction s) (auto simp: blank_def ends_line_def)

lemma writes_line:
  assumes "\<And>w. emits always (m w) (if compact w then map blank s else s)" "\<And>w. \<not> compact w \<Longrightarrow> b w = ends_line s"
    and "\<And>w. M w = (let (r, w1) = m w (indented w) in (r, w1\<lparr>complete := b w\<rparr>))"
  shows "writes M (lit s)"
proof (rule writes_lit)
  fix w r w' assume run: "M w = (r, w')"
  obtain w1 where 1: "m w (indented w) = (r, w1)" "w' = w1\<lparr>complete := b w\<rparr>"
    using run by (auto simp: assms(3) split: prod.splits)
  show "same w w'
      \<and> (r = Ok () \<and> (\<not> compact w \<longrightarrow> complete w' = ends_line s) \<and> puts (margin w @ (if compact w then map blank s else s)) w w'
         \<or> cuts (margin w @ (if compact w then map blank s else s)) w w')"
    using emits_indented(1,3) [OF assms(1) 1(1)] assms(2) [of w] unfolding 1(2) puts_complete by simp
qed

lemma writes_WriteByte [writes_intros]: "writes (WriteByte c) (lit [c])"
proof (rule writes_line)
  show "emits always (raw_Write [if compact w \<and> c = newline then CHR '' '' else c]) (if compact w then map blank [c] else [c])" for w
    by (simp add: blank_def emits_raw)
qed (simp_all add: WriteByte_def ends_line_def Let_def)

lemma writes_plain: "newline \<notin> set s \<Longrightarrow> writes (Write s) (lit s)"
  by (rule writes_line [where m = "\<lambda>_. raw_Write s" and b = "\<lambda>_. False"]) (simp_all add: no_newline emits_raw Write_def)

text \<open>A text with line ends is written fragment by fragment.\<close>

lemma go_join_Cons: "go_join sep (p # ps) = p @ (if ps = [] then [] else sep @ go_join sep ps)"
  by (cases ps) simp_all

lemma emits_compact_frags:
  "emits always (compact_frags i frags) (if i = 0 then go_join '' '' frags else concat (map ((@) '' '') frags))"
proof (induction i frags rule: compact_frags.induct)
  case (2 i frag frags)
  have "go_join '' '' (frag # frags) = frag @ concat (map ((@) '' '') frags)"
    by (induction frags arbitrary: frag) simp_all
  moreover have "emits always (then_op (if i > 0 then raw_Write '' '' else done_op ()) (then_op (raw_Write frag) (compact_frags (i + 1) frags)))
      ((if i > 0 then '' '' else []) @ frag @ concat (map ((@) '' '') frags))"
    using 2 by (intro emits_then) (auto intro: emits_raw emits_done)
  ultimately show ?case by (cases "i = 0") simp_all
qed (simp add: emits_done)

lemma blank_split: "go_join '' '' (go_split newline s) = map blank s"
proof (induction s)
  case (Cons c s)
  then show ?case by (cases "go_split newline s") (auto simp: blank_def go_join_Cons)
qed simp

lemma split_single: "go_split c s = [p] \<Longrightarrow> c \<notin> set s"
  by (induction s arbitrary: p) (auto split: if_splits list.splits)

lemma last_split: "last (go_split newline s) = [] \<longleftrightarrow> s = [] \<or> last s = newline"
proof (induction s)
  case (Cons c s)
  show ?case
  proof (cases "go_split newline s")
    case (Cons p ps)
    show ?thesis
    proof (cases "ps = []")
      case True
      with Cons have "newline \<notin> set s" using split_single by metis
      then have "s = [] \<or> last s \<noteq> newline" using last_in_set by metis
      with Cons True Cons.IH show ?thesis by (cases "s = []") auto
    next
      case False
      with Cons have "s \<noteq> []" by auto
      with Cons False Cons.IH show ?thesis by auto
    qed
  qed simp
qed simp

lemma then_op_assoc: "then_op (then_op m k) l = then_op m (then_op k l)"
  by (rule ext) (simp add: then_op_def split: prod.splits go.splits)

lemma then_upd [simp]: "then_op (upd_op f) k w = k (f w)"
  by (simp add: then_op_def upd_op_def)

lemma emits_upd: "(\<And>w. P (complete w) \<Longrightarrow> f w = w) \<Longrightarrow> emits P (upd_op f) []"
  by (auto simp: emits_def upd_op_def same_def puts_nil)

lemma emits_line_frags: "emits Not (line_frags frags) (go_join [newline] frags)"
proof (induction frags)
  case (Cons frag frags)
  have "go_join [newline] (frag # frags) = [] @ frag @ (if frags \<noteq> [] then [newline] else []) @ go_join [newline] frags"
    by (simp add: go_join_Cons)
  with Cons.IH show ?case
    unfolding line_frags.simps
    by (simp only:) (intro emits_then emits_upd emits_raw; auto intro: emits_raw emits_done)
qed (simp add: emits_done)

lemma writes_lines:
  assumes "newline \<in> set p"
  shows "writes (Write p) (lit p)"
proof (rule writes_lit)
  fix w r w' assume run: "Write p w = (r, w')"
  show "same w w'
      \<and> (r = Ok () \<and> (\<not> compact w \<longrightarrow> complete w' = ends_line p) \<and> puts (margin w @ (if compact w then map blank p else p)) w w'
         \<or> cuts (margin w @ (if compact w then map blank p else p)) w w')"
  proof (cases "compact w")
    case True
    with run assms have "compact_frags 0 (go_split newline p) w = (r, w')" unfolding Write_def by simp
    with emits_compact_frags [of 0 "go_split newline p"] True show ?thesis
      by (simp add: emits_def blank_split)
  next
    case False
    let ?f = "\<lambda>w. w\<lparr>complete := (last (go_split newline p) = [])\<rparr>"
    obtain frag frags where fs: "go_split newline p = frag # frags" by (cases "go_split newline p") simp_all
    obtain w1 where 1: "line_frags (frag # frags) w = (r, w1)" "r = Ok () \<Longrightarrow> w' = ?f w1" "r \<noteq> Ok () \<Longrightarrow> w' = w1"
      using run assms False fs unfolding Write_def by (cases "line_frags (frag # frags) w"; cases r) (auto simp: then_op_def upd_op_def split: go.splits)
    have join: "go_join [newline] (frag # frags) = p" using go_join_split [of newline p] unfolding fs .
    have "line_frags (frag # frags) w = line_frags (frag # frags) (indented w)"
      using False by (auto simp: indented_def writeIndent_def)
    with 1(1) indented_puts [of w] False
    have 2: "same (indented w) w1 \<and> (r = Ok () \<and> puts p (indented w) w1 \<or> cuts p (indented w) w1)"
      using emits_line_frags [of "frag # frags"] unfolding emits_def join by metis
    then have "same w w1" using indented_puts [of w] by (simp add: same_def)
    moreover from 2 have "r = Ok () \<and> puts (margin w @ p) w w1 \<or> cuts (margin w @ p) w w1"
      using indented_puts [of w] puts_then puts_cuts cuts_then by meson
    moreover have "(last (go_split newline p) = []) = ends_line p"
      using assms last_split [of p] by (auto simp: ends_line_def)
    ultimately show ?thesis using 1(2,3) False by (cases "r = Ok ()") auto
  qed
qed

lemma writes_Write [writes_intros]: "writes (Write p) (lit p)"
  using writes_lines writes_plain by blast

lemma writes_WriteString [writes_intros]: "writes (WriteString s) (lit s)"
proof -
  have "raw_Write s (w\<lparr>complete := False\<rparr>) = (let (r, w1) = raw_Write s w in (r, w1\<lparr>complete := False\<rparr>))" for w
    by (simp add: raw_Write_def split: option.splits)
  then have "WriteString s = Write s" by (intro ext) (simp add: WriteString_def Write_def)
  then show ?thesis by (simp add: writes_Write)
qed

lemma writes_unless_compact [writes_intros]: "writes (unless_compact c) (soft [c])"
  unfolding writes_def
proof (intro allI impI)
  fix w r w' assume run: "unless_compact c w = (r, w')"
  show "(r = snd (soft [c]) \<and> laid (fst (soft [c])) w w') \<or> broken (fst (soft [c])) w w'"
  proof (cases "compact w")
    case True
    with run show ?thesis by (simp add: unless_compact_def laid_puts puts_nil)
  next
    case False
    with run have "WriteByte c w = (r, w')" by (simp add: unless_compact_def)
    with writes_WriteByte have "(r = Ok () \<and> laid [Lit [c]] w w') \<or> broken [Lit [c]] w w'" by (simp add: writes_def)
    with False show ?thesis by (simp add: laid_puts broken_cuts)
  qed
qed

lemma writes_indent [writes_intros]:
  "writes (upd_op indent) ([In], Ok ())" "writes (upd_op unindent) ([Dedent], Ok ())"
  by (auto simp: writes_def upd_op_def laid_puts puts_def indent_def unindent_def map_option.id [unfolded id_def])

section \<open>The marshaller writes the document of its value\<close>

lemma then_doc_nothing [simp]: "then_doc d nothing = d"
  by (cases d; cases "snd d") auto

lemma writes_writeString [writes_intros]: "writes (writeString s) (lit (quoted s))"
proof (rule writes_lit)
  define q :: char where "q = CHR 0x22"
  let ?body = "then_op (seq_ops (map (\<lambda>c. raw_Write (escape c)) s)) (WriteByte q)"
  let ?t = "concat (map escape s) @ [q]"
  fix w r w' assume "writeString s w = (r, w')"
  then have run: "then_op (WriteByte q) ?body w = (r, w')" by (simp add: writeString_def q_def)
  obtain r1 w1 where 1: "raw_Write [q] (indented w) = (r1, w1)" by fastforce
  have WB: "WriteByte q v = (let (r, w1) = raw_Write [q] (indented v) in (r, w1\<lparr>complete := False\<rparr>))" for v
    by (simp add: WriteByte_def q_def)
  have "emits Not (WriteByte q) [q]"
    using emits_raw [of Not "[q]"] by (auto simp: emits_def WB indented_def split: prod.splits)
  then have body: "emits Not ?body ?t" by (intro emits_then emits_seq)
  note 2 = emits_indented [OF emits_raw 1]
  have "newline \<notin> set (quoted s)" by (auto simp: quoted_def escape_def split: if_splits)
  then have s: "(if compact w then map blank (quoted s) else quoted s) = [q] @ ?t" "\<not> ends_line (quoted s)"
    by (simp_all add: no_newline q_def) (simp_all add: quoted_def)
  show "same w w'
      \<and> (r = Ok () \<and> (\<not> compact w \<longrightarrow> complete w' = ends_line (quoted s))
           \<and> puts (margin w @ (if compact w then map blank (quoted s) else quoted s)) w w'
         \<or> cuts (margin w @ (if compact w then map blank (quoted s) else quoted s)) w w')"
  proof (cases "is_ok r1")
    case True
    with run 1 have "?body (w1\<lparr>complete := False\<rparr>) = (r, w')" by (auto simp: is_ok_iff then_op_def WB)
    moreover have "?body v = (r, w') \<Longrightarrow> \<not> complete v \<Longrightarrow> same v w' \<and> complete w' = complete v
        \<and> (r = Ok () \<and> puts ?t v w' \<or> cuts ?t v w')" for v
      using body unfolding emits_def by blast
    ultimately have "same (w1\<lparr>complete := False\<rparr>) w' \<and> complete w' = complete (w1\<lparr>complete := False\<rparr>)
        \<and> (r = Ok () \<and> puts ?t (w1\<lparr>complete := False\<rparr>) w' \<or> cuts ?t (w1\<lparr>complete := False\<rparr>) w')"
      by (metis text_writer.select_convs(2) text_writer.update_convs(2) text_writer.surjective)
    then have 3: "same w1 w'" "\<not> complete w'" "r = Ok () \<and> puts ?t w1 w' \<or> cuts ?t w1 w'"
      unfolding puts_complete by simp_all
    with 2(1) puts_or [OF 2(3) 3(3)] show ?thesis unfolding s append_assoc by (simp add: same_def s(2))
  next
    case False
    with run 1 have "r = r1" "w' = w1\<lparr>complete := False\<rparr>" by (cases r1; simp add: then_op_def WB)+
    with 2 False show ?thesis unfolding s by (auto simp: cuts_def)
  qed
qed

lemma writes_if [writes_intros]:
  "(b \<Longrightarrow> writes m d) \<Longrightarrow> (\<not> b \<Longrightarrow> writes m' d') \<Longrightarrow> writes (if b then m else m') (if b then d else d')"
  by simp

lemma writes_writeName [writes_intros]: "writes (writeName name) (doc_name name)"
  unfolding writeName_def doc_name_def seq_docs.simps then_doc_nothing by (intro writes_intros)

lemma writes_elem:
  assumes "fst x \<noteq> GPtr None \<Longrightarrow> writes (snd x) d"
  shows "writes (write_elem name is_byte x) (doc_elem name is_byte (fst x, d))"
  unfolding write_elem_def doc_elem_def seq_docs.simps then_doc_nothing fst_conv snd_conv
  by (intro writes_intros assms)

lemma writes_entry:
  assumes "writes key dkey" "fst x \<noteq> GPtr None \<Longrightarrow> writes (snd x) d"
  shows "writes (write_entry name key x) (doc_entry name dkey (fst x, d))"
  unfolding write_entry_def doc_entry_def fst_conv snd_conv
  by (intro writes_seq_ops list.rel_intros writes_intros assms) (simp_all add: assms writes_intros)

lemma sort_key_map: "sort_key f (map g xs) = map g (sort_key (\<lambda>x. f (g x)) xs)"
proof -
  have "insort_key f (g x) (map g ys) = map g (insort_key (\<lambda>x. f (g x)) x ys)" for x ys
    by (induction ys) simp_all
  then show ?thesis by (induction xs) (simp_all add: sort_key_def)
qed

lemma mapKeys_eq:
  "mapKeys e xs =
     (if xs \<noteq> [] \<and> (is_signed_key (fst (hd xs)) \<or> is_unsigned_key (fst (hd xs))) then sort_key (\<lambda>x. key_number (fst x)) xs
      else sort_key (\<lambda>x. Sprint e (fst x)) xs)"
  by (auto simp: mapKeys_def split: list.splits)

lemma mapKeys_map: "mapKeys e (map (\<lambda>x. (fst x, g x)) xs) = map (\<lambda>x. (fst x, g x)) (mapKeys e xs)"
  by (cases "xs = []") (simp_all add: mapKeys_eq sort_key_map hd_map)

lemma set_mapKeys [simp]: "set (mapKeys e xs) = set xs"
  by (simp add: mapKeys_eq)

lemma writes_seq_map:
  "(\<And>x. x \<in> set xs \<Longrightarrow> writes (m x) (d x)) \<Longrightarrow> writes (seq_ops (map m xs)) (seq_docs (map d xs))"
  by (rule writes_seq_ops) (simp add: list_all2_conv_all_nth)

lemma writes_value:
  "writes m d \<Longrightarrow> writes (seq_ops [writeName name, unless_compact (CHR '' ''), m, WriteByte newline])
     (seq_docs [doc_name name, soft '' '', d, lit [newline]])"
  by (intro writes_seq_ops list.rel_intros writes_intros)

lemma writes_float [writes_intros]: "writes (writeFloat e ro wide b) (doc_float e ro wide b)"
  unfolding writeFloat_def doc_float_def by (auto intro: writes_intros)

lemma writes_writeBytes [writes_intros]:
  "writes (writeBytes vs) (lit (quoted (map (\<lambda>v. char_of (nat (key_number v))) vs)))"
  unfolding writeBytes_def by (rule writes_writeString)

lemma writes_entries:
  assumes "\<And>k x. (k, x) \<in> set kvs \<Longrightarrow> writes (m k) (d k)" "\<And>k x. (k, x) \<in> set kvs \<Longrightarrow> writes (m x) (d x)"
  shows "writes (seq_ops (map (\<lambda>(k, key, x). write_entry name key x) (mapKeys e (map (\<lambda>(k, x). (k, m k, x, m x)) kvs))))
           (seq_docs (map (\<lambda>(k, key, x). doc_entry name key x) (mapKeys e (map (\<lambda>(k, x). (k, d k, x, d x)) kvs))))"
proof -
  have eq: "map (\<lambda>(k, x). (k, f k, x, f x)) kvs = map (\<lambda>x. (fst x, f (fst x), snd x, f (snd x))) kvs"
    for f :: "gval \<Rightarrow> 'b"
    by (simp add: case_prod_beta)
  show ?thesis
    unfolding eq mapKeys_map [of e "\<lambda>x. (f (fst x), snd x, f (snd x))" kvs for f] map_map comp_def
  proof (rule writes_seq_map, unfold prod.case)
    fix y assume "y \<in> set (mapKeys e kvs)"
    then have y: "(fst y, snd y) \<in> set kvs" by simp
    show "writes (write_entry name (m (fst y)) (snd y, m (snd y))) (doc_entry name (d (fst y)) (snd y, d (snd y)))"
      using writes_entry [of "m (fst y)" "d (fst y)" "(snd y, m (snd y))" "d (snd y)" name] assms(1) [OF y] assms(2) [OF y] by simp
  qed
qed

declare writeAny.simps [simp del] doc_any.simps [simp del]

lemma writes_any:
  "writes (writeAny tm e ro v) (doc_any tm e ro v)"
  "writes (write_kind tm e ro v) (doc_kind tm e ro v)"
  "writes (write_field tm e ro f) (doc_field tm e ro f)"
proof (induction tm e ro v and tm e ro v and tm e ro f rule: writeAny_write_kind_write_field.induct)
  case (1 tm e ro v)
  then show ?case
    unfolding writeAny.simps doc_any.simps by (cases v) (auto intro: writes_intros split: option.splits)
next
  case (5 tm e ro fs)
  have "writes (write_field tm e False f) (doc_field tm e False f)" if "\<not> ro" "MarshalText e fs = None" "f \<in> set fs" for f
    using 5 [OF that] that by simp
  then show ?case
    unfolding write_kind.simps doc_kind.simps
    by (intro writes_seq_ops list.rel_intros writes_intros) (auto intro!: writes_intros writes_seq_map split: option.splits go.splits)
next
  case (7 tm e ro name tag exported v)
  define ro1 where "ro1 = (ro \<or> \<not> exported)"
  note any = 7 [unfolded ro1_def [symmetric], OF refl]
  show ?case
  proof (cases "tag = ''-''")
    case False
    note any = any [OF False]
    show ?thesis
    proof (cases v)
      case (GSlice is_byte vs)
      have "writes (write_elem name is_byte (x, writeAny tm e ro1 x)) (doc_elem name is_byte (x, doc_any tm e ro1 x))"
        if "vs = Some l" "x \<in> set l" for l x
        using any(5) [OF GSlice that] writes_elem [of "(x, writeAny tm e ro1 x)"] by simp
      then show ?thesis
        unfolding GSlice write_field.simps doc_field.simps Let_def ro1_def [symmetric]
        by (cases vs) (simp_all only: gval.case option.case False if_False, (intro writes_intros writes_seq_map; simp only:)+)
    next
      case (GMap kvs)
      have "writes (writeAny tm e ro1 k) (doc_any tm e ro1 k)" "writes (writeAny tm e ro1 x) (doc_any tm e ro1 x)"
        if "\<not> (ro1 \<and> 1 < length kvs \<and> \<not> (is_signed_key (fst (hd kvs)) \<or> is_unsigned_key (fst (hd kvs))))" "(k, x) \<in> set kvs" for k x
        using any(6,7) [OF GMap that refl] .
      then show ?thesis
        using False GMap by (auto simp: Let_def simp flip: ro1_def intro!: writes_entries writes_fail)
    next
      case (GPtr x)
      with any(8) show ?thesis
        unfolding GPtr write_field.simps doc_field.simps Let_def ro1_def [symmetric]
        by (cases x) (auto simp: False simp del: seq_ops.simps seq_docs.simps intro!: writes_value writes_intros)
    qed (use any False in \<open>auto simp: Let_def simp del: seq_ops.simps seq_docs.simps simp flip: ro1_def intro!: writes_value writes_intros\<close>)
  qed (simp add: writes_done Let_def)
qed (auto intro: writes_intros)

lemma writes_writeStruct: "writes (writeStruct tm e x) (doc_of tm e (Some (GPtr (Some x))))"
  by (cases x) (auto simp: writeStruct_def doc_of_def Indirect_def intro!: writes_fail writes_seq_map writes_any)

lemma Marshal_printed:
  fixes tm :: TextMarshaler and e obj
  defines "t \<equiv> layout (Compact tm) 0 True (fst (doc_of tm e obj))"
  shows "case limit of
           None \<Rightarrow> Marshal tm e limit obj = (snd (doc_of tm e obj), t)
         | Some n \<Rightarrow> if length t \<le> n then Marshal tm e limit obj = (snd (doc_of tm e obj), t)
                   else snd (Marshal tm e limit obj) = take n t"
proof -
  let ?w = "\<lparr>ind = 0, complete = True, compact = Compact tm, written = [], room = limit\<rparr>"
  show ?thesis
  proof (cases "Option.bind obj Indirect")
    case None
    have "t = ''<nil>''" by (simp add: t_def doc_of_def None blank_def)
    moreover have "Marshal tm e limit obj = (Ok (), written (snd (raw_Write ''<nil>'' ?w)))"
      using None by (cases obj) (auto simp: Marshal_def Let_def)
    ultimately show ?thesis by (simp add: raw_Write_def doc_of_def None split: option.splits)
  next
    case (Some x)
    then obtain v where v: "obj = Some v" "Indirect v = Some x" by (cases obj) auto
    obtain r w1 where run: "writeStruct tm e x ?w = (r, w1)" by fastforce
    with v have M: "Marshal tm e limit obj = (r, written w1)" by (simp add: Marshal_def)
    have "doc_of tm e (Some (GPtr (Some x))) = doc_of tm e obj" by (simp add: doc_of_def Indirect_def [of "GPtr _"] Some)
    with writes_writeStruct [of tm e x] run
    have "(r = snd (doc_of tm e obj) \<and> laid (fst (doc_of tm e obj)) ?w w1) \<or> broken (fst (doc_of tm e obj)) ?w w1"
      by (simp add: writes_def)
    then show ?thesis unfolding M by (auto simp: laid_def broken_def t_def split: option.splits)
  qed
qed


text \<open>
  The compact form is one line, whatever the strings, the names and the methods of the values hold.
\<close>

theorem compact_one_line:
  "case CompactTextString e obj of Ok s \<Rightarrow> newline \<notin> set s | Err _ \<Rightarrow> False | Panic _ \<Rightarrow> True"
proof -
  have "newline \<notin> set (flat p)" for p
    by (cases p) (auto simp: flat_def blank_def)
  then have "newline \<notin> set (layout True 0 True ps)" for ps by (simp add: layout_compact)
  then show ?thesis
    using Marshal_printed [where limit = None and tm = "\<lparr>Compact = True, IgnoreDefault = True\<rparr>" and e = e and obj = obj]
    by (simp add: CompactTextString_def Text_def split: go.splits)
qed

end
