(* ===== verification/Objfmt_Reading.thy ===== *)
theory Objfmt_Reading
  imports Objfmt_Layout "HOL-Library.Multiset"
begin

text \<open>
  Reading the text format back. The order of the map entries that \<^verbatim>\<open>reflect\<close> delivers does not show, and a
  reader of flat structures recovers names and values from either form.
\<close>

section \<open>The order of map entries\<close>

definition entry_key :: "go_env \<Rightarrow> gval \<Rightarrow> int + string" where
  "entry_key e k = (if is_signed_key k \<or> is_unsigned_key k then Inl (key_number k) else Inr (Sprint e k))"

text \<open>The keys of a map are of one kind, and sort differently.\<close>

definition sortable :: "go_env \<Rightarrow> (gval \<times> gval) list \<Rightarrow> bool" where
  "sortable e kvs \<longleftrightarrow> distinct (map (entry_key e \<circ> fst) kvs)
     \<and> (list_all (\<lambda>x. is_signed_key (fst x) \<or> is_unsigned_key (fst x)) kvs
        \<or> list_all (\<lambda>x. \<not> (is_signed_key (fst x) \<or> is_unsigned_key (fst x))) kvs)"

lemma sort_key_permuted:
  assumes "mset xs = mset ys" "inj_on f (set xs)"
  shows "sort_key f xs = sort_key f ys"
proof (rule sort_key_inj_key_eq)
  show "mset xs = mset (sort_key f ys)" using assms(1) by simp
qed (use assms(2) in simp_all)

lemma mapKeys_permuted:
  assumes "mset kvs = mset kvs'" "sortable e kvs"
  shows "mapKeys e kvs = mapKeys e kvs'"
proof (cases "kvs = []")
  case False
  let ?num = "\<lambda>k. is_signed_key k \<or> is_unsigned_key k"
  from assms(1) have same: "set kvs = set kvs'" "kvs' \<noteq> []" using False by (metis set_mset_mset) (use assms(1) False in auto)
  from assms(2) have inj: "inj_on (entry_key e \<circ> fst) (set kvs)" by (simp add: sortable_def distinct_map)
  from assms(2) consider "\<forall>x \<in> set kvs. ?num (fst x)" | "\<forall>x \<in> set kvs. \<not> ?num (fst x)"
    by (auto simp: sortable_def list_all_iff)
  then show ?thesis
  proof cases
    case 1
    then have "inj_on (\<lambda>x. key_number (fst x)) (set kvs)" using inj by (auto simp: inj_on_def entry_key_def)
    moreover have "?num (fst (hd kvs))" "?num (fst (hd kvs'))" using 1 same False by auto
    ultimately show ?thesis using False same(2) by (simp add: mapKeys_eq sort_key_permuted [OF assms(1)])
  next
    case 2
    then have "inj_on (\<lambda>x. Sprint e (fst x)) (set kvs)" using inj by (auto simp: inj_on_def entry_key_def)
    moreover have "\<not> ?num (fst (hd kvs))" "\<not> ?num (fst (hd kvs'))" using 2 same False by auto
    ultimately show ?thesis using False same(2) by (simp add: mapKeys_eq sort_key_permuted [OF assms(1)])
  qed
qed (use assms in simp)

lemma sortable_head:
  assumes "mset kvs = mset kvs'" "sortable e kvs" "kvs \<noteq> []"
  shows "is_signed_key (fst (hd kvs)) \<or> is_unsigned_key (fst (hd kvs))
    \<longleftrightarrow> is_signed_key (fst (hd kvs')) \<or> is_unsigned_key (fst (hd kvs'))"
proof -
  from assms(1,3) have "set kvs = set kvs'" "kvs' \<noteq> []" by (metis set_mset_mset) (use assms in auto)
  then have "hd kvs \<in> set kvs" "hd kvs' \<in> set kvs" using assms(3) hd_in_set by metis+
  with assms(2) show ?thesis by (auto simp: sortable_def list_all_iff)
qed

text \<open>
  The order in which \<^verbatim>\<open>reflect\<close> delivers the entries of a map does not show: what is written for a map
  depends on its entries alone, when its keys sort differently.
\<close>

theorem map_order_irrelevant:
  assumes "mset kvs = mset kvs'" "sortable e kvs"
  shows "write_field tm e ro (GField name tag exported (GMap kvs)) w
    = write_field tm e ro (GField name tag exported (GMap kvs')) w"
proof -
  have eq: "map (\<lambda>(k, x). (k, m k, x, m x)) kvs = map (\<lambda>x. (fst x, m (fst x), snd x, m (snd x))) kvs"
    for m :: "gval \<Rightarrow> unit text_op" and kvs
    by (simp add: case_prod_beta)
  have "mapKeys e (map (\<lambda>(k, x). (k, m k, x, m x)) kvs) = mapKeys e (map (\<lambda>(k, x). (k, m k, x, m x)) kvs')"
    for m :: "gval \<Rightarrow> unit text_op"
    unfolding eq mapKeys_map [of e "\<lambda>x. (m (fst x), snd x, m (snd x))"] using assms mapKeys_permuted by simp
  moreover have "length kvs = length kvs'" using assms(1) by (rule mset_eq_length)
  ultimately show ?thesis
    using sortable_head [OF assms] by (cases "kvs = []") (auto simp: Let_def)
qed

definition plain_env :: go_env where
  "plain_env = \<lparr>String_method = (\<lambda>_ _. None), MarshalText = (\<lambda>_. None), show_float = (\<lambda>_ _. []), show_other = (\<lambda>_. [])\<rparr>"

lemma map_order_irrelevant_witness:
  "write_field \<lparr>Compact = True, IgnoreDefault = False\<rparr> plain_env True (GField ''M'' [] True
       (GMap [(GInt Kind_Int32 [] 2, GString ''b''), (GInt Kind_Int32 [] (-1), GString ''a'')]))
     \<lparr>ind = 0, complete = True, compact = True, written = [], room = None\<rparr>
   = write_field \<lparr>Compact = True, IgnoreDefault = False\<rparr> plain_env True (GField ''M'' [] True
       (GMap [(GInt Kind_Int32 [] (-1), GString ''a''), (GInt Kind_Int32 [] 2, GString ''b'')]))
     \<lparr>ind = 0, complete = True, compact = True, written = [], room = None\<rparr>"
  by (rule map_order_irrelevant) (simp_all add: sortable_def entry_key_def is_signed_key_def key_number_def)

section \<open>Reading flat structures\<close>

fun read_string :: "string \<Rightarrow> (string \<times> string) option" where
  "read_string [] = None"
| "read_string (c # cs) =
     (if c = CHR 0x22 then Some ([], cs)
      else if c = CHR 0x5C then
        case cs of
          [] \<Rightarrow> None
        | d # ds \<Rightarrow>
            map_option (apfst ((#) (if d = CHR ''n'' then newline else if d = CHR ''r'' then CHR 0x0D
              else if d = CHR ''t'' then CHR 0x09 else d))) (read_string ds)
      else map_option (apfst ((#) c)) (read_string cs))"

lemma read_quoted: "read_string (concat (map escape s) @ CHR 0x22 # t) = Some (s, t)"
  by (induction s) (simp_all add: escape_def)

lemma read_string_shorter: "read_string s = Some (a, t) \<Longrightarrow> length t < length s"
  by (induction s arbitrary: a t rule: read_string.induct) (fastforce split: if_splits list.splits)+

datatype scalar = Quoted string | Bare string

text \<open>The bytes up to a given one, and those after it.\<close>

fun cut_at :: "char \<Rightarrow> string \<Rightarrow> (string \<times> string) option" where
  "cut_at d [] = None"
| "cut_at d (c # cs) = (if c = d then Some ([], cs) else map_option (apfst ((#) c)) (cut_at d cs))"

lemma cut_at_append: "d \<notin> set s \<Longrightarrow> cut_at d (s @ d # t) = Some (s, t)"
  by (induction s) auto

lemma cut_at_shorter: "cut_at d s = Some (a, t) \<Longrightarrow> length t < length s"
  by (induction s arbitrary: a t) (fastforce split: if_splits)+

definition read_value :: "bool \<Rightarrow> string \<Rightarrow> (scalar \<times> string) option" where
  "read_value cpt s =
     (let d = (if cpt then CHR '' '' else newline) in
      if s \<noteq> [] \<and> hd s = CHR 0x22
      then (case read_string (tl s) of Some (a, x # t) \<Rightarrow> if x = d then Some (Quoted a, t) else None | _ \<Rightarrow> None)
      else map_option (apfst Bare) (cut_at d s))"

lemma read_value_shorter: "read_value cpt s = Some (a, t) \<Longrightarrow> length t < length s"
  by (cases s) (fastforce simp: read_value_def Let_def split: list.splits option.splits prod.splits if_splits
      dest: read_string_shorter cut_at_shorter)+

function read_fields :: "bool \<Rightarrow> string \<Rightarrow> (string \<times> scalar) list option" where
  "read_fields cpt s =
     (if s = [] then Some []
      else
        case cut_at (CHR '':'') s of
          None \<Rightarrow> None
        | Some (name, t) \<Rightarrow>
            (case read_value cpt (if cpt then t else drop 1 t) of
               None \<Rightarrow> None
             | Some (x, u) \<Rightarrow> map_option ((#) (name, x)) (read_fields cpt u)))"
  by pat_completeness auto
termination
  by (relation "measure (length \<circ> snd)") (fastforce dest: cut_at_shorter read_value_shorter split: if_splits)+

declare read_fields.simps [simp del]

text \<open>Fields with strings, truth values and integers that have no method of their own.\<close>

definition flat_field :: "go_env \<Rightarrow> gfield \<Rightarrow> bool" where
  "flat_field e f =
     (case f of GField name tag exported v \<Rightarrow>
        tag \<noteq> ''-'' \<and> exported \<and> CHR '':'' \<notin> set name \<and> newline \<notin> set name
        \<and> (case v of GString _ \<Rightarrow> True | GBool _ \<Rightarrow> True | GInt _ ty i \<Rightarrow> String_method e ty i = None | _ \<Rightarrow> False))"

definition shown :: "TextMarshaler \<Rightarrow> gfield \<Rightarrow> bool" where
  "shown tm f = (case f of GField _ _ _ v \<Rightarrow> \<not> ignoreField tm v)"

definition field_scalar :: "go_env \<Rightarrow> gfield \<Rightarrow> string \<times> scalar" where
  "field_scalar e f =
     (case f of GField name _ _ v \<Rightarrow> (name, case v of GString s \<Rightarrow> Quoted s | _ \<Rightarrow> Bare (Sprint e v)))"

definition value_text :: "go_env \<Rightarrow> gval \<Rightarrow> string" where
  "value_text e v = (case v of GString s \<Rightarrow> quoted s | _ \<Rightarrow> Sprint e v)"

definition field_pieces :: "go_env \<Rightarrow> gfield \<Rightarrow> piece list" where
  "field_pieces e f =
     (case f of GField name _ _ v \<Rightarrow> [Lit name, Lit '':'', Soft '' '', Lit (value_text e v), Lit [newline]])"

lemma doc_flat:
  assumes "flat_field e f"
  shows "doc_field tm e False f = (if shown tm f then field_pieces e f else [], Ok ())"
proof -
  obtain name tag exported v where f: "f = GField name tag exported v" by (cases f)
  show ?thesis
    using assms unfolding f
    by (cases v) (auto simp: flat_field_def shown_def field_pieces_def doc_any.simps doc_name_def value_text_def Let_def)
qed

lemma doc_flat_fields:
  "list_all (flat_field e) fs \<Longrightarrow>
     seq_docs (map (doc_field tm e False) fs) = (concat (map (field_pieces e) (filter (shown tm) fs)), Ok ())"
  by (induction fs) (simp_all add: doc_flat)

lemma quoted_no_newline: "newline \<notin> set (quoted s)"
  by (auto simp: quoted_def escape_def split: if_splits)

lemma itoa_chars: "c \<in> set (itoa i) \<Longrightarrow> is_digit c \<or> c = CHR ''-''"
  by (auto simp: itoa_def dest: show_nat_digits split: if_splits)

lemma itoa_not_Nil: "itoa i \<noteq> []"
  by (simp add: itoa_def)

lemma bare_text:
  assumes "flat_field e (GField name tag exported v)" "\<And>s. v \<noteq> GString s"
  shows "newline \<notin> set (Sprint e v)" "CHR '' '' \<notin> set (Sprint e v)" "CHR 0x22 \<notin> set (Sprint e v)"
  using assms by (cases v; auto simp: flat_field_def Sprint_def is_digit_def dest!: itoa_chars)+

definition field_text :: "bool \<Rightarrow> go_env \<Rightarrow> gfield \<Rightarrow> string" where
  "field_text cpt e f =
     (case f of GField name _ _ v \<Rightarrow>
        name @ CHR '':'' # (if cpt then [] else '' '') @ value_text e v @ [if cpt then CHR '' '' else newline])"

lemma layout_field:
  assumes "flat_field e f"
  shows "layout cpt 0 fresh (field_pieces e f @ ps) = field_text cpt e f @ layout cpt 0 True ps"
proof -
  obtain name tag exported v where f: "f = GField name tag exported v" by (cases f)
  have "newline \<notin> set (value_text e v)"
    using bare_text [OF assms [unfolded f]] quoted_no_newline by (cases v) (auto simp: value_text_def)
  then have "map blank (value_text e v) = value_text e v" by (rule no_newline)
  moreover have "map blank name = name" using assms f by (auto simp: flat_field_def intro: no_newline)
  ultimately show ?thesis by (cases cpt) (simp_all add: f field_pieces_def field_text_def blank_def ends_line_def layout_compact)
qed

lemma layout_fields:
  "list_all (flat_field e) fs \<Longrightarrow> layout cpt 0 True (concat (map (field_pieces e) fs)) = concat (map (field_text cpt e) fs)"
  by (induction fs) (simp_all add: layout_field)

lemma read_field_value:
  assumes "flat_field e (GField name tag exported v)"
  shows "read_value cpt (value_text e v @ (if cpt then CHR '' '' else newline) # t) = Some (snd (field_scalar e (GField name tag exported v)), t)"
proof (cases "\<exists>s. v = GString s")
  case True
  then show ?thesis by (auto simp: value_text_def read_value_def quoted_def read_quoted field_scalar_def Let_def)
next
  case False
  let ?s = "Sprint e v" and ?d = "if cpt then CHR '' '' else newline"
  from False have v: "value_text e v = ?s" "snd (field_scalar e (GField name tag exported v)) = Bare ?s"
    by (cases v; simp add: value_text_def field_scalar_def)+
  from False bare_text [OF assms] have b: "?d \<notin> set ?s" "CHR 0x22 \<notin> set ?s" by auto
  then have "hd (?s @ ?d # t) \<noteq> CHR 0x22" by (cases ?s) auto
  with b(1) show ?thesis unfolding v by (simp add: read_value_def cut_at_append)
qed

lemma read_field_text:
  assumes "flat_field e f"
  shows "read_fields cpt (field_text cpt e f @ t) = map_option ((#) (field_scalar e f)) (read_fields cpt t)"
proof -
  obtain name tag exported v where f: "f = GField name tag exported v" by (cases f)
  have "CHR '':'' \<notin> set name" using assms by (simp add: f flat_field_def)
  then show ?thesis
    using read_field_value [OF assms [unfolded f], of cpt t]
    by (cases cpt; subst read_fields.simps; simp add: f field_text_def cut_at_append field_scalar_def)
qed

lemma read_fields_text:
  "list_all (flat_field e) fs \<Longrightarrow> read_fields cpt (concat (map (field_text cpt e) fs)) = Some (map (field_scalar e) fs)"
  by (induction fs) (simp_all add: read_field_text read_fields.simps [of cpt "[]"])

text \<open>
  C27: The text of a flat structure, in either form, is read back to the names and values of the fields
  that are shown, whatever bytes its strings hold.
\<close>

theorem flat_struct_round_trip:
  assumes "list_all (flat_field e) fs"
  shows "\<exists>s. Text tm e (Some (GStruct fs)) = Ok s
    \<and> read_fields (Compact tm) s = Some (map (field_scalar e) (filter (shown tm) fs))"
proof -
  have flat: "list_all (flat_field e) (filter (shown tm) fs)" using assms by (auto simp: list_all_iff)
  have "doc_of tm e (Some (GStruct fs)) = (concat (map (field_pieces e) (filter (shown tm) fs)), Ok ())"
    using doc_flat_fields [OF assms] by (simp add: doc_of_def Indirect_def)
  then have "Marshal tm e None (Some (GStruct fs)) = (Ok (), concat (map (field_text (Compact tm) e) (filter (shown tm) fs)))"
    using Marshal_printed [where limit = None and tm = tm and e = e and obj = "Some (GStruct fs)"] layout_fields [OF flat] by simp
  then show ?thesis using read_fields_text [OF flat] by (simp add: Text_def)
qed

definition sample_struct :: "gfield list" where
  "sample_struct =
     [GField ''Name'' [] True (GString [CHR ''a'', CHR 0x22, CHR '' '', newline, CHR 0x5C]),
      GField ''Id'' [] True (GInt Kind_Int32 [] (-12)), GField ''None'' [] True (GInt Kind_Uint32 [] 0),
      GField ''Up'' [] True (GBool True)]"

lemma flat_struct_round_trip_witness:
  "\<exists>s. CompactTextString plain_env (Some (GStruct sample_struct)) = Ok s
     \<and> read_fields True s = Some [(''Name'', Quoted [CHR ''a'', CHR 0x22, CHR '' '', newline, CHR 0x5C]), (''Id'', Bare ''-12''), (''Up'', Bare ''true'')]"
proof -
  let ?tm = "\<lparr>Compact = True, IgnoreDefault = True\<rparr>"
  have "list_all (flat_field plain_env) sample_struct" by (simp add: sample_struct_def flat_field_def plain_env_def)
  moreover have "Sprint plain_env (GInt Kind_Int32 [] (-12)) = ''-12''" by code_simp
  ultimately show ?thesis
    using flat_struct_round_trip [of plain_env sample_struct ?tm]
    by (simp add: CompactTextString_def sample_struct_def shown_def ignoreField_def Indirect_def default_value_def
        field_scalar_def Sprint_def [of _ "GBool _"])
qed

end
