(* ===== verification/Golog.thy ===== *)
theory Golog
  imports Go_Strings "HOL-Library.Sublist"
begin

text \<open>
  The loggers (\<^verbatim>\<open>golog\<close>): levels and colours (\<^verbatim>\<open>level.go\<close>, \<^verbatim>\<open>color.go\<close>), a logger and the lines it writes
  (\<^verbatim>\<open>log.go\<close>), and the table of all loggers (\<^verbatim>\<open>manager.go\<close>). Loggers are shared by pointers and live in a
  heap; the state also has what was written, one entry for each call of \<^verbatim>\<open>Write\<close>. The texts of
  \<^verbatim>\<open>fmt\<close>, the clock and the caller's position come in as arguments, and so does \<^verbatim>\<open>json.Unmarshal\<close>.
\<close>

section \<open>Levels and colours\<close>

type_synonym log_level = int
type_synonym color = int

definition Level_Debug :: log_level where [simp]: "Level_Debug = 0"
definition Level_Info :: log_level where [simp]: "Level_Info = 1"
definition Level_Warn :: log_level where [simp]: "Level_Warn = 2"
definition Level_Error :: log_level where [simp]: "Level_Error = 3"
definition Level_Fatal :: log_level where [simp]: "Level_Fatal = 4"

definition levelString :: "string list" where
  "levelString = [''[DEBUG]'', ''[INFO]'', ''[WARN]'', ''[ERROR]'', ''[FATAL]'']"

definition Color_None :: color where [simp]: "Color_None = 0"
definition Color_Red :: color where [simp]: "Color_Red = 2"
definition Color_Yellow :: color where [simp]: "Color_Yellow = 4"
definition Color_White :: color where [simp]: "Color_White = 8"

definition logColorPrefix :: "string list" where
  "logColorPrefix =
     [[], CHR 0x1B # ''[030m'', CHR 0x1B # ''[031m'', CHR 0x1B # ''[032m'', CHR 0x1B # ''[033m'', CHR 0x1B # ''[034m'', CHR 0x1B # ''[035m'',
      CHR 0x1B # ''[036m'', CHR 0x1B # ''[037m'']"

definition logColorSuffix :: string where
  "logColorSuffix = CHR 0x1B # ''[0m''"

definition colorByName :: "(string \<times> color) list" where
  "colorByName =
     [(''none'', 0), (''black'', 1), (''red'', 2), (''green'', 3), (''yellow'', 4), (''blue'', 5), (''purple'', 6), (''darkgreen'', 7), (''white'', 8)]"

text \<open>A constant table, indexed by a number of the type \<^verbatim>\<open>int\<close>.\<close>

definition table_at :: "'a list \<Rightarrow> int \<Rightarrow> ('e, 'a) go" where
  "table_at xs i = (if 0 \<le> i \<and> i < int (length xs) then Ok (xs ! nat i) else Panic IndexOutOfRange)"

text \<open>\<^verbatim>\<open>strings.ToLower\<close>; of a text with other than ASCII bytes it is a parameter.\<close>

definition ToLower :: "(string \<Rightarrow> string) \<Rightarrow> string \<Rightarrow> string" where
  "ToLower wide s =
     (if list_all (\<lambda>c. (of_char c :: nat) < 128) s
      then map (\<lambda>c. if 65 \<le> (of_char c :: nat) \<and> (of_char c :: nat) \<le> 90 then char_of ((of_char c :: nat) + 32) else c) s
      else wide s)"

definition matchColor :: "(string \<Rightarrow> string) \<Rightarrow> string \<Rightarrow> color" where
  "matchColor wide name = (case map_of colorByName (ToLower wide name) of Some c \<Rightarrow> c | None \<Rightarrow> Color_None)"

definition ColorFromLevel :: "log_level \<Rightarrow> color" where
  "ColorFromLevel l =
     (if l = Level_Warn then Color_Yellow else if l = Level_Error \<or> l = Level_Fatal then Color_Red else Color_None)"

record ColorMatch =
  cmText :: string
  cmColor :: string
  cm_c :: color

type_synonym ColorFile = "ColorMatch list"

fun ColorFromText :: "ColorFile \<Rightarrow> string \<Rightarrow> color" where
  "ColorFromText [] text = Color_None"
| "ColorFromText (rule # rules) text = (if sublist (cmText rule) text then cm_c rule else ColorFromText rules text)"

text \<open>
  \<^verbatim>\<open>json.Unmarshal\<close> into a colour file: the rules, \<open>None\<close> where the array has a \<^verbatim>\<open>null\<close>, or its error.
\<close>

type_synonym unmarshal = "string \<Rightarrow> (string, (string \<times> string) option list) go"

fun load_rules :: "(string \<Rightarrow> string) \<Rightarrow> (string \<times> string) option list \<Rightarrow> (string, ColorFile) go" where
  "load_rules wide [] = Ok []"
| "load_rules wide (None # rules) = Panic NilDereference"
| "load_rules wide (Some (text, cname) # rules) =
     (let c = matchColor wide cname in
      if c = Color_None then Err (''color name not exists: '' @ text)
      else bind_go (load_rules wide rules) (\<lambda>cf. Ok (\<lparr>cmText = text, cmColor = cname, cm_c = c\<rparr> # cf)))"

definition Load :: "unmarshal \<Rightarrow> (string \<Rightarrow> string) \<Rightarrow> string \<Rightarrow> (string, ColorFile) go" where
  "Load json wide data = bind_go (json data) (load_rules wide)"

section \<open>The header of a line\<close>

definition Ldate :: int where [simp]: "Ldate = 1"
definition Ltime :: int where [simp]: "Ltime = 2"
definition Lmicroseconds :: int where [simp]: "Lmicroseconds = 4"
definition Llongfile :: int where [simp]: "Llongfile = 8"
definition Lshortfile :: int where [simp]: "Lshortfile = 16"
definition LstdFlags :: int where [simp]: "LstdFlags = Ldate OR Ltime"

text \<open>The loop of \<^verbatim>\<open>itoa\<close>: \<open>b\<close> is what the array holds from \<^verbatim>\<open>bp\<close> on; it has 32 places.\<close>

function pad_loop :: "nat \<Rightarrow> int \<Rightarrow> string \<Rightarrow> (string, string) go" where
  "pad_loop u wid b =
     (if u > 0 \<or> wid > 0
      then if length b = 32 then Panic IndexOutOfRange
           else pad_loop (u div 10) (wid - 1) (digit_char (u mod 10) # b)
      else Ok b)"
  by pat_completeness auto
termination
  by (relation "measure (\<lambda>(u, wid, b). u + nat wid)") auto

declare pad_loop.simps [simp del]

definition pad_itoa :: "int \<Rightarrow> int \<Rightarrow> (string, string) go" where
  "pad_itoa i wid =
     (let u = nat (i mod 2 ^ 64) in
      if u = 0 \<and> wid \<le> 1 then Ok ''0'' else pad_loop u wid [])"

record log_time =
  year :: int
  month :: int
  day :: int
  hour :: int
  minute :: int
  second :: int
  nanosecond :: int

fun short_loop :: "nat \<Rightarrow> string \<Rightarrow> string" where
  "short_loop 0 file = file"
| "short_loop (Suc i) file = (if file ! Suc i = CHR ''/'' then drop (Suc i + 1) file else short_loop i file)"

definition short_file :: "string \<Rightarrow> string" where
  "short_file file = short_loop (length file - 1) file"

fun append_all :: "(string, string) go list \<Rightarrow> (string, string) go" where
  "append_all [] = Ok []"
| "append_all (p # ps) = bind_go p (\<lambda>s. bind_go (append_all ps) (\<lambda>t. Ok (s @ t)))"

text \<open>What \<^verbatim>\<open>formatHeader\<close> appends to the buffer.\<close>

definition formatHeader :: "int \<Rightarrow> log_time \<Rightarrow> string \<Rightarrow> int \<Rightarrow> (string, string) go" where
  "formatHeader flg t file line =
     append_all
       ([Ok '' '']
        @ (if flg AND (Ldate OR Ltime OR Lmicroseconds) \<noteq> 0
           then (if flg AND Ldate \<noteq> 0
                 then [pad_itoa (year t) 4, Ok ''/'', pad_itoa (month t) 2, Ok ''/'', pad_itoa (day t) 2, Ok '' ''] else [])
              @ (if flg AND (Ltime OR Lmicroseconds) \<noteq> 0
                 then [pad_itoa (hour t) 2, Ok '':'', pad_itoa (minute t) 2, Ok '':'', pad_itoa (second t) 2]
                    @ (if flg AND Lmicroseconds \<noteq> 0 then [Ok ''.'', pad_itoa (nanosecond t div 1000) 6] else [])
                    @ [Ok '' '']
                 else [])
           else [])
        @ (if flg AND (Lshortfile OR Llongfile) \<noteq> 0
           then [Ok (if flg AND Lshortfile \<noteq> 0 then short_file file else file), Ok '':'', pad_itoa line (-1), Ok '': '']
           else []))"

section \<open>Loggers\<close>

datatype log_output = Stdout | LogFile string

record Logger =
  flag :: int
  level :: log_level
  panicLevel :: log_level
  enableColor :: bool
  name :: string
  colorFile :: "ColorFile option"
  fileOutput :: "string option"

text \<open>
  \<open>guard\<close> says that \<^verbatim>\<open>logMapGuard\<close> is held for writing by a call that has ended; \<open>logMap\<close> has the
  loggers by name.
\<close>

record golog =
  loggers :: "Logger list"
  logMap :: "(string \<times> nat) list"
  guard :: bool
  log_writes :: "(log_output \<times> string) list"

type_synonym 'a log_op = "golog \<Rightarrow> (string, 'a) go \<times> golog"

text \<open>What a call of \<^verbatim>\<open>Log\<close> sees of the outside: the formatting of its values, the time, the caller.\<close>

record 'v log_env =
  Sprintf :: "string \<Rightarrow> 'v list \<Rightarrow> string"
  Sprintln :: "'v list \<Rightarrow> string"
  Now :: log_time
  Caller :: "(string \<times> int) option"

text \<open>The parts that \<^verbatim>\<open>Output\<close> appends to the buffer, one after the other.\<close>

definition output_parts ::
    "int \<Rightarrow> log_time \<Rightarrow> (string \<times> int) option \<Rightarrow> string \<Rightarrow> string \<Rightarrow> color \<Rightarrow> (string, string) go list" where
  "output_parts flg t caller pre text c =
     (let (file, line) =
            (if flg AND (Lshortfile OR Llongfile) \<noteq> 0
             then (case caller of Some fl \<Rightarrow> fl | None \<Rightarrow> (''???'', 0)) else ([], 0));
          colorLog = (c \<noteq> Color_None)
      in (if colorLog then [table_at logColorPrefix c] else [])
         @ [Ok pre, formatHeader flg t file line, Ok text]
         @ (if colorLog then [Ok logColorSuffix] else [])
         @ (if text \<noteq> [] \<and> last text \<noteq> CHR 0x0A then [Ok [CHR 0x0A]] else []))"

definition Output :: "'v log_env \<Rightarrow> nat \<Rightarrow> string \<Rightarrow> string \<Rightarrow> color \<Rightarrow> log_output \<Rightarrow> unit log_op" where
  "Output e l pre text c out s =
     (case append_all (output_parts (flag (loggers s ! l)) (Now e) (Caller e) pre text c) of
        Ok buf \<Rightarrow> (Ok (), s\<lparr>log_writes := log_writes s @ [(out, buf)]\<rparr>)
      | Err x \<Rightarrow> (Err x, s)
      | Panic q \<Rightarrow> (Panic q, s))"

definition log_color :: "Logger \<Rightarrow> color \<Rightarrow> log_level \<Rightarrow> string \<Rightarrow> color" where
  "log_color self c lv text =
     (if enableColor self
      then let c1 = (case colorFile self of
                       Some cf \<Rightarrow> if c = Color_None then ColorFromText cf text else c
                     | None \<Rightarrow> c)
           in if lv \<ge> Level_Error then Color_Red else c1
      else Color_None)"

definition log_text :: "'v log_env \<Rightarrow> string \<Rightarrow> 'v list \<Rightarrow> string" where
  "log_text e fmt vs = (if fmt = [] then Sprintln e vs else Sprintf e fmt vs)"

definition Log :: "'v log_env \<Rightarrow> nat \<Rightarrow> color \<Rightarrow> log_level \<Rightarrow> string \<Rightarrow> 'v list \<Rightarrow> unit log_op" where
  "Log e l c lv fmt vs s =
     (let self = loggers s ! l in
      if lv < level self then (Ok (), s)
      else
        case table_at levelString lv of
          Ok lstr \<Rightarrow>
            (let pre = lstr @ '' '' @ name self;
                 text = log_text e fmt vs;
                 out = (case fileOutput self of None \<Rightarrow> Stdout | Some f \<Rightarrow> LogFile f);
                 (r, s1) = Output e l pre text (log_color self c lv text) out s
             in case r of
                  Panic q \<Rightarrow> (Panic q, s1)
                | _ \<Rightarrow> if lv \<ge> panicLevel self then (Panic (Explicit text), s1) else (Ok (), s1))
        | Err x \<Rightarrow> (Err x, s)
        | Panic q \<Rightarrow> (Panic q, s))"

definition DebugColorf :: "'v log_env \<Rightarrow> nat \<Rightarrow> string \<Rightarrow> string \<Rightarrow> 'v list \<Rightarrow> unit log_op" where
  "DebugColorf e l colorName fmt vs =
     Log e l (case map_of colorByName colorName of Some c \<Rightarrow> c | None \<Rightarrow> Color_White) Level_Debug fmt vs"

definition DebugColorln :: "'v log_env \<Rightarrow> nat \<Rightarrow> string \<Rightarrow> 'v list \<Rightarrow> unit log_op" where
  "DebugColorln e l colorName vs =
     Log e l (case map_of colorByName colorName of Some c \<Rightarrow> c | None \<Rightarrow> Color_White) Level_Debug [] vs"

definition Debugf :: "'v log_env \<Rightarrow> nat \<Rightarrow> string \<Rightarrow> 'v list \<Rightarrow> unit log_op" where
  "Debugf e l fmt vs = Log e l (ColorFromLevel Level_Debug) Level_Debug fmt vs"

definition Debugln :: "'v log_env \<Rightarrow> nat \<Rightarrow> 'v list \<Rightarrow> unit log_op" where
  "Debugln e l vs = Log e l (ColorFromLevel Level_Debug) Level_Debug [] vs"

definition Infof :: "'v log_env \<Rightarrow> nat \<Rightarrow> string \<Rightarrow> 'v list \<Rightarrow> unit log_op" where
  "Infof e l fmt vs = Log e l (ColorFromLevel Level_Info) Level_Info fmt vs"

definition Infoln :: "'v log_env \<Rightarrow> nat \<Rightarrow> 'v list \<Rightarrow> unit log_op" where
  "Infoln e l vs = Log e l (ColorFromLevel Level_Info) Level_Info [] vs"

definition Warnf :: "'v log_env \<Rightarrow> nat \<Rightarrow> string \<Rightarrow> 'v list \<Rightarrow> unit log_op" where
  "Warnf e l fmt vs = Log e l (ColorFromLevel Level_Warn) Level_Warn fmt vs"

definition Warnln :: "'v log_env \<Rightarrow> nat \<Rightarrow> 'v list \<Rightarrow> unit log_op" where
  "Warnln e l vs = Log e l (ColorFromLevel Level_Warn) Level_Warn [] vs"

definition Errorf :: "'v log_env \<Rightarrow> nat \<Rightarrow> string \<Rightarrow> 'v list \<Rightarrow> unit log_op" where
  "Errorf e l fmt vs = Log e l (ColorFromLevel Level_Error) Level_Error fmt vs"

definition Errorln :: "'v log_env \<Rightarrow> nat \<Rightarrow> 'v list \<Rightarrow> unit log_op" where
  "Errorln e l vs = Log e l (ColorFromLevel Level_Error) Level_Error [] vs"

definition Fatalf :: "'v log_env \<Rightarrow> nat \<Rightarrow> string \<Rightarrow> 'v list \<Rightarrow> unit log_op" where
  "Fatalf e l fmt vs = Log e l (ColorFromLevel Level_Fatal) Level_Fatal fmt vs"

definition Fatalln :: "'v log_env \<Rightarrow> nat \<Rightarrow> 'v list \<Rightarrow> unit log_op" where
  "Fatalln e l vs = Log e l (ColorFromLevel Level_Fatal) Level_Fatal [] vs"

definition upd_logger :: "(Logger \<Rightarrow> Logger) \<Rightarrow> nat \<Rightarrow> golog \<Rightarrow> golog" where
  "upd_logger f l s = s\<lparr>loggers := (loggers s)[l := f (loggers s ! l)]\<rparr>"

definition str2loglevel :: "string \<Rightarrow> log_level" where
  "str2loglevel lv =
     (if lv = ''debug'' then Level_Debug else if lv = ''info'' then Level_Info else if lv = ''warn'' then Level_Warn
      else if lv = ''error'' then Level_Error else if lv = ''fatal'' then Level_Fatal else Level_Debug)"

definition SetLevel :: "log_level \<Rightarrow> nat \<Rightarrow> golog \<Rightarrow> golog" where
  "SetLevel lv = upd_logger (\<lambda>self. self\<lparr>level := lv\<rparr>)"

definition logger_SetLevelByString :: "string \<Rightarrow> nat \<Rightarrow> golog \<Rightarrow> golog" where
  "logger_SetLevelByString lv = SetLevel (str2loglevel lv)"

definition logger_SetPanicLevelByString :: "string \<Rightarrow> nat \<Rightarrow> golog \<Rightarrow> golog" where
  "logger_SetPanicLevelByString lv = upd_logger (\<lambda>self. self\<lparr>panicLevel := str2loglevel lv\<rparr>)"

definition logger_SetColorFile :: "ColorFile \<Rightarrow> nat \<Rightarrow> golog \<Rightarrow> golog" where
  "logger_SetColorFile cf = upd_logger (\<lambda>self. self\<lparr>colorFile := Some cf\<rparr>)"

definition IsDebugEnabled :: "nat \<Rightarrow> golog \<Rightarrow> bool" where
  "IsDebugEnabled l s \<longleftrightarrow> level (loggers s ! l) = Level_Debug"

section \<open>The table of loggers\<close>

text \<open>A duplicate name panics with the guard held; the entry point \<^verbatim>\<open>New\<close> returns the logger's address.\<close>

definition add_logger :: "nat \<Rightarrow> unit log_op" where
  "add_logger l s =
     (if guard s then (Panic Blocked, s)
      else
        let n = name (loggers s ! l) in
        if map_of (logMap s) n \<noteq> None
        then (Panic (Explicit (''duplicate logger name:'' @ n)), s\<lparr>guard := True\<rparr>)
        else (Ok (), s\<lparr>logMap := (n, l) # logMap s\<rparr>))"

definition new_logger :: "string \<Rightarrow> Logger" where
  "new_logger n =
     \<lparr>flag = LstdFlags, level = Level_Debug, panicLevel = Level_Fatal, enableColor = False, name = n,
      colorFile = None, fileOutput = None\<rparr>"

definition New :: "string \<Rightarrow> nat log_op" where
  "New n s =
     (let l = length (loggers s);
          (r, s1) = add_logger l (s\<lparr>loggers := loggers s @ [new_logger n]\<rparr>)
      in (bind_go r (\<lambda>_. Ok l), s1))"

text \<open>A callback gets a logger and says whether to go on.\<close>

type_synonym log_callback = "nat \<Rightarrow> golog \<Rightarrow> bool \<times> golog"

fun visit_each :: "log_callback \<Rightarrow> nat list \<Rightarrow> golog \<Rightarrow> golog" where
  "visit_each callback [] s = s"
| "visit_each callback (l # ls) s =
     (let (go_on, s1) = callback l s in if go_on then visit_each callback ls s1 else s1)"

text \<open>\<open>order\<close> has the loggers in the order in which the range over the map delivers them.\<close>

definition VisitLogger :: "nat list \<Rightarrow> string \<Rightarrow> log_callback \<Rightarrow> unit log_op" where
  "VisitLogger order n callback s =
     (if guard s then (Panic Blocked, s)
      else if n = ''*'' then (Ok (), visit_each callback order s)
      else
        case map_of (logMap s) n of
          None \<Rightarrow> (Err ''logger not found'', s)
        | Some l \<Rightarrow> (Ok (), snd (callback l s)))"

definition SetLevelByString :: "nat list \<Rightarrow> string \<Rightarrow> string \<Rightarrow> unit log_op" where
  "SetLevelByString order n lv = VisitLogger order n (\<lambda>l s. (True, logger_SetLevelByString lv l s))"

definition SetPanicLevelByString :: "nat list \<Rightarrow> string \<Rightarrow> string \<Rightarrow> unit log_op" where
  "SetPanicLevelByString order n lv = VisitLogger order n (\<lambda>l s. (True, logger_SetPanicLevelByString lv l s))"

definition SetColorDefine :: "unmarshal \<Rightarrow> (string \<Rightarrow> string) \<Rightarrow> nat list \<Rightarrow> string \<Rightarrow> string \<Rightarrow> unit log_op" where
  "SetColorDefine json wide order n jsonFormat s =
     (case Load json wide jsonFormat of
        Ok cf \<Rightarrow> VisitLogger order n (\<lambda>l s. (True, logger_SetColorFile cf l s)) s
      | Err x \<Rightarrow> (Err x, s)
      | Panic q \<Rightarrow> (Panic q, s))"

text \<open>Reading a file and opening one: the content or the error, the file or the error.\<close>

definition SetColorFile ::
    "(string \<Rightarrow> (string, string) go) \<Rightarrow> unmarshal \<Rightarrow> (string \<Rightarrow> string) \<Rightarrow> nat list \<Rightarrow> string \<Rightarrow> string \<Rightarrow> unit log_op" where
  "SetColorFile ReadFile json wide order n colorFileName s =
     (case ReadFile colorFileName of
        Ok data \<Rightarrow> SetColorDefine json wide order n data s
      | Err x \<Rightarrow> (Err x, s)
      | Panic q \<Rightarrow> (Panic q, s))"

definition EnableColorLogger :: "nat list \<Rightarrow> string \<Rightarrow> bool \<Rightarrow> unit log_op" where
  "EnableColorLogger order n enable = VisitLogger order n (\<lambda>l s. (True, upd_logger (\<lambda>self. self\<lparr>enableColor := enable\<rparr>) l s))"

definition SetOutputLogger :: "(string \<Rightarrow> (string, string) go) \<Rightarrow> nat list \<Rightarrow> string \<Rightarrow> string \<Rightarrow> unit log_op" where
  "SetOutputLogger OpenFile order n filename s =
     (case OpenFile filename of
        Ok f \<Rightarrow> VisitLogger order n (\<lambda>l s. (True, upd_logger (\<lambda>self. self\<lparr>fileOutput := Some f\<rparr>) l s)) s
      | Err x \<Rightarrow> (Err x, s)
      | Panic q \<Rightarrow> (Panic q, s))"

definition ClearAll :: "unit log_op" where
  "ClearAll s = (if guard s then (Panic Blocked, s) else (Ok (), s\<lparr>logMap := []\<rparr>))"

end
