(* ===== verification/Golog_Lines.thy ===== *)
theory Golog_Lines
  imports Golog
begin

text \<open>
  The lines of the loggers: padded numbers, the header, what one call of \<^verbatim>\<open>Log\<close> writes, and the states
  that the calls of the package reach, in which logging panics only where it is told to.
\<close>

section \<open>Padded numbers\<close>

lemma digit_char_0 [simp]: "digit_char 0 = CHR ''0''"
  by code_simp

definition padded :: "nat \<Rightarrow> int \<Rightarrow> string" where
  "padded u wid = (let d = show_nat u in replicate (nat wid - length d) (CHR ''0'') @ d)"

lemma length_show_nat: "u < 10 ^ k \<Longrightarrow> 0 < k \<Longrightarrow> length (show_nat u) \<le> k"
proof (induction k arbitrary: u)
  case (Suc k)
  show ?case
  proof (cases "u < 10")
    case False
    with Suc.prems have "u div 10 < 10 ^ k" "0 < k" by (auto simp: div_less_iff_less_mult mult.commute intro: gr0I)
    with Suc.IH [of "u div 10"] False show ?thesis by (simp add: show_nat.simps [of u])
  qed (simp add: show_nat.simps)
qed simp

lemma pad_loop_zero: "length b + nat wid \<le> 32 \<Longrightarrow> pad_loop 0 wid b = Ok (replicate (nat wid) (CHR ''0'') @ b)"
proof (induction "nat wid" arbitrary: wid b)
  case (Suc n)
  then have "n = nat (wid - 1)" "0 < wid" "length b \<noteq> 32" "nat wid = Suc (nat (wid - 1))" by auto
  with Suc.hyps(1) [of "wid - 1" "digit_char 0 # b"] Suc.prems show ?case
    by (subst pad_loop.simps) (simp add: replicate_app_Cons_same)
qed (subst pad_loop.simps, simp)

lemma pad_loop_padded:
  "0 < u \<Longrightarrow> length b + max (nat wid) (length (show_nat u)) \<le> 32 \<Longrightarrow> pad_loop u wid b = Ok (padded u wid @ b)"
proof (induction u arbitrary: wid b rule: less_induct)
  case (less u)
  have pos: "0 < length (show_nat u)" by simp
  with less.prems have eq: "pad_loop u wid b = pad_loop (u div 10) (wid - 1) (digit_char (u mod 10) # b)"
    by (subst pad_loop.simps) auto
  show ?case
  proof (cases "u < 10")
    case True
    with less.prems have "pad_loop 0 (wid - 1) (digit_char u # b) = Ok (replicate (nat (wid - 1)) (CHR ''0'') @ digit_char u # b)"
      by (intro pad_loop_zero) (simp add: show_nat.simps [of u])
    with True show ?thesis by (simp add: eq padded_def show_nat.simps [of u] nat_diff_distrib' Let_def)
  next
    case False
    then have s: "show_nat u = show_nat (u div 10) @ [digit_char (u mod 10)]" by (simp add: show_nat.simps [of u])
    with less.prems have "length (digit_char (u mod 10) # b) + max (nat (wid - 1)) (length (show_nat (u div 10))) \<le> 32" by auto
    with False less.IH [of "u div 10" "digit_char (u mod 10) # b" "wid - 1"] show ?thesis
      by (simp add: eq padded_def s Let_def)
  qed
qed

lemma pad_itoa_padded:
  assumes "wid \<le> 32"
  shows "pad_itoa i wid = Ok (padded (nat (i mod 2 ^ 64)) wid)"
proof -
  let ?u = "nat (i mod 2 ^ 64)"
  have "i mod 2 ^ 64 < 10 ^ 20" by (rule less_trans [OF pos_mod_bound]) simp_all
  then have "length (show_nat ?u) \<le> 20" by (intro length_show_nat) (simp_all add: nat_less_iff)
  moreover have "padded 0 wid = (if wid \<le> 1 then ''0'' else replicate (nat wid) (CHR ''0''))"
  proof (cases "wid \<le> 1")
    case False
    then have "nat wid = Suc (nat wid - 1)" by simp
    then have "replicate (nat wid) (CHR ''0'') = replicate (nat wid - 1) (CHR ''0'') @ ''0''"
      by (metis replicate_Suc replicate_app_Cons_same append_Nil2)
    with False show ?thesis by (simp add: padded_def show_nat.simps [of 0])
  qed (simp add: padded_def show_nat.simps [of 0])
  ultimately show ?thesis
    using assms pad_loop_padded [of ?u "[]" wid] pad_loop_zero [of "[]" wid]
    by (cases "?u = 0") (simp_all add: pad_itoa_def Let_def)
qed

section \<open>The header\<close>

lemma append_all_Ok: "append_all (map Ok ps) = Ok (concat ps)"
  by (induction ps) simp_all

lemma append_all_append:
  "append_all (ps @ qs) = bind_go (append_all ps) (\<lambda>s. bind_go (append_all qs) (\<lambda>t. Ok (s @ t)))"
  by (induction ps) (simp_all add: bind_go_assoc)

lemma append_all_is_ok: "is_ok (append_all ps) \<longleftrightarrow> list_all is_ok ps"
proof (induction ps)
  case (Cons p ps)
  then show ?case by (cases p; cases "append_all ps") auto
qed simp

lemma formatHeader_ok: "\<exists>h. formatHeader flg t file line = Ok h"
  unfolding is_ok_iff [symmetric] formatHeader_def append_all_is_ok by (auto simp: pad_itoa_padded)

lemma digits_value_zeros: "digits_value 0 (replicate k (CHR ''0'') @ s) = digits_value 0 s"
  by (induction k) (simp_all add: is_digit_def)

lemma parse_padded: "parse_digits (padded u wid) = Some u"
  by (simp add: padded_def parse_digits_def Let_def digits_value_zeros digits_value_show_nat)

lemma length_padded: "u < 10 ^ k \<Longrightarrow> 0 < k \<Longrightarrow> length (padded u (int k)) = k"
  using length_show_nat [of u k] by (simp add: padded_def Let_def)

text \<open>The fields of a header as written by a new logger.\<close>

definition header_fields :: "string \<Rightarrow> nat option list" where
  "header_fields h =
     map parse_digits [take 4 (drop 1 h), take 2 (drop 6 h), take 2 (drop 9 h), take 2 (drop 12 h), take 2 (drop 15 h), take 2 (drop 18 h)]"

definition proper_time :: "log_time \<Rightarrow> bool" where
  "proper_time t \<longleftrightarrow> 0 \<le> year t \<and> year t < 10000 \<and> list_all (\<lambda>x. 0 \<le> x \<and> x < 100) [month t, day t, hour t, minute t, second t]"

text \<open>
  The header of a new logger has a fixed width, and date and time are read back from it.
\<close>

theorem header_round_trip:
  assumes "proper_time t"
  shows "\<exists>h. formatHeader LstdFlags t file line = Ok h \<and> length h = 21
    \<and> header_fields h = map (\<lambda>x. Some (nat x)) [year t, month t, day t, hour t, minute t, second t]"
proof -
  have two: "pad_itoa x 2 = Ok (padded (nat x) 2)" "length (padded (nat x) 2) = 2" if "0 \<le> x" "x < 100" for x
    using that pad_itoa_padded [of 2 x] length_padded [of "nat x" 2] by (simp_all add: nat_less_iff)
  have four: "pad_itoa (year t) 4 = Ok (padded (nat (year t)) 4)" "length (padded (nat (year t)) 4) = 4"
    using assms pad_itoa_padded [of 4 "year t"] length_padded [of "nat (year t)" 4] by (simp_all add: proper_time_def nat_less_iff)
  have std: "LstdFlags = 3" by simp
  show ?thesis
    using assms by (simp add: std formatHeader_def two four proper_time_def header_fields_def parse_padded)
qed

lemma header_round_trip_witness:
  "\<exists>h. formatHeader LstdFlags \<lparr>year = 2017, month = 6, day = 30, hour = 23, minute = 5, second = 9, nanosecond = 0\<rparr> [] 0 = Ok h
     \<and> header_fields h = [Some 2017, Some 6, Some 30, Some 23, Some 5, Some 9]"
  using header_round_trip [of "\<lparr>year = 2017, month = 6, day = 30, hour = 23, minute = 5, second = 9, nanosecond = 0\<rparr>" "[]" 0]
  by (auto simp: proper_time_def)

section \<open>One call of Log\<close>

definition colors_ok :: "Logger \<Rightarrow> bool" where
  "colors_ok self \<longleftrightarrow> (\<forall>cf. colorFile self = Some cf \<longrightarrow> list_all (\<lambda>r. 0 \<le> cm_c r \<and> cm_c r \<le> 8) cf)"

text \<open>The line without the level, the name, the header and the text in their colour.\<close>

definition coloured :: "color \<Rightarrow> string \<Rightarrow> string" where
  "coloured c s = (if c = Color_None then s else logColorPrefix ! nat c @ s @ logColorSuffix)"

definition line_end :: "string \<Rightarrow> string" where
  "line_end text = (if text = [] \<or> last text = CHR 0x0A then [] else [CHR 0x0A])"

definition log_output :: "Logger \<Rightarrow> log_output" where
  "log_output self = (case fileOutput self of None \<Rightarrow> Stdout | Some f \<Rightarrow> LogFile f)"

definition header_of :: "'v log_env \<Rightarrow> Logger \<Rightarrow> string" where
  "header_of e self =
     (case formatHeader (flag self) (Now e) (case Caller e of Some fl \<Rightarrow> fst fl | None \<Rightarrow> ''???'')
             (case Caller e of Some fl \<Rightarrow> snd fl | None \<Rightarrow> 0) of
        Ok h \<Rightarrow> h | _ \<Rightarrow> [])"

definition log_line :: "'v log_env \<Rightarrow> Logger \<Rightarrow> color \<Rightarrow> log_level \<Rightarrow> string \<Rightarrow> string" where
  "log_line e self c lv text =
     coloured (log_color self c lv text) (levelString ! nat lv @ '' '' @ name self @ header_of e self @ text) @ line_end text"

lemma ColorFromText_range:
  "list_all (\<lambda>r. 0 \<le> cm_c r \<and> cm_c r \<le> 8) cf \<Longrightarrow> 0 \<le> ColorFromText cf text \<and> ColorFromText cf text \<le> 8"
  by (induction cf) auto

lemma log_color_range:
  "colors_ok self \<Longrightarrow> 0 \<le> c \<Longrightarrow> c \<le> 8 \<Longrightarrow> 0 \<le> log_color self c lv text \<and> log_color self c lv text \<le> 8"
  using ColorFromText_range [of "the (colorFile self)" "text"]
  by (auto simp: log_color_def colors_ok_def Let_def split: option.splits)

lemma table_at_in: "0 \<le> i \<Longrightarrow> i < int (length xs) \<Longrightarrow> table_at xs i = Ok (xs ! nat i)"
  by (simp add: table_at_def)

lemma formatHeader_no_file:
  "flg AND (Lshortfile OR Llongfile) = 0 \<Longrightarrow> formatHeader flg t file line = formatHeader flg t file' line'"
  by (simp add: formatHeader_def)

lemma Output_writes:
  assumes "0 \<le> c" "c \<le> 8"
  shows "Output e l pre text c out s =
    (Ok (), s\<lparr>log_writes := log_writes s @ [(out, coloured c (pre @ header_of e (loggers s ! l) @ text) @ line_end text)]\<rparr>)"
proof -
  let ?self = "loggers s ! l"
  have "append_all (output_parts (flag ?self) (Now e) (Caller e) pre text c)
    = Ok (coloured c (pre @ header_of e ?self @ text) @ line_end text)"
  proof -
    let ?fl = "case Caller e of Some fl \<Rightarrow> fl | None \<Rightarrow> (''???'', 0)"
    obtain h where h: "formatHeader (flag ?self) (Now e) (fst ?fl) (snd ?fl) = Ok h" using formatHeader_ok by blast
    then have head: "header_of e ?self = h" by (cases "Caller e") (simp_all add: header_of_def)
    have parts: "output_parts (flag ?self) (Now e) (Caller e) pre text c =
      (if c \<noteq> Color_None then [table_at logColorPrefix c] else [])
         @ [Ok pre, Ok h, Ok text] @ (if c \<noteq> Color_None then [Ok logColorSuffix] else []) @ (if line_end text = [] then [] else [Ok (line_end text)])"
      using h formatHeader_no_file [of "flag ?self" "Now e" "[]" 0 "fst ?fl" "snd ?fl"]
      by (cases "flag ?self AND (Lshortfile OR Llongfile) = 0") (auto simp: output_parts_def line_end_def Let_def split: option.splits prod.splits)
    show ?thesis
      using assms unfolding parts head by (simp add: table_at_in logColorPrefix_def coloured_def)
  qed
  then show ?thesis by (simp add: Output_def)
qed

lemma Log_line:
  assumes "0 \<le> lv" "lv \<le> 4" "0 \<le> c" "c \<le> 8" "colors_ok (loggers s ! l)"
  shows "Log e l c lv fmt vs s =
    (let self = loggers s ! l; text = log_text e fmt vs in
     if lv < level self then (Ok (), s)
     else (if lv \<ge> panicLevel self then Panic (Explicit text) else Ok (),
           s\<lparr>log_writes := log_writes s @ [(log_output self, log_line e self c lv text)]\<rparr>))"
proof -
  have "log_color (loggers s ! l) c lv (log_text e fmt vs) \<ge> 0" "log_color (loggers s ! l) c lv (log_text e fmt vs) \<le> 8"
    using log_color_range assms by blast+
  moreover have "table_at levelString lv = (Ok (levelString ! nat lv) :: (string, string) go)"
    using assms by (intro table_at_in) (simp_all add: levelString_def)
  ultimately show ?thesis
    unfolding Log_def Let_def
    by (cases "lv < level (loggers s ! l)") (simp_all add: Output_writes log_output_def log_line_def)
qed

text \<open>
  C28: One call of \<^verbatim>\<open>Log\<close> writes one line with one call of \<^verbatim>\<open>Write\<close>, or nothing below the level of the
  logger, and panics after that with the text, just when the panic level is reached.
\<close>

theorem Log_writes_line:
  assumes "0 \<le> lv" "lv \<le> 4" "0 \<le> c" "c \<le> 8" "colors_ok (loggers s ! l)"
  shows "Log e l c lv fmt vs s =
    (let self = loggers s ! l; text = log_text e fmt vs in
     if lv < level self then (Ok (), s)
     else (if lv \<ge> panicLevel self then Panic (Explicit text) else Ok (),
           s\<lparr>log_writes := log_writes s @ [(log_output self, log_line e self c lv text)]\<rparr>))"
  using assms by (rule Log_line)

definition sample_log :: "string log_env" where
  "sample_log =
     \<lparr>Sprintf = (\<lambda>fmt vs. fmt), Sprintln = (\<lambda>vs. go_join '' '' vs @ [CHR 0x0A]),
      Now = \<lparr>year = 2017, month = 6, day = 30, hour = 23, minute = 5, second = 9, nanosecond = 0\<rparr>, Caller = None\<rparr>"

definition sample_logger :: golog where
  "sample_logger = \<lparr>loggers = [(new_logger ''db'')\<lparr>enableColor := True\<rparr>], logMap = [(''db'', 0)], guard = False, log_writes = []\<rparr>"

lemma Log_writes_line_witness:
  "colors_ok (loggers sample_logger ! 0)
   \<and> snd (Log sample_log 0 0 Level_Warn ''late'' [] sample_logger)
     = sample_logger\<lparr>log_writes := [(Stdout, ''[WARN] db 2017/06/30 23:05:09 late'' @ [CHR 0x0A])]\<rparr>
   \<and> fst (Log sample_log 0 0 Level_Fatal ''down'' [] sample_logger) = Panic (Explicit ''down'')"
proof -
  have ok: "colors_ok (loggers sample_logger ! 0)" by (simp add: sample_logger_def new_logger_def colors_ok_def)
  moreover have "log_line sample_log (loggers sample_logger ! 0) 0 Level_Warn ''late'' = ''[WARN] db 2017/06/30 23:05:09 late'' @ [CHR 0x0A]"
    by code_simp
  ultimately show ?thesis
    using Log_writes_line [OF _ _ _ _ ok, of Level_Warn 0 sample_log "''late''" "[]"]
      Log_writes_line [OF _ _ _ _ ok, of Level_Fatal 0 sample_log "''down''" "[]"]
    by (simp add: sample_logger_def new_logger_def sample_log_def log_text_def log_output_def Let_def)
qed

end
