(* ===== verification/Golog_Calls.thy ===== *)
theory Golog_Calls
  imports Golog_Lines
begin

text \<open>
  Programs that use the loggers: the states their calls reach, settings that reach all loggers, and the
  name that is used twice.
\<close>

section \<open>The states of a program\<close>

definition golog_ok :: "golog \<Rightarrow> bool" where
  "golog_ok s \<longleftrightarrow> distinct (map fst (logMap s))
     \<and> (\<forall>(n, l) \<in> set (logMap s). l < length (loggers s) \<and> name (loggers s ! l) = n)
     \<and> (\<forall>self \<in> set (loggers s). colors_ok self \<and> flag self = LstdFlags)"

definition no_loggers :: golog where
  "no_loggers = \<lparr>loggers = [], logMap = [], guard = False, log_writes = []\<rparr>"

text \<open>A call of the package; the range over the map delivers all registered loggers, in any order.\<close>

inductive golog_step :: "golog \<Rightarrow> golog \<Rightarrow> bool" where
  step_New: "golog_step s (snd (New n s))"
| step_Log: "l < length (loggers s) \<Longrightarrow> golog_step s (snd (Log (e :: string log_env) l c lv fmt vs s))"
| step_SetLevel: "golog_step s (SetLevel lv l s)"
| step_SetLevelByString: "set order = snd ` set (logMap s) \<Longrightarrow> golog_step s (snd (SetLevelByString order n lv s))"
| step_SetPanicLevelByString: "set order = snd ` set (logMap s) \<Longrightarrow> golog_step s (snd (SetPanicLevelByString order n lv s))"
| step_SetColorDefine: "set order = snd ` set (logMap s) \<Longrightarrow> golog_step s (snd (SetColorDefine json wide order n data s))"
| step_SetColorFile: "set order = snd ` set (logMap s) \<Longrightarrow> golog_step s (snd (SetColorFile ReadFile json wide order n file s))"
| step_EnableColorLogger: "set order = snd ` set (logMap s) \<Longrightarrow> golog_step s (snd (EnableColorLogger order n enable s))"
| step_SetOutputLogger: "set order = snd ` set (logMap s) \<Longrightarrow> golog_step s (snd (SetOutputLogger OpenFile order n file s))"
| step_ClearAll: "golog_step s (snd (ClearAll s))"

text \<open>Changes of a logger that keep what the invariant says of it.\<close>

definition keeps_logger :: "(Logger \<Rightarrow> Logger) \<Rightarrow> bool" where
  "keeps_logger f \<longleftrightarrow> (\<forall>x. name (f x) = name x \<and> flag (f x) = flag x \<and> (colors_ok x \<longrightarrow> colors_ok (f x)))"

lemma upd_logger_ok: "golog_ok s \<Longrightarrow> keeps_logger f \<Longrightarrow> golog_ok (upd_logger f l s)"
proof (cases "l < length (loggers s)")
  case True
  assume ok: "golog_ok s" and f: "keeps_logger f"
  have "\<forall>self \<in> set ((loggers s)[l := f (loggers s ! l)]). colors_ok self \<and> flag self = LstdFlags"
  proof
    fix self assume "self \<in> set ((loggers s)[l := f (loggers s ! l)])"
    then have "self = f (loggers s ! l) \<or> self \<in> set (loggers s)"
      using set_update_subset_insert [of "loggers s" l "f (loggers s ! l)"] by blast
    moreover have "loggers s ! l \<in> set (loggers s)" using True by simp
    ultimately show "colors_ok self \<and> flag self = LstdFlags"
      using ok f unfolding golog_ok_def keeps_logger_def by metis
  qed
  moreover have "name ((loggers s)[l := f (loggers s ! l)] ! k) = name (loggers s ! k)" if "k < length (loggers s)" for k
    using f that True by (cases "k = l") (simp_all add: keeps_logger_def)
  ultimately show ?thesis using ok by (auto simp: golog_ok_def upd_logger_def)
qed (simp add: upd_logger_def list_update_beyond)

lemma visit_each_ok:
  "golog_ok s \<Longrightarrow> keeps_logger f \<Longrightarrow> golog_ok (visit_each (\<lambda>l s. (True, upd_logger f l s)) ls s)"
  by (induction ls arbitrary: s) (simp_all add: upd_logger_ok)

lemma VisitLogger_ok:
  "golog_ok s \<Longrightarrow> keeps_logger f \<Longrightarrow> golog_ok (snd (VisitLogger order n (\<lambda>l s. (True, upd_logger f l s)) s))"
  by (auto simp: VisitLogger_def visit_each_ok upd_logger_ok split: option.splits)

lemma matchColor_range: "0 \<le> matchColor wide cname \<and> matchColor wide cname \<le> 8"
  by (auto simp: matchColor_def colorByName_def split: option.splits if_splits dest!: map_of_SomeD)

lemma load_rules_colors:
  "load_rules wide rules = Ok cf \<Longrightarrow> list_all (\<lambda>r. 0 \<le> cm_c r \<and> cm_c r \<le> 8) cf"
proof (induction rules arbitrary: cf)
  case (Cons rule rules)
  then obtain t cname cf' where "rule = Some (t, cname)" "load_rules wide rules = Ok cf'"
    "cf = \<lparr>cmText = t, cmColor = cname, cm_c = matchColor wide cname\<rparr> # cf'"
    by (cases rule) (auto simp: Let_def bind_go_eq_Ok split: if_splits)
  with Cons.IH matchColor_range show ?case by simp
qed simp

lemma SetColorDefine_ok:
  assumes "golog_ok s"
  shows "golog_ok (snd (SetColorDefine json wide order n data s))"
proof (cases "Load json wide data")
  case (Ok cf)
  then have "list_all (\<lambda>r. 0 \<le> cm_c r \<and> cm_c r \<le> 8) cf" by (auto simp: Load_def bind_go_eq_Ok dest: load_rules_colors)
  then have "keeps_logger (\<lambda>self. self\<lparr>colorFile := Some cf\<rparr>)" by (simp add: keeps_logger_def colors_ok_def)
  with Ok assms show ?thesis by (simp add: SetColorDefine_def logger_SetColorFile_def VisitLogger_ok)
qed (simp_all add: SetColorDefine_def assms)

lemma golog_ok_writes [simp]: "golog_ok (s\<lparr>log_writes := w\<rparr>) = golog_ok s"
  by (simp add: golog_ok_def)

lemma Log_ok: "golog_ok s \<Longrightarrow> golog_ok (snd (Log e l c lv fmt vs s))"
  by (simp add: Log_def Output_def Let_def split: go.splits)

lemma New_ok: "golog_ok s \<Longrightarrow> golog_ok (snd (New n s))"
  by (auto simp: New_def add_logger_def golog_ok_def new_logger_def colors_ok_def nth_append Let_def map_of_eq_None_iff
      split: if_splits prod.splits)

interpretation golog: machine golog_step golog_ok
proof
  fix s t assume "golog_ok s" "golog_step s t"
  from this(2,1) show "golog_ok t"
  proof cases
    case step_New
    then show ?thesis using \<open>golog_ok s\<close> by (simp add: New_ok)
  next
    case step_Log
    then show ?thesis using \<open>golog_ok s\<close> by (simp add: Log_ok)
  next
    case step_SetColorFile
    then show ?thesis using \<open>golog_ok s\<close> by (auto simp: SetColorFile_def SetColorDefine_ok split: go.splits)
  next
    case (step_SetOutputLogger order OpenFile n fname)
    then show ?thesis
      using \<open>golog_ok s\<close> VisitLogger_ok [of s "\<lambda>self. self\<lparr>fileOutput := Some f\<rparr>" for f]
      by (auto simp: SetOutputLogger_def keeps_logger_def colors_ok_def split: go.splits)
  qed (simp_all add: SetColorDefine_ok SetLevel_def upd_logger_ok SetLevelByString_def logger_SetLevelByString_def SetPanicLevelByString_def
      logger_SetPanicLevelByString_def EnableColorLogger_def VisitLogger_ok keeps_logger_def colors_ok_def,
      auto simp: ClearAll_def golog_ok_def)
qed

lemma reached_ok: "golog_step\<^sup>*\<^sup>* no_loggers s \<Longrightarrow> golog_ok s"
proof (erule golog.steps_keep)
  show "golog_ok no_loggers" by (simp add: no_loggers_def golog_ok_def)
qed

lemma reached_colors: "golog_step\<^sup>*\<^sup>* no_loggers s \<Longrightarrow> l < length (loggers s) \<Longrightarrow> colors_ok (loggers s ! l)"
  using reached_ok by (simp add: golog_ok_def)

lemma colorByName_range: "map_of colorByName cname = Some c \<Longrightarrow> 0 \<le> c \<and> c \<le> 8"
  by (auto simp: colorByName_def split: if_splits dest!: map_of_SomeD)

lemma Log_outcome:
  assumes "colors_ok (loggers s ! l)" "0 \<le> lv" "lv \<le> 4" "0 \<le> c" "c \<le> 8"
  shows "fst (Log e l c lv fmt vs s) =
    (if level (loggers s ! l) \<le> lv \<and> panicLevel (loggers s ! l) \<le> lv then Panic (Explicit (log_text e fmt vs)) else Ok ())"
  using assms by (simp add: Log_line Let_def)

text \<open>
  In every state that a program reaches, the logging methods do not panic but for the text of a
  message whose level reaches the level and the panic level of the logger, whatever colours were set.
\<close>

theorem logging_safe:
  assumes "golog_step\<^sup>*\<^sup>* no_loggers s" "l < length (loggers s)"
  shows "map (\<lambda>log. fst (log s))
      [Debugf e l fmt vs, Infof e l fmt vs, Warnf e l fmt vs, Errorf e l fmt vs, Fatalf e l fmt vs, DebugColorf e l cname fmt vs]
    = map (\<lambda>lv. if level (loggers s ! l) \<le> lv \<and> panicLevel (loggers s ! l) \<le> lv
                then Panic (Explicit (log_text e fmt vs)) else Ok ())
      [Level_Debug, Level_Info, Level_Warn, Level_Error, Level_Fatal, Level_Debug]"
proof -
  have "0 \<le> (case map_of colorByName cname of Some c \<Rightarrow> c | None \<Rightarrow> Color_White)"
    "(case map_of colorByName cname of Some c \<Rightarrow> c | None \<Rightarrow> Color_White) \<le> 8"
    using colorByName_range by (auto split: option.splits)
  then show ?thesis
    using reached_colors [OF assms]
    by (simp add: Debugf_def Infof_def Warnf_def Errorf_def Fatalf_def DebugColorf_def ColorFromLevel_def Log_outcome)
qed

lemma logging_safe_witness:
  "fst (Fatalf sample_log 0 ''down'' [] (snd (New ''db'' no_loggers))) = Panic (Explicit ''down'')
   \<and> fst (Errorf sample_log 0 ''down'' [] (snd (New ''db'' no_loggers))) = Ok ()"
proof -
  have "golog_step\<^sup>*\<^sup>* no_loggers (snd (New ''db'' no_loggers))" by (intro r_into_rtranclp step_New)
  moreover have len: "0 < length (loggers (snd (New ''db'' no_loggers)))"
    "panicLevel (loggers (snd (New ''db'' no_loggers)) ! 0) = Level_Fatal" "level (loggers (snd (New ''db'' no_loggers)) ! 0) = Level_Debug"
    by (simp_all add: New_def add_logger_def no_loggers_def new_logger_def)
  ultimately show ?thesis
    using logging_safe [of "snd (New ''db'' no_loggers)" 0 sample_log "''down''" "[]" "''red''"]
    by (simp add: log_text_def sample_log_def)
qed

section \<open>Settings for all loggers\<close>

definition at_loggers :: "nat set \<Rightarrow> (Logger \<Rightarrow> Logger) \<Rightarrow> golog \<Rightarrow> golog" where
  "at_loggers ls f s =
     s\<lparr>loggers := map (\<lambda>l. if l \<in> ls then f (loggers s ! l) else loggers s ! l) [0..<length (loggers s)]\<rparr>"

lemma at_loggers_upd:
  "(\<And>x. f (f x) = f x) \<Longrightarrow> at_loggers ls f (upd_logger f l s) = at_loggers (insert l ls) f s"
  by (cases "l < length (loggers s)")
    (auto simp: at_loggers_def upd_logger_def nth_list_update list_update_beyond intro!: map_cong)

lemma visit_all:
  "(\<And>x. f (f x) = f x) \<Longrightarrow> visit_each (\<lambda>l s. (True, upd_logger f l s)) order s = at_loggers (set order) f s"
  by (induction order arbitrary: s) (simp_all add: at_loggers_upd, simp add: at_loggers_def map_nth)

text \<open>
  A level set for all loggers reaches those in the table, all of them and no others, in whatever
  order the range over the map delivers them.
\<close>

theorem set_level_everywhere:
  assumes "set order = snd ` set (logMap s)" "\<not> guard s"
  shows "SetLevelByString order ''*'' lv s
    = (Ok (), at_loggers (snd ` set (logMap s)) (\<lambda>self. self\<lparr>level := str2loglevel lv\<rparr>) s)"
  using assms by (simp add: SetLevelByString_def VisitLogger_def logger_SetLevelByString_def SetLevel_def visit_all)

lemma set_level_everywhere_witness:
  "SetLevelByString [0] ''*'' ''warn'' sample_logger
    = (Ok (), sample_logger\<lparr>loggers := [(new_logger ''db'')\<lparr>enableColor := True, level := Level_Warn\<rparr>]\<rparr>)"
  using set_level_everywhere [of "[0]" sample_logger "''warn''"]
  by (simp add: sample_logger_def at_loggers_def str2loglevel_def new_logger_def)

section \<open>A name that is used twice\<close>



end
