(* ===== verification/Golog_Threads.thy ===== *)
theory Golog_Threads
  imports Golog_Lines
begin

text \<open>
  \<^verbatim>\<open>Output\<close> called by several goroutines on one logger. The buffer is shared; the mutex is given back while
  the caller's position is looked up. A goroutine's line is the list of the parts that it appends.
\<close>

datatype output_pc = Entering | Locked | Asking | Returned | Appending nat | Written | Left

record output_state =
  mu :: "nat option"
  line_buf :: string
  done_writes :: "(nat \<times> string) list"
  pc :: "nat \<Rightarrow> output_pc"

text \<open>\<open>ask\<close> says whether the flags ask for the caller; \<open>parts g\<close> is what goroutine \<open>g\<close> appends.\<close>

inductive output_step :: "bool \<Rightarrow> (nat \<Rightarrow> string list) \<Rightarrow> output_state \<Rightarrow> output_state \<Rightarrow> bool"
  for ask :: bool and parts :: "nat \<Rightarrow> string list" where
  enter: "pc s g = Entering \<Longrightarrow> mu s = None \<Longrightarrow>
     output_step ask parts s (s\<lparr>mu := Some g, pc := (pc s)(g := if ask then Locked else Returned)\<rparr>)"
| give_back: "pc s g = Locked \<Longrightarrow>
     output_step ask parts s (s\<lparr>mu := None, pc := (pc s)(g := Asking)\<rparr>)"
| take_again: "pc s g = Asking \<Longrightarrow> mu s = None \<Longrightarrow>
     output_step ask parts s (s\<lparr>mu := Some g, pc := (pc s)(g := Returned)\<rparr>)"
| reset: "pc s g = Returned \<Longrightarrow>
     output_step ask parts s (s\<lparr>line_buf := [], pc := (pc s)(g := Appending 0)\<rparr>)"
| append_part: "pc s g = Appending k \<Longrightarrow> k < length (parts g) \<Longrightarrow>
     output_step ask parts s (s\<lparr>line_buf := line_buf s @ parts g ! k, pc := (pc s)(g := Appending (k + 1))\<rparr>)"
| write_line: "pc s g = Appending (length (parts g)) \<Longrightarrow>
     output_step ask parts s (s\<lparr>done_writes := done_writes s @ [(g, line_buf s)], pc := (pc s)(g := Written)\<rparr>)"
| leave: "pc s g = Written \<Longrightarrow>
     output_step ask parts s (s\<lparr>mu := None, pc := (pc s)(g := Left)\<rparr>)"

definition threads_start :: output_state where
  "threads_start = \<lparr>mu = None, line_buf = [], done_writes = [], pc = (\<lambda>_. Entering)\<rparr>"

definition holds_mu :: "output_pc \<Rightarrow> bool" where
  "holds_mu p \<longleftrightarrow> (case p of Entering \<Rightarrow> False | Asking \<Rightarrow> False | Left \<Rightarrow> False | _ \<Rightarrow> True)"

definition has_written :: "output_pc \<Rightarrow> bool" where
  "has_written p \<longleftrightarrow> p = Written \<or> p = Left"

definition threads_ok :: "(nat \<Rightarrow> string list) \<Rightarrow> output_state \<Rightarrow> bool" where
  "threads_ok parts s \<longleftrightarrow>
     (\<forall>g. holds_mu (pc s g) \<longleftrightarrow> mu s = Some g)
     \<and> (\<forall>g k. pc s g = Appending k \<longrightarrow> k \<le> length (parts g) \<and> line_buf s = concat (take k (parts g)))
     \<and> (\<forall>(g, line) \<in> set (done_writes s). line = concat (parts g))
     \<and> distinct (map fst (done_writes s)) \<and> (\<forall>g. g \<in> fst ` set (done_writes s) \<longleftrightarrow> has_written (pc s g))"

lemma holds_mu_simps [simp]:
  "\<not> holds_mu Entering" "holds_mu Locked" "\<not> holds_mu Asking" "holds_mu Returned" "holds_mu (Appending k)" "holds_mu Written" "\<not> holds_mu Left"
  by (simp_all add: holds_mu_def)

lemma has_written_simps [simp]:
  "\<not> has_written Entering" "\<not> has_written Locked" "\<not> has_written Asking" "\<not> has_written Returned"
  "\<not> has_written (Appending k)" "has_written Written" "has_written Left"
  by (simp_all add: has_written_def)

text \<open>A step of a goroutine that leaves the finished lines alone.\<close>

lemma threads_ok_upd:
  assumes "threads_ok parts s" "mu s = None \<or> mu s = Some g"
    and "pc t = (pc s)(g := p)" "done_writes t = done_writes s" "mu t = (if holds_mu p then Some g else None)"
    and "\<And>k. p = Appending k \<Longrightarrow> k \<le> length (parts g) \<and> line_buf t = concat (take k (parts g))"
    and "has_written p \<longleftrightarrow> has_written (pc s g)"
  shows "threads_ok parts t"
proof -
  have other: "\<not> holds_mu (pc s h)" if "h \<noteq> g" for h
    using assms(1,2) that by (auto simp: threads_ok_def)
  have "holds_mu (pc t h) \<longleftrightarrow> mu t = Some h" for h
    using other [of h] assms(3,5) by (cases "h = g") auto
  moreover have "k \<le> length (parts h) \<and> line_buf t = concat (take k (parts h))" if "pc t h = Appending k" for h k
    using that other [of h] assms(3,6) by (cases "h = g") auto
  moreover have "h \<in> fst ` set (done_writes t) \<longleftrightarrow> has_written (pc t h)" for h
    using assms(1,3,4,7) by (simp add: threads_ok_def)
  ultimately show ?thesis using assms(1,4) by (simp add: threads_ok_def)
qed

lemma threads_write:
  assumes "threads_ok parts s" "pc s g = Appending (length (parts g))"
  shows "threads_ok parts (s\<lparr>done_writes := done_writes s @ [(g, line_buf s)], pc := (pc s)(g := Written)\<rparr>)"
proof -
  have mu: "mu s = Some g" using assms by (metis threads_ok_def holds_mu_simps(5))
  then have other: "\<not> holds_mu (pc s h)" if "h \<noteq> g" for h
    using assms(1) that by (auto simp: threads_ok_def)
  have "holds_mu (((pc s)(g := Written)) h) \<longleftrightarrow> mu s = Some h" for h
    using other [of h] mu by (cases "h = g") auto
  moreover have "((pc s)(g := Written)) h \<noteq> Appending k" for h k
    using other [of h] by (cases "h = g") auto
  moreover have "line_buf s = concat (parts g)" using assms by (auto simp: threads_ok_def)
  moreover have "g \<notin> fst ` set (done_writes s)" using assms by (simp add: threads_ok_def)
  moreover have "h \<in> fst ` set (done_writes s @ [(g, line_buf s)]) \<longleftrightarrow> has_written (((pc s)(g := Written)) h)" for h
    using assms(1) by (simp add: threads_ok_def)
  ultimately show ?thesis using assms(1) unfolding threads_ok_def by simp
qed

lemma threads_keep:
  assumes "threads_ok parts s" "output_step ask parts s t"
  shows "threads_ok parts t"
proof -
  have held: "mu s = Some g" if "holds_mu (pc s g)" for g using assms(1) that by (simp add: threads_ok_def)
  note upd = threads_ok_upd [OF assms(1)]
  from assms(2) show ?thesis
  proof cases
    case (enter g)
    then show ?thesis using upd [where g = g and p = "if ask then Locked else Returned" and t = t] by (cases ask) simp_all
  next
    case (give_back g)
    then show ?thesis using held [of g] upd [where g = g and p = Asking and t = t] by simp
  next
    case (take_again g)
    then show ?thesis using upd [where g = g and p = Returned and t = t] by simp
  next
    case (reset g)
    then show ?thesis using held [of g] upd [where g = g and p = "Appending 0" and t = t] by simp
  next
    case (append_part g k)
    then have "line_buf s = concat (take k (parts g))" using assms(1) by (simp add: threads_ok_def)
    with append_part show ?thesis
      using held [of g] upd [where g = g and p = "Appending (k + 1)" and t = t] by (simp add: take_Suc_conv_app_nth)
  next
    case (write_line g)
    then show ?thesis using threads_write [OF assms(1)] by simp
  next
    case (leave g)
    then show ?thesis using held [of g] upd [where g = g and p = Left and t = t] by simp
  qed
qed

interpretation threads: machine "output_step ask parts" "threads_ok parts" for ask parts
  by unfold_locales (rule threads_keep)

lemma threads_reached: "(output_step ask parts)\<^sup>*\<^sup>* threads_start s \<Longrightarrow> threads_ok parts s"
proof (erule threads.steps_keep)
  show "threads_ok parts threads_start" by (simp add: threads_ok_def threads_start_def)
qed

lemma threads_go_on:
  assumes "threads_ok parts s" "pc s g \<noteq> Left"
  shows "\<exists>t. output_step ask parts s t"
proof -
  have moves: "\<exists>t. output_step ask parts s t" if "holds_mu (pc s h)" for h
  proof (cases "pc s h")
    case (Appending k)
    then have "k \<le> length (parts h)" using assms(1) by (simp add: threads_ok_def)
    then have "k < length (parts h) \<or> k = length (parts h)" by auto
    with Appending append_part [of s h k parts ask] write_line [of s h parts ask] show ?thesis by blast
  qed (use that give_back [of s h ask parts] reset [of s h ask parts] leave [of s h ask parts] in auto)
  show ?thesis
  proof (cases "mu s")
    case None
    with assms(1) have "\<not> holds_mu (pc s g)" by (simp add: threads_ok_def)
    with assms(2) have "pc s g = Entering \<or> pc s g = Asking" by (cases "pc s g") auto
    with None enter [of s g ask parts] take_again [of s g ask parts] show ?thesis by blast
  next
    case (Some h)
    with assms(1) have "holds_mu (pc s h)" by (simp add: threads_ok_def)
    then show ?thesis by (rule moves)
  qed
qed

text \<open>
  C30: However the goroutines interleave, each call of \<^verbatim>\<open>Write\<close> gets the whole line of one of them, the one
  that its \<^verbatim>\<open>Output\<close> would write alone, and each line once; those that have returned have written, and
  while some have not, one can go on.
\<close>

theorem whole_lines:
  assumes "(output_step (flg AND (Lshortfile OR Llongfile) \<noteq> 0) parts)\<^sup>*\<^sup>* threads_start s"
    and "\<And>g. output_parts flg (now g) (caller g) (pre g) (msg g) (c g) = map Ok (parts g)"
  shows "(\<forall>(g, line) \<in> set (done_writes s). append_all (output_parts flg (now g) (caller g) (pre g) (msg g) (c g)) = Ok line)
    \<and> distinct (map fst (done_writes s))
    \<and> (\<forall>g. pc s g = Left \<longrightarrow> g \<in> fst ` set (done_writes s))
    \<and> (\<forall>g. pc s g \<noteq> Left \<longrightarrow> (\<exists>t. output_step (flg AND (Lshortfile OR Llongfile) \<noteq> 0) parts s t))"
proof -
  note ok = threads_reached [OF assms(1)]
  have "\<forall>(g, line) \<in> set (done_writes s). line = concat (parts g)" "distinct (map fst (done_writes s))"
    "\<forall>g. pc s g = Left \<longrightarrow> g \<in> fst ` set (done_writes s)"
    using ok by (simp_all add: threads_ok_def)
  then show ?thesis using threads_go_on [OF ok] by (auto simp: assms(2) append_all_Ok)
qed

lemma appends_run:
  "pc s g = Appending k \<Longrightarrow> k \<le> length (parts g) \<Longrightarrow>
    \<exists>t. (output_step ask parts)\<^sup>*\<^sup>* s t \<and> done_writes t = done_writes s @ [(g, line_buf s @ concat (drop k (parts g)))]"
proof (induction "length (parts g) - k" arbitrary: k s)
  case 0
  then have "k = length (parts g)" by simp
  with 0 write_line [of s g parts ask] show ?case by (intro exI conjI) (rule r_into_rtranclp, auto)
next
  case (Suc n)
  let ?s = "s\<lparr>line_buf := line_buf s @ parts g ! k, pc := (pc s)(g := Appending (k + 1))\<rparr>"
  from Suc have k: "k < length (parts g)" by simp
  then have "n = length (parts g) - (k + 1)" "pc ?s g = Appending (k + 1)" "k + 1 \<le> length (parts g)" using Suc.hyps(2) by simp_all
  from Suc.hyps(1) [OF this] obtain t where
    "(output_step ask parts)\<^sup>*\<^sup>* ?s t" "done_writes t = done_writes s @ [(g, (line_buf s @ parts g ! k) @ concat (drop (k + 1) (parts g)))]"
    by auto
  with append_part [of s g k parts ask] Suc.prems(1) k show ?case
    by (intro exI [of _ t]) (simp add: converse_rtranclp_into_rtranclp flip: Cons_nth_drop_Suc)
qed

lemma whole_lines_witness:
  "\<exists>s :: output_state. done_writes s = [(7, ''[INFO] db hi'' @ [CHR 0x0A])]
     \<and> append_all (output_parts 0 (Now sample_log) None ''[INFO] db'' ''hi'' Color_None) = Ok (snd (hd (done_writes s)))"
proof -
  let ?p = "[''[INFO] db'', '' '', ''hi'', [CHR 0x0A]]"
  let ?parts = "\<lambda>_ :: nat. ?p"
  let ?s1 = "threads_start\<lparr>mu := Some 7, pc := (pc threads_start)(7 := Returned)\<rparr>"
  let ?s2 = "?s1\<lparr>line_buf := [], pc := (pc ?s1)(7 := Appending 0)\<rparr>"
  have p: "output_parts 0 (Now sample_log) None ''[INFO] db'' ''hi'' Color_None = map Ok ?p"
    by (simp add: output_parts_def formatHeader_def)
  have "output_step False ?parts threads_start ?s1" using enter [of threads_start 7 False ?parts] by (simp add: threads_start_def)
  moreover have "output_step False ?parts ?s1 ?s2" using reset [of ?s1 7 False ?parts] by simp
  moreover obtain t where "(output_step False ?parts)\<^sup>*\<^sup>* ?s2 t" "done_writes t = [(7, ''[INFO] db hi'' @ [CHR 0x0A])]"
    using appends_run [of ?s2 7 0 ?parts False] by (auto simp: threads_start_def)
  ultimately have t: "(output_step False ?parts)\<^sup>*\<^sup>* threads_start t" "done_writes t = [(7, ''[INFO] db hi'' @ [CHR 0x0A])]"
    by (meson converse_rtranclp_into_rtranclp)+
  have "append_all (output_parts 0 (Now sample_log) None ''[INFO] db'' ''hi'' Color_None) = Ok (snd (hd (done_writes t)))"
    using whole_lines [of 0 ?parts t "\<lambda>_. Now sample_log" "\<lambda>_. None" "\<lambda>_. ''[INFO] db''" "\<lambda>_. ''hi''" "\<lambda>_. Color_None"] t p by auto
  with t(2) show ?thesis by blast
qed

end
