(* ===== verification/Cellnet_Queue.thy ===== *)
theory Cellnet_Queue
  imports Go_Prelude "HOL-Library.Multiset"
begin

text \<open>
  The event queue between its goroutines (\<^verbatim>\<open>queue.go\<close>): those that post, the loops that \<^verbatim>\<open>StartLoop\<close> runs, and
  the two ends of the exit signal. The channel holds \<open>cap\<close> callbacks; a sender waits while it is full,
  and hands over directly to a loop that waits. A callback may post itself, through the same channel.
\<close>

section \<open>The goroutines and the channel\<close>

text \<open>A loop waits for a callback, or runs one that still makes the given posts; \<open>None\<close> is a nil callback.\<close>

datatype 'a loop_pc = Receiving | Running 'a "'a option list"

text \<open>
  \<open>progs\<close> has what each producer still posts. \<open>stops\<close> are the calls of \<^verbatim>\<open>StopLoop\<close> that wait, \<open>waits\<close> the calls of
  \<^verbatim>\<open>Wait\<close>, \<open>results\<close> what those returned. \<open>accepted\<close>, \<open>taken\<close> and \<open>finished\<close> record the callbacks that went into
  the channel, out of it, and ended; a callback posted by producer \<open>g\<close> is recorded with \<open>Some g\<close>.
\<close>

record 'a evQueue =
  queue :: "'a list"
  loops :: "'a loop_pc list"
  progs :: "nat \<Rightarrow> 'a option list"
  stops :: "int list"
  waits :: nat
  results :: "int list"
  crashed :: bool
  accepted :: "(nat option \<times> 'a) list"
  taken :: "'a list"
  finished :: "'a list"

text \<open>What a program does with its callbacks: the posts that one makes, and whether it ends in a panic.\<close>

record 'a behaviour =
  body :: "'a \<Rightarrow> 'a option list"
  panics :: "'a \<Rightarrow> bool"
  capturePanic :: bool

definition NewEventQueueByLen :: "(nat \<Rightarrow> 'a option list) \<Rightarrow> 'a evQueue" where
  "NewEventQueueByLen P =
     \<lparr>queue = [], loops = [], progs = P, stops = [], waits = 0, results = [], crashed = False,
      accepted = [], taken = [], finished = []\<rparr>"

definition DefaultQueueSize :: nat where
  "DefaultQueueSize = 100"

text \<open>The steps of posting and running.\<close>

inductive run_step :: "'a behaviour \<Rightarrow> nat \<Rightarrow> 'a evQueue \<Rightarrow> 'a evQueue \<Rightarrow> bool" for e cap where
  post: "\<not> crashed s \<Longrightarrow> progs s g = Some cb # r \<Longrightarrow> length (queue s) < cap \<Longrightarrow>
    run_step e cap s (s\<lparr>queue := queue s @ [cb], progs := (progs s)(g := r), accepted := accepted s @ [(Some g, cb)]\<rparr>)"
| post_nil: "\<not> crashed s \<Longrightarrow> progs s g = None # r \<Longrightarrow>
    run_step e cap s (s\<lparr>progs := (progs s)(g := r)\<rparr>)"
| hand_over: "\<not> crashed s \<Longrightarrow> progs s g = Some cb # r \<Longrightarrow> queue s = [] \<Longrightarrow> k < length (loops s) \<Longrightarrow> loops s ! k = Receiving \<Longrightarrow>
    run_step e cap s (s\<lparr>progs := (progs s)(g := r), accepted := accepted s @ [(Some g, cb)], taken := taken s @ [cb],
      loops := (loops s)[k := Running cb (body e cb)]\<rparr>)"
| take_one: "\<not> crashed s \<Longrightarrow> queue s = cb # q \<Longrightarrow> k < length (loops s) \<Longrightarrow> loops s ! k = Receiving \<Longrightarrow>
    run_step e cap s (s\<lparr>queue := q, taken := taken s @ [cb], loops := (loops s)[k := Running cb (body e cb)]\<rparr>)"
| inner_post: "\<not> crashed s \<Longrightarrow> k < length (loops s) \<Longrightarrow> loops s ! k = Running cb (Some d # r) \<Longrightarrow> length (queue s) < cap \<Longrightarrow>
    run_step e cap s (s\<lparr>queue := queue s @ [d], accepted := accepted s @ [(None, d)], loops := (loops s)[k := Running cb r]\<rparr>)"
| inner_hand_over: "\<not> crashed s \<Longrightarrow> k < length (loops s) \<Longrightarrow> loops s ! k = Running cb (Some d # r) \<Longrightarrow> queue s = [] \<Longrightarrow>
    j < length (loops s) \<Longrightarrow> loops s ! j = Receiving \<Longrightarrow>
    run_step e cap s (s\<lparr>accepted := accepted s @ [(None, d)], taken := taken s @ [d],
      loops := (loops s)[k := Running cb r, j := Running d (body e d)]\<rparr>)"
| inner_nil: "\<not> crashed s \<Longrightarrow> k < length (loops s) \<Longrightarrow> loops s ! k = Running cb (None # r) \<Longrightarrow>
    run_step e cap s (s\<lparr>loops := (loops s)[k := Running cb r]\<rparr>)"
| finish: "\<not> crashed s \<Longrightarrow> k < length (loops s) \<Longrightarrow> loops s ! k = Running cb [] \<Longrightarrow> \<not> panics e cb \<or> capturePanic e \<Longrightarrow>
    run_step e cap s (s\<lparr>loops := (loops s)[k := Receiving], finished := finished s @ [cb]\<rparr>)"
| crash: "\<not> crashed s \<Longrightarrow> k < length (loops s) \<Longrightarrow> loops s ! k = Running cb [] \<Longrightarrow> panics e cb \<Longrightarrow> \<not> capturePanic e \<Longrightarrow>
    run_step e cap s (s\<lparr>crashed := True\<rparr>)"

text \<open>The calls of the application, and the exit signal, a channel without a buffer.\<close>

inductive queue_call :: "'a evQueue \<Rightarrow> 'a evQueue \<Rightarrow> bool" where
  StartLoop: "\<not> crashed s \<Longrightarrow> queue_call s (s\<lparr>loops := loops s @ [Receiving]\<rparr>)"
| StopLoop: "\<not> crashed s \<Longrightarrow> queue_call s (s\<lparr>stops := stops s @ [r]\<rparr>)"
| Wait: "\<not> crashed s \<Longrightarrow> queue_call s (s\<lparr>waits := waits s + 1\<rparr>)"
| signal: "\<not> crashed s \<Longrightarrow> r \<in> set (stops s) \<Longrightarrow> 0 < waits s \<Longrightarrow>
    queue_call s (s\<lparr>stops := remove1 r (stops s), waits := waits s - 1, results := results s @ [r]\<rparr>)"

definition evq_step :: "'a behaviour \<Rightarrow> nat \<Rightarrow> 'a evQueue \<Rightarrow> 'a evQueue \<Rightarrow> bool" where
  "evq_step e cap s t \<longleftrightarrow> run_step e cap s t \<or> queue_call s t"

section \<open>Order and bound\<close>

definition running_callbacks :: "'a loop_pc list \<Rightarrow> 'a list" where
  "running_callbacks ls = concat (map (\<lambda>l. case l of Receiving \<Rightarrow> [] | Running cb _ \<Rightarrow> [cb]) ls)"

definition posted :: "'a option list \<Rightarrow> 'a list" where
  "posted p = concat (map (\<lambda>x. case x of None \<Rightarrow> [] | Some cb \<Rightarrow> [cb]) p)"

definition accepted_of :: "nat \<Rightarrow> 'a evQueue \<Rightarrow> 'a list" where
  "accepted_of g s = map snd (filter (\<lambda>x. fst x = Some g) (accepted s))"

definition evq_ok :: "nat \<Rightarrow> (nat \<Rightarrow> 'a option list) \<Rightarrow> 'a evQueue \<Rightarrow> bool" where
  "evq_ok cap P s \<longleftrightarrow>
     length (queue s) \<le> cap \<and> taken s @ queue s = map snd (accepted s)
     \<and> (\<forall>g. accepted_of g s @ posted (progs s g) = posted (P g))
     \<and> mset (taken s) = mset (finished s) + mset (running_callbacks (loops s))
     \<and> (length (loops s) \<le> 1 \<longrightarrow> taken s = finished s @ running_callbacks (loops s))"

definition running_in :: "'a loop_pc \<Rightarrow> 'a list" where
  "running_in l = (case l of Receiving \<Rightarrow> [] | Running cb _ \<Rightarrow> [cb])"

lemma running_simps [simp]:
  "running_callbacks [] = []" "running_callbacks (l # ls) = running_in l @ running_callbacks ls"
  "running_callbacks (ls @ ls') = running_callbacks ls @ running_callbacks ls'"
  "running_in Receiving = []" "running_in (Running cb r) = [cb]"
  by (simp_all add: running_callbacks_def running_in_def)

lemma running_update:
  assumes "k < length ls"
  shows "mset (running_callbacks (ls[k := l])) + mset (running_in (ls ! k)) = mset (running_callbacks ls) + mset (running_in l)"
    and "length ls \<le> 1 \<Longrightarrow> running_callbacks (ls[k := l]) = running_in l \<and> running_callbacks ls = running_in (ls ! k)"
proof -
  define a b where "a = take k ls" and "b = drop (Suc k) ls"
  have ls: "ls = a @ ls ! k # b" "ls[k := l] = a @ l # b"
    using assms by (simp_all add: a_def b_def id_take_nth_drop upd_conv_take_nth_drop)
  have "mset (running_callbacks ls) = mset (running_callbacks (a @ ls ! k # b))" using ls(1) by simp
  then show "mset (running_callbacks (ls[k := l])) + mset (running_in (ls ! k)) = mset (running_callbacks ls) + mset (running_in l)"
    unfolding ls(2) by simp
  assume "length ls \<le> 1"
  with assms have "k = 0" "\<exists>x. ls = [x]" by (cases ls; simp)+
  then show "running_callbacks (ls[k := l]) = running_in l \<and> running_callbacks ls = running_in (ls ! k)" by auto
qed

lemma posted_simps [simp]: "posted [] = []" "posted (None # p) = posted p" "posted (Some cb # p) = cb # posted p"
  by (simp_all add: posted_def)

lemma accepted_of_snoc [simp]:
  "accepted_of g (s\<lparr>accepted := accepted s @ [(x, cb)]\<rparr>) = accepted_of g s @ (if x = Some g then [cb] else [])"
  by (simp add: accepted_of_def)

text \<open>What a step does to one loop.\<close>

lemma same_running:
  assumes "k < length ls" "running_in l = running_in (ls ! k)"
  shows "mset (running_callbacks (ls[k := l])) = mset (running_callbacks ls)"
    and "length ls \<le> 1 \<Longrightarrow> running_callbacks (ls[k := l]) = running_callbacks ls"
  using running_update [OF assms(1), of l] assms(2) by simp_all

lemma begins_running:
  assumes "k < length ls" "ls ! k = Receiving"
  shows "mset (running_callbacks (ls[k := Running cb r])) = add_mset cb (mset (running_callbacks ls))"
    and "length ls \<le> 1 \<Longrightarrow> running_callbacks (ls[k := Running cb r]) = [cb] \<and> running_callbacks ls = []"
  using running_update [OF assms(1), of "Running cb r"] assms(2) by simp_all

lemma ends_running:
  assumes "k < length ls" "ls ! k = Running cb r"
  shows "mset (running_callbacks ls) = add_mset cb (mset (running_callbacks (ls[k := Receiving])))"
    and "length ls \<le> 1 \<Longrightarrow> running_callbacks (ls[k := Receiving]) = [] \<and> running_callbacks ls = [cb]"
  using running_update [OF assms(1), of Receiving] assms(2) by simp_all

lemma producer:
  "evq_ok cap P s \<Longrightarrow> progs s g = p \<Longrightarrow> map snd (filter (\<lambda>x. fst x = Some g) (accepted s)) @ posted p = posted (P g)"
  unfolding evq_ok_def accepted_of_def by blast

lemma evq_keeps_run:
  assumes "evq_ok cap P s" "run_step e cap s t"
  shows "evq_ok cap P t"
  using assms(2)
proof cases
  case (post g cb r)
  with assms(1) producer [OF assms(1) post(3)] show ?thesis by (auto simp: evq_ok_def accepted_of_def)
next
  case (post_nil g r)
  with assms(1) producer [OF assms(1) post_nil(3)] show ?thesis by (auto simp: evq_ok_def accepted_of_def)
next
  case (hand_over g cb r k)
  with assms(1) producer [OF assms(1) hand_over(3)] begins_running [OF hand_over(5,6), of cb "body e cb"] show ?thesis by (auto simp: evq_ok_def accepted_of_def)
next
  case (take_one cb q k)
  with assms(1) begins_running [OF take_one(4,5), of cb "body e cb"] show ?thesis by (auto simp: evq_ok_def accepted_of_def)
next
  case (inner_post k cb d r)
  with assms(1) same_running [OF inner_post(3), of "Running cb r"] show ?thesis by (auto simp: evq_ok_def accepted_of_def)
next
  case (inner_hand_over k cb d r j)
  then have "j \<noteq> k" by auto
  with inner_hand_over have "j < length ((loops s)[k := Running cb r])" "(loops s)[k := Running cb r] ! j = Receiving" by simp_all
  note begins_running [OF this, of d "body e d"]
  moreover have "\<not> length (loops s) \<le> 1" using inner_hand_over \<open>j \<noteq> k\<close> by auto
  ultimately show ?thesis using assms(1) inner_hand_over same_running [OF inner_hand_over(3), of "Running cb r"] 
    by (auto simp: evq_ok_def accepted_of_def)
next
  case (inner_nil k cb r)
  with assms(1) same_running [OF inner_nil(3), of "Running cb r"] show ?thesis by (auto simp: evq_ok_def accepted_of_def)
next
  case (finish k cb)
  with assms(1) ends_running [OF finish(3,4)] show ?thesis by (auto simp: evq_ok_def accepted_of_def)
next
  case (crash k cb)
  with assms(1) show ?thesis by (auto simp: evq_ok_def accepted_of_def)
qed

lemma evq_keeps:
  assumes "evq_ok cap P s" "evq_step e cap s t"
  shows "evq_ok cap P t"
proof (cases "run_step e cap s t")
  case False
  with assms(2) have "queue_call s t" by (simp add: evq_step_def)
  then show ?thesis by cases (use assms(1) in \<open>auto simp: evq_ok_def accepted_of_def\<close>)
qed (use assms(1) evq_keeps_run in blast)

interpretation evq: machine "evq_step e cap" "evq_ok cap P" for e cap P
  by unfold_locales (rule evq_keeps)

lemma evq_reached: "(evq_step e cap)\<^sup>*\<^sup>* (NewEventQueueByLen P) s \<Longrightarrow> evq_ok cap P s"
proof (erule evq.steps_keep)
  show "evq_ok cap P (NewEventQueueByLen P)" by (simp add: evq_ok_def NewEventQueueByLen_def accepted_of_def)
qed

text \<open>
  C31: The channel never holds more than its capacity. Callbacks leave it in the order in which they
  were accepted, those of one producer in the order of its posts, none lost and none twice; with one
  loop they also end in that order.
\<close>

theorem queue_order:
  assumes "(evq_step e cap)\<^sup>*\<^sup>* (NewEventQueueByLen P) s"
  shows "length (queue s) \<le> cap \<and> taken s @ queue s = map snd (accepted s)
    \<and> (\<forall>g. accepted_of g s @ posted (progs s g) = posted (P g))
    \<and> mset (taken s) = mset (finished s) + mset (running_callbacks (loops s))
    \<and> (if length (loops s) \<le> 1 then taken s = finished s @ running_callbacks (loops s) else True)"
  using evq_reached [OF assms] by (simp add: evq_ok_def)

section \<open>All posts are run\<close>

text \<open>Callbacks that post nothing and do not end the program.\<close>

definition harmless :: "'a behaviour \<Rightarrow> bool" where
  "harmless e \<longleftrightarrow> (\<forall>cb. list_all (\<lambda>x. x = None) (body e cb) \<and> (\<not> panics e cb \<or> capturePanic e))"

definition harmless_ok :: "nat \<Rightarrow> 'a evQueue \<Rightarrow> bool" where
  "harmless_ok N s \<longleftrightarrow> \<not> crashed s \<and> (\<forall>g \<ge> N. progs s g = [])
     \<and> (\<forall>l \<in> set (loops s). case l of Receiving \<Rightarrow> True | Running _ r \<Rightarrow> list_all (\<lambda>x. x = None) r)"

lemma harmless_update:
  "harmless_ok N s \<Longrightarrow> (case l of Receiving \<Rightarrow> True | Running _ r \<Rightarrow> list_all (\<lambda>x. x = None) r) \<Longrightarrow> m \<in> set ((loops s)[k := l]) \<Longrightarrow>
    (case m of Receiving \<Rightarrow> True | Running _ r \<Rightarrow> list_all (\<lambda>x. x = None) r)"
  using set_update_subset_insert [of "loops s" k l] by (auto simp: harmless_ok_def)

lemma harmless_loop:
  "harmless_ok N s \<Longrightarrow> k < length (loops s) \<Longrightarrow> loops s ! k = Running cb r \<Longrightarrow> list_all (\<lambda>x. x = None) r"
  unfolding harmless_ok_def by (metis loop_pc.case(2) nth_mem)

lemma harmless_keeps_run:
  assumes "harmless e" "harmless_ok N s" "run_step e cap s t"
  shows "harmless_ok N t"
proof -
  have body: "list_all (\<lambda>x. x = None) (body e cb)" for cb using assms(1) by (simp add: harmless_def)
  have N: "g < N" if "progs s g \<noteq> []" for g using assms(2) that by (metis not_less harmless_ok_def)
  note loop = harmless_loop [OF assms(2)] and upd = harmless_update [OF assms(2)]
  from assms(3) show ?thesis
  proof cases
    case (post g cb r)
    then show ?thesis using assms(2) N [of g] by (auto simp: harmless_ok_def)
  next
    case (post_nil g r)
    then show ?thesis using assms(2) N [of g] by (auto simp: harmless_ok_def)
  next
    case (hand_over g cb r k)
    then show ?thesis using assms(2) N [of g] upd [of "Running cb (body e cb)"] body by (auto simp: harmless_ok_def)
  next
    case (take_one cb q k)
    then show ?thesis using assms(2) upd [of "Running cb (body e cb)"] body by (auto simp: harmless_ok_def)
  next
    case (inner_nil k cb r)
    then show ?thesis using assms(2) loop [of k cb "None # r"] upd [of "Running cb r"] by (auto simp: harmless_ok_def)
  next
    case (finish k cb)
    then show ?thesis using assms(2) upd [of Receiving] by (auto simp: harmless_ok_def)
  next
    case (crash k cb)
    then show ?thesis using assms(1) by (auto simp: harmless_def)
  qed (use loop in fastforce)+
qed

lemma harmless_reached:
  assumes "harmless e" "\<forall>g \<ge> N. P g = []" "(evq_step e cap)\<^sup>*\<^sup>* (NewEventQueueByLen P) s"
  shows "harmless_ok N s"
  using assms(3)
proof (induction rule: rtranclp_induct)
  case base
  with assms(2) show ?case by (simp add: harmless_ok_def NewEventQueueByLen_def)
next
  case (step s t)
  show ?case
  proof (cases "run_step e cap s t")
    case False
    with step have "queue_call s t" by (simp add: evq_step_def)
    then show ?thesis by cases (use step in \<open>auto simp: harmless_ok_def\<close>)
  qed (use step harmless_keeps_run [OF assms(1)] in blast)
qed

text \<open>The steps that a state still has before it.\<close>

fun post_work :: "'a behaviour \<Rightarrow> 'a option list \<Rightarrow> nat" where
  "post_work e [] = 0"
| "post_work e (None # p) = 1 + post_work e p"
| "post_work e (Some cb # p) = 3 + length (body e cb) + post_work e p"

definition loop_work :: "'a loop_pc \<Rightarrow> nat" where
  "loop_work l = (case l of Receiving \<Rightarrow> 0 | Running _ r \<Rightarrow> 1 + length r)"

definition work :: "nat \<Rightarrow> 'a behaviour \<Rightarrow> 'a evQueue \<Rightarrow> nat" where
  "work N e s = (\<Sum>g < N. post_work e (progs s g)) + sum_list (map (\<lambda>cb. 2 + length (body e cb)) (queue s))
     + sum_list (map loop_work (loops s))"

lemma post_work_update:
  fixes N :: nat
  assumes "g < N"
  shows "(\<Sum>h < N. post_work e ((p(g := r)) h)) + post_work e (p g) = (\<Sum>h < N. post_work e (p h)) + post_work e r"
proof -
  have "(\<Sum>h < N. f h) = f g + (\<Sum>h \<in> {..<N} - {g}. f h)" for f :: "nat \<Rightarrow> nat"
    using assms by (simp add: sum.remove)
  from this [of "\<lambda>h. post_work e ((p(g := r)) h)"] this [of "\<lambda>h. post_work e (p h)"] show ?thesis by simp
qed

lemma loop_work_update:
  assumes "k < length ls"
  shows "sum_list (map loop_work (ls[k := l])) + loop_work (ls ! k) = sum_list (map loop_work ls) + loop_work l"
proof -
  have "ls = take k ls @ ls ! k # drop (Suc k) ls" "ls[k := l] = take k ls @ l # drop (Suc k) ls"
    using assms by (simp_all add: id_take_nth_drop upd_conv_take_nth_drop)
  then have "sum_list (map loop_work ls) = sum_list (map loop_work (take k ls)) + (loop_work (ls ! k) + sum_list (map loop_work (drop (Suc k) ls)))"
    "sum_list (map loop_work (ls[k := l])) = sum_list (map loop_work (take k ls)) + (loop_work l + sum_list (map loop_work (drop (Suc k) ls)))"
    by (metis list.simps(9) map_append sum_list.Cons sum_list_append)+
  then show ?thesis by simp
qed

lemma work_decreases:
  assumes "harmless e" "harmless_ok N s" "run_step e cap s t"
  shows "work N e t < work N e s"
proof -
  have N: "g < N" if "progs s g \<noteq> []" for g using assms(2) that by (metis not_less harmless_ok_def)
  note loop = harmless_loop [OF assms(2)]
  note posts = post_work_update [of _ N e "progs s"] and ls = loop_work_update [of _ "loops s"]
  from assms(3) show ?thesis
  proof cases
    case (post g cb r)
    then show ?thesis using posts [OF N, of g r] by (simp add: work_def)
  next
    case (post_nil g r)
    then show ?thesis using posts [OF N, of g r] by (simp add: work_def)
  next
    case (hand_over g cb r k)
    then show ?thesis using posts [OF N, of g r] ls [of k "Running cb (body e cb)"] by (simp add: work_def  loop_work_def)
  next
    case (take_one cb q k)
    then show ?thesis using ls [of k "Running cb (body e cb)"] by (simp add: work_def loop_work_def)
  next
    case (inner_nil k cb r)
    then show ?thesis using ls [of k "Running cb r"] by (simp add: work_def loop_work_def)
  next
    case (finish k cb)
    then show ?thesis using ls [of k Receiving] by (simp add: work_def loop_work_def)
  next
    case (crash k cb)
    then show ?thesis using assms(1) by (auto simp: harmless_def)
  qed (use loop in fastforce)+
qed

lemma stuck_done:
  assumes "harmless e" "harmless_ok N s" "loops s \<noteq> []" "\<not> (\<exists>t. run_step e cap s t)"
  shows "queue s = [] \<and> (\<forall>g. progs s g = []) \<and> running_callbacks (loops s) = []"
proof -
  have up: "\<not> crashed s" using assms(2) by (simp add: harmless_ok_def)
  have idle: "loops s ! k = Receiving" if k: "k < length (loops s)" for k
  proof (cases "loops s ! k")
    case (Running cb r)
    show ?thesis
    proof (cases r)
      case Nil
      with Running k up assms(1,4) finish [of s k cb e cap] show ?thesis by (auto simp: harmless_def)
    next
      case (Cons x r')
      with harmless_loop [OF assms(2) k Running] have "loops s ! k = Running cb (None # r')" using Running by simp
      with k up assms(4) inner_nil [of s k cb r' e cap] show ?thesis by blast
    qed
  qed
  then have zero: "0 < length (loops s)" "loops s ! 0 = Receiving" using assms(3) by simp_all
  have q: "queue s = []"
  proof (cases "queue s")
    case (Cons cb q)
    with take_one [OF up Cons zero, of e cap] assms(4) show ?thesis by blast
  qed
  have "progs s g = []" for g
  proof (cases "progs s g")
    case (Cons x r)
    show ?thesis
    proof (cases x)
      case None
      with Cons post_nil [of s g r e cap] up assms(4) show ?thesis by blast
    next
      case (Some cb)
      with Cons hand_over [of s g cb r 0 e cap] up q zero assms(4) show ?thesis by blast
    qed
  qed
  moreover have "\<forall>l \<in> set (loops s). l = Receiving" using idle by (metis in_set_conv_nth)
  then have "running_callbacks (loops s) = []" by (auto simp: running_callbacks_def)
  ultimately show ?thesis using q by blast
qed

lemma run_invariant:
  "(run_step e cap ^^ n) s t \<Longrightarrow> harmless e \<Longrightarrow> harmless_ok N s \<Longrightarrow>
    harmless_ok N t \<and> length (loops t) = length (loops s) \<and> work N e t + n \<le> work N e s \<and> (evq_step e cap)\<^sup>*\<^sup>* s t"
proof (induction n arbitrary: t)
  case (Suc n)
  then obtain u where u: "(run_step e cap ^^ n) s u" "run_step e cap u t" by auto
  with Suc have IH: "harmless_ok N u" "length (loops u) = length (loops s)" "work N e u + n \<le> work N e s" "(evq_step e cap)\<^sup>*\<^sup>* s u"
    by blast+
  have "length (loops t) = length (loops u)" using u(2) by cases simp_all
  moreover have "(evq_step e cap)\<^sup>*\<^sup>* s t" using IH(4) u(2) by (meson evq_step_def rtranclp.rtrancl_into_rtrancl)
  moreover note harmless_keeps_run [OF Suc.prems(2) IH(1) u(2)] work_decreases [OF Suc.prems(2) IH(1) u(2)]
  ultimately show ?case using IH by simp
qed simp

text \<open>
  C32: With a loop running, when finitely many producers post callbacks that post nothing themselves and
  do not end the program, every run of posting and taking comes to an end, and then each post of each
  producer has been run, whatever the capacity of the channel.
\<close>

theorem queue_drains:
  assumes "harmless e" "\<forall>g \<ge> N. P g = []" "(evq_step e cap)\<^sup>*\<^sup>* (NewEventQueueByLen P) s" "loops s \<noteq> []"
    and "(run_step e cap ^^ n) s t"
  shows "n \<le> work N e s \<and>
    ((\<exists>u. run_step e cap t u)
     \<or> (\<forall>g. accepted_of g t = posted (P g)) \<and> queue t = [] \<and> mset (finished t) = mset (map snd (accepted t)))"
proof -
  note inv = run_invariant [OF assms(5,1) harmless_reached [OF assms(1-3)]]
  then have "(evq_step e cap)\<^sup>*\<^sup>* (NewEventQueueByLen P) t" using assms(3) by (meson rtranclp_trans)
  then have ok: "evq_ok cap P t" by (rule evq_reached)
  have "loops t \<noteq> []" using inv assms(4) by auto
  show ?thesis
  proof (cases "\<exists>u. run_step e cap t u")
    case False
    with inv \<open>loops t \<noteq> []\<close> stuck_done [OF assms(1), of N t cap]
    have d: "queue t = []" "\<forall>g. progs t g = []" "running_callbacks (loops t) = []" by blast+
    with ok have "\<forall>g. accepted_of g t = posted (P g)" by (metis append_Nil2 evq_ok_def posted_simps(1))
    moreover have "mset (finished t) = mset (map snd (accepted t))"
      using ok d unfolding evq_ok_def by (metis add.right_neutral append_Nil2 mset.simps(1))
    ultimately show ?thesis using inv d by simp
  qed (use inv in simp)
qed

section \<open>A callback that posts\<close>

lemma full_stays:
  assumes "run_step e cap s t" "0 < cap" "length (queue s) = cap" "loops s = [Running cb (Some d # r)]"
  shows "queue t = queue s \<and> loops t = loops s \<and> finished t = finished s"
  using assms by cases auto

text \<open>
  When the only loop runs a callback that posts while the channel is full, nothing is run any more:
  the loop waits for itself.
\<close>

theorem self_post_blocks:
  assumes "(run_step e cap)\<^sup>*\<^sup>* s t" "0 < cap" "length (queue s) = cap" "loops s = [Running cb (Some d # r)]"
  shows "queue t = queue s \<and> loops t = loops s \<and> finished t = finished s"
  using assms(1)
proof (induction rule: rtranclp_induct)
  case (step u v)
  with full_stays [OF step.hyps(2) assms(2)] assms show ?case by simp
qed simp

section \<open>Runs\<close>

definition silent :: "nat behaviour" where
  "silent = \<lparr>body = (\<lambda>_. []), panics = (\<lambda>_. False), capturePanic = False\<rparr>"

definition echo :: "nat behaviour" where
  "echo = silent\<lparr>body := (\<lambda>cb. [Some cb, Some cb])\<rparr>"

definition one_post :: "nat \<Rightarrow> nat option list" where
  "one_post = (\<lambda>_. [])(0 := [Some 7], 1 := [None])"

definition looped :: "nat evQueue" where
  "looped = (NewEventQueueByLen one_post)\<lparr>loops := [Receiving]\<rparr>"

definition handed :: "nat behaviour \<Rightarrow> nat evQueue" where
  "handed e = looped\<lparr>progs := one_post(0 := []), accepted := [(Some 0, 7)], taken := [7], loops := [Running 7 (body e 7)]\<rparr>"

lemma looped_reached: "evq_step e cap (NewEventQueueByLen one_post) looped"
  using StartLoop [of "NewEventQueueByLen one_post"] by (simp add: evq_step_def looped_def NewEventQueueByLen_def)

lemma handed_reached: "run_step e cap looped (handed e)"
  using hand_over [of looped 0 7 "[]" 0 e cap] by (simp add: handed_def looped_def NewEventQueueByLen_def one_post_def)

lemma queue_order_witness:
  "taken (handed echo) = [7] \<and> accepted_of 0 (handed echo) @ posted (progs (handed echo) 0) = posted [Some 7]"
proof -
  have "(evq_step echo 1)\<^sup>*\<^sup>* (NewEventQueueByLen one_post) (handed echo)"
    using looped_reached [of echo 1] handed_reached [of echo 1] by (meson evq_step_def r_into_rtranclp rtranclp.rtrancl_into_rtrancl)
  from queue_order [OF this] have "accepted_of 0 (handed echo) @ posted (progs (handed echo) 0) = posted (one_post 0)" by blast
  then show ?thesis by (simp add: handed_def one_post_def)
qed

lemma queue_drains_witness:
  "\<exists>t. (run_step silent 0 ^^ 2) looped t \<and> finished t = [7] \<and> 2 \<le> work 2 silent looped"
proof -
  let ?t = "(handed silent)\<lparr>loops := [Receiving], finished := [7]\<rparr>"
  have "run_step silent 0 (handed silent) ?t"
    using finish [of "handed silent" 0 7 silent 0] by (simp add: handed_def silent_def looped_def NewEventQueueByLen_def)
  with handed_reached [of silent 0] have run: "(run_step silent 0 ^^ 2) looped ?t" by (auto simp: numeral_2_eq_2)
  have "harmless silent" by (simp add: harmless_def silent_def)
  moreover have "\<forall>g \<ge> 2. one_post g = []" by (simp add: one_post_def)
  moreover have "(evq_step silent 0)\<^sup>*\<^sup>* (NewEventQueueByLen one_post) looped" using looped_reached by (rule r_into_rtranclp)
  moreover have "loops looped \<noteq> []" by (simp add: looped_def)
  ultimately have "2 \<le> work 2 silent looped" using queue_drains [OF _ _ _ _ run, of 2 one_post] by blast
  with run show ?thesis by auto
qed

lemma self_post_blocks_witness:
  "\<exists>s t. (evq_step echo 1)\<^sup>*\<^sup>* (NewEventQueueByLen one_post) s \<and> run_step echo 1 s t \<and> loops t = [Running 7 [Some 7]] \<and> finished t = []"
proof -
  let ?s = "(handed echo)\<lparr>queue := [7], accepted := [(Some 0, 7), (None, 7)], loops := [Running 7 [Some 7]]\<rparr>"
  let ?t = "?s\<lparr>progs := (progs ?s)(1 := [])\<rparr>"
  have "run_step echo 1 (handed echo) ?s"
    using inner_post [of "handed echo" 0 7 7 "[Some 7]" 1 echo] by (simp add: handed_def echo_def silent_def looped_def NewEventQueueByLen_def)
  then have s: "(evq_step echo 1)\<^sup>*\<^sup>* (NewEventQueueByLen one_post) ?s"
    using looped_reached [of echo 1] handed_reached [of echo 1] by (meson evq_step_def r_into_rtranclp rtranclp.rtrancl_into_rtrancl)
  have t: "run_step echo 1 ?s ?t"
    using post_nil [of ?s 1 "[]" echo 1] by (simp add: handed_def looped_def NewEventQueueByLen_def one_post_def)
  have "(run_step echo 1)\<^sup>*\<^sup>* ?s ?t" using t by (rule r_into_rtranclp)
  then have "queue ?t = queue ?s \<and> loops ?t = loops ?s \<and> finished ?t = finished ?s"
    by (rule self_post_blocks) simp_all
  then have "loops ?t = [Running 7 [Some 7]] \<and> finished ?t = []" by (simp add: handed_def looped_def NewEventQueueByLen_def)
  with s t show ?thesis by blast
qed

end
