(* ===== verification/Cellnet_Wspeers.thy ===== *)
theory Cellnet_Wspeers
  imports Cellnet_Websocket Cellnet_Peers
begin

text \<open>
  Acceptors and connectors of the websocket package (\<^verbatim>\<open>websocket/acceptor.go\<close>, \<^verbatim>\<open>websocket/connector.go\<close>).
  The sessions of a peer run their rounds beside it; the HTTP server answers a request, an
  upgrade or a dial by any connection or by an error. \<^verbatim>\<open>url.Parse\<close> is a parameter: host and path, or
  \<open>None\<close> for its error. \<^verbatim>\<open>Start\<close> stores a callback in \<^verbatim>\<open>OnClose\<close> of a session, and no code calls it.
\<close>

section \<open>The sessions of a peer\<close>

text \<open>\<open>wsConns\<close> are the connections by session, \<open>wsReading\<close> the sessions whose receive thread runs.\<close>

record ws_host =
  wsNet :: net
  wsConns :: "nat \<Rightarrow> ws_conn"
  wsReading :: "nat list"

inductive ses_step :: "callbacks \<Rightarrow> chain_order \<Rightarrow> nat \<Rightarrow> ws_host \<Rightarrow> ws_host \<Rightarrow> bool" for cb ord p where
  arrive: "ses_step cb ord p h (h\<lparr>wsConns := (wsConns h)(s := (wsConns h s)\<lparr>wsIn := wsIn (wsConns h s) @ [m]\<rparr>)\<rparr>)"
| recv_turn: "s \<in> set (wsReading h) \<Longrightarrow> ws_recv_round cb ord s (wsNet h) (wsConns h s) = Ok (go_on, n, c) \<Longrightarrow>
    ses_step cb ord p h (h\<lparr>wsNet := n, wsConns := (wsConns h)(s := c),
      wsReading := (if go_on then wsReading h else remove1 s (wsReading h))\<rparr>)"
| send: "ws_Send cb s data (wsNet h) (wsConns h s) = Ok (n, c) \<Longrightarrow>
    ses_step cb ord p h (h\<lparr>wsNet := n, wsConns := (wsConns h)(s := c)\<rparr>)"
| write_out: "a \<in> set (wsPending (wsConns h s)) \<Longrightarrow> ws_write a (wsNet h) (wsConns h s) = (n, c) \<Longrightarrow>
    ses_step cb ord p h (h\<lparr>wsNet := n, wsConns := (wsConns h)(s := c)\<rparr>)"
| close: "ses_step cb ord p h (h\<lparr>wsConns := (wsConns h)(s := ws_Close (wsConns h s))\<rparr>)"
| elsewhere: "kept (\<lambda>pe. (pRunning pe, pSessions pe)) p (wsNet h) n \<Longrightarrow> ses_step cb ord p h (h\<lparr>wsNet := n\<rparr>)"

text \<open>The session that both peers make for a new connection: in the table, with its receive thread.\<close>

definition ws_open :: "nat \<Rightarrow> ws_host \<Rightarrow> nat \<times> ws_host" where
  "ws_open p h =
     (let (s, n) = ws_newSession p (wsNet h)
      in (s, h\<lparr>wsNet := Add p s n, wsConns := (wsConns h)(s := \<lparr>wsIn = [], wsOut = [], wsPending = []\<rparr>),
               wsReading := wsReading h @ [s]\<rparr>))"

definition ws_notify :: "callbacks \<Rightarrow> chain_order \<Rightarrow> nat \<Rightarrow> nat option \<Rightarrow> EventType \<Rightarrow> Result \<Rightarrow> ws_host \<Rightarrow> ws_host run" where
  "ws_notify cb ord p ses t r h =
     (let (cs, n) = peer_chains ord p (wsNet h)
      in bind_go (PostSystemEvent cb ses t cs r n) (\<lambda>n. Ok (h\<lparr>wsNet := n\<rparr>)))"

definition at_peer :: "nat \<Rightarrow> (peer \<Rightarrow> peer) \<Rightarrow> ws_host \<Rightarrow> ws_host" where
  "at_peer p f h = h\<lparr>wsNet := upd_peer p f (wsNet h)\<rparr>"

section \<open>The acceptor\<close>

text \<open>
  \<open>wsRoutes\<close> are the paths with a handler in the process, \<open>wsServers\<close> counts the goroutines in
  \<^verbatim>\<open>ListenAndServe\<close>, \<open>wsAccepted\<close> are the sessions whose event is still to be posted.
\<close>

record ws_acceptor =
  waHost :: ws_host
  wsRoutes :: "string list"
  wsServers :: nat
  wsAccepted :: "nat list"

type_synonym url_parser = "string \<Rightarrow> (string \<times> string) option"

definition wsAcceptor_Start :: "url_parser \<Rightarrow> string \<Rightarrow> nat \<Rightarrow> ws_acceptor \<Rightarrow> ws_acceptor run" where
  "wsAcceptor_Start urlp address p st =
     (if running p (wsNet (waHost st)) then Ok st
      else
        let st = st\<lparr>waHost := at_peer p (SetRunning True) (waHost st)\<rparr> in
        case urlp address of
          None \<Rightarrow> Ok st
        | Some (host, path) \<Rightarrow>
            if path = [] then Ok st
            else
              let st = st\<lparr>waHost := at_peer p (SetAddress address) (waHost st)\<rparr> in
              if path \<in> set (wsRoutes st) then Panic (Explicit (''http: multiple registrations for '' @ path))
              else Ok (st\<lparr>wsRoutes := wsRoutes st @ [path], wsServers := wsServers st + 1\<rparr>))"

definition wsAcceptor_Stop :: "ws_acceptor \<Rightarrow> ws_acceptor" where
  "wsAcceptor_Stop st = st"

inductive ws_acc_step :: "callbacks \<Rightarrow> chain_order \<Rightarrow> url_parser \<Rightarrow> nat \<Rightarrow> ws_acceptor \<Rightarrow> ws_acceptor \<Rightarrow> bool"
  for cb ord urlp p where
  wa_start: "wsAcceptor_Start urlp address p st = Ok st' \<Longrightarrow> ws_acc_step cb ord urlp p st st'"
| wa_stop: "ws_acc_step cb ord urlp p st (wsAcceptor_Stop st)"
| wa_upgrade: "wsRoutes st \<noteq> [] \<Longrightarrow> ws_open p (waHost st) = (s, h) \<Longrightarrow>
    ws_acc_step cb ord urlp p st (st\<lparr>waHost := h, wsAccepted := wsAccepted st @ [s]\<rparr>)"
| wa_notify: "s \<in> set (wsAccepted st) \<Longrightarrow> ws_notify cb ord p (Some s) Event_Accepted Result_OK (waHost st) = Ok h \<Longrightarrow>
    ws_acc_step cb ord urlp p st (st\<lparr>waHost := h, wsAccepted := remove1 s (wsAccepted st)\<rparr>)"
| wa_serve_end: "0 < wsServers st \<Longrightarrow>
    ws_acc_step cb ord urlp p st (st\<lparr>waHost := at_peer p (SetRunning False) (waHost st), wsServers := wsServers st - 1\<rparr>)"
| wa_session: "ses_step cb ord p (waHost st) h \<Longrightarrow> ws_acc_step cb ord urlp p st (st\<lparr>waHost := h\<rparr>)"


section \<open>The connector\<close>

text \<open>
  The points of \<^verbatim>\<open>connect\<close>: before \<^verbatim>\<open>SetRunning(true)\<close>; in \<^verbatim>\<open>Dial\<close>; before the event; receiving from
  \<^verbatim>\<open>closeSignal\<close>; before the deferred \<^verbatim>\<open>SetRunning(false)\<close>; ended. Each \<^verbatim>\<open>Start\<close> runs one of its own.
\<close>

datatype ws_connect_pc = WStart | WDial | WDialFailed | WNotify nat | WWait | WEnd | WDone

text \<open>\<open>wcSignals\<close> counts the calls of \<^verbatim>\<open>OnClose\<close> that wait to send on \<^verbatim>\<open>closeSignal\<close>.\<close>

record ws_connector =
  wcHost :: ws_host
  wcThreads :: "ws_connect_pc list"
  wcSignals :: nat
  defaultSes :: "nat option"

definition wsConnector_Start :: "url_parser \<Rightarrow> string \<Rightarrow> nat \<Rightarrow> ws_connector \<Rightarrow> ws_connector" where
  "wsConnector_Start urlp address p st =
     (if running p (wsNet (wcHost st)) then st
      else
        case urlp address of
          None \<Rightarrow> st
        | Some (host, path) \<Rightarrow>
            if path = [] then st
            else st\<lparr>wcHost := at_peer p (SetAddress address) (wcHost st), wcThreads := wcThreads st @ [WStart]\<rparr>)"

definition wsConnector_Stop :: "nat \<Rightarrow> ws_connector \<Rightarrow> ws_connector" where
  "wsConnector_Stop p st =
     (if \<not> running p (wsNet (wcHost st)) then st
      else case defaultSes st of
             None \<Rightarrow> st
           | Some s \<Rightarrow> st\<lparr>wcHost := (wcHost st)\<lparr>wsConns := (wsConns (wcHost st))(s := ws_Close (wsConns (wcHost st) s))\<rparr>\<rparr>)"

definition ws_errToResult :: "bool \<Rightarrow> Result" where
  "ws_errToResult err = (if err then Result_SocketError else Result_OK)"

inductive ws_con_step :: "callbacks \<Rightarrow> chain_order \<Rightarrow> url_parser \<Rightarrow> nat \<Rightarrow> ws_connector \<Rightarrow> ws_connector \<Rightarrow> bool"
  for cb ord urlp p where
  wc_start: "ws_con_step cb ord urlp p st (wsConnector_Start urlp address p st)"
| wc_stop: "ws_con_step cb ord urlp p st (wsConnector_Stop p st)"
| wc_run: "k < length (wcThreads st) \<Longrightarrow> wcThreads st ! k = WStart \<Longrightarrow>
    ws_con_step cb ord urlp p st (st\<lparr>wcHost := at_peer p (SetRunning True) (wcHost st), wcThreads := (wcThreads st)[k := WDial]\<rparr>)"
| wc_dial_failed: "k < length (wcThreads st) \<Longrightarrow> wcThreads st ! k = WDial \<Longrightarrow>
    ws_con_step cb ord urlp p st (st\<lparr>wcThreads := (wcThreads st)[k := WDialFailed]\<rparr>)"
| wc_failed: "k < length (wcThreads st) \<Longrightarrow> wcThreads st ! k = WDialFailed \<Longrightarrow>
    ws_notify cb ord p None Event_ConnectFailed (ws_errToResult True) (wcHost st) = Ok h \<Longrightarrow>
    ws_con_step cb ord urlp p st (st\<lparr>wcHost := h, wcThreads := (wcThreads st)[k := WEnd]\<rparr>)"
| wc_connected: "k < length (wcThreads st) \<Longrightarrow> wcThreads st ! k = WDial \<Longrightarrow> ws_open p (wcHost st) = (s, h) \<Longrightarrow>
    ws_con_step cb ord urlp p st (st\<lparr>wcHost := h, wcThreads := (wcThreads st)[k := WNotify s]\<rparr>)"
| wc_notify: "k < length (wcThreads st) \<Longrightarrow> wcThreads st ! k = WNotify s \<Longrightarrow>
    ws_notify cb ord p (Some s) Event_Connected Result_OK (wcHost st) = Ok h \<Longrightarrow>
    ws_con_step cb ord urlp p st (st\<lparr>wcHost := h, wcThreads := (wcThreads st)[k := WWait]\<rparr>)"
| wc_signalled: "k < length (wcThreads st) \<Longrightarrow> wcThreads st ! k = WWait \<Longrightarrow> 0 < wcSignals st \<Longrightarrow>
    ws_con_step cb ord urlp p st (st\<lparr>wcSignals := wcSignals st - 1, defaultSes := None, wcThreads := (wcThreads st)[k := WEnd]\<rparr>)"
| wc_end: "k < length (wcThreads st) \<Longrightarrow> wcThreads st ! k = WEnd \<Longrightarrow>
    ws_con_step cb ord urlp p st (st\<lparr>wcHost := at_peer p (SetRunning False) (wcHost st), wcThreads := (wcThreads st)[k := WDone]\<rparr>)"
| wc_session: "ses_step cb ord p (wcHost st) h \<Longrightarrow> ws_con_step cb ord urlp p st (st\<lparr>wcHost := h\<rparr>)"

definition ws_NewConnector :: "nat option \<Rightarrow> net \<Rightarrow> ws_connector" where
  "ws_NewConnector q n =
     (let (pe, n) = ws_newPeer q NewSessionManager n
      in \<lparr>wcHost = \<lparr>wsNet = n\<lparr>peers := peers n @ [pe]\<rparr>, wsConns = (\<lambda>_. \<lparr>wsIn = [], wsOut = [], wsPending = []\<rparr>), wsReading = []\<rparr>,
          wcThreads = [], wcSignals = 0, defaultSes = None\<rparr>)"

section \<open>What the sessions leave alone\<close>

lemma HandlerChain_Call_kept:
  assumes "chain_free g" "kept_callbacks g p cb" "HandlerChain_Call cb c a n = Ok n'"
  shows "kept g p n n'"
proof -
  have "kept g p (upd_event a (\<lambda>ev. ev\<lparr>evChainid := chain_id c\<rparr>) n) n'"
    using callList_kept [OF assms(1,2)] assms(3) by (simp add: HandlerChain_Call_def)
  then show ?thesis by (simp add: kept_def upd_event_def)
qed

lemma MsgLog_kept: "MsgLog a n = Ok n' \<Longrightarrow> kept g p n n'"
  using MsgLog_only by (auto intro: kept_peers)

lemma kept_by_peers: "peers n1 = peers n \<Longrightarrow> kept g p n1 n' \<Longrightarrow> kept g p n n'"
  by (simp add: kept_def)

lemma upd_event_peers [simp]: "peers (upd_event a f n) = peers n" "peers (SetResult r a n) = peers n"
  by (simp_all add: upd_event_def SetResult_def)

lemma ws_recv_round_kept:
  assumes "chain_free g" "kept_callbacks g p cb" "ws_recv_round cb ord s n c = Ok (go_on, n', c')"
  shows "kept g p n n'"
proof -
  obtain cs n1 where cs: "peer_chains ord (sPeer (sessions n ! s)) n = (cs, n1)" by fastforce
  have 1: "kept g p n n1" using peer_chains_kept [OF assms(1) cs] .
  have ev: "kept g p n n'" if "PostSystemEvent cb ses t cs r n2 = Ok n'" "kept g p n n2" for ses t r n2
    using PostSystemEvent_kept [OF assms(1,2) that(1)] that(2) kept_trans by blast
  obtain m c1 where m: "ReadMessage c = (m, c1)" by fastforce
  obtain i d r where r: "ws_ReadPacket n m = (i, d, r)" by (cases "ws_ReadPacket n m") auto
  obtain a n2 where a: "NewEvent Event_Recv (Some s) n1 = (a, n2)" by fastforce
  show ?thesis
  proof (cases "r = Result_OK")
    case False
    with assms(3) m r cs obtain r' where "PostSystemEvent cb (Some s) Event_Closed cs r' n1 = Ok n'"
      by (auto simp: ws_recv_round_def go_elims)
    then show ?thesis using ev 1 by blast
  next
    case True
    let ?n = "upd_event a (\<lambda>ev. ev\<lparr>evMsgID := i, evData := d\<rparr>) n2"
    from True assms(3) m r cs a obtain n3 n4 where n3: "MsgLog a ?n = Ok n3" and n4: "HandlerChainList_Call cb cs a n3 = Ok n4"
      and rest: "n' = n4 \<or> PostSystemEvent cb (evSes (event n4 a)) Event_Closed cs (Result_of n4 a) n4 = Ok n'"
      by (auto simp: ws_recv_round_def go_elims split: if_splits)
    have "kept g p n1 n3" using MsgLog_kept [OF n3] by (rule kept_by_peers [rotated]) (simp add: NewEvent_eqs(6) [OF a])
    then have "kept g p n n4" using 1 HandlerChainList_Call_kept [OF assms(1,2) n4] kept_trans by blast
    with rest ev show ?thesis by blast
  qed
qed

lemma ws_RawSend_kept:
  assumes "chain_free g" "kept_callbacks g p cb" "ws_RawSend cb s a n c = Ok (n', c')"
  shows "kept g p n n'"
proof -
  let ?n = "upd_event a (\<lambda>ev. ev\<lparr>evSes := Some s\<rparr>) n"
  from assms(3) obtain n1 where 1: "n1 = ?n \<or> (\<exists>h. HandlerChain_Call cb h a ?n = Ok n1)" and 2: "MsgLog a n1 = Ok n'"
    by (auto simp: ws_RawSend_def Let_def go_elims split: option.splits)
  have "kept g p ?n n1" using 1 HandlerChain_Call_kept [OF assms(1,2)] by auto
  then have "kept g p ?n n'" using MsgLog_kept [OF 2] by (rule kept_trans)
  then show ?thesis by (rule kept_by_peers [rotated]) simp
qed

lemma ws_Send_kept:
  assumes "chain_free g" "kept_callbacks g p cb" "ws_Send cb s data n c = Ok (n', c')"
  shows "kept g p n n'"
proof -
  obtain a n1 where a: "NewEvent Event_Send (Some s) n = (a, n1)" by fastforce
  let ?m = "upd_event a (\<lambda>ev. ev\<lparr>evMsg := data\<rparr>) n1"
  let ?n = "if evChainSend (event ?m a) \<noteq> None
    then upd_event a (\<lambda>ev. ev\<lparr>evChainSend := ChainSend (pChains (peers ?m ! sPeer (sessions ?m ! s)))\<rparr>) ?m else ?m"
  from assms(3) a have "ws_RawSend cb s a ?n c = Ok (n', c')" unfolding ws_Send_def Let_def by simp
  moreover have "peers ?n = peers n1" by simp
  ultimately show ?thesis
    using ws_RawSend_kept [OF assms(1,2)] kept_by_peers NewEvent_eqs(6) [OF a] by metis
qed

lemma ws_notify_kept:
  assumes "chain_free g" "kept_callbacks g p cb" "ws_notify cb ord q ses t r h = Ok h'"
  shows "kept g p (wsNet h) (wsNet h')"
proof -
  obtain cs n where cs: "peer_chains ord q (wsNet h) = (cs, n)" by fastforce
  with assms(3) obtain n' where "PostSystemEvent cb ses t cs r n = Ok n'" "h' = h\<lparr>wsNet := n'\<rparr>"
    by (auto simp: ws_notify_def go_elims)
  with PostSystemEvent_chains_kept [OF assms(1,2) cs] show ?thesis by simp
qed

text \<open>The two parts of the peer that this theory follows.\<close>

abbreviation flag_and_table :: "peer \<Rightarrow> bool \<times> ses_mgr" where
  "flag_and_table \<equiv> \<lambda>pe. (pRunning pe, pSessions pe)"

lemma flag_and_table_free: "chain_free flag_and_table"
  by (simp add: chain_free_def)


lemma ses_step_kept:
  assumes "ses_step cb ord p h h'" "kept_callbacks flag_and_table p cb"
  shows "kept flag_and_table p (wsNet h) (wsNet h')"
  using assms(1)
proof cases
  case (recv_turn s go_on n c)
  then show ?thesis using ws_recv_round_kept [OF flag_and_table_free assms(2)] by simp
next
  case (send s data n c)
  then show ?thesis using ws_Send_kept [OF flag_and_table_free assms(2)] by simp
next
  case (write_out a s n c)
  then have "peers n = peers (wsNet h)" by (auto simp: ws_write_def Let_def split: option.splits)
  with write_out show ?thesis by (simp add: kept_peers)
qed (simp_all add: kept_peers)

section \<open>Sessions stay in the table\<close>








lemma at_peer_length [simp]: "length (peers (wsNet (at_peer p f h))) = length (peers (wsNet h))"
  by (simp add: at_peer_def upd_peer_def)








section \<open>What Stop and Start cannot do\<close>

lemma at_peer_running:
  "p < length (peers (wsNet h)) \<Longrightarrow> running p (wsNet (at_peer p (SetRunning v) h)) = v"
  "running p (wsNet (at_peer p (SetAddress x) h)) = running p (wsNet h)"
  by (simp_all add: running_def at_peer_def upd_peer_def IsRunning_def SetRunning_def SetAddress_def)
    (metis list_update_beyond not_less nth_list_update peer.select_convs(4) peer.surjective peer.update_convs(2))

lemma kept_running:
  "kept flag_and_table p n n' \<Longrightarrow> p < length (peers n) \<Longrightarrow> running p n' = running p n \<and> p < length (peers n')"
  by (auto simp: kept_def running_def IsRunning_def)

definition wscon_ok :: "nat \<Rightarrow> ws_connector \<Rightarrow> bool" where
  "wscon_ok p st \<longleftrightarrow> wcSignals st = 0 \<and> defaultSes st = None"

lemma wscon_ok_step: "wscon_ok p st \<Longrightarrow> ws_con_step cb ord urlp p st st' \<Longrightarrow> wscon_ok p st'"
  by (erule ws_con_step.cases) (auto simp: wscon_ok_def wsConnector_Start_def wsConnector_Stop_def split: option.splits)

interpretation wscon: machine "ws_con_step cb ord urlp p" "wscon_ok p" for cb ord urlp p
  by unfold_locales (rule wscon_ok_step)

lemma wscon_ok_new: "wscon_ok p (ws_NewConnector q n)"
  by (auto simp: wscon_ok_def ws_NewConnector_def split: prod.splits)

text \<open>
  No default session is ever stored, so \<^verbatim>\<open>Stop\<close> of a connector does nothing, and nothing is sent on \<^verbatim>\<open>closeSignal\<close>.
\<close>

lemma ws_Stop_idle:
  assumes "(ws_con_step cb ord urlp p)\<^sup>*\<^sup>* (ws_NewConnector q n) st"
  shows "wcSignals st = 0 \<and> defaultSes st = None \<and> wsConnector_Stop p st = st"
  using wscon.steps_keep [OF assms wscon_ok_new] by (simp add: wscon_ok_def wsConnector_Stop_def)

text \<open>
  With one goroutine of \<^verbatim>\<open>connect\<close> the peer is running from its first statement to its deferred one.
\<close>

definition one_connect :: "nat \<Rightarrow> ws_connector \<Rightarrow> bool" where
  "one_connect p st \<longleftrightarrow> p < length (peers (wsNet (wcHost st)))
     \<and> (length (wcThreads st) = 1 \<and> wcThreads st ! 0 \<notin> {WStart, WDone} \<longrightarrow> running p (wsNet (wcHost st)))"

lemma ws_open_running:
  "ws_open p h = (s, h') \<Longrightarrow> q < length (peers (wsNet h)) \<Longrightarrow>
    length (peers (wsNet h')) = length (peers (wsNet h)) \<and> running q (wsNet h') = running q (wsNet h)"
  by (cases "p = q") (auto simp: ws_open_def ws_newSession_def Let_def Add_def upd_session_def upd_peer_def running_def IsRunning_def
      split: prod.splits)

lemma one_connect_step:
  assumes "ws_con_step cb ord urlp p st st'" "kept_callbacks flag_and_table p cb" "one_connect p st"
  shows "one_connect p st'"
  using assms(1)
proof cases
  case (wc_start address)
  with assms(3) show ?thesis
    by (auto simp: one_connect_def wsConnector_Start_def at_peer_running split: option.splits if_splits)
next
  case wc_stop
  with assms(3) show ?thesis by (auto simp: one_connect_def wsConnector_Stop_def split: option.splits)
next
  case (wc_run k)
  with assms(3) show ?thesis by (simp add: one_connect_def at_peer_running)
next
  case (wc_dial_failed k)
  with assms(3) show ?thesis by (auto simp: one_connect_def)
next
  case (wc_failed k h)
  with assms(3) ws_notify_kept [OF flag_and_table_free assms(2)] kept_running show ?thesis
    by (fastforce simp: one_connect_def)
next
  case (wc_connected k s h)
  with assms(3) ws_open_running show ?thesis
    by (fastforce simp: one_connect_def)
next
  case (wc_notify k s h)
  with assms(3) ws_notify_kept [OF flag_and_table_free assms(2)] kept_running show ?thesis
    by (fastforce simp: one_connect_def)
next
  case (wc_signalled k)
  with assms(3) show ?thesis by (auto simp: one_connect_def)
next
  case (wc_end k)
  with assms(3) show ?thesis by (cases k) (simp_all add: one_connect_def)
next
  case (wc_session h)
  with assms(3) kept_running [OF ses_step_kept [OF _ assms(2)]] show ?thesis by (auto simp: one_connect_def)
qed

lemma steps_keep_all:
  assumes "step\<^sup>*\<^sup>* s t" "P s" "\<And>u v. step u v \<Longrightarrow> P u \<Longrightarrow> P v"
  shows "P t"
  using assms(1) by induction (use assms(2,3) in auto)

lemma one_connect_new: "one_connect (length (peers n)) (ws_NewConnector q n)"
proof -
  have "length (peers n') = length (peers n)" if "ws_newPeer q NewSessionManager n = (pe, n')" for pe n'
    using that by (auto simp: ws_newPeer_def NewHandlerChain_def genChainID_def Let_def)
  then show ?thesis by (auto simp: one_connect_def ws_NewConnector_def split: prod.splits)
qed

text \<open>The goroutines of \<^verbatim>\<open>connect\<close> have ended or wait for the end of a session.\<close>

definition waiting :: "nat \<Rightarrow> ws_connector \<Rightarrow> bool" where
  "waiting p st \<longleftrightarrow> wscon_ok p st \<and> p < length (peers (wsNet (wcHost st))) \<and> running p (wsNet (wcHost st))
     \<and> (\<forall>t \<in> set (wcThreads st). t = WWait \<or> t = WDone)"

lemma waiting_step:
  assumes "ws_con_step cb ord urlp p st st'" "kept_callbacks flag_and_table p cb" "waiting p st"
  shows "waiting p st' \<and> wcThreads st' = wcThreads st"
proof -
  have t: "wcThreads st ! k \<in> {WWait, WDone}" if "k < length (wcThreads st)" for k
    using assms(3) that by (auto simp: waiting_def)
  have "wscon_ok p st'" using assms(1,3) wscon_ok_step by (auto simp: waiting_def)
  with assms(1,3) show ?thesis
  proof cases
    case (wc_session h)
    with assms(3) have k: "kept flag_and_table p (wsNet (wcHost st)) (wsNet h)" using ses_step_kept [OF _ assms(2)] by blast
    with kept_running [OF k] wc_session assms(3) \<open>wscon_ok p st'\<close> show ?thesis by (simp add: waiting_def)
  next
    case (wc_signalled k)
    with assms(3) show ?thesis by (simp add: waiting_def wscon_ok_def)
  next
    case (wc_start address)
    with assms(3) show ?thesis by (simp add: waiting_def wsConnector_Start_def)
  next
    case wc_stop
    with assms(3) show ?thesis by (simp add: waiting_def wsConnector_Stop_def wscon_ok_def)
  next
    case (wc_run k)
    with t [of k] show ?thesis by simp
  next
    case (wc_dial_failed k)
    with t [of k] show ?thesis by simp
  next
    case (wc_failed k h)
    with t [of k] show ?thesis by simp
  next
    case (wc_connected k s h)
    with t [of k] show ?thesis by simp
  next
    case (wc_notify k s h)
    with t [of k] show ?thesis by simp
  next
    case (wc_end k)
    with t [of k] show ?thesis by simp
  qed
qed

text \<open>
  C34: A connector that is connected can neither be stopped nor connect again. After one \<^verbatim>\<open>Start\<close> whose dial was
  answered, the goroutine of \<^verbatim>\<open>connect\<close> waits for a signal that only the uncalled \<^verbatim>\<open>OnClose\<close> would send.
  Whatever happens to the connection, the peer stays running, \<^verbatim>\<open>Start\<close> returns at once and so does \<^verbatim>\<open>Stop\<close>.
\<close>

theorem ws_no_reconnect:
  assumes "kept_callbacks flag_and_table p cb" "p = length (peers n)"
    and "(ws_con_step cb ord urlp p)\<^sup>*\<^sup>* (ws_NewConnector q n) st" "wcThreads st = [WWait]"
    and "(ws_con_step cb ord urlp p)\<^sup>*\<^sup>* st st'"
  shows "running p (wsNet (wcHost st')) \<and> wcThreads st' = [WWait]
    \<and> wsConnector_Start urlp address p st' = st' \<and> wsConnector_Stop p st' = st'"
proof -
  have "one_connect p st" using assms(3)
    by (rule steps_keep_all) (use assms(2) one_connect_new one_connect_step [OF _ assms(1)] in auto)
  with assms(4) ws_Stop_idle [OF assms(3)] have "waiting p st" by (simp add: waiting_def one_connect_def wscon_ok_def)
  with assms(5) have "waiting p st' \<and> wcThreads st' = [WWait]"
    by (rule steps_keep_all [where P = "\<lambda>s. waiting p s \<and> wcThreads s = [WWait]", OF _ conjI])
      (use assms(4) waiting_step [OF _ assms(1)] in auto)
  then show ?thesis by (simp add: waiting_def wscon_ok_def wsConnector_Start_def wsConnector_Stop_def)
qed

section \<open>Concrete peers\<close>

definition game_url :: url_parser where
  "game_url a = (if a = ''ws://host:80/game'' then Some (''host:80'', ''/game'') else None)"

definition connect_net :: net where
  "connect_net = (case RegisterMessageMeta ''sproto'' ''coredef.SessionConnected'' \<lparr>tName = ''SessionConnected'', tZero = []\<rparr> 7 one_codec_net of
     Ok n \<Rightarrow> n | _ \<Rightarrow> one_codec_net)"

lemma connect_net_peers: "length (peers connect_net) = 0"
  by (auto simp: connect_net_def RegisterMessageMeta_def one_codec_net_def empty_net_def FetchCodec_def Let_def)

abbreviation "game_step \<equiv> ws_con_step quiet id game_url 0"

definition dialling :: ws_connector where
  "dialling = (let st = wsConnector_Start game_url ''ws://host:80/game'' 0 (ws_NewConnector None connect_net)
     in st\<lparr>wcHost := at_peer 0 (SetRunning True) (wcHost st), wcThreads := (wcThreads st)[0 := WDial]\<rparr>)"

lemma dialling_reached: "game_step\<^sup>*\<^sup>* (ws_NewConnector None connect_net) dialling \<and> wcThreads dialling = [WDial]"
proof -
  let ?st = "wsConnector_Start game_url ''ws://host:80/game'' 0 (ws_NewConnector None connect_net)"
  have "wcThreads ?st = [WStart]" by code_simp
  then have "game_step ?st dialling" "wcThreads dialling = [WDial]"
    using wc_run [of 0 ?st quiet id game_url 0] unfolding dialling_def Let_def by simp_all
  then show ?thesis by (meson wc_start r_into_rtranclp rtranclp.rtrancl_into_rtrancl)
qed

lemma connected_reached: "\<exists>st. game_step\<^sup>*\<^sup>* (ws_NewConnector None connect_net) st \<and> wcThreads st = [WWait]"
proof -
  have "case ws_open 0 (wcHost dialling) of (s, h) \<Rightarrow> (case ws_notify quiet id 0 (Some s) Event_Connected Result_OK h of Ok x \<Rightarrow> True | _ \<Rightarrow> False)"
    by code_simp
  then obtain s h h' where h: "ws_open 0 (wcHost dialling) = (s, h)" "ws_notify quiet id 0 (Some s) Event_Connected Result_OK h = Ok h'"
    by (auto split: prod.splits go.splits)
  let ?st = "dialling\<lparr>wcHost := h, wcThreads := [WNotify s]\<rparr>"
  have "game_step dialling ?st" using wc_connected [of 0 dialling 0 s h quiet id game_url] h dialling_reached by simp
  moreover have "game_step ?st (?st\<lparr>wcHost := h', wcThreads := [WWait]\<rparr>)"
    using wc_notify [of 0 ?st s quiet id 0 h' game_url] h by simp
  ultimately have "game_step\<^sup>*\<^sup>* (ws_NewConnector None connect_net) (?st\<lparr>wcHost := h', wcThreads := [WWait]\<rparr>)"
    using dialling_reached by (meson rtranclp.rtrancl_into_rtrancl)
  then show ?thesis by fastforce
qed

lemma quiet_kept: "kept_callbacks g p quiet"
  by (simp add: kept_callbacks_def quiet_def)

theorem ws_no_reconnect_witness:
  "\<exists>st. game_step\<^sup>*\<^sup>* (ws_NewConnector None connect_net) st \<and>
     (\<forall>st'. game_step\<^sup>*\<^sup>* st st' \<longrightarrow> wcThreads st' = [WWait] \<and> wsConnector_Start game_url ''ws://host:80/game'' 0 st' = st')"
proof -
  obtain st where st: "game_step\<^sup>*\<^sup>* (ws_NewConnector None connect_net) st" "wcThreads st = [WWait]"
    using connected_reached by blast
  with ws_no_reconnect [OF quiet_kept connect_net_peers [symmetric] this] show ?thesis by blast
qed





section \<open>An acceptor with a bad address\<close>

definition stuck_acceptor :: "nat \<Rightarrow> ws_acceptor \<Rightarrow> bool" where
  "stuck_acceptor p st \<longleftrightarrow> p < length (peers (wsNet (waHost st))) \<and> running p (wsNet (waHost st)) \<and> wsServers st = 0"

text \<open>\<^verbatim>\<open>Start\<close> sets the flag before it looks at the address and keeps it when the address is bad.\<close>

lemma bad_address_sticks:
  assumes "p < length (peers (wsNet (waHost st)))" "\<not> running p (wsNet (waHost st))" "wsServers st = 0"
    and "\<forall>host path. urlp address = Some (host, path) \<longrightarrow> path = []"
  shows "\<exists>st'. wsAcceptor_Start urlp address p st = Ok st' \<and> stuck_acceptor p st'"
  using assms by (auto simp: wsAcceptor_Start_def Let_def stuck_acceptor_def at_peer_running split: option.splits)

lemma stuck_acceptor_step:
  assumes "ws_acc_step cb ord urlp p st st'" "kept_callbacks flag_and_table p cb" "stuck_acceptor p st"
  shows "stuck_acceptor p st'"
  using assms(1)
proof cases
  case (wa_upgrade s h)
  with assms(3) ws_open_running show ?thesis by (fastforce simp: stuck_acceptor_def)
next
  case (wa_notify s h)
  with assms(3) kept_running [OF ws_notify_kept [OF flag_and_table_free assms(2)]] show ?thesis by (auto simp: stuck_acceptor_def)
next
  case (wa_session h)
  with assms(3) kept_running [OF ses_step_kept [OF _ assms(2)]] show ?thesis by (auto simp: stuck_acceptor_def)
qed (use assms(3) in \<open>auto simp: stuck_acceptor_def wsAcceptor_Start_def wsAcceptor_Stop_def\<close>)

end
