(* ===== verification/Golexer.thy ===== *)
theory Golexer
  imports Go_Strings
begin

text \<open>
  The lexer library \<^verbatim>\<open>golexer\<close>: the tokenizer (\<^verbatim>\<open>tokenizer.go\<close>), the matchers (\<^verbatim>\<open>matcher_*.go\<close>), tokens
  (\<^verbatim>\<open>token.go\<close>), the lexer (\<^verbatim>\<open>lexer.go\<close>) and the parser on top of it (\<^verbatim>\<open>parser.go\<close>). A text is the list
  of its runes. The tables of the \<^verbatim>\<open>unicode\<close> package are written out for Latin-1, as the package
  does; above that they are a parameter \<open>u\<close>. The tokenizer reaches the position of its lexer
  through a pointer; here the position is a field of the tokenizer. A loop of the lexer that
  never ends is \<open>None\<close>.
\<close>

section \<open>Runes\<close>

type_synonym rune = "32 word"
type_synonym runes = "rune list"

definition ch :: "char \<Rightarrow> rune" where
  "ch c = of_char c"

definition rs :: "string \<Rightarrow> runes" where
  "rs = map ch"

record unicode_tables =
  wide_letter :: "rune \<Rightarrow> bool"
  wide_digit :: "rune \<Rightarrow> bool"

definition IsLetter :: "unicode_tables \<Rightarrow> rune \<Rightarrow> bool" where
  "IsLetter u r =
     (if r \<le> 0xFF
      then (0x41 \<le> r \<and> r \<le> 0x5A) \<or> (0x61 \<le> r \<and> r \<le> 0x7A) \<or> r = 0xAA \<or> r = 0xB5 \<or> r = 0xBA
        \<or> (0xC0 \<le> r \<and> r \<noteq> 0xD7 \<and> r \<noteq> 0xF7)
      else wide_letter u r)"

definition IsDigit :: "unicode_tables \<Rightarrow> rune \<Rightarrow> bool" where
  "IsDigit u r = (if r \<le> 0xFF then 0x30 \<le> r \<and> r \<le> 0x39 else wide_digit u r)"

text \<open>The conversion of a number to a string: a number that is no code point becomes U+FFFD.\<close>

definition rune_string :: "rune \<Rightarrow> runes" where
  "rune_string r = [if r \<le> 0x10FFFF \<and> \<not> (0xD800 \<le> r \<and> r \<le> 0xDFFF) then r else 0xFFFD]"

section \<open>Tokenizer and tokens\<close>

record TokenPos =
  Line :: int
  Col :: int
  SourceName :: runes

definition DefaultTokenPos :: TokenPos where
  "DefaultTokenPos = \<lparr>Line = 1, Col = 1, SourceName = []\<rparr>"

definition zero_TokenPos :: TokenPos where
  "zero_TokenPos = \<lparr>Line = 0, Col = 0, SourceName = []\<rparr>"

definition TokenPos_String :: "TokenPos \<Rightarrow> runes" where
  "TokenPos_String p =
     SourceName p @ rs ''('' @ rs (itoa (Line p)) @ rs '':'' @ rs (itoa (Col p)) @ rs '')''"

record tokenizer =
  src :: runes
  index :: nat
  lex_pos :: TokenPos

datatype matcher =
    NumeralMatcher int bool
  | StringMatcher int
  | BackTicksMatcher int
  | WhiteSpaceMatcher int
  | LineEndMatcher int
  | UnixStyleCommentMatcher int
  | CStyleCommentMatcher int
  | SignMatcher int runes
  | KeywordMatcher int runes
  | IdentifierMatcher int
  | UnknownMatcher int

fun ID :: "matcher \<Rightarrow> int" where
  "ID (NumeralMatcher i _) = i"
| "ID (StringMatcher i) = i"
| "ID (BackTicksMatcher i) = i"
| "ID (WhiteSpaceMatcher i) = i"
| "ID (LineEndMatcher i) = i"
| "ID (UnixStyleCommentMatcher i) = i"
| "ID (CStyleCommentMatcher i) = i"
| "ID (SignMatcher i _) = i"
| "ID (KeywordMatcher i _) = i"
| "ID (IdentifierMatcher i) = i"
| "ID (UnknownMatcher i) = i"

definition quoted_name :: "string \<Rightarrow> runes \<Rightarrow> runes" where
  "quoted_name name w = rs name @ [ch (CHR ''(''), ch (CHR 0x27)] @ w @ [ch (CHR 0x27), ch (CHR '')'')]"

fun type_name :: "matcher \<Rightarrow> string" where
  "type_name (NumeralMatcher _ _) = ''NumeralMatcher''"
| "type_name (StringMatcher _) = ''StringMatcher''"
| "type_name (BackTicksMatcher _) = ''BackTicksMatcher''"
| "type_name (WhiteSpaceMatcher _) = ''WhiteSpaceMatcher''"
| "type_name (LineEndMatcher _) = ''LineEndMatcher''"
| "type_name (UnixStyleCommentMatcher _) = ''UnixStyleCommentMatcher''"
| "type_name (CStyleCommentMatcher _) = ''CStyleCommentMatcher''"
| "type_name (SignMatcher _ _) = ''SignMatcher''"
| "type_name (KeywordMatcher _ _) = ''KeywordMatcher''"
| "type_name (IdentifierMatcher _) = ''IdentifierMatcher''"
| "type_name (UnknownMatcher _) = ''UnknownMatcher''"

definition matcher_String :: "matcher \<Rightarrow> runes" where
  "matcher_String m =
     (case m of
        SignMatcher _ w \<Rightarrow> quoted_name (type_name m) w
      | KeywordMatcher _ w \<Rightarrow> quoted_name (type_name m) w
      | _ \<Rightarrow> rs (type_name m))"

record token =
  tvalue :: runes
  traw :: runes
  tmatcher :: "matcher option"
  tpos :: TokenPos
  tindex :: nat

definition EOF :: "tokenizer \<Rightarrow> bool" where
  "EOF tz \<longleftrightarrow> length (src tz) \<le> index tz"

definition Current :: "tokenizer \<Rightarrow> rune" where
  "Current tz = (if EOF tz then 0 else src tz ! index tz)"

definition Peek :: "tokenizer \<Rightarrow> nat \<Rightarrow> rune" where
  "Peek tz offset =
     (if length (src tz) \<le> index tz + offset then 0 else src tz ! (index tz + offset))"

definition ConsumeMulti :: "nat \<Rightarrow> tokenizer \<Rightarrow> tokenizer" where
  "ConsumeMulti count tz =
     tz\<lparr>index := index tz + count, lex_pos := (lex_pos tz)\<lparr>Col := Col (lex_pos tz) + int count\<rparr>\<rparr>"

definition ConsumeOne :: "tokenizer \<Rightarrow> tokenizer" where
  "ConsumeOne tz =
     tz\<lparr>index := index tz + 1, lex_pos := (lex_pos tz)\<lparr>Col := Col (lex_pos tz) + 1\<rparr>\<rparr>"

definition increaseLine :: "tokenizer \<Rightarrow> tokenizer" where
  "increaseLine tz = tz\<lparr>lex_pos := (lex_pos tz)\<lparr>Line := Line (lex_pos tz) + 1, Col := 1\<rparr>\<rparr>"

definition StringRange :: "tokenizer \<Rightarrow> int \<Rightarrow> int \<Rightarrow> ('e, runes) go" where
  "StringRange tz begin fin =
     (let begin' = (if begin < 0 then 0 else begin);
          fin' = (if fin > int (length (src tz)) then int (length (src tz)) else fin)
      in if begin' \<le> fin' then go_slice (src tz) (nat begin') (nat fin') else Panic SliceBounds)"

definition NewTokenizer :: "runes \<Rightarrow> TokenPos \<Rightarrow> tokenizer" where
  "NewTokenizer s p = \<lparr>src = s, index = 0, lex_pos = p\<rparr>"

definition NewToken :: "matcher option \<Rightarrow> tokenizer option \<Rightarrow> runes \<Rightarrow> runes \<Rightarrow> token" where
  "NewToken m tz v raw =
     \<lparr>tvalue = v, traw = (if raw = [] then v else raw), tmatcher = m,
      tpos = (case tz of None \<Rightarrow> zero_TokenPos | Some t \<Rightarrow> lex_pos t),
      tindex = (case tz of None \<Rightarrow> 0 | Some t \<Rightarrow> index t)\<rparr>"

definition EmptyToken :: token where
  "EmptyToken = NewToken None None (rs ''NIL'') []"

definition eofToken :: token where
  "eofToken = NewToken None None (rs ''EOF'') []"

definition MatcherID :: "token \<Rightarrow> int" where
  "MatcherID t = (case tmatcher t of None \<Rightarrow> 0 | Some m \<Rightarrow> ID m)"

definition Value :: "token \<Rightarrow> runes" where
  "Value t = (case tmatcher t of None \<Rightarrow> [] | Some _ \<Rightarrow> tvalue t)"

definition Raw :: "token \<Rightarrow> runes" where
  "Raw t = (case tmatcher t of None \<Rightarrow> [] | Some _ \<Rightarrow> traw t)"

text \<open>
  \<^verbatim>\<open>strconv.ParseInt\<close> reads ASCII only: a text with another rune is a syntax error, which
  the numeric accessors turn into 0.
\<close>

definition ascii_text :: "runes \<Rightarrow> string option" where
  "ascii_text w = (if \<forall>r \<in> set w. r < 128 then Some (map (\<lambda>r. char_of (unat r)) w) else None)"

definition ParseInt10 :: "nat \<Rightarrow> runes \<Rightarrow> int option" where
  "ParseInt10 bits w = Option.bind (ascii_text w) (parse_int bits)"

definition ToInt32 :: "token \<Rightarrow> int" where
  "ToInt32 t = (case ParseInt10 32 (tvalue t) of None \<Rightarrow> 0 | Some v \<Rightarrow> v)"

definition ToInt :: "token \<Rightarrow> int" where
  "ToInt t = (case ParseInt10 32 (tvalue t) of None \<Rightarrow> 0 | Some v \<Rightarrow> v)"

definition ToInt64 :: "token \<Rightarrow> int" where
  "ToInt64 t = (case ParseInt10 64 (tvalue t) of None \<Rightarrow> 0 | Some v \<Rightarrow> v)"

section \<open>Loops of the matchers\<close>

text \<open>
  \<open>scan p\<close> is the loop that consumes a rune and goes on while the next one satisfies \<open>p\<close> and is not
  0, the rune read at the end of the text. Digits and letters are never 0, so the test for 0,
  which only the loops of comments contain, changes nothing there.
\<close>

function scan :: "(rune \<Rightarrow> bool) \<Rightarrow> tokenizer \<Rightarrow> tokenizer" where
  "scan p tz =
     (let tz' = ConsumeOne tz
      in if Current tz' \<noteq> 0 \<and> p (Current tz') then scan p tz' else tz')"
  by pat_completeness auto
termination
  by (relation "measure (\<lambda>(p, tz). length (src tz) - index tz)")
     (auto simp: Current_def EOF_def ConsumeOne_def split: if_splits)

function backticks_loop :: "tokenizer \<Rightarrow> tokenizer" where
  "backticks_loop tz =
     (if Current tz = ch (CHR ''`'') then ConsumeOne tz
      else if Current tz = 0 then tz
      else backticks_loop (ConsumeOne tz))"
  by pat_completeness auto
termination
  by (relation "measure (\<lambda>tz. length (src tz) - index tz)")
     (auto simp: Current_def EOF_def ConsumeOne_def split: if_splits)

function string_loop :: "rune \<Rightarrow> bool \<Rightarrow> runes \<Rightarrow> tokenizer \<Rightarrow> runes \<times> tokenizer" where
  "string_loop beginChar escaping builder tz =
     (let c = Current tz in
      if \<not> escaping \<and> c = beginChar then (builder, tz)
      else
        let builder' =
              (if escaping then
                 (if c = ch (CHR ''n'') then builder @ [0x0A]
                  else if c = ch (CHR ''r'') then builder @ [0x0D]
                  else if c = ch (CHR 0x22) \<or> c = ch (CHR 0x27) then builder @ [c]
                  else builder @ [ch (CHR 0x5C), c])
               else if c = ch (CHR 0x5C) then builder
               else builder @ [c]);
            escaping' = (\<not> escaping \<and> c = ch (CHR 0x5C));
            tz' = ConsumeOne tz
        in if Current tz' = 0x0A \<or> Current tz' = 0 then (builder', tz')
           else string_loop beginChar escaping' builder' tz')"
  by pat_completeness auto
termination
  by (relation "measure (\<lambda>(b, e, s, tz). length (src tz) - index tz)")
     (auto simp: Current_def EOF_def ConsumeOne_def split: if_splits)

function lineend_loop :: "tokenizer \<Rightarrow> nat \<Rightarrow> tokenizer \<times> nat" where
  "lineend_loop tz count =
     (let c = Peek tz count in
      if c = 0x0A then lineend_loop (increaseLine tz) (count + 1)
      else if c = 0x0D then lineend_loop tz (count + 1)
      else (tz, count))"
  by pat_completeness auto
termination
  by (relation "measure (\<lambda>(tz, count). length (src tz) - (index tz + count))")
     (auto simp: Peek_def increaseLine_def split: if_splits)

definition isWhiteSpace :: "rune \<Rightarrow> bool" where
  "isWhiteSpace c \<longleftrightarrow> c = 0x20 \<or> c = 0x09"

function whitespace_loop :: "tokenizer \<Rightarrow> nat \<Rightarrow> rune \<Rightarrow> nat \<times> rune" where
  "whitespace_loop tz count ret =
     (let c = Peek tz count in
      if \<not> isWhiteSpace c then (count, ret)
      else whitespace_loop tz (count + 1) (ret + c))"
  by pat_completeness auto
termination
  by (relation "measure (\<lambda>(tz, count, ret). length (src tz) - (index tz + count))")
     (auto simp: Peek_def isWhiteSpace_def split: if_splits)

declare scan.simps [simp del] backticks_loop.simps [simp del] string_loop.simps [simp del]
  lineend_loop.simps [simp del] whitespace_loop.simps [simp del]

definition isKeyword :: "unicode_tables \<Rightarrow> rune \<Rightarrow> nat \<Rightarrow> bool" where
  "isKeyword u r i =
     (let basic = IsLetter u r \<or> r = ch (CHR ''_'') in
      if i = 0 then basic else basic \<or> IsDigit u r)"

definition isSign :: "unicode_tables \<Rightarrow> rune \<Rightarrow> bool" where
  "isSign u r \<longleftrightarrow> \<not> IsLetter u r \<and> \<not> IsDigit u r \<and> r \<noteq> 0x20 \<and> r \<noteq> 0x0D \<and> r \<noteq> 0x0A"

fun keyword_at :: "unicode_tables \<Rightarrow> tokenizer \<Rightarrow> nat \<Rightarrow> runes \<Rightarrow> bool" where
  "keyword_at u tz i [] = True"
| "keyword_at u tz i (c # cs) = (isKeyword u c i \<and> Peek tz i = c \<and> keyword_at u tz (i + 1) cs)"

fun sign_at :: "unicode_tables \<Rightarrow> tokenizer \<Rightarrow> nat \<Rightarrow> runes \<Rightarrow> bool" where
  "sign_at u tz i [] = True"
| "sign_at u tz i (c # cs) = (isSign u c \<and> Peek tz i = c \<and> sign_at u tz (i + 1) cs)"

section \<open>Matchers\<close>

type_synonym match_result = "(runes, token) go \<times> tokenizer"

definition found :: "matcher \<Rightarrow> tokenizer \<Rightarrow> (runes, runes) go \<Rightarrow> runes \<Rightarrow> match_result" where
  "found m tz v raw = (bind_go v (\<lambda>s. Ok (NewToken (Some m) (Some tz) s raw)), tz)"

definition no_match :: "tokenizer \<Rightarrow> match_result" where
  "no_match tz = (Ok EmptyToken, tz)"

definition Match_Numeral :: "unicode_tables \<Rightarrow> int \<Rightarrow> bool \<Rightarrow> tokenizer \<Rightarrow> match_result" where
  "Match_Numeral u i includeNagtive tz =
     (if \<not> (IsDigit u (Current tz) \<or> (includeNagtive \<and> Current tz = ch (CHR ''-''))) then no_match tz
      else
        let begin = index tz; tz1 = scan (IsDigit u) tz in
        if Current tz1 = ch (CHR ''.'') then
          let tz2 = ConsumeOne tz1 in
          if \<not> IsDigit u (Current tz2) then (Err (rs ''invalid numeral''), tz2)
          else let tz3 = scan (IsDigit u) tz2
               in found (NumeralMatcher i includeNagtive) tz3
                    (StringRange tz3 (int begin) (int (index tz3))) []
        else found (NumeralMatcher i includeNagtive) tz1
               (StringRange tz1 (int begin) (int (index tz1))) [])"

definition Match_String :: "int \<Rightarrow> tokenizer \<Rightarrow> match_result" where
  "Match_String i tz =
     (if Current tz \<noteq> ch (CHR 0x22) \<and> Current tz \<noteq> ch (CHR 0x27) then no_match tz
      else
        let (builder, tz1) = string_loop (Current tz) False [] (ConsumeOne tz);
            tz2 = ConsumeOne tz1
        in (bind_go (StringRange tz2 (int (index tz)) (int (index tz2)))
              (\<lambda>raw. Ok (NewToken (Some (StringMatcher i)) (Some tz2) builder raw)), tz2))"

definition Match_BackTicks :: "int \<Rightarrow> tokenizer \<Rightarrow> match_result" where
  "Match_BackTicks i tz =
     (if Current tz \<noteq> ch (CHR ''`'') then no_match tz
      else
        let tz1 = ConsumeOne tz; begin = index tz1; tz2 = backticks_loop tz1
        in found (BackTicksMatcher i) tz2 (StringRange tz2 (int begin) (int (index tz2) - 1)) [])"

definition Match_WhiteSpace :: "int \<Rightarrow> tokenizer \<Rightarrow> match_result" where
  "Match_WhiteSpace i tz =
     (let (count, ret) = whitespace_loop tz 0 0 in
      if count = 0 then no_match tz
      else found (WhiteSpaceMatcher i) (ConsumeMulti count tz) (Ok (rune_string ret)) [])"

definition Match_LineEnd :: "int \<Rightarrow> tokenizer \<Rightarrow> match_result" where
  "Match_LineEnd i tz =
     (let (tz1, count) = lineend_loop tz 0 in
      if count = 0 then no_match tz1
      else found (LineEndMatcher i) (ConsumeMulti count tz1) (Ok [0x0D]) [])"

definition not_line_end :: "rune \<Rightarrow> bool" where
  "not_line_end r \<longleftrightarrow> r \<noteq> 0x0A"

definition Match_UnixStyleComment :: "int \<Rightarrow> tokenizer \<Rightarrow> match_result" where
  "Match_UnixStyleComment i tz =
     (if Current tz \<noteq> ch (CHR ''#'') then no_match tz
      else
        let tz1 = ConsumeOne tz; begin = index tz1; tz2 = scan not_line_end tz1
        in found (UnixStyleCommentMatcher i) tz2
             (StringRange tz2 (int begin) (int (index tz2))) [])"

definition Match_CStyleComment :: "int \<Rightarrow> tokenizer \<Rightarrow> match_result" where
  "Match_CStyleComment i tz =
     (if Current tz \<noteq> ch (CHR ''/'') \<or> Peek tz 1 \<noteq> ch (CHR ''/'') then no_match tz
      else
        let tz1 = ConsumeOne tz; begin = index tz1; tz2 = scan not_line_end tz1
        in found (CStyleCommentMatcher i) tz2
             (StringRange tz2 (int begin) (int (index tz2))) [])"

definition Match_Sign :: "unicode_tables \<Rightarrow> int \<Rightarrow> runes \<Rightarrow> tokenizer \<Rightarrow> match_result" where
  "Match_Sign u i word tz =
     (if length (src tz) < index tz + length word then no_match tz
      else if \<not> sign_at u tz 0 word then no_match tz
      else found (SignMatcher i word) (ConsumeMulti (length word) tz) (Ok word) [])"

definition Match_Keyword :: "unicode_tables \<Rightarrow> int \<Rightarrow> runes \<Rightarrow> tokenizer \<Rightarrow> match_result" where
  "Match_Keyword u i word tz =
     (if length (src tz) < index tz + length word then no_match tz
      else if \<not> keyword_at u tz 0 word then no_match tz
      else found (KeywordMatcher i word) (ConsumeMulti (length word) tz) (Ok word) [])"

definition ident_start :: "unicode_tables \<Rightarrow> rune \<Rightarrow> bool" where
  "ident_start u r \<longleftrightarrow> IsLetter u r \<or> r = ch (CHR ''_'')"

definition ident_part :: "unicode_tables \<Rightarrow> rune \<Rightarrow> bool" where
  "ident_part u r \<longleftrightarrow> (IsLetter u r \<or> IsDigit u r) \<or> r = ch (CHR ''_'')"

definition Match_Identifier :: "unicode_tables \<Rightarrow> int \<Rightarrow> tokenizer \<Rightarrow> match_result" where
  "Match_Identifier u i tz =
     (if \<not> ident_start u (Current tz) then no_match tz
      else let begin = index tz; tz1 = scan (ident_part u) tz
           in found (IdentifierMatcher i) tz1 (StringRange tz1 (int begin) (int (index tz1))) [])"

definition Match_Unknown :: "int \<Rightarrow> tokenizer \<Rightarrow> match_result" where
  "Match_Unknown i tz =
     (if Current tz = 0 then no_match tz
      else let tz1 = ConsumeOne tz
           in found (UnknownMatcher i) tz1 (StringRange tz1 (int (index tz)) (int (index tz1))) [])"

fun Match :: "unicode_tables \<Rightarrow> matcher \<Rightarrow> tokenizer \<Rightarrow> match_result" where
  "Match u (NumeralMatcher i neg) = Match_Numeral u i neg"
| "Match u (StringMatcher i) = Match_String i"
| "Match u (BackTicksMatcher i) = Match_BackTicks i"
| "Match u (WhiteSpaceMatcher i) = Match_WhiteSpace i"
| "Match u (LineEndMatcher i) = Match_LineEnd i"
| "Match u (UnixStyleCommentMatcher i) = Match_UnixStyleComment i"
| "Match u (CStyleCommentMatcher i) = Match_CStyleComment i"
| "Match u (SignMatcher i w) = Match_Sign u i w"
| "Match u (KeywordMatcher i w) = Match_Keyword u i w"
| "Match u (IdentifierMatcher i) = Match_Identifier u i"
| "Match u (UnknownMatcher i) = Match_Unknown i"

definition NewSignMatcher :: "unicode_tables \<Rightarrow> int \<Rightarrow> string \<Rightarrow> ('e, matcher) go" where
  "NewSignMatcher u i word =
     (if list_all (isSign u) (rs word) then Ok (SignMatcher i (rs word))
      else Panic (Explicit ''not sign''))"

definition NewKeywordMatcher :: "unicode_tables \<Rightarrow> int \<Rightarrow> string \<Rightarrow> ('e, matcher) go" where
  "NewKeywordMatcher u i word =
     (if word = [] then Panic (Explicit ''empty string'')
      else if \<forall>k < length word. isKeyword u (rs word ! k) k then Ok (KeywordMatcher i (rs word))
      else Panic (Explicit ''not keyword''))"

section \<open>Lexer\<close>

type_synonym matcherMeta = "matcher \<times> bool"

text \<open>An error of \<^verbatim>\<open>Read\<close> comes with a token; callers drop it.\<close>

type_synonym read_result = "(runes \<times> token, token) go"

record lexer =
  matchers :: "matcherMeta list"
  running :: bool
  tz :: tokenizer

definition NewLexer :: lexer where
  "NewLexer = \<lparr>matchers = [], running = False, tz = NewTokenizer [] DefaultTokenPos\<rparr>"

definition AddMatcher :: "matcher \<Rightarrow> lexer \<Rightarrow> lexer" where
  "AddMatcher m l = l\<lparr>matchers := matchers l @ [(m, False)]\<rparr>"

definition AddIgnoreMatcher :: "matcher \<Rightarrow> lexer \<Rightarrow> lexer" where
  "AddIgnoreMatcher m l = l\<lparr>matchers := matchers l @ [(m, True)]\<rparr>"

definition MatcherByID :: "lexer \<Rightarrow> int \<Rightarrow> matcher option" where
  "MatcherByID l i = map_option fst (find (\<lambda>mm. ID (fst mm) = i) (matchers l))"

definition MatcherString :: "lexer \<Rightarrow> int \<Rightarrow> runes" where
  "MatcherString l i = (case MatcherByID l i of None \<Rightarrow> [] | Some m \<Rightarrow> matcher_String m)"

definition Start :: "runes \<Rightarrow> lexer \<Rightarrow> lexer" where
  "Start s l = l\<lparr>running := True, tz := NewTokenizer s (lex_pos (tz l))\<rparr>"

text \<open>One round over the matchers: either the outer loop goes on or \<^verbatim>\<open>readToken\<close> returns.\<close>

datatype round = Again tokenizer | Return read_result tokenizer

fun matcher_round :: "unicode_tables \<Rightarrow> matcherMeta list \<Rightarrow> tokenizer \<Rightarrow> round" where
  "matcher_round u [] t = Again t"
| "matcher_round u ((m, ignore) # ms) t =
     (case Match u m t of
        (Err e, t') \<Rightarrow> Return (Err (e, NewToken None (Some t') e [])) t'
      | (Panic p, t') \<Rightarrow> Return (Panic p) t'
      | (Ok token, t') \<Rightarrow>
          if token = EmptyToken then matcher_round u ms t'
          else if ignore then Again t'
          else Return (Ok token) t')"

partial_function (option) token_loop ::
    "unicode_tables \<Rightarrow> matcherMeta list \<Rightarrow> tokenizer \<Rightarrow> (read_result \<times> tokenizer) option" where
  "token_loop u ms t =
     (if EOF t then Some (Ok eofToken, t)
      else case matcher_round u ms t of
             Again t' \<Rightarrow> token_loop u ms t'
           | Return r t' \<Rightarrow> Some (r, t'))"

definition readToken :: "unicode_tables \<Rightarrow> lexer \<Rightarrow> (read_result \<times> lexer) option" where
  "readToken u l =
     (if matchers l = [] then Some (Ok eofToken, l)
      else map_option (\<lambda>(r, t). (r, l\<lparr>tz := t\<rparr>)) (token_loop u (matchers l) (tz l)))"

definition Read :: "unicode_tables \<Rightarrow> lexer \<Rightarrow> (read_result \<times> lexer) option" where
  "Read u l =
     (if \<not> running l then Some (Ok eofToken, l)
      else map_option
             (\<lambda>(r, l'). case r of
                 Ok tk \<Rightarrow> (Ok tk, if MatcherID tk = 0 then l'\<lparr>running := False\<rparr> else l')
               | Err e \<Rightarrow> (Err e, l'\<lparr>running := False\<rparr>)
               | Panic p \<Rightarrow> (Panic p, l'))
             (readToken u l))"

section \<open>Parser\<close>

text \<open>
  The parser reports an error by \<^verbatim>\<open>panic(err)\<close>, which \<^verbatim>\<open>ErrorCatcher\<close> turns into a result; this is \<open>Err\<close>.
  A run-time error, which \<^verbatim>\<open>ErrorCatcher\<close> lets through, is \<open>Panic\<close>. Other structures embed the
  parser; they are extensions of the record.
\<close>

record parser =
  lexer :: lexer
  curr :: token
  prePos :: TokenPos

type_synonym ('s, 'a) run = "'s \<Rightarrow> ((runes, 'a) go \<times> 's) option"

definition ret :: "'a \<Rightarrow> ('s, 'a) run" where
  "ret x s = Some (Ok x, s)"

definition raise :: "runes \<Rightarrow> ('s, 'a) run" where
  "raise e s = Some (Err e, s)"

definition bind_run :: "('s, 'a) run \<Rightarrow> ('a \<Rightarrow> ('s, 'b) run) \<Rightarrow> ('s, 'b) run" where
  "bind_run m f s =
     Option.bind (m s) (\<lambda>(r, s'). case r of
         Ok x \<Rightarrow> f x s'
       | Err e \<Rightarrow> Some (Err e, s')
       | Panic p \<Rightarrow> Some (Panic p, s'))"

definition zero_token :: token where
  "zero_token = \<lparr>tvalue = [], traw = [], tmatcher = None, tpos = zero_TokenPos, tindex = 0\<rparr>"

definition NewParser :: "lexer \<Rightarrow> runes \<Rightarrow> parser" where
  "NewParser l srcName =
     \<lparr>lexer = l\<lparr>tz := (tz l)\<lparr>lex_pos := (lex_pos (tz l))\<lparr>SourceName := srcName\<rparr>\<rparr>\<rparr>,
      curr = zero_token, prePos = zero_TokenPos\<rparr>"

definition pos_of :: "'z parser_scheme \<Rightarrow> TokenPos" where
  "pos_of p = lex_pos (tz (lexer p))"

definition TokenID :: "'z parser_scheme \<Rightarrow> int" where
  "TokenID p = MatcherID (curr p)"

definition TokenValue :: "'z parser_scheme \<Rightarrow> runes" where
  "TokenValue p = Value (curr p)"

definition NextToken :: "unicode_tables \<Rightarrow> ('z parser_scheme, unit) run" where
  "NextToken u p =
     (let p1 = p\<lparr>prePos := pos_of p\<rparr> in
      map_option
        (\<lambda>(r, l). case r of
            Ok tk \<Rightarrow> (Ok (), p1\<lparr>lexer := l, curr := tk\<rparr>)
          | Err e \<Rightarrow> (Err (fst e), p1\<lparr>lexer := l\<rparr>)
          | Panic q \<Rightarrow> (Panic q, p1\<lparr>lexer := l\<rparr>))
        (Read u (lexer p)))"

definition Expect :: "unicode_tables \<Rightarrow> int \<Rightarrow> ('z parser_scheme, token) run" where
  "Expect u i p =
     (if TokenID p \<noteq> i then raise (rs ''Expect '' @ MatcherString (lexer p) i) p
      else bind_run (NextToken u) (\<lambda>_. ret (curr p)) p)"

end
