(* ===== verification/Golexer_Tokens.thy ===== *)
theory Golexer_Tokens
  imports Golexer
begin

text \<open>
  Facts about the lexer: the tokenizer operations in terms of the text that is left, the contract
  that every matcher keeps, the locale of lexers that always return, and the view of a text as
  the list of its tokens, by which the parsers are reasoned about.
\<close>

section \<open>The text that is left\<close>

definition rest :: "tokenizer \<Rightarrow> runes" where
  "rest t = drop (index t) (src t)"

named_theorems lex_simps \<open>tokenizer operations on the text that is left\<close>

lemma EOF_rest [lex_simps]: "EOF t \<longleftrightarrow> rest t = []"
  by (simp add: EOF_def rest_def)

lemma Current_rest [lex_simps]: "Current t = (case rest t of [] \<Rightarrow> 0 | c # _ \<Rightarrow> c)"
  by (simp add: Current_def EOF_def rest_def Cons_nth_drop_Suc [symmetric] split: list.split)

lemma Peek_rest [lex_simps]: "Peek t i = (if i < length (rest t) then rest t ! i else 0)"
  by (auto simp: Peek_def rest_def)

lemma ConsumeMulti_simps [simp]:
  "src (ConsumeMulti n t) = src t" "index (ConsumeMulti n t) = index t + n"
  by (simp_all add: ConsumeMulti_def)

lemma ConsumeOne_simps [simp]:
  "src (ConsumeOne t) = src t" "index (ConsumeOne t) = index t + 1"
  by (simp_all add: ConsumeOne_def)

lemma increaseLine_simps [simp]:
  "src (increaseLine t) = src t" "index (increaseLine t) = index t"
  by (simp_all add: increaseLine_def)

lemma rest_ConsumeMulti [simp]: "rest (ConsumeMulti n t) = drop n (rest t)"
  by (simp add: rest_def add.commute)

lemma rest_ConsumeOne [simp]: "rest (ConsumeOne t) = tl (rest t)"
  by (simp add: rest_def drop_Suc tl_drop)

lemma rest_increaseLine [simp]: "rest (increaseLine t) = rest t"
  by (simp add: rest_def)

lemma length_rest: "length (rest t) = length (src t) - index t"
  by (simp add: rest_def)

lemma rest_NewTokenizer [simp]: "rest (NewTokenizer s p) = s" "src (NewTokenizer s p) = s"
  by (simp_all add: rest_def NewTokenizer_def)

lemma Current_in_src: "Current t \<noteq> 0 \<Longrightarrow> Current t \<in> set (src t)"
  by (auto simp: Current_def EOF_def split: if_splits)

lemma StringRange_upto:
  "i \<le> index t \<Longrightarrow> i \<le> length (src t) \<Longrightarrow>
     StringRange t (int i) (int (index t)) = Ok (take (index t - i) (drop i (src t)))"
  by (simp add: StringRange_def go_slice_def)

lemma IsDigit_0 [simp]: "\<not> IsDigit u 0"
  by (simp add: IsDigit_def)

lemma IsLetter_0 [simp]: "\<not> IsLetter u 0"
  by (simp add: IsLetter_def)

lemma unat_ch: "unat (ch c) = of_char c"
proof -
  have "(of_char c :: nat) < 2 ^ 32"
    by (rule less_trans [OF nat_of_char_less_256]) simp
  moreover have "ch c = of_nat (of_char c)" by (simp add: ch_def of_nat_of_char)
  ultimately show ?thesis
    by (simp add: unsigned_of_nat take_bit_nat_eq_self)
qed

lemma ch_eq [simp]: "ch c = ch d \<longleftrightarrow> c = d"
  by (metis unat_ch of_char_eq_iff)

lemma ch_num: "ch (CHR 0x22) = 0x22" "ch (CHR 0x27) = 0x27" "ch (CHR ''a'') = 0x61"
  by (simp_all add: ch_def)

section \<open>The loops\<close>

abbreviation goes :: "(rune \<Rightarrow> bool) \<Rightarrow> rune \<Rightarrow> bool" where
  "goes p r \<equiv> r \<noteq> 0 \<and> p r"

lemma scan_spec:
  "src (scan p t) = src t \<and> index (scan p t) = index t + 1 + length (takeWhile (goes p) (tl (rest t)))
     \<and> rest (scan p t) = dropWhile (goes p) (tl (rest t))"
proof (induction p t rule: scan.induct)
  case (1 p t)
  show ?case
  proof (cases "tl (rest t)")
    case Nil
    then show ?thesis
      by (simp add: scan.simps [of p t] Current_rest)
  next
    case (Cons c cs)
    then show ?thesis
      using 1 by (auto simp: scan.simps [of p t] Current_rest Let_def)
  qed
qed

lemma src_scan [simp]: "src (scan p t) = src t"
  and index_scan: "index (scan p t) = index t + 1 + length (takeWhile (goes p) (tl (rest t)))"
  and rest_scan [simp]: "rest (scan p t) = dropWhile (goes p) (tl (rest t))"
  using scan_spec [of p t] by simp_all

lemma scan_advances: "index t < index (scan p t)"
  by (simp add: index_scan)

lemma backticks_loop_spec: "src (backticks_loop t) = src t \<and> index t \<le> index (backticks_loop t)"
  by (induction t rule: backticks_loop.induct) (subst (1 2) backticks_loop.simps, auto)

lemma string_loop_spec:
  "string_loop b e s t = (s', t') \<Longrightarrow> src t' = src t \<and> index t \<le> index t'"
proof (induction b e s t arbitrary: s' t' rule: string_loop.induct)
  case (1 b e s t)
  from "1.prems" show ?case
    by (subst (asm) string_loop.simps) (fastforce dest: "1.IH" [rotated -1] simp: Let_def split: if_splits)
qed

lemma lineend_loop_spec:
  "lineend_loop t n = (t', n') \<Longrightarrow>
     src t' = src t \<and> index t' = index t \<and> n \<le> n' \<and> (n' = n \<longrightarrow> t' = t)"
proof (induction t n arbitrary: t' n' rule: lineend_loop.induct)
  case (1 t n)
  from "1.prems" show ?case
    using "1.IH" (1) [OF refl, of t' n'] "1.IH" (2) [OF refl, of t' n']
    by (subst (asm) lineend_loop.simps) (auto simp: Let_def split: if_splits)
qed

lemma whitespace_loop_spec:
  "whitespace_loop t n r = (n', r') \<Longrightarrow> n \<le> n'"
  by (induction t n r rule: whitespace_loop.induct)
     (subst (asm) whitespace_loop.simps, force simp: Let_def split: if_splits)

section \<open>What a matcher does\<close>

fun consuming :: "matcher \<Rightarrow> bool" where
  "consuming (SignMatcher _ w) = (w \<noteq> [])"
| "consuming (KeywordMatcher _ w) = (w \<noteq> [])"
| "consuming _ = True"

fun is_comment :: "matcher \<Rightarrow> bool" where
  "is_comment (UnixStyleCommentMatcher _) = True"
| "is_comment (CStyleCommentMatcher _) = True"
| "is_comment _ = False"

fun is_BackTicks :: "matcher \<Rightarrow> bool" where
  "is_BackTicks (BackTicksMatcher _) = True"
| "is_BackTicks _ = False"

lemma tmatcher_NewToken [simp]: "tmatcher (NewToken m t v raw) = m"
  by (simp add: NewToken_def)

lemma tvalue_NewToken [simp]: "tvalue (NewToken m t v raw) = v"
  by (simp add: NewToken_def)

lemma tmatcher_EmptyToken [simp]: "tmatcher EmptyToken = None"
  by (simp add: EmptyToken_def)

lemma tmatcher_eofToken [simp]: "tmatcher eofToken = None"
  by (simp add: eofToken_def)

text \<open>
  The contract of a matcher: it keeps the text, refuses it untouched or returns a token of its
  own, and an accepted token has consumed something. Only a back-quoted text can panic.
\<close>

definition match_ok :: "matcher \<Rightarrow> tokenizer \<Rightarrow> match_result \<Rightarrow> bool" where
  "match_ok m t rt =
     (src (snd rt) = src t \<and> index t \<le> index (snd rt) \<and>
      (case fst rt of
         Ok tk \<Rightarrow> (tk = EmptyToken \<and> snd rt = t)
                \<or> (tmatcher tk = Some m \<and> (consuming m \<longrightarrow> index t < index (snd rt)))
       | Err _ \<Rightarrow> index t < index (snd rt)
       | Panic _ \<Rightarrow> is_BackTicks m))"

lemma match_ok_no_match [simp]: "match_ok m t (no_match t)"
  by (simp add: match_ok_def no_match_def)

lemma match_ok_found:
  "src t' = src t \<Longrightarrow> index t \<le> index t' \<Longrightarrow> (consuming m \<Longrightarrow> index t < index t') \<Longrightarrow>
     (is_ok v \<or> is_BackTicks m \<and> is_panic v) \<Longrightarrow> match_ok m t (found m t' v raw)"
  by (cases v) (auto simp: match_ok_def found_def)

lemma Current_EOF: "Current t \<noteq> 0 \<Longrightarrow> index t < length (src t)"
  by (auto simp: Current_def EOF_def split: if_splits)

lemma ident_start_0 [simp]: "\<not> ident_start u 0"
  by (simp add: ident_start_def ch_def)

lemma ident_start_EOF: "ident_start u (Current t) \<Longrightarrow> index t < length (src t)"
  by (rule Current_EOF) (metis ident_start_0)

lemma match_ok_range:
  assumes "src t' = src t" "index t < index t'" "i \<le> index t'" "i \<le> length (src t)"
  shows "match_ok m t (found m t' (StringRange t' (int i) (int (index t'))) raw)"
  using assms by (intro match_ok_found) (simp_all add: StringRange_upto)

lemma comment_ok:
  assumes "index t < length (src t)"
  defines "t1 \<equiv> ConsumeOne t"
  shows "match_ok m t (found m (scan p t1) (StringRange (scan p t1) (int (index t1)) (int (index (scan p t1)))) [])"
  using assms scan_advances [of t1 p] by (intro match_ok_range) simp_all

lemma Match_Numeral_ok: "match_ok (NumeralMatcher i neg) t (Match_Numeral u i neg t)"
proof (cases "IsDigit u (Current t) \<or> (neg \<and> Current t = ch (CHR ''-''))")
  case True
  then have t: "index t < length (src t)" by (intro Current_EOF) (auto simp: ch_def)
  define t1 t2 t3 where "t1 = scan (IsDigit u) t" and "t2 = ConsumeOne t1"
    and "t3 = scan (IsDigit u) t2"
  have 1: "index t < index t1" "src t1 = src t" by (simp_all add: t1_def scan_advances)
  have 3: "index t < index t3" "src t3 = src t"
    using 1 scan_advances [of t2 "IsDigit u"] by (simp_all add: t3_def t2_def)
  show ?thesis
    using True t 1 3 match_ok_range [of t1 t "index t"] match_ok_range [of t3 t "index t"]
    by (simp add: Match_Numeral_def Let_def flip: t1_def t2_def t3_def)
       (simp add: match_ok_def t2_def)
qed (simp add: Match_Numeral_def)

lemma Match_ok: "match_ok m t (Match u m t)"
proof (cases m)
  case (NumeralMatcher i neg)
  then show ?thesis by (simp add: Match_Numeral_ok)
next
  case (StringMatcher i)
  show ?thesis
  proof (cases "Current t \<noteq> ch (CHR 0x22) \<and> Current t \<noteq> ch (CHR 0x27)")
    case False
    then have "index t < length (src t)" by (intro Current_EOF) (auto simp: ch_def)
    obtain b t1 where 1: "string_loop (Current t) False [] (ConsumeOne t) = (b, t1)"
      by fastforce
    note 2 = string_loop_spec [OF 1]
    then have "(StringRange (ConsumeOne t1) (int (index t)) (1 + int (index t1)) :: (runes, runes) go)
        = Ok (take (Suc (index t1) - index t) (drop (index t) (src t)))"
      using StringRange_upto [of "index t" "ConsumeOne t1"] \<open>index t < length (src t)\<close> by simp
    with False 1 2 obtain tk where "Match_String i t = (Ok tk, ConsumeOne t1)"
      "tmatcher tk = Some (StringMatcher i)"
      by (auto simp: Match_String_def Let_def)
    with 2 StringMatcher show ?thesis by (simp add: match_ok_def)
  qed (simp add: StringMatcher Match_String_def)
next
  case (BackTicksMatcher i)
  have "is_ok (StringRange t' a b) \<or> is_panic (StringRange t' a b)" for t' a b
    by (simp add: StringRange_def Let_def go_slice_def)
  with BackTicksMatcher show ?thesis
    using backticks_loop_spec [of "ConsumeOne t"]
    by (auto simp: Match_BackTicks_def Let_def intro!: match_ok_found)
next
  case (WhiteSpaceMatcher i)
  then show ?thesis
    by (auto simp: Match_WhiteSpace_def split: prod.split intro!: match_ok_found)
next
  case (LineEndMatcher i)
  then show ?thesis
    by (auto simp: Match_LineEnd_def split: prod.split dest: lineend_loop_spec intro!: match_ok_found)
next
  case (UnixStyleCommentMatcher i)
  then show ?thesis
    using Current_EOF [of t] comment_ok [of t m not_line_end]
    by (auto simp: Match_UnixStyleComment_def Let_def ch_def simp del: ConsumeOne_simps(2))
next
  case (CStyleCommentMatcher i)
  then show ?thesis
    using Current_EOF [of t] comment_ok [of t m not_line_end]
    by (auto simp: Match_CStyleComment_def Let_def ch_def simp del: ConsumeOne_simps(2))
next
  case (SignMatcher i w)
  then show ?thesis
    by (auto simp: Match_Sign_def intro!: match_ok_found)
next
  case (KeywordMatcher i w)
  then show ?thesis
    by (auto simp: Match_Keyword_def intro!: match_ok_found)
next
  case (IdentifierMatcher i)
  then show ?thesis
    using ident_start_EOF [of u t] scan_advances [of t "ident_part u"]
    by (auto simp: Match_Identifier_def Let_def intro!: match_ok_range)
next
  case (UnknownMatcher i)
  then show ?thesis
    using match_ok_range [of "ConsumeOne t" t "index t" m "[]"] Current_EOF [of t]
    by (cases "Current t = 0") (simp_all add: Match_Unknown_def Let_def)
qed

lemma StringRange_subset: "StringRange t a b = Ok v \<Longrightarrow> set v \<subseteq> set (src t)"
  by (auto simp: StringRange_def Let_def go_slice_def split: if_splits dest!: in_set_takeD in_set_dropD)

lemma Match_comment:
  assumes "is_comment m" "Match u m t = (Ok tk, t')" "tmatcher tk = Some m"
  shows "set (tvalue tk) \<subseteq> set (src t)"
  using assms
  by (cases m) (auto simp: Match_UnixStyleComment_def Match_CStyleComment_def Let_def no_match_def
      found_def bind_go_eq_Ok split: if_splits dest!: StringRange_subset)

text \<open>What is known of a token that a list of matchers has produced.\<close>

definition token_ok :: "runes \<Rightarrow> matcherMeta list \<Rightarrow> token \<Rightarrow> bool" where
  "token_ok s ms tk \<longleftrightarrow> (\<forall>m. tmatcher tk = Some m \<longrightarrow>
     m \<in> fst ` set ms \<and> (is_comment m \<longrightarrow> set (tvalue tk) \<subseteq> set s))"

lemma token_ok_eof [simp]: "token_ok s ms eofToken"
  by (simp add: token_ok_def)

section \<open>Computations that return\<close>

text \<open>
  \<open>returns good meas ps n res\<close>: the computation has returned, in a state that satisfies \<open>good\<close> and whose
  size is at most \<open>n\<close>, with a panic at most from \<open>ps\<close>. The rules follow the sequencing of the code.
\<close>

definition returns ::
    "('s \<Rightarrow> bool) \<Rightarrow> ('s \<Rightarrow> nat) \<Rightarrow> go_panic set \<Rightarrow> nat \<Rightarrow> ((runes, 'a) go \<times> 's) option \<Rightarrow> bool" where
  "returns good meas ps n res \<longleftrightarrow>
     (\<exists>r s. res = Some (r, s) \<and> good s \<and> meas s \<le> n \<and> (\<forall>q. r = Panic q \<longrightarrow> q \<in> ps))"

lemma returns_ret: "good s \<Longrightarrow> meas s \<le> n \<Longrightarrow> returns good meas ps n (ret x s)"
  by (simp add: returns_def ret_def)

lemma returns_raise: "good s \<Longrightarrow> meas s \<le> n \<Longrightarrow> returns good meas ps n (raise e s)"
  by (simp add: returns_def raise_def)

lemma returns_weaken:
  "returns good meas ps m res \<Longrightarrow> (\<And>s. good s \<Longrightarrow> good' s) \<Longrightarrow> m \<le> n \<Longrightarrow> returns good' meas ps n res"
  by (fastforce simp: returns_def)

lemma returns_le: "returns good meas ps m res \<Longrightarrow> m \<le> n \<Longrightarrow> returns good meas ps n res"
  by (rule returns_weaken)

lemma returns_bind:
  assumes "returns good meas ps k (m s)"
    and "\<And>x s1. m s = Some (Ok x, s1) \<Longrightarrow> good s1 \<Longrightarrow> meas s1 \<le> k \<Longrightarrow> returns good' meas ps n (f x s1)"
    and "\<And>s1. good s1 \<Longrightarrow> good' s1" and "k \<le> n"
  shows "returns good' meas ps n (bind_run m f s)"
proof -
  from assms(1) obtain r s1 where m: "m s = Some (r, s1)" "good s1" "meas s1 \<le> k"
    "\<forall>q. r = Panic q \<longrightarrow> q \<in> ps" by (auto simp: returns_def)
  show ?thesis
  proof (cases r)
    case (Ok x)
    with assms(2) m show ?thesis by (simp add: bind_run_def)
  qed (use m assms(3, 4) in \<open>auto simp: returns_def bind_run_def\<close>)
qed

lemma bind_run_Expect:
  "TokenID p = i \<Longrightarrow> bind_run (Expect u i) f p = bind_run (NextToken u) (\<lambda>_. f (curr p)) p"
  by (auto simp: Expect_def bind_run_def ret_def split: go.splits Option.bind_splits)

section \<open>Lexers that return\<close>

text \<open>
  A list of matchers that accepts every rune but 0, whose tokens consume something, and none of
  which is the matcher of back-quoted text. On a text without the rune 0 such a lexer always
  returns, without a panic, and comes to its end.
\<close>

definition round_ok :: "matcherMeta list \<Rightarrow> tokenizer \<Rightarrow> round \<Rightarrow> bool" where
  "round_ok ms t rd =
     (case rd of
        Again t' \<Rightarrow> src t' = src t \<and> index t < index t'
      | Return r t' \<Rightarrow> src t' = src t \<and> index t < index t'
          \<and> (case r of Ok tk \<Rightarrow> MatcherID tk \<noteq> 0 \<and> token_ok (src t) ms tk
             | Err _ \<Rightarrow> True | Panic _ \<Rightarrow> False))"

locale token_source =
  fixes u :: unicode_tables and ms :: "matcherMeta list"
  assumes consuming: "(m, ig) \<in> set ms \<Longrightarrow> consuming m"
    and no_BackTicks: "(m, ig) \<in> set ms \<Longrightarrow> \<not> is_BackTicks m"
    and nonzero: "(m, ig) \<in> set ms \<Longrightarrow> ID m \<noteq> 0"
    and complete: "\<exists>i. (UnknownMatcher i, False) \<in> set ms"
begin

lemma round_ok_matchers:
  assumes "set ns \<subseteq> set ms" "Current t \<noteq> 0" "\<exists>i. (UnknownMatcher i, False) \<in> set ns"
  shows "round_ok ms t (matcher_round u ns t)"
  using assms
proof (induction ns)
  case (Cons n ns)
  obtain m ig where n: "n = (m, ig)" by fastforce
  obtain r t' where M: "Match u m t = (r, t')" by fastforce
  have ok: "match_ok m t (r, t')" using Match_ok [of m t u] M by simp
  have mem: "(m, ig) \<in> set ms" using Cons.prems n by auto
  have m: "consuming m" "\<not> is_BackTicks m" "ID m \<noteq> 0"
    using mem by (auto dest: consuming no_BackTicks nonzero)
  have unk: "m = UnknownMatcher i \<Longrightarrow> r \<noteq> Ok EmptyToken" for i
    using M Cons.prems StringRange_upto [of "index t" "ConsumeOne t"] Current_EOF [of t]
    by (auto simp: Match_Unknown_def Let_def found_def EmptyToken_def NewToken_def bind_go_eq_Ok)
  show ?case
  proof (cases "r = Ok EmptyToken")
    case True
    moreover have "t' = t" using ok True by (auto simp: match_ok_def)
    moreover have "round_ok ms t (matcher_round u ns t)"
      using Cons unk n True by auto
    ultimately show ?thesis by (simp add: n M)
  next
    case False
    have "token_ok (src t) ms tk" if "r = Ok tk" for tk
      using that ok False mem Match_comment [of m u t tk t'] M
      by (auto simp: match_ok_def token_ok_def intro: rev_image_eqI)
    with ok m False show ?thesis
      by (cases r) (auto simp: n M match_ok_def round_ok_def MatcherID_def)
  qed
qed simp

definition loop_post :: "tokenizer \<Rightarrow> read_result \<Rightarrow> tokenizer \<Rightarrow> bool" where
  "loop_post t r t' \<longleftrightarrow> src t' = src t \<and> index t \<le> index t' \<and>
     (case r of Ok tk \<Rightarrow> (tk = eofToken \<or> MatcherID tk \<noteq> 0 \<and> index t < index t' \<and> \<not> EOF t)
        \<and> token_ok (src t) ms tk
      | Err _ \<Rightarrow> True | Panic _ \<Rightarrow> False)"

lemma loop_post_trans:
  "loop_post t1 r t' \<Longrightarrow> src t1 = src t \<Longrightarrow> index t < index t1 \<Longrightarrow> \<not> EOF t \<Longrightarrow> loop_post t r t'"
  by (cases r) (auto simp: loop_post_def)

lemma token_loop_returns:
  assumes "0 \<notin> set (src t)"
  shows "\<exists>r t'. token_loop u ms t = Some (r, t') \<and> loop_post t r t'"
  using assms
proof (induction "length (src t) - index t" arbitrary: t rule: less_induct)
  case less
  show ?case
  proof (cases "EOF t")
    case True
    then show ?thesis by (simp add: token_loop.simps [of u ms t] loop_post_def)
  next
    case False
    then have "Current t \<noteq> 0"
      using less.prems by (metis Current_def EOF_def not_le nth_mem)
    then have rd: "round_ok ms t (matcher_round u ms t)"
      using complete by (intro round_ok_matchers) auto
    show ?thesis
    proof (cases "matcher_round u ms t")
      case (Again t1)
      with rd have 1: "src t1 = src t" "index t < index t1" by (simp_all add: round_ok_def)
      then have "\<exists>r t'. token_loop u ms t1 = Some (r, t') \<and> loop_post t1 r t'"
        using less.prems False by (intro less.hyps) (auto simp: EOF_def)
      with 1 False Again show ?thesis
        by (auto simp: token_loop.simps [of u ms t] intro: loop_post_trans)
    next
      case (Return r t')
      with rd False show ?thesis
        by (auto simp: token_loop.simps [of u ms t] loop_post_def round_ok_def split: go.splits)
    qed
  qed
qed

text \<open>The state of a parser on such a lexer, and a bound on the tokens that
  it can still read; a token that is current counts too.\<close>

definition reading :: "'z parser_scheme \<Rightarrow> bool" where
  "reading p \<longleftrightarrow> matchers (lexer p) = ms \<and> 0 \<notin> set (src (tz (lexer p)))
     \<and> token_ok (src (tz (lexer p))) ms (curr p)"

definition left :: "'z parser_scheme \<Rightarrow> nat" where
  "left p = (if running (lexer p) then 2 * Suc (length (src (tz (lexer p))) - index (tz (lexer p))) else 0)
     + (if TokenID p = 0 then 0 else 1)"

definition read_post :: "lexer \<Rightarrow> read_result \<Rightarrow> lexer \<Rightarrow> bool" where
  "read_post l r l' \<longleftrightarrow> matchers l' = matchers l \<and> src (tz l') = src (tz l) \<and>
     (case r of
        Ok tk \<Rightarrow> (tk = eofToken \<and> \<not> running l'
                \<or> MatcherID tk \<noteq> 0 \<and> running l \<and> running l'
                  \<and> index (tz l) < index (tz l') \<and> index (tz l) < length (src (tz l)))
                \<and> token_ok (src (tz l)) ms tk
      | Err _ \<Rightarrow> \<not> running l'
      | Panic _ \<Rightarrow> False)"

lemma Read_returns:
  assumes "matchers l = ms" "0 \<notin> set (src (tz l))"
  shows "\<exists>r l'. Read u l = Some (r, l') \<and> read_post l r l'"
proof (cases "running l")
  case True
  from token_loop_returns [OF assms(2)] obtain r t' where
    loop: "token_loop u ms (tz l) = Some (r, t')" and "loop_post (tz l) r t'" by blast
  moreover have "ms \<noteq> []" using complete by auto
  ultimately show ?thesis
    using True assms
    by (cases r) (auto simp: Read_def readToken_def loop_post_def read_post_def EOF_def MatcherID_def)
qed (simp add: Read_def read_post_def)

lemma NextToken_returns:
  fixes p :: "'z parser_scheme"
  assumes "reading p"
  shows "\<exists>r p'. NextToken u p = Some (r, p') \<and> reading p' \<and> parser.more p' = parser.more p \<and>
     left p' \<le> left p \<and> no_panic r \<and> (is_ok r \<and> (TokenID p \<noteq> 0 \<or> TokenID p' \<noteq> 0) \<longrightarrow> left p' < left p)"
proof -
  from assms Read_returns [of "lexer p"] obtain r l' where
    "Read u (lexer p) = Some (r, l')" "read_post (lexer p) r l'"
    by (auto simp: reading_def)
  with assms show ?thesis
    by (cases r)
       (auto simp: NextToken_def Let_def reading_def left_def read_post_def TokenID_def MatcherID_def)
qed

lemma returns_next:
  fixes p :: "'z parser_scheme"
  assumes "reading p" "left p \<le> n"
    and keeps: "\<And>p1. reading p1 \<Longrightarrow> parser.more p1 = parser.more p \<Longrightarrow> good p1"
    and step: "\<And>p1. reading p1 \<Longrightarrow> parser.more p1 = parser.more p \<Longrightarrow>
       left p1 \<le> left p \<Longrightarrow> (TokenID p \<noteq> 0 \<or> TokenID p1 \<noteq> 0 \<Longrightarrow> left p1 < left p) \<Longrightarrow> returns good left ps n (f () p1)"
  shows "returns good left ps n (bind_run (NextToken u) f p)"
proof -
  from NextToken_returns [OF assms(1)] obtain r p' where p':
    "NextToken u p = Some (r, p')" "reading p'" "parser.more p' = parser.more p" "left p' \<le> left p"
    "no_panic r" "is_ok r \<and> (TokenID p \<noteq> 0 \<or> TokenID p' \<noteq> 0) \<longrightarrow> left p' < left p" by blast
  with assms(2) keeps [OF p'(2,3)] step [OF p'(2,3)] show ?thesis
    by (cases r) (auto simp: bind_run_def returns_def)
qed

lemma returns_expect:
  fixes p :: "'z parser_scheme"
  assumes "reading p" "left p \<le> n" "i \<noteq> 0"
    and keeps: "\<And>p1. reading p1 \<Longrightarrow> parser.more p1 = parser.more p \<Longrightarrow> good p1"
    and step: "\<And>p1. reading p1 \<Longrightarrow> parser.more p1 = parser.more p \<Longrightarrow>
       left p1 < left p \<Longrightarrow> returns good left ps n (f (curr p) p1)"
  shows "returns good left ps n (bind_run (Expect u i) f p)"
proof (cases "TokenID p = i")
  case True
  have "bind_run (Expect u i) f p = bind_run (NextToken u) (\<lambda>_. f (curr p)) p"
    using True by (rule bind_run_Expect)
  also have "returns good left ps n \<dots>"
    using assms(1-3) keeps step True by (intro returns_next) auto
  finally show ?thesis .
next
  case False
  with assms(1,2) keeps show ?thesis
    by (simp add: Expect_def raise_def bind_run_def returns_def)
qed

lemma reading_more [simp]: "reading (p\<lparr>parser.more := x\<rparr>) = reading p"
  by (simp add: reading_def)

lemma left_more [simp]: "left (p\<lparr>parser.more := x\<rparr>) = left p"
  by (simp add: left_def TokenID_def)

end

section \<open>Token streams\<close>

text \<open>
  \<open>lexes u ms r i v r'\<close>: from any state whose text left is \<open>r\<close>, the next token has number \<open>i\<close> and value
  \<open>v\<close> and leaves \<open>r'\<close>. A text stands for the list of its tokens; positions play no part.
\<close>

definition lexes ::
    "unicode_tables \<Rightarrow> matcherMeta list \<Rightarrow> runes \<Rightarrow> int \<Rightarrow> runes \<Rightarrow> runes \<Rightarrow> bool" where
  "lexes u ms r i v r' \<longleftrightarrow>
     (\<forall>t. rest t = r \<longrightarrow> (\<exists>tk t'. token_loop u ms t = Some (Ok tk, t')
        \<and> MatcherID tk = i \<and> Value tk = v \<and> rest t' = r'))"

inductive tokens :: "unicode_tables \<Rightarrow> matcherMeta list \<Rightarrow> runes \<Rightarrow> (int \<times> runes) list \<Rightarrow> bool"
  for u ms where
  tokens_end: "lexes u ms r 0 [] r' \<Longrightarrow> tokens u ms r []"
| tokens_more: "lexes u ms r i v r' \<Longrightarrow> i \<noteq> 0 \<Longrightarrow> tokens u ms r' ts \<Longrightarrow> tokens u ms r ((i, v) # ts)"

inductive_cases tokens_NilE: "tokens u ms r []"
inductive_cases tokens_ConsE: "tokens u ms r (x # ts)"

definition ahead :: "unicode_tables \<Rightarrow> matcherMeta list \<Rightarrow> 'z parser_scheme \<Rightarrow> (int \<times> runes) list \<Rightarrow> bool" where
  "ahead u ms p ts \<longleftrightarrow> running (lexer p) \<and> matchers (lexer p) = ms \<and> ms \<noteq> []
     \<and> tokens u ms (rest (tz (lexer p))) ts"

definition stream :: "unicode_tables \<Rightarrow> matcherMeta list \<Rightarrow> 'z parser_scheme \<Rightarrow> (int \<times> runes) list \<Rightarrow> bool" where
  "stream u ms p ts \<longleftrightarrow>
     (case ts of
        [] \<Rightarrow> TokenID p = 0 \<and> TokenValue p = [] \<and> \<not> running (lexer p) \<and> matchers (lexer p) = ms
      | (i, v) # ts' \<Rightarrow> TokenID p = i \<and> i \<noteq> 0 \<and> TokenValue p = v \<and> ahead u ms p ts')"

lemma lexesD:
  "lexes u ms (rest t) i v r' \<Longrightarrow> \<exists>tk t'. token_loop u ms t = Some (Ok tk, t')
     \<and> MatcherID tk = i \<and> Value tk = v \<and> rest t' = r'"
  by (simp add: lexes_def)

lemma NextToken_ahead:
  assumes "ahead u ms p ts"
  shows "\<exists>p'. NextToken u p = Some (Ok (), p') \<and> stream u ms p' ts \<and> parser.more p' = parser.more p"
proof -
  from assms have run: "running (lexer p)" "matchers (lexer p) = ms" "ms \<noteq> []"
    and toks: "tokens u ms (rest (tz (lexer p))) ts" by (auto simp: ahead_def)
  show ?thesis
  proof (cases ts)
    case Nil
    with toks obtain tk t' where "token_loop u ms (tz (lexer p)) = Some (Ok tk, t')"
      "MatcherID tk = 0" "Value tk = []"
      by (auto elim!: tokens_NilE dest!: lexesD)
    with run Nil show ?thesis
      by (auto simp: NextToken_def Let_def Read_def readToken_def stream_def TokenID_def TokenValue_def)
  next
    case (Cons x ts')
    obtain i v where x: "x = (i, v)" by fastforce
    with toks Cons obtain tk t' where "token_loop u ms (tz (lexer p)) = Some (Ok tk, t')"
      "MatcherID tk = i" "Value tk = v" "i \<noteq> 0" "tokens u ms (rest t') ts'"
      by (auto elim!: tokens_ConsE dest!: lexesD)
    with run Cons x show ?thesis
      by (auto simp: NextToken_def Let_def Read_def readToken_def stream_def ahead_def
            TokenID_def TokenValue_def)
  qed
qed

lemma stream_Cons:
  "stream u ms p ((i, v) # ts) \<Longrightarrow> TokenID p = i \<and> TokenValue p = v \<and> ahead u ms p ts"
  by (simp add: stream_def)

lemma NextToken_stopped:
  assumes "\<not> running (lexer p)"
  shows "\<exists>p'. NextToken u p = Some (Ok (), p') \<and> TokenID p' = 0 \<and> TokenValue p' = []
     \<and> lexer p' = lexer p \<and> parser.more p' = parser.more p"
  using assms
  by (auto simp: NextToken_def Let_def Read_def TokenID_def TokenValue_def MatcherID_def Value_def)

text \<open>A round that changes nothing is repeated for ever.\<close>

lemma token_loop_moves:
  "token_loop u ms t = Some y \<Longrightarrow> EOF t \<or> matcher_round u ms t \<noteq> Again t"
proof (induction rule: token_loop.raw_induct [rotated, consumes 1, case_names 1])
  case (1 loop u ms t y)
  show ?case
  proof (rule ccontr)
    assume "\<not> (EOF t \<or> matcher_round u ms t \<noteq> Again t)"
    moreover from this "1"(2) have "loop u ms t = Some y" by simp
    ultimately show False using "1"(1) by blast
  qed
qed

lemma token_loop_stuck:
  "\<not> EOF t \<Longrightarrow> matcher_round u ms t = Again t \<Longrightarrow> token_loop u ms t = None"
  using token_loop_moves [of u ms t] by (cases "token_loop u ms t") auto

section \<open>Single tokens\<close>

lemma token_loop_Return:
  "\<not> EOF t \<Longrightarrow> matcher_round u ms t = Return r t' \<Longrightarrow> token_loop u ms t = Some (r, t')"
  by (simp add: token_loop.simps [of u ms t])

lemma token_loop_Again:
  "\<not> EOF t \<Longrightarrow> matcher_round u ms t = Again t' \<Longrightarrow> token_loop u ms t = token_loop u ms t'"
  by (simp add: token_loop.simps [of u ms t])

lemma lexes_end: "lexes u ms [] 0 [] []"
  by (auto simp: lexes_def token_loop.simps EOF_rest MatcherID_def Value_def)

definition refuses :: "unicode_tables \<Rightarrow> matcher \<Rightarrow> runes \<Rightarrow> bool" where
  "refuses u m r \<longleftrightarrow> (\<forall>t. rest t = r \<longrightarrow> Match u m t = no_match t)"

definition accepts :: "unicode_tables \<Rightarrow> matcher \<Rightarrow> runes \<Rightarrow> runes \<Rightarrow> runes \<Rightarrow> bool" where
  "accepts u m r v r' \<longleftrightarrow> (\<forall>t. rest t = r \<longrightarrow>
     (\<exists>tk t'. Match u m t = (Ok tk, t') \<and> tmatcher tk = Some m \<and> tvalue tk = v \<and> rest t' = r'))"

lemma round_refuses:
  "list_all (\<lambda>mm. refuses u (fst mm) (rest t)) ms \<Longrightarrow> matcher_round u (ms @ ns) t = matcher_round u ns t"
  by (induction ms) (auto simp: refuses_def no_match_def)

lemma lexes_accepts:
  assumes "ms = before @ (m, False) # after" "list_all (\<lambda>mm. refuses u (fst mm) r) before"
    "accepts u m r v r'" "r \<noteq> []"
  shows "lexes u ms r (ID m) v r'"
  unfolding lexes_def
proof (intro allI impI)
  fix t assume t: "rest t = r"
  with assms(3) obtain tk t' where M: "Match u m t = (Ok tk, t')" "tmatcher tk = Some m"
    "tvalue tk = v" "rest t' = r'" by (auto simp: accepts_def)
  then have "matcher_round u ms t = Return (Ok tk) t'"
    using assms(1, 2) t by (auto simp: round_refuses)
  with t assms(4) have "token_loop u ms t = Some (Ok tk, t')"
    by (intro token_loop_Return) (simp_all add: EOF_rest)
  with M show "\<exists>tk t'. token_loop u ms t = Some (Ok tk, t')
      \<and> MatcherID tk = ID m \<and> Value tk = v \<and> rest t' = r'"
    by (auto simp: MatcherID_def Value_def)
qed

lemma lexes_ignored:
  assumes "ms = before @ (m, True) # after" "list_all (\<lambda>mm. refuses u (fst mm) r) before"
    "accepts u m r w r1" "r \<noteq> []" "lexes u ms r1 i v r'"
  shows "lexes u ms r i v r'"
  unfolding lexes_def
proof (intro allI impI)
  fix t assume t: "rest t = r"
  with assms(3) obtain tk t1 where M: "Match u m t = (Ok tk, t1)" "tmatcher tk = Some m"
    "rest t1 = r1" by (auto simp: accepts_def)
  then have "matcher_round u ms t = Again t1"
    using assms(1, 2) t by (auto simp: round_refuses)
  then have "token_loop u ms t = token_loop u ms t1"
    using t assms(4) by (intro token_loop_Again) (simp_all add: EOF_rest)
  with M(3) assms(5) show "\<exists>tk t'. token_loop u ms t = Some (Ok tk, t')
      \<and> MatcherID tk = i \<and> Value tk = v \<and> rest t' = r'"
    by (auto simp: lexes_def)
qed

lemma refusesI:
  "(\<And>t. rest t = r \<Longrightarrow> Match u m t = no_match t) \<Longrightarrow> refuses u m r"
  by (simp add: refuses_def)

lemma refuses_Numeral:
  "\<not> IsDigit u c \<Longrightarrow> c \<noteq> ch (CHR ''-'') \<Longrightarrow> refuses u (NumeralMatcher i neg) (c # r)"
  by (simp add: refuses_def Match_Numeral_def Current_rest)

lemma refuses_String:
  "c \<noteq> ch (CHR 0x22) \<Longrightarrow> c \<noteq> ch (CHR 0x27) \<Longrightarrow> refuses u (StringMatcher i) (c # r)"
  by (simp add: refuses_def Match_String_def Current_rest)

lemma refuses_WhiteSpace: "\<not> isWhiteSpace c \<Longrightarrow> refuses u (WhiteSpaceMatcher i) (c # r)"
  by (simp add: refuses_def Match_WhiteSpace_def whitespace_loop.simps Peek_rest)

lemma refuses_LineEnd: "c \<noteq> 0x0A \<Longrightarrow> c \<noteq> 0x0D \<Longrightarrow> refuses u (LineEndMatcher i) (c # r)"
  by (simp add: refuses_def Match_LineEnd_def lineend_loop.simps Peek_rest)

lemma refuses_UnixStyleComment:
  "c \<noteq> ch (CHR ''#'') \<Longrightarrow> refuses u (UnixStyleCommentMatcher i) (c # r)"
  by (simp add: refuses_def Match_UnixStyleComment_def Current_rest)

lemma refuses_CStyleComment:
  "c \<noteq> ch (CHR ''/'') \<Longrightarrow> refuses u (CStyleCommentMatcher i) (c # r)"
  by (simp add: refuses_def Match_CStyleComment_def Current_rest)

lemma refuses_Sign: "c \<noteq> d \<Longrightarrow> refuses u (SignMatcher i (d # w)) (c # r)"
  by (simp add: refuses_def Match_Sign_def Peek_rest)

lemma refuses_Keyword: "c \<noteq> d \<Longrightarrow> refuses u (KeywordMatcher i (d # w)) (c # r)"
  by (simp add: refuses_def Match_Keyword_def Peek_rest)

lemma refuses_Identifier: "\<not> ident_start u c \<Longrightarrow> refuses u (IdentifierMatcher i) (c # r)"
  by (simp add: refuses_def Match_Identifier_def Current_rest)

lemma refuses_Unknown: "refuses u (UnknownMatcher i) (0 # r)"
  by (simp add: refuses_def Match_Unknown_def Current_rest)

lemmas refuses_simps = refuses_Numeral refuses_String refuses_WhiteSpace refuses_LineEnd
  refuses_UnixStyleComment refuses_CStyleComment refuses_Sign refuses_Keyword refuses_Identifier
  refuses_Unknown

lemma accepts_sign:
  assumes "isSign u c"
  shows "accepts u (SignMatcher i [c]) (c # r) [c] r"
proof -
  have "index t + 1 \<le> length (src t)" if "rest t = c # r" for t
    using that length_rest [of t] by simp
  with assms show ?thesis
    by (force simp: accepts_def Match_Sign_def Peek_rest found_def)
qed

text \<open>The value of a token that is a range of the text.\<close>

lemma range_prefix:
  assumes "src t' = src t" "rest t = w @ r" "index t' = index t + length w" "w \<noteq> []"
  shows "StringRange t' (int (index t)) (int (index t')) = Ok w \<and> rest t' = r"
proof -
  have "index t \<le> length (src t)"
    using assms(2, 4) by (cases "index t \<le> length (src t)") (auto simp: rest_def)
  moreover have "take (length w) (drop (index t) (src t)) = w"
    "drop (length w) (drop (index t) (src t)) = r"
    using assms(2) by (simp_all add: rest_def)
  ultimately show ?thesis
    using assms(1, 3) StringRange_upto [of "index t" t'] by (simp add: rest_def add.commute)
qed

definition stops :: "(rune \<Rightarrow> bool) \<Rightarrow> runes \<Rightarrow> bool" where
  "stops p r \<longleftrightarrow> (case r of [] \<Rightarrow> True | c # _ \<Rightarrow> \<not> goes p c)"

lemma takeWhile_stops: "list_all (goes p) w \<Longrightarrow> stops p r \<Longrightarrow> takeWhile (goes p) (w @ r) = w"
  by (induction w) (auto simp: stops_def split: list.splits)

lemma scan_word:
  assumes "rest t = (c # w) @ r" "list_all (goes p) w" "stops p r"
  shows "src (scan p t) = src t" "index (scan p t) = index t + length (c # w)"
  using assms by (simp_all add: index_scan takeWhile_stops)

lemma accepts_identifier:
  assumes "ident_start u c" "list_all (goes (ident_part u)) w" "stops (ident_part u) r"
  shows "accepts u (IdentifierMatcher i) (c # w @ r) (c # w) r"
  unfolding accepts_def
proof (intro allI impI)
  fix t assume t: "rest t = c # w @ r"
  note w = scan_word [of t c w r "ident_part u"]
  have "StringRange (scan (ident_part u) t) (int (index t)) (int (index (scan (ident_part u) t)))
      = (Ok (c # w) :: (runes, runes) go) \<and> rest (scan (ident_part u) t) = r"
    using t assms w by (intro range_prefix) simp_all
  with t assms(1) show "\<exists>tk t'. Match u (IdentifierMatcher i) t = (Ok tk, t')
      \<and> tmatcher tk = Some (IdentifierMatcher i) \<and> tvalue tk = c # w \<and> rest t' = r"
    by (simp add: Match_Identifier_def Current_rest Let_def found_def)
qed

lemma accepts_integer:
  assumes "IsDigit u c \<or> neg \<and> c = ch (CHR ''-'')" "list_all (goes (IsDigit u)) w"
    "stops (\<lambda>d. IsDigit u d \<or> d = ch (CHR ''.'')) r"
  shows "accepts u (NumeralMatcher i neg) (c # w @ r) (c # w) r"
  unfolding accepts_def
proof (intro allI impI)
  fix t assume t: "rest t = c # w @ r"
  have r: "stops (IsDigit u) r" using assms(3) by (auto simp: stops_def split: list.splits)
  have "StringRange (scan (IsDigit u) t) (int (index t)) (int (index (scan (IsDigit u) t)))
      = (Ok (c # w) :: (runes, runes) go) \<and> rest (scan (IsDigit u) t) = r"
    using t assms(2) r scan_word [of t c w r "IsDigit u"] by (intro range_prefix) simp_all
  moreover from this have "Current (scan (IsDigit u) t) \<noteq> ch (CHR ''.'')"
    using assms(3) by (auto simp: Current_rest stops_def ch_def split: list.splits)
  ultimately show "\<exists>tk t'. Match u (NumeralMatcher i neg) t = (Ok tk, t')
      \<and> tmatcher tk = Some (NumeralMatcher i neg) \<and> tvalue tk = c # w \<and> rest t' = r"
    using t assms(1) by (auto simp: Match_Numeral_def Current_rest Let_def found_def)
qed

lemma accepts_space:
  assumes "stops isWhiteSpace r"
  shows "accepts u (WhiteSpaceMatcher i) (0x20 # r) [0x20] r"
  unfolding accepts_def
proof (intro allI impI)
  fix t assume t: "rest t = 0x20 # r"
  have "\<not> isWhiteSpace (Peek t 1)"
    using assms t by (auto simp: Peek_rest stops_def isWhiteSpace_def split: list.splits)
  moreover have "Peek t 0 = 0x20" using t by (simp add: Peek_rest)
  ultimately have "whitespace_loop t 0 0 = (1, 0x20)"
    by (simp add: whitespace_loop.simps [of t 0] whitespace_loop.simps [of t "Suc 0"] isWhiteSpace_def)
  with t show "\<exists>tk t'. Match u (WhiteSpaceMatcher i) t = (Ok tk, t')
      \<and> tmatcher tk = Some (WhiteSpaceMatcher i) \<and> tvalue tk = [0x20] \<and> rest t' = r"
    by (simp add: Match_WhiteSpace_def found_def rune_string_def)
qed

section \<open>Corner cases\<close>

text \<open>A back quote at the end of the text makes the range of the token end before it begins.\<close>

lemma lone_back_quote: "Match u (BackTicksMatcher i) (NewTokenizer (rs ''`'') p)
    = (Panic SliceBounds, ConsumeOne (NewTokenizer (rs ''`'') p))"
  by (simp add: Match_BackTicks_def Let_def Current_rest rs_def backticks_loop.simps found_def
      StringRange_def ch_def)

text \<open>
  The loops of the comments consume before they look: an empty comment of the Unix style takes
  the next line with it, and the text of a comment of the C style begins with the second slash.
\<close>

lemma empty_Unix_comment:
  "\<exists>tk t'. Match u (UnixStyleCommentMatcher i) (NewTokenizer (ch (CHR ''#'') # 0x0A # rs ''a'') p) = (Ok tk, t')
     \<and> tvalue tk = 0x0A # rs ''a'' \<and> rest t' = []"
proof -
  let ?t = "ConsumeOne (NewTokenizer (ch (CHR ''#'') # 0x0A # rs ''a'') p)"
  have "StringRange (scan not_line_end ?t) (int (index ?t)) (int (index (scan not_line_end ?t)))
      = (Ok (0x0A # rs ''a'') :: (runes, runes) go) \<and> rest (scan not_line_end ?t) = []"
    by (rule range_prefix) (simp_all add: index_scan rs_def ch_def not_line_end_def)
  then show ?thesis
    by (simp add: Match_UnixStyleComment_def Current_rest Let_def found_def del: ConsumeOne_simps)
qed

lemma C_comment_slash:
  "\<exists>tk t'. Match u (CStyleCommentMatcher i) (NewTokenizer (rs ''//a'') p) = (Ok tk, t')
     \<and> tvalue tk = rs ''/a'' \<and> rest t' = []"
proof -
  let ?t = "ConsumeOne (NewTokenizer (rs ''//a'') p)"
  have "StringRange (scan not_line_end ?t) (int (index ?t)) (int (index (scan not_line_end ?t)))
      = (Ok (rs ''/a'') :: (runes, runes) go) \<and> rest (scan not_line_end ?t) = []"
    by (rule range_prefix) (simp_all add: index_scan rs_def ch_def not_line_end_def)
  moreover have "Current (NewTokenizer (rs ''//a'') p) = ch (CHR ''/'')" "Peek (NewTokenizer (rs ''//a'') p) 1 = ch (CHR ''/'')"
    by (simp_all add: Current_rest Peek_rest rs_def)
  ultimately show ?thesis
    by (simp add: Match_CStyleComment_def Let_def found_def del: ConsumeOne_simps)
qed

end
