(* ===== verification/Golexer_KV.thy ===== *)
theory Golexer_KV
  imports Golexer_Tokens "HOL-Library.AList" "HOL-Library.List_Lexorder"
begin

text \<open>
  The key-value texts of \<^verbatim>\<open>golexer\<close>: the parser (\<^verbatim>\<open>kvparser.go\<close>) and the container (\<^verbatim>\<open>kvpair.go\<close>). The
  map of a \<^verbatim>\<open>KVPair\<close> is an association list; \<^verbatim>\<open>String\<close> sorts the keys, so its order does not show.
\<close>

section \<open>The parser\<close>

abbreviation (input) pbtToken_EOF :: int where "pbtToken_EOF \<equiv> 0"
abbreviation (input) pbtToken_WhiteSpace :: int where "pbtToken_WhiteSpace \<equiv> 1"
abbreviation (input) pbtToken_Identifier :: int where "pbtToken_Identifier \<equiv> 2"
abbreviation (input) pbtToken_Numeral :: int where "pbtToken_Numeral \<equiv> 3"
abbreviation (input) pbtToken_String :: int where "pbtToken_String \<equiv> 4"
abbreviation (input) pbtToken_Comma :: int where "pbtToken_Comma \<equiv> 5"
abbreviation (input) pbtToken_Colon :: int where "pbtToken_Colon \<equiv> 6"
abbreviation (input) pbtToken_LBrace :: int where "pbtToken_LBrace \<equiv> 7"
abbreviation (input) pbtToken_RBrace :: int where "pbtToken_RBrace \<equiv> 8"
abbreviation (input) pbtToken_Unknown :: int where "pbtToken_Unknown \<equiv> 9"

datatype kv_value = Str runes | Strs "runes list"

text \<open>The callback works on a state of its caller.\<close>

type_synonym 's kv_callback = "runes \<Rightarrow> kv_value \<Rightarrow> 's \<Rightarrow> bool \<times> 's"

record 's kv_parser = parser +
  caller :: 's

definition add_new :: "('e, matcher) go \<Rightarrow> lexer \<Rightarrow> ('e, lexer) go" where
  "add_new gm l = bind_go gm (\<lambda>m. Ok (AddMatcher m l))"

definition kv_lexer :: "unicode_tables \<Rightarrow> ('e, lexer) go" where
  "kv_lexer u =
     (let l0 = NewLexer;
          l1 = AddMatcher (NumeralMatcher pbtToken_Numeral True) l0;
          l2 = AddMatcher (StringMatcher pbtToken_String) l1;
          l3 = AddIgnoreMatcher (WhiteSpaceMatcher pbtToken_WhiteSpace) l2
      in bind_go (add_new (NewSignMatcher u pbtToken_Comma '','') l3) (\<lambda>l4.
         bind_go (add_new (NewSignMatcher u pbtToken_Colon '':'') l4) (\<lambda>l5.
         bind_go (add_new (NewSignMatcher u pbtToken_LBrace ''['') l5) (\<lambda>l6.
         bind_go (add_new (NewSignMatcher u pbtToken_RBrace '']'') l6) (\<lambda>l7.
         Ok (AddMatcher (UnknownMatcher pbtToken_Unknown)
              (AddMatcher (IdentifierMatcher pbtToken_Identifier) l7)))))))"

lemma mono_bind_run [partial_function_mono]:
  assumes "\<And>x s. mono_option (\<lambda>g. f g x s)"
  shows "mono_option (\<lambda>g. bind_run m (f g) p)"
proof -
  have "mono_option (\<lambda>g. case rs of (r, s') \<Rightarrow> (case r of Ok x \<Rightarrow> f g x s' | Err e \<Rightarrow> Some (Err e, s')
      | Panic q \<Rightarrow> Some (Panic q, s')))" for rs
    using assms by (cases rs; cases "fst rs") (auto simp: monotone_def flat_ord_def fun_ord_def)
  then show ?thesis
    unfolding bind_run_def by (intro bind_mono) (auto simp: monotone_def flat_ord_def)
qed

partial_function (option) kv_list ::
    "unicode_tables \<Rightarrow> runes list \<Rightarrow> 'z parser_scheme \<Rightarrow> ((runes, runes list) go \<times> 'z parser_scheme) option" where
  "kv_list u acc p =
     (if TokenID p = pbtToken_RBrace \<or> TokenID p = pbtToken_EOF then Some (Ok acc, p)
      else
        let acc' = acc @ [TokenValue p] in
        bind_run (NextToken u)
          (\<lambda>_ p1. if TokenID p1 = pbtToken_Comma
                  then bind_run (NextToken u) (\<lambda>_ p2. kv_list u acc' p2) p1
                  else kv_list u acc' p1) p)"

definition kv_value_of ::
    "unicode_tables \<Rightarrow> 'z parser_scheme \<Rightarrow> ((runes, kv_value) go \<times> 'z parser_scheme) option" where
  "kv_value_of u p =
     (if TokenID p = pbtToken_LBrace
      then bind_run (NextToken u) (\<lambda>_. bind_run (kv_list u []) (\<lambda>xs. ret (Strs xs))) p
      else ret (Str (TokenValue p)) p)"

partial_function (option) kv_loop ::
    "unicode_tables \<Rightarrow> 's kv_callback \<Rightarrow> 's kv_parser \<Rightarrow> ((runes, unit) go \<times> 's kv_parser) option" where
  "kv_loop u callback p =
     (if TokenID p = pbtToken_EOF then ret () p
      else if TokenID p \<noteq> pbtToken_Identifier then raise (rs ''expect identifier: '' @ TokenValue p) p
      else bind_run (NextToken u) (\<lambda>_ p1.
        if TokenID p1 \<noteq> pbtToken_Colon then raise (rs ''expect comma: '' @ TokenValue p1) p1
        else bind_run (NextToken u) (\<lambda>_ p2.
          bind_run (kv_value_of u) (\<lambda>v p3.
            if \<not> fst (callback (TokenValue p) v (caller p3))
            then ret () (p3\<lparr>caller := snd (callback (TokenValue p) v (caller p3))\<rparr>)
            else bind_run (NextToken u) (\<lambda>_ p4. kv_loop u callback p4)
                   (p3\<lparr>caller := snd (callback (TokenValue p) v (caller p3))\<rparr>)) p2) p1) p)"

text \<open>\<^verbatim>\<open>recover\<close>: an \<^verbatim>\<open>error\<close> becomes the result, a run-time error goes on.\<close>

definition ErrorCatcher :: "(runes, unit) go \<Rightarrow> (runes, runes option) go" where
  "ErrorCatcher r = (case r of Ok _ \<Rightarrow> Ok None | Err e \<Rightarrow> Ok (Some e) | Panic q \<Rightarrow> Panic q)"

definition ParseKV ::
    "unicode_tables \<Rightarrow> runes \<Rightarrow> 's kv_callback \<Rightarrow> 's \<Rightarrow> ((runes, runes option) go \<times> 's) option" where
  "ParseKV u str callback s =
     (case kv_lexer u of
        Ok l \<Rightarrow>
          map_option (\<lambda>(r, p). (ErrorCatcher r, caller p))
            (bind_run (NextToken u) (\<lambda>_. kv_loop u callback)
               (parser.extend (NewParser (Start str l) str) (kv_parser.fields s)))
      | Err e \<Rightarrow> Some (Err e, s)
      | Panic q \<Rightarrow> Some (Panic q, s))"

section \<open>The container\<close>

type_synonym kv_pair = "(runes \<times> kv_value) list"

definition NewKVPair :: kv_pair where
  "NewKVPair = []"

definition getSortedKey :: "kv_pair \<Rightarrow> runes list" where
  "getSortedKey m = sort (map fst m)"

fun comma_list :: "runes list \<Rightarrow> runes" where
  "comma_list [] = []"
| "comma_list [v] = v"
| "comma_list (v # vs) = v @ rs '','' @ comma_list vs"

definition value_String :: "kv_value \<Rightarrow> runes" where
  "value_String v = (case v of Str w \<Rightarrow> w | Strs ws \<Rightarrow> rs ''['' @ comma_list ws @ rs '']'')"

fun entries_String :: "kv_pair \<Rightarrow> runes list \<Rightarrow> runes" where
  "entries_String m [] = []"
| "entries_String m (k # ks) =
     k @ rs '': '' @ (case map_of m k of None \<Rightarrow> [] | Some v \<Rightarrow> value_String v)
       @ (if ks = [] then [] else rs '' '' @ entries_String m ks)"

definition KVPair_String :: "kv_pair \<Rightarrow> runes" where
  "KVPair_String m = entries_String m (getSortedKey m)"

definition ParseBool :: "runes \<Rightarrow> bool option" where
  "ParseBool w =
     (if w \<in> set (map rs [''1'', ''t'', ''T'', ''TRUE'', ''true'', ''True'']) then Some True
      else if w \<in> set (map rs [''0'', ''f'', ''F'', ''FALSE'', ''false'', ''False'']) then Some False
      else None)"

definition GetBool :: "kv_pair \<Rightarrow> runes \<Rightarrow> ('e, bool) go" where
  "GetBool m key =
     (case map_of m key of
        Some (Str v) \<Rightarrow> Ok (case ParseBool v of None \<Rightarrow> False | Some b \<Rightarrow> b)
      | Some (Strs _) \<Rightarrow> Panic TypeAssertion
      | None \<Rightarrow> Ok False)"

definition SetString :: "runes \<Rightarrow> runes \<Rightarrow> kv_pair \<Rightarrow> kv_pair" where
  "SetString key v m = AList.update key (Str v) m"

definition GetString :: "kv_pair \<Rightarrow> runes \<Rightarrow> ('e, runes) go" where
  "GetString m key =
     (case map_of m key of
        Some (Str v) \<Rightarrow> Ok v
      | Some (Strs _) \<Rightarrow> Panic TypeAssertion
      | None \<Rightarrow> Ok [])"

definition ContainKey :: "kv_pair \<Rightarrow> runes \<Rightarrow> bool" where
  "ContainKey m key \<longleftrightarrow> map_of m key \<noteq> None"

definition ContainValue :: "kv_pair \<Rightarrow> runes \<Rightarrow> runes \<Rightarrow> bool" where
  "ContainValue m key tgt =
     (case map_of m key of
        Some (Str v) \<Rightarrow> tgt = v
      | Some (Strs vs) \<Rightarrow> tgt \<in> set vs
      | None \<Rightarrow> False)"

definition store :: "kv_pair kv_callback" where
  "store k v m = (True, AList.update k v m)"

definition KVPair_Parse ::
    "unicode_tables \<Rightarrow> runes \<Rightarrow> kv_pair \<Rightarrow> ((runes, runes option) go \<times> kv_pair) option" where
  "KVPair_Parse u str m = ParseKV u str store m"

section \<open>The lexer of the parser\<close>

definition kv_ms :: "matcherMeta list" where
  "kv_ms =
     [(NumeralMatcher pbtToken_Numeral True, False), (StringMatcher pbtToken_String, False),
      (WhiteSpaceMatcher pbtToken_WhiteSpace, True),
      (SignMatcher pbtToken_Comma [ch CHR '',''], False), (SignMatcher pbtToken_Colon [ch CHR '':''], False),
      (SignMatcher pbtToken_LBrace [ch CHR ''[''], False), (SignMatcher pbtToken_RBrace [ch CHR '']''], False),
      (IdentifierMatcher pbtToken_Identifier, False), (UnknownMatcher pbtToken_Unknown, False)]"

lemma kv_signs:
  "isSign u (ch CHR '','')" "isSign u (ch CHR '':'')" "isSign u (ch CHR ''['')" "isSign u (ch CHR '']'')"
  by (simp_all add: isSign_def ch_def IsLetter_def IsDigit_def)

lemma kv_lexer_Ok: "kv_lexer u = Ok \<lparr>matchers = kv_ms, running = False, tz = NewTokenizer [] DefaultTokenPos\<rparr>"
  by (simp add: kv_lexer_def add_new_def NewSignMatcher_def rs_def kv_signs Let_def AddMatcher_def
        AddIgnoreMatcher_def NewLexer_def kv_ms_def)

interpretation kv: token_source u kv_ms for u
  by unfold_locales (auto simp: kv_ms_def)

definition kv_start :: "runes \<Rightarrow> 's \<Rightarrow> 's kv_parser" where
  "kv_start str s = parser.extend (NewParser (Start str
     \<lparr>matchers = kv_ms, running = False, tz = NewTokenizer [] DefaultTokenPos\<rparr>) str) (kv_parser.fields s)"

lemma ParseKV_start:
  "ParseKV u str callback s = map_option (\<lambda>(r, p). (ErrorCatcher r, caller p))
     (bind_run (NextToken u) (\<lambda>_. kv_loop u callback) (kv_start str s))"
  by (simp add: ParseKV_def kv_lexer_Ok kv_start_def)

lemma kv_start_simps:
  "matchers (lexer (kv_start str s)) = kv_ms" "running (lexer (kv_start str s))"
  "rest (tz (lexer (kv_start str s))) = str" "src (tz (lexer (kv_start str s))) = str"
  "caller (kv_start str s) = s"
  and kv_start_curr: "token_ok r ms (curr (kv_start str s))"
  by (simp_all add: kv_start_def NewParser_def Start_def parser.defs kv_parser.defs rest_def
      NewTokenizer_def token_ok_def zero_token_def)

section \<open>It always returns\<close>

lemma kv_list_returns:
  "kv.reading (p :: 'z parser_scheme) \<Longrightarrow> returns kv.reading kv.left {} (kv.left p) (kv_list u acc p)"
proof (induction "kv.left p" arbitrary: p acc rule: less_induct)
  case less
  have go: "returns kv.reading kv.left {} (kv.left p) (kv_list u acc' p1)"
    if "kv.reading p1" "kv.left p1 < kv.left p" for p1 :: "'z parser_scheme" and acc'
    using less.hyps [OF that(2, 1), of acc'] that(2) by (auto intro: returns_le)
  show ?case
  proof (cases "TokenID p = pbtToken_RBrace \<or> TokenID p = pbtToken_EOF")
    case True
    with less.prems show ?thesis
      by (auto simp: returns_def kv_list.simps [of u acc p])
  next
    case False
    then show ?thesis
      using less.prems
      by (subst kv_list.simps) (auto simp: Let_def intro!: kv.returns_next go)
  qed
qed

lemma kv_value_returns: "kv.reading p \<Longrightarrow> returns kv.reading kv.left {} (kv.left p) (kv_value_of u p)"
  unfolding kv_value_of_def
  by (auto intro!: kv.returns_next returns_bind [OF kv_list_returns] returns_ret)

lemma reading_caller [simp]: "kv.reading (p\<lparr>caller := c\<rparr>) = kv.reading p"
  by (simp add: kv.reading_def)

lemma left_caller [simp]: "kv.left (p\<lparr>caller := c\<rparr>) = kv.left p"
  by (simp add: kv.left_def TokenID_def)

lemma kv_loop_returns: "kv.reading p \<Longrightarrow> returns kv.reading kv.left {} (kv.left p) (kv_loop u callback p)"
proof (induction "kv.left p" arbitrary: p rule: less_induct)
  case less
  have go: "returns kv.reading kv.left {} (kv.left p) (kv_loop u callback p1)"
    if "kv.reading p1" "kv.left p1 < kv.left p" for p1
    using less.hyps [OF that(2, 1)] that(2) by (auto intro: returns_le)
  show ?case
    using less.prems
    by (subst kv_loop.simps)
       (auto intro!: kv.returns_next returns_bind [OF kv_value_returns] returns_ret
          returns_raise go)
qed

text \<open>
  C21: \<^verbatim>\<open>ParseKV\<close> returns on every text without a NUL rune, whatever the callback does, and never panics.
\<close>

theorem ParseKV_returns:
  assumes "0 \<notin> set str"
  shows "\<exists>r s'. ParseKV u str callback s = Some (Ok r, s')"
proof -
  have "kv.reading (kv_start str s)" using assms by (simp add: kv.reading_def kv_start_simps kv_start_curr)
  then have "returns kv.reading kv.left {} (kv.left (kv_start str s)) (bind_run (NextToken u) (\<lambda>_. kv_loop u callback) (kv_start str s))"
    by (auto intro!: kv.returns_next returns_le [OF kv_loop_returns])
  then obtain r p' where "bind_run (NextToken u) (\<lambda>_. kv_loop u callback) (kv_start str s) = Some (r, p')"
    "\<forall>q. r \<noteq> Panic q" by (auto simp: returns_def)
  then show ?thesis by (cases r) (auto simp: ParseKV_start ErrorCatcher_def)
qed

text \<open>
  On a text that begins with a NUL rune \<^verbatim>\<open>ParseKV\<close> never returns: every matcher takes the rune for the
  end of the text, and the loop of the lexer does not.
\<close>

theorem ParseKV_NUL: "ParseKV u (0 # str) callback s = None"
proof -
  have "list_all (\<lambda>mm. refuses u (fst mm) (0 # str)) kv_ms"
    by (simp add: kv_ms_def refuses_simps isWhiteSpace_def ch_def)
  then have "matcher_round u kv_ms t = Again t" if "rest t = 0 # str" for t
    using that round_refuses [of u t kv_ms "[]"] by simp
  then have "token_loop u kv_ms t = None" if "rest t = 0 # str" for t
    using that by (intro token_loop_stuck) (simp_all add: EOF_rest)
  moreover have "kv_ms \<noteq> []" by (simp add: kv_ms_def)
  ultimately show ?thesis
    by (simp add: ParseKV_start bind_run_def NextToken_def Read_def readToken_def kv_start_simps)
qed

section \<open>A reference on lists of tokens\<close>

fun ref_list :: "runes list \<Rightarrow> (int \<times> runes) list \<Rightarrow> runes list \<times> (int \<times> runes) list" where
  "ref_list acc [] = (acc, [])"
| "ref_list acc ((i, v) # ts) =
     (if i = pbtToken_RBrace then (acc, (i, v) # ts)
      else case ts of
             [] \<Rightarrow> (acc @ [v], [])
           | (j, _) # ts' \<Rightarrow> if j = pbtToken_Comma then ref_list (acc @ [v]) ts' else ref_list (acc @ [v]) ts)"

fun ref_value :: "(int \<times> runes) list \<Rightarrow> kv_value \<times> (int \<times> runes) list" where
  "ref_value [] = (Str [], [])"
| "ref_value ((i, v) # ts) =
     (if i = pbtToken_LBrace then map_prod Strs id (ref_list [] ts) else (Str v, (i, v) # ts))"

declare ref_list.simps(2) [simp del]

lemma ref_list_length: "length (snd (ref_list acc ts)) \<le> length ts"
proof (induction acc ts rule: ref_list.induct)
  case (2 acc i v ts)
  then show ?case
    by (cases ts) (auto simp: ref_list.simps(2) [of acc i v] le_SucI)
qed simp

lemma ref_value_length: "length (snd (ref_value ts)) \<le> length ts"
  using ref_list_length [of "[]"] by (cases ts rule: ref_value.cases) (auto simp: le_SucI)

function ref_kv :: "'s kv_callback \<Rightarrow> (int \<times> runes) list \<Rightarrow> 's \<Rightarrow> runes option \<times> 's" where
  "ref_kv callback [] s = (None, s)"
| "ref_kv callback ((i, k) # ts) s =
     (if i \<noteq> pbtToken_Identifier then (Some (rs ''expect identifier: '' @ k), s)
      else case ts of
             [] \<Rightarrow> (Some (rs ''expect comma: ''), s)
           | (j, w) # ts' \<Rightarrow>
               if j \<noteq> pbtToken_Colon then (Some (rs ''expect comma: '' @ w), s)
               else
                 let (v, more) = ref_value ts'; (go_on, s') = callback k v s
                 in if go_on then ref_kv callback (tl more) s' else (None, s'))"
  by pat_completeness auto
termination
proof (relation "measure (\<lambda>(_, ts, _). length ts)", goal_cases)
  case (2 callback i k ts s x ts' j w vm v more gs go_on s')
  then show ?case using ref_value_length [of ts'] by (simp add: prod_eq_iff)
qed simp

lemma NextToken_stream:
  assumes "stream u ms p ts" "ms \<noteq> []"
  shows "\<exists>p'. NextToken u p = Some (Ok (), p') \<and> stream u ms p' (tl ts) \<and> parser.more p' = parser.more p"
proof (cases ts)
  case Nil
  with assms NextToken_stopped [of p u] show ?thesis by (auto simp: stream_def)
next
  case (Cons x ts')
  with assms have "ahead u ms p ts'" by (auto simp: stream_def)
  from NextToken_ahead [OF this] show ?thesis by (simp add: Cons)
qed

lemma kv_ms_Cons [simp]: "kv_ms \<noteq> []"
  by (simp add: kv_ms_def)

lemma next_stream:
  assumes "stream u kv_ms p ts"
  obtains p' where "NextToken u p = Some (Ok (), p')" "stream u kv_ms p' (tl ts)"
    "parser.more p' = parser.more p"
  using NextToken_stream [OF assms kv_ms_Cons] by blast

lemma bind_run_Ok: "m p = Some (Ok x, p') \<Longrightarrow> bind_run m f p = f x p'"
  by (simp add: bind_run_def)

lemma stream_ID: "stream u ms p ts \<Longrightarrow> TokenID p = (case ts of [] \<Rightarrow> 0 | x # _ \<Rightarrow> fst x)"
  and stream_Value: "stream u ms p ts \<Longrightarrow> TokenValue p = (case ts of [] \<Rightarrow> [] | x # _ \<Rightarrow> snd x)"
  by (auto simp: stream_def split: list.splits)

lemma stream_nonzero: "stream u ms p ((i, v) # ts) \<Longrightarrow> i \<noteq> 0"
  by (simp add: stream_def)

lemma kv_list_ref:
  "stream u kv_ms p ts \<Longrightarrow> \<exists>p'. kv_list u acc p = Some (Ok (fst (ref_list acc ts)), p')
     \<and> stream u kv_ms p' (snd (ref_list acc ts)) \<and> parser.more p' = parser.more p"
proof (induction acc ts arbitrary: p rule: ref_list.induct)
  case (1 acc)
  then show ?case by (simp add: kv_list.simps [of u acc p] stream_ID)
next
  case (2 acc i v ts)
  note p = stream_ID [OF "2.prems"] stream_Value [OF "2.prems"] stream_nonzero [OF "2.prems"]
  show ?case
  proof (cases "i = pbtToken_RBrace")
    case True
    with p "2.prems" show ?thesis
      by (simp add: kv_list.simps [of u acc p] ref_list.simps(2))
  next
    case False
    from "2.prems" obtain p1 where p1: "NextToken u p = Some (Ok (), p1)"
      "stream u kv_ms p1 ts" "parser.more p1 = parser.more p" by (rule next_stream) simp
    have eq: "kv_list u acc p =
        (if TokenID p1 = pbtToken_Comma then bind_run (NextToken u) (\<lambda>_. kv_list u (acc @ [v])) p1
         else kv_list u (acc @ [v]) p1)"
      using False p by (simp add: kv_list.simps [of u acc p] bind_run_Ok p1(1) Let_def)
    show ?thesis
    proof (cases ts)
      case Nil
      with p1 have "TokenID p1 = 0" by (simp add: stream_ID)
      with Nil False p1 eq show ?thesis
        by (simp add: kv_list.simps [of u _ p1] ref_list.simps(2) [of acc i v])
    next
      case (Cons y ts')
      obtain j w where y: "y = (j, w)" by fastforce
      show ?thesis
      proof (cases "j = pbtToken_Comma")
        case True
        from p1(2) obtain p2 where p2: "NextToken u p1 = Some (Ok (), p2)"
          "stream u kv_ms p2 ts'" "parser.more p2 = parser.more p1"
          by (rule next_stream) (simp add: Cons)
        from "2.IH"(1) [OF False Cons y [symmetric] True p2(2)]
        show ?thesis using p1 p2 eq True False Cons y
          by (simp add: stream_ID [OF p1(2)] ref_list.simps(2) [of acc i v] bind_run_Ok p2(1))
      next
        case False2: False
        from "2.IH"(2) [OF False Cons y [symmetric] False2 p1(2)]
        show ?thesis using p1 eq False2 False Cons y
          by (simp add: stream_ID [OF p1(2)] ref_list.simps(2) [of acc i v])
      qed
    qed
  qed
qed

lemma kv_value_ref:
  assumes "stream u kv_ms p ts"
  shows "\<exists>p'. kv_value_of u p = Some (Ok (fst (ref_value ts)), p')
     \<and> stream u kv_ms p' (snd (ref_value ts)) \<and> parser.more p' = parser.more p"
proof (cases "\<exists>v ts'. ts = (pbtToken_LBrace, v) # ts'")
  case True
  then obtain v ts' where ts: "ts = (pbtToken_LBrace, v) # ts'" by blast
  from assms obtain p1 where p1: "NextToken u p = Some (Ok (), p1)"
    "stream u kv_ms p1 ts'" "parser.more p1 = parser.more p" by (rule next_stream) (simp add: ts)
  show ?thesis
    using kv_list_ref [OF p1(2), of "[]"] stream_ID [OF assms] p1
    by (auto simp: kv_value_of_def ts ret_def bind_run_Ok p1(1) bind_run_Ok)
next
  case False
  with assms stream_ID [OF assms] stream_Value [OF assms] show ?thesis
    by (cases ts rule: ref_value.cases) (auto simp: kv_value_of_def ret_def)
qed

lemma caller_more: "parser.more p = parser.more q \<Longrightarrow> caller p = caller (q :: 's kv_parser)"
  by (cases p, cases q) simp

lemma stream_caller [simp]: "stream u ms (p\<lparr>caller := c\<rparr>) ts = stream u ms p ts"
  by (simp add: stream_def TokenID_def TokenValue_def ahead_def split: list.split)

lemma kv_loop_ref:
  "stream u kv_ms p ts \<Longrightarrow> \<exists>r p'. kv_loop u callback p = Some (r, p')
     \<and> ErrorCatcher r = Ok (fst (ref_kv callback ts (caller p))) \<and> caller p' = snd (ref_kv callback ts (caller p))"
proof (induction "length ts" arbitrary: ts p rule: less_induct)
  case less
  note p = stream_ID [OF less.prems] stream_Value [OF less.prems]
  show ?case
  proof (cases ts)
    case Nil
    with p show ?thesis by (simp add: kv_loop.simps [of u callback p] ret_def ErrorCatcher_def)
  next
    case (Cons x ts1)
    obtain i k where x: "x = (i, k)" by fastforce
    have i: "i \<noteq> 0" using less.prems by (simp add: Cons x stream_nonzero)
    from less.prems obtain p1 where p1: "NextToken u p = Some (Ok (), p1)" "stream u kv_ms p1 ts1"
      "parser.more p1 = parser.more p" by (rule next_stream) (simp add: Cons)
    note P1 = stream_ID [OF p1(2)] stream_Value [OF p1(2)]
    show ?thesis
    proof (cases "i = pbtToken_Identifier \<and> (\<exists>w ts2. ts1 = (pbtToken_Colon, w) # ts2)")
      case False
      with p P1 p1 i Cons x caller_more [OF p1(3)] show ?thesis
        by (cases ts1) (auto simp: kv_loop.simps [of u callback p] bind_run_Ok raise_def ErrorCatcher_def)
    next
      case True
      then obtain w ts2 where ts1: "i = pbtToken_Identifier" "ts1 = (pbtToken_Colon, w) # ts2" by blast
      from p1(2) obtain p2 where p2: "NextToken u p1 = Some (Ok (), p2)" "stream u kv_ms p2 ts2"
        "parser.more p2 = parser.more p1" by (rule next_stream) (simp add: ts1)
      from kv_value_ref [OF p2(2)] obtain p3 where
        p3: "kv_value_of u p2 = Some (Ok (fst (ref_value ts2)), p3)"
          "stream u kv_ms p3 (snd (ref_value ts2))" "parser.more p3 = parser.more p2" by blast
      define v c where "v = fst (ref_value ts2)" and "c = callback k v (caller p)"
      have same: "caller p3 = caller p" 
        using caller_more [OF p1(3)] caller_more [OF p2(3)] caller_more [OF p3(3)] by simp
      have kv: "kv_loop u callback p =
          (if fst c then bind_run (NextToken u) (\<lambda>_. kv_loop u callback) (p3\<lparr>caller := snd c\<rparr>)
           else ret () (p3\<lparr>caller := snd c\<rparr>))"
      proof -
        have "TokenID p = pbtToken_Identifier" "TokenID p1 = pbtToken_Colon" "TokenValue p = k"
          using p P1 Cons x ts1 by simp_all
        then show ?thesis
          by (subst kv_loop.simps)
             (simp add: bind_run_Ok [where m = "NextToken u", OF p1(1)]
                bind_run_Ok [where m = "NextToken u", OF p2(1)]
                bind_run_Ok [where m = "kv_value_of u", OF p3(1)] c_def v_def same)
      qed
      have ref: "ref_kv callback ts (caller p) =
          (if fst c then ref_kv callback (tl (snd (ref_value ts2))) (snd c) else (None, snd c))"
        using Cons x ts1 by (simp add: c_def v_def split_beta)
      show ?thesis
      proof (cases "fst c")
        case True
        have "stream u kv_ms (p3\<lparr>caller := snd c\<rparr>) (snd (ref_value ts2))" using p3(2) by simp
        then obtain p4 where p4: "NextToken u (p3\<lparr>caller := snd c\<rparr>) = Some (Ok (), p4)"
          "stream u kv_ms p4 (tl (snd (ref_value ts2)))"
          "parser.more p4 = parser.more (p3\<lparr>caller := snd c\<rparr>)" by (rule next_stream)
        have "length (tl (snd (ref_value ts2))) < length ts"
          using ref_value_length [of ts2] by (simp add: Cons ts1)
        from less.hyps [OF this p4(2)] show ?thesis
          using caller_more [OF p4(3)] by (simp add: kv ref True bind_run_Ok p4(1))
      qed (simp add: kv ref ret_def ErrorCatcher_def)
    qed
  qed
qed

lemma ParseKV_tokens:
  assumes "tokens u kv_ms str ts"
  shows "ParseKV u str callback s = Some (Ok (fst (ref_kv callback ts s)), snd (ref_kv callback ts s))"
proof -
  have "ahead u kv_ms (kv_start str s) ts"
    using assms by (simp add: ahead_def kv_start_simps)
  from NextToken_ahead [OF this] obtain p1 where p1: "NextToken u (kv_start str s) = Some (Ok (), p1)"
    "stream u kv_ms p1 ts" "parser.more p1 = parser.more (kv_start str s)" by blast
  from kv_loop_ref [OF p1(2), of callback] caller_more [OF p1(3)] show ?thesis
    by (auto simp: ParseKV_start bind_run_Ok p1(1) kv_start_simps)
qed

text \<open>
  C22: \<^verbatim>\<open>ParseKV\<close> depends on the tokens of the text only, and does with them what the reference says:
  the calls of the callback, their order, and the error.
\<close>

theorem ParseKV_reference:
  "tokens u kv_ms str ts \<Longrightarrow>
     ParseKV u str callback s = Some (Ok (fst (ref_kv callback ts s)), snd (ref_kv callback ts s))"
  by (rule ParseKV_tokens)

section \<open>Printing and parsing\<close>

text \<open>The values that \<^verbatim>\<open>String\<close> prints as one token: identifiers and integers.\<close>

definition ident_word :: "unicode_tables \<Rightarrow> runes \<Rightarrow> bool" where
  "ident_word u w =
     (case w of [] \<Rightarrow> False
      | c # cs \<Rightarrow> ident_start u c \<and> \<not> IsDigit u c \<and> list_all (ident_part u) cs)"

definition int_word :: "unicode_tables \<Rightarrow> runes \<Rightarrow> bool" where
  "int_word u w =
     (case w of [] \<Rightarrow> False
      | c # cs \<Rightarrow> (IsDigit u c \<or> c = ch (CHR ''-'')) \<and> list_all (IsDigit u) cs)"

definition plain :: "unicode_tables \<Rightarrow> runes \<Rightarrow> bool" where
  "plain u w \<longleftrightarrow> ident_word u w \<or> int_word u w"

definition plain_value :: "unicode_tables \<Rightarrow> kv_value \<Rightarrow> bool" where
  "plain_value u v = (case v of Str w \<Rightarrow> plain u w | Strs ws \<Rightarrow> list_all (plain u) ws)"

definition word_id :: "unicode_tables \<Rightarrow> runes \<Rightarrow> int" where
  "word_id u w = (if ident_word u w then pbtToken_Identifier else pbtToken_Numeral)"

definition ends_word :: "runes \<Rightarrow> bool" where
  "ends_word r =
     (case r of [] \<Rightarrow> True
      | c # _ \<Rightarrow> c = 0x20 \<or> c = ch (CHR '','') \<or> c = ch (CHR '']'') \<or> c = ch (CHR '':''))"

lemma ident_part_0 [simp]: "\<not> ident_part u 0"
  by (simp add: ident_part_def ch_def)

lemma goes_all: "\<not> p 0 \<Longrightarrow> list_all p w \<Longrightarrow> list_all (goes p) w"
  by (auto simp: list_all_iff)

lemma ends_stops:
  assumes "ends_word r"
  shows "stops (ident_part u) r" "stops (\<lambda>d. IsDigit u d \<or> d = ch (CHR ''.'')) r"
  using assms by (auto simp: ends_word_def stops_def ident_part_def ch_def IsLetter_def IsDigit_def
      split: list.splits)

lemma lexes_ident:
  assumes "ident_word u w" "ends_word r"
  shows "lexes u kv_ms (w @ r) pbtToken_Identifier w r"
proof -
  obtain c cs where w: "w = c # cs" "ident_start u c" "\<not> IsDigit u c" "list_all (ident_part u) cs"
    using assms(1) by (auto simp: ident_word_def split: list.splits)
  let ?m = "IdentifierMatcher pbtToken_Identifier"
  have "lexes u kv_ms (w @ r) (ID ?m) w r"
  proof (rule lexes_accepts [where before = "take 7 kv_ms" and after = "drop 8 kv_ms"])
    show "kv_ms = take 7 kv_ms @ (?m, False) # drop 8 kv_ms" by (simp add: kv_ms_def)
    show "list_all (\<lambda>mm. refuses u (fst mm) (w @ r)) (take 7 kv_ms)"
      using w by (auto simp: kv_ms_def isWhiteSpace_def ident_start_def ch_def IsLetter_def
          intro!: refuses_simps)
    show "accepts u ?m (w @ r) w r"
      using w assms(2) by (auto intro!: accepts_identifier goes_all ends_stops)
  qed (simp add: w)
  then show ?thesis by simp
qed

lemma lexes_int:
  assumes "int_word u w" "ends_word r"
  shows "lexes u kv_ms (w @ r) pbtToken_Numeral w r"
proof -
  obtain c cs where w: "w = c # cs" "IsDigit u c \<or> c = ch (CHR ''-'')" "list_all (IsDigit u) cs"
    using assms(1) by (auto simp: int_word_def split: list.splits)
  let ?m = "NumeralMatcher pbtToken_Numeral True"
  have "lexes u kv_ms (w @ r) (ID ?m) w r"
  proof (rule lexes_accepts [where before = "[]" and after = "drop 1 kv_ms"])
    show "kv_ms = [] @ (?m, False) # drop 1 kv_ms" by (simp add: kv_ms_def)
    show "accepts u ?m (w @ r) w r"
      using w assms(2) by (auto intro!: accepts_integer goes_all ends_stops)
  qed (simp_all add: w)
  then show ?thesis by simp
qed

lemma lexes_sign:
  "lexes u kv_ms (ch (CHR '','') # r) pbtToken_Comma [ch (CHR '','')] r"
  "lexes u kv_ms (ch (CHR '':'') # r) pbtToken_Colon [ch (CHR '':'')] r"
  "lexes u kv_ms (ch (CHR ''['') # r) pbtToken_LBrace [ch (CHR ''['')] r"
  "lexes u kv_ms (ch (CHR '']'') # r) pbtToken_RBrace [ch (CHR '']'')] r"
proof -
  have sign: "lexes u kv_ms (c # r) i [c] r"
    if "kv_ms = take n kv_ms @ (SignMatcher i [c], False) # drop (Suc n) kv_ms" "isSign u c"
      "list_all (\<lambda>mm. refuses u (fst mm) (c # r)) (take n kv_ms)" for n i c
    using lexes_accepts [OF that(1, 3) accepts_sign [OF that(2)]] by simp
  note refuses = refuses_simps isWhiteSpace_def ch_def IsDigit_def
  show "lexes u kv_ms (ch (CHR '','') # r) pbtToken_Comma [ch (CHR '','')] r"
    by (rule sign [where n = 3, OF _ kv_signs(1)]) (simp_all add: kv_ms_def refuses)
  show "lexes u kv_ms (ch (CHR '':'') # r) pbtToken_Colon [ch (CHR '':'')] r"
    by (rule sign [where n = 4, OF _ kv_signs(2)]) (simp_all add: kv_ms_def refuses)
  show "lexes u kv_ms (ch (CHR ''['') # r) pbtToken_LBrace [ch (CHR ''['')] r"
    by (rule sign [where n = 5, OF _ kv_signs(3)]) (simp_all add: kv_ms_def refuses)
  show "lexes u kv_ms (ch (CHR '']'') # r) pbtToken_RBrace [ch (CHR '']'')] r"
    by (rule sign [where n = 6, OF _ kv_signs(4)]) (simp_all add: kv_ms_def refuses)
qed

lemma lexes_space:
  assumes "stops isWhiteSpace r" "lexes u kv_ms r i v r'"
  shows "lexes u kv_ms (0x20 # r) i v r'"
proof (rule lexes_ignored [where before = "take 2 kv_ms" and after = "drop 3 kv_ms"
      and m = "WhiteSpaceMatcher pbtToken_WhiteSpace"])
  show "kv_ms = take 2 kv_ms @ (WhiteSpaceMatcher pbtToken_WhiteSpace, True) # drop 3 kv_ms"
    by (simp add: kv_ms_def)
  show "list_all (\<lambda>mm. refuses u (fst mm) (0x20 # r)) (take 2 kv_ms)"
    by (simp add: kv_ms_def refuses_simps ch_def IsDigit_def)
qed (use assms accepts_space in auto)

lemma tokens_word:
  assumes "plain u w" "ends_word r" "tokens u kv_ms r ts"
  shows "tokens u kv_ms (w @ r) ((word_id u w, w) # ts)"
proof (rule tokens_more [OF _ _ assms(3)])
  show "lexes u kv_ms (w @ r) (word_id u w) w r"
    using assms by (auto simp: plain_def word_id_def intro: lexes_ident lexes_int)
qed (simp add: word_id_def)

lemma tokens_sign:
  "tokens u kv_ms r ts \<Longrightarrow> tokens u kv_ms (ch (CHR '','') # r) ((pbtToken_Comma, [ch (CHR '','')]) # ts)"
  "tokens u kv_ms r ts \<Longrightarrow> tokens u kv_ms (ch (CHR '':'') # r) ((pbtToken_Colon, [ch (CHR '':'')]) # ts)"
  "tokens u kv_ms r ts \<Longrightarrow> tokens u kv_ms (ch (CHR ''['') # r) ((pbtToken_LBrace, [ch (CHR ''['')]) # ts)"
  "tokens u kv_ms r ts \<Longrightarrow> tokens u kv_ms (ch (CHR '']'') # r) ((pbtToken_RBrace, [ch (CHR '']'')]) # ts)"
  by (rule tokens_more, rule lexes_sign, simp, assumption)+

lemma tokens_space:
  assumes "stops isWhiteSpace r" "tokens u kv_ms r ts"
  shows "tokens u kv_ms (0x20 # r) ts"
  using assms(2)
proof cases
  case (tokens_end r')
  with assms(1) show ?thesis by (auto intro: tokens.tokens_end lexes_space)
next
  case (tokens_more i v r' ts')
  with assms(1) show ?thesis by (auto intro: tokens.tokens_more lexes_space)
qed

fun list_toks :: "unicode_tables \<Rightarrow> runes list \<Rightarrow> (int \<times> runes) list" where
  "list_toks u [] = []"
| "list_toks u [v] = [(word_id u v, v)]"
| "list_toks u (v # vs) = (word_id u v, v) # (pbtToken_Comma, [ch (CHR '','')]) # list_toks u vs"

definition value_toks :: "unicode_tables \<Rightarrow> kv_value \<Rightarrow> (int \<times> runes) list" where
  "value_toks u v =
     (case v of
        Str w \<Rightarrow> [(word_id u w, w)]
      | Strs ws \<Rightarrow> (pbtToken_LBrace, [ch (CHR ''['')]) # list_toks u ws @ [(pbtToken_RBrace, [ch (CHR '']'')])])"

lemma tokens_list:
  assumes "tokens u kv_ms (ch (CHR '']'') # r) ts"
  shows "list_all (plain u) ws \<Longrightarrow> tokens u kv_ms (comma_list ws @ ch (CHR '']'') # r) (list_toks u ws @ ts)"
proof (induction ws rule: comma_list.induct)
  case (3 v v' vs)
  let ?r = "ch (CHR '','') # comma_list (v' # vs) @ ch (CHR '']'') # r"
  have "tokens u kv_ms ?r ((pbtToken_Comma, [ch (CHR '','')]) # list_toks u (v' # vs) @ ts)"
    using 3 by (intro tokens_sign) simp
  moreover have "plain u v" "ends_word ?r" using "3.prems" by (simp_all add: ends_word_def)
  ultimately show ?case using tokens_word [of u v ?r] by (simp add: rs_def)
qed (use assms in \<open>auto intro!: tokens_word simp: ends_word_def\<close>)

lemma tokens_value:
  assumes "plain_value u v" "ends_word r" "tokens u kv_ms r ts"
  shows "tokens u kv_ms (value_String v @ r) (value_toks u v @ ts)"
proof (cases v)
  case (Str w)
  with assms show ?thesis
    by (simp add: value_String_def value_toks_def plain_value_def tokens_word)
next
  case (Strs ws)
  with assms(1) have "list_all (plain u) ws" by (simp add: plain_value_def)
  from tokens_sign(3) [OF tokens_list [OF tokens_sign(4) [OF assms(3)] this]] show ?thesis
    by (simp add: Strs value_String_def value_toks_def rs_def)
qed

lemma plain_start: "plain u w \<Longrightarrow> stops isWhiteSpace (w @ r)"
  by (auto simp: plain_def ident_word_def int_word_def stops_def isWhiteSpace_def ident_start_def
      IsLetter_def IsDigit_def ch_def split: list.splits)

lemma plain_value_start: "plain_value u v \<Longrightarrow> stops isWhiteSpace (value_String v @ r)"
  by (cases v) (auto simp: plain_value_def value_String_def rs_def stops_def isWhiteSpace_def ch_def
      dest: plain_start [where r = r])

definition plain_pair :: "unicode_tables \<Rightarrow> kv_pair \<Rightarrow> bool" where
  "plain_pair u m \<longleftrightarrow> list_all (\<lambda>(k, v). ident_word u k \<and> plain_value u v) m"

lemma plain_pairD: "plain_pair u m \<Longrightarrow> map_of m k = Some v \<Longrightarrow> ident_word u k \<and> plain_value u v"
  by (auto simp: plain_pair_def list_all_iff dest: map_of_SomeD)

fun entries_toks :: "unicode_tables \<Rightarrow> kv_pair \<Rightarrow> runes list \<Rightarrow> (int \<times> runes) list" where
  "entries_toks u m [] = []"
| "entries_toks u m (k # ks) =
     (pbtToken_Identifier, k) # (pbtToken_Colon, [ch (CHR '':'')])
       # value_toks u (the (map_of m k)) @ entries_toks u m ks"

lemma tokens_entries:
  assumes "plain_pair u m"
  shows "set ks \<subseteq> dom (map_of m) \<Longrightarrow> tokens u kv_ms (entries_String m ks) (entries_toks u m ks)"
proof (induction ks)
  case Nil
  show ?case using tokens_end [OF lexes_end] by simp
next
  case (Cons k ks)
  from Cons.prems obtain v where v: "map_of m k = Some v" by auto
  note kv = plain_pairD [OF assms v]
  define r where "r = (if ks = [] then [] else rs '' '' @ entries_String m ks)"
  have "stops isWhiteSpace (entries_String m ks)"
  proof (cases ks)
    case (Cons k' ks')
    with Cons.prems obtain v' where "map_of m k' = Some v'" by auto
    from plain_pairD [OF assms this] have "plain u k'" by (simp add: plain_def)
    then show ?thesis using plain_start [of u k'] by (simp add: Cons)
  qed (simp add: stops_def)
  with Cons have r: "tokens u kv_ms r (entries_toks u m ks)"
    by (auto simp: r_def rs_def ch_def intro: tokens_space)
  have "ends_word r" by (simp add: r_def ends_word_def rs_def ch_def)
  from tokens_value [OF conjunct2 [OF kv] this r]
  have "tokens u kv_ms (0x20 # value_String v @ r) (value_toks u v @ entries_toks u m ks)"
    using kv by (intro tokens_space plain_value_start) auto
  from tokens_word [of u k, OF _ _ tokens_sign(2) [OF this]] kv
  show ?case by (simp add: plain_def word_id_def ends_word_def v r_def rs_def ch_def)
qed

lemma ref_list_toks:
  "ref_list acc (list_toks u ws @ (pbtToken_RBrace, b) # ts) = (acc @ ws, (pbtToken_RBrace, b) # ts)"
  by (induction ws arbitrary: acc rule: comma_list.induct) (auto simp: ref_list.simps(2) word_id_def)

lemma ref_value_toks:
  "fst (ref_value (value_toks u v @ ts)) = v" "tl (snd (ref_value (value_toks u v @ ts))) = ts"
  by (cases v; simp add: value_toks_def word_id_def ref_list_toks)+

lemma ref_kv_entries:
  "set ks \<subseteq> dom (map_of m) \<Longrightarrow> ref_kv store (entries_toks u m ks) s
     = (None, fold (\<lambda>k. AList.update k (the (map_of m k))) ks s)"
  by (induction ks arbitrary: s) (simp_all add: split_beta ref_value_toks store_def)

lemma map_of_fold_update:
  "map_of (fold (\<lambda>k. AList.update k (f k)) ks s) = (\<lambda>x. if x \<in> set ks then Some (f x) else map_of s x)"
  by (induction ks arbitrary: s) (auto simp: update_conv')

lemma set_getSortedKey: "set (getSortedKey m) = dom (map_of m)"
  by (simp add: getSortedKey_def dom_map_of_conv_image_fst)

text \<open>
  C23: A container whose keys are identifiers and whose values are identifiers or integers, single or
  in lists, is parsed back from its printed form.
\<close>

theorem KVPair_round_trip:
  assumes "plain_pair u m"
  shows "\<exists>m'. KVPair_Parse u (KVPair_String m) NewKVPair = Some (Ok None, m') \<and> map_of m' = map_of m"
proof -
  have ks: "set (getSortedKey m) \<subseteq> dom (map_of m)" by (simp add: set_getSortedKey)
  define m' where "m' = fold (\<lambda>k. AList.update k (the (map_of m k))) (getSortedKey m) []"
  have "KVPair_Parse u (KVPair_String m) NewKVPair = Some (Ok None, m')"
    using ParseKV_tokens [OF tokens_entries [OF assms ks], of store "[]"]
    by (simp add: KVPair_Parse_def KVPair_String_def NewKVPair_def ref_kv_entries [OF ks] m'_def)
  moreover have "map_of m' x = map_of m x" for x
    by (cases "map_of m x") (auto simp: m'_def map_of_fold_update set_getSortedKey domIff)
  ultimately show ?thesis by (auto simp: fun_eq_iff)
qed

definition latin :: unicode_tables where
  "latin = \<lparr>wide_letter = (\<lambda>_. False), wide_digit = (\<lambda>_. False)\<rparr>"

definition sample_pair :: kv_pair where
  "sample_pair = [(rs ''name'', Str (rs ''x1'')), (rs ''id'', Strs [rs ''-12'', rs ''y''])]"

lemma sample_plain: "plain_pair latin sample_pair"
  by (simp add: plain_pair_def sample_pair_def ident_word_def plain_value_def plain_def int_word_def
      rs_def ch_def ident_start_def ident_part_def IsLetter_def IsDigit_def)

lemma KVPair_round_trip_witness:
  "plain_pair latin sample_pair \<and>
     (\<exists>m'. KVPair_Parse latin (KVPair_String sample_pair) NewKVPair = Some (Ok None, m')
        \<and> map_of m' (rs ''id'') = Some (Strs [rs ''-12'', rs ''y'']))"
proof -
  have "map_of sample_pair (rs ''id'') = Some (Strs [rs ''-12'', rs ''y''])"
    by (simp add: sample_pair_def rs_def)
  with KVPair_round_trip [OF sample_plain] sample_plain show ?thesis by metis
qed

lemma ParseKV_returns_witness:
  "0 \<notin> set (rs ''a:[1.x'') \<and> (\<exists>r s'. ParseKV latin (rs ''a:[1.x'') store [] = Some (Ok r, s'))"
proof -
  have "0 \<notin> set (rs ''a:[1.x'')" by (simp add: rs_def ch_def)
  with ParseKV_returns [OF this, of latin store "[]"] show ?thesis by simp
qed

lemma sample_tokens:
  "tokens latin kv_ms (rs ''a: x y'')
     [(pbtToken_Identifier, rs ''a''), (pbtToken_Colon, rs '':''), (pbtToken_Identifier, rs ''x''),
      (pbtToken_Identifier, rs ''y'')]"
proof -
  have ident: "ident_word latin (rs ''a'')" "ident_word latin (rs ''x'')" "ident_word latin (rs ''y'')"
    by (simp_all add: ident_word_def ident_start_def rs_def ch_def IsLetter_def IsDigit_def)
  have "tokens latin kv_ms (rs ''y'' @ []) [(pbtToken_Identifier, rs ''y'')]"
    using tokens_word [of latin "rs ''y''", OF _ _ tokens_end [OF lexes_end]] ident
    by (simp add: plain_def word_id_def ends_word_def)
  then have "tokens latin kv_ms (0x20 # rs ''y'') [(pbtToken_Identifier, rs ''y'')]"
    by (intro tokens_space) (simp_all add: stops_def isWhiteSpace_def rs_def ch_def)
  from tokens_word [of latin "rs ''x''", OF _ _ this] ident
  have "tokens latin kv_ms (0x20 # rs ''x y'') [(pbtToken_Identifier, rs ''x''), (pbtToken_Identifier, rs ''y'')]"
    by (intro tokens_space) (simp_all add: plain_def word_id_def ends_word_def stops_def isWhiteSpace_def rs_def ch_def)
  from tokens_word [of latin "rs ''a''", OF _ _ tokens_sign(2) [OF this]] ident
  show ?thesis
    by (simp add: plain_def word_id_def ends_word_def rs_def ch_def)
qed

lemma ParseKV_reference_witness:
  "tokens latin kv_ms (rs ''a: x y'') [(pbtToken_Identifier, rs ''a''), (pbtToken_Colon, rs '':''),
      (pbtToken_Identifier, rs ''x''), (pbtToken_Identifier, rs ''y'')] \<and>
   ParseKV latin (rs ''a: x y'') store [] = Some (Ok (Some (rs ''expect comma: '')), [(rs ''a'', Str (rs ''x''))])"
  using ParseKV_reference [OF sample_tokens, of store "[]"] sample_tokens
  by (simp add: store_def)

text \<open>
  \<^verbatim>\<open>String\<close> does not quote. A value with a space is printed as it is and does not come back: the
  parser keeps the first word and reports an error.
\<close>

lemma KVPair_String_unquoted:
  "KVPair_Parse latin (KVPair_String [(rs ''a'', Str (rs ''x y''))]) NewKVPair
     = Some (Ok (Some (rs ''expect comma: '')), [(rs ''a'', Str (rs ''x''))])"
proof -
  have "KVPair_String [(rs ''a'', Str (rs ''x y''))] = rs ''a: x y''"
    by (simp add: KVPair_String_def getSortedKey_def value_String_def rs_def)
  then show ?thesis
    using ParseKV_tokens [OF sample_tokens, of store "[]"]
    by (simp add: KVPair_Parse_def NewKVPair_def store_def)
qed

text \<open>A list that is not closed is accepted.\<close>

lemma unterminated_list: "ref_kv store [(pbtToken_Identifier, k), (pbtToken_Colon, c),
    (pbtToken_LBrace, b), (pbtToken_Numeral, v)] [] = (None, [(k, Strs [v])])"
  by (simp add: ref_list.simps store_def)
end
