(* ===== verification/Schema_Meta.thy ===== *)
theory Schema_Meta
  imports Golexer_KV
begin

text \<open>
  The schema model of \<^verbatim>\<open>gosproto/meta\<close>: field types (\<^verbatim>\<open>fieldtype.go\<close>), fields (\<^verbatim>\<open>field.go\<close>), structures and
  enumerations (\<^verbatim>\<open>struct.go\<close>), files (\<^verbatim>\<open>file.go\<close>), the set of files (\<^verbatim>\<open>fileset.go\<close>) and references to
  types that are declared later (\<^verbatim>\<open>lazyfield.go\<close>). These objects point to each other and change after
  they are linked, so they live in a heap: a field, a descriptor and a file is an address.
\<close>

section \<open>Field types\<close>

datatype FieldType =
    FieldType_None | FieldType_Integer | FieldType_Int32 | FieldType_Int64 | FieldType_UInt32
  | FieldType_UInt64 | FieldType_Bool | FieldType_String | FieldType_Struct | FieldType_Enum
  | FieldType_Float32 | FieldType_Float64 | FieldType_Bytes

definition fieldtypeByStr :: "(runes \<times> FieldType) list" where
  "fieldtypeByStr =
     [(rs ''boolean'', FieldType_Bool), (rs ''integer'', FieldType_Integer), (rs ''int32'', FieldType_Int32),
      (rs ''int64'', FieldType_Int64), (rs ''uint32'', FieldType_UInt32), (rs ''uint64'', FieldType_UInt64),
      (rs ''string'', FieldType_String), (rs ''struct'', FieldType_Struct), (rs ''enum'', FieldType_Enum),
      (rs ''float32'', FieldType_Float32), (rs ''float64'', FieldType_Float64), (rs ''bytes'', FieldType_Bytes)]"

definition strByFieldtype :: "(FieldType \<times> runes) list" where
  "strByFieldtype = map (\<lambda>(k, v). (v, k)) fieldtypeByStr"

definition ParseFieldType :: "runes \<Rightarrow> FieldType" where
  "ParseFieldType str =
     (case map_of fieldtypeByStr str of
        Some t \<Rightarrow> t
      | None \<Rightarrow> if str = rs ''bool'' then FieldType_Bool else FieldType_None)"

text \<open>Only \<^verbatim>\<open>FieldType_None\<close>, number 0, has no name.\<close>

definition FieldType_name :: "FieldType \<Rightarrow> runes" where
  "FieldType_name t = (case map_of strByFieldtype t of Some v \<Rightarrow> v | None \<Rightarrow> rs ''none(0)'')"

datatype DescriptorType = DescriptorType_None | DescriptorType_Enum | DescriptorType_Struct

section \<open>Objects\<close>

record CommentGroup =
  Leading :: runes
  Trailing :: runes
  taggedComments :: "(runes \<times> runes) list"

definition newCommentGroup :: CommentGroup where
  "newCommentGroup = \<lparr>Leading = [], Trailing = [], taggedComments = []\<rparr>"

record FieldDescriptor =
  fComment :: CommentGroup
  fName :: runes
  fType :: FieldType
  Tag :: int
  AutoTag :: int
  Repeatd :: bool
  MainIndex :: "nat option"
  Complex :: "nat option"
  Struct :: nat

record Descriptor =
  dComment :: CommentGroup
  dName :: runes
  SrcName :: runes
  dType :: DescriptorType
  Fields :: "nat list"
  FieldByName :: "(runes \<times> nat) list"
  FieldByTag :: "(int \<times> nat) list"
  dFile :: nat
  TagBase :: int

record FileDescriptor =
  FileName :: runes
  Structs :: "nat list"
  StructByName :: "(runes \<times> nat) list"
  Enums :: "nat list"
  EnumByName :: "(runes \<times> nat) list"
  ObjectsBySrcName :: "(runes \<times> nat) list"
  Objects :: "nat list"
  in_FileSet :: bool
  fileTag :: "runes list"

record lazyField =
  typeName :: runes
  mainIndexName :: runes
  lazy_fd :: nat
  lazy_d :: nat
  lazy_tp :: TokenPos
  miss :: bool

text \<open>The heap, with the one set of files that a run of the generator has.\<close>

record schema =
  fds :: "FieldDescriptor list"
  ds :: "Descriptor list"
  fls :: "FileDescriptor list"
  Files :: "nat list"
  unknownFields :: "lazyField list"

definition set_fd :: "nat \<Rightarrow> FieldDescriptor \<Rightarrow> schema \<Rightarrow> schema" where
  "set_fd a v h = h\<lparr>fds := (fds h)[a := v]\<rparr>"

definition set_d :: "nat \<Rightarrow> Descriptor \<Rightarrow> schema \<Rightarrow> schema" where
  "set_d a v h = h\<lparr>ds := (ds h)[a := v]\<rparr>"

definition set_fl :: "nat \<Rightarrow> FileDescriptor \<Rightarrow> schema \<Rightarrow> schema" where
  "set_fl a v h = h\<lparr>fls := (fls h)[a := v]\<rparr>"

definition NewFileDescriptorSet :: schema where
  "NewFileDescriptorSet = \<lparr>fds = [], ds = [], fls = [], Files = [], unknownFields = []\<rparr>"

definition NewFileDescriptor :: "schema \<Rightarrow> nat \<times> schema" where
  "NewFileDescriptor h =
     (length (fls h), h\<lparr>fls := fls h @
        [\<lparr>FileName = [], Structs = [], StructByName = [], Enums = [], EnumByName = [],
          ObjectsBySrcName = [], Objects = [], in_FileSet = False, fileTag = []\<rparr>]\<rparr>)"

definition newDescriptor :: "nat \<Rightarrow> schema \<Rightarrow> nat \<times> schema" where
  "newDescriptor file h =
     (length (ds h), h\<lparr>ds := ds h @
        [\<lparr>dComment = newCommentGroup, dName = [], SrcName = [], dType = DescriptorType_None,
          Fields = [], FieldByName = [], FieldByTag = [], dFile = file, TagBase = 0\<rparr>]\<rparr>)"

definition newFieldDescriptor :: "nat \<Rightarrow> schema \<Rightarrow> nat \<times> schema" where
  "newFieldDescriptor d h =
     (length (fds h), h\<lparr>fds := fds h @
        [\<lparr>fComment = newCommentGroup, fName = [], fType = FieldType_None, Tag = 0, AutoTag = -1,
          Repeatd = False, MainIndex = None, Complex = None, Struct = d\<rparr>]\<rparr>)"

definition newLazyField :: "runes \<Rightarrow> nat \<Rightarrow> nat \<Rightarrow> TokenPos \<Rightarrow> lazyField" where
  "newLazyField name fd d tp =
     \<lparr>typeName = name, mainIndexName = [], lazy_fd = fd, lazy_d = d, lazy_tp = tp, miss = False\<rparr>"

section \<open>Comments\<close>

definition CommentGroup_MatchTag :: "CommentGroup \<Rightarrow> runes \<Rightarrow> runes \<times> bool" where
  "CommentGroup_MatchTag cg tag =
     (case find (\<lambda>c. fst c = tag) (taggedComments cg) of
        Some c \<Rightarrow> (snd c, True) | None \<Rightarrow> ([], False))"

definition CommentGroup_String :: "CommentGroup \<Rightarrow> runes" where
  "CommentGroup_String cg = rs ''Leading: '' @ Leading cg @ rs '' Trailing: '' @ Trailing cg"

section \<open>Fields\<close>

definition IsExtendType :: "FieldDescriptor \<Rightarrow> bool" where
  "IsExtendType fd = (case fType fd of FieldType_Float32 \<Rightarrow> True | FieldType_Float64 \<Rightarrow> True | _ \<Rightarrow> False)"

definition ExtendTypePrecision :: "FieldDescriptor \<Rightarrow> int" where
  "ExtendTypePrecision fd =
     (let (str, ok) = CommentGroup_MatchTag (fComment fd) (rs ''ExtendPrecision'');
          precision = (if ok then case ParseInt10 64 str of Some v \<Rightarrow> v | None \<Rightarrow> 1000 else 1000)
      in case fType fd of FieldType_Float32 \<Rightarrow> precision | FieldType_Float64 \<Rightarrow> precision | _ \<Rightarrow> 0)"

definition TagNumber :: "schema \<Rightarrow> nat \<Rightarrow> int" where
  "TagNumber h a =
     (let fd = fds h ! a; tag = (if AutoTag fd = -1 then Tag fd else AutoTag fd)
      in if tag \<noteq> 0 then TagBase (ds h ! Struct fd) + tag else tag)"

text \<open>\<^verbatim>\<open>self.Complex.Name\<close>, where the pointer may be nil.\<close>

definition Complex_Name :: "schema \<Rightarrow> FieldDescriptor \<Rightarrow> ('e, runes) go" where
  "Complex_Name h fd =
     (case Complex fd of None \<Rightarrow> Panic NilDereference | Some d \<Rightarrow> Ok (dName (ds h ! d)))"

definition CompatibleTypeName :: "schema \<Rightarrow> FieldDescriptor \<Rightarrow> ('e, runes) go" where
  "CompatibleTypeName h fd =
     (if fType fd = FieldType_Struct then Complex_Name h fd
      else if fType fd \<in> {FieldType_Int32, FieldType_Int64, FieldType_UInt32, FieldType_UInt64,
                          FieldType_Float32, FieldType_Float64, FieldType_Enum}
      then Ok (FieldType_name FieldType_Integer)
      else if fType fd = FieldType_Bytes then Ok (FieldType_name FieldType_String)
      else Ok (FieldType_name (fType fd)))"

definition TypeName :: "schema \<Rightarrow> FieldDescriptor \<Rightarrow> ('e, runes) go" where
  "TypeName h fd =
     (if fType fd = FieldType_Bool then Ok (rs ''bool'')
      else if fType fd = FieldType_Struct \<or> fType fd = FieldType_Enum then Complex_Name h fd
      else Ok (FieldType_name (fType fd)))"

definition typeStr :: "schema \<Rightarrow> FieldDescriptor \<Rightarrow> bool \<Rightarrow> ('e, runes) go" where
  "typeStr h fd compatible =
     bind_go (if compatible then CompatibleTypeName h fd else TypeName h fd) (\<lambda>name.
       Ok ((if Repeatd fd then if compatible then rs ''*'' else rs ''[]'' else []) @ name
           @ (case MainIndex fd of None \<Rightarrow> [] | Some i \<Rightarrow> rs ''('' @ fName (fds h ! i) @ rs '')'')))"

definition FieldDescriptor_String :: "schema \<Rightarrow> nat \<Rightarrow> ('e, runes) go" where
  "FieldDescriptor_String h a =
     bind_go (typeStr h (fds h ! a) False) (\<lambda>t.
       Ok (fName (fds h ! a) @ rs '' '' @ rs (itoa (TagNumber h a)) @ rs '' : '' @ t))"

definition Kind :: "FieldDescriptor \<Rightarrow> runes" where
  "Kind fd = FieldType_name (fType fd)"

section \<open>Structures and enumerations\<close>

definition MaxTag :: "schema \<Rightarrow> nat \<Rightarrow> int" where
  "MaxTag h d = fold (\<lambda>a ret. if TagNumber h a > ret then TagNumber h a else ret) (Fields (ds h ! d)) 0"

definition Descriptor_TypeName :: "Descriptor \<Rightarrow> runes" where
  "Descriptor_TypeName d =
     (case dType d of DescriptorType_Enum \<Rightarrow> rs ''enum'' | DescriptorType_Struct \<Rightarrow> rs ''struct''
      | DescriptorType_None \<Rightarrow> rs ''none'')"

fun count_fields :: "int list \<Rightarrow> int \<Rightarrow> nat \<Rightarrow> (runes, nat) go" where
  "count_fields [] lastTag maxn = Ok maxn"
| "count_fields (t # ts) lastTag maxn =
     (if t < lastTag then Err (rs ''tag must in ascending order'')
      else count_fields ts t (if t > lastTag + 1 then maxn + 1 else maxn))"

definition MaxFieldCount :: "schema \<Rightarrow> nat \<Rightarrow> (runes, nat) go" where
  "MaxFieldCount h d =
     count_fields (map (TagNumber h) (Fields (ds h ! d))) (-1) (length (Fields (ds h ! d)))"

fun field_lines :: "schema \<Rightarrow> nat list \<Rightarrow> ('e, runes) go" where
  "field_lines h [] = Ok []"
| "field_lines h (a # as) =
     bind_go (FieldDescriptor_String h a) (\<lambda>s.
     bind_go (field_lines h as) (\<lambda>r. Ok ([0x09] @ s @ [0x0A] @ r)))"

definition Descriptor_String :: "schema \<Rightarrow> nat \<Rightarrow> ('e, runes) go" where
  "Descriptor_String h d =
     bind_go (field_lines h (Fields (ds h ! d))) (\<lambda>ls.
       Ok (dName (ds h ! d) @ rs '':'' @ [0x0A] @ ls @ [0x0A]))"

definition addField :: "nat \<Rightarrow> nat \<Rightarrow> schema \<Rightarrow> schema" where
  "addField d a h =
     (let v = ds h ! d; fd = fds h ! a
      in set_d d (v\<lparr>Fields := Fields v @ [a], FieldByName := AList.update (fName fd) a (FieldByName v),
                    FieldByTag := AList.update (Tag fd) a (FieldByTag v)\<rparr>) h)"

section \<open>Files\<close>

definition File_MatchTag :: "FileDescriptor \<Rightarrow> runes \<Rightarrow> bool" where
  "File_MatchTag f tag \<longleftrightarrow> fileTag f = [] \<or> tag \<in> set (fileTag f)"

fun object_lines :: "schema \<Rightarrow> nat list \<Rightarrow> ('e, runes) go" where
  "object_lines h [] = Ok []"
| "object_lines h (d # dl) =
     bind_go (Descriptor_String h d) (\<lambda>s. bind_go (object_lines h dl) (\<lambda>r. Ok (s @ [0x0A] @ r)))"

definition File_String :: "schema \<Rightarrow> nat \<Rightarrow> ('e, runes) go" where
  "File_String h f =
     bind_go (object_lines h (Enums (fls h ! f))) (\<lambda>es.
     bind_go (object_lines h (Structs (fls h ! f))) (\<lambda>ss.
       Ok (rs ''Enum:'' @ es @ [0x0A] @ rs ''Structs:'' @ ss)))"

definition NameExists :: "FileDescriptor \<Rightarrow> runes \<Rightarrow> bool" where
  "NameExists f name \<longleftrightarrow> map_of (StructByName f) name \<noteq> None \<or> map_of (EnumByName f) name \<noteq> None"

definition addObject :: "nat \<Rightarrow> nat \<Rightarrow> runes \<Rightarrow> schema \<Rightarrow> schema" where
  "addObject f d srcName h =
     (let v = ds h ! d; fv = fls h ! f;
          fv1 = (case dType v of
                   DescriptorType_Enum \<Rightarrow>
                     fv\<lparr>Enums := Enums fv @ [d], EnumByName := AList.update (dName v) d (EnumByName fv)\<rparr>
                 | DescriptorType_Struct \<Rightarrow>
                     fv\<lparr>Structs := Structs fv @ [d], StructByName := AList.update (dName v) d (StructByName fv)\<rparr>
                 | DescriptorType_None \<Rightarrow> fv);
          h1 = set_d d (v\<lparr>SrcName := srcName\<rparr>) h
      in set_fl f (fv1\<lparr>Objects := Objects fv1 @ [d],
                       ObjectsBySrcName := AList.update srcName d (ObjectsBySrcName fv1)\<rparr>) h1)"

definition rawParseType :: "FileDescriptor \<Rightarrow> runes \<Rightarrow> FieldType \<times> nat option" where
  "rawParseType f name =
     (case map_of (StructByName f) name of
        Some d \<Rightarrow> (FieldType_Struct, Some d)
      | None \<Rightarrow>
         (case map_of (EnumByName f) name of
            Some d \<Rightarrow> (FieldType_Enum, Some d)
          | None \<Rightarrow> (FieldType_None, None)))"

section \<open>The set of files and late references\<close>

definition addFile :: "nat \<Rightarrow> schema \<Rightarrow> schema" where
  "addFile f h = (set_fl f ((fls h ! f)\<lparr>in_FileSet := True\<rparr>) h)\<lparr>Files := Files h @ [f]\<rparr>"

fun first_type :: "FileDescriptor list \<Rightarrow> runes \<Rightarrow> FieldType \<times> nat option" where
  "first_type [] name = (FieldType_None, None)"
| "first_type (f # fs) name =
     (if fst (rawParseType f name) \<noteq> FieldType_None then rawParseType f name else first_type fs name)"

definition fileset_parseType :: "schema \<Rightarrow> runes \<Rightarrow> FieldType \<times> nat option" where
  "fileset_parseType h name = first_type (map (\<lambda>f. fls h ! f) (Files h)) name"

text \<open>\<^verbatim>\<open>self.Struct.File.FileSet\<close> is nil for a file that was not added to a set.\<close>

definition parseType :: "schema \<Rightarrow> nat \<Rightarrow> runes \<Rightarrow> ('e, FieldType \<times> nat option) go" where
  "parseType h a name =
     (if ParseFieldType name \<noteq> FieldType_None then Ok (ParseFieldType name, None)
      else if \<not> in_FileSet (fls h ! dFile (ds h ! Struct (fds h ! a))) then Panic NilDereference
      else if fst (fileset_parseType h name) \<noteq> FieldType_None then Ok (fileset_parseType h name)
      else Ok (FieldType_None, None))"

text \<open>The result: whether another pass is needed, the error, the reference and the heap.\<close>

definition resolve ::
    "int \<Rightarrow> lazyField \<Rightarrow> schema \<Rightarrow> ('e, bool \<times> runes option \<times> lazyField \<times> schema) go" where
  "resolve pass lf h =
     bind_go (parseType h (lazy_fd lf) (typeName lf)) (\<lambda>(ft, d).
       let h1 = set_fd (lazy_fd lf) ((fds h ! lazy_fd lf)\<lparr>fType := ft, Complex := d\<rparr>) h in
       if ft = FieldType_None then
         if pass > 1 then Ok (True, Some (rs ''type not found: '' @ typeName lf), lf, h1)
         else Ok (True, None, lf\<lparr>miss := True\<rparr>, h1)
       else if mainIndexName lf \<noteq> [] then
         (case d of
            None \<Rightarrow> Panic NilDereference
          | Some c \<Rightarrow>
             (case map_of (FieldByName (ds h1 ! c)) (mainIndexName lf) of
                Some i \<Rightarrow>
                  Ok (False, None, lf, set_fd (lazy_fd lf) ((fds h1 ! lazy_fd lf)\<lparr>MainIndex := Some i\<rparr>) h1)
              | None \<Rightarrow>
                  if pass > 1 then Ok (True, Some (rs ''Main index not found:'' @ mainIndexName lf), lf, h1)
                  else Ok (True, None, lf, h1)))
       else Ok (False, None, lf, h1))"

fun resolve_list :: "lazyField list \<Rightarrow> schema \<Rightarrow> ('e, runes option \<times> schema) go" where
  "resolve_list [] h = Ok (None, h)"
| "resolve_list (lf # lfs) h =
     bind_go (resolve 2 lf h) (\<lambda>(_, err, _, h1).
       if err \<noteq> None then Ok (err, h1) else resolve_list lfs h1)"

definition resolveAll :: "schema \<Rightarrow> ('e, runes option \<times> schema) go" where
  "resolveAll h = resolve_list (unknownFields h) h"

end
