(* ===== verification/Schema_Heap.thy ===== *)
theory Schema_Heap
  imports Schema_Meta
begin

text \<open>
  The invariant of the schema heap and the operations that keep it: pointers lead to objects, the
  name tables agree with the lists, no name is given twice, and a field has a type or waits for the
  second pass. A field or a descriptor is \<open>loose\<close> while the parser still fills it in.
\<close>

section \<open>The invariant\<close>

definition in_structs :: "FileDescriptor list \<Rightarrow> nat \<Rightarrow> bool" where
  "in_structs fs c \<longleftrightarrow> (\<exists>f \<in> set fs. c \<in> set (Structs f))"

definition in_enums :: "FileDescriptor list \<Rightarrow> nat \<Rightarrow> bool" where
  "in_enums fs c \<longleftrightarrow> (\<exists>f \<in> set fs. c \<in> set (Enums f))"

definition fd_ok :: "schema \<Rightarrow> FieldDescriptor \<Rightarrow> bool" where
  "fd_ok h v \<longleftrightarrow> Struct v < length (ds h)
     \<and> (\<forall>c. Complex v = Some c \<longrightarrow>
          (fType v = FieldType_Struct \<and> in_structs (fls h) c)
        \<or> (fType v = FieldType_Enum \<and> in_enums (fls h) c))
     \<and> (\<forall>i. MainIndex v = Some i \<longrightarrow> i < length (fds h))"

definition has_type :: "schema \<Rightarrow> nat \<Rightarrow> bool" where
  "has_type h a \<longleftrightarrow> fType (fds h ! a) \<noteq> FieldType_None \<or> a \<in> lazy_fd ` set (unknownFields h)"

definition named :: "('a \<Rightarrow> runes) \<Rightarrow> (nat \<Rightarrow> 'a) \<Rightarrow> nat list \<Rightarrow> (runes \<times> nat) list \<Rightarrow> bool" where
  "named name obj l tab \<longleftrightarrow>
     (\<forall>n x. map_of tab n = Some x \<longleftrightarrow> x \<in> set l \<and> name (obj x) = n)"

definition desc_ok :: "schema \<Rightarrow> nat \<Rightarrow> bool" where
  "desc_ok h d \<longleftrightarrow>
     (let v = ds h ! d in dFile v < length (fls h)
        \<and> (\<forall>a \<in> set (Fields v). a < length (fds h) \<and> Struct (fds h ! a) = d \<and> has_type h a)
        \<and> distinct (map (\<lambda>a. fName (fds h ! a)) (Fields v))
        \<and> named fName (\<lambda>a. fds h ! a) (Fields v) (FieldByName v)
        \<and> (\<forall>a \<in> ran (map_of (FieldByTag v)). a \<in> set (Fields v)))"

definition file_ok :: "schema \<Rightarrow> nat \<Rightarrow> bool" where
  "file_ok h f \<longleftrightarrow>
     (let v = fls h ! f in
        (\<forall>d \<in> set (Structs v). d < length (ds h) \<and> dType (ds h ! d) = DescriptorType_Struct \<and> dFile (ds h ! d) = f)
      \<and> (\<forall>d \<in> set (Enums v). d < length (ds h) \<and> dType (ds h ! d) = DescriptorType_Enum \<and> dFile (ds h ! d) = f)
      \<and> distinct (map (\<lambda>d. dName (ds h ! d)) (Structs v @ Enums v))
      \<and> named dName (\<lambda>d. ds h ! d) (Structs v) (StructByName v)
      \<and> named dName (\<lambda>d. ds h ! d) (Enums v) (EnumByName v)
      \<and> set (Objects v) = set (Structs v) \<union> set (Enums v))"

definition lazy_ok :: "schema \<Rightarrow> lazyField \<Rightarrow> bool" where
  "lazy_ok h lf \<longleftrightarrow> lazy_fd lf < length (fds h) \<and> lazy_d lf < length (ds h)"

definition schema_ok :: "schema \<Rightarrow> bool" where
  "schema_ok h \<longleftrightarrow>
     (\<forall>v \<in> set (fds h). fd_ok h v) \<and> (\<forall>d < length (ds h). desc_ok h d)
   \<and> (\<forall>f < length (fls h). file_ok h f) \<and> (\<forall>f \<in> set (Files h). f < length (fls h))
   \<and> (\<forall>lf \<in> set (unknownFields h). lazy_ok h lf)"

definition loose_fd :: "schema \<Rightarrow> nat \<Rightarrow> bool" where
  "loose_fd h a \<longleftrightarrow> a < length (fds h) \<and> (\<forall>v \<in> set (ds h). a \<notin> set (Fields v))"

definition loose_d :: "schema \<Rightarrow> nat \<Rightarrow> bool" where
  "loose_d h d \<longleftrightarrow> d < length (ds h) \<and> (\<forall>v \<in> set (fls h). d \<notin> set (Structs v) \<union> set (Enums v))"

named_theorems schema_defs

lemmas [schema_defs] = set_fd_def set_d_def set_fl_def

lemma schema_ok_new: "schema_ok NewFileDescriptorSet"
  by (simp add: schema_ok_def NewFileDescriptorSet_def)

lemma member_fd:
  assumes "schema_ok h" "v \<in> set (ds h)" "a \<in> set (Fields v)"
  shows "a < length (fds h)"
proof -
  from assms(2) obtain d where "d < length (ds h)" "v = ds h ! d" by (auto simp: in_set_conv_nth)
  with assms(1,3) show ?thesis by (simp add: schema_ok_def desc_ok_def Let_def)
qed

lemma member_d:
  assumes "schema_ok h" "v \<in> set (fls h)" "d \<in> set (Structs v) \<union> set (Enums v)"
  shows "d < length (ds h)"
proof -
  from assms(2) obtain f where "f < length (fls h)" "v = fls h ! f" by (auto simp: in_set_conv_nth)
  with assms(1,3) show ?thesis by (auto simp: schema_ok_def file_ok_def Let_def)
qed

lemma schema_okD:
  assumes "schema_ok h"
  shows "v \<in> set (fds h) \<Longrightarrow> fd_ok h v" "d < length (ds h) \<Longrightarrow> desc_ok h d"
    "f < length (fls h) \<Longrightarrow> file_ok h f"
  using assms by (simp_all add: schema_ok_def)

lemma in_append [simp]:
  "in_structs (fs @ gs) c \<longleftrightarrow> in_structs fs c \<or> in_structs gs c"
  "in_enums (fs @ gs) c \<longleftrightarrow> in_enums fs c \<or> in_enums gs c"
  by (auto simp: in_structs_def in_enums_def)

lemma nth_update: "xs[d := v] ! e = (if e = d \<and> d < length xs then v else xs ! e)"
  by (auto simp: nth_list_update list_update_beyond)

lemma named_fresh:
  assumes "named name obj l tab" "map_of tab n = None"
  shows "\<forall>y \<in> set l. name (obj y) \<noteq> n"
proof (intro ballI notI)
  fix y assume "y \<in> set l" "name (obj y) = n"
  with assms(1) have "map_of tab n = Some y" by (simp add: named_def)
  with assms(2) show False by simp
qed

lemma named_add:
  assumes "named name obj l tab" "\<forall>y \<in> set l. name (obj y) \<noteq> name (obj x)"
  shows "named name obj (l @ [x]) (AList.update (name (obj x)) x tab)"
  using assms by (auto simp: named_def update_conv')

lemma update_cases: "w \<in> set (xs[a := v]) \<Longrightarrow> w = v \<or> w \<in> set xs"
  using set_update_subset_insert [of xs a v] by blast

section \<open>New objects\<close>

lemma desc_ok_append_fds:
  "desc_ok h d \<Longrightarrow> desc_ok (h\<lparr>fds := fds h @ [v]\<rparr>) d"
  by (auto simp: desc_ok_def Let_def has_type_def nth_append named_def cong: map_cong)

lemma newFieldDescriptor_ok:
  assumes "schema_ok h" "d < length (ds h)" "newFieldDescriptor d h = (a, h')"
  shows "schema_ok h' \<and> a = length (fds h) \<and> loose_fd h' a \<and> Struct (fds h' ! a) = d
    \<and> Complex (fds h' ! a) = None \<and> ds h' = ds h \<and> fls h' = fls h"
proof -
  from assms(3) have a: "a = length (fds h)" by (simp add: newFieldDescriptor_def)
  obtain v where h': "h' = h\<lparr>fds := fds h @ [v]\<rparr>" and v: "Struct v = d" "Complex v = None" "MainIndex v = None"
    using assms(3) by (auto simp: newFieldDescriptor_def)
  have "a \<notin> set (Fields w)" if "w \<in> set (ds h)" for w
    using member_fd [OF assms(1) that, of a] by (auto simp: a)
  then have "loose_fd h' a" by (simp add: loose_fd_def h' a)
  moreover have "schema_ok h'"
    using assms(1,2) v unfolding schema_ok_def
    by (auto simp: h' desc_ok_append_fds file_ok_def Let_def lazy_ok_def fd_ok_def less_SucI)
  ultimately show ?thesis by (simp add: h' a v)
qed


lemma newDescriptor_ok:
  assumes "schema_ok h" "f < length (fls h)" "newDescriptor f h = (d, h')"
  shows "schema_ok h' \<and> d = length (ds h) \<and> loose_d h' d \<and> dFile (ds h' ! d) = f
    \<and> Fields (ds h' ! d) = [] \<and> fds h' = fds h \<and> fls h' = fls h"
proof -
  from assms(3) have d: "d = length (ds h)" by (simp add: newDescriptor_def)
  obtain v where h': "h' = h\<lparr>ds := ds h @ [v]\<rparr>" and v: "dFile v = f" "Fields v = []" "FieldByName v = []"
    "FieldByTag v = []"
    using assms(3) by (auto simp: newDescriptor_def)
  have "loose_d h' d"
    using member_d [OF assms(1), of _ d] by (auto simp: loose_d_def h' d)
  moreover have "schema_ok h'"
    unfolding schema_ok_def
  proof (intro conjI allI impI ballI)
    fix w assume "w \<in> set (fds h')"
    with assms(1) show "fd_ok h' w" by (auto simp: schema_ok_def h' fd_ok_def)
  next
    fix e assume e: "e < length (ds h')"
    show "desc_ok h' e"
    proof (cases "e = d")
      case True
      with assms(2) v show ?thesis by (simp add: h' d desc_ok_def Let_def named_def)
    next
      case False
      with e have "e < length (ds h)" by (simp add: h' d)
      with schema_okD(2) [OF assms(1) this] show ?thesis
        by (simp add: h' desc_ok_def Let_def nth_append has_type_def)
    qed
  next
    fix g assume g: "g < length (fls h')"
    then have "file_ok h g" using assms(1) by (simp add: schema_ok_def h')
    moreover from this have "\<forall>e \<in> set (Structs (fls h ! g)) \<union> set (Enums (fls h ! g)). (ds h @ [v]) ! e = ds h ! e"
      by (auto simp: file_ok_def Let_def nth_append)
    ultimately show "file_ok h' g"
      by (auto simp: file_ok_def Let_def h' named_def less_SucI cong: map_cong)
  qed (use assms(1) in \<open>auto simp: schema_ok_def h' lazy_ok_def\<close>)
  ultimately show ?thesis by (simp add: h' d v)
qed

lemma NewFileDescriptor_ok:
  assumes "schema_ok h" "NewFileDescriptor h = (f, h')"
  shows "schema_ok h' \<and> f = length (fls h) \<and> f < length (fls h') \<and> ds h' = ds h \<and> fds h' = fds h"
proof -
  from assms(2) have f: "f = length (fls h)" by (simp add: NewFileDescriptor_def)
  obtain v where h': "h' = h\<lparr>fls := fls h @ [v]\<rparr>" and v: "Structs v = []" "Enums v = []" "Objects v = []"
    "StructByName v = []" "EnumByName v = []"
    using assms(2) by (auto simp: NewFileDescriptor_def)
  have "schema_ok h'"
    unfolding schema_ok_def
  proof (intro conjI allI impI ballI)
    fix w assume "w \<in> set (fds h')"
    with assms(1) show "fd_ok h' w" by (auto simp: schema_ok_def h' fd_ok_def)
  next
    fix e assume "e < length (ds h')"
    with assms(1) show "desc_ok h' e"
      by (auto simp: schema_ok_def h' desc_ok_def Let_def has_type_def less_SucI)
  next
    fix g assume g: "g < length (fls h')"
    show "file_ok h' g"
    proof (cases "g = f")
      case True
      with v show ?thesis by (simp add: h' f file_ok_def Let_def named_def)
    next
      case False
      with g have "g < length (fls h)" by (simp add: h' f)
      with schema_okD(3) [OF assms(1) this] show ?thesis
        by (simp add: h' file_ok_def Let_def nth_append)
    qed
  qed (use assms(1) in \<open>auto simp: schema_ok_def h' lazy_ok_def\<close>)
  then show ?thesis by (simp add: h' f)
qed

section \<open>Changes\<close>

text \<open>Filling in a field that no descriptor has yet.\<close>

lemma set_loose_fd_ok:
  assumes "schema_ok h" "loose_fd h a" "fd_ok h v"
  shows "schema_ok (set_fd a v h) \<and> loose_fd (set_fd a v h) a"
proof -
  have same: "b \<in> set (Fields w) \<Longrightarrow> w \<in> set (ds h) \<Longrightarrow> (fds h)[a := v] ! b = fds h ! b" for b w
    using assms(2) by (cases "b = a") (auto simp: loose_fd_def)
  have "desc_ok (set_fd a v h) d" if d: "d < length (ds h)" for d
  proof -
    have "desc_ok h d" using assms(1) d by (simp add: schema_ok_def)
    moreover have "\<forall>b \<in> set (Fields (ds h ! d)). (fds h)[a := v] ! b = fds h ! b"
      using same d by simp
    ultimately show ?thesis
      by (auto simp: desc_ok_def Let_def set_fd_def named_def has_type_def cong: map_cong)
  qed
  moreover have "fd_ok (set_fd a v h) w" if "w \<in> set ((fds h)[a := v])" for w
    using update_cases [OF that] assms(3) schema_okD(1) [OF assms(1)] by (auto simp: fd_ok_def set_fd_def)
  ultimately show ?thesis
    using assms(1,2) unfolding schema_ok_def
    by (auto simp: set_fd_def file_ok_def Let_def lazy_ok_def loose_fd_def)
qed

text \<open>The second pass changes what a field refers to, not its name or its owner.\<close>

lemma set_member_fd_ok:
  assumes "schema_ok h" "a < length (fds h)" "fd_ok h v" "fName v = fName (fds h ! a)"
    "Struct v = Struct (fds h ! a)" "fType v \<noteq> FieldType_None \<or> a \<in> lazy_fd ` set (unknownFields h)"
  shows "schema_ok (set_fd a v h)"
proof -
  have "desc_ok (set_fd a v h) d" if d: "d < length (ds h)" for d
  proof -
    have "desc_ok h d" using assms(1) d by (simp add: schema_ok_def)
    moreover have "fName ((fds h)[a := v] ! b) = fName (fds h ! b)" "Struct ((fds h)[a := v] ! b) = Struct (fds h ! b)" for b
      using assms(2,4,5) by (auto simp: nth_list_update)
    moreover have "has_type h b \<Longrightarrow> has_type (set_fd a v h) b" for b
      using assms(2,6) by (auto simp: has_type_def set_fd_def nth_list_update)
    ultimately show ?thesis
      by (auto simp: desc_ok_def Let_def set_fd_def named_def cong: map_cong)
  qed
  moreover have "fd_ok (set_fd a v h) w" if "w \<in> set ((fds h)[a := v])" for w
    using update_cases [OF that] assms(3) schema_okD(1) [OF assms(1)] by (auto simp: fd_ok_def set_fd_def)
  ultimately show ?thesis
    using assms(1) unfolding schema_ok_def
    by (auto simp: set_fd_def file_ok_def Let_def lazy_ok_def)
qed

lemma set_loose_d_ok:
  assumes "schema_ok h" "loose_d h d"
    and v: "Fields v = Fields (ds h ! d)" "FieldByName v = FieldByName (ds h ! d)"
      "FieldByTag v = FieldByTag (ds h ! d)" "dFile v = dFile (ds h ! d)"
  shows "schema_ok (set_d d v h) \<and> loose_d (set_d d v h) d"
proof -
  have d: "d < length (ds h)" using assms(2) by (simp add: loose_d_def)
  have "desc_ok (set_d d v h) e" if "e < length (ds h)" for e
    using schema_okD(2) [OF assms(1) that] v d
    by (cases "e = d") (auto simp: desc_ok_def Let_def set_d_def has_type_def)
  moreover have "file_ok (set_d d v h) f" if f: "f < length (fls h)" for f
  proof -
    have "\<forall>e \<in> set (Structs (fls h ! f)) \<union> set (Enums (fls h ! f)). (ds h)[d := v] ! e = ds h ! e"
      using assms(2) f by (auto simp: loose_d_def intro!: nth_list_update_neq)
    with schema_okD(3) [OF assms(1) f] show ?thesis
      by (auto simp: file_ok_def Let_def set_d_def named_def cong: map_cong)
  qed
  ultimately show ?thesis
    using assms(1,2) unfolding schema_ok_def
    by (auto simp: set_d_def fd_ok_def lazy_ok_def loose_d_def)
qed

lemma addField_ok:
  assumes "schema_ok h" "d < length (ds h)" "loose_fd h a" "Struct (fds h ! a) = d" "has_type h a"
    and new: "map_of (FieldByName (ds h ! d)) (fName (fds h ! a)) = None"
  shows "schema_ok (addField d a h)"
proof -
  let ?v = "ds h ! d"
  have D: "desc_ok h d" using schema_okD(2) [OF assms(1,2)] .
  have a: "a \<notin> set (Fields ?v)" "a < length (fds h)" using assms(2,3) by (auto simp: loose_fd_def)
  have nm: "named fName (\<lambda>b. fds h ! b) (Fields ?v) (FieldByName ?v)"
    using D by (simp add: desc_ok_def Let_def)
  note fresh = named_fresh [OF nm new]
  let ?w = "?v\<lparr>Fields := Fields ?v @ [a], FieldByName := AList.update (fName (fds h ! a)) a (FieldByName ?v),
      FieldByTag := AList.update (Tag (fds h ! a)) a (FieldByTag ?v)\<rparr>"
  have v': "ds (addField d a h) ! d = ?w" "fds (addField d a h) = fds h" "fls (addField d a h) = fls h"
    using assms(2) by (simp_all add: addField_def set_d_def Let_def)
  have "desc_ok (addField d a h) e" if "e < length (ds h)" for e
  proof (cases "e = d")
    case True
    have "named fName (\<lambda>b. fds h ! b) (Fields ?v @ [a]) (AList.update (fName (fds h ! a)) a (FieldByName ?v))"
      by (rule named_add [OF nm fresh])
    moreover have "\<forall>b \<in> ran (map_of (AList.update (Tag (fds h ! a)) a (FieldByTag ?v))). b \<in> set (Fields ?v @ [a])"
      using D by (auto simp: update_conv' desc_ok_def Let_def ran_def split: if_splits)
    moreover have "distinct (map (\<lambda>b. fName (fds h ! b)) (Fields ?v @ [a]))"
      using D a(1) bspec [OF fresh] by (fastforce simp: desc_ok_def Let_def)
    moreover have "\<forall>b \<in> set (Fields ?v @ [a]). b < length (fds h) \<and> Struct (fds h ! b) = d \<and> has_type h b"
      using D assms(4,5) a(2) by (simp add: desc_ok_def Let_def)
    moreover have "dFile ?v < length (fls h)" using D by (simp add: desc_ok_def Let_def)
    moreover have "has_type (addField d a h) b = has_type h b" for b
      by (simp add: has_type_def addField_def set_d_def Let_def)
    ultimately show ?thesis
      unfolding True desc_ok_def Let_def
      by (simp add: v')
  next
    case False
    with schema_okD(2) [OF assms(1) that] show ?thesis
      by (simp add: addField_def set_d_def desc_ok_def Let_def has_type_def)
  qed
  moreover have "file_ok (addField d a h) f" if f: "f < length (fls h)" for f
  proof -
    have "dType (ds (addField d a h) ! e) = dType (ds h ! e)" "dName (ds (addField d a h) ! e) = dName (ds h ! e)"
      "dFile (ds (addField d a h) ! e) = dFile (ds h ! e)" for e
      using assms(2) by (cases "e = d"; simp add: addField_def set_d_def Let_def)+
    moreover have "length (ds (addField d a h)) = length (ds h)" "fls (addField d a h) = fls h"
      by (simp_all add: addField_def set_d_def Let_def)
    ultimately show ?thesis
      using schema_okD(3) [OF assms(1) f] by (simp add: file_ok_def Let_def named_def)
  qed
  ultimately show ?thesis
    using assms(1) unfolding schema_ok_def
    by (auto simp: addField_def set_d_def Let_def fd_ok_def lazy_ok_def)
qed

lemma addField_simps:
  "fls (addField d a h) = fls h" "length (ds (addField d a h)) = length (ds h)"
  "dFile (ds (addField d a h) ! e) = dFile (ds h ! e)" "dType (ds (addField d a h) ! e) = dType (ds h ! e)"
  "dName (ds (addField d a h) ! e) = dName (ds h ! e)"
  by (simp_all add: addField_def set_d_def Let_def nth_update)

lemma file_ok_add:
  assumes "file_ok h f" "d < length (ds h)" "dFile (ds h ! d) = f" "dType (ds h ! d) \<noteq> DescriptorType_None"
    and new: "\<not> NameExists (fls h ! f) (dName (ds h ! d))"
    and f: "f < length (fls h)"
  shows "file_ok (addObject f d srcName h) f"
proof -
  let ?v = "fls h ! f"
  let ?h = "addObject f d srcName h"
  have len: "length (ds ?h) = length (ds h)" and same: "dName (ds ?h ! e) = dName (ds h ! e)"
    "dType (ds ?h ! e) = dType (ds h ! e)" "dFile (ds ?h ! e) = dFile (ds h ! e)" for e
    by (simp_all add: addObject_def set_fl_def set_d_def Let_def nth_update)
  have V: "\<forall>e \<in> set (Structs ?v). e < length (ds h) \<and> dType (ds h ! e) = DescriptorType_Struct \<and> dFile (ds h ! e) = f"
    "\<forall>e \<in> set (Enums ?v). e < length (ds h) \<and> dType (ds h ! e) = DescriptorType_Enum \<and> dFile (ds h ! e) = f"
    "distinct (map (\<lambda>e. dName (ds h ! e)) (Structs ?v @ Enums ?v))"
    "set (Objects ?v) = set (Structs ?v) \<union> set (Enums ?v)"
    and nm: "named dName (\<lambda>e. ds h ! e) (Structs ?v) (StructByName ?v)"
    "named dName (\<lambda>e. ds h ! e) (Enums ?v) (EnumByName ?v)"
    using assms(1) unfolding file_ok_def Let_def by blast+
  have fresh: "\<forall>e \<in> set (Structs ?v). dName (ds h ! e) \<noteq> dName (ds h ! d)"
    "\<forall>e \<in> set (Enums ?v). dName (ds h ! e) \<noteq> dName (ds h ! d)"
    using new by (auto simp: NameExists_def intro!: named_fresh [OF nm(1)] named_fresh [OF nm(2)])
  have distinct: "dName (ds h ! d) \<notin> set (map (\<lambda>e. dName (ds h ! e)) (Structs ?v @ Enums ?v))"
    using fresh by fastforce
  have nm': "named dName (\<lambda>e. ds ?h ! e) l tab = named dName (\<lambda>e. ds h ! e) l tab" for l tab
    by (simp add: named_def same)
  show ?thesis
  proof (cases "dType (ds h ! d)")
    case DescriptorType_Enum
    then have w: "Structs (fls ?h ! f) = Structs ?v" "Enums (fls ?h ! f) = Enums ?v @ [d]"
      "StructByName (fls ?h ! f) = StructByName ?v" "Objects (fls ?h ! f) = Objects ?v @ [d]"
      "EnumByName (fls ?h ! f) = AList.update (dName (ds h ! d)) d (EnumByName ?v)"
      using f by (simp_all add: addObject_def set_fl_def set_d_def Let_def)
    show ?thesis
      unfolding file_ok_def Let_def w nm' same len
      using V nm(1) named_add [OF nm(2) fresh(2)] distinct DescriptorType_Enum assms(2,3)
      by (intro conjI) (simp_all add: Un_assoc)
  next
    case DescriptorType_Struct
    then have w: "Structs (fls ?h ! f) = Structs ?v @ [d]" "Enums (fls ?h ! f) = Enums ?v"
      "EnumByName (fls ?h ! f) = EnumByName ?v" "Objects (fls ?h ! f) = Objects ?v @ [d]"
      "StructByName (fls ?h ! f) = AList.update (dName (ds h ! d)) d (StructByName ?v)"
      using f by (simp_all add: addObject_def set_fl_def set_d_def Let_def)
    show ?thesis
      unfolding file_ok_def Let_def w nm' same len
      using V nm(2) named_add [OF nm(1) fresh(1)] distinct DescriptorType_Struct assms(2,3)
      by (intro conjI) (simp_all add: Un_assoc)
  qed (use assms(4) in simp)
qed

lemma addObject_ok:
  assumes "schema_ok h" "f < length (fls h)" "d < length (ds h)" "dFile (ds h ! d) = f"
    "dType (ds h ! d) \<noteq> DescriptorType_None" "\<not> NameExists (fls h ! f) (dName (ds h ! d))"
  shows "schema_ok (addObject f d srcName h)"
proof -
  let ?h = "addObject f d srcName h"
  obtain w where h: "?h = set_fl f w (set_d d ((ds h ! d)\<lparr>SrcName := srcName\<rparr>) h)"
    and w: "set (Structs (fls h ! f)) \<subseteq> set (Structs w)" "set (Enums (fls h ! f)) \<subseteq> set (Enums w)"
    by (force simp: addObject_def Let_def split: DescriptorType.split)
  have same: "dName (ds ?h ! e) = dName (ds h ! e)" "dType (ds ?h ! e) = dType (ds h ! e)"
    "dFile (ds ?h ! e) = dFile (ds h ! e)" "Fields (ds ?h ! e) = Fields (ds h ! e)"
    "FieldByName (ds ?h ! e) = FieldByName (ds h ! e)" "FieldByTag (ds ?h ! e) = FieldByTag (ds h ! e)" for e
    using assms(3) by (cases "e = d"; simp add: h set_fl_def set_d_def)+
  have len: "length (ds ?h) = length (ds h)" "length (fls ?h) = length (fls h)" "fds ?h = fds h"
    "Files ?h = Files h" "unknownFields ?h = unknownFields h"
    by (simp_all add: h set_fl_def set_d_def)
  have "file_ok ?h g" if "g < length (fls h)" for g
  proof (cases "g = f")
    case True
    with file_ok_add [OF schema_okD(3) [OF assms(1,2)] assms(3-6,2)] show ?thesis by simp
  next
    case False
    then have "fls ?h ! g = fls h ! g" by (simp add: h set_fl_def set_d_def)
    with schema_okD(3) [OF assms(1) that] show ?thesis
      by (simp add: file_ok_def Let_def same len named_def)
  qed
  moreover have "set (Structs (fls h ! i)) \<subseteq> set (Structs (fls ?h ! i))"
      "set (Enums (fls h ! i)) \<subseteq> set (Enums (fls ?h ! i))" for i
    using w assms(2) by (simp_all add: h set_fl_def set_d_def nth_update)
  then have reg: "in_structs (fls h) c \<Longrightarrow> in_structs (fls ?h) c" "in_enums (fls h) c \<Longrightarrow> in_enums (fls ?h) c" for c
    unfolding in_structs_def in_enums_def by (fastforce simp: in_set_conv_nth [where xs = "fls h"] in_set_conv_nth [where xs = "fls ?h"] len)+
  have "fd_ok ?h v" if "v \<in> set (fds h)" for v
    using schema_okD(1) [OF assms(1) that] reg by (auto simp: fd_ok_def len)
  moreover have "desc_ok ?h e" if "e < length (ds h)" for e
    using schema_okD(2) [OF assms(1) that] by (simp add: desc_ok_def Let_def same len has_type_def)
  ultimately show ?thesis
    using assms(1) by (simp add: schema_ok_def len lazy_ok_def)
qed

text \<open>Attributes of a file that the invariant does not mention, and adding it to the set.\<close>

lemma set_fl_ok:
  assumes "schema_ok h" "f < length (fls h)"
    and w: "Structs w = Structs (fls h ! f)" "Enums w = Enums (fls h ! f)" "Objects w = Objects (fls h ! f)"
      "StructByName w = StructByName (fls h ! f)" "EnumByName w = EnumByName (fls h ! f)"
  shows "schema_ok (set_fl f w h)"
proof -
  have same: "Structs (fls (set_fl f w h) ! g) = Structs (fls h ! g)" "Enums (fls (set_fl f w h) ! g) = Enums (fls h ! g)"
    "Objects (fls (set_fl f w h) ! g) = Objects (fls h ! g)"
    "StructByName (fls (set_fl f w h) ! g) = StructByName (fls h ! g)"
    "EnumByName (fls (set_fl f w h) ! g) = EnumByName (fls h ! g)" for g
    using assms(2) w by (simp_all add: set_fl_def nth_update)
  have len: "length (fls (set_fl f w h)) = length (fls h)" by (simp add: set_fl_def)
  have "in_structs (fls (set_fl f w h)) c = in_structs (fls h) c" "in_enums (fls (set_fl f w h)) c = in_enums (fls h) c" for c
    by (auto simp: in_structs_def in_enums_def in_set_conv_nth len same) (metis len nth_mem same)+
  moreover have "fds (set_fl f w h) = fds h" "ds (set_fl f w h) = ds h" "Files (set_fl f w h) = Files h"
    "unknownFields (set_fl f w h) = unknownFields h" by (simp_all add: set_fl_def)
  ultimately show ?thesis
    using assms(1)
    by (simp add: schema_ok_def fd_ok_def desc_ok_def file_ok_def lazy_ok_def has_type_def Let_def same len)
qed

lemma addFile_ok:
  assumes "schema_ok h" "f < length (fls h)"
  shows "schema_ok (addFile f h)"
  using set_fl_ok [OF assms, of "(fls h ! f)\<lparr>in_FileSet := True\<rparr>"] assms(2)
  by (simp add: addFile_def schema_ok_def fd_ok_def desc_ok_def file_ok_def lazy_ok_def has_type_def
      Let_def set_fl_def)

section \<open>References\<close>

lemma first_type_in:
  assumes "first_type fs name = (ft, Some c)" "set fs \<subseteq> set gs"
    and "\<forall>f \<in> set fs. named dName obj (Structs f) (StructByName f) \<and> named dName obj (Enums f) (EnumByName f)"
  shows "(ft = FieldType_Struct \<and> in_structs gs c) \<or> (ft = FieldType_Enum \<and> in_enums gs c)"
  using assms
proof (induction fs)
  case (Cons f fs)
  then show ?case
    by (auto simp: rawParseType_def named_def in_structs_def in_enums_def split: if_splits option.splits)
qed simp

lemma fileset_parseType_in:
  assumes "schema_ok h" "fileset_parseType h name = (ft, Some c)"
  shows "(ft = FieldType_Struct \<and> in_structs (fls h) c) \<or> (ft = FieldType_Enum \<and> in_enums (fls h) c)"
proof (rule first_type_in)
  show "first_type (map (\<lambda>f. fls h ! f) (Files h)) name = (ft, Some c)"
    using assms(2) by (simp add: fileset_parseType_def)
  show "set (map (\<lambda>f. fls h ! f) (Files h)) \<subseteq> set (fls h)"
    using assms(1) by (auto simp: schema_ok_def)
  show "\<forall>f \<in> set (map (\<lambda>f. fls h ! f) (Files h)). named dName (\<lambda>d. ds h ! d) (Structs f) (StructByName f)
      \<and> named dName (\<lambda>d. ds h ! d) (Enums f) (EnumByName f)"
    using assms(1) by (auto simp: schema_ok_def file_ok_def Let_def)
qed

lemma in_structs_d: "schema_ok h \<Longrightarrow> in_structs (fls h) c \<Longrightarrow> c < length (ds h)"
  and in_enums_d: "schema_ok h \<Longrightarrow> in_enums (fls h) c \<Longrightarrow> c < length (ds h)"
  using member_d by (auto simp: in_structs_def in_enums_def)

lemma parseType_in:
  assumes "schema_ok h" "parseType h a name = Ok (ft, Some c)"
  shows "(ft = FieldType_Struct \<and> in_structs (fls h) c) \<or> (ft = FieldType_Enum \<and> in_enums (fls h) c)"
  using assms(2) fileset_parseType_in [OF assms(1), of name ft c]
  by (auto simp: parseType_def split: if_splits)

lemma resolve_cases:
  assumes "(if a then if b then Ok (True, Some x, lf, h1) else Ok (True, None, lfm, h1)
     else if c then
       (case d of None \<Rightarrow> Panic q
        | Some e \<Rightarrow> (case g e of Some i \<Rightarrow> Ok (False, None, lf, k i)
                      | None \<Rightarrow> if b then Ok (True, Some y, lf, h1) else Ok (True, None, lf, h1)))
     else Ok (False, None, lf, h1)) = (Ok (need, err, lf', h') :: ('e, _) go)"
  shows "(h' = h1 \<and> (lf' = lf \<or> lf' = lfm) \<and> (a \<longrightarrow> need \<and> (b \<longrightarrow> err \<noteq> None)))
     \<or> (\<not> a \<and> lf' = lf \<and> (\<exists>e i. d = Some e \<and> g e = Some i \<and> h' = k i))"
  using assms by (auto split: if_splits option.splits)

text \<open>A pass over a reference sets the type, the type it refers to and the main index of its field.\<close>

lemma resolve_spec:
  assumes "schema_ok h" "lazy_fd lf < length (fds h)" "resolve pass lf h = (Ok (need, err, lf', h') :: ('e, _) go)"
  shows "\<exists>v. h' = set_fd (lazy_fd lf) v h \<and> fd_ok h v \<and> fName v = fName (fds h ! lazy_fd lf)
     \<and> Struct v = Struct (fds h ! lazy_fd lf) \<and> lazy_fd lf' = lazy_fd lf \<and> lazy_d lf' = lazy_d lf
     \<and> (fType v = FieldType_None \<longrightarrow> need \<and> (pass > 1 \<longrightarrow> err \<noteq> None))"
proof -
  let ?a = "lazy_fd lf"
  let ?old = "fds h ! ?a"
  obtain ft d where P: "(parseType h ?a (typeName lf) :: ('e, _) go) = Ok (ft, d)"
    using assms(3) by (auto simp: resolve_def bind_go_eq_Ok)
  let ?v = "?old\<lparr>fType := ft, Complex := d\<rparr>"
  have old: "fd_ok h ?old" using schema_okD(1) [OF assms(1) nth_mem [OF assms(2)]] .
  have d: "d = Some c \<Longrightarrow> (ft = FieldType_Struct \<and> in_structs (fls h) c) \<or> (ft = FieldType_Enum \<and> in_enums (fls h) c)" for c
    using parseType_in [OF assms(1), of ?a "typeName lf" ft c] P by simp
  have v: "fd_ok h ?v" using old d by (auto simp: fd_ok_def)
  have idx: "i < length (fds h)"
    if "d = Some c" "map_of (FieldByName (ds h ! c)) n = Some i" for c n i
  proof -
    have "c < length (ds h)" using d [OF that(1)] in_structs_d [OF assms(1)] in_enums_d [OF assms(1)] by blast
    with schema_okD(2) [OF assms(1) this] that(2) show ?thesis
      by (auto simp: desc_ok_def Let_def named_def)
  qed
  have w: "fd_ok h (?v\<lparr>MainIndex := Some i\<rparr>)" if "i < length (fds h)" for i
    using v that by (simp add: fd_ok_def)
  define h1 where "h1 = set_fd ?a ?v h"
  have h1: "fds h1 ! ?a = ?v" "ds h1 = ds h" "set_fd ?a x h1 = set_fd ?a x h" for x
    using assms(2) by (simp_all add: h1_def set_fd_def)
  have R: "(if ft = FieldType_None then
        if pass > 1 then Ok (True, Some (rs ''type not found: '' @ typeName lf), lf, h1)
        else Ok (True, None, lf\<lparr>miss := True\<rparr>, h1)
      else if mainIndexName lf \<noteq> [] then
        (case d of
           None \<Rightarrow> Panic NilDereference
         | Some c \<Rightarrow>
            (case map_of (FieldByName (ds h ! c)) (mainIndexName lf) of
               Some i \<Rightarrow> Ok (False, None, lf, set_fd ?a (?v\<lparr>MainIndex := Some i\<rparr>) h)
             | None \<Rightarrow>
                 if pass > 1 then Ok (True, Some (rs ''Main index not found:'' @ mainIndexName lf), lf, h1)
                 else Ok (True, None, lf, h1)))
      else Ok (False, None, lf, h1)) = (Ok (need, err, lf', h') :: ('e, _) go)"
    using assms(3) [unfolded resolve_def P bind_go.simps prod.case Let_def, folded h1_def, unfolded h1] .
  from resolve_cases [OF R] show ?thesis
  proof (elim disjE conjE exE)
    assume "h' = h1" "lf' = lf" "ft = FieldType_None \<longrightarrow> need \<and> (1 < pass \<longrightarrow> err \<noteq> None)"
    with v show ?thesis by (intro exI [of _ ?v]) (simp add: h1_def)
  next
    assume "h' = h1" "lf' = lf\<lparr>miss := True\<rparr>" "ft = FieldType_None \<longrightarrow> need \<and> (1 < pass \<longrightarrow> err \<noteq> None)"
    with v show ?thesis by (intro exI [of _ ?v]) (simp add: h1_def)
  next
    fix c i assume ci: "d = Some c" "map_of (FieldByName (ds h ! c)) (mainIndexName lf) = Some i"
      and h': "h' = set_fd ?a (?v\<lparr>MainIndex := Some i\<rparr>) h" "lf' = lf" "ft \<noteq> FieldType_None"
    show ?thesis
      by (rule exI [of _ "?v\<lparr>MainIndex := Some i\<rparr>"]) (simp add: w [OF idx [OF ci]] h')
  qed
qed

lemma resolve_panic: "resolve pass lf h = Panic q \<Longrightarrow> q = NilDereference"
  by (auto simp: resolve_def bind_go_eq_Panic parseType_def Let_def split: if_splits option.splits)

lemma resolve_no_Err: "resolve pass lf h \<noteq> Err e"
  by (auto simp: resolve_def bind_go_eq_Err parseType_def Let_def split: if_splits option.splits)

text \<open>The second pass leaves no field of its list without a type, or reports an error.\<close>

lemma resolve_list_ok:
  assumes "schema_ok h" "\<forall>lf \<in> set lfs. lf \<in> set (unknownFields h)" "resolve_list lfs h = (Ok (err, h') :: ('e, _) go)"
  shows "schema_ok h' \<and> ds h' = ds h \<and> fls h' = fls h \<and> unknownFields h' = unknownFields h
    \<and> length (fds h') = length (fds h)
    \<and> (\<forall>a. fType (fds h ! a) \<noteq> FieldType_None \<longrightarrow> err = None \<longrightarrow> fType (fds h' ! a) \<noteq> FieldType_None)
    \<and> (err = None \<longrightarrow> (\<forall>lf \<in> set lfs. fType (fds h' ! lazy_fd lf) \<noteq> FieldType_None))"
  using assms
proof (induction lfs arbitrary: h)
  case (Cons lf lfs)
  have lf: "lf \<in> set (unknownFields h)" using Cons.prems(2) by simp
  then have a: "lazy_fd lf < length (fds h)" using Cons.prems(1) by (auto simp: schema_ok_def lazy_ok_def)
  from Cons.prems(3) obtain need err1 lf' h1 where
    R: "resolve 2 lf h = (Ok (need, err1, lf', h1) :: ('e, _) go)"
    and rest: "(if err1 \<noteq> None then Ok (err1, h1) else resolve_list lfs h1) = (Ok (err, h') :: ('e, _) go)"
    by (auto simp: bind_go_eq_Ok)
  from resolve_spec [OF Cons.prems(1) a R] obtain v where v: "h1 = set_fd (lazy_fd lf) v h" "fd_ok h v"
    "fName v = fName (fds h ! lazy_fd lf)" "Struct v = Struct (fds h ! lazy_fd lf)"
    "fType v = FieldType_None \<longrightarrow> err1 \<noteq> None" by auto
  have ok1: "schema_ok h1"
    using set_member_fd_ok [OF Cons.prems(1) a v(2-4)] lf by (simp add: v(1))
  have same: "ds h1 = ds h" "fls h1 = fls h" "unknownFields h1 = unknownFields h" "length (fds h1) = length (fds h)"
    by (simp_all add: v(1) set_fd_def)
  show ?case
  proof (cases "err1 = None")
    case False
    with rest ok1 same show ?thesis by auto
  next
    case True
    then have "resolve_list lfs h1 = (Ok (err, h') :: ('e, _) go)" using rest by simp
    from Cons.IH [OF ok1 _ this] Cons.prems(2) have IH: "schema_ok h'" "ds h' = ds h1" "fls h' = fls h1"
      "unknownFields h' = unknownFields h1" "length (fds h') = length (fds h1)"
      "\<forall>a. fType (fds h1 ! a) \<noteq> FieldType_None \<longrightarrow> err = None \<longrightarrow> fType (fds h' ! a) \<noteq> FieldType_None"
      "err = None \<longrightarrow> (\<forall>lf \<in> set lfs. fType (fds h' ! lazy_fd lf) \<noteq> FieldType_None)"
      by (simp_all add: same)
    have "fType (fds h1 ! lazy_fd lf) \<noteq> FieldType_None" using v(5) True a by (simp add: v(1) set_fd_def)
    moreover have "fType (fds h ! b) \<noteq> FieldType_None \<longrightarrow> fType (fds h1 ! b) \<noteq> FieldType_None" for b
      using v(5) True by (auto simp: v(1) set_fd_def nth_update)
    ultimately show ?thesis using IH same by auto
  qed
qed simp

lemma resolveAll_ok:
  assumes "schema_ok h" "resolveAll h = Ok (err, h')"
  shows "schema_ok h' \<and> (err = None \<longrightarrow>
    (\<forall>d < length (ds h'). \<forall>a \<in> set (Fields (ds h' ! d)). fType (fds h' ! a) \<noteq> FieldType_None))"
proof -
  note R = resolve_list_ok [OF assms(1) _ assms(2) [unfolded resolveAll_def], simplified]
  have "has_type h' a" if "d < length (ds h')" "a \<in> set (Fields (ds h' ! d))" for d a
    using schema_okD(2) [of h' d] R that by (auto simp: desc_ok_def Let_def)
  with R show ?thesis by (auto simp: has_type_def)
qed
end
