(* ===== verification/Gen_Model.thy ===== *)
theory Gen_Model
  imports Cellnet_Codec Schema_Heap
begin

text \<open>
  What the generators of \<^verbatim>\<open>gosproto/sprotogen\<close> share: the models of files, structures and fields that
  the templates are run on (\<^verbatim>\<open>model.go\<close>), the numbers of messages (\<^verbatim>\<open>strhash.go\<close>), the groups of
  enumeration values (\<^verbatim>\<open>enumvaluegroup.go\<close>) and the text of a template (\<^verbatim>\<open>util.go\<close>). Generated text is a
  Go string, a list of bytes; the names in a schema are runes.
\<close>

section \<open>Strings of runes\<close>

definition utf8_rune :: "rune \<Rightarrow> string" where
  "utf8_rune r =
     (let c = unat r in
      if c < 0x80 then [char_of c]
      else if c < 0x800 then [char_of (0xC0 + c div 64), char_of (0x80 + c mod 64)]
      else if c > 0x10FFFF \<or> 0xD800 \<le> c \<and> c \<le> 0xDFFF then [char_of (0xEF :: nat), char_of (0xBF :: nat), char_of (0xBD :: nat)]
      else if c < 0x10000 then [char_of (0xE0 + c div 4096), char_of (0x80 + c div 64 mod 64), char_of (0x80 + c mod 64)]
      else [char_of (0xF0 + c div 262144), char_of (0x80 + c div 4096 mod 64), char_of (0x80 + c div 64 mod 64),
            char_of (0x80 + c mod 64)])"

definition go_string :: "runes \<Rightarrow> string" where
  "go_string w = concat (map utf8_rune w)"

text \<open>\<^verbatim>\<open>strings.ToUpper(string(b))\<close> for a byte: the byte is taken as a code point of Latin-1.\<close>

definition upper_byte :: "char \<Rightarrow> string" where
  "upper_byte b =
     (let c = of_char b :: nat in
      if 97 \<le> c \<and> c \<le> 122 then [char_of (c - 32)]
      else if c = 0xB5 then utf8_rune 0x39C
      else if 0xE0 \<le> c \<and> c \<le> 0xFE \<and> c \<noteq> 0xF7 then utf8_rune (word_of_nat (c - 32))
      else if c = 0xFF then utf8_rune 0x178
      else utf8_rune (word_of_nat c))"

definition publicFieldName :: "string \<Rightarrow> ('e, string) go" where
  "publicFieldName name =
     (case name of [] \<Rightarrow> Panic IndexOutOfRange | b # bs \<Rightarrow> Ok (upper_byte b @ bs))"

text \<open>\<^verbatim>\<open>strings.TrimSpace\<close> on runes.\<close>

definition is_space_rune :: "rune \<Rightarrow> bool" where
  "is_space_rune r \<longleftrightarrow> 0x09 \<le> r \<and> r \<le> 0x0D \<or> r \<in> {0x20, 0x85, 0xA0, 0x1680, 0x2028, 0x2029, 0x202F, 0x205F, 0x3000}
     \<or> 0x2000 \<le> r \<and> r \<le> 0x200A"

definition trim_runes :: "runes \<Rightarrow> runes" where
  "trim_runes w = rev (dropWhile is_space_rune (rev (dropWhile is_space_rune w)))"

definition gen_StringHash :: "runes \<Rightarrow> u32" where
  "gen_StringHash s = hash_runes 0 s"

section \<open>The models\<close>

record fieldModel =
  fmField :: nat
  FieldIndex :: nat

record structModel =
  smDesc :: nat
  StFields :: "fieldModel list"

text \<open>\<open>mIgnoreType\<close> are the enumerations whose \<^verbatim>\<open>EnumValueIgnoreType\<close> is set.\<close>

record fileModel =
  mStructs :: "structModel list"
  mEnums :: "structModel list"
  mObjects :: "structModel list"
  PackageName :: runes
  CellnetReg :: bool
  forceAutoTag :: bool
  mClassAttr :: string
  mFieldAttr :: string
  EnumValueGroup :: bool
  mIgnoreType :: "nat list"

definition struct_model :: "schema \<Rightarrow> nat \<Rightarrow> structModel" where
  "struct_model h d =
     (let fs = Fields (ds h ! d)
      in \<lparr>smDesc = d, StFields = map (\<lambda>i. \<lparr>fmField = fs ! i, FieldIndex = i\<rparr>) [0..<length fs]\<rparr>)"

fun add_objects :: "schema \<Rightarrow> runes \<Rightarrow> nat list \<Rightarrow> fileModel \<Rightarrow> fileModel" where
  "add_objects h srcName [] fm = fm"
| "add_objects h srcName (d # dl) fm =
     (if srcName \<noteq> [] \<and> SrcName (ds h ! d) \<noteq> srcName then add_objects h srcName dl fm
      else
        let st = struct_model h d; fm1 = fm\<lparr>mObjects := mObjects fm @ [st]\<rparr>
        in add_objects h srcName dl
             (case dType (ds h ! d) of
                DescriptorType_Enum \<Rightarrow> fm1\<lparr>mEnums := mEnums fm1 @ [st]\<rparr>
              | DescriptorType_Struct \<Rightarrow> fm1\<lparr>mStructs := mStructs fm1 @ [st]\<rparr>
              | DescriptorType_None \<Rightarrow> fm1))"

definition addStruct :: "schema \<Rightarrow> nat \<Rightarrow> runes \<Rightarrow> fileModel \<Rightarrow> fileModel" where
  "addStruct h f srcName fm = add_objects h srcName (Objects (fls h ! f)) fm"

definition addData :: "schema \<Rightarrow> runes \<Rightarrow> fileModel \<Rightarrow> fileModel" where
  "addData h matchTag fm =
     fold (\<lambda>f fm. if File_MatchTag (fls h ! f) matchTag then addStruct h f [] fm else fm) (Files h) fm"

definition UpperName :: "schema \<Rightarrow> nat \<Rightarrow> ('e, string) go" where
  "UpperName h a = publicFieldName (go_string (fName (fds h ! a)))"

definition is_result :: "schema \<Rightarrow> nat \<Rightarrow> bool" where
  "is_result h d \<longleftrightarrow> has_suffix (go_string (dName (ds h ! d))) ''Result''"

definition IsEnum :: "schema \<Rightarrow> structModel \<Rightarrow> bool" where
  "IsEnum h st \<longleftrightarrow> dType (ds h ! smDesc st) = DescriptorType_Enum"

definition IsStruct :: "schema \<Rightarrow> structModel \<Rightarrow> bool" where
  "IsStruct h st \<longleftrightarrow> dType (ds h ! smDesc st) = DescriptorType_Struct"

definition IsResultEnum :: "schema \<Rightarrow> structModel \<Rightarrow> bool" where
  "IsResultEnum h st \<longleftrightarrow> IsEnum h st \<and> is_result h (smDesc st)"

definition MsgFullName :: "schema \<Rightarrow> fileModel \<Rightarrow> structModel \<Rightarrow> runes" where
  "MsgFullName h fm st = PackageName fm @ rs ''.'' @ dName (ds h ! smDesc st)"

definition MsgID :: "schema \<Rightarrow> fileModel \<Rightarrow> structModel \<Rightarrow> u32" where
  "MsgID h fm st = gen_StringHash (MsgFullName h fm st)"

definition FieldCount :: "structModel \<Rightarrow> nat" where
  "FieldCount st = length (StFields st)"

section \<open>The values of result enumerations\<close>

datatype gen_error =
    DuplicateValue int nat nat
  | TemplateError runes

text \<open>A second field with the same number ends the generator.\<close>

fun group_fields :: "schema \<Rightarrow> nat list \<Rightarrow> (int \<Rightarrow> nat option) \<Rightarrow> (gen_error, int \<Rightarrow> nat option) go" where
  "group_fields h [] tags = Ok tags"
| "group_fields h (a # as) tags =
     (if TagNumber h a = 0 then group_fields h as tags
      else case tags (TagNumber h a) of
             Some prev \<Rightarrow> Err (DuplicateValue (TagNumber h a) a prev)
           | None \<Rightarrow> group_fields h as (tags(TagNumber h a \<mapsto> a)))"

definition enum_offset :: "schema \<Rightarrow> nat \<Rightarrow> int option" where
  "enum_offset h e =
     (let (raw, ok) = CommentGroup_MatchTag (dComment (ds h ! e)) (rs ''EnumValueOffset'')
      in if ok then ParseInt10 32 (trim_runes raw) else None)"

definition set_base :: "nat \<Rightarrow> schema \<Rightarrow> schema" where
  "set_base e h =
     (case enum_offset h e of None \<Rightarrow> h | Some v \<Rightarrow> set_d e ((ds h ! e)\<lparr>TagBase := v\<rparr>) h)"

fun group_enums ::
    "nat list \<Rightarrow> schema \<times> nat list \<times> (int \<Rightarrow> nat option)
      \<Rightarrow> (gen_error, schema \<times> nat list \<times> (int \<Rightarrow> nat option)) go" where
  "group_enums [] st = Ok st"
| "group_enums (e # es) (h, ignored, tags) =
     (let h = set_base e h in
      if is_result h e then
        bind_go (group_fields h (Fields (ds h ! e)) tags) (\<lambda>tags. group_enums es (h, ignored @ [e], tags))
      else group_enums es (h, ignored, tags))"

definition schema_enums :: "schema \<Rightarrow> nat list" where
  "schema_enums h = concat (map (\<lambda>f. Enums (fls h ! f)) (Files h))"

definition enumValueGroup :: "schema \<Rightarrow> (gen_error, schema \<times> nat list) go" where
  "enumValueGroup h =
     bind_go (group_enums (schema_enums h) (h, [], \<lambda>_. None)) (\<lambda>(h, ignored, _). Ok (h, ignored))"

section \<open>Running a generator\<close>

text \<open>
  A template yields its text or the error that ends the program. \<^verbatim>\<open>gofmt\<close> is the formatter of the Go
  library, \<open>None\<close> its error; the text is then written as it is. \<open>files\<close> are the files by name.
\<close>

definition generateCode ::
    "(string \<Rightarrow> string option) \<Rightarrow> bool \<Rightarrow> (gen_error, string) go \<Rightarrow> string \<Rightarrow> (string \<Rightarrow> string option)
      \<Rightarrow> (gen_error, string \<times> (string \<Rightarrow> string option)) go" where
  "generateCode gofmt formatGoCode tpl output files =
     bind_go tpl (\<lambda>bf.
       let bf = (if formatGoCode then case gofmt bf of Some t \<Rightarrow> t | None \<Rightarrow> bf else bf)
       in Ok (bf, if output \<noteq> [] then files(output \<mapsto> bf) else files))"

text \<open>\<^verbatim>\<open>{{range}}\<close>: the texts of the elements, one after the other.\<close>

fun range_text :: "('a \<Rightarrow> ('e, string) go) \<Rightarrow> 'a list \<Rightarrow> ('e, string) go" where
  "range_text body [] = Ok []"
| "range_text body (x # xs) =
     bind_go (body x) (\<lambda>t. bind_go (range_text body xs) (\<lambda>r. Ok (t @ r)))"

definition new_fileModel :: "runes \<Rightarrow> bool \<Rightarrow> string \<Rightarrow> string \<Rightarrow> bool \<Rightarrow> fileModel" where
  "new_fileModel package reg classAttr fieldAttr grp =
     \<lparr>mStructs = [], mEnums = [], mObjects = [], PackageName = package, CellnetReg = reg, forceAutoTag = False,
      mClassAttr = classAttr, mFieldAttr = fieldAttr, EnumValueGroup = grp, mIgnoreType = []\<rparr>"

definition genFile ::
    "(schema \<Rightarrow> fileModel \<Rightarrow> (gen_error, 'r) go) \<Rightarrow> fileModel \<Rightarrow> schema \<Rightarrow> (gen_error, 'r \<times> schema) go" where
  "genFile generator fm h =
     (if EnumValueGroup fm
      then bind_go (enumValueGroup h) (\<lambda>(h, ignored).
             bind_go (generator h (fm\<lparr>mIgnoreType := ignored\<rparr>)) (\<lambda>r. Ok (r, h)))
      else bind_go (generator h fm) (\<lambda>r. Ok (r, h)))"

section \<open>Shared facts\<close>

lemma utf8_ascii: "(of_char c :: nat) < 128 \<Longrightarrow> utf8_rune (ch c) = [c]"
  using unat_ch [of c] by (simp add: utf8_rune_def)

lemma go_string_rs: "\<forall>c \<in> set s. (of_char c :: nat) < 128 \<Longrightarrow> go_string (rs s) = s"
  by (induction s) (simp_all add: go_string_def rs_def utf8_ascii)

lemma go_string_append: "go_string (v @ w) = go_string v @ go_string w"
  by (simp add: go_string_def)

lemma range_text_ok:
  "(\<And>x. x \<in> set xs \<Longrightarrow> \<exists>t. body x = Ok t) \<Longrightarrow> \<exists>t. range_text body xs = Ok t"
  by (induction xs) fastforce+

section \<open>Values are given once\<close>

lemma group_fields_spec:
  assumes "group_fields h as tags = Ok tags'"
  shows "(\<forall>t a. tags t = Some a \<longrightarrow> tags' t = Some a)
    \<and> (\<forall>a \<in> set as. TagNumber h a \<noteq> 0 \<longrightarrow> tags' (TagNumber h a) = Some a)
    \<and> (\<forall>t a. tags' t = Some a \<longrightarrow> tags t = Some a \<or> a \<in> set as \<and> TagNumber h a = t)"
  using assms
proof (induction as arbitrary: tags)
  case (Cons a as)
  show ?case
  proof (cases "TagNumber h a = 0")
    case True
    with Cons show ?thesis by auto
  next
    case False
    with Cons.prems have t: "tags (TagNumber h a) = None" and r: "group_fields h as (tags(TagNumber h a \<mapsto> a)) = Ok tags'"
      by (auto split: option.splits)
    note IH = Cons.IH [OF r]
    from IH have "tags' (TagNumber h a) = Some a" by simp
    moreover have "tags' x = Some y" if "tags x = Some y" for x y
      using IH t that by (metis fun_upd_other option.distinct(1))
    moreover have "tags x = Some y \<or> y \<in> set (a # as) \<and> TagNumber h y = x" if "tags' x = Some y" for x y
      using IH that by (metis fun_upd_apply list.set_intros(1,2) option.inject)
    ultimately show ?thesis using IH by simp
  qed
qed simp

text \<open>What stays as it is: only the bases of the numbers change.\<close>

definition same_enums :: "schema \<Rightarrow> schema \<Rightarrow> bool" where
  "same_enums h h' \<longleftrightarrow> fds h' = fds h \<and> fls h' = fls h \<and> Files h' = Files h \<and> length (ds h') = length (ds h)
     \<and> (\<forall>d. (ds h' ! d)\<lparr>TagBase := 0\<rparr> = (ds h ! d)\<lparr>TagBase := 0\<rparr>)"

lemma same_enums_fields:
  assumes "same_enums h h'"
  shows "Fields (ds h' ! d) = Fields (ds h ! d)" "dName (ds h' ! d) = dName (ds h ! d)" "dComment (ds h' ! d) = dComment (ds h ! d)"
    "dType (ds h' ! d) = dType (ds h ! d)" "dFile (ds h' ! d) = dFile (ds h ! d)"
proof -
  have e: "(ds h' ! d)\<lparr>TagBase := 0\<rparr> = (ds h ! d)\<lparr>TagBase := 0\<rparr>" using assms by (simp add: same_enums_def)
  from arg_cong [OF e, of Fields] show "Fields (ds h' ! d) = Fields (ds h ! d)" by simp
  from arg_cong [OF e, of dName] show "dName (ds h' ! d) = dName (ds h ! d)" by simp
  from arg_cong [OF e, of dComment] show "dComment (ds h' ! d) = dComment (ds h ! d)" by simp
  from arg_cong [OF e, of dType] show "dType (ds h' ! d) = dType (ds h ! d)" by simp
  from arg_cong [OF e, of dFile] show "dFile (ds h' ! d) = dFile (ds h ! d)" by simp
qed

lemma same_enums_refl: "same_enums h h"
  by (simp add: same_enums_def)

lemma same_enums_trans: "same_enums h h' \<Longrightarrow> same_enums h' h'' \<Longrightarrow> same_enums h h''"
  by (simp add: same_enums_def)

lemma set_base_same: "same_enums h (set_base e h)"
  by (auto simp: same_enums_def set_base_def set_d_def nth_update split: option.splits)

lemma same_offset: "same_enums h h' \<Longrightarrow> enum_offset h' e = enum_offset h e"
  by (simp add: enum_offset_def same_enums_fields)

lemma same_result: "same_enums h h' \<Longrightarrow> is_result h' e = is_result h e"
  by (simp add: is_result_def same_enums_fields)

definition based :: "schema \<Rightarrow> nat \<Rightarrow> bool" where
  "based h e \<longleftrightarrow> (\<forall>v. enum_offset h e = Some v \<longrightarrow> TagBase (ds h ! e) = v)"

lemma based_fixed: "based h e \<Longrightarrow> e < length (ds h) \<Longrightarrow> set_base e h = h"
  by (cases "enum_offset h e") (simp_all add: based_def set_base_def set_d_def)

lemma based_set_base: "e < length (ds h) \<Longrightarrow> based (set_base e h) e"
  using same_offset [OF set_base_same [of h e], of e] unfolding based_def
  by (cases "enum_offset h e") (simp_all add: set_base_def set_d_def)

lemma TagNumber_set_base: "Struct (fds h ! a) \<noteq> e \<Longrightarrow> TagNumber (set_base e h) a = TagNumber h a"
  by (cases "enum_offset h e") (simp_all add: TagNumber_def set_base_def set_d_def Let_def)

text \<open>The enumerations \<open>es\<close> are done: their bases are set and the numbers of the result fields are taken.\<close>

definition grouped :: "nat list \<Rightarrow> schema \<times> nat list \<times> (int \<Rightarrow> nat option) \<Rightarrow> bool" where
  "grouped es st \<longleftrightarrow>
     (case st of (h, ignored, tags) \<Rightarrow>
        ignored = filter (is_result h) es
      \<and> (\<forall>e \<in> set es. e < length (ds h) \<and> based h e \<and> (\<forall>a \<in> set (Fields (ds h ! e)). Struct (fds h ! a) = e))
      \<and> (\<forall>t a. tags t = Some a \<longrightarrow> TagNumber h a = t \<and> Struct (fds h ! a) \<in> set es)
      \<and> (\<forall>e \<in> set es. is_result h e \<longrightarrow>
           (\<forall>a \<in> set (Fields (ds h ! e)). TagNumber h a \<noteq> 0 \<longrightarrow> tags (TagNumber h a) = Some a)))"

lemma groupedD:
  assumes "grouped es (h, ignored, tags)"
  shows "ignored = filter (is_result h) es"
    and "e \<in> set es \<Longrightarrow> e < length (ds h) \<and> based h e"
    and "e \<in> set es \<Longrightarrow> a \<in> set (Fields (ds h ! e)) \<Longrightarrow> Struct (fds h ! a) = e"
    and "tags t = Some a \<Longrightarrow> TagNumber h a = t \<and> Struct (fds h ! a) \<in> set es"
    and "e \<in> set es \<Longrightarrow> is_result h e \<Longrightarrow> a \<in> set (Fields (ds h ! e)) \<Longrightarrow> TagNumber h a \<noteq> 0 \<Longrightarrow> tags (TagNumber h a) = Some a"
  using assms by (simp_all add: grouped_def)

lemma groupedI:
  assumes "ignored = filter (is_result h) es"
    and "\<And>e. e \<in> set es \<Longrightarrow> e < length (ds h) \<and> based h e"
    and "\<And>e a. e \<in> set es \<Longrightarrow> a \<in> set (Fields (ds h ! e)) \<Longrightarrow> Struct (fds h ! a) = e"
    and "\<And>t a. tags t = Some a \<Longrightarrow> TagNumber h a = t \<and> Struct (fds h ! a) \<in> set es"
    and "\<And>e a. e \<in> set es \<Longrightarrow> is_result h e \<Longrightarrow> a \<in> set (Fields (ds h ! e)) \<Longrightarrow> TagNumber h a \<noteq> 0 \<Longrightarrow> tags (TagNumber h a) = Some a"
  shows "grouped es (h, ignored, tags)"
  using assms by (simp add: grouped_def)

lemma grouped_base:
  assumes "grouped es (h, ignored, tags)" "e < length (ds h)"
  shows "grouped es (set_base e h, ignored, tags)"
proof (cases "e \<in> set es")
  case True
  with assms have "set_base e h = h" using based_fixed by (auto simp: grouped_def)
  with assms show ?thesis by simp
next
  case False
  let ?h = "set_base e h"
  have s: "same_enums h ?h" by (rule set_base_same)
  have other: "ds ?h ! d = ds h ! d" if "d \<noteq> e" for d
    using that by (cases "enum_offset h e") (simp_all add: set_base_def set_d_def)
  have f: "fds ?h = fds h" "length (ds ?h) = length (ds h)" using s by (simp_all add: same_enums_def)
  note d = groupedD [OF assms(1)]
  have n: "TagNumber ?h a = TagNumber h a" if "Struct (fds h ! a) \<in> set es" for a
    using that False by (auto intro!: TagNumber_set_base)
  show ?thesis
  proof (rule groupedI)
    show "ignored = filter (is_result ?h) es" using d(1) same_result [OF s] by (simp cong: filter_cong)
  next
    fix e' assume e': "e' \<in> set es"
    then have "e' \<noteq> e" using False by blast
    with d(2) [OF e'] other [of e'] same_offset [OF s, of e'] show "e' < length (ds ?h) \<and> based ?h e'"
      by (simp add: based_def f)
  next
    fix e' a assume "e' \<in> set es" "a \<in> set (Fields (ds ?h ! e'))"
    with d(3) show "Struct (fds ?h ! a) = e'" by (simp add: f same_enums_fields [OF s])
  next
    fix t a assume "tags t = Some a"
    with d(4) have "TagNumber h a = t \<and> Struct (fds h ! a) \<in> set es" by blast
    with n show "TagNumber ?h a = t \<and> Struct (fds ?h ! a) \<in> set es" by (simp add: f)
  next
    fix e' a assume a: "e' \<in> set es" "is_result ?h e'" "a \<in> set (Fields (ds ?h ! e'))" "TagNumber ?h a \<noteq> 0"
    then have a': "a \<in> set (Fields (ds h ! e'))" by (simp add: same_enums_fields [OF s])
    with d(3) [OF a(1)] a(1) have "TagNumber ?h a = TagNumber h a" by (intro n) simp
    with d(5) [OF a(1) _ a'] a show "tags (TagNumber ?h a) = Some a" by (simp add: same_result [OF s])
  qed
qed

lemma grouped_done:
  assumes "grouped es (h, ignored, tags)" "e < length (ds h)" "based h e"
    "\<forall>a \<in> set (Fields (ds h ! e)). Struct (fds h ! a) = e"
    and "if is_result h e then group_fields h (Fields (ds h ! e)) tags = Ok tags' \<and> ignored' = ignored @ [e]
         else tags' = tags \<and> ignored' = ignored"
  shows "grouped (es @ [e]) (h, ignored', tags')"
proof (cases "is_result h e")
  case True
  with assms(5) have g: "group_fields h (Fields (ds h ! e)) tags = Ok tags'" and i: "ignored' = ignored @ [e]" by simp_all
  note s = group_fields_spec [OF g] and d = groupedD [OF assms(1)]
  show ?thesis
  proof (rule groupedI)
    show "ignored' = filter (is_result h) (es @ [e])" using d(1) i True by simp
  next
    fix e' assume "e' \<in> set (es @ [e])"
    with d(2) assms(2,3) show "e' < length (ds h) \<and> based h e'" by auto
  next
    fix e' a assume "e' \<in> set (es @ [e])" "a \<in> set (Fields (ds h ! e'))"
    with d(3) assms(4) show "Struct (fds h ! a) = e'" by auto
  next
    fix t a assume "tags' t = Some a"
    with s have "tags t = Some a \<or> a \<in> set (Fields (ds h ! e)) \<and> TagNumber h a = t" by blast
    with d(4) assms(4) show "TagNumber h a = t \<and> Struct (fds h ! a) \<in> set (es @ [e])" by auto
  next
    fix e' a assume a: "e' \<in> set (es @ [e])" "is_result h e'" "a \<in> set (Fields (ds h ! e'))" "TagNumber h a \<noteq> 0"
    show "tags' (TagNumber h a) = Some a"
    proof (cases "e' = e")
      case True
      with s a show ?thesis by blast
    next
      case False
      with a d(5) have "tags (TagNumber h a) = Some a" by simp
      with s show ?thesis by blast
    qed
  qed
next
  case False
  with assms(5) have "tags' = tags" "ignored' = ignored" by simp_all
  with groupedD [OF assms(1)] False assms(2-4) show ?thesis by (intro groupedI) auto
qed

lemma group_enums_grouped:
  assumes "group_enums es st = Ok st'" "grouped done_es st"
    and "\<forall>e \<in> set es. e < length (ds (fst st)) \<and> (\<forall>a \<in> set (Fields (ds (fst st) ! e)). Struct (fds (fst st) ! a) = e)"
  shows "grouped (done_es @ es) st' \<and> same_enums (fst st) (fst st')"
  using assms
proof (induction es arbitrary: st done_es)
  case (Cons e es)
  obtain h ignored tags where st: "st = (h, ignored, tags)" by (cases st)
  let ?h = "set_base e h"
  have s: "same_enums h ?h" by (rule set_base_same)
  obtain ignored' tags' where r: "group_enums es (?h, ignored', tags') = Ok st'" and
    u: "if is_result ?h e then group_fields ?h (Fields (ds ?h ! e)) tags = Ok tags' \<and> ignored' = ignored @ [e]
        else tags' = tags \<and> ignored' = ignored"
    using Cons.prems(1) by (auto simp: st Let_def bind_go_eq_Ok split: if_splits)
  have l: "\<forall>e' \<in> set (e # es). e' < length (ds ?h) \<and> (\<forall>a \<in> set (Fields (ds ?h ! e')). Struct (fds ?h ! a) = e')"
    using Cons.prems(3) s by (simp add: st same_enums_fields [OF s] same_enums_def)
  have "grouped (done_es @ [e]) (?h, ignored', tags')"
    using grouped_done [OF grouped_base [OF Cons.prems(2) [unfolded st]] _ based_set_base _ u] Cons.prems(3) l
    by (simp add: st)
  from Cons.IH [OF r this] l show ?case by (auto simp: st intro: same_enums_trans [OF s])
qed (simp add: same_enums_refl)

lemma schema_enums_ok:
  assumes "schema_ok h" "e \<in> set (schema_enums h)"
  shows "e < length (ds h) \<and> dType (ds h ! e) = DescriptorType_Enum \<and> (\<forall>a \<in> set (Fields (ds h ! e)). Struct (fds h ! a) = e)"
proof -
  from assms obtain f where f: "f \<in> set (Files h)" "e \<in> set (Enums (fls h ! f))" by (auto simp: schema_enums_def)
  then have "file_ok h f" using assms(1) by (simp add: schema_ok_def)
  with f have e: "e < length (ds h)" "dType (ds h ! e) = DescriptorType_Enum" by (auto simp: file_ok_def Let_def)
  then have "desc_ok h e" using assms(1) by (simp add: schema_ok_def)
  with e show ?thesis by (simp add: desc_ok_def Let_def)
qed

text \<open>A second run for the next output finds the bases set and the same numbers.\<close>

lemma set_base_based:
  assumes "based h e" "e < length (ds h)"
  shows "based (set_base d h) e \<and> TagBase (ds (set_base d h) ! e) = TagBase (ds h ! e)"
proof (cases "d = e")
  case True
  with assms show ?thesis by (simp add: based_fixed)
next
  case False
  then have "ds (set_base d h) ! e = ds h ! e"
    by (cases "enum_offset h d") (simp_all add: set_base_def set_d_def)
  then show ?thesis using assms same_offset [OF set_base_same [of h d], of e] by (simp add: based_def)
qed

lemma group_enums_based:
  assumes "group_enums es st = Ok st'" "based (fst st) e" "e < length (ds (fst st))"
  shows "based (fst st') e \<and> TagBase (ds (fst st') ! e) = TagBase (ds (fst st) ! e)"
  using assms
proof (induction es arbitrary: st)
  case (Cons d es)
  obtain h ignored tags where st: "st = (h, ignored, tags)" by (cases st)
  from Cons.prems(1) obtain ignored' tags' where r: "group_enums es (set_base d h, ignored', tags') = Ok st'"
    by (auto simp: st Let_def bind_go_eq_Ok split: if_splits)
  have "length (ds (set_base d h)) = length (ds h)" using set_base_same [of h d] by (simp add: same_enums_def)
  with Cons.IH [OF r] set_base_based [of h e d] Cons.prems(2,3) show ?case by (simp add: st)
qed simp

lemma group_enums_same: "group_enums es st = Ok st' \<Longrightarrow> same_enums (fst st) (fst st')"
proof (induction es arbitrary: st)
  case (Cons d es)
  obtain h ignored tags where st: "st = (h, ignored, tags)" by (cases st)
  from Cons.prems obtain ignored' tags' where r: "group_enums es (set_base d h, ignored', tags') = Ok st'"
    by (auto simp: st Let_def bind_go_eq_Ok split: if_splits)
  from Cons.IH [OF r] show ?case using same_enums_trans [OF set_base_same [of h d]] by (simp add: st)
qed (simp add: same_enums_refl)

lemma group_fields_cong:
  "(\<And>a. a \<in> set as \<Longrightarrow> TagNumber h a = TagNumber h' a) \<Longrightarrow> group_fields h as tags = group_fields h' as tags"
  by (induction as arbitrary: tags) (auto split: option.splits)

lemma group_enums_again:
  assumes "group_enums es (h, ignored, tags) = Ok (h', r)"
    and "\<forall>e \<in> set es. e < length (ds h) \<and> (\<forall>a \<in> set (Fields (ds h ! e)). Struct (fds h ! a) = e)"
  shows "group_enums es (h', ignored, tags) = Ok (h', r)"
  using assms
proof (induction es arbitrary: h ignored tags)
  case (Cons e es)
  let ?h = "set_base e h"
  have s: "same_enums h ?h" by (rule set_base_same)
  have l: "\<forall>e' \<in> set (e # es). e' < length (ds ?h) \<and> (\<forall>a \<in> set (Fields (ds ?h ! e')). Struct (fds ?h ! a) = e')"
    using Cons.prems(2) s by (simp add: same_enums_fields [OF s] same_enums_def)
  obtain ignored' tags' where r: "group_enums es (?h, ignored', tags') = Ok (h', r)" and
    u: "if is_result ?h e then group_fields ?h (Fields (ds ?h ! e)) tags = Ok tags' \<and> ignored' = ignored @ [e]
        else tags' = tags \<and> ignored' = ignored"
    using Cons.prems(1) by (auto simp: Let_def bind_go_eq_Ok split: if_splits)
  have s': "same_enums ?h h'" using group_enums_same [OF r] by simp
  have b: "based h' e" "TagBase (ds h' ! e) = TagBase (ds ?h ! e)"
    using group_enums_based [OF r] based_set_base [of e h] l Cons.prems(2) by simp_all
  have "TagNumber h' a = TagNumber ?h a" if "a \<in> set (Fields (ds ?h ! e))" for a
    using that l b(2) s' by (simp add: TagNumber_def same_enums_def Let_def)
  then have g: "group_fields h' (Fields (ds h' ! e)) tags = group_fields ?h (Fields (ds ?h ! e)) tags"
    using group_fields_cong [of "Fields (ds ?h ! e)" h' ?h tags] by (simp add: same_enums_fields [OF s'])
  have "e < length (ds h')" using l s' by (simp add: same_enums_def)
  then have f: "set_base e h' = h'" using b(1) by (simp add: based_fixed)
  have "group_enums es (h', ignored', tags') = Ok (h', r)" using Cons.IH [OF r] l by simp
  with u show ?case by (simp add: f g same_result [OF s'] split: if_splits)
qed simp

text \<open>
  C36: When the grouping of enumeration values ends without an error, no two fields of result
  enumerations have the same number, 0 apart, in all files together: the generated \<^verbatim>\<open>ResultToString\<close> has no
  case twice. Exactly the result enumerations lose their type name. The grouping runs once for every output, and the
  later runs change nothing.
\<close>

theorem group_values_distinct:
  assumes "schema_ok h" "enumValueGroup h = Ok (h', ignored)"
  shows "ignored = filter (is_result h) (schema_enums h)
    \<and> (\<forall>e \<in> set ignored. \<forall>e' \<in> set ignored. \<forall>a \<in> set (Fields (ds h ! e)). \<forall>b \<in> set (Fields (ds h ! e')).
         a \<noteq> b \<longrightarrow> TagNumber h' a \<noteq> 0 \<longrightarrow> TagNumber h' a \<noteq> TagNumber h' b)
    \<and> enumValueGroup h' = Ok (h', ignored)"
proof -
  from assms(2) obtain tags where g: "group_enums (schema_enums h) (h, [], \<lambda>_. None) = Ok (h', ignored, tags)"
    by (auto simp: enumValueGroup_def bind_go_eq_Ok)
  have r: "grouped (schema_enums h) (h', ignored, tags)" and s: "same_enums h h'"
    using group_enums_grouped [OF g, of "[]"] schema_enums_ok [OF assms(1)] by (simp_all add: grouped_def)
  have i: "ignored = filter (is_result h) (schema_enums h)"
    using groupedD(1) [OF r] same_result [OF s] by (simp cong: filter_cong)
  have n: "tags (TagNumber h' a) = Some a"
    if "e \<in> set ignored" "a \<in> set (Fields (ds h ! e))" "TagNumber h' a \<noteq> 0" for e a
    using groupedD(5) [OF r, of e a] that by (simp add: i same_result [OF s] same_enums_fields [OF s])
  have c: "a = b" if "e \<in> set ignored" "e' \<in> set ignored" "a \<in> set (Fields (ds h ! e))" "b \<in> set (Fields (ds h ! e'))"
    "TagNumber h' a \<noteq> 0" "TagNumber h' a = TagNumber h' b" for e e' a b
  proof -
    have "TagNumber h' b \<noteq> 0" using that(5) unfolding that(6) .
    from n [OF that(2,4) this] have "tags (TagNumber h' a) = Some b" unfolding that(6) .
    then have "Some a = Some b" unfolding n [OF that(1,3,5)] .
    then show ?thesis by (rule option.inject [THEN iffD1])
  qed
  have e: "schema_enums h' = schema_enums h" using s by (simp add: schema_enums_def same_enums_def)
  have "group_enums (schema_enums h) (h', [], \<lambda>_. None) = Ok (h', ignored, tags)"
    using group_enums_again [OF g] schema_enums_ok [OF assms(1)] by simp
  then have again: "enumValueGroup h' = Ok (h', ignored)" by (simp add: enumValueGroup_def e)
  show ?thesis
  proof (rule conjI [OF i], rule conjI [OF _ again], intro ballI impI notI)
    fix e e' a b
    assume "e \<in> set ignored" "e' \<in> set ignored" "a \<in> set (Fields (ds h ! e))" "b \<in> set (Fields (ds h ! e'))"
      "a \<noteq> b" "TagNumber h' a \<noteq> 0" "TagNumber h' a = TagNumber h' b"
    with c [of e e' a b] show False by blast
  qed
qed

section \<open>A schema with two result enumerations\<close>

definition offset_comment :: "string \<Rightarrow> CommentGroup" where
  "offset_comment v = newCommentGroup\<lparr>taggedComments := [(rs ''EnumValueOffset'', rs v)]\<rparr>"

definition game_field :: "string \<Rightarrow> FieldType \<Rightarrow> int \<Rightarrow> nat \<Rightarrow> FieldDescriptor" where
  "game_field s t k d =
     \<lparr>fComment = newCommentGroup, FieldDescriptor.fName = rs s, FieldDescriptor.fType = t, Tag = k, AutoTag = -1,
      Repeatd = False, MainIndex = None, Complex = None, Struct = d\<rparr>"

definition game_object :: "string \<Rightarrow> DescriptorType \<Rightarrow> nat list \<Rightarrow> (string \<times> nat) list \<Rightarrow> CommentGroup \<Rightarrow> Descriptor" where
  "game_object s t as tab c =
     \<lparr>dComment = c, dName = rs s, SrcName = [], dType = t, Fields = as, FieldByName = map (\<lambda>(n, a). (rs n, a)) tab, FieldByTag = [],
      dFile = 0, TagBase = 0\<rparr>"

definition game_schema :: schema where
  "game_schema =
     \<lparr>fds = [game_field ''id'' FieldType_Int32 0 0, (game_field ''names'' FieldType_String 1 0)\<lparr>Repeatd := True\<rparr>,
             (game_field ''owner'' FieldType_Struct 2 0)\<lparr>Complex := Some 0\<rparr>,
             (game_field ''state'' FieldType_Enum 3 0)\<lparr>Complex := Some 1\<rparr>,
             game_field ''Full'' FieldType_Int32 1 1, game_field ''Closed'' FieldType_Int32 1 2],
      ds = [game_object ''Room'' DescriptorType_Struct [0, 1, 2, 3] [(''id'', 0), (''names'', 1), (''owner'', 2), (''state'', 3)] newCommentGroup,
            game_object ''RoomResult'' DescriptorType_Enum [4] [(''Full'', 4)] (offset_comment '' 100''),
            game_object ''GateResult'' DescriptorType_Enum [5] [(''Closed'', 5)] (offset_comment ''200'')],
      fls = [\<lparr>FileName = rs ''game.sp'', Structs = [0], StructByName = [(rs ''Room'', 0)], Enums = [1, 2],
              EnumByName = [(rs ''RoomResult'', 1), (rs ''GateResult'', 2)], ObjectsBySrcName = [], Objects = [0, 1, 2],
              in_FileSet = True, fileTag = []\<rparr>],
      Files = [0], unknownFields = []\<rparr>"

lemma named_list:
  assumes "distinct (map (\<lambda>x. name (obj x)) l)" "tab = map (\<lambda>x. (name (obj x), x)) l"
  shows "named name obj l tab"
  using assms(1) unfolding named_def assms(2)
  by (induction l) (auto split: if_splits intro: rev_image_eqI)

lemma game_schema_ok: "schema_ok game_schema"
proof -
  note defs = game_schema_def game_field_def game_object_def rs_def ch_def
  have "fd_ok game_schema v" if "v \<in> set (fds game_schema)" for v
    using that by (auto simp: fd_ok_def game_schema_def game_field_def in_structs_def in_enums_def)
  moreover have "desc_ok game_schema d" if "d < length (ds game_schema)" for d
  proof -
    have n: "named FieldDescriptor.fName (\<lambda>a. fds game_schema ! a) (Fields (ds game_schema ! d)) (FieldByName (ds game_schema ! d))"
      using that by (intro named_list) (auto simp: defs less_Suc_eq)
    show ?thesis
      using that n unfolding desc_ok_def Let_def
      by (intro conjI) (auto simp: game_schema_def game_field_def game_object_def has_type_def less_Suc_eq rs_def ch_def)
  qed
  moreover have "file_ok game_schema 0"
  proof -
    have "named dName (\<lambda>d. ds game_schema ! d) (Structs (fls game_schema ! 0)) (StructByName (fls game_schema ! 0))"
      "named dName (\<lambda>d. ds game_schema ! d) (Enums (fls game_schema ! 0)) (EnumByName (fls game_schema ! 0))"
      by (rule named_list; simp add: defs)+
    then show ?thesis unfolding file_ok_def Let_def by (intro conjI) (auto simp: defs)
  qed
  ultimately show ?thesis by (simp add: schema_ok_def) (simp add: game_schema_def)
qed

theorem group_values_distinct_witness:
  "\<exists>h'. enumValueGroup game_schema = Ok (h', [1, 2]) \<and> TagNumber h' 4 = 101 \<and> TagNumber h' 4 \<noteq> TagNumber h' 5"
proof -
  have "case enumValueGroup game_schema of Ok (h', l) \<Rightarrow> l = [1, 2] \<and> TagNumber h' 4 = 101 | _ \<Rightarrow> False" by code_simp
  then obtain h' where h': "enumValueGroup game_schema = Ok (h', [1, 2])" "TagNumber h' 4 = 101"
    by (auto split: go.splits prod.splits)
  note d = group_values_distinct [OF game_schema_ok h'(1), THEN conjunct2, THEN conjunct1]
  have "4 \<in> set (Fields (ds game_schema ! 1))" "5 \<in> set (Fields (ds game_schema ! 2))"
    by (simp_all add: game_schema_def game_object_def)
  from d [THEN bspec [of _ _ 1], THEN bspec [of _ _ 2], THEN bspec, OF _ _ this(1), THEN bspec, OF _ _ this(2)] h'(2)
  have "TagNumber h' 4 \<noteq> TagNumber h' 5" by (simp del: One_nat_def)
  with h' show ?thesis by blast
qed

end
