(* ===== verification/Gen_Go.thy ===== *)
theory Gen_Go
  imports Gen_Model Sproto_Meta
begin

text \<open>
  The generator of Go code, \<^verbatim>\<open>gosproto/sprotogen/gen_go.go\<close>: the names, types and tags of the fields and
  the template. \<open>ftext\<close> is the text of \<^verbatim>\<open>1.0/float32(p)\<close> with six decimals. A panic of a
  method ends the template and the program.
\<close>

section \<open>The parts of a field\<close>

abbreviation field_string :: "schema \<Rightarrow> nat \<Rightarrow> string" where
  "field_string h a \<equiv> go_string (FieldDescriptor.fName (fds h ! a))"

abbreviation type_string :: "schema \<Rightarrow> nat \<Rightarrow> string" where
  "type_string h d \<equiv> go_string (dName (ds h ! d))"

definition go_keywords :: "string list" where
  "go_keywords = [''break'', ''case'', ''chan'', ''const'', ''continue'', ''default'', ''defer'', ''else'',
     ''fallthrough'', ''for'', ''func'', ''go'', ''goto'', ''if'', ''import'', ''interface'', ''map'', ''package'',
     ''range'', ''return'', ''select'', ''struct'', ''switch'', ''type'', ''var'']"

definition no_keyword_name :: "string \<Rightarrow> string" where
  "no_keyword_name pname = (if pname \<in> set go_keywords then pname @ ''_'' else pname)"

definition GoEnumTypeName :: "schema \<Rightarrow> fileModel \<Rightarrow> structModel \<Rightarrow> string" where
  "GoEnumTypeName h fm st = (if smDesc st \<in> set (mIgnoreType fm) then [] else type_string h (smDesc st))"

definition GoExtendFieldGetterName :: "schema \<Rightarrow> nat \<Rightarrow> ('e, string) go" where
  "GoExtendFieldGetterName h a =
     bind_go (publicFieldName (field_string h a)) (\<lambda>pname. Ok (no_keyword_name pname))"

definition GoFieldName :: "schema \<Rightarrow> nat \<Rightarrow> ('e, string) go" where
  "GoFieldName h a =
     bind_go (if IsExtendType (fds h ! a) then Ok (''Extend_'' @ field_string h a)
              else publicFieldName (field_string h a)) (\<lambda>pname. Ok (no_keyword_name pname))"

definition GoExtendFieldGetterType :: "FieldDescriptor \<Rightarrow> string" where
  "GoExtendFieldGetterType fd =
     (if Repeatd fd then ''[]'' else [])
     @ (case FieldDescriptor.fType fd of
          FieldType_Float32 \<Rightarrow> ''float32'' | FieldType_Float64 \<Rightarrow> ''float64''
        | t \<Rightarrow> ''unknown extend type:'' @ go_string (FieldType_name t))"

definition GoExtendFieldGetter :: "(int \<Rightarrow> string) \<Rightarrow> schema \<Rightarrow> nat \<Rightarrow> ('e, string) go" where
  "GoExtendFieldGetter ftext h a =
     (let fd = fds h ! a in
      if IsExtendType fd
      then bind_go (GoFieldName h a) (\<lambda>n.
             Ok (''return '' @ GoExtendFieldGetterType fd @ ''(self.'' @ n @ '') * '' @ ftext (ExtendTypePrecision fd)))
      else Ok (''unknown extend type:'' @ go_string (FieldType_name (FieldDescriptor.fType fd))))"

definition GoExtendFieldSetter :: "schema \<Rightarrow> nat \<Rightarrow> ('e, string) go" where
  "GoExtendFieldSetter h a =
     (let fd = fds h ! a in
      case FieldDescriptor.fType fd of
        FieldType_Float32 \<Rightarrow>
          bind_go (GoFieldName h a) (\<lambda>n. Ok (''self.'' @ n @ '' = int32(v* '' @ itoa (ExtendTypePrecision fd) @ '')''))
      | FieldType_Float64 \<Rightarrow>
          bind_go (GoFieldName h a) (\<lambda>n. Ok (''self.'' @ n @ '' = int64(v* '' @ itoa (ExtendTypePrecision fd) @ '')''))
      | t \<Rightarrow> Ok (''unknown extend type:'' @ go_string (FieldType_name t)))"

definition go_base_type :: "schema \<Rightarrow> FieldDescriptor \<Rightarrow> ('e, string) go" where
  "go_base_type h fd =
     (case FieldDescriptor.fType fd of
        FieldType_Integer \<Rightarrow> Ok ''int''
      | FieldType_Bool \<Rightarrow> Ok ''bool''
      | FieldType_Struct \<Rightarrow> bind_go (Complex_Name h fd) (\<lambda>n. Ok (go_string n))
      | FieldType_Enum \<Rightarrow> bind_go (Complex_Name h fd) (\<lambda>n. Ok (go_string n))
      | FieldType_Float32 \<Rightarrow> Ok ''int32''
      | FieldType_Float64 \<Rightarrow> Ok ''int64''
      | FieldType_Bytes \<Rightarrow> Ok ''[]byte''
      | t \<Rightarrow> Ok (go_string (FieldType_name t)))"

definition GoTypeName :: "schema \<Rightarrow> nat \<Rightarrow> ('e, string) go" where
  "GoTypeName h a =
     (let fd = fds h ! a in
      bind_go (go_base_type h fd) (\<lambda>t.
        Ok ((if Repeatd fd then ''[]'' else []) @ (if FieldDescriptor.fType fd = FieldType_Struct then ''*'' else []) @ t)))"

definition go_wire :: "FieldDescriptor \<Rightarrow> string" where
  "go_wire fd =
     (case FieldDescriptor.fType fd of
        FieldType_Int32 \<Rightarrow> ''integer'' | FieldType_Int64 \<Rightarrow> ''integer'' | FieldType_UInt32 \<Rightarrow> ''integer''
      | FieldType_UInt64 \<Rightarrow> ''integer'' | FieldType_Float32 \<Rightarrow> ''integer'' | FieldType_Float64 \<Rightarrow> ''integer''
      | FieldType_Enum \<Rightarrow> ''integer'' | FieldType_Bytes \<Rightarrow> ''string''
      | t \<Rightarrow> go_string (Kind fd))"

text \<open>What stands between the quotes, and the literal in back quotes.\<close>

definition go_tag :: "schema \<Rightarrow> nat \<Rightarrow> string \<Rightarrow> string" where
  "go_tag h a name =
     (let fd = fds h ! a in
      go_wire fd @ '','' @ itoa (TagNumber h a) @ '','' @ (if Repeatd fd then ''array,'' else []) @ ''name='' @ name)"

definition tag_literal :: "string \<Rightarrow> string" where
  "tag_literal t = [CHR 0x60] @ ''sproto:'' @ [CHR 0x22] @ t @ [CHR 0x22, CHR 0x60]"

definition GoTags :: "schema \<Rightarrow> nat \<Rightarrow> ('e, string) go" where
  "GoTags h a = bind_go (GoFieldName h a) (\<lambda>name. Ok (tag_literal (go_tag h a name)))"

section \<open>The template\<close>

text \<open>A line with its tabs.\<close>

definition ln :: "nat \<Rightarrow> string \<Rightarrow> string" where
  "ln k t = replicate k (CHR 0x09) @ t @ [CHR 0x0A]"

abbreviation tabs :: "nat \<Rightarrow> string" where
  "tabs k \<equiv> CHR 0x0A # replicate k (CHR 0x09)"

definition in_quotes :: "string \<Rightarrow> string" where
  "in_quotes t = [CHR 0x22] @ t @ [CHR 0x22]"

abbreviation field_texts :: "(nat \<Rightarrow> ('e, string) go) \<Rightarrow> structModel \<Rightarrow> ('e, string) go" where
  "field_texts body st \<equiv> range_text (\<lambda>f. body (fmField f)) (StFields st)"

definition go_header :: "fileModel \<Rightarrow> string" where
  "go_header fm =
     ln 0 ''// Generated by github.com/davyxu/gosproto/sprotogen'' @ ln 0 ''// DO NOT EDIT!'' @ ln 0 []
     @ ln 0 (''package '' @ go_string (PackageName fm)) @ ln 0 [] @ ln 0 ''import (''
     @ ln 1 (in_quotes ''reflect'')
     @ ln 1 (if length (mEnums fm) > 0 then in_quotes ''github.com/davyxu/gosproto'' else [])
     @ ln 1 (in_quotes ''github.com/davyxu/goobjfmt'')
     @ ln 1 (if CellnetReg fm then in_quotes ''github.com/davyxu/cellnet/codec/sproto'' else [])
     @ ln 1 (if EnumValueGroup fm then in_quotes ''fmt'' else [])
     @ ln 0 '')'' @ ln 0 []"

definition go_enum :: "schema \<Rightarrow> fileModel \<Rightarrow> structModel \<Rightarrow> ('e, string) go" where
  "go_enum h fm st =
     (let name = type_string h (smDesc st) in
      bind_go (field_texts (\<lambda>a. Ok (tabs 1 @ name @ ''_'' @ field_string h a @ '' '' @ GoEnumTypeName h fm st @ '' = ''
        @ itoa (TagNumber h a) @ '' '')) st) (\<lambda>consts.
      bind_go (field_texts (\<lambda>a. Ok (tabs 1 @ in_quotes (field_string h a) @ '': '' @ itoa (TagNumber h a) @ '', '')) st) (\<lambda>values.
      bind_go (field_texts (\<lambda>a. Ok (tabs 1 @ itoa (TagNumber h a) @ '': '' @ in_quotes (field_string h a) @ '' , '')) st) (\<lambda>names.
      Ok (ln 0 [] @ ln 0 (''type '' @ name @ '' int32'') @ ''const ('' @ [CHR 0x09] @ consts @ ln 0 [] @ ln 0 '')'' @ ln 0 []
        @ ln 0 ''var ('' @ name @ ''MapperValueByName = map[string]int32{ '' @ values @ ln 0 [] @ ln 0 ''}'' @ ln 0 []
        @ name @ ''MapperNameByValue = map[int32]string{ '' @ names @ ln 0 [] @ ln 0 ''}'' @ ln 0 '')'' @ ln 0 []
        @ ln 0 (''func (self '' @ name @ '') String() string {'')
        @ ln 1 (''return sproto.EnumName('' @ name @ ''MapperNameByValue, int32(self))'') @ ln 0 ''}'')))))"

definition go_field :: "schema \<Rightarrow> nat \<Rightarrow> ('e, string) go" where
  "go_field h a =
     bind_go (GoFieldName h a) (\<lambda>n. bind_go (GoTypeName h a) (\<lambda>t. bind_go (GoTags h a) (\<lambda>tag.
       Ok (ln 0 [] @ ln 2 (n @ '' '' @ t @ '' '' @ tag @ '' '') @ [CHR 0x09]))))"

definition go_extend :: "(int \<Rightarrow> string) \<Rightarrow> schema \<Rightarrow> string \<Rightarrow> nat \<Rightarrow> ('e, string) go" where
  "go_extend ftext h stname a =
     (if IsExtendType (fds h ! a) then
        bind_go (GoExtendFieldGetterName h a) (\<lambda>n.
        bind_go (GoExtendFieldGetter ftext h a) (\<lambda>getter.
        bind_go (GoExtendFieldSetter h a) (\<lambda>setter.
          let t = GoExtendFieldGetterType (fds h ! a) in
          Ok (ln 0 [] @ ln 0 (''func (self *'' @ stname @ '') '' @ n @ ''() '' @ t @ '' {'') @ ln 1 getter @ ln 0 ''}''
            @ ln 0 (''func (self *'' @ stname @ '') Set'' @ n @ ''(v '' @ t @ '')  {'') @ ln 1 setter @ ln 0 ''}'' @ '' ''))))
      else Ok '' '')"

definition go_struct :: "(int \<Rightarrow> string) \<Rightarrow> schema \<Rightarrow> structModel \<Rightarrow> ('e, string) go" where
  "go_struct ftext h st =
     (let name = type_string h (smDesc st) in
      bind_go (field_texts (go_field h) st) (\<lambda>fields.
      bind_go (field_texts (go_extend ftext h name) st) (\<lambda>extends.
      Ok (ln 0 [] @ ln 0 (''type '' @ name @ '' struct{'') @ [CHR 0x09] @ fields @ ln 0 [] @ ln 0 ''}'' @ ln 0 []
        @ ln 0 (''func (self *'' @ name @ '') String() string { return goobjfmt.CompactTextString(self) }'') @ ln 0 []
        @ extends @ ln 0 []))))"

text \<open>The cases of \<^verbatim>\<open>ResultToString\<close>, which the templates of all languages have.\<close>

definition result_cases :: "schema \<Rightarrow> fileModel \<Rightarrow> (string \<Rightarrow> string \<Rightarrow> string) \<Rightarrow> ('e, string) go" where
  "result_cases h fm line =
     range_text (\<lambda>st.
       bind_go (if IsResultEnum h st
          then bind_go (range_text (\<lambda>a. Ok ('' '' @ (if TagNumber h a \<noteq> 0
                   then line (itoa (TagNumber h a)) (type_string h (smDesc st) @ ''.'' @ field_string h a) else []) @ '' ''))
                 (Fields (ds h ! smDesc st))) (\<lambda>cases. Ok ('' '' @ cases @ '' ''))
          else Ok []) (\<lambda>body. Ok ('' '' @ body @ '' ''))) (mEnums fm)"

definition go_footer :: "schema \<Rightarrow> fileModel \<Rightarrow> ('e, string) go" where
  "go_footer h fm =
     bind_go (range_text (\<lambda>st. Ok (tabs 1 @ ''reflect.TypeOf((*'' @ type_string h (smDesc st) @ '')(nil)).Elem(), // ''
       @ show_nat (unat (MsgID h fm st)) @ '' '')) (mStructs fm)) (\<lambda>types.
     bind_go (range_text (\<lambda>st. Ok (tabs 1 @ in_quotes (type_string h (smDesc st)) @ '': '' @ type_string h (smDesc st)
       @ ''MapperNameByValue,'')) (mEnums fm)) (\<lambda>enums.
     bind_go (result_cases h fm (\<lambda>n v. tabs 2 @ ''case '' @ n @ '': return '' @ in_quotes v @ ''; '')) (\<lambda>results.
     Ok (ln 0 [] @ ln 0 [] @ ln 0 ''var SProtoStructs = []reflect.Type{'' @ types @ ln 0 [] @ ln 0 ''}'' @ ln 0 []
       @ ''var SProtoEnumValue = map[string]map[int32]string{ '' @ enums @ ln 0 [] @ ln 0 ''}'' @ ln 0 []
       @ (if EnumValueGroup fm
          then ln 0 [] @ ln 0 ''func ResultToString(result int32) string {'' @ ln 1 ''switch( result ) {''
            @ ln 2 (''case 0: return '' @ in_quotes ''OK'' @ '';'') @ [CHR 0x09] @ results @ ln 0 [] @ ln 1 ''}'' @ ln 0 []
            @ ln 1 (''return fmt.Sprintf('' @ in_quotes ''result: %d'' @ '', result)'') @ ln 0 ''}''
          else [])
       @ ln 0 []
       @ (if CellnetReg fm
          then ln 0 [] @ ln 0 ''func init() {'' @ ln 1 ''sprotocodec.AutoRegisterMessageMeta(SProtoStructs)'' @ ln 0 ''}''
          else [])
       @ ln 0 [] @ ln 0 []))))"

definition go_template :: "(int \<Rightarrow> string) \<Rightarrow> schema \<Rightarrow> fileModel \<Rightarrow> ('e, string) go" where
  "go_template ftext h fm =
     bind_go (range_text (go_enum h fm) (mEnums fm)) (\<lambda>enums.
     bind_go (range_text (go_struct ftext h) (mStructs fm)) (\<lambda>structs.
     bind_go (go_footer h fm) (\<lambda>footer.
       Ok (go_header fm @ enums @ ln 0 [] @ ln 0 [] @ structs @ footer))))"

definition gen_go ::
    "(string \<Rightarrow> string option) \<Rightarrow> (int \<Rightarrow> string) \<Rightarrow> string \<Rightarrow> (string \<Rightarrow> string option) \<Rightarrow> schema \<Rightarrow> fileModel
      \<Rightarrow> (gen_error, string \<times> (string \<Rightarrow> string option)) go" where
  "gen_go gofmt ftext filename files h fm =
     generateCode gofmt True (go_template ftext h (addData h (rs ''go'') fm)) filename files"

text \<open>
  The words \<^verbatim>\<open>struct\<close> and \<^verbatim>\<open>enum\<close> are in the table of builtin types, so a field can have such a type and refer to
  no declaration; its Go type is then the name of a nil pointer.
\<close>

lemma struct_word_crashes:
  assumes "FieldDescriptor.fType (fds h ! a) = FieldType_Struct" "Complex (fds h ! a) = None"
  shows "parseType h a (rs ''struct'') = Ok (FieldType_Struct, None)" "GoTypeName h a = Panic NilDereference"
  using assms
  by (simp_all add: parseType_def ParseFieldType_def fieldtypeByStr_def rs_def ch_def GoTypeName_def go_base_type_def Complex_Name_def)

end
