(* ===== verification/Sproto_Accept.thy ===== *)
theory Sproto_Accept
  imports Sproto_Meta
begin

text \<open>
  When the registry accepts the declared types: every field has a description and no two fields of a
  struct have the same tag number. Then no lookup reports an error.
\<close>

definition accepted_fields :: "StructField list \<Rightarrow> bool" where
  "accepted_fields fs \<longleftrightarrow>
     (\<forall>i < length fs. \<exists>x. field_spec i (fs ! i) = Ok x)
   \<and> (\<forall>i j x y. j < i \<and> i < length fs \<and> field_spec i (fs ! i) = Ok x \<and> field_spec j (fs ! j) = Ok y \<and> sfTag (fst x) \<ge> 0
        \<longrightarrow> sfTag (fst x) \<noteq> sfTag (fst y))"

definition no_error :: "tenv \<Rightarrow> (string \<Rightarrow> nat reg) \<Rightarrow> bool" where
  "no_error env get \<longleftrightarrow> (\<forall>P t r e r'. registry_ok env P r \<longrightarrow> get t r \<noteq> Some (Err e, r'))"

lemma link_field_tag: "link_field m x = Some sf \<Longrightarrow> sfTag sf = sfTag (fst x)"
  by (auto simp: link_field_def split: prod.splits option.splits)

lemma field_ok_spec: "field_ok m i f (Some sf) \<Longrightarrow> \<exists>x. field_spec i f = Ok x \<and> sfTag sf = sfTag (fst x)"
  using link_field_tag by (fastforce simp: field_ok_def)

lemma described_tag:
  assumes "described env m t k st" "stTagMap st tag = Some i"
  shows "i < k \<and> (\<exists>x. field_spec i (struct_fields env t ! i) = Ok x \<and> sfTag (fst x) = tag)"
proof -
  from assms have i: "i < k" "field_tag st i = tag" and f: "field_ok m i (struct_fields env t ! i) (stFields st ! i)"
    by (auto simp: described_def)
  then obtain sf where "stFields st ! i = Some sf" by (auto simp: field_ok_def)
  with f i field_ok_spec [of m i "struct_fields env t ! i" sf] show ?thesis by (auto simp: field_tag_def)
qed

context registry_lookup
begin

lemma init_no_error:
  assumes "no_error env get" "registry_ok env P r" "field_spec i f = Ok x"
  shows "init get i f r \<noteq> Some (Err e, r')"
  using assms unfolding init_eq no_error_def by (auto split: prod.splits option.splits go.splits)

lemma initFields_no_error:
  assumes "no_error env get" "accepted_fields (struct_fields env t)"
    and "registry_ok env P r" "t \<in> P" "stMap r t = Some a"
    and "described env (stMap r) t i (heap r ! a)" "take i (stOrder (heap r ! a)) = [0..<i]"
    and "fs = drop i (struct_fields env t)"
  shows "initFields get t a i fs r \<noteq> Some (Err e, r'')"
  using assms(3-)
proof (induction fs arbitrary: i r)
  case (Cons f fs)
  then have i: "i < length (struct_fields env t)"
    by (metis drop_eq_Nil list.discI not_le)
  with Cons.prems(6) have f: "f = struct_fields env t ! i" and fs: "fs = drop (Suc i) (struct_fields env t)"
    by (metis Cons_nth_drop_Suc list.inject)+
  obtain x where x: "field_spec i f = Ok x" using assms(2) i f by (auto simp: accepted_fields_def)
  show ?case
  proof (cases "\<exists>sf r'. init get i f r = Some (Ok sf, r')")
    case False
    moreover have "init get i f r \<noteq> Some (Err e', r')" for e' r'
      by (rule init_no_error [OF assms(1) Cons.prems(1) x])
    ultimately show ?thesis by (auto split: option.splits go.splits)
  next
    case True
    then obtain sf r' where step: "init get i f r = Some (Ok sf, r')" by blast
    note r' = round_init [OF Cons.prems(1,3,4) step]
    have tag: "sfTag sf = sfTag (fst x)" using field_ok_spec [OF r'(3)] x by auto
    have new: "stTagMap (heap (store_field a i sf r') ! a) (sfTag sf) = None" if "sfTag sf \<ge> 0"
    proof (rule ccontr)
      assume "stTagMap (heap (store_field a i sf r') ! a) (sfTag sf) \<noteq> None"
      then obtain j where "stTagMap (heap r' ! a) (sfTag sf) = Some j"
        using r'(4) by (auto simp: store_field_def Let_def)
      from described_tag [OF r'(7) this] assms(2) i x tag that f show False
        unfolding accepted_fields_def by metis
    qed
    note r1 = round_store [OF Cons.prems(1-5) i step [unfolded f] new]
    from Cons.IH [OF r1(1) Cons.prems(2) r1(2-4) fs] step new show ?thesis
      by (auto simp: Let_def store_round_def split: if_splits)
  qed
qed simp

end

lemma getSprotoTypeLocked_no_error:
  assumes "\<And>t. accepted_fields (struct_fields env t)"
  shows "no_error env (getSprotoTypeLocked env fuel)"
proof (induction fuel)
  case 0
  show ?case by (simp add: no_error_def)
next
  case (Suc fuel)
  have "getSprotoTypeLocked env (Suc fuel) t r \<noteq> Some (Err e, r')" if ok: "registry_ok env P r" for P t r e r'
  proof (cases "stMap r t")
    case None
    have "initFields (getSprotoTypeLocked env fuel) t (length (heap r)) 0 (struct_fields env t) (new_entry env t r) \<noteq> Some (Err e', r2)" for e' r2
      by (rule locked.initFields_no_error [OF Suc assms registry_ok_new [OF ok None]]) (simp_all add: new_entry_def)
    with None show ?thesis by (auto simp: Let_def split: option.splits go.splits)
  qed simp
  then show ?case by (simp only: no_error_def) blast
qed

text \<open>A lookup of a declared type succeeds.\<close>

lemma GetSprotoType_accepts:
  assumes "\<And>t. accepted_fields (struct_fields env t)" "registry_ok env {} r"
  shows "\<exists>a r'. GetSprotoType env (TStruct t) r = Some (Ok a, r')"
proof -
  have "card (dom (map_of env) - dom (stMap r)) \<le> card (dom (map_of env))"
    by (intro card_mono) (auto simp: finite_dom_map_of)
  also have "\<dots> \<le> length env"
    by (metis card_length dom_map_of_conv_image_fst length_map list.set_map)
  finally have "getSprotoTypeLocked env (Suc (length env)) t r \<noteq> None"
    by (intro getSprotoTypeLocked_fuel) simp
  then obtain res r' where res: "getSprotoTypeLocked env (Suc (length env)) t r = Some (res, r')" by auto
  have "res \<noteq> Err e" for e
    using getSprotoTypeLocked_no_error [OF assms(1), of "Suc (length env)"] assms(2) res by (auto simp: no_error_def simp del: getSprotoTypeLocked.simps)
  moreover have "res \<noteq> Panic p" for p
    using getSprotoTypeLocked_no_panic [of env "Suc (length env)" t r p r'] res by auto
  ultimately show ?thesis using res by (cases res) (auto simp: GetSprotoType_def simp del: getSprotoTypeLocked.simps)
qed

end
