(* ===== verification/Gen_Accept.thy ===== *)
theory Gen_Accept
  imports Gen_Go Sproto_Accept
begin

text \<open>
  The generated Go types and the registry of gosproto agree: what the Go compiler makes of a generated
  field is a field that \<^verbatim>\<open>meta.go\<close> accepts, with the tag, the wire type and the array mark of the schema.
\<close>

section \<open>Reading a generated type\<close>

definition basic_types :: "(string \<times> rtype) list" where
  "basic_types = [(''bool'', TBool), (''string'', TString), (''int'', TInt KInt), (''int32'', TInt KInt32),
     (''int64'', TInt KInt64), (''uint32'', TInt KUint32), (''uint64'', TInt KUint64), (''byte'', TInt KUint8)]"

text \<open>\<open>E\<close> are the declared enumerations: \<^verbatim>\<open>type E int32\<close>. Other names are structures.\<close>

definition named_type :: "string list \<Rightarrow> string \<Rightarrow> rtype" where
  "named_type E s =
     (case map_of basic_types s of Some t \<Rightarrow> t | None \<Rightarrow> if s \<in> set E then TInt KInt32 else TStruct s)"

function read_type :: "string list \<Rightarrow> string \<Rightarrow> rtype" where
  "read_type E s =
     (if has_prefix s ''[]'' then TSlice (read_type E (drop 2 s))
      else if has_prefix s ''*'' then TPtr (read_type E (drop 1 s))
      else named_type E s)"
  by pat_completeness auto
termination
  by (relation "measure (\<lambda>(E, s). length s)") (auto simp: has_prefix_def)

declare read_type.simps [simp del]

lemma read_type_prefix:
  "read_type E (''[]'' @ s) = TSlice (read_type E s)" "read_type E (''*'' @ s) = TPtr (read_type E s)"
  by (subst read_type.simps, simp add: has_prefix_def)+

definition name_char :: "char \<Rightarrow> bool" where
  "name_char c \<longleftrightarrow> c = CHR ''_'' \<or> is_digit c \<or> 65 \<le> (of_char c :: nat) \<and> (of_char c :: nat) \<le> 90
     \<or> 97 \<le> (of_char c :: nat) \<and> (of_char c :: nat) \<le> 122"

definition plain_name :: "string \<Rightarrow> bool" where
  "plain_name s \<longleftrightarrow> s \<noteq> [] \<and> (\<forall>c \<in> set s. name_char c)"

lemma name_char_ascii: "name_char c \<Longrightarrow> (of_char c :: nat) < 128"
  by (auto simp: name_char_def is_digit_def)

lemma plain_go_string: "plain_name s \<Longrightarrow> go_string (rs s) = s"
  using name_char_ascii by (intro go_string_rs) (auto simp: plain_name_def)

lemma name_char_distinct: "name_char c \<Longrightarrow> c \<noteq> CHR '','' \<and> c \<noteq> CHR ''['' \<and> c \<noteq> CHR ''*'' \<and> c \<noteq> CHR 0x22 \<and> c \<noteq> CHR 0x60"
  by (auto simp: name_char_def is_digit_def)

lemma read_plain:
  assumes "plain_name s"
  shows "read_type E s = named_type E s"
proof -
  from assms obtain c cs where s: "s = c # cs" "name_char c" by (cases s) (auto simp: plain_name_def)
  with name_char_distinct [of c] show ?thesis unfolding s(1) by (subst read_type.simps) (simp add: has_prefix_def)
qed

lemma upper_plain: "name_char c \<Longrightarrow> \<exists>d. upper_byte c = [d] \<and> name_char d"
proof -
  assume c: "name_char c"
  let ?n = "of_char c :: nat"
  show ?thesis
  proof (cases "97 \<le> ?n \<and> ?n \<le> 122")
    case True
    then show ?thesis by (auto simp: upper_byte_def name_char_def)
  next
    case False
    have "?n < 128" using name_char_ascii [OF c] .
    moreover from this have "unat (word_of_nat ?n :: rune) = ?n" by (simp add: unat_of_nat)
    ultimately have "upper_byte c = [c]" using False by (auto simp: upper_byte_def utf8_rune_def Let_def)
    with c show ?thesis by blast
  qed
qed

definition upper_name :: "string \<Rightarrow> string" where
  "upper_name s = upper_byte (hd s) @ tl s"

lemma publicFieldName_plain:
  assumes "plain_name s"
  shows "publicFieldName s = Ok (upper_name s)" "plain_name (upper_name s)"
proof -
  from assms obtain b bs where s: "s = b # bs" by (cases s) (auto simp: plain_name_def)
  with assms obtain d where "upper_byte b = [d]" "name_char d" using upper_plain [of b] by (auto simp: plain_name_def)
  with s assms show "plain_name (upper_name s)" by (auto simp: upper_name_def plain_name_def)
  from s show "publicFieldName s = Ok (upper_name s)" by (simp add: publicFieldName_def upper_name_def)
qed

lemma plain_append:
  "plain_name s \<Longrightarrow> \<forall>c \<in> set t. name_char c \<Longrightarrow> plain_name (s @ t)"
  "plain_name s \<Longrightarrow> \<forall>c \<in> set t. name_char c \<Longrightarrow> plain_name (t @ s)"
  by (auto simp: plain_name_def)

text \<open>The name of the Go field for a field of the schema with the name \<open>s\<close>.\<close>

definition go_name :: "bool \<Rightarrow> string \<Rightarrow> string" where
  "go_name ext s = no_keyword_name (if ext then ''Extend_'' @ s else upper_name s)"

lemma go_name_plain:
  assumes "plain_name s"
  shows "plain_name (go_name ext s)"
proof -
  have u: "name_char (CHR ''_'')" "\<forall>c \<in> set ''Extend_''. name_char c" by (auto simp: name_char_def)
  have "plain_name (no_keyword_name n)" if "plain_name n" for n
    using that u plain_append(1) [OF that, of "''_''"] by (simp add: no_keyword_name_def)
  then show ?thesis
    using plain_append(2) [OF assms u(2)] publicFieldName_plain(2) [OF assms] by (simp add: go_name_def)
qed

lemma GoFieldName_plain:
  assumes "FieldDescriptor.fName (fds h ! a) = rs s" "plain_name s"
  shows "GoFieldName h a = Ok (go_name (IsExtendType (fds h ! a)) s)"
  by (simp add: GoFieldName_def assms(1) plain_go_string [OF assms(2)] publicFieldName_plain [OF assms(2)] go_name_def)

section \<open>A generated field\<close>

definition read_tag :: "string \<Rightarrow> string" where
  "read_tag l = take (length l - 11) (drop 9 l)"

lemma read_tag_literal: "read_tag (tag_literal t) = t"
  by (simp add: read_tag_def tag_literal_def)

text \<open>The field that the Go compiler reads, and \<^verbatim>\<open>Tag.Get\<close> for its tag.\<close>

definition gen_field :: "string list \<Rightarrow> schema \<Rightarrow> nat \<Rightarrow> ('e, StructField) go" where
  "gen_field E h a =
     bind_go (GoFieldName h a) (\<lambda>n. bind_go (GoTypeName h a) (\<lambda>t. bind_go (GoTags h a) (\<lambda>l.
       Ok \<lparr>StructField.fName = n, StructField.fType = read_type E t, StructField.fTag = read_tag l\<rparr>)))"

text \<open>The name of the type of a field refers to a structure or an enumeration that the file declares.\<close>

definition refers :: "schema \<Rightarrow> nat \<Rightarrow> string \<Rightarrow> bool" where
  "refers h a tn \<longleftrightarrow> Complex_Name h (fds h ! a) = (Ok (rs tn) :: (unit, _) go) \<and> plain_name tn \<and> map_of basic_types tn = None"

definition good_field :: "string list \<Rightarrow> schema \<Rightarrow> nat \<Rightarrow> bool" where
  "good_field E h a \<longleftrightarrow>
     (\<exists>s. FieldDescriptor.fName (fds h ! a) = rs s \<and> plain_name s)
   \<and> FieldDescriptor.fType (fds h ! a) \<noteq> FieldType_None
   \<and> \<not> (Repeatd (fds h ! a) \<and> FieldDescriptor.fType (fds h ! a) = FieldType_Bytes)
   \<and> - (2 ^ 63) \<le> TagNumber h a \<and> TagNumber h a < 2 ^ 63
   \<and> (FieldDescriptor.fType (fds h ! a) = FieldType_Struct \<longrightarrow> (\<exists>tn. refers h a tn \<and> tn \<notin> set E))
   \<and> (FieldDescriptor.fType (fds h ! a) = FieldType_Enum \<longrightarrow> (\<exists>tn. refers h a tn \<and> tn \<in> set E))"

lemma refers_name: "refers h a tn \<Longrightarrow> Complex_Name h (fds h ! a) = Ok (rs tn)"
  by (auto simp: refers_def Complex_Name_def split: option.splits)

lemma refers_string: "refers h a tn \<Longrightarrow> go_string (rs tn) = tn"
  by (simp add: refers_def plain_go_string)

lemma go_wire_cases:
  "go_wire fd = (case FieldDescriptor.fType fd of FieldType_Bool \<Rightarrow> ''boolean'' | FieldType_String \<Rightarrow> ''string''
     | FieldType_Bytes \<Rightarrow> ''string'' | FieldType_Struct \<Rightarrow> ''struct'' | FieldType_None \<Rightarrow> ''none(0)'' | _ \<Rightarrow> ''integer'')"
proof -
  have "go_string (rs w) = w" if "w \<in> {''boolean'', ''string'', ''struct'', ''none(0)'', ''integer''}" for w
    using that by (intro go_string_rs) auto
  then show ?thesis
    by (cases "FieldDescriptor.fType fd")
      (simp_all add: go_wire_def Kind_def FieldType_name_def strByFieldtype_def fieldtypeByStr_def)
qed

lemma parse_go_tag:
  assumes "plain_name n" "FieldDescriptor.fType (fds h ! a) \<noteq> FieldType_None" "- (2 ^ 63) \<le> TagNumber h a" "TagNumber h a < 2 ^ 63"
  shows "parse (go_tag h a n) sf =
    Ok (sf\<lparr>sfWire := go_wire (fds h ! a), sfTag := TagNumber h a, sfArray := sfArray sf \<or> Repeatd (fds h ! a), sfOrigName := n\<rparr>)"
proof -
  let ?ps = "[go_wire (fds h ! a), itoa (TagNumber h a)] @ (if Repeatd (fds h ! a) then [''array''] else []) @ [''name='' @ n]"
  have w: "go_wire (fds h ! a) \<in> {''integer'', ''boolean'', ''string'', ''struct''}"
    using assms(2) by (cases "FieldDescriptor.fType (fds h ! a)") (simp_all add: go_wire_cases)
  have "\<forall>p \<in> set ?ps. CHR '','' \<notin> set p"
    using w itoa_no_comma assms(1) name_char_distinct by (auto simp: plain_name_def)
  moreover have "go_tag h a n = go_join '','' ?ps" by (simp add: go_tag_def)
  ultimately have split: "go_split CHR '','' (go_tag h a n) = ?ps" using go_split_join [of ?ps "CHR '',''"] by (simp only:) simp
  have "atoi (itoa (TagNumber h a)) = Some (TagNumber h a)"
    using parse_int_itoa [of 64 "TagNumber h a"] assms(3,4) by (simp add: atoi_def)
  with w show ?thesis
    unfolding parse_def split Let_def
    by (auto simp: WireVarintName_def WireBooleanName_def WireBytesName_def WireStructName_def has_prefix_def)
qed

text \<open>The type of an element, as text and as the reader takes it; \<open>tn\<close> is the type that the field refers to.\<close>

definition elem_text :: "FieldType \<Rightarrow> string \<Rightarrow> string" where
  "elem_text t tn =
     (case t of FieldType_Integer \<Rightarrow> ''int'' | FieldType_Bool \<Rightarrow> ''bool'' | FieldType_Struct \<Rightarrow> ''*'' @ tn | FieldType_Enum \<Rightarrow> tn
      | FieldType_Float32 \<Rightarrow> ''int32'' | FieldType_Float64 \<Rightarrow> ''int64'' | FieldType_Bytes \<Rightarrow> ''[]byte''
      | FieldType_Int32 \<Rightarrow> ''int32'' | FieldType_Int64 \<Rightarrow> ''int64'' | FieldType_UInt32 \<Rightarrow> ''uint32'' | FieldType_UInt64 \<Rightarrow> ''uint64''
      | FieldType_String \<Rightarrow> ''string'' | FieldType_None \<Rightarrow> ''none(0)'')"

definition elem_rtype :: "FieldType \<Rightarrow> string \<Rightarrow> rtype" where
  "elem_rtype t tn =
     (case t of FieldType_Integer \<Rightarrow> TInt KInt | FieldType_Bool \<Rightarrow> TBool | FieldType_Struct \<Rightarrow> TPtr (TStruct tn)
      | FieldType_Enum \<Rightarrow> TInt KInt32 | FieldType_Float32 \<Rightarrow> TInt KInt32 | FieldType_Float64 \<Rightarrow> TInt KInt64
      | FieldType_Bytes \<Rightarrow> TSlice (TInt KUint8) | FieldType_Int32 \<Rightarrow> TInt KInt32 | FieldType_Int64 \<Rightarrow> TInt KInt64
      | FieldType_UInt32 \<Rightarrow> TInt KUint32 | FieldType_UInt64 \<Rightarrow> TInt KUint64 | FieldType_String \<Rightarrow> TString
      | FieldType_None \<Rightarrow> TOther)"

definition typed_as :: "string list \<Rightarrow> schema \<Rightarrow> nat \<Rightarrow> string \<Rightarrow> bool" where
  "typed_as E h a tn \<longleftrightarrow>
     (FieldDescriptor.fType (fds h ! a) = FieldType_Struct \<longrightarrow> refers h a tn \<and> tn \<notin> set E)
   \<and> (FieldDescriptor.fType (fds h ! a) = FieldType_Enum \<longrightarrow> refers h a tn \<and> tn \<in> set E)"

lemma good_field_typed: "good_field E h a \<Longrightarrow> \<exists>tn. typed_as E h a tn"
  by (cases "FieldDescriptor.fType (fds h ! a)") (auto simp: good_field_def typed_as_def)

lemma go_string_types:
  "go_string (FieldType_name FieldType_Int32) = ''int32''" "go_string (FieldType_name FieldType_Int64) = ''int64''"
  "go_string (FieldType_name FieldType_UInt32) = ''uint32''" "go_string (FieldType_name FieldType_UInt64) = ''uint64''"
  "go_string (FieldType_name FieldType_String) = ''string''" "go_string (FieldType_name FieldType_None) = ''none(0)''"
  using go_string_rs [of "''int32''"] go_string_rs [of "''int64''"] go_string_rs [of "''uint32''"] go_string_rs [of "''uint64''"]
    go_string_rs [of "''string''"] go_string_rs [of "''none(0)''"]
  by (simp_all add: FieldType_name_def strByFieldtype_def fieldtypeByStr_def)

lemma GoTypeName_text:
  assumes "typed_as E h a tn"
  shows "GoTypeName h a = Ok ((if Repeatd (fds h ! a) then ''[]'' else []) @ elem_text (FieldDescriptor.fType (fds h ! a)) tn)"
  using assms
  by (cases "FieldDescriptor.fType (fds h ! a)")
    (auto simp: GoTypeName_def go_base_type_def elem_text_def typed_as_def refers_name refers_string go_string_types)

lemma read_basic: "map_of basic_types s = Some t \<Longrightarrow> plain_name s \<Longrightarrow> read_type E s = t"
  by (simp add: read_plain named_type_def)

lemma plain_basic: "t \<in> set [''int'', ''bool'', ''int32'', ''int64'', ''uint32'', ''uint64'', ''string'', ''byte''] \<Longrightarrow> plain_name t"
  by (auto simp: plain_name_def name_char_def is_digit_def)

lemma read_elem_text:
  assumes "typed_as E h a tn" "FieldDescriptor.fType (fds h ! a) \<noteq> FieldType_None"
  shows "read_type E (elem_text (FieldDescriptor.fType (fds h ! a)) tn) = elem_rtype (FieldDescriptor.fType (fds h ! a)) tn"
proof -
  have b: "read_type E t = the (map_of basic_types t)"
    if "t \<in> set [''int'', ''bool'', ''int32'', ''int64'', ''uint32'', ''uint64'', ''string'', ''byte'']" for t
    using that by (intro read_basic plain_basic) (auto simp: basic_types_def)
  have p: "read_type E (''[]'' @ ''byte'') = TSlice (TInt KUint8)" "read_type E (''*'' @ tn) = TPtr (read_type E tn)"
    using b [of "''byte''"] by (simp_all only: read_type_prefix) (simp add: basic_types_def)
  from assms(1) have r: "read_type E tn = TStruct tn" if "FieldDescriptor.fType (fds h ! a) = FieldType_Struct"
    using that by (simp add: typed_as_def refers_def read_plain named_type_def)
  from assms(1) have e: "read_type E tn = TInt KInt32" if "FieldDescriptor.fType (fds h ! a) = FieldType_Enum"
    using that by (simp add: typed_as_def refers_def read_plain named_type_def)
  show ?thesis
    using assms(2) p r e b [of "''int''"] b [of "''bool''"] b [of "''int32''"] b [of "''int64''"] b [of "''uint32''"] b [of "''uint64''"]
      b [of "''string''"]
    by (cases "FieldDescriptor.fType (fds h ! a)") (simp_all add: elem_text_def elem_rtype_def basic_types_def)
qed

text \<open>The generated field, and what the registry makes of it.\<close>

definition expected_field :: "schema \<Rightarrow> nat \<Rightarrow> string \<Rightarrow> SprotoField \<Rightarrow> bool" where
  "expected_field h a n sf \<longleftrightarrow>
     sfName sf = n \<and> sfOrigName sf = n \<and> sfTag sf = TagNumber h a \<and> sfArray sf = Repeatd (fds h ! a) \<and> sfWire sf = go_wire (fds h ! a)"

lemma gen_field_accepted:
  assumes "good_field E h a"
  shows "\<exists>g. gen_field E h a = Ok g \<and> (\<forall>i. \<exists>sf link. field_spec i g = Ok (sf, link) \<and> expected_field h a (StructField.fName g) sf
    \<and> (link = None \<or> FieldDescriptor.fType (fds h ! a) = FieldType_Struct \<and> refers h a (the link)))"
proof -
  let ?fd = "fds h ! a" and ?t = "FieldDescriptor.fType (fds h ! a)"
  from assms obtain s where s: "FieldDescriptor.fName ?fd = rs s" "plain_name s" by (auto simp: good_field_def)
  obtain tn where tn: "typed_as E h a tn" using good_field_typed [OF assms] by blast
  from assms have t: "?t \<noteq> FieldType_None" "\<not> (Repeatd ?fd \<and> ?t = FieldType_Bytes)" "- (2 ^ 63) \<le> TagNumber h a" "TagNumber h a < 2 ^ 63"
    by (auto simp: good_field_def)
  let ?n = "go_name (IsExtendType ?fd) s" and ?e = "elem_rtype ?t tn"
  let ?g = "\<lparr>StructField.fName = ?n, StructField.fType = (if Repeatd ?fd then TSlice ?e else ?e), StructField.fTag = go_tag h a ?n\<rparr>"
  have n: "plain_name ?n" by (rule go_name_plain [OF s(2)])
  have g: "gen_field E h a = Ok ?g"
    using read_elem_text [OF tn t(1)] read_type_prefix(1) [of E "elem_text ?t tn"]
    by (simp add: gen_field_def GoFieldName_plain [OF s] GoTypeName_text [OF tn] GoTags_def read_tag_literal)
  have "\<exists>sf link. field_spec i ?g = Ok (sf, link) \<and> expected_field h a ?n sf \<and> (link = None \<or> ?t = FieldType_Struct \<and> refers h a (the link))" for i
  proof -
    let ?start = "new_SprotoField\<lparr>sfName := ?n, sfOrigName := ?n, sfIndex := [i]\<rparr>"
    let ?sf = "?start\<lparr>sfWire := go_wire ?fd, sfTag := TagNumber h a, sfArray := Repeatd ?fd, sfOrigName := ?n\<rparr>"
    have "go_tag h a ?n \<noteq> []" by (simp add: go_tag_def Let_def)
    then have spec: "field_spec i ?g = selectCoders (StructField.fType ?g) ?sf"
      using parse_go_tag [OF n t(1,3,4), of ?start] by (simp add: field_spec_def new_SprotoField_def)
    show ?thesis
      using t(1,2) tn unfolding spec
      by (cases ?t) (auto simp: elem_rtype_def typed_as_def go_wire_cases assertWire_def with_coders_def expected_field_def
          new_SprotoField_def WireVarintName_def WireBooleanName_def WireBytesName_def WireStructName_def)
  qed
  with g show ?thesis by (intro exI [of _ ?g] conjI allI) simp_all
qed

section \<open>All generated types\<close>

fun go_list :: "('a \<Rightarrow> ('e, 'b) go) \<Rightarrow> 'a list \<Rightarrow> ('e, 'b list) go" where
  "go_list f [] = Ok []"
| "go_list f (x # xs) = bind_go (f x) (\<lambda>y. bind_go (go_list f xs) (\<lambda>ys. Ok (y # ys)))"

definition gen_struct :: "string list \<Rightarrow> schema \<Rightarrow> structModel \<Rightarrow> ('e, string \<times> StructField list) go" where
  "gen_struct E h st =
     bind_go (go_list (\<lambda>f. gen_field E h (fmField f)) (StFields st)) (\<lambda>fs. Ok (type_string h (smDesc st), fs))"

definition enum_names :: "schema \<Rightarrow> fileModel \<Rightarrow> string list" where
  "enum_names h fm = map (\<lambda>st. type_string h (smDesc st)) (mEnums fm)"

text \<open>The declarations of the generated file, as the registry of gosproto sees them.\<close>

definition gen_env :: "schema \<Rightarrow> fileModel \<Rightarrow> ('e, tenv) go" where
  "gen_env h fm = go_list (gen_struct (enum_names h fm) h) (mStructs fm)"

lemma go_list_Ok:
  "(\<And>x. x \<in> set xs \<Longrightarrow> f x = Ok (g x)) \<Longrightarrow> go_list f xs = Ok (map g xs)"
  by (induction xs) auto

definition whole_struct :: "schema \<Rightarrow> structModel \<Rightarrow> bool" where
  "whole_struct h st \<longleftrightarrow> st = struct_model h (smDesc st)"

lemma whole_struct_model: "whole_struct h (struct_model h d)"
  by (simp add: whole_struct_def) (simp add: struct_model_def Let_def)

lemma struct_model_fields: "map fmField (StFields (struct_model h d)) = Fields (ds h ! d)"
  by (simp add: struct_model_def Let_def comp_def map_nth)

lemma whole_fields: "whole_struct h st \<Longrightarrow> map fmField (StFields st) = Fields (ds h ! smDesc st)"
  using struct_model_fields [of h "smDesc st"] unfolding whole_struct_def by (elim ssubst) simp

lemma add_objects_step:
  "\<exists>fm'. add_objects h s (d # dl) fm = add_objects h s dl fm'
     \<and> (mStructs fm' = mStructs fm \<or> mStructs fm' = mStructs fm @ [struct_model h d])"
proof (cases "s \<noteq> [] \<and> SrcName (ds h ! d) \<noteq> s")
  case True
  then show ?thesis by (intro exI [of _ fm]) simp
next
  case False
  let ?fm = "fm\<lparr>mObjects := mObjects fm @ [struct_model h d]\<rparr>"
  show ?thesis
  proof (cases "dType (ds h ! d)")
    case DescriptorType_None
    with False show ?thesis by (intro exI [of _ ?fm]) (auto simp: Let_def)
  next
    case DescriptorType_Enum
    with False show ?thesis by (intro exI [of _ "?fm\<lparr>mEnums := mEnums ?fm @ [struct_model h d]\<rparr>"]) (auto simp: Let_def)
  next
    case DescriptorType_Struct
    with False show ?thesis by (intro exI [of _ "?fm\<lparr>mStructs := mStructs ?fm @ [struct_model h d]\<rparr>"]) (auto simp: Let_def)
  qed
qed

lemma add_objects_whole:
  "\<forall>st \<in> set (mStructs fm). whole_struct h st \<Longrightarrow> \<forall>st \<in> set (mStructs (add_objects h s dl fm)). whole_struct h st"
proof (induction dl arbitrary: fm)
  case (Cons d dl)
  obtain fm' where fm': "add_objects h s (d # dl) fm = add_objects h s dl fm'"
    "mStructs fm' = mStructs fm \<or> mStructs fm' = mStructs fm @ [struct_model h d]" using add_objects_step by blast
  with Cons.prems whole_struct_model [of h d] have "\<forall>st \<in> set (mStructs fm'). whole_struct h st" by auto
  from Cons.IH [OF this] show ?case by (simp only: fm'(1))
qed simp

lemma addData_whole:
  assumes "\<forall>st \<in> set (mStructs fm). whole_struct h st"
  shows "\<forall>st \<in> set (mStructs (addData h mt fm)). whole_struct h st"
proof -
  let ?step = "\<lambda>f fm. if File_MatchTag (fls h ! f) mt then addStruct h f [] fm else fm"
  have "\<forall>st \<in> set (mStructs (fold ?step l fm)). whole_struct h st" if "\<forall>st \<in> set (mStructs fm). whole_struct h st" for l fm
    using that
  proof (induction l arbitrary: fm)
    case (Cons f l)
    have "\<forall>st \<in> set (mStructs (?step f fm)). whole_struct h st"
      using Cons.prems add_objects_whole [OF Cons.prems, of "[]" "Objects (fls h ! f)"] by (simp add: addStruct_def)
    from Cons.IH [OF this] show ?case by simp
  qed simp
  from this [OF assms] show ?thesis by (simp add: addData_def)
qed

text \<open>The tag numbers that are sent, those from 0 on, are different.\<close>

definition distinct_tags :: "schema \<Rightarrow> nat list \<Rightarrow> bool" where
  "distinct_tags h l \<longleftrightarrow> distinct (filter (\<lambda>t. 0 \<le> t) (map (TagNumber h) l))"

definition good_structs :: "schema \<Rightarrow> fileModel \<Rightarrow> bool" where
  "good_structs h fm \<longleftrightarrow>
     (\<forall>st \<in> set (mStructs fm).
        (\<forall>a \<in> set (Fields (ds h ! smDesc st)). good_field (enum_names h fm) h a) \<and> distinct_tags h (Fields (ds h ! smDesc st)))
   \<and> distinct (map (\<lambda>st. type_string h (smDesc st)) (mStructs fm))"

lemma distinct_tags_nth:
  assumes "distinct_tags h l" "j < i" "i < length l" "0 \<le> TagNumber h (l ! i)"
  shows "TagNumber h (l ! i) \<noteq> TagNumber h (l ! j)"
proof
  assume eq: "TagNumber h (l ! i) = TagNumber h (l ! j)"
  have "l = take i l @ l ! i # drop (Suc i) l" using assms(3) by (rule id_take_nth_drop)
  then have "distinct_tags h (take i l @ l ! i # drop (Suc i) l)" using assms(1) by simp
  moreover have "l ! j \<in> set (take i l)" using assms(2,3) by (auto simp: in_set_conv_nth intro!: exI [of _ j])
  ultimately show False using eq assms(4) by (auto simp: distinct_tags_def)
qed

lemma accepted_generated:
  assumes "distinct_tags h l"
    and "\<And>a i. a \<in> set l \<Longrightarrow> \<exists>x. field_spec i (G a) = Ok x \<and> sfTag (fst x) = TagNumber h a"
  shows "accepted_fields (map G l)"
proof -
  have t: "sfTag (fst x) = TagNumber h (l ! i)" if "field_spec i (G (l ! i)) = Ok x" "i < length l" for i x
    using assms(2) [of "l ! i" i] that by auto
  have "\<exists>x. field_spec i (G (l ! i)) = Ok x" if "i < length l" for i
    using assms(2) [of "l ! i" i] that by auto
  moreover have "sfTag (fst x) \<noteq> sfTag (fst y)"
    if "j < i" "i < length l" "field_spec i (G (l ! i)) = Ok x" "field_spec j (G (l ! j)) = Ok y" "sfTag (fst x) \<ge> 0" for i j x y
    using distinct_tags_nth [OF assms(1) that(1,2)] t [OF that(3,2)] t [OF that(4)] that(1,2,5) by simp
  moreover have n: "map G l ! i = G (l ! i)" if "i < length l" for i using that by simp
  ultimately show ?thesis
    unfolding accepted_fields_def length_map
  proof (intro conjI allI impI, goal_cases)
    case (1 i)
    then show ?case unfolding n [OF 1(4)] by blast
  next
    case (2 i j x y)
    then have "j < length l" "i < length l" by auto
    with 2 show ?case unfolding n [OF \<open>i < length l\<close>] n [OF \<open>j < length l\<close>] by blast
  qed
qed

text \<open>What the registry should hold for a structure of the schema.\<close>

definition describes_schema :: "schema \<Rightarrow> nat list \<Rightarrow> SprotoType \<Rightarrow> bool" where
  "describes_schema h l st \<longleftrightarrow> length (stFields st) = length l
     \<and> (\<forall>i < length l. \<exists>n sf. GoFieldName h (l ! i) = (Ok n :: (unit, _) go) \<and> stFields st ! i = Some sf \<and> expected_field h (l ! i) n sf)"

lemma gen_field_name: "gen_field E h a = (Ok g :: (unit, _) go) \<Longrightarrow> GoFieldName h a = (Ok (StructField.fName g) :: (unit, _) go)"
  by (auto simp: gen_field_def bind_go_eq_Ok)

lemma link_field_expected: "link_field m (sf, k) = Some sf' \<Longrightarrow> expected_field h a n sf \<Longrightarrow> expected_field h a n sf'"
  by (auto simp: link_field_def expected_field_def split: option.splits)

text \<open>
  C35: The generator of Go code and the wire format agree on the types. When the fields of the structures have plain
  names and known types, no field is an array of byte strings, and the tag numbers of a structure differ,
  the registry of gosproto accepts every generated structure, and describes its fields under the
  generated names with the tag numbers, the wire types and the array marks of the schema, in the order of the schema.
\<close>

theorem generated_types_accepted:
  assumes "fm = addData h mt (new_fileModel package reg classAttr fieldAttr grp)" "good_structs h fm"
  shows "\<exists>env. gen_env h fm = (Ok env :: (unit, _) go) \<and>
    (\<forall>st \<in> set (mStructs fm). \<exists>a r. GetSprotoType env (TStruct (type_string h (smDesc st))) empty_registry = Some (Ok a, r)
       \<and> describes_schema h (Fields (ds h ! smDesc st)) (heap r ! a))"
proof -
  let ?E = "enum_names h fm" and ?name = "\<lambda>st. type_string h (smDesc st)" and ?l = "\<lambda>st. Fields (ds h ! smDesc st)"
  have w: "whole_struct h st" if "st \<in> set (mStructs fm)" for st
    using addData_whole [of "new_fileModel package reg classAttr fieldAttr grp" h mt] assms(1) that by (simp add: new_fileModel_def)
  have l: "map fmField (StFields st) = ?l st" if "st \<in> set (mStructs fm)" for st
    using whole_fields [OF w [OF that]] .
  define G where "G a = (SOME g. gen_field ?E h a = (Ok g :: (unit, _) go))" for a
  have good: "good_field ?E h a" if "st \<in> set (mStructs fm)" "a \<in> set (?l st)" for st a
    using assms(2) that by (simp add: good_structs_def)
  have G: "gen_field ?E h a = (Ok (G a) :: (unit, _) go)"
    "\<exists>sf k. field_spec i (G a) = Ok (sf, k) \<and> expected_field h a (StructField.fName (G a)) sf" if "good_field ?E h a" for a i
  proof -
    from gen_field_accepted [OF that] obtain g where g: "gen_field ?E h a = (Ok g :: (unit, _) go)"
      "\<exists>sf k. field_spec i g = Ok (sf, k) \<and> expected_field h a (StructField.fName g) sf" for i by metis
    then have "G a = g" by (simp add: G_def)
    with g show "gen_field ?E h a = (Ok (G a) :: (unit, _) go)"
      "\<exists>sf k. field_spec i (G a) = Ok (sf, k) \<and> expected_field h a (StructField.fName (G a)) sf" by simp_all
  qed
  let ?env = "map (\<lambda>st. (?name st, map G (?l st))) (mStructs fm)"
  have "gen_struct ?E h st = (Ok (?name st, map G (?l st)) :: (unit, _) go)" if "st \<in> set (mStructs fm)" for st
  proof -
    have "go_list (\<lambda>f. gen_field ?E h (fmField f)) (StFields st) = (Ok (map (\<lambda>f. G (fmField f)) (StFields st)) :: (unit, _) go)"
      using G(1) good [OF that] l [OF that] by (intro go_list_Ok) (metis image_eqI list.set_map)
    then show ?thesis using l [OF that] by (simp add: gen_struct_def flip: list.map_comp [unfolded comp_def])
  qed
  then have env: "gen_env h fm = (Ok ?env :: (unit, _) go)" by (simp add: gen_env_def go_list_Ok)
  have acc: "accepted_fields (struct_fields ?env t)" for t
  proof (cases "map_of ?env t")
    case None
    then show ?thesis by (simp add: struct_fields_def accepted_fields_def)
  next
    case (Some fs)
    then obtain st where st: "st \<in> set (mStructs fm)" "fs = map G (?l st)" by (auto dest!: map_of_SomeD)
    have "accepted_fields (map G (?l st))"
    proof (rule accepted_generated [of h])
      show "distinct_tags h (?l st)" using assms(2) st(1) by (simp add: good_structs_def)
      show "\<exists>x. field_spec i (G a) = Ok x \<and> sfTag (fst x) = TagNumber h a" if "a \<in> set (?l st)" for a i
        using G(2) [OF good [OF st(1) that], of i] by (auto simp: expected_field_def)
    qed
    with Some st show ?thesis by (simp add: struct_fields_def)
  qed
  have "\<exists>a r. GetSprotoType ?env (TStruct (?name st)) empty_registry = Some (Ok a, r) \<and> describes_schema h (?l st) (heap r ! a)"
    if st: "st \<in> set (mStructs fm)" for st
  proof -
    from GetSprotoType_accepts [OF acc registry_ok_empty] obtain a r where
      r: "GetSprotoType ?env (TStruct (?name st)) empty_registry = Some (Ok a, r)" by blast
    then have "getSprotoTypeLocked ?env (Suc (length ?env)) (?name st) empty_registry = Some (Ok a, r)"
      unfolding GetSprotoType_def by simp
    with locked.get_ok [OF registry_ok_empty] have ok: "registry_ok ?env {} r" "stMap r (?name st) = Some a" by blast+
    then have d: "describes ?env (stMap r) (?name st) (heap r ! a)" by (simp add: registry_ok_def)
    have "map_of ?env (?name st) = Some (map G (?l st))"
      using st assms(2) by (intro map_of_is_SomeI) (auto simp: good_structs_def comp_def)
    then have fs: "struct_fields ?env (?name st) = map G (?l st)" by (simp add: struct_fields_def)
    have "\<exists>n sf. GoFieldName h (?l st ! i) = (Ok n :: (unit, _) go) \<and> stFields (heap r ! a) ! i = Some sf \<and> expected_field h (?l st ! i) n sf"
      if i: "i < length (?l st)" for i
    proof -
      have g: "good_field ?E h (?l st ! i)" using good [OF st] i by simp
      from d i have "field_ok (stMap r) i (G (?l st ! i)) (stFields (heap r ! a) ! i)"
        by (simp add: describes_def described_def fs)
      then obtain sf k sf' where "field_spec i (G (?l st ! i)) = Ok (sf, k)" "stFields (heap r ! a) ! i = Some sf'"
        "link_field (stMap r) (sf, k) = Some sf'" by (fastforce simp: field_ok_def)
      with G(2) [OF g, of i] link_field_expected gen_field_name [OF G(1) [OF g]] show ?thesis by auto
    qed
    moreover have "length (stFields (heap r ! a)) = length (?l st)" using d by (simp add: describes_def described_def fs)
    ultimately show ?thesis using r by (auto simp: describes_schema_def)
  qed
  with env show ?thesis by blast
qed

section \<open>A generated file\<close>

definition game_model :: fileModel where
  "game_model = addData game_schema (rs ''go'') (new_fileModel (rs ''proto'') True [] [] True)"

lemma game_model_objects: "map smDesc (mStructs game_model) = [0]" "enum_names game_schema game_model = [''RoomResult'', ''GateResult'']"
  by code_simp+

lemma game_fields:
  "Fields (ds game_schema ! 0) = [0, 1, 2, 3]" "TagNumber game_schema 0 = 0" "TagNumber game_schema 1 = 1" "TagNumber game_schema 2 = 2"
  "TagNumber game_schema 3 = 3" "type_string game_schema 0 = ''Room''"
  by code_simp+

lemma game_good: "good_structs game_schema game_model"
proof -
  note defs = game_schema_def game_field_def game_object_def
  have plain: "plain_name ''id''" "plain_name ''names''" "plain_name ''owner''" "plain_name ''state''" "plain_name ''Room''" "plain_name ''RoomResult''"
    by (auto simp: plain_name_def name_char_def)
  have r: "refers game_schema 2 ''Room''" "refers game_schema 3 ''RoomResult''"
    using plain by (simp_all add: refers_def Complex_Name_def defs basic_types_def)
  have names: "FieldDescriptor.fName (fds game_schema ! 0) = rs ''id''" "FieldDescriptor.fName (fds game_schema ! 1) = rs ''names''"
    "FieldDescriptor.fName (fds game_schema ! 2) = rs ''owner''" "FieldDescriptor.fName (fds game_schema ! 3) = rs ''state''"
    by (simp_all add: defs)
  have types: "FieldDescriptor.fType (fds game_schema ! 0) = FieldType_Int32" "FieldDescriptor.fType (fds game_schema ! 1) = FieldType_String"
    "FieldDescriptor.fType (fds game_schema ! 2) = FieldType_Struct" "FieldDescriptor.fType (fds game_schema ! 3) = FieldType_Enum"
    by (simp_all add: defs)
  have "good_field [''RoomResult'', ''GateResult''] game_schema a" if "a \<in> set [0, 1, 2, 3]" for a
  proof -
    from that consider "a = 0" | "a = 1" | "a = 2" | "a = 3" by auto
    then show ?thesis
    proof cases
      case 1
      with plain names types game_fields show ?thesis unfolding good_field_def by (intro conjI) (auto intro: exI)
    next
      case 2
      with plain names types game_fields show ?thesis unfolding good_field_def by (intro conjI) (auto intro: exI)
    next
      case 3
      with plain names types game_fields r(1) show ?thesis unfolding good_field_def by (intro conjI) (auto intro: exI)
    next
      case 4
      with plain names types game_fields r(2) show ?thesis unfolding good_field_def by (intro conjI) (auto intro: exI)
    qed
  qed
  moreover have "smDesc st = 0" if "st \<in> set (mStructs game_model)" for st
    using game_model_objects(1) that by (metis (no_types, lifting) image_eqI list.set_map empty_iff insertE list.set(1,2))
  moreover have "distinct (map (\<lambda>st. type_string game_schema (smDesc st)) (mStructs game_model))"
    using game_model_objects(1) by (cases "mStructs game_model") auto
  ultimately show ?thesis
    by (simp add: good_structs_def game_model_objects(2) game_fields game_fields(3) [unfolded One_nat_def] distinct_tags_def)
qed

theorem generated_types_accepted_witness:
  "\<exists>env a r. gen_env game_schema game_model = (Ok env :: (unit, _) go)
     \<and> GetSprotoType env (TStruct ''Room'') empty_registry = Some (Ok a, r) \<and> describes_schema game_schema [0, 1, 2, 3] (heap r ! a)"
proof -
  obtain st where st: "st \<in> set (mStructs game_model)" "smDesc st = 0"
    using game_model_objects(1) by (cases "mStructs game_model") auto
  from generated_types_accepted [OF game_model_def game_good] obtain env where
    "gen_env game_schema game_model = (Ok env :: (unit, _) go)"
    "\<exists>a r. GetSprotoType env (TStruct (type_string game_schema (smDesc st))) empty_registry = Some (Ok a, r)
       \<and> describes_schema game_schema (Fields (ds game_schema ! smDesc st)) (heap r ! a)" using st(1) by blast
  then show ?thesis by (auto simp: st(2) game_fields)
qed

section \<open>What the generator gets wrong\<close>

text \<open>An array of byte strings becomes \<^verbatim>\<open>[][]byte\<close>, for which \<^verbatim>\<open>setEncAndDec\<close> has no case.\<close>

lemma repeated_bytes_refused:
  assumes "FieldDescriptor.fName (fds h ! a) = rs s" "plain_name s" "FieldDescriptor.fType (fds h ! a) = FieldType_Bytes" "Repeatd (fds h ! a)"
    and "- (2 ^ 63) \<le> TagNumber h a" "TagNumber h a < 2 ^ 63"
  shows "\<exists>g. gen_field E h a = Ok g \<and> field_spec i g = Err (ErrNoCoder (StructField.fName g))"
proof -
  let ?n = "go_name (IsExtendType (fds h ! a)) s"
  let ?g = "\<lparr>StructField.fName = ?n, StructField.fType = TSlice (TSlice (TInt KUint8)), StructField.fTag = go_tag h a ?n\<rparr>"
  have t: "typed_as E h a tn" for tn using assms(3) by (simp add: typed_as_def)
  have "gen_field E h a = Ok ?g"
    using read_elem_text [OF t] read_type_prefix(1) [of E "elem_text FieldType_Bytes []"] assms(3,4)
    by (simp add: gen_field_def GoFieldName_plain [OF assms(1,2)] GoTypeName_text [OF t [of "[]"]] GoTags_def read_tag_literal elem_rtype_def)
  moreover have "go_tag h a ?n \<noteq> []" by (simp add: go_tag_def Let_def)
  then have "field_spec i ?g = Err (ErrNoCoder ?n)"
    using parse_go_tag [OF go_name_plain [OF assms(2)] _ assms(5,6), of "IsExtendType (fds h ! a)"
        "new_SprotoField\<lparr>sfName := ?n, sfOrigName := ?n, sfIndex := [i]\<rparr>"] assms(3)
    by (simp add: field_spec_def new_SprotoField_def)
  ultimately show ?thesis by auto
qed

text \<open>The getter of an array of floats converts the slice and multiplies it, which is not Go.\<close>

lemma repeated_float_getter:
  assumes "FieldDescriptor.fName (fds h ! a) = rs s" "plain_name s" "FieldDescriptor.fType (fds h ! a) = FieldType_Float32" "Repeatd (fds h ! a)"
  shows "GoExtendFieldGetter ftext h a =
    Ok (''return []float32(self.'' @ go_name True s @ '') * '' @ ftext (ExtendTypePrecision (fds h ! a)))"
  using assms(3,4)
  by (simp add: GoFieldName_plain [OF assms(1,2)] GoExtendFieldGetter_def GoExtendFieldGetterType_def IsExtendType_def)

end
