(* ===== verification/Gen_Text.thy ===== *)
theory Gen_Text
  imports Gen_Go
begin

text \<open>
  The other generators of \<^verbatim>\<open>gosproto/sprotogen\<close>: C# (\<^verbatim>\<open>gen_csharp.go\<close>), Lua (\<^verbatim>\<open>gen_lua.go\<close>), annotations for
  Lua editors (\<^verbatim>\<open>gen_emmylua.go\<close>), standard sproto files (\<^verbatim>\<open>gen_sproto.go\<close>), and the choice of the
  outputs (\<^verbatim>\<open>main.go\<close>).
\<close>

abbreviation message_number :: "schema \<Rightarrow> fileModel \<Rightarrow> structModel \<Rightarrow> string" where
  "message_number h fm st \<equiv> show_nat (unat (MsgID h fm st))"

abbreviation tag_text_of :: "schema \<Rightarrow> nat \<Rightarrow> string" where
  "tag_text_of h a \<equiv> itoa (TagNumber h a)"

section \<open>Standard sproto\<close>

definition compatible_type :: "schema \<Rightarrow> nat \<Rightarrow> ('e, string) go" where
  "compatible_type h a = bind_go (typeStr h (fds h ! a) True) (\<lambda>t. Ok (go_string t))"

definition sproto_struct :: "schema \<Rightarrow> structModel \<Rightarrow> ('e, string) go" where
  "sproto_struct h st =
     bind_go (field_texts (\<lambda>a. bind_go (compatible_type h a) (\<lambda>t.
         Ok (ln 0 [] @ ln 1 (field_string h a @ '' '' @ tag_text_of h a @ '' : '' @ t) @ [CHR 0x09]))) st) (\<lambda>fields.
       Ok (ln 0 [] @ ln 0 (''.'' @ type_string h (smDesc st) @ '' {'') @ [CHR 0x09] @ fields @ ln 0 [] @ ln 0 ''}''))"

definition sproto_template :: "schema \<Rightarrow> fileModel \<Rightarrow> ('e, string) go" where
  "sproto_template h fm =
     bind_go (range_text (sproto_struct h) (mStructs fm)) (\<lambda>structs.
       Ok (ln 0 ''# Generated by github.com/davyxu/gosproto/sprotogen'' @ ln 0 ''# DO NOT EDIT!'' @ ln 0 [] @ structs
           @ ln 0 [] @ ln 0 []))"

definition gen_sproto ::
    "string \<Rightarrow> (string \<Rightarrow> string option) \<Rightarrow> schema \<Rightarrow> fileModel \<Rightarrow> (gen_error, string \<times> (string \<Rightarrow> string option)) go" where
  "gen_sproto filename files h fm =
     generateCode Some False (sproto_template h (addData h (rs ''sproto'') fm)) filename files"

section \<open>Lua\<close>

definition LuaDefaultValueString :: "FieldDescriptor \<Rightarrow> string" where
  "LuaDefaultValueString fd =
     (if Repeatd fd then ''nil''
      else case FieldDescriptor.fType fd of
             FieldType_Bool \<Rightarrow> ''false''
           | FieldType_Int32 \<Rightarrow> ''0'' | FieldType_Int64 \<Rightarrow> ''0'' | FieldType_UInt32 \<Rightarrow> ''0'' | FieldType_UInt64 \<Rightarrow> ''0''
           | FieldType_Integer \<Rightarrow> ''0'' | FieldType_Float32 \<Rightarrow> ''0'' | FieldType_Float64 \<Rightarrow> ''0'' | FieldType_Enum \<Rightarrow> ''0''
           | FieldType_String \<Rightarrow> in_quotes []
           | FieldType_Struct \<Rightarrow> ''nil'' | FieldType_Bytes \<Rightarrow> ''nil''
           | FieldType_None \<Rightarrow> ''unknown type'' @ go_string (FieldType_name FieldType_None))"

definition lua_results :: "schema \<Rightarrow> fileModel \<Rightarrow> ('e, string) go" where
  "lua_results h fm =
     (if EnumValueGroup fm then
        bind_go (result_cases h fm (\<lambda>n v. tabs 1 @ ''['' @ n @ ''] = '' @ in_quotes v @ '', '')) (\<lambda>results.
        Ok (ln 0 [] @ ln 0 ''ResultToString = function ( result )'' @ ln 1 ''if result == 0 then'' @ ln 2 (''return '' @ in_quotes ''OK'')
          @ ln 1 ''end'' @ ln 0 [] @ ln 1 ''local str = ResultByID[result]'' @ ln 1 ''if str == nil then''
          @ ln 2 (''return string.format('' @ in_quotes ''unknown result: %d'' @ '', result )'') @ ln 1 ''end'' @ ln 0 []
          @ ln 1 ''return str'' @ ln 0 ''end'' @ ln 0 [] @ ln 0 ''ResultByID = {'' @ [CHR 0x09] @ results @ ln 0 [] @ ln 0 ''}''
          @ ln 0 []))
      else Ok [])"

definition lua_enum :: "schema \<Rightarrow> structModel \<Rightarrow> ('e, string) go" where
  "lua_enum h st =
     bind_go (range_text (\<lambda>a. Ok (tabs 2 @ field_string h a @ '' = '' @ tag_text_of h a @ '', '')) (Fields (ds h ! smDesc st))) (\<lambda>vs.
       Ok (tabs 1 @ type_string h (smDesc st) @ '' = { '' @ vs @ ln 0 [] @ ln 1 ''},'' @ [CHR 0x09]))"

definition lua_schema :: "schema \<Rightarrow> structModel \<Rightarrow> ('e, string) go" where
  "lua_schema h st =
     bind_go (field_texts (\<lambda>a. bind_go (compatible_type h a) (\<lambda>t.
         Ok ([CHR 0x09] @ tabs 1 @ field_string h a @ '' '' @ tag_text_of h a @ '' : '' @ t @ '' ''))) st) (\<lambda>fields.
       Ok (ln 0 [] @ ''.'' @ type_string h (smDesc st) @ '' {'' @ [CHR 0x09] @ fields @ ln 0 [] @ ln 0 ''}''))"

definition lua_reset :: "schema \<Rightarrow> fileModel \<Rightarrow> structModel \<Rightarrow> ('e, string) go" where
  "lua_reset h fm st =
     bind_go (field_texts (\<lambda>a. Ok (tabs 3 @ ''obj.'' @ field_string h a @ '' = '' @ LuaDefaultValueString (fds h ! a) @ '' '')) st) (\<lambda>vs.
       Ok (tabs 2 @ ''['' @ message_number h fm st @ ''] = function( obj ) -- '' @ type_string h (smDesc st)
         @ tabs 3 @ ''if obj == nil then return end '' @ vs @ tabs 2 @ ''end, ''))"

text \<open>The entry of a message in the table of names by number.\<close>

definition lua_name_entry :: "schema \<Rightarrow> fileModel \<Rightarrow> structModel \<Rightarrow> string" where
  "lua_name_entry h fm st = tabs 2 @ ''['' @ message_number h fm st @ ''] = '' @ in_quotes (type_string h (smDesc st)) @ '',''"

definition lua_template :: "schema \<Rightarrow> fileModel \<Rightarrow> ('e, string) go" where
  "lua_template h fm =
     bind_go (lua_results h fm) (\<lambda>results.
     bind_go (range_text (lua_enum h) (mEnums fm)) (\<lambda>enums.
     bind_go (range_text (lua_schema h) (mStructs fm)) (\<lambda>schemas.
     bind_go (range_text (lua_reset h fm) (mStructs fm)) (\<lambda>resets.
       Ok (ln 0 ''-- Generated by github.com/davyxu/gosproto/sprotogen'' @ ln 0 ''-- DO NOT EDIT!'' @ results @ ln 0 [] @ ln 0 []
         @ ln 0 ''Enum = {'' @ enums @ ln 0 [] @ ln 0 ''}'' @ ln 0 []
         @ ln 0 ''local sproto = {'' @ ln 1 ''Schema = [['' @ schemas @ ln 0 [] @ ln 1 '']],'' @ ln 0 []
         @ [CHR 0x09] @ ''NameByID = { '' @ concat (map (lua_name_entry h fm) (mStructs fm)) @ ln 0 [] @ ln 1 ''},'' @ ln 1 []
         @ ln 1 ''IDByName = {},'' @ ln 0 []
         @ [CHR 0x09] @ ''ResetByID = { '' @ resets @ ln 0 [] @ ln 1 ''},'' @ ln 0 ''}'' @ ln 0 []
         @ ln 0 ''local t = sproto.IDByName'' @ ln 0 ''for k, v in pairs(sproto.NameByID) do'' @ ln 1 ''t[v] = k'' @ ln 0 ''end''
         @ ln 0 [] @ ln 0 ''return sproto'' @ ln 0 [])))))"

definition gen_lua ::
    "string \<Rightarrow> (string \<Rightarrow> string option) \<Rightarrow> schema \<Rightarrow> fileModel \<Rightarrow> (gen_error, string \<times> (string \<Rightarrow> string option)) go" where
  "gen_lua filename files h fm =
     generateCode Some False (lua_template h (addData h (rs ''lua'') fm)) filename files"

section \<open>C#\<close>

definition csharpTypeName :: "schema \<Rightarrow> FieldDescriptor \<Rightarrow> ('e, string) go" where
  "csharpTypeName h fd =
     (case FieldDescriptor.fType fd of
        FieldType_Integer \<Rightarrow> Ok ''Int64'' | FieldType_Int32 \<Rightarrow> Ok ''Int32'' | FieldType_Int64 \<Rightarrow> Ok ''Int64''
      | FieldType_UInt32 \<Rightarrow> Ok ''UInt32'' | FieldType_UInt64 \<Rightarrow> Ok ''UInt64'' | FieldType_Float32 \<Rightarrow> Ok ''float''
      | FieldType_Float64 \<Rightarrow> Ok ''double'' | FieldType_String \<Rightarrow> Ok ''string'' | FieldType_Bool \<Rightarrow> Ok ''bool''
      | FieldType_Bytes \<Rightarrow> Ok ''byte[]''
      | FieldType_Struct \<Rightarrow> bind_go (Complex_Name h fd) (\<lambda>n. Ok (go_string n))
      | FieldType_Enum \<Rightarrow> bind_go (Complex_Name h fd) (\<lambda>n. Ok (go_string n))
      | FieldType_None \<Rightarrow> Ok ''unknown'')"

definition serializer :: "FieldDescriptor \<Rightarrow> string" where
  "serializer fd =
     (case FieldDescriptor.fType fd of
        FieldType_Integer \<Rightarrow> ''integer'' | FieldType_Int32 \<Rightarrow> ''int32'' | FieldType_Int64 \<Rightarrow> ''int64''
      | FieldType_UInt32 \<Rightarrow> ''uint32'' | FieldType_UInt64 \<Rightarrow> ''uint64'' | FieldType_Float32 \<Rightarrow> ''float32''
      | FieldType_Float64 \<Rightarrow> ''double'' | FieldType_String \<Rightarrow> ''string'' | FieldType_Bool \<Rightarrow> ''boolean''
      | FieldType_Struct \<Rightarrow> ''obj'' | FieldType_Enum \<Rightarrow> ''enum'' | FieldType_Bytes \<Rightarrow> ''bytes''
      | FieldType_None \<Rightarrow> ''unknown'')"

definition index_type :: "schema \<Rightarrow> FieldDescriptor \<Rightarrow> ('e, string) go" where
  "index_type h fd =
     (case MainIndex fd of None \<Rightarrow> Ok [] | Some i \<Rightarrow> bind_go (csharpTypeName h (fds h ! i)) (\<lambda>t. Ok (t @ '','')))"

definition CSTemplate :: "schema \<Rightarrow> nat \<Rightarrow> ('e, string) go" where
  "CSTemplate h a =
     (let fd = fds h ! a; needTemplate = FieldDescriptor.fType fd \<in> {FieldType_Struct, FieldType_Enum} in
      bind_go (index_type h fd) (\<lambda>i.
      bind_go (if needTemplate then bind_go (Complex_Name h fd) (\<lambda>n. Ok (go_string n @ ''>'')) else Ok []) (\<lambda>n.
        Ok ((if needTemplate then ''<'' else []) @ i @ n))))"

definition CSLamdaFunc :: "schema \<Rightarrow> nat \<Rightarrow> string" where
  "CSLamdaFunc h a =
     (case MainIndex (fds h ! a) of None \<Rightarrow> [] | Some i \<Rightarrow> ''v => v.'' @ field_string h i)"

definition CSWriteFunc :: "FieldDescriptor \<Rightarrow> string" where
  "CSWriteFunc fd = ''write_'' @ serializer fd"

definition CSReadFunc :: "FieldDescriptor \<Rightarrow> string" where
  "CSReadFunc fd =
     ''read_'' @ (if Repeatd fd then if MainIndex fd \<noteq> None then ''map'' else serializer fd @ ''_list'' else serializer fd)"

definition CSTypeString :: "schema \<Rightarrow> nat \<Rightarrow> ('e, string) go" where
  "CSTypeString h a =
     (let fd = fds h ! a in
      bind_go (if Repeatd fd \<and> MainIndex fd \<noteq> None then index_type h fd else Ok []) (\<lambda>i.
      bind_go (csharpTypeName h fd) (\<lambda>t.
        Ok (if Repeatd fd then (if MainIndex fd \<noteq> None then ''Dictionary<'' @ i else ''List<'') @ t @ ''>'' else t))))"

definition cs_enum :: "schema \<Rightarrow> structModel \<Rightarrow> ('e, string) go" where
  "cs_enum h st =
     bind_go (field_texts (\<lambda>a. Ok (ln 0 [] @ ln 2 (field_string h a @ '' = '' @ tag_text_of h a @ '','') @ replicate 2 (CHR 0x09))) st)
       (\<lambda>vs. Ok (ln 0 [] @ ln 1 (''public enum '' @ type_string h (smDesc st) @ '' {'') @ replicate 2 (CHR 0x09) @ vs @ ln 0 []
               @ ln 1 ''}''))"

definition cs_member :: "schema \<Rightarrow> fileModel \<Rightarrow> fieldModel \<Rightarrow> ('e, string) go" where
  "cs_member h fm f =
     (let a = fmField f; name = field_string h a; ix = show_nat (FieldIndex f) in
      bind_go (UpperName h a) (\<lambda>upper. bind_go (CSTypeString h a) (\<lambda>t.
        Ok (ln 0 [] @ ln 2 ''[SprotoHasField]'' @ ln 2 (''public bool Has'' @ upper @ ''{'')
          @ ln 3 (''get { return base.has_field.has_field('' @ ix @ ''); }'') @ ln 2 ''}'' @ ln 2 (mFieldAttr fm)
          @ ln 2 (''private '' @ t @ '' _'' @ name @ ''; // tag '' @ tag_text_of h a) @ ln 2 (''public '' @ t @ '' '' @ name @ '' {'')
          @ ln 3 (''get{ return _'' @ name @ ''; }'')
          @ ln 3 (''set{ base.has_field.set_field('' @ ix @ '',true); _'' @ name @ '' = value; }'') @ ln 2 ''}''
          @ replicate 2 (CHR 0x09)))))"

definition cs_read :: "schema \<Rightarrow> nat \<Rightarrow> ('e, string) go" where
  "cs_read h a =
     bind_go (CSTemplate h a) (\<lambda>t.
       Ok (ln 0 [] @ ln 4 (''case '' @ tag_text_of h a @ '':'')
         @ ln 5 (''this.'' @ field_string h a @ '' = base.deserialize.'' @ CSReadFunc (fds h ! a) @ t @ ''('' @ CSLamdaFunc h a @ '');'')
         @ ln 5 ''break;'' @ replicate 4 (CHR 0x09)))"

definition cs_write :: "schema \<Rightarrow> fieldModel \<Rightarrow> string" where
  "cs_write h f =
     (let a = fmField f in
      ln 0 [] @ ln 3 (''if (base.has_field.has_field ('' @ show_nat (FieldIndex f) @ '')) {'')
      @ ln 4 (''base.serialize.'' @ CSWriteFunc (fds h ! a) @ ''(this.'' @ field_string h a @ '', '' @ tag_text_of h a @ '');'')
      @ ln 3 ''}'' @ replicate 3 (CHR 0x09))"

text \<open>An error of \<^verbatim>\<open>MaxFieldCount\<close> ends the template and the program.\<close>

definition cs_max_count :: "schema \<Rightarrow> structModel \<Rightarrow> (gen_error, nat) go" where
  "cs_max_count h st =
     (case MaxFieldCount h (smDesc st) of Ok n \<Rightarrow> Ok n | Err e \<Rightarrow> Err (TemplateError e) | Panic q \<Rightarrow> Panic q)"

definition cs_class :: "schema \<Rightarrow> fileModel \<Rightarrow> structModel \<Rightarrow> (gen_error, string) go" where
  "cs_class h fm st =
     (let name = type_string h (smDesc st) in
      bind_go (cs_max_count h st) (\<lambda>maxn.
      bind_go (range_text (cs_member h fm) (StFields st)) (\<lambda>members.
      bind_go (field_texts (cs_read h) st) (\<lambda>reads.
      Ok (ln 0 [] @ ln 1 (mClassAttr fm) @ ln 1 (''public class '' @ name @ '' : SprotoTypeBase {'')
        @ ln 2 (''private static int max_field_count = '' @ show_nat maxn @ '';'') @ ln 2 [] @ replicate 2 (CHR 0x09) @ members @ ln 0 []
        @ ln 2 [] @ ln 2 (''public '' @ name @ ''() : base(max_field_count) {}'') @ ln 2 []
        @ ln 2 (''public '' @ name @ ''(byte[] buffer) : base(max_field_count, buffer) {'') @ ln 3 ''this.decode ();'' @ ln 2 ''}''
        @ ln 2 [] @ ln 2 ''protected override void decode () {'' @ ln 3 ''int tag = -1;''
        @ ln 3 ''while (-1 != (tag = base.deserialize.read_tag ())) {'' @ ln 4 ''switch (tag) {'' @ replicate 4 (CHR 0x09) @ reads
        @ ln 0 [] @ ln 4 ''default:'' @ ln 5 ''base.deserialize.read_unknow_data ();'' @ ln 5 ''break;'' @ ln 4 ''}'' @ ln 3 ''}''
        @ ln 2 ''}'' @ ln 2 [] @ ln 2 ''public override int encode (SprotoStream stream) {'' @ ln 3 ''base.serialize.open (stream);''
        @ ln 0 [] @ replicate 3 (CHR 0x09) @ concat (map (cs_write h) (StFields st)) @ ln 0 [] @ ln 0 []
        @ ln 3 ''return base.serialize.close ();'' @ ln 2 ''}'' @ ln 1 ''}'')))))"

definition spaces :: "nat \<Rightarrow> string \<Rightarrow> string" where
  "spaces k t = replicate k (CHR '' '') @ t @ [CHR 0x0A]"

definition cs_register :: "schema \<Rightarrow> fileModel \<Rightarrow> string" where
  "cs_register h fm =
     concat (map (\<lambda>st. [CHR 0x0A] @ replicate 16 (CHR '' '') @ ''typeof('' @ type_string h (smDesc st) @ ''), // '' @ message_number h fm st)
       (mStructs fm))"

definition csharp_template :: "schema \<Rightarrow> fileModel \<Rightarrow> (gen_error, string) go" where
  "csharp_template h fm =
     bind_go (range_text (cs_enum h) (mEnums fm)) (\<lambda>enums.
     bind_go (range_text (cs_class h fm) (mStructs fm)) (\<lambda>classes.
     bind_go (result_cases h fm (\<lambda>n v. tabs 4 @ ''case '' @ n @ '': return '' @ in_quotes v @ ''; '')) (\<lambda>results.
       Ok (ln 0 ''// Generated by github.com/davyxu/gosproto/sprotogen'' @ ln 0 ''// DO NOT EDIT!'' @ ln 0 ''using System;''
         @ ln 0 ''using Sproto;'' @ ln 0 ''using System.Collections.Generic;'' @ ln 0 []
         @ ln 0 (''namespace '' @ go_string (PackageName fm)) @ ln 0 ''{'' @ enums @ ln 0 [] @ ln 0 [] @ classes @ ln 0 [] @ ln 0 []
         @ spaces 4 ''public class RegisterEntry'' @ spaces 4 ''{''
         @ replicate 8 (CHR '' '') @ ''static readonly Type[] _types = new Type[]{ '' @ cs_register h fm @ ln 0 [] @ spaces 12 ''};'' @ ln 0 []
         @ spaces 8 ''public static Type[] GetClassTypes()'' @ spaces 8 ''{'' @ spaces 12 ''return _types;'' @ spaces 8 ''}''
         @ (if EnumValueGroup fm
            then ln 0 [] @ spaces 8 ''public static string ResultToString( int result )'' @ spaces 8 ''{'' @ spaces 12 ''switch( result)''
              @ spaces 12 ''{'' @ spaces 12 ([CHR 0x09] @ ''case 0: return '' @ in_quotes ''OK'' @ '';'') @ replicate 3 (CHR 0x09) @ results
              @ ln 0 [] @ spaces 12 ''}'' @ ln 0 [] @ spaces 12 (''return '' @ in_quotes ''Result: '' @ '' + result.ToString();'') @ spaces 8 ''}''
            else [])
         @ ln 0 [] @ spaces 4 ''}'' @ ln 0 ''}''))))"

text \<open>
  \<^verbatim>\<open>sort.Sort\<close> by name. Names differ within a file; for equal names of two files the order is open,
  and a stable sort is one of its outcomes. Go compares strings by their bytes.
\<close>

definition name_key :: "schema \<Rightarrow> structModel \<Rightarrow> nat list" where
  "name_key h st = map of_char (type_string h (smDesc st))"

fun lex_less :: "nat list \<Rightarrow> nat list \<Rightarrow> bool" where
  "lex_less xs [] = False"
| "lex_less [] (y # ys) = True"
| "lex_less (x # xs) (y # ys) = (x < y \<or> x = y \<and> lex_less xs ys)"

definition Less :: "schema \<Rightarrow> structModel \<Rightarrow> structModel \<Rightarrow> bool" where
  "Less h a b \<longleftrightarrow> lex_less (name_key h a) (name_key h b)"

fun insert_struct :: "schema \<Rightarrow> structModel \<Rightarrow> structModel list \<Rightarrow> structModel list" where
  "insert_struct h st [] = [st]"
| "insert_struct h st (x # xs) = (if Less h x st then x # insert_struct h st xs else st # x # xs)"

definition sort_structs :: "schema \<Rightarrow> fileModel \<Rightarrow> fileModel" where
  "sort_structs h fm = fm\<lparr>mStructs := foldr (insert_struct h) (mStructs fm) []\<rparr>"

definition gen_csharp ::
    "string \<Rightarrow> (string \<Rightarrow> string option) \<Rightarrow> schema \<Rightarrow> fileModel \<Rightarrow> (gen_error, string \<times> (string \<Rightarrow> string option)) go" where
  "gen_csharp filename files h fm =
     generateCode Some False (csharp_template h (sort_structs h (addData h (rs ''cs'') fm))) filename files"

section \<open>Annotations for Lua\<close>

definition emmylua_class :: "schema \<Rightarrow> structModel \<Rightarrow> ('e, string) go" where
  "emmylua_class h st =
     bind_go (field_texts (\<lambda>a. bind_go (csharpTypeName h (fds h ! a)) (\<lambda>t.
         Ok (ln 0 [] @ ''---@field public '' @ field_string h a @ '' '' @ t @ '' ''))) st) (\<lambda>fields.
       Ok (ln 0 [] @ ''---@class '' @ type_string h (smDesc st) @ '' '' @ fields @ ln 0 []
         @ ln 0 (''local '' @ type_string h (smDesc st) @ '' = {}'')))"

definition emmylua_template :: "schema \<Rightarrow> fileModel \<Rightarrow> ('e, string) go" where
  "emmylua_template h fm =
     bind_go (range_text (emmylua_class h) (mStructs fm)) (\<lambda>classes.
       Ok (ln 0 ''-- Generated by github.com/davyxu/gosproto/sprotogen'' @ ln 0 ''-- DO NOT EDIT!'' @ ln 0 [] @ classes @ ln 0 [] @ ln 0 []))"

definition gen_emmylua ::
    "string \<Rightarrow> (string \<Rightarrow> string option) \<Rightarrow> schema \<Rightarrow> fileModel \<Rightarrow> (gen_error, string \<times> (string \<Rightarrow> string option)) go" where
  "gen_emmylua filename files h fm =
     generateCode Some False (emmylua_template h (addData h (rs ''lua'') fm)) filename files"

section \<open>The outputs of one run\<close>

record gen_options =
  go_out :: string
  lua_out :: string
  emmylua_out :: string
  cs_out :: string
  sproto_out :: string
  opt_package :: runes
  opt_reg :: bool
  opt_class :: string
  opt_field :: string
  opt_group :: bool

text \<open>The files that are written and the schema after a generator; an error ends the program.\<close>

type_synonym gen_state = "schema \<times> (string \<Rightarrow> string option)"

definition gen_output ::
    "gen_options \<Rightarrow> (string \<Rightarrow> (string \<Rightarrow> string option) \<Rightarrow> schema \<Rightarrow> fileModel \<Rightarrow> (gen_error, string \<times> (string \<Rightarrow> string option)) go)
      \<Rightarrow> string \<Rightarrow> gen_state \<Rightarrow> (gen_error, gen_state) go" where
  "gen_output opt generator filename st =
     (if filename = [] then Ok st
      else bind_go (genFile (generator filename (snd st))
               (new_fileModel (opt_package opt) (opt_reg opt) (opt_class opt) (opt_field opt) (opt_group opt)) (fst st))
             (\<lambda>(r, h). Ok (h, snd r)))"

definition gen_main ::
    "(string \<Rightarrow> string option) \<Rightarrow> (int \<Rightarrow> string) \<Rightarrow> gen_options \<Rightarrow> gen_state \<Rightarrow> (gen_error, gen_state) go" where
  "gen_main gofmt ftext opt st =
     bind_go (gen_output opt (gen_go gofmt ftext) (go_out opt) st) (\<lambda>st.
     bind_go (gen_output opt gen_lua (lua_out opt) st) (\<lambda>st.
     bind_go (gen_output opt gen_emmylua (emmylua_out opt) st) (\<lambda>st.
     bind_go (gen_output opt gen_csharp (cs_out opt) st) (\<lambda>st.
     gen_output opt gen_sproto (sproto_out opt) st))))"

section \<open>The order of the C# classes\<close>

lemma lex_less_linear: "\<not> lex_less xs ys \<Longrightarrow> \<not> lex_less ys xs \<Longrightarrow> xs = ys"
  by (induction xs ys rule: lex_less.induct) (auto split: if_splits, metis lex_less.simps(2) list.exhaust)

lemma lex_less_trans: "lex_less xs ys \<Longrightarrow> lex_less ys zs \<Longrightarrow> lex_less xs zs"
proof (induction xs zs arbitrary: ys rule: lex_less.induct)
  case (2 z zs)
  then show ?case by simp
next
  case (3 x xs z zs)
  then show ?case by (cases ys) auto
qed simp

lemma lex_less_asym: "lex_less xs ys \<Longrightarrow> \<not> lex_less ys xs"
  by (induction xs ys rule: lex_less.induct) auto

lemma mset_sort_structs: "mset (mStructs (sort_structs h fm)) = mset (mStructs fm)"
proof -
  have "mset (insert_struct h st l) = add_mset st (mset l)" for st l by (induction l) auto
  then have "mset (foldr (insert_struct h) l []) = mset l" for l by (induction l) auto
  then show ?thesis by (simp add: sort_structs_def)
qed

lemma sorted_sort_structs: "sorted_wrt (\<lambda>a b. \<not> Less h b a) (mStructs (sort_structs h fm))"
proof -
  have le: "\<not> Less h c a" if "\<not> Less h b a" "\<not> Less h c b" for a b c
    using that lex_less_trans lex_less_linear unfolding Less_def by metis
  have m: "set (insert_struct h st l) = insert st (set l)" for st l by (induction l) auto
  have "sorted_wrt (\<lambda>a b. \<not> Less h b a) (insert_struct h st l)" if "sorted_wrt (\<lambda>a b. \<not> Less h b a) l" for st l
    using that
  proof (induction l)
    case (Cons x l)
    show ?case
    proof (cases "Less h x st")
      case True
      then have "\<not> Less h st x" using lex_less_asym unfolding Less_def by blast
      with True Cons m show ?thesis by auto
    next
      case False
      with Cons.prems le show ?thesis by auto
    qed
  qed simp
  then have "sorted_wrt (\<lambda>a b. \<not> Less h b a) (foldr (insert_struct h) l [])" for l by (induction l) auto
  then show ?thesis by (simp add: sort_structs_def)
qed

end
