(* ===== verification/Gen_Numbers.thy ===== *)
theory Gen_Numbers
  imports Gen_Text
begin










end
