(* ===== verification/Schema_Parser.thy ===== *)
theory Schema_Parser
  imports Schema_Heap
begin

text \<open>
  The parser of schema files, \<^verbatim>\<open>gosproto/meta\<close>: comments with tags (\<^verbatim>\<open>commentparser.go\<close>, \<^verbatim>\<open>commentgroup.go\<close>),
  the parser that collects comments by line (\<^verbatim>\<open>parser.go\<close>), and the grammar (\<^verbatim>\<open>parse_*.go\<close>).
\<close>

section \<open>Tagged comments\<close>

abbreviation (input) CommentToken_EOF :: int where "CommentToken_EOF \<equiv> 0"
abbreviation (input) CommentToken_LeftBrace :: int where "CommentToken_LeftBrace \<equiv> 1"
abbreviation (input) CommentToken_RightBrace :: int where "CommentToken_RightBrace \<equiv> 2"
abbreviation (input) CommentToken_WhiteSpace :: int where "CommentToken_WhiteSpace \<equiv> 3"
abbreviation (input) CommentToken_LineEnd :: int where "CommentToken_LineEnd \<equiv> 4"
abbreviation (input) CommentToken_UnixStyleComment :: int where "CommentToken_UnixStyleComment \<equiv> 5"
abbreviation (input) CommentToken_Identifier :: int where "CommentToken_Identifier \<equiv> 6"
abbreviation (input) CommentToken_Unknown :: int where "CommentToken_Unknown \<equiv> 7"

text \<open>The parser with the tagged comment that \<^verbatim>\<open>parseComment\<close> fills in.\<close>

record comment_parser = parser +
  tag_name :: runes
  tag_value :: runes

definition comment_lexer :: "unicode_tables \<Rightarrow> ('e, lexer) go" where
  "comment_lexer u =
     bind_go (add_new (NewSignMatcher u CommentToken_LeftBrace ''['') NewLexer) (\<lambda>l1.
     bind_go (add_new (NewSignMatcher u CommentToken_RightBrace '']'') l1) (\<lambda>l2.
       Ok (AddMatcher (UnknownMatcher CommentToken_Unknown)
            (AddMatcher (IdentifierMatcher CommentToken_Identifier)
            (AddIgnoreMatcher (UnixStyleCommentMatcher CommentToken_UnixStyleComment)
            (AddIgnoreMatcher (LineEndMatcher CommentToken_LineEnd)
            (AddMatcher (WhiteSpaceMatcher CommentToken_WhiteSpace) l2)))))))"

definition NewCommentParser :: "unicode_tables \<Rightarrow> runes \<Rightarrow> ('e, comment_parser) go" where
  "NewCommentParser u str =
     bind_go (comment_lexer u) (\<lambda>l.
       Ok (parser.extend (NewParser l str) (comment_parser.fields [] [])))"

partial_function (option) tag_text ::
    "unicode_tables \<Rightarrow> comment_parser \<Rightarrow> ((runes, unit) go \<times> comment_parser) option" where
  "tag_text u p =
     bind_run (NextToken u) (\<lambda>_ p1.
       if TokenID p1 = CommentToken_LineEnd \<or> TokenID p1 = CommentToken_EOF then ret () p1
       else tag_text u p1) (p\<lparr>tag_value := tag_value p @ TokenValue p\<rparr>)"

partial_function (option) comment_loop ::
    "unicode_tables \<Rightarrow> comment_parser \<Rightarrow> ((runes, unit) go \<times> comment_parser) option" where
  "comment_loop u p =
     (if TokenID p = CommentToken_EOF then ret () p
      else if TokenID p = CommentToken_WhiteSpace then bind_run (NextToken u) (\<lambda>_ p1. comment_loop u p1) p
      else if TokenID p = CommentToken_LeftBrace then
        bind_run (NextToken u) (\<lambda>_.
        bind_run (Expect u CommentToken_Identifier) (\<lambda>name.
        bind_run (Expect u CommentToken_RightBrace) (\<lambda>_ p1.
        bind_run (tag_text u) (\<lambda>_.
        bind_run (NextToken u) (\<lambda>_ p2. comment_loop u p2)) (p1\<lparr>tag_name := Value name\<rparr>)))) p
      else bind_run (NextToken u) (\<lambda>_ p1. comment_loop u p1) p)"

definition parseComment :: "unicode_tables \<Rightarrow> runes \<Rightarrow> (runes, runes \<times> runes) go option" where
  "parseComment u str =
     (case NewCommentParser u str of
        Ok p \<Rightarrow>
          map_option (\<lambda>(r, p'). bind_go r (\<lambda>_. Ok (tag_name p', tag_value p')))
            (bind_run (NextToken u) (\<lambda>_. comment_loop u) (p\<lparr>lexer := Start str (lexer p)\<rparr>))
      | Err e \<Rightarrow> Some (Err e)
      | Panic q \<Rightarrow> Some (Panic q))"

definition addLineComment :: "unicode_tables \<Rightarrow> runes \<Rightarrow> CommentGroup \<Rightarrow> (runes, CommentGroup) go option" where
  "addLineComment u txt cg =
     (if txt = [] then Some (Ok cg)
      else map_option (\<lambda>r. bind_go r (\<lambda>v.
             Ok (if fst v \<noteq> [] then cg\<lparr>taggedComments := taggedComments cg @ [v]\<rparr> else cg)))
           (parseComment u txt))"

section \<open>The parser of schemas\<close>

abbreviation (input) Token_EOF :: int where "Token_EOF \<equiv> 0"
abbreviation (input) Token_Unknown :: int where "Token_Unknown \<equiv> 1"
abbreviation (input) Token_LineEnd :: int where "Token_LineEnd \<equiv> 2"
abbreviation (input) Token_Numeral :: int where "Token_Numeral \<equiv> 3"
abbreviation (input) Token_String :: int where "Token_String \<equiv> 4"
abbreviation (input) Token_WhiteSpace :: int where "Token_WhiteSpace \<equiv> 5"
abbreviation (input) Token_Identifier :: int where "Token_Identifier \<equiv> 6"
abbreviation (input) Token_UnixComment :: int where "Token_UnixComment \<equiv> 7"
abbreviation (input) Token_CStyleComment :: int where "Token_CStyleComment \<equiv> 8"
abbreviation (input) Token_Colon :: int where "Token_Colon \<equiv> 9"
abbreviation (input) Token_ParenL :: int where "Token_ParenL \<equiv> 10"
abbreviation (input) Token_ParenR :: int where "Token_ParenR \<equiv> 11"
abbreviation (input) Token_CurlyBraceL :: int where "Token_CurlyBraceL \<equiv> 12"
abbreviation (input) Token_CurlyBraceR :: int where "Token_CurlyBraceR \<equiv> 13"
abbreviation (input) Token_BracketL :: int where "Token_BracketL \<equiv> 14"
abbreviation (input) Token_BracketR :: int where "Token_BracketR \<equiv> 15"
abbreviation (input) Token_Star :: int where "Token_Star \<equiv> 16"
abbreviation (input) Token_Dot :: int where "Token_Dot \<equiv> 17"
abbreviation (input) Token_Enum :: int where "Token_Enum \<equiv> 18"
abbreviation (input) Token_Message :: int where "Token_Message \<equiv> 19"
abbreviation (input) Token_FileTag :: int where "Token_FileTag \<equiv> 20"
abbreviation (input) Token_Assign :: int where "Token_Assign \<equiv> 21"

text \<open>The parser embeds the one of the lexer library; the heap of the schema goes with it.\<close>

record sproto = parser +
  commentsByLine :: "int \<Rightarrow> runes option"
  heap :: schema

type_synonym 'a parse = "sproto \<Rightarrow> ((runes, 'a) go \<times> sproto) option"

fun add_signs :: "unicode_tables \<Rightarrow> (int \<times> string) list \<Rightarrow> lexer \<Rightarrow> ('e, lexer) go" where
  "add_signs u [] l = Ok l"
| "add_signs u ((i, w) # iws) l = bind_go (add_new (NewSignMatcher u i w) l) (add_signs u iws)"

fun add_keywords :: "unicode_tables \<Rightarrow> (int \<times> string) list \<Rightarrow> lexer \<Rightarrow> ('e, lexer) go" where
  "add_keywords u [] l = Ok l"
| "add_keywords u ((i, w) # iws) l = bind_go (add_new (NewKeywordMatcher u i w) l) (add_keywords u iws)"

definition sproto_lexer :: "unicode_tables \<Rightarrow> ('e, lexer) go" where
  "sproto_lexer u =
     (let l1 = AddMatcher (StringMatcher Token_String) (AddMatcher (NumeralMatcher Token_Numeral True) NewLexer);
          l2 = AddIgnoreMatcher (LineEndMatcher Token_LineEnd)
                 (AddIgnoreMatcher (WhiteSpaceMatcher Token_WhiteSpace) l1);
          l3 = AddMatcher (CStyleCommentMatcher Token_CStyleComment)
                 (AddMatcher (UnixStyleCommentMatcher Token_UnixComment) l2)
      in bind_go (add_signs u
           [(Token_CurlyBraceL, ''{''), (Token_CurlyBraceR, ''}''), (Token_ParenL, ''(''),
            (Token_ParenR, '')''), (Token_BracketL, ''[''), (Token_BracketR, '']''),
            (Token_Star, ''*''), (Token_Dot, ''.''), (Token_Assign, ''=''), (Token_Colon, '':'')] l3) (\<lambda>l4.
         bind_go (add_keywords u
           [(Token_Enum, ''enum''), (Token_Message, ''message''), (Token_FileTag, ''filetag'')] l4) (\<lambda>l5.
         Ok (AddMatcher (UnknownMatcher Token_Unknown)
              (AddMatcher (IdentifierMatcher Token_Identifier) l5)))))"

definition newSProtoParser :: "unicode_tables \<Rightarrow> runes \<Rightarrow> schema \<Rightarrow> ('e, sproto) go" where
  "newSProtoParser u srcName h =
     bind_go (sproto_lexer u) (\<lambda>l.
       Ok (parser.extend (NewParser l srcName) (sproto.fields (\<lambda>_. None) h)))"

partial_function (option) sproto_NextToken ::
    "unicode_tables \<Rightarrow> sproto \<Rightarrow> ((runes, unit) go \<times> sproto) option" where
  "sproto_NextToken u p =
     bind_run (NextToken u) (\<lambda>_ p1.
       if TokenID p1 = Token_UnixComment \<or> TokenID p1 = Token_CStyleComment
       then sproto_NextToken u
              (p1\<lparr>commentsByLine := (commentsByLine p1)(Line (tpos (curr p1)) \<mapsto> TokenValue p1)\<rparr>)
       else ret () p1) p"

definition sproto_Expect :: "unicode_tables \<Rightarrow> int \<Rightarrow> token parse" where
  "sproto_Expect u i p =
     (if TokenID p \<noteq> i then raise (rs ''Expect '' @ MatcherString (lexer p) i) p
      else bind_run (sproto_NextToken u) (\<lambda>_. ret (curr p)) p)"

function gap_above :: "(int \<Rightarrow> runes option) \<Rightarrow> int \<Rightarrow> int" where
  "gap_above m i = (if i < 1 then 0 else if m i = None then i else gap_above m (i - 1))"
  by pat_completeness auto
termination
  by (relation "measure (\<lambda>(m, i). nat i)") auto

declare gap_above.simps [simp del]

fun leading_comments ::
    "unicode_tables \<Rightarrow> (int \<Rightarrow> runes option) \<Rightarrow> int list \<Rightarrow> CommentGroup \<Rightarrow> runes
      \<Rightarrow> (runes, CommentGroup) go option" where
  "leading_comments u m [] cg buff = Some (Ok (cg\<lparr>Leading := buff\<rparr>))"
| "leading_comments u m (i # is) cg buff =
     (let comment = (case m i of None \<Rightarrow> [] | Some c \<Rightarrow> c);
          buff1 = (if buff \<noteq> [] then buff @ [0x0A] else buff)
      in Option.bind (addLineComment u comment cg) (\<lambda>r. case r of
           Ok cg1 \<Rightarrow> leading_comments u m is cg1 (buff1 @ comment)
         | Err e \<Rightarrow> Some (Err e)
         | Panic q \<Rightarrow> Some (Panic q)))"

definition CommentGroupByLine :: "unicode_tables \<Rightarrow> int \<Rightarrow> CommentGroup parse" where
  "CommentGroupByLine u line p =
     (let m = commentsByLine p;
          trailing = (case m line of
              None \<Rightarrow> Some (Ok newCommentGroup)
            | Some c \<Rightarrow> map_option (\<lambda>r. bind_go r (\<lambda>cg. Ok (cg\<lparr>Trailing := c\<rparr>)))
                          (addLineComment u c newCommentGroup))
      in map_option (\<lambda>r. (r, p))
           (Option.bind trailing (\<lambda>r. case r of
              Ok cg \<Rightarrow> leading_comments u m [gap_above m (line - 1) .. line - 1] cg []
            | Err e \<Rightarrow> Some (Err e)
            | Panic q \<Rightarrow> Some (Panic q))))"

section \<open>The grammar\<close>

text \<open>Access to the heap: read it, change it, or run an operation that may panic.\<close>

definition get_heap :: "schema parse" where
  "get_heap p = Some (Ok (heap p), p)"

definition modify :: "(schema \<Rightarrow> schema) \<Rightarrow> unit parse" where
  "modify f p = Some (Ok (), p\<lparr>heap := f (heap p)\<rparr>)"

definition alloc :: "(schema \<Rightarrow> nat \<times> schema) \<Rightarrow> nat parse" where
  "alloc f p = Some (Ok (fst (f (heap p))), p\<lparr>heap := snd (f (heap p))\<rparr>)"

definition raw_token :: "token parse" where
  "raw_token p = Some (Ok (curr p), p)"

definition token_pos :: "TokenPos parse" where
  "token_pos p = Some (Ok (pos_of p), p)"

definition upd_fd :: "nat \<Rightarrow> (FieldDescriptor \<Rightarrow> FieldDescriptor) \<Rightarrow> unit parse" where
  "upd_fd a f = modify (\<lambda>h. set_fd a (f (fds h ! a)) h)"

definition upd_d :: "nat \<Rightarrow> (Descriptor \<Rightarrow> Descriptor) \<Rightarrow> unit parse" where
  "upd_d a f = modify (\<lambda>h. set_d a (f (ds h ! a)) h)"

definition checkField :: "nat \<Rightarrow> nat \<Rightarrow> unit parse" where
  "checkField d a p =
     (let h = heap p; name = fName (fds h ! a); tag = TagNumber h a in
      if map_of (FieldByName (ds h ! d)) name \<noteq> None
      then raise (rs ''Duplicate field name: '' @ name @ rs '' in '' @ dName (ds h ! d)) p
      else if map_of (FieldByTag (ds h ! d)) tag \<noteq> None
      then raise (rs ''Duplicate field tag: '' @ rs (itoa tag) @ rs '' in '' @ dName (ds h ! d)) p
      else ret () p)"

text \<open>The tag of a field without a number.\<close>

definition auto_tag :: "nat \<Rightarrow> nat \<Rightarrow> unit parse" where
  "auto_tag d a = bind_run get_heap (\<lambda>h.
     upd_fd a (\<lambda>fd. fd\<lparr>AutoTag := (if Fields (ds h ! d) = [] then 0 else MaxTag h d + 1)\<rparr>))"

definition parse_typeName :: "unicode_tables \<Rightarrow> nat \<Rightarrow> runes parse" where
  "parse_typeName u a p =
     (if TokenID p = Token_Star then
        bind_run (sproto_NextToken u) (\<lambda>_.
        bind_run (upd_fd a (\<lambda>fd. fd\<lparr>Repeatd := True\<rparr>)) (\<lambda>_.
        bind_run (sproto_Expect u Token_Identifier) (\<lambda>t. ret (Value t)))) p
      else if TokenID p = Token_BracketL then
        bind_run (sproto_NextToken u) (\<lambda>_.
        bind_run (sproto_Expect u Token_BracketR) (\<lambda>_.
        bind_run (upd_fd a (\<lambda>fd. fd\<lparr>Repeatd := True\<rparr>)) (\<lambda>_.
        bind_run (sproto_Expect u Token_Identifier) (\<lambda>t. ret (Value t))))) p
      else if TokenID p = Token_Identifier then
        bind_run (sproto_NextToken u) (\<lambda>_. ret (TokenValue p)) p
      else ret [] p)"

definition parse_mainIndex :: "unicode_tables \<Rightarrow> lazyField \<Rightarrow> lazyField parse" where
  "parse_mainIndex u pf p =
     (if TokenID p = Token_ParenL then
        bind_run (sproto_NextToken u) (\<lambda>_.
        bind_run (sproto_Expect u Token_Identifier) (\<lambda>t.
        bind_run (sproto_Expect u Token_ParenR) (\<lambda>_. ret (pf\<lparr>mainIndexName := Value t\<rparr>)))) p
      else ret pf p)"

text \<open>The first pass: its error is dropped, and a reference that needs another pass is kept.\<close>

definition first_pass :: "nat \<Rightarrow> lazyField \<Rightarrow> unit parse" where
  "first_pass d pf p =
     (case resolve 1 pf (heap p) of
        Ok (need2Pass, _, pf', h) \<Rightarrow>
          if need2Pass then
            if in_FileSet (fls h ! dFile (ds h ! d))
            then Some (Ok (), p\<lparr>heap := h\<lparr>unknownFields := unknownFields h @ [pf']\<rparr>\<rparr>)
            else Some (Panic NilDereference, p\<lparr>heap := h\<rparr>)
          else Some (Ok (), p\<lparr>heap := h\<rparr>)
      | Err e \<Rightarrow> Some (Err e, p)
      | Panic q \<Rightarrow> Some (Panic q, p))"

definition field_name :: "unicode_tables \<Rightarrow> nat \<Rightarrow> nat \<Rightarrow> unit parse" where
  "field_name u d a =
     bind_run (sproto_Expect u Token_Identifier) (\<lambda>t.
     bind_run (upd_fd a (\<lambda>fd. fd\<lparr>fName := Value t\<rparr>)) (\<lambda>_.
     bind_run get_heap (\<lambda>h.
       if map_of (FieldByName (ds h ! d)) (Value t) \<noteq> None
       then raise (rs ''Duplicate field name: '' @ dName (ds h ! d))
       else ret ())))"

definition field_comment :: "unicode_tables \<Rightarrow> token \<Rightarrow> nat \<Rightarrow> unit parse" where
  "field_comment u nameToken a =
     bind_run (CommentGroupByLine u (Line (tpos nameToken))) (\<lambda>cg.
       upd_fd a (\<lambda>fd. fd\<lparr>fComment := cg\<rparr>))"

definition parseStructField :: "unicode_tables \<Rightarrow> nat \<Rightarrow> unit parse" where
  "parseStructField u d =
     bind_run (alloc (newFieldDescriptor d)) (\<lambda>a.
     bind_run raw_token (\<lambda>nameToken.
     bind_run (field_name u d a) (\<lambda>_.
     bind_run (\<lambda>p. if TokenID p = Token_Numeral
                   then bind_run (sproto_Expect u Token_Numeral) (\<lambda>t. upd_fd a (\<lambda>fd. fd\<lparr>Tag := ToInt t\<rparr>)) p
                   else auto_tag d a p) (\<lambda>_.
     bind_run (\<lambda>p. if TokenID p = Token_Colon then sproto_NextToken u p else ret () p) (\<lambda>_.
     bind_run token_pos (\<lambda>tp.
     bind_run (parse_typeName u a) (\<lambda>name.
     bind_run (parse_mainIndex u (newLazyField name a d tp)) (\<lambda>pf.
     bind_run (field_comment u nameToken a) (\<lambda>_.
     bind_run (first_pass d pf) (\<lambda>_.
     bind_run (checkField d a) (\<lambda>_.
       modify (addField d a))))))))))))"

definition parseEnumField :: "unicode_tables \<Rightarrow> nat \<Rightarrow> unit parse" where
  "parseEnumField u d =
     bind_run (alloc (newFieldDescriptor d)) (\<lambda>a.
     bind_run raw_token (\<lambda>nameToken.
     bind_run (field_name u d a) (\<lambda>_.
     bind_run (\<lambda>p. if TokenID p = Token_Assign
                   then bind_run (sproto_NextToken u) (\<lambda>_.
                        bind_run (sproto_Expect u Token_Numeral) (\<lambda>t. upd_fd a (\<lambda>fd. fd\<lparr>Tag := ToInt t\<rparr>))) p
                   else auto_tag d a p) (\<lambda>_.
     bind_run (upd_fd a (\<lambda>fd. fd\<lparr>fType := FieldType_Int32\<rparr>)) (\<lambda>_.
     bind_run (field_comment u nameToken a) (\<lambda>_.
     bind_run (checkField d a) (\<lambda>_.
       modify (addField d a))))))))"

partial_function (option) fields_until_brace ::
    "unicode_tables \<Rightarrow> (sproto \<Rightarrow> ((runes, unit) go \<times> sproto) option) \<Rightarrow> sproto
      \<Rightarrow> ((runes, unit) go \<times> sproto) option" where
  "fields_until_brace u field p =
     (if TokenID p = Token_CurlyBraceR then ret () p
      else bind_run field (\<lambda>_ p1. fields_until_brace u field p1) p)"

definition add_checked :: "nat \<Rightarrow> nat \<Rightarrow> runes \<Rightarrow> unit parse" where
  "add_checked f d srcName = bind_run get_heap (\<lambda>h.
     if NameExists (fls h ! f) (dName (ds h ! d)) then raise (rs ''Duplicate name: '' @ dName (ds h ! d))
     else modify (addObject f d srcName))"

definition parseStruct :: "unicode_tables \<Rightarrow> nat \<Rightarrow> runes \<Rightarrow> unit parse" where
  "parseStruct u f srcName =
     bind_run raw_token (\<lambda>dotToken.
     bind_run (sproto_NextToken u) (\<lambda>_.
     bind_run (alloc (newDescriptor f)) (\<lambda>d.
     bind_run (upd_d d (\<lambda>v. v\<lparr>dType := DescriptorType_Struct\<rparr>)) (\<lambda>_.
     bind_run (sproto_Expect u Token_Identifier) (\<lambda>t.
     bind_run (upd_d d (\<lambda>v. v\<lparr>dName := Value t\<rparr>)) (\<lambda>_.
     bind_run (CommentGroupByLine u (Line (tpos dotToken))) (\<lambda>cg.
     bind_run (upd_d d (\<lambda>v. v\<lparr>dComment := cg\<rparr>)) (\<lambda>_.
     bind_run (sproto_Expect u Token_CurlyBraceL) (\<lambda>_.
     bind_run (fields_until_brace u (parseStructField u d)) (\<lambda>_.
     bind_run (sproto_Expect u Token_CurlyBraceR) (\<lambda>_.
       add_checked f d srcName)))))))))))"

definition parseEnum :: "unicode_tables \<Rightarrow> nat \<Rightarrow> runes \<Rightarrow> unit parse" where
  "parseEnum u f srcName =
     bind_run (sproto_Expect u Token_Enum) (\<lambda>enumToken.
     bind_run (alloc (newDescriptor f)) (\<lambda>d.
     bind_run (upd_d d (\<lambda>v. v\<lparr>dType := DescriptorType_Enum\<rparr>)) (\<lambda>_.
     bind_run (sproto_Expect u Token_Identifier) (\<lambda>t.
     bind_run (upd_d d (\<lambda>v. v\<lparr>dName := Value t\<rparr>)) (\<lambda>_.
     bind_run (CommentGroupByLine u (Line (tpos enumToken))) (\<lambda>cg.
     bind_run (upd_d d (\<lambda>v. v\<lparr>dComment := cg\<rparr>)) (\<lambda>_.
     bind_run (sproto_Expect u Token_CurlyBraceL) (\<lambda>_.
     bind_run (fields_until_brace u (parseEnumField u d)) (\<lambda>_.
     bind_run (sproto_Expect u Token_CurlyBraceR) (\<lambda>_.
       add_checked f d srcName))))))))))"

text \<open>\<^verbatim>\<open>strings.Split(s, " ")\<close> and \<^verbatim>\<open>strings.TrimSpace\<close>.\<close>

fun split_space :: "runes \<Rightarrow> runes list" where
  "split_space [] = [[]]"
| "split_space (c # w) =
     (if c = 0x20 then [] # split_space w
      else case split_space w of [] \<Rightarrow> [[c]] | v # vs \<Rightarrow> (c # v) # vs)"

definition IsSpace :: "rune \<Rightarrow> bool" where
  "IsSpace r \<longleftrightarrow> (0x09 \<le> r \<and> r \<le> 0x0D) \<or> (0x2000 \<le> r \<and> r \<le> 0x200A)
     \<or> r \<in> {0x20, 0x85, 0xA0, 0x1680, 0x2028, 0x2029, 0x202F, 0x205F, 0x3000}"

definition TrimSpace :: "runes \<Rightarrow> runes" where
  "TrimSpace w = rev (dropWhile IsSpace (rev (dropWhile IsSpace w)))"

definition parseFileTag :: "unicode_tables \<Rightarrow> nat \<Rightarrow> unit parse" where
  "parseFileTag u f =
     bind_run (sproto_Expect u Token_FileTag) (\<lambda>_.
     bind_run (sproto_Expect u Token_String) (\<lambda>t.
       modify (\<lambda>h. set_fl f ((fls h ! f)\<lparr>fileTag := fileTag (fls h ! f) @ map TrimSpace (split_space (Value t))\<rparr>) h)))"

partial_function (option) parse_objects ::
    "unicode_tables \<Rightarrow> nat \<Rightarrow> runes \<Rightarrow> sproto \<Rightarrow> ((runes, unit) go \<times> sproto) option" where
  "parse_objects u f srcName p =
     (if TokenID p = Token_EOF then ret () p
      else if TokenID p = Token_Dot \<or> TokenID p = Token_Message
      then bind_run (parseStruct u f srcName) (\<lambda>_ p1. parse_objects u f srcName p1) p
      else if TokenID p = Token_Enum
      then bind_run (parseEnum u f srcName) (\<lambda>_ p1. parse_objects u f srcName p1) p
      else if TokenID p = Token_FileTag
      then bind_run (parseFileTag u f) (\<lambda>_ p1. parse_objects u f srcName p1) p
      else raise (rs ''Unknown token: '' @ TokenValue p) p)"

definition rawParse ::
    "unicode_tables \<Rightarrow> nat \<Rightarrow> runes \<Rightarrow> runes \<Rightarrow> schema \<Rightarrow> ((runes, runes option) go \<times> schema) option" where
  "rawParse u f data srcName h =
     (case newSProtoParser u srcName h of
        Ok p \<Rightarrow>
          map_option
            (\<lambda>(r, p'). (case r of
                  Ok _ \<Rightarrow> Ok None
                | Err e \<Rightarrow> Ok (Some (TokenPos_String (prePos p') @ rs '' '' @ e))
                | Panic q \<Rightarrow> Panic q, heap p'))
            (bind_run (sproto_NextToken u) (\<lambda>_. parse_objects u f srcName) (p\<lparr>lexer := Start data (lexer p)\<rparr>))
      | Err e \<Rightarrow> Some (Err e, h)
      | Panic q \<Rightarrow> Some (Panic q, h))"

section \<open>Files\<close>

text \<open>\<^verbatim>\<open>ioutil.ReadFile\<close> is a parameter: an error or the text of a file.\<close>

type_synonym file_system = "runes \<Rightarrow> runes + runes"

definition rawPaseFile ::
    "unicode_tables \<Rightarrow> file_system \<Rightarrow> nat \<Rightarrow> runes \<Rightarrow> schema \<Rightarrow> ((runes, runes option) go \<times> schema) option" where
  "rawPaseFile u read_file f fileName h =
     (case read_file fileName of
        Inl e \<Rightarrow> Some (Ok (Some e), h)
      | Inr data \<Rightarrow> rawParse u f data fileName h)"

definition name_file :: "nat \<Rightarrow> runes \<Rightarrow> schema \<Rightarrow> schema" where
  "name_file f fileName h = set_fl f ((fls h ! f)\<lparr>FileName := fileName\<rparr>) h"

definition ParseFile ::
    "unicode_tables \<Rightarrow> file_system \<Rightarrow> runes \<Rightarrow> (runes, schema option \<times> runes option) go option" where
  "ParseFile u read_file fileName =
     (let (f, h0) = NewFileDescriptor NewFileDescriptorSet in
      map_option
        (\<lambda>(r, h). bind_go r (\<lambda>err.
            if err \<noteq> None then Ok (None, err)
            else bind_go (resolveAll (addFile f h)) (\<lambda>(err', h'). Ok (Some h', err'))))
        (rawPaseFile u read_file f fileName (name_file f fileName h0)))"

fun ParseFileList ::
    "unicode_tables \<Rightarrow> file_system \<Rightarrow> runes list \<Rightarrow> schema \<Rightarrow> (runes, (runes \<times> runes option) \<times> schema) go option" where
  "ParseFileList u read_file [] h =
     Some (bind_go (resolveAll h) (\<lambda>(err, h'). Ok (([], err), h')))"
| "ParseFileList u read_file (filename # more_files) h =
     (let (f, h0) = NewFileDescriptor h in
      Option.bind (rawPaseFile u read_file f filename (addFile f (name_file f filename h0)))
        (\<lambda>(r, h1). case r of
            Ok None \<Rightarrow> ParseFileList u read_file more_files h1
          | Ok (Some e) \<Rightarrow> Some (Ok ((filename, Some e), h1))
          | Err e \<Rightarrow> Some (Err e)
          | Panic q \<Rightarrow> Some (Panic q)))"

end
