(* ===== verification/Schema_Returns.thy ===== *)
theory Schema_Returns
  imports Schema_Parser
begin

text \<open>
  The schema parser always returns, and keeps the invariant of the heap: the lexers are instances of
  \<open>token_source\<close>, and the rules below follow the sequencing of the grammar.
\<close>

section \<open>The lexers\<close>

lemma NewSignMatcher_Ok: "list_all (isSign u) (rs w) \<Longrightarrow> NewSignMatcher u i w = Ok (SignMatcher i (rs w))"
  by (simp add: NewSignMatcher_def)

lemma NewKeywordMatcher_Ok:
  "w \<noteq> [] \<Longrightarrow> list_all (IsLetter u) (rs w) \<Longrightarrow> NewKeywordMatcher u i w = Ok (KeywordMatcher i (rs w))"
  by (auto simp: NewKeywordMatcher_def isKeyword_def Let_def list_all_length rs_def)

definition comment_ms :: "matcherMeta list" where
  "comment_ms =
     [(SignMatcher CommentToken_LeftBrace (rs ''[''), False), (SignMatcher CommentToken_RightBrace (rs '']''), False),
      (WhiteSpaceMatcher CommentToken_WhiteSpace, False), (LineEndMatcher CommentToken_LineEnd, True),
      (UnixStyleCommentMatcher CommentToken_UnixStyleComment, True),
      (IdentifierMatcher CommentToken_Identifier, False), (UnknownMatcher CommentToken_Unknown, False)]"

definition sproto_ms :: "matcherMeta list" where
  "sproto_ms =
     [(NumeralMatcher Token_Numeral True, False), (StringMatcher Token_String, False),
      (WhiteSpaceMatcher Token_WhiteSpace, True), (LineEndMatcher Token_LineEnd, True),
      (UnixStyleCommentMatcher Token_UnixComment, False), (CStyleCommentMatcher Token_CStyleComment, False),
      (SignMatcher Token_CurlyBraceL (rs ''{''), False), (SignMatcher Token_CurlyBraceR (rs ''}''), False),
      (SignMatcher Token_ParenL (rs ''(''), False), (SignMatcher Token_ParenR (rs '')''), False),
      (SignMatcher Token_BracketL (rs ''[''), False), (SignMatcher Token_BracketR (rs '']''), False),
      (SignMatcher Token_Star (rs ''*''), False), (SignMatcher Token_Dot (rs ''.''), False),
      (SignMatcher Token_Assign (rs ''=''), False), (SignMatcher Token_Colon (rs '':''), False),
      (KeywordMatcher Token_Enum (rs ''enum''), False), (KeywordMatcher Token_Message (rs ''message''), False),
      (KeywordMatcher Token_FileTag (rs ''filetag''), False), (IdentifierMatcher Token_Identifier, False),
      (UnknownMatcher Token_Unknown, False)]"

lemmas latin_eval = rs_def ch_def isSign_def IsLetter_def IsDigit_def

lemma comment_lexer_Ok:
  "comment_lexer u = Ok \<lparr>matchers = comment_ms, running = False, tz = NewTokenizer [] DefaultTokenPos\<rparr>"
proof -
  have "list_all (isSign u) (rs ''['')" "list_all (isSign u) (rs '']'')" by (simp_all add: latin_eval)
  then show ?thesis
    by (simp add: comment_lexer_def add_new_def NewSignMatcher_Ok AddMatcher_def AddIgnoreMatcher_def
        NewLexer_def comment_ms_def)
qed

lemma sproto_lexer_Ok:
  "sproto_lexer u = Ok \<lparr>matchers = sproto_ms, running = False, tz = NewTokenizer [] DefaultTokenPos\<rparr>"
proof -
  have "list_all (isSign u) (rs ''{'')" "list_all (isSign u) (rs ''}'')" "list_all (isSign u) (rs ''('')"
    "list_all (isSign u) (rs '')'')" "list_all (isSign u) (rs ''['')" "list_all (isSign u) (rs '']'')"
    "list_all (isSign u) (rs ''*'')" "list_all (isSign u) (rs ''.'')" "list_all (isSign u) (rs ''='')"
    "list_all (isSign u) (rs '':'')"
    by (simp_all add: latin_eval)
  moreover have "list_all (IsLetter u) (rs ''enum'')" "list_all (IsLetter u) (rs ''message'')"
    "list_all (IsLetter u) (rs ''filetag'')" by (simp_all add: latin_eval)
  ultimately show ?thesis
    by (simp add: sproto_lexer_def Let_def add_new_def NewSignMatcher_Ok NewKeywordMatcher_Ok
        AddMatcher_def AddIgnoreMatcher_def NewLexer_def sproto_ms_def)
qed

interpretation cm: token_source u comment_ms for u
  by unfold_locales (auto simp: comment_ms_def rs_def)

interpretation sp: token_source u sproto_ms for u
  by unfold_locales (auto simp: sproto_ms_def rs_def)

section \<open>Comments\<close>

lemma comment_upd [simp]:
  "cm.reading (p\<lparr>tag_name := x\<rparr>) = cm.reading p" "cm.left (p\<lparr>tag_name := x\<rparr>) = cm.left p"
  "cm.reading (p\<lparr>tag_value := y\<rparr>) = cm.reading p" "cm.left (p\<lparr>tag_value := y\<rparr>) = cm.left p"
  "TokenID (p\<lparr>tag_name := x\<rparr>) = TokenID p" "TokenID (p\<lparr>tag_value := y\<rparr>) = TokenID p"
  by (simp_all add: cm.reading_def cm.left_def TokenID_def)

abbreviation cm_returns :: "nat \<Rightarrow> ((runes, 'a) go \<times> comment_parser) option \<Rightarrow> bool" where
  "cm_returns \<equiv> returns cm.reading cm.left {}"

lemma tag_text_returns: "cm.reading p \<Longrightarrow> cm_returns (cm.left p) (tag_text u p)"
proof (induction "cm.left p" arbitrary: p rule: less_induct)
  case less
  have go: "cm_returns (cm.left p) (tag_text u p1)"
    if "cm.reading p1" "cm.left p1 < cm.left p" for p1
    using less.hyps [OF that(2, 1)] that(2) by (auto intro: returns_le)
  show ?case
    using less.prems by (subst tag_text.simps) (auto intro!: cm.returns_next returns_ret go)
qed

lemma comment_loop_returns: "cm.reading p \<Longrightarrow> cm_returns (cm.left p) (comment_loop u p)"
proof (induction "cm.left p" arbitrary: p rule: less_induct)
  case less
  have go: "cm_returns (cm.left p) (comment_loop u p1)"
    if "cm.reading p1" "cm.left p1 < cm.left p" for p1
    using less.hyps [OF that(2, 1)] that(2) by (auto intro: returns_le)
  show ?case
    using less.prems
    by (subst comment_loop.simps)
      (auto intro!: cm.returns_next cm.returns_expect returns_bind [OF tag_text_returns] returns_ret go)
qed

lemma parseComment_returns:
  assumes "0 \<notin> set str"
  shows "\<exists>r. parseComment u str = Some r \<and> (\<forall>q. r \<noteq> Panic q)"
proof -
  define p :: comment_parser where "p = (parser.extend (NewParser
     \<lparr>matchers = comment_ms, running = False, tz = NewTokenizer [] DefaultTokenPos\<rparr> str)
     (comment_parser.fields [] []))\<lparr>lexer := Start str (lexer (NewParser
     \<lparr>matchers = comment_ms, running = False, tz = NewTokenizer [] DefaultTokenPos\<rparr> str))\<rparr>"
  have p: "cm.reading p"
    using assms by (simp add: p_def cm.reading_def parser.defs comment_parser.defs NewParser_def Start_def
        NewTokenizer_def token_ok_def zero_token_def)
  have "cm_returns (cm.left p) (bind_run (NextToken u) (\<lambda>_. comment_loop u) p)"
    using p by (auto intro!: cm.returns_next returns_le [OF comment_loop_returns])
  then obtain r p' where "bind_run (NextToken u) (\<lambda>_. comment_loop u) p = Some (r, p')" "\<forall>q. r \<noteq> Panic q"
    by (auto simp: returns_def)
  then show ?thesis
    by (cases r) (auto simp: parseComment_def NewCommentParser_def comment_lexer_Ok p_def parser.defs
        comment_parser.defs)
qed

lemma addLineComment_returns:
  assumes "0 \<notin> set txt"
  shows "\<exists>r. addLineComment u txt cg = Some r \<and> (\<forall>q. r \<noteq> Panic q)"
proof -
  from parseComment_returns [OF assms] obtain r where "parseComment u txt = Some r" "\<forall>q. r \<noteq> Panic q" by blast
  then show ?thesis by (cases r) (auto simp: addLineComment_def)
qed

definition comments_ok :: "(int \<Rightarrow> runes option) \<Rightarrow> bool" where
  "comments_ok m \<longleftrightarrow> (\<forall>c \<in> ran m. 0 \<notin> set c)"

lemma leading_comments_returns:
  "comments_ok m \<Longrightarrow> \<exists>r. leading_comments u m l cg buff = Some r \<and> (\<forall>q. r \<noteq> Panic q)"
proof (induction l arbitrary: cg buff)
  case (Cons i l)
  define c where "c = (case m i of None \<Rightarrow> [] | Some c \<Rightarrow> c)"
  have "0 \<notin> set c" using Cons.prems by (cases "m i") (auto simp: comments_ok_def c_def ran_def)
  from addLineComment_returns [OF this] obtain r where r: "addLineComment u c cg = Some r" "\<forall>q. r \<noteq> Panic q" by blast
  show ?case
  proof (cases r)
    case (Ok cg')
    with r Cons show ?thesis by (simp add: c_def [symmetric] Let_def)
  qed (use r in \<open>simp_all add: c_def [symmetric] Let_def\<close>)
qed simp

lemma CommentGroupByLine_returns:
  assumes "comments_ok (commentsByLine p)"
  shows "\<exists>r. CommentGroupByLine u line p = Some (r, p) \<and> (\<forall>q. r \<noteq> Panic q)"
proof -
  obtain r where r: "(case commentsByLine p line of
              None \<Rightarrow> Some (Ok newCommentGroup)
            | Some c \<Rightarrow> map_option (\<lambda>r. bind_go r (\<lambda>cg. Ok (cg\<lparr>Trailing := c\<rparr>)))
                          (addLineComment u c newCommentGroup)) = Some r" "\<forall>q. r \<noteq> Panic q"
  proof (cases "commentsByLine p line")
    case (Some c)
    then have "0 \<notin> set c" using assms by (auto simp: comments_ok_def ran_def)
    from addLineComment_returns [OF this, of u newCommentGroup] Some that show ?thesis
      by (auto split: option.splits) (metis bind_go.simps go.exhaust go.distinct(3,5))
  qed (use that in simp)
  then show ?thesis
  proof (cases r)
    case (Ok cg)
    from leading_comments_returns [OF assms, of u "[gap_above (commentsByLine p) (line - 1) .. line - 1]" cg "[]"]
    show ?thesis using r Ok by (auto simp: CommentGroupByLine_def Let_def)
  qed (use r in \<open>auto simp: CommentGroupByLine_def Let_def\<close>)
qed


section \<open>The state of the schema parser\<close>

definition state_ok :: "(schema \<Rightarrow> bool) \<Rightarrow> sproto \<Rightarrow> bool" where
  "state_ok P p \<longleftrightarrow> sp.reading p \<and> comments_ok (commentsByLine p) \<and> P (heap p)"

abbreviation sp_returns :: "(schema \<Rightarrow> bool) \<Rightarrow> nat \<Rightarrow> ((runes, 'a) go \<times> sproto) option \<Rightarrow> bool" where
  "sp_returns P \<equiv> returns (state_ok P) sp.left {NilDereference}"

lemma sproto_upd [simp]:
  "sp.reading (p\<lparr>heap := h\<rparr>) = sp.reading p" "sp.left (p\<lparr>heap := h\<rparr>) = sp.left p"
  "sp.reading (p\<lparr>commentsByLine := m\<rparr>) = sp.reading p" "sp.left (p\<lparr>commentsByLine := m\<rparr>) = sp.left p"
  "TokenID (p\<lparr>heap := h\<rparr>) = TokenID p" "TokenID (p\<lparr>commentsByLine := m\<rparr>) = TokenID p"
  by (simp_all add: sp.reading_def sp.left_def TokenID_def)

lemma state_ok_set_heap: "state_ok P p \<Longrightarrow> Q h \<Longrightarrow> state_ok Q (p\<lparr>heap := h\<rparr>)"
  by (simp add: state_ok_def)

lemma state_ok_weaken: "state_ok P p \<Longrightarrow> (P (heap p) \<Longrightarrow> Q (heap p)) \<Longrightarrow> state_ok Q p"
  by (simp add: state_ok_def)

lemma more_eq: "parser.more p1 = parser.more (p :: sproto) \<Longrightarrow> commentsByLine p1 = commentsByLine p \<and> heap p1 = heap p"
  by (cases p, cases p1) simp

lemma comment_value_ok:
  assumes "sp.reading p" "TokenID p = Token_UnixComment \<or> TokenID p = Token_CStyleComment"
  shows "0 \<notin> set (TokenValue p)"
proof -
  obtain m where m: "tmatcher (curr p) = Some m" "ID m = Token_UnixComment \<or> ID m = Token_CStyleComment"
    using assms(2) by (cases "tmatcher (curr p)") (auto simp: TokenID_def MatcherID_def)
  then have "m \<in> fst ` set sproto_ms" "is_comment m \<longrightarrow> set (tvalue (curr p)) \<subseteq> set (src (tz (lexer p)))"
    using assms(1) by (simp_all add: sp.reading_def token_ok_def)
  moreover from this(1) m(2) have "is_comment m" by (auto simp: sproto_ms_def)
  ultimately show ?thesis
    using assms(1) m(1) by (auto simp: sp.reading_def TokenValue_def Value_def)
qed

lemma sproto_NextToken_returns:
  "state_ok P p \<Longrightarrow> \<exists>r p'. sproto_NextToken u p = Some (r, p') \<and> state_ok P p' \<and> heap p' = heap p \<and>
     sp.left p' \<le> sp.left p \<and> (\<forall>q. r \<noteq> Panic q) \<and>
     (is_ok r \<and> (TokenID p \<noteq> 0 \<or> TokenID p' \<noteq> 0) \<longrightarrow> sp.left p' < sp.left p)"
proof (induction "sp.left p" arbitrary: p rule: less_induct)
  case less
  then have "sp.reading p" by (simp add: state_ok_def)
  from sp.NextToken_returns [OF this] obtain r p1 where p1: "NextToken u p = Some (r, p1)" "sp.reading p1"
    "parser.more p1 = parser.more p" "sp.left p1 \<le> sp.left p" "no_panic r"
    "is_ok r \<and> (TokenID p \<noteq> 0 \<or> TokenID p1 \<noteq> 0) \<longrightarrow> sp.left p1 < sp.left p" by blast
  have g1: "state_ok P p1" using less.prems p1(2) more_eq [OF p1(3)] by (simp add: state_ok_def)
  show ?case
  proof (cases "is_ok r \<and> (TokenID p1 = Token_UnixComment \<or> TokenID p1 = Token_CStyleComment)")
    case True
    define p2 where "p2 = p1\<lparr>commentsByLine := (commentsByLine p1)(Line (tpos (curr p1)) \<mapsto> TokenValue p1)\<rparr>"
    have "comments_ok (commentsByLine p2)"
      using g1 comment_value_ok [OF p1(2)] True by (auto simp: state_ok_def comments_ok_def p2_def ran_def)
    then have "state_ok P p2" using g1 by (simp add: state_ok_def p2_def)
    moreover have "sp.left p2 < sp.left p" using True p1(6) by (auto simp: p2_def)
    ultimately obtain r' p' where "sproto_NextToken u p2 = Some (r', p')" "state_ok P p'" "heap p' = heap p2"
      "sp.left p' \<le> sp.left p2" "\<forall>q. r' \<noteq> Panic q" using less.hyps by blast
    moreover have "sproto_NextToken u p = sproto_NextToken u p2"
      using True p1(1) by (cases r) (auto simp: sproto_NextToken.simps [of u p] bind_run_Ok p2_def)
    ultimately show ?thesis
      using \<open>sp.left p2 < sp.left p\<close> more_eq [OF p1(3)] by (auto simp: p2_def)
  next
    case False
    with p1 g1 more_eq [OF p1(3)] show ?thesis
      by (cases r) (auto simp: sproto_NextToken.simps [of u p] bind_run_def ret_def)
  qed
qed

lemma sp_next:
  assumes "state_ok P p" "sp.left p \<le> n" "\<And>h. P h \<Longrightarrow> Q h"
    and "\<And>p1. state_ok P p1 \<Longrightarrow> sp.left p1 \<le> sp.left p \<Longrightarrow> (TokenID p \<noteq> 0 \<Longrightarrow> sp.left p1 < sp.left p)
      \<Longrightarrow> sp_returns Q n (f () p1)"
  shows "sp_returns Q n (bind_run (sproto_NextToken u) f p)"
proof -
  from sproto_NextToken_returns [OF assms(1), of u] obtain r p' where
    "sproto_NextToken u p = Some (r, p')" "state_ok P p'" "sp.left p' \<le> sp.left p"
    "\<forall>q. r \<noteq> Panic q" "is_ok r \<and> (TokenID p \<noteq> 0 \<or> TokenID p' \<noteq> 0) \<longrightarrow> sp.left p' < sp.left p" by blast
  moreover from this have "state_ok Q p'" using assms(3) by (auto intro: state_ok_weaken)
  ultimately show ?thesis using assms(2,4) by (cases r) (auto simp: bind_run_def returns_def)
qed

lemma bind_run_sproto_Expect:
  "TokenID p = i \<Longrightarrow> bind_run (sproto_Expect u i) f p = bind_run (sproto_NextToken u) (\<lambda>_. f (curr p)) p"
  by (auto simp: sproto_Expect_def bind_run_def ret_def split: go.splits Option.bind_splits)

lemma sp_expect:
  assumes "state_ok P p" "sp.left p \<le> n" "i \<noteq> 0" "\<And>h. P h \<Longrightarrow> Q h"
    and "\<And>p1. state_ok P p1 \<Longrightarrow> sp.left p1 < sp.left p \<Longrightarrow> sp_returns Q n (f (curr p) p1)"
  shows "sp_returns Q n (bind_run (sproto_Expect u i) f p)"
proof (cases "TokenID p = i")
  case True
  with assms show ?thesis by (subst bind_run_sproto_Expect) (auto intro!: sp_next [of P])
next
  case False
  with assms(1,2,4) show ?thesis
    by (auto simp: sproto_Expect_def raise_def bind_run_def returns_def intro: state_ok_weaken)
qed

lemma sp_comment:
  assumes "state_ok P p" "sp.left p \<le> n" "\<And>h. P h \<Longrightarrow> Q h" "\<And>cg. sp_returns Q n (f cg p)"
  shows "sp_returns Q n (bind_run (CommentGroupByLine u line) f p)"
proof -
  from assms(1) CommentGroupByLine_returns [of p u line] obtain r where
    "CommentGroupByLine u line p = Some (r, p)" "\<forall>q. r \<noteq> Panic q" by (auto simp: state_ok_def)
  moreover have "state_ok Q p" using assms(1,3) by (auto intro: state_ok_weaken)
  ultimately show ?thesis using assms(2,4) by (cases r) (auto simp: bind_run_def returns_def)
qed

lemma sp_raise: "state_ok P p \<Longrightarrow> sp.left p \<le> n \<Longrightarrow> (\<And>h. P h \<Longrightarrow> Q h) \<Longrightarrow> sp_returns Q n (raise e p)"
  by (auto intro!: returns_raise intro: state_ok_weaken)

lemma bind_run_assoc [simp]: "bind_run (bind_run m f) g = bind_run m (\<lambda>x. bind_run (f x) g)"
  by (rule ext) (auto simp: bind_run_def split: go.splits Option.bind_splits)

lemma bind_run_if:
  "bind_run (\<lambda>p. if b p then m p else m' p) k p = (if b p then bind_run m k p else bind_run m' k p)"
  by (simp add: bind_run_def)

lemma bind_run_simps [simp]: "bind_run (ret x) k p = k x p" "bind_run (raise e) k p = raise e p"
  by (simp_all add: bind_run_def ret_def raise_def)

lemma bind_heap [simp]:
  "bind_run get_heap f p = f (heap p) p"
  "bind_run raw_token rt p = rt (curr p) p"
  "bind_run token_pos tp p = tp (pos_of p) p"
  "bind_run (modify g) k p = k () (p\<lparr>heap := g (heap p)\<rparr>)"
  "bind_run (alloc al) l p = l (fst (al (heap p))) (p\<lparr>heap := snd (al (heap p))\<rparr>)"
  "bind_run (upd_fd a uf) k p = k () (p\<lparr>heap := set_fd a (uf (fds (heap p) ! a)) (heap p)\<rparr>)"
  "bind_run (upd_d d ud) k p = k () (p\<lparr>heap := set_d d (ud (ds (heap p) ! d)) (heap p)\<rparr>)"
  by (simp_all add: bind_run_def get_heap_def raw_token_def token_pos_def modify_def alloc_def upd_fd_def upd_d_def)

lemma sp_modify: "state_ok P (p\<lparr>heap := g (heap p)\<rparr>) \<Longrightarrow> sp.left p \<le> n \<Longrightarrow> sp_returns P n (modify g p)"
  by (simp add: modify_def returns_def)

end
