(* ===== verification/Schema_Grammar.thy ===== *)
theory Schema_Grammar
  imports Schema_Returns
begin

text \<open>
  The grammar of schema files returns and keeps the invariant of the heap: one rule per routine of the
  parser, each in the style of a continuation, so that the rules compose as the routines do.
\<close>

section \<open>Fields\<close>

text \<open>A descriptor being filled in, and a field of it being filled in.\<close>

definition in_file :: "nat \<Rightarrow> schema \<Rightarrow> bool" where
  "in_file f h \<longleftrightarrow> schema_ok h \<and> f < length (fls h)"

definition in_body :: "nat \<Rightarrow> nat \<Rightarrow> schema \<Rightarrow> bool" where
  "in_body f d h \<longleftrightarrow> in_file f h \<and> loose_d h d \<and> dFile (ds h ! d) = f \<and> dType (ds h ! d) \<noteq> DescriptorType_None"

definition in_field :: "nat \<Rightarrow> nat \<Rightarrow> nat \<Rightarrow> schema \<Rightarrow> bool" where
  "in_field f d a h \<longleftrightarrow> in_body f d h \<and> loose_fd h a \<and> Struct (fds h ! a) = d \<and> Complex (fds h ! a) = None
     \<and> MainIndex (fds h ! a) = None"

lemma in_body_d: "in_body f d h \<Longrightarrow> d < length (ds h)"
  by (simp add: in_body_def loose_d_def)

lemma in_field_body: "in_field f d a h \<Longrightarrow> in_body f d h"
  by (simp add: in_field_def)

lemma in_field_set:
  assumes "in_field f d a h" "Struct v = d" "Complex v = None" "MainIndex v = None"
  shows "in_field f d a (set_fd a v h)"
proof -
  have "fd_ok h v" using assms in_body_d [OF in_field_body] by (simp add: fd_ok_def)
  with assms have "schema_ok (set_fd a v h) \<and> loose_fd (set_fd a v h) a"
    by (intro set_loose_fd_ok) (simp_all add: in_field_def in_body_def in_file_def)
  with assms show ?thesis
    by (auto simp: in_field_def in_body_def in_file_def loose_d_def loose_fd_def set_fd_def)
qed

lemma in_field_new:
  assumes "in_body f d h"
  shows "in_field f d (fst (newFieldDescriptor d h)) (snd (newFieldDescriptor d h))"
  using newFieldDescriptor_ok [of h d "fst (newFieldDescriptor d h)" "snd (newFieldDescriptor d h)"] assms
    in_body_d [OF assms]
  by (auto simp: in_field_def in_body_def in_file_def loose_d_def) (simp add: newFieldDescriptor_def)

lemma sp_upd_field:
  assumes "state_ok (in_field f d a) p"
    and "Struct v = Struct (fds (heap p) ! a)" "Complex v = Complex (fds (heap p) ! a)"
      "MainIndex v = MainIndex (fds (heap p) ! a)"
  shows "state_ok (in_field f d a) (p\<lparr>heap := set_fd a v (heap p)\<rparr>)"
  using assms by (auto simp: state_ok_def intro!: in_field_set) (auto simp: in_field_def)

lemma bind_run_at: "m p = m' p \<Longrightarrow> bind_run m k p = bind_run m' k p"
  by (simp add: bind_run_def)

lemma field_name_k:
  assumes "state_ok (in_field f d a) p" "sp.left p \<le> n"
    and k: "\<And>p1. state_ok (in_field f d a) p1 \<Longrightarrow> sp.left p1 < sp.left p \<Longrightarrow> sp_returns (in_body f d) n (k () p1)"
  shows "sp_returns (in_body f d) n (bind_run (field_name u d a) k p)"
  unfolding field_name_def bind_run_assoc
proof (rule sp_expect [OF assms(1,2)], goal_cases)
  case (3 p1)
  let ?p2 = "p1\<lparr>heap := set_fd a ((fds (heap p1) ! a)\<lparr>fName := Value (curr p)\<rparr>) (heap p1)\<rparr>"
  have p2: "state_ok (in_field f d a) ?p2" using 3(1) by (intro sp_upd_field) simp_all
  with 3(2) assms(2) k [of ?p2] show ?case
    by (auto intro: sp_raise [OF p2] simp: in_field_body)
qed (simp_all add: in_field_body)

lemma parse_typeName_k:
  assumes "state_ok (in_field f d a) p" "sp.left p \<le> n"
    and k: "\<And>name p1. state_ok (in_field f d a) p1 \<Longrightarrow> sp.left p1 \<le> sp.left p \<Longrightarrow> sp_returns (in_body f d) n (k name p1)"
  shows "sp_returns (in_body f d) n (bind_run (parse_typeName u a) k p)"
proof -
  let ?rep = "\<lambda>p1. p1\<lparr>heap := set_fd a ((fds (heap p1) ! a)\<lparr>Repeatd := True\<rparr>) (heap p1)\<rparr>"
  have rep: "state_ok (in_field f d a) (?rep p1)" if "state_ok (in_field f d a) p1" for p1
    using that by (intro sp_upd_field) simp_all
  have name: "sp_returns (in_body f d) n (bind_run (sproto_Expect u Token_Identifier) (\<lambda>t. bind_run (ret (Value t)) k) p1)"
    if "state_ok (in_field f d a) p1" "sp.left p1 \<le> sp.left p" for p1
    using that assms(2) k by (intro sp_expect [OF that(1)]) (auto simp: in_field_body)
  consider "TokenID p = Token_Star" | "TokenID p = Token_BracketL" | "TokenID p = Token_Identifier"
    | "TokenID p \<notin> {Token_Star, Token_BracketL, Token_Identifier}" by auto
  then show ?thesis
  proof cases
    case 1
    then have eq: "bind_run (parse_typeName u a) k p = bind_run (bind_run (sproto_NextToken u) (\<lambda>_.
        bind_run (upd_fd a (\<lambda>fd. fd\<lparr>Repeatd := True\<rparr>)) (\<lambda>_.
        bind_run (sproto_Expect u Token_Identifier) (\<lambda>t. ret (Value t))))) k p"
      by (intro bind_run_at) (simp add: parse_typeName_def)
    show ?thesis
      unfolding eq bind_run_assoc
      by (rule sp_next [OF assms(1,2)]) (simp_all add: in_field_body name rep)
  next
    case 2
    then have eq: "bind_run (parse_typeName u a) k p = bind_run (bind_run (sproto_NextToken u) (\<lambda>_.
        bind_run (sproto_Expect u Token_BracketR) (\<lambda>_.
        bind_run (upd_fd a (\<lambda>fd. fd\<lparr>Repeatd := True\<rparr>)) (\<lambda>_.
        bind_run (sproto_Expect u Token_Identifier) (\<lambda>t. ret (Value t)))))) k p"
      by (intro bind_run_at) (simp add: parse_typeName_def)
    show ?thesis
      unfolding eq bind_run_assoc
      using assms(2) by (intro sp_next [OF assms(1,2)] sp_expect [where P = "in_field f d a"]) (simp_all add: in_field_body name rep)
  next
    case 3
    then have eq: "bind_run (parse_typeName u a) k p = bind_run (bind_run (sproto_NextToken u) (\<lambda>_. ret (TokenValue p))) k p"
      by (intro bind_run_at) (simp add: parse_typeName_def)
    show ?thesis
      unfolding eq bind_run_assoc
      by (rule sp_next [OF assms(1,2)]) (simp_all add: in_field_body k)
  next
    case 4
    then have eq: "bind_run (parse_typeName u a) k p = bind_run (ret []) k p" by (intro bind_run_at) (simp add: parse_typeName_def)
    show ?thesis unfolding eq using k [OF assms(1)] by simp
  qed
qed

lemma sp_returnsD: "sp_returns P n r \<Longrightarrow> (\<And>h. P h \<Longrightarrow> Q h) \<Longrightarrow> n \<le> m \<Longrightarrow> sp_returns Q m r"
  by (erule returns_weaken) (auto intro: state_ok_weaken)

lemma sp_bind:
  assumes "sp_returns P n (m p)" "\<And>h. P h \<Longrightarrow> Q h"
    and "\<And>x p1. m p = Some (Ok x, p1) \<Longrightarrow> state_ok P p1 \<Longrightarrow> sp.left p1 \<le> n \<Longrightarrow> sp_returns Q k (f x p1)"
    and "n \<le> k"
  shows "sp_returns Q k (bind_run m f p)"
  by (rule returns_bind [where m = m and s = p, OF assms(1)]) (auto intro: assms(3,4) state_ok_weaken [OF _ assms(2)])

lemma parse_mainIndex_returns:
  assumes "state_ok P p"
  shows "sp_returns P (sp.left p) (parse_mainIndex u pf p)"
  using assms unfolding parse_mainIndex_def
  by (auto intro!: sp_next [of P] sp_expect [of P] returns_ret)

lemma bind_run_Some_Ok:
  "bind_run m f p = Some (Ok y, p') \<longleftrightarrow> (\<exists>x p1. m p = Some (Ok x, p1) \<and> f x p1 = Some (Ok y, p'))"
proof (cases "m p")
  case (Some z)
  then show ?thesis by (cases z, cases "fst z") (auto simp: bind_run_def)
qed (simp add: bind_run_def)

lemma parse_mainIndex_same:
  "parse_mainIndex u pf p = Some (Ok pf', p') \<Longrightarrow> lazy_fd pf' = lazy_fd pf \<and> lazy_d pf' = lazy_d pf"
  by (auto simp: parse_mainIndex_def bind_run_Some_Ok ret_def split: if_splits)

lemma sp_upd_fd:
  assumes "state_ok (in_field f d a) p" "sp.left p \<le> n" "\<And>v. Struct (uf v) = Struct v"
    "\<And>v. Complex (uf v) = Complex v" "\<And>v. MainIndex (uf v) = MainIndex v"
  shows "sp_returns (in_field f d a) n (upd_fd a uf p)"
  unfolding upd_fd_def by (rule sp_modify) (simp_all add: assms sp_upd_field)

lemma field_comment_returns:
  "state_ok (in_field f d a) p \<Longrightarrow> sp_returns (in_field f d a) (sp.left p) (field_comment u t a p)"
  unfolding field_comment_def by (rule sp_comment [of "in_field f d a"]) (auto intro!: sp_upd_fd)

lemma auto_tag_returns:
  "state_ok (in_field f d a) p \<Longrightarrow> sp.left p \<le> n \<Longrightarrow> sp_returns (in_field f d a) n (auto_tag d a p)"
  unfolding auto_tag_def by (auto intro!: sp_upd_fd)

lemma tag_returns:
  assumes "state_ok (in_field f d a) p"
  shows "sp_returns (in_field f d a) (sp.left p)
     (if TokenID p = i then bind_run (sproto_Expect u Token_Numeral) (\<lambda>t. upd_fd a (\<lambda>fd. fd\<lparr>Tag := ToInt t\<rparr>)) p
      else auto_tag d a p)"
    "sp_returns (in_field f d a) (sp.left p)
     (if TokenID p = i then bind_run (sproto_NextToken u) (\<lambda>_.
        bind_run (sproto_Expect u Token_Numeral) (\<lambda>t. upd_fd a (\<lambda>fd. fd\<lparr>Tag := ToInt t\<rparr>))) p
      else auto_tag d a p)"
  using assms
  by (auto intro!: sp_next [of "in_field f d a"] sp_expect [of "in_field f d a"] sp_upd_fd auto_tag_returns)

lemma append_unknown_ok:
  "schema_ok h \<Longrightarrow> lazy_ok h lf \<Longrightarrow> schema_ok (h\<lparr>unknownFields := unknownFields h @ [lf]\<rparr>)"
  unfolding schema_ok_def
  by (auto simp: fd_ok_def desc_ok_def file_ok_def lazy_ok_def has_type_def Let_def)

text \<open>After the first pass a field has a type or waits for the second pass.\<close>

definition filled :: "nat \<Rightarrow> nat \<Rightarrow> nat \<Rightarrow> schema \<Rightarrow> bool" where
  "filled f d a h \<longleftrightarrow> in_body f d h \<and> loose_fd h a \<and> Struct (fds h ! a) = d \<and> has_type h a"

lemma filled_body: "filled f d a h \<Longrightarrow> in_body f d h"
  by (simp add: filled_def)

lemma filled_typed:
  assumes "in_field f d a h" "fd_ok h v" "Struct v = d" "fType v \<noteq> FieldType_None"
  shows "filled f d a (set_fd a v h)"
proof -
  have "schema_ok (set_fd a v h) \<and> loose_fd (set_fd a v h) a"
    using assms(1,2) by (intro set_loose_fd_ok) (simp_all add: in_field_def in_body_def in_file_def)
  with assms show ?thesis
    by (auto simp: filled_def in_field_def in_body_def in_file_def loose_d_def loose_fd_def set_fd_def has_type_def)
qed

lemma filled_unknown:
  assumes "in_field f d a h" "fd_ok h v" "Struct v = d" "lazy_fd lf = a" "lazy_d lf = d"
    and h': "h' = (set_fd a v h)\<lparr>unknownFields := unknownFields h @ [lf]\<rparr>"
  shows "filled f d a h'"
proof -
  have s: "schema_ok (set_fd a v h) \<and> loose_fd (set_fd a v h) a"
    using assms(1,2) by (intro set_loose_fd_ok) (simp_all add: in_field_def in_body_def in_file_def)
  moreover have "lazy_ok (set_fd a v h) lf"
    using assms(1,4,5) in_body_d [OF in_field_body [OF assms(1)]]
    by (simp add: lazy_ok_def set_fd_def in_field_def loose_fd_def)
  ultimately have "schema_ok h'"
    using append_unknown_ok [of "set_fd a v h" lf] by (simp add: h' set_fd_def)
  with s assms show ?thesis
    by (auto simp: filled_def in_field_def in_body_def in_file_def loose_d_def loose_fd_def set_fd_def has_type_def)
qed

lemma body_set:
  assumes "in_field f d a h" "fd_ok h v"
  shows "in_body f d (set_fd a v h)"
proof -
  have "schema_ok (set_fd a v h) \<and> loose_fd (set_fd a v h) a"
    using assms(1,2) by (intro set_loose_fd_ok) (simp_all add: in_field_def in_body_def in_file_def)
  with assms show ?thesis
    by (auto simp: in_field_def in_body_def in_file_def loose_d_def set_fd_def)
qed

lemma first_pass_returns:
  assumes "state_ok (in_field f d a) p" "lazy_fd pf = a" "lazy_d pf = d"
  shows "returns (state_ok (in_body f d)) sp.left {NilDereference} (sp.left p) (first_pass d pf p)"
    "first_pass d pf p = Some (Ok x, p') \<Longrightarrow> state_ok (filled f d a) p' \<and> sp.left p' = sp.left p"
proof -
  have inf: "in_field f d a (heap p)" using assms(1) by (simp add: state_ok_def)
  then have a: "a < length (fds (heap p))" and ok: "schema_ok (heap p)" and st: "Struct (fds (heap p) ! a) = d"
    by (simp_all add: in_field_def in_body_def in_file_def loose_fd_def)
  have gb: "state_ok (in_body f d) p" using assms(1) by (rule state_ok_weaken) (simp add: in_field_body)
  have main: "\<exists>p1. state_ok (in_body f d) p1 \<and> sp.left p1 = sp.left p \<and>
     (first_pass d pf p = Some (Panic NilDereference, p1) \<or> first_pass d pf p = Some (Ok (), p1) \<and> state_ok (filled f d a) p1)"
  proof (cases "resolve 1 pf (heap p) :: (runes, _) go")
    case (Ok z)
    obtain need err pf' h where z: "z = (need, err, pf', h)" by (cases z) auto
    from resolve_spec [OF ok _ Ok [unfolded z]] a assms(2) obtain v where v: "h = set_fd a v (heap p)" "fd_ok (heap p) v"
      "Struct v = d" "lazy_fd pf' = a" "lazy_d pf' = d" "fType v = FieldType_None \<longrightarrow> need"
      by (auto simp: st assms(3))
    have body: "in_body f d h" using body_set [OF inf v(2)] v(1) by simp
    have typed: "\<not> need \<Longrightarrow> filled f d a h" using filled_typed [OF inf v(2,3)] v(1,6) by simp
    have later: "filled f d a (h\<lparr>unknownFields := unknownFields h @ [pf']\<rparr>)"
      by (rule filled_unknown [OF inf v(2-5)]) (simp add: v(1) set_fd_def)
    show ?thesis
      using state_ok_set_heap [OF assms(1), of "in_body f d", OF body]
        state_ok_set_heap [OF assms(1), of "filled f d a", OF typed]
        state_ok_set_heap [OF assms(1), of "filled f d a", OF later]
        state_ok_set_heap [OF assms(1), of "in_body f d", OF filled_body, OF later]
      by (simp add: first_pass_def Ok z)
  next
    case (Err e)
    then show ?thesis by (simp add: resolve_no_Err)
  next
    case (Panic q)
    with resolve_panic [OF this] gb show ?thesis by (simp add: first_pass_def)
  qed
  then show "sp_returns (in_body f d) (sp.left p) (first_pass d pf p)"
    by (auto simp: returns_def)
  from main show "first_pass d pf p = Some (Ok x, p') \<Longrightarrow> state_ok (filled f d a) p' \<and> sp.left p' = sp.left p"
    by auto
qed

lemma addField_body:
  assumes "filled f d a h" "map_of (FieldByName (ds h ! d)) (fName (fds h ! a)) = None"
  shows "in_body f d (addField d a h)"
proof -
  have "schema_ok (addField d a h)"
    using assms in_body_d [OF filled_body [OF assms(1)]]
    by (intro addField_ok) (simp_all add: filled_def in_body_def in_file_def)
  with assms show ?thesis
    by (auto simp: filled_def in_body_def in_file_def loose_d_def addField_simps)
qed

lemma add_field_returns:
  assumes "state_ok (filled f d a) p"
  shows "sp_returns (in_body f d) (sp.left p) (bind_run (checkField d a) (\<lambda>_. modify (addField d a)) p)"
proof -
  have "in_body f d (addField d a (heap p))"
    if "map_of (FieldByName (ds (heap p) ! d)) (fName (fds (heap p) ! a)) = None"
    using assms that by (intro addField_body) (simp_all add: state_ok_def)
  with assms state_ok_weaken [OF assms, of "in_body f d"] filled_body show ?thesis
    by (auto simp: checkField_def Let_def bind_run_def ret_def raise_def modify_def returns_def
        intro: state_ok_set_heap)
qed

lemma sp_alloc_field:
  assumes "state_ok (in_body f d) p" "sp.left p \<le> n"
    and "\<And>a p1. state_ok (in_field f d a) p1 \<Longrightarrow> sp.left p1 = sp.left p \<Longrightarrow> sp_returns Q n (l a p1)"
  shows "sp_returns Q n (bind_run (alloc (newFieldDescriptor d)) l p)"
proof -
  have "in_body f d (heap p)" using assms(1) by (simp add: state_ok_def)
  from state_ok_set_heap [OF assms(1), of "in_field f d _", OF in_field_new, OF this] show ?thesis
    by (simp add: assms(3))
qed

lemma sp_raw: "sp_returns Q n (rt (curr p) p) \<Longrightarrow> sp_returns Q n (bind_run raw_token rt p)"
  and sp_pos: "sp_returns Q n (tp (pos_of p) p) \<Longrightarrow> sp_returns Q n (bind_run token_pos tp p)"
  by simp_all

lemma colon_k:
  assumes "state_ok P p" "sp.left p \<le> n" "\<And>h. P h \<Longrightarrow> Q h"
    and "\<And>p1. state_ok P p1 \<Longrightarrow> sp.left p1 \<le> sp.left p \<Longrightarrow> sp_returns Q n (k () p1)"
  shows "sp_returns Q n (bind_run (\<lambda>p. if TokenID p = Token_Colon then sproto_NextToken u p else ret () p) k p)"
  using assms by (auto simp: bind_run_if intro!: sp_next [of P])

lemma tag_k:
  assumes "state_ok (in_field f d a) p" "sp.left p \<le> n"
    and "\<And>p1. state_ok (in_field f d a) p1 \<Longrightarrow> sp.left p1 \<le> sp.left p \<Longrightarrow> sp_returns (in_body f d) n (k () p1)"
  shows "sp_returns (in_body f d) n (bind_run (\<lambda>p. if TokenID p = i
       then bind_run (sproto_Expect u Token_Numeral) (\<lambda>t. upd_fd a (\<lambda>fd. fd\<lparr>Tag := ToInt t\<rparr>)) p
       else auto_tag d a p) k p)"
    "sp_returns (in_body f d) n (bind_run (\<lambda>p. if TokenID p = i
       then bind_run (sproto_NextToken u) (\<lambda>_.
            bind_run (sproto_Expect u Token_Numeral) (\<lambda>t. upd_fd a (\<lambda>fd. fd\<lparr>Tag := ToInt t\<rparr>))) p
       else auto_tag d a p) k p)"
  by (rule sp_bind, rule tag_returns(1) [OF assms(1)], use assms(2,3) in \<open>auto simp: in_field_body\<close>)
    (rule sp_bind, rule tag_returns(2) [OF assms(1)], use assms(2,3) in \<open>auto simp: in_field_body\<close>)

lemma parse_mainIndex_k:
  assumes "state_ok P p" "sp.left p \<le> n" "\<And>h. P h \<Longrightarrow> Q h"
    and "\<And>pf' p1. state_ok P p1 \<Longrightarrow> sp.left p1 \<le> sp.left p \<Longrightarrow> lazy_fd pf' = lazy_fd pf \<Longrightarrow> lazy_d pf' = lazy_d pf
       \<Longrightarrow> sp_returns Q n (k pf' p1)"
  shows "sp_returns Q n (bind_run (parse_mainIndex u pf) k p)"
  by (rule sp_bind, rule parse_mainIndex_returns [OF assms(1)])
    (use assms(2-4) in \<open>auto dest: parse_mainIndex_same\<close>)

lemma field_comment_k:
  assumes "state_ok (in_field f d a) p" "sp.left p \<le> n"
    and "\<And>p1. state_ok (in_field f d a) p1 \<Longrightarrow> sp.left p1 \<le> sp.left p \<Longrightarrow> sp_returns (in_body f d) n (k () p1)"
  shows "sp_returns (in_body f d) n (bind_run (field_comment u t a) k p)"
  by (rule sp_bind, rule field_comment_returns [OF assms(1)]) (use assms(2,3) in \<open>auto simp: in_field_body\<close>)

lemma first_pass_k:
  assumes "state_ok (in_field f d a) p" "sp.left p \<le> n" "lazy_fd pf = a" "lazy_d pf = d"
    and "\<And>p1. state_ok (filled f d a) p1 \<Longrightarrow> sp.left p1 = sp.left p \<Longrightarrow> sp_returns (in_body f d) n (k () p1)"
  shows "sp_returns (in_body f d) n (bind_run (first_pass d pf) k p)"
  by (rule sp_bind, rule first_pass_returns(1) [OF assms(1,3,4)])
    (use assms(2,5) first_pass_returns(2) [OF assms(1,3,4)] in auto)

lemma add_field_k:
  assumes "state_ok (filled f d a) p" "sp.left p \<le> n"
    and "\<And>p1. state_ok (in_body f d) p1 \<Longrightarrow> sp.left p1 \<le> sp.left p \<Longrightarrow> sp_returns (in_body f d) n (k () p1)"
  shows "sp_returns (in_body f d) n (bind_run (checkField d a) (\<lambda>_. bind_run (modify (addField d a)) k) p)"
  unfolding bind_run_assoc [symmetric]
  by (rule sp_bind, rule add_field_returns [OF assms(1)]) (use assms(2,3) in auto)

lemma parseStructField_k:
  assumes "state_ok (in_body f d) p" "sp.left p \<le> n"
    and k: "\<And>p1. state_ok (in_body f d) p1 \<Longrightarrow> sp.left p1 < sp.left p \<Longrightarrow> sp_returns (in_body f d) n (k () p1)"
  shows "sp_returns (in_body f d) n (bind_run (parseStructField u d) k p)"
  unfolding parseStructField_def bind_run_assoc
  apply (rule sp_alloc_field [OF assms(1,2)], rule sp_raw, rule field_name_k, assumption, use assms(2) in simp)
  apply (rule tag_k(1), assumption, use assms(2) in simp)
  apply (rule colon_k, assumption, use assms(2) in simp, erule in_field_body, rule sp_pos)
  apply (rule parse_typeName_k, assumption, use assms(2) in simp)
  apply (rule parse_mainIndex_k, assumption, use assms(2) in simp, erule in_field_body)
  apply (rule field_comment_k, assumption, use assms(2) in simp)
  apply (rule first_pass_k, assumption, use assms(2) in simp)
  apply (simp_all add: newLazyField_def)
  apply (rule add_field_k, assumption, use assms(2) in simp, rule k, assumption, use assms(2) in simp)
  done

text \<open>The fields of an enumeration have their type at once.\<close>

definition typed_field :: "nat \<Rightarrow> nat \<Rightarrow> nat \<Rightarrow> schema \<Rightarrow> bool" where
  "typed_field f d a h \<longleftrightarrow> in_field f d a h \<and> fType (fds h ! a) \<noteq> FieldType_None"

lemma typed_filled: "typed_field f d a h \<Longrightarrow> filled f d a h"
  by (simp add: typed_field_def filled_def in_field_def has_type_def)

lemma typed_set:
  assumes "in_field f d a h" "Struct v = d" "Complex v = None" "MainIndex v = None" "fType v \<noteq> FieldType_None"
  shows "typed_field f d a (set_fd a v h)"
  using in_field_set [OF assms(1-4)] assms
  by (simp add: typed_field_def in_field_def loose_fd_def set_fd_def)

lemma sp_set_type:
  assumes "state_ok (in_field f d a) p" "sp.left p \<le> n"
    and "\<And>p1. state_ok (typed_field f d a) p1 \<Longrightarrow> sp.left p1 = sp.left p \<Longrightarrow> sp_returns Q n (k () p1)"
  shows "sp_returns Q n (bind_run (upd_fd a (\<lambda>fd. fd\<lparr>fType := FieldType_Int32\<rparr>)) k p)"
proof -
  have "in_field f d a (heap p)" using assms(1) by (simp add: state_ok_def)
  from state_ok_set_heap [OF assms(1), of "typed_field f d a", OF typed_set, OF this]
  show ?thesis
    using \<open>in_field f d a (heap p)\<close> by (simp add: assms(3) in_field_def)
qed

lemma typed_comment_k:
  assumes "state_ok (typed_field f d a) p" "sp.left p \<le> n"
    and "\<And>p1. state_ok (filled f d a) p1 \<Longrightarrow> sp.left p1 = sp.left p \<Longrightarrow> sp_returns (in_body f d) n (k () p1)"
  shows "sp_returns (in_body f d) n (bind_run (field_comment u t a) k p)"
  unfolding field_comment_def bind_run_assoc
proof (rule sp_comment [OF assms(1,2)])
  fix cg
  have h: "typed_field f d a (heap p)" using assms(1) by (simp add: state_ok_def)
  then have "in_field f d a (heap p)" by (simp add: typed_field_def)
  from state_ok_set_heap [OF assms(1), of "typed_field f d a", OF typed_set, OF this]
  have "state_ok (typed_field f d a) (p\<lparr>heap := set_fd a ((fds (heap p) ! a)\<lparr>fComment := cg\<rparr>) (heap p)\<rparr>)"
    using h by (simp add: typed_field_def in_field_def)
  from state_ok_weaken [OF this typed_filled]
  show "sp_returns (in_body f d) n (bind_run (upd_fd a (\<lambda>fd. fd\<lparr>fComment := cg\<rparr>)) k p)"
    by (simp add: assms(3))
qed (rule filled_body, rule typed_filled)

lemma parseEnumField_k:
  assumes "state_ok (in_body f d) p" "sp.left p \<le> n"
    and k: "\<And>p1. state_ok (in_body f d) p1 \<Longrightarrow> sp.left p1 < sp.left p \<Longrightarrow> sp_returns (in_body f d) n (k () p1)"
  shows "sp_returns (in_body f d) n (bind_run (parseEnumField u d) k p)"
  unfolding parseEnumField_def bind_run_assoc
  apply (rule sp_alloc_field [OF assms(1,2)], rule sp_raw, rule field_name_k, assumption, use assms(2) in simp)
  apply (rule tag_k(2), assumption, use assms(2) in simp)
  apply (rule sp_set_type, assumption, use assms(2) in simp)
  apply (rule typed_comment_k, assumption, use assms(2) in simp)
  apply (rule add_field_k, assumption, use assms(2) in simp, rule k, assumption, use assms(2) in simp)
  done

lemma fields_until_brace_returns:
  assumes field: "\<And>p n k. state_ok (in_body f d) p \<Longrightarrow> sp.left p \<le> n \<Longrightarrow>
      (\<And>p1. state_ok (in_body f d) p1 \<Longrightarrow> sp.left p1 < sp.left p \<Longrightarrow> sp_returns (in_body f d) n (k () p1))
      \<Longrightarrow> sp_returns (in_body f d) n (bind_run field (k :: unit \<Rightarrow> unit parse) p)"
    and "state_ok (in_body f d) p" "sp.left p \<le> n"
  shows "sp_returns (in_body f d) n (fields_until_brace u field p)"
  using assms(2,3)
proof (induction "sp.left p" arbitrary: p rule: less_induct)
  case less
  have "sp_returns (in_body f d) n (bind_run field (\<lambda>_ p1. fields_until_brace u field p1) p)"
    using less by (intro field) auto
  with less.prems show ?case by (subst fields_until_brace.simps) (auto intro: returns_ret)
qed

section \<open>Objects\<close>

text \<open>A descriptor whose name the file may still lack.\<close>

lemma body_file: "in_body f d h \<Longrightarrow> in_file f h"
  by (simp add: in_body_def)

lemma body_new:
  assumes "in_file f h" "newDescriptor f h = (d, h')" "dFile v = f" "dType v \<noteq> DescriptorType_None"
    "Fields v = []" "FieldByName v = []" "FieldByTag v = []"
  shows "in_body f d (set_d d v h')"
proof -
  have "schema_ok h" "f < length (fls h)" using assms(1) by (simp_all add: in_file_def)
  note new = newDescriptor_ok [OF this assms(2)]
  then have h': "schema_ok h'" "loose_d h' d" "dFile (ds h' ! d) = f" "Fields (ds h' ! d) = []" by blast+
  have "f < length (fls h')" using new \<open>f < length (fls h)\<close> by simp
  note h' = h' this
  moreover have "FieldByName (ds h' ! d) = []" "FieldByTag (ds h' ! d) = []"
    using assms(2) by (auto simp: newDescriptor_def)
  ultimately have "schema_ok (set_d d v h') \<and> loose_d (set_d d v h') d"
    using assms by (intro set_loose_d_ok) simp_all
  with assms h' show ?thesis
    by (auto simp: in_body_def in_file_def set_d_def loose_d_def)
qed

lemma body_upd:
  assumes "in_body f d h" "Fields v = Fields (ds h ! d)" "FieldByName v = FieldByName (ds h ! d)"
    "FieldByTag v = FieldByTag (ds h ! d)" "dFile v = dFile (ds h ! d)" "dType v = dType (ds h ! d)"
  shows "in_body f d (set_d d v h)"
proof -
  have "schema_ok (set_d d v h) \<and> loose_d (set_d d v h) d"
    using assms by (intro set_loose_d_ok) (simp_all add: in_body_def in_file_def)
  with assms show ?thesis
    by (auto simp: in_body_def in_file_def set_d_def loose_d_def)
qed

lemma sp_new_desc:
  assumes "state_ok (in_file f) p" "sp.left p \<le> n" "ty \<noteq> DescriptorType_None"
    and "\<And>d p1. state_ok (in_body f d) p1 \<Longrightarrow> sp.left p1 = sp.left p \<Longrightarrow> sp_returns Q n (k d p1)"
  shows "sp_returns Q n (bind_run (alloc (newDescriptor f))
    (\<lambda>d. bind_run (upd_d d (\<lambda>v. v\<lparr>dType := ty\<rparr>)) (\<lambda>_. k d)) p)"
proof -
  define d h where "d = fst (newDescriptor f (heap p))" and "h = snd (newDescriptor f (heap p))"
  have "in_file f (heap p)" using assms(1) by (simp add: state_ok_def)
  then have "in_body f d (set_d d ((ds h ! d)\<lparr>dType := ty\<rparr>) h)"
    by (rule body_new) (use assms(3) in \<open>auto simp: d_def h_def newDescriptor_def\<close>)
  from state_ok_set_heap [OF assms(1), of "in_body f d", OF this] show ?thesis
    by (simp add: assms(4) flip: d_def h_def)
qed

lemma sp_upd_d:
  assumes "state_ok (in_body f d) p" "sp.left p \<le> n" "\<And>v. Fields (uf v) = Fields v" "\<And>v. FieldByName (uf v) = FieldByName v"
    "\<And>v. FieldByTag (uf v) = FieldByTag v" "\<And>v. dFile (uf v) = dFile v" "\<And>v. dType (uf v) = dType v"
    and "\<And>p1. state_ok (in_body f d) p1 \<Longrightarrow> sp.left p1 = sp.left p \<Longrightarrow> sp_returns Q n (k () p1)"
  shows "sp_returns Q n (bind_run (upd_d d uf) k p)"
proof -
  have "in_body f d (heap p)" using assms(1) by (simp add: state_ok_def)
  then have "in_body f d (set_d d (uf (ds (heap p) ! d)) (heap p))" by (rule body_upd) (simp_all add: assms)
  from state_ok_set_heap [OF assms(1), of "in_body f d", OF this] show ?thesis by (simp add: assms(8))
qed

lemma addObject_file:
  assumes "in_body f d h" "\<not> NameExists (fls h ! f) (dName (ds h ! d))"
  shows "in_file f (addObject f d srcName h)"
proof -
  have "schema_ok (addObject f d srcName h)"
    using assms in_body_d [OF assms(1)] by (intro addObject_ok) (simp_all add: in_body_def in_file_def)
  then show ?thesis
    using assms by (simp add: in_file_def in_body_def addObject_def set_fl_def set_d_def Let_def)
qed

lemma add_checked_returns:
  assumes "state_ok (in_body f d) p" "sp.left p \<le> n"
  shows "sp_returns (in_file f) n (add_checked f d srcName p)"
proof -
  have "in_body f d (heap p)" using assms(1) by (simp add: state_ok_def)
  from state_ok_set_heap [OF assms(1), of "in_file f", OF addObject_file, OF this] assms
  show ?thesis
    by (auto simp: add_checked_def body_file intro!: sp_modify sp_raise [OF assms(1)])
qed

lemma sp_set_name_comment:
  assumes "state_ok (in_body f d) p" "sp.left p \<le> n"
    and "\<And>p1. state_ok (in_body f d) p1 \<Longrightarrow> sp.left p1 = sp.left p \<Longrightarrow> sp_returns Q n (k () p1)"
  shows "sp_returns Q n (bind_run (upd_d d (\<lambda>v. v\<lparr>dName := x\<rparr>)) k p)"
    "sp_returns Q n (bind_run (upd_d d (\<lambda>v. v\<lparr>dComment := cg\<rparr>)) k p)"
  by (rule sp_upd_d [OF assms(1,2)]; simp add: assms(3))+

text \<open>From the name of a descriptor to its closing brace.\<close>

lemma descriptor_k:
  assumes "state_ok (in_body f d) p" "sp.left p \<le> m" "m \<le> n"
    and field: "\<And>p n k. state_ok (in_body f d) p \<Longrightarrow> sp.left p \<le> n \<Longrightarrow>
      (\<And>p1. state_ok (in_body f d) p1 \<Longrightarrow> sp.left p1 < sp.left p \<Longrightarrow> sp_returns (in_body f d) n (k () p1))
      \<Longrightarrow> sp_returns (in_body f d) n (bind_run field (k :: unit \<Rightarrow> unit parse) p)"
    and k: "\<And>p1. state_ok (in_file f) p1 \<Longrightarrow> sp.left p1 < m \<Longrightarrow> sp_returns (in_file f) n (k () p1)"
  shows "sp_returns (in_file f) n (bind_run (sproto_Expect u Token_Identifier) (\<lambda>t.
     bind_run (upd_d d (\<lambda>v. v\<lparr>dName := Value t\<rparr>)) (\<lambda>_.
     bind_run (CommentGroupByLine u line) (\<lambda>cg.
     bind_run (upd_d d (\<lambda>v. v\<lparr>dComment := cg\<rparr>)) (\<lambda>_.
     bind_run (sproto_Expect u Token_CurlyBraceL) (\<lambda>_.
     bind_run (fields_until_brace u field) (\<lambda>_.
     bind_run (sproto_Expect u Token_CurlyBraceR) (\<lambda>_.
     bind_run (add_checked f d srcName) k))))))) p)"
  apply (rule sp_expect [OF assms(1)], use assms(2,3) in simp, simp, erule body_file)
  apply (rule sp_set_name_comment(1), assumption, use assms(2,3) in simp)
  apply (rule sp_comment, assumption, use assms(2,3) in simp, erule body_file)
  apply (rule sp_set_name_comment(2), assumption, use assms(2,3) in simp)
  apply (rule sp_expect, assumption, use assms(2,3) in simp, simp, erule body_file)
  apply (rule sp_bind, rule fields_until_brace_returns [OF field], assumption+, rule order_refl, erule body_file)
   apply (rule sp_expect, assumption, use assms(2,3) in simp, simp, erule body_file)
   apply (rule sp_bind, rule add_checked_returns, assumption, rule order_refl, assumption)
  using assms(2,3) apply (auto intro: k)
  done

lemma parseStruct_k:
  assumes "state_ok (in_file f) p" "sp.left p \<le> n" "TokenID p \<noteq> 0"
    and k: "\<And>p1. state_ok (in_file f) p1 \<Longrightarrow> sp.left p1 < sp.left p \<Longrightarrow> sp_returns (in_file f) n (k () p1)"
  shows "sp_returns (in_file f) n (bind_run (parseStruct u f srcName) k p)"
  unfolding parseStruct_def bind_run_assoc
  apply (rule sp_raw, rule sp_next [OF assms(1,2)], assumption)
  apply (rule sp_new_desc, assumption, use assms(2) in simp, simp)
  apply (rule descriptor_k [where m = "sp.left p" and field = "parseStructField u d" for d, OF _ _ assms(2) parseStructField_k])
  apply (assumption, use assms(3) in simp, assumption+, rule k, assumption+)
  done

lemma parseEnum_k:
  assumes "state_ok (in_file f) p" "sp.left p \<le> n"
    and k: "\<And>p1. state_ok (in_file f) p1 \<Longrightarrow> sp.left p1 < sp.left p \<Longrightarrow> sp_returns (in_file f) n (k () p1)"
  shows "sp_returns (in_file f) n (bind_run (parseEnum u f srcName) k p)"
  unfolding parseEnum_def bind_run_assoc
  apply (rule sp_expect [OF assms(1,2)], simp, assumption)
  apply (rule sp_new_desc, assumption, use assms(2) in simp, simp)
  apply (rule descriptor_k [where m = "sp.left p" and field = "parseEnumField u d" for d, OF _ _ assms(2) parseEnumField_k])
  apply (assumption, simp, assumption+, rule k, assumption+)
  done

lemma parseFileTag_k:
  assumes "state_ok (in_file f) p" "sp.left p \<le> n"
    and k: "\<And>p1. state_ok (in_file f) p1 \<Longrightarrow> sp.left p1 < sp.left p \<Longrightarrow> sp_returns (in_file f) n (k () p1)"
  shows "sp_returns (in_file f) n (bind_run (parseFileTag u f) k p)"
  unfolding parseFileTag_def bind_run_assoc
proof (rule sp_expect [OF assms(1,2)], simp, assumption, rule sp_expect, assumption, use assms(2) in simp, simp, assumption)
  fix p1 p2 :: sproto
  assume p2: "state_ok (in_file f) p2" "sp.left p1 < sp.left p" "sp.left p2 < sp.left p1"
  define h where "h = set_fl f ((fls (heap p2) ! f)\<lparr>fileTag := fileTag (fls (heap p2) ! f)
      @ map TrimSpace (split_space (Value (curr p1)))\<rparr>) (heap p2)"
  have "in_file f (heap p2)" using p2(1) by (simp add: state_ok_def)
  then have "in_file f h" by (simp add: h_def in_file_def set_fl_ok) (simp add: set_fl_def)
  with p2 k [of "p2\<lparr>heap := h\<rparr>"] state_ok_set_heap [OF p2(1), of "in_file f" h]
  show "sp_returns (in_file f) n (bind_run (modify (\<lambda>h. set_fl f ((fls h ! f)
      \<lparr>fileTag := fileTag (fls h ! f) @ map TrimSpace (split_space (Value (curr p1)))\<rparr>) h)) k p2)"
    by (simp flip: h_def)
qed

lemma parse_objects_returns:
  "state_ok (in_file f) p \<Longrightarrow> sp.left p \<le> n \<Longrightarrow> sp_returns (in_file f) n (parse_objects u f srcName p)"
proof (induction "sp.left p" arbitrary: p rule: less_induct)
  case less
  show ?case
    using less
    by (subst parse_objects.simps)
      (auto intro: returns_ret returns_raise intro!: parseStruct_k parseEnum_k parseFileTag_k)
qed

section \<open>A file and a list of files\<close>

lemma parse_start:
  assumes "0 \<notin> set data" "in_file f h"
  shows "\<exists>p. newSProtoParser u srcName h = Ok p \<and> state_ok (in_file f) (p\<lparr>lexer := Start data (lexer p)\<rparr>)"
proof -
  let ?l = "\<lparr>matchers = sproto_ms, running = False, tz = NewTokenizer [] DefaultTokenPos\<rparr>"
  let ?p = "parser.extend (NewParser ?l srcName) (sproto.fields (\<lambda>_. None) h)"
  have "newSProtoParser u srcName h = Ok ?p"
    by (simp add: newSProtoParser_def sproto_lexer_Ok)
  moreover have "state_ok (in_file f) (?p\<lparr>lexer := Start data (lexer ?p)\<rparr>)"
    using assms by (simp add: state_ok_def sp.reading_def comments_ok_def parser.defs sproto.defs NewParser_def
        Start_def NewTokenizer_def token_ok_def zero_token_def)
  ultimately show ?thesis by blast
qed

lemma rawParse_in_file:
  assumes "0 \<notin> set data" "in_file f h"
  shows "\<exists>r h'. rawParse u f data srcName h = Some (r, h') \<and> in_file f h' \<and> (\<forall>e. r \<noteq> Err e)
     \<and> (\<forall>q. r = Panic q \<longrightarrow> q = NilDereference)"
proof -
  obtain p where p: "newSProtoParser u srcName h = (Ok p :: (runes, _) go)"
    "state_ok (in_file f) (p\<lparr>lexer := Start data (lexer p)\<rparr>)" using parse_start [OF assms] by blast
  let ?p = "p\<lparr>lexer := Start data (lexer p)\<rparr>"
  have "sp_returns (in_file f) (sp.left ?p) (bind_run (sproto_NextToken u) (\<lambda>_. parse_objects u f srcName) ?p)"
    by (rule sp_next [OF p(2)]) (auto intro: parse_objects_returns)
  then obtain r p' where "bind_run (sproto_NextToken u) (\<lambda>_. parse_objects u f srcName) ?p = Some (r, p')"
    "in_file f (heap p')" "\<forall>q. r = Panic q \<longrightarrow> q = NilDereference" by (auto simp: returns_def state_ok_def)
  with p(1) show ?thesis by (cases r) (auto simp: rawParse_def)
qed

section \<open>Properties\<close>

text \<open>
  C24: Parsing a text without NUL runes into a file of a well-formed schema always returns: with the
  error or without one, or with a nil dereference, and the schema stays well-formed: every pointer
  leads to an object, the tables by name agree with the lists, no name is used twice in a file or in
  a structure, and a field has a type or is kept for the second pass.
\<close>

theorem rawParse_returns:
  assumes "0 \<notin> set data" "schema_ok h" "f < length (fls h)"
  shows "\<exists>r h'. rawParse u f data srcName h = Some (r, h') \<and> schema_ok h'
     \<and> ((\<exists>err. r = Ok err) \<or> r = Panic NilDereference)"
proof -
  from rawParse_in_file [of data f h u srcName] assms obtain r h' where
    "rawParse u f data srcName h = Some (r, h')" "schema_ok h'" "\<forall>e. r \<noteq> Err e" "\<forall>q. r = Panic q \<longrightarrow> q = NilDereference"
    by (auto simp: in_file_def)
  then show ?thesis by (cases r) auto
qed

lemma rawParse_returns_witness:
  "(\<exists>r h'. rawParse latin 0 (rs ''.a { b 1 : int32 }'') (rs ''x.sp'') (snd (NewFileDescriptor NewFileDescriptorSet)) = Some (r, h')
      \<and> schema_ok h' \<and> ((\<exists>err. r = Ok err) \<or> r = Panic NilDereference))
   \<and> schema_ok (snd (NewFileDescriptor NewFileDescriptorSet))"
proof -
  let ?h = "snd (NewFileDescriptor NewFileDescriptorSet)"
  have "schema_ok ?h"
    using NewFileDescriptor_ok [OF schema_ok_new, of "fst (NewFileDescriptor NewFileDescriptorSet)" ?h] by simp
  moreover have "0 < length (fls ?h)" by (simp add: NewFileDescriptor_def)
  moreover have "0 \<notin> set (rs ''.a { b 1 : int32 }'')" by (simp add: rs_def ch_def)
  ultimately show ?thesis using rawParse_returns by blast
qed






lemma fold_MaxTag:
  "\<forall>a \<in> set l. TagNumber h a \<le> fold (\<lambda>a r. if TagNumber h a > r then TagNumber h a else r) l m"
  "m \<le> fold (\<lambda>a r. if TagNumber h a > r then TagNumber h a else r) l m"
proof (induction l arbitrary: m)
  case (Cons b l)
  { case 1
    show ?case using Cons.IH(1) [of "if TagNumber h b > m then TagNumber h b else m"]
        Cons.IH(2) [of "if TagNumber h b > m then TagNumber h b else m"]
      by (auto split: if_splits)
  next
    case 2
    show ?case using Cons.IH(2) [of "if TagNumber h b > m then TagNumber h b else m"]
      by (auto split: if_splits) }
qed simp_all

lemma MaxTag_ge: "a \<in> set (Fields (ds h ! d)) \<Longrightarrow> TagNumber h a \<le> MaxTag h d"
  and MaxTag_nonneg: "0 \<le> MaxTag h d"
  using fold_MaxTag by (auto simp: MaxTag_def)

text \<open>
  A field without a tag number that is not the first of its structure gets a number that is larger
  than those of all fields before it.
\<close>

theorem auto_tag_fresh:
  assumes "auto_tag d a p = Some (Ok (), p')" "a < length (fds (heap p))" "Struct (fds (heap p) ! a) = d"
    "TagBase (ds (heap p) ! d) = 0" "Fields (ds (heap p) ! d) \<noteq> []" "a \<notin> set (Fields (ds (heap p) ! d))"
  shows "\<forall>b \<in> set (Fields (ds (heap p') ! d)). TagNumber (heap p') b < TagNumber (heap p') a"
proof -
  let ?h = "heap p"
  have h': "heap p' = set_fd a ((fds ?h ! a)\<lparr>AutoTag := MaxTag ?h d + 1\<rparr>) ?h"
    using assms(1,5) by (auto simp: auto_tag_def get_heap_def upd_fd_def modify_def bind_run_def)
  have same: "TagNumber (heap p') b = TagNumber ?h b" if "b \<noteq> a" for b
    using that by (simp add: TagNumber_def Let_def h' set_fd_def)
  have new: "TagNumber (heap p') a = MaxTag ?h d + 1"
    using assms(2-4) MaxTag_nonneg [of ?h d] by (simp add: TagNumber_def h' set_fd_def Let_def)
  show ?thesis
  proof
    fix b assume "b \<in> set (Fields (ds (heap p') ! d))"
    then have "b \<in> set (Fields (ds ?h ! d))" by (simp add: h' set_fd_def)
    with assms(6) have "b \<noteq> a" "TagNumber ?h b \<le> MaxTag ?h d" using MaxTag_ge by auto
    with same [of b] new show "TagNumber (heap p') b < TagNumber (heap p') a" by simp
  qed
qed

text \<open>
  A field with the tag 3, one that gets the tag 4 and one that gives itself the tag 4: the table of tags
  has the second under 0, so the third is not a duplicate, while a field with tag 0 would be one.
\<close>

definition tagged :: "string \<Rightarrow> int \<Rightarrow> int \<Rightarrow> FieldDescriptor" where
  "tagged n t at = \<lparr>fComment = newCommentGroup, fName = rs n, fType = FieldType_Int32, Tag = t, AutoTag = at,
     Repeatd = False, MainIndex = None, Complex = None, Struct = 0\<rparr>"

definition dup_heap :: schema where
  "dup_heap = addField 0 1 (addField 0 0
     ((snd (newDescriptor 0 NewFileDescriptorSet))
        \<lparr>fds := [tagged ''a'' 3 (-1), tagged ''b'' 0 4, tagged ''c'' 4 (-1), tagged ''d'' 0 (-1)]\<rparr>))"

lemma checkField_auto_tags:
  "Fields (ds dup_heap ! 0) = [0, 1] \<and> map (TagNumber dup_heap) [0, 1, 2, 3] = [3, 4, 4, 0]
   \<and> checkField 0 2 (p\<lparr>heap := dup_heap\<rparr>) = Some (Ok (), p\<lparr>heap := dup_heap\<rparr>)
   \<and> checkField 0 3 (p\<lparr>heap := dup_heap\<rparr>)
        = Some (Err (rs ''Duplicate field tag: 0 in ''), p\<lparr>heap := dup_heap\<rparr>)"
proof -
  have "itoa 0 = ''0''" by code_simp
  then show ?thesis
    by (simp add: dup_heap_def addField_def set_d_def newDescriptor_def NewFileDescriptorSet_def tagged_def Let_def
        TagNumber_def checkField_def ret_def raise_def rs_def ch_def)
qed


lemma auto_tag_fresh_witness:
  "\<exists>p p' :: sproto. auto_tag 0 2 p = Some (Ok (), p') \<and> Fields (ds (heap p') ! 0) = [0, 1]
     \<and> TagNumber (heap p') 1 < TagNumber (heap p') 2"
proof -
  define p where "p = parser.extend (NewParser NewLexer []) (sproto.fields (\<lambda>_. None) dup_heap)"
  have h: "heap p = dup_heap" by (simp add: p_def sproto.defs parser.defs)
  define p' where "p' = p\<lparr>heap := set_fd 2 ((fds dup_heap ! 2)\<lparr>AutoTag := MaxTag dup_heap 0 + 1\<rparr>) dup_heap\<rparr>"
  have d: "Fields (ds dup_heap ! 0) = [0, 1]" "TagBase (ds dup_heap ! 0) = 0" "length (fds dup_heap) = 4"
    "Struct (fds dup_heap ! 2) = 0"
    by (simp_all add: dup_heap_def addField_def set_d_def newDescriptor_def NewFileDescriptorSet_def tagged_def Let_def)
  have "auto_tag 0 2 p = Some (Ok (), p')"
    by (simp add: auto_tag_def get_heap_def upd_fd_def modify_def bind_run_def h d p'_def)
  moreover from auto_tag_fresh [OF this] h d have "\<forall>b \<in> {0, 1}. TagNumber (heap p') b < TagNumber (heap p') 2"
    by (simp add: p'_def set_fd_def)
  moreover have "Fields (ds (heap p') ! 0) = [0, 1]" by (simp add: p'_def set_fd_def d)
  ultimately show ?thesis by auto
qed

end
