(* ===== verification/Schema_Text.thy ===== *)
theory Schema_Text
  imports Schema_Grammar
begin

text \<open>
  What the schema parser makes of a text: the tokens of a structure written with the printed lines of
  its fields, and the objects that the grammar builds from them.
\<close>

section \<open>The tokens of a structure\<close>

lemma keyword_at_take:
  "keyword_at u t i w \<Longrightarrow> 0 \<notin> set w \<Longrightarrow> take (length w) (drop i (rest t)) = w"
proof (induction w arbitrary: i)
  case (Cons c w)
  then have "i < length (rest t)" "rest t ! i = c" by (auto simp: Peek_rest split: if_splits)
  with Cons show ?case by (simp flip: Cons_nth_drop_Suc)
qed simp

lemma refuses_Keyword_word:
  assumes "0 \<notin> set k" "take (length k) (w @ r) \<noteq> k"
  shows "refuses u (KeywordMatcher i k) (w @ r)"
  unfolding refuses_def
proof (intro allI impI)
  fix t assume "rest t = w @ r"
  with assms keyword_at_take [of u t 0 k] show "Match u (KeywordMatcher i k) t = no_match t"
    by (auto simp: Match_Keyword_def)
qed

definition no_keyword :: "runes \<Rightarrow> bool" where
  "no_keyword w \<longleftrightarrow> (\<forall>k \<in> {rs ''enum'', rs ''message'', rs ''filetag''}. take (length k) w \<noteq> k)"

text \<open>The words of a printed structure end with a blank, a line end, a sign or the text.\<close>

definition ends_name :: "runes \<Rightarrow> bool" where
  "ends_name r = (case r of [] \<Rightarrow> True | c # _ \<Rightarrow> c = 0x20 \<or> c = 0x0A)"

lemma ends_name_stops:
  assumes "ends_name r"
  shows "stops (ident_part u) r" "stops (\<lambda>d. IsDigit u d \<or> d = ch (CHR ''.'')) r"
  using assms by (auto simp: ends_name_def stops_def ident_part_def ch_def IsLetter_def IsDigit_def
      split: list.splits)

lemma ascii_keyword_prefix:
  assumes "take (length k) (w @ r) = k" "0x20 \<notin> set k" "0x0A \<notin> set k" "ends_name r"
  shows "take (length k) w = k"
proof (cases "length k \<le> length w")
  case False
  then obtain c r' where r: "r = c # r'" using assms(1)
    by (cases r) (auto dest: arg_cong [where f = length])
  have "c \<in> set (take (length k) (w @ r))"
    using False r by (cases "length k - length w") auto
  with assms r show ?thesis by (auto simp: ends_name_def)
qed (use assms in simp)

lemma refuses_keywords:
  assumes "no_keyword w" "ends_name r"
  shows "refuses u (KeywordMatcher Token_Enum (rs ''enum'')) (w @ r)"
    "refuses u (KeywordMatcher Token_Message (rs ''message'')) (w @ r)"
    "refuses u (KeywordMatcher Token_FileTag (rs ''filetag'')) (w @ r)"
proof -
  have "refuses u (KeywordMatcher i k) (w @ r)"
    if "k \<in> {rs ''enum'', rs ''message'', rs ''filetag''}" for i k
  proof (rule refuses_Keyword_word)
    show "0 \<notin> set k" using that by (auto simp: rs_def ch_def)
    have "0x20 \<notin> set k" "0x0A \<notin> set k" using that by (auto simp: rs_def ch_def)
    from ascii_keyword_prefix [OF _ this assms(2), of w] show "take (length k) (w @ r) \<noteq> k"
      using assms(1) that by (auto simp: no_keyword_def)
  qed
  then show "refuses u (KeywordMatcher Token_Enum (rs ''enum'')) (w @ r)"
    "refuses u (KeywordMatcher Token_Message (rs ''message'')) (w @ r)"
    "refuses u (KeywordMatcher Token_FileTag (rs ''filetag'')) (w @ r)" by simp_all
qed

lemma sp_lexes_ident:
  assumes "ident_word u w" "no_keyword w" "ends_name r"
  shows "lexes u sproto_ms (w @ r) Token_Identifier w r"
proof -
  obtain c cs where w: "w = c # cs" "ident_start u c" "\<not> IsDigit u c" "list_all (ident_part u) cs"
    using assms(1) by (auto simp: ident_word_def split: list.splits)
  let ?m = "IdentifierMatcher Token_Identifier"
  have "lexes u sproto_ms (w @ r) (ID ?m) w r"
  proof (rule lexes_accepts [where before = "take 19 sproto_ms" and after = "drop 20 sproto_ms"])
    show "sproto_ms = take 19 sproto_ms @ (?m, False) # drop 20 sproto_ms" by (simp add: sproto_ms_def)
    have "list_all (\<lambda>mm. refuses u (fst mm) (w @ r)) (take 16 sproto_ms)"
      using w by (auto simp: sproto_ms_def rs_def isWhiteSpace_def ident_start_def ch_def IsLetter_def
          intro!: refuses_simps)
    then show "list_all (\<lambda>mm. refuses u (fst mm) (w @ r)) (take 19 sproto_ms)"
      using refuses_keywords [OF assms(2,3)] by (simp add: sproto_ms_def)
    show "accepts u ?m (w @ r) w r"
      using w assms(3) by (auto intro!: accepts_identifier goes_all ends_name_stops)
  qed (simp add: w)
  then show ?thesis by simp
qed

lemma sp_lexes_int:
  assumes "int_word u w" "ends_name r"
  shows "lexes u sproto_ms (w @ r) Token_Numeral w r"
proof -
  obtain c cs where w: "w = c # cs" "IsDigit u c \<or> c = ch (CHR ''-'')" "list_all (IsDigit u) cs"
    using assms(1) by (auto simp: int_word_def split: list.splits)
  let ?m = "NumeralMatcher Token_Numeral True"
  have "lexes u sproto_ms (w @ r) (ID ?m) w r"
  proof (rule lexes_accepts [where before = "[]" and after = "drop 1 sproto_ms"])
    show "sproto_ms = [] @ (?m, False) # drop 1 sproto_ms" by (simp add: sproto_ms_def)
    show "accepts u ?m (w @ r) w r"
      using w assms(2) by (auto intro!: accepts_integer goes_all ends_name_stops)
  qed (simp_all add: w)
  then show ?thesis by simp
qed

lemma sp_lexes_sign:
  assumes "sproto_ms = take n sproto_ms @ (SignMatcher i [c], False) # drop (Suc n) sproto_ms" "isSign u c"
    "list_all (\<lambda>mm. refuses u (fst mm) (c # r)) (take n sproto_ms)"
  shows "lexes u sproto_ms (c # r) i [c] r"
  using lexes_accepts [OF assms(1, 3) accepts_sign [OF assms(2)]] by simp

lemma sp_lexes_signs:
  "lexes u sproto_ms (ch (CHR ''{'') # r) Token_CurlyBraceL (rs ''{'') r"
  "lexes u sproto_ms (ch (CHR ''}'') # r) Token_CurlyBraceR (rs ''}'') r"
  "lexes u sproto_ms (ch (CHR ''['') # r) Token_BracketL (rs ''['') r"
  "lexes u sproto_ms (ch (CHR '']'') # r) Token_BracketR (rs '']'') r"
  "lexes u sproto_ms (ch (CHR ''.'') # r) Token_Dot (rs ''.'') r"
  "lexes u sproto_ms (ch (CHR '':'') # r) Token_Colon (rs '':'') r"
proof -
  note refuses = refuses_simps isWhiteSpace_def ch_def IsDigit_def rs_def sproto_ms_def
  note sign = isSign_def ch_def IsLetter_def IsDigit_def
  have rs1: "rs ''{'' = [ch (CHR ''{'')]" "rs ''}'' = [ch (CHR ''}'')]" "rs ''['' = [ch (CHR ''['')]"
    "rs '']'' = [ch (CHR '']'')]" "rs ''.'' = [ch (CHR ''.'')]" "rs '':'' = [ch (CHR '':'')]"
    by (simp_all add: rs_def)
  show "lexes u sproto_ms (ch (CHR ''{'') # r) Token_CurlyBraceL (rs ''{'') r"
    unfolding rs1 by (rule sp_lexes_sign [where n = 6]) (simp_all add: refuses sign)
  show "lexes u sproto_ms (ch (CHR ''}'') # r) Token_CurlyBraceR (rs ''}'') r"
    unfolding rs1 by (rule sp_lexes_sign [where n = 7]) (simp_all add: refuses sign)
  show "lexes u sproto_ms (ch (CHR ''['') # r) Token_BracketL (rs ''['') r"
    unfolding rs1 by (rule sp_lexes_sign [where n = 10]) (simp_all add: refuses sign)
  show "lexes u sproto_ms (ch (CHR '']'') # r) Token_BracketR (rs '']'') r"
    unfolding rs1 by (rule sp_lexes_sign [where n = 11]) (simp_all add: refuses sign)
  show "lexes u sproto_ms (ch (CHR ''.'') # r) Token_Dot (rs ''.'') r"
    unfolding rs1 by (rule sp_lexes_sign [where n = 13]) (simp_all add: refuses sign)
  show "lexes u sproto_ms (ch (CHR '':'') # r) Token_Colon (rs '':'') r"
    unfolding rs1 by (rule sp_lexes_sign [where n = 15]) (simp_all add: refuses sign)
qed

lemma accepts_ws:
  assumes "isWhiteSpace c" "stops isWhiteSpace r"
  shows "accepts u (WhiteSpaceMatcher i) (c # r) (rune_string c) r"
  unfolding accepts_def
proof (intro allI impI)
  fix t assume t: "rest t = c # r"
  have "\<not> isWhiteSpace (Peek t 1)"
    using assms t by (auto simp: Peek_rest stops_def isWhiteSpace_def split: list.splits)
  moreover have "Peek t 0 = c" using t by (simp add: Peek_rest)
  ultimately have "whitespace_loop t 0 0 = (1, c)"
    using assms(1) by (simp add: whitespace_loop.simps [of t 0] whitespace_loop.simps [of t "Suc 0"])
  with t show "\<exists>tk t'. Match u (WhiteSpaceMatcher i) t = (Ok tk, t')
      \<and> tmatcher tk = Some (WhiteSpaceMatcher i) \<and> tvalue tk = rune_string c \<and> rest t' = r"
    by (simp add: Match_WhiteSpace_def found_def)
qed

lemma accepts_newline:
  assumes "stops (\<lambda>c. c = 0x0A \<or> c = 0x0D) r"
  shows "accepts u (LineEndMatcher i) (0x0A # r) [0x0D] r"
  unfolding accepts_def
proof (intro allI impI)
  fix t assume t: "rest t = 0x0A # r"
  have "Peek (increaseLine t) 1 \<noteq> 0x0A \<and> Peek (increaseLine t) 1 \<noteq> 0x0D"
    using assms t by (auto simp: Peek_rest stops_def split: list.splits)
  moreover have "Peek t 0 = 0x0A" using t by (simp add: Peek_rest)
  ultimately have "lineend_loop t 0 = (increaseLine t, 1)"
    by (simp add: lineend_loop.simps [of t 0] lineend_loop.simps [of "increaseLine t" "Suc 0"])
  with t show "\<exists>tk t'. Match u (LineEndMatcher i) t = (Ok tk, t')
      \<and> tmatcher tk = Some (LineEndMatcher i) \<and> tvalue tk = [0x0D] \<and> rest t' = r"
    by (simp add: Match_LineEnd_def found_def)
qed

lemma sp_lexes_ws:
  assumes "isWhiteSpace c" "stops isWhiteSpace r" "lexes u sproto_ms r i v r'"
  shows "lexes u sproto_ms (c # r) i v r'"
proof (rule lexes_ignored [where before = "take 2 sproto_ms" and after = "drop 3 sproto_ms"
      and m = "WhiteSpaceMatcher Token_WhiteSpace", OF _ _ accepts_ws [OF assms(1,2)] _ assms(3)])
  show "sproto_ms = take 2 sproto_ms @ (WhiteSpaceMatcher Token_WhiteSpace, True) # drop 3 sproto_ms"
    by (simp add: sproto_ms_def)
  show "list_all (\<lambda>mm. refuses u (fst mm) (c # r)) (take 2 sproto_ms)"
    using assms(1) by (auto simp: sproto_ms_def refuses_simps ch_def IsDigit_def isWhiteSpace_def)
qed simp

lemma sp_lexes_newline:
  assumes "stops (\<lambda>c. c = 0x0A \<or> c = 0x0D) r" "lexes u sproto_ms r i v r'"
  shows "lexes u sproto_ms (0x0A # r) i v r'"
proof (rule lexes_ignored [where before = "take 3 sproto_ms" and after = "drop 4 sproto_ms"
      and m = "LineEndMatcher Token_LineEnd", OF _ _ accepts_newline [OF assms(1)] _ assms(2)])
  show "sproto_ms = take 3 sproto_ms @ (LineEndMatcher Token_LineEnd, True) # drop 4 sproto_ms"
    by (simp add: sproto_ms_def)
  show "list_all (\<lambda>mm. refuses u (fst mm) (0x0A # r)) (take 3 sproto_ms)"
    by (auto simp: sproto_ms_def refuses_simps ch_def IsDigit_def isWhiteSpace_def)
qed simp

lemma tokens_skip:
  assumes "tokens u ms r ts" "\<And>i v r'. lexes u ms r i v r' \<Longrightarrow> lexes u ms r0 i v r'"
  shows "tokens u ms r0 ts"
  using assms(1)
proof cases
  case (tokens_end r')
  then show ?thesis by (auto intro: tokens.tokens_end assms(2))
next
  case (tokens_more i v r' ts')
  then show ?thesis by (auto intro: tokens.tokens_more assms(2))
qed

lemma sp_tokens_skip:
  "isWhiteSpace c \<Longrightarrow> stops isWhiteSpace r \<Longrightarrow> tokens u sproto_ms r ts \<Longrightarrow> tokens u sproto_ms (c # r) ts"
  "stops (\<lambda>c. c = 0x0A \<or> c = 0x0D) r \<Longrightarrow> tokens u sproto_ms r ts \<Longrightarrow> tokens u sproto_ms (0x0A # r) ts"
  by (erule tokens_skip, erule (2) sp_lexes_ws) (erule tokens_skip, erule (1) sp_lexes_newline)

lemma sp_tokens_ident:
  "ident_word u w \<Longrightarrow> no_keyword w \<Longrightarrow> ends_name r \<Longrightarrow> tokens u sproto_ms r ts
    \<Longrightarrow> tokens u sproto_ms (w @ r) ((Token_Identifier, w) # ts)"
  by (rule tokens_more [OF sp_lexes_ident]) simp_all

lemma sp_tokens_int:
  "int_word u w \<Longrightarrow> ends_name r \<Longrightarrow> tokens u sproto_ms r ts \<Longrightarrow> tokens u sproto_ms (w @ r) ((Token_Numeral, w) # ts)"
  by (rule tokens_more [OF sp_lexes_int]) simp_all

lemma sp_tokens_signs:
  assumes "tokens u sproto_ms r ts"
  shows "tokens u sproto_ms (ch (CHR ''{'') # r) ((Token_CurlyBraceL, rs ''{'') # ts)"
    "tokens u sproto_ms (ch (CHR ''}'') # r) ((Token_CurlyBraceR, rs ''}'') # ts)"
    "tokens u sproto_ms (ch (CHR ''['') # r) ((Token_BracketL, rs ''['') # ts)"
    "tokens u sproto_ms (ch (CHR '']'') # r) ((Token_BracketR, rs '']'') # ts)"
    "tokens u sproto_ms (ch (CHR ''.'') # r) ((Token_Dot, rs ''.'') # ts)"
    "tokens u sproto_ms (ch (CHR '':'') # r) ((Token_Colon, rs '':'') # ts)"
  by (rule tokens_more, rule sp_lexes_signs, simp, rule assms)+

text \<open>A field that is printed so that it can be read again: a name that is no keyword, a builtin type.\<close>

definition builtin :: "FieldType \<Rightarrow> bool" where
  "builtin t \<longleftrightarrow> t \<notin> {FieldType_None, FieldType_Struct, FieldType_Enum}"

definition plain_field :: "unicode_tables \<Rightarrow> schema \<Rightarrow> nat \<Rightarrow> bool" where
  "plain_field u h a \<longleftrightarrow>
     (let fd = fds h ! a in ident_word u (fName fd) \<and> no_keyword (fName fd) \<and> builtin (fType fd)
        \<and> MainIndex fd = None \<and> - (2 ^ 31) \<le> TagNumber h a \<and> TagNumber h a < 2 ^ 31)"

definition printed_type :: "FieldType \<Rightarrow> runes" where
  "printed_type t = (if t = FieldType_Bool then rs ''bool'' else FieldType_name t)"

lemma printed_type_word:
  assumes "builtin t"
  shows "ident_word u (printed_type t) \<and> no_keyword (printed_type t) \<and> ParseFieldType (printed_type t) = t"
  using assms
  by (cases t) (simp_all add: builtin_def printed_type_def FieldType_name_def strByFieldtype_def fieldtypeByStr_def
      ParseFieldType_def ident_word_def no_keyword_def rs_def ch_def ident_start_def ident_part_def
      IsLetter_def IsDigit_def)


lemma IsDigit_ch: "is_digit c \<Longrightarrow> IsDigit u (ch c)"
  by (simp add: IsDigit_def is_digit_def word_le_nat_alt unat_ch)

lemma int_word_itoa: "int_word u (rs (itoa v))"
proof -
  have digits: "\<forall>c \<in> set (show_nat n). IsDigit u (ch c)" for n
    by (auto intro: IsDigit_ch show_nat_digits)
  show ?thesis
  proof (cases "v < 0")
    case True
    with digits show ?thesis by (simp add: itoa_def int_word_def rs_def list_all_iff)
  next
    case False
    obtain c cs where "show_nat (nat v) = c # cs" by (rule show_nat_Cons)
    with digits [of "nat v"] False show ?thesis by (simp add: itoa_def int_word_def rs_def list_all_iff)
  qed
qed

lemma ascii_itoa: "ascii_text (rs (itoa v)) = Some (itoa v)"
proof -
  have "(of_char c :: nat) < 128" if "c \<in> set (itoa v)" for c
    using that show_nat_digits by (fastforce simp: itoa_def is_digit_def split: if_splits)
  then show ?thesis
    by (auto simp: ascii_text_def rs_def word_less_nat_alt unat_ch comp_def map_idI)
qed

lemma ToInt_itoa:
  assumes "Value t = rs (itoa v)" "MatcherID t \<noteq> 0" "- (2 ^ 31) \<le> v" "v < 2 ^ 31"
  shows "ToInt t = v"
proof -
  have "tvalue t = rs (itoa v)" using assms(1,2) by (auto simp: Value_def MatcherID_def split: option.splits)
  then show ?thesis
    using parse_int_itoa [of 32 v] assms(3,4) by (simp add: ToInt_def ParseInt10_def ascii_itoa)
qed

text \<open>An array is written with brackets, or with a star as in standard sproto; the two also differ in the name of booleans.\<close>

definition array_toks :: "bool \<Rightarrow> (int \<times> runes) list" where
  "array_toks star = (if star then [(Token_Star, rs ''*'')] else [(Token_BracketL, rs ''[''), (Token_BracketR, rs '']'')])"

definition type_word :: "bool \<Rightarrow> FieldType \<Rightarrow> runes" where
  "type_word star t = (if star then FieldType_name t else printed_type t)"

lemma type_word:
  assumes "builtin t"
  shows "ident_word u (type_word star t) \<and> no_keyword (type_word star t) \<and> ParseFieldType (type_word star t) = t"
proof -
  have "ident_word u (FieldType_name t) \<and> no_keyword (FieldType_name t) \<and> ParseFieldType (FieldType_name t) = t"
    using assms
    by (cases t) (simp_all add: builtin_def FieldType_name_def strByFieldtype_def fieldtypeByStr_def
      ParseFieldType_def ident_word_def no_keyword_def rs_def ch_def ident_start_def ident_part_def
      IsLetter_def IsDigit_def)
  with printed_type_word [OF assms] show ?thesis by (simp add: type_word_def)
qed

definition field_toks :: "bool \<Rightarrow> schema \<Rightarrow> nat \<Rightarrow> (int \<times> runes) list" where
  "field_toks star h a =
     (let fd = fds h ! a in
      [(Token_Identifier, fName fd), (Token_Numeral, rs (itoa (TagNumber h a))), (Token_Colon, rs '':'')]
      @ (if Repeatd fd then array_toks star else [])
      @ [(Token_Identifier, type_word star (fType fd))])"

lemma ident_stops:
  "ident_word u w \<Longrightarrow> stops isWhiteSpace (w @ r)" "ident_word u w \<Longrightarrow> stops (\<lambda>c. c = 0x0A \<or> c = 0x0D) (w @ r)"
  "int_word u w \<Longrightarrow> stops isWhiteSpace (w @ r)"
  by (auto simp: ident_word_def int_word_def stops_def isWhiteSpace_def ident_start_def
      IsLetter_def IsDigit_def ch_def split: list.splits)

lemma String_plain:
  assumes "plain_field u h a"
  shows "FieldDescriptor_String h a = Ok (fName (fds h ! a) @ rs '' '' @ rs (itoa (TagNumber h a)) @ rs '' : ''
     @ (if Repeatd (fds h ! a) then rs ''[]'' else []) @ printed_type (fType (fds h ! a)))"
  using assms by (simp add: plain_field_def Let_def builtin_def FieldDescriptor_String_def typeStr_def TypeName_def
      printed_type_def)

lemma tokens_field:
  assumes "plain_field u h a" "FieldDescriptor_String h a = Ok s" "tokens u sproto_ms r ts"
    "stops (\<lambda>c. c = 0x0A \<or> c = 0x0D) r"
  shows "tokens u sproto_ms (0x09 # s @ 0x0A # r) (field_toks False h a @ ts)"
proof -
  let ?fd = "fds h ! a"
  have fd: "ident_word u (fName ?fd)" "no_keyword (fName ?fd)" "builtin (fType ?fd)"
    using assms(1) by (simp_all add: plain_field_def Let_def)
  let ?ty = "printed_type (fType ?fd) @ 0x0A # r"
  let ?ty' = "(if Repeatd ?fd then rs ''[]'' else []) @ ?ty"
  have ty: "tokens u sproto_ms ?ty ((Token_Identifier, printed_type (fType ?fd)) # ts)"
    using printed_type_word [OF fd(3)] assms(3,4)
    by (intro sp_tokens_ident sp_tokens_skip(2)) (auto simp: ends_name_def)
  have "tokens u sproto_ms ?ty' ((if Repeatd ?fd then [(Token_BracketL, rs ''[''), (Token_BracketR, rs '']'')] else [])
      @ (Token_Identifier, printed_type (fType ?fd)) # ts)"
    using sp_tokens_signs(3) [OF sp_tokens_signs(4) [OF ty]] ty by (simp add: rs_def)
  moreover have "stops isWhiteSpace ?ty'"
    using ident_stops(1) printed_type_word [OF fd(3)] by (auto simp: rs_def ch_def stops_def isWhiteSpace_def)
  ultimately have "tokens u sproto_ms (0x20 # ch (CHR '':'') # 0x20 # ?ty') ((Token_Colon, rs '':'') #
      (if Repeatd ?fd then [(Token_BracketL, rs ''[''), (Token_BracketR, rs '']'')] else [])
      @ (Token_Identifier, printed_type (fType ?fd)) # ts)" (is "tokens _ _ ?c ?cts")
    by (intro sp_tokens_skip(1) sp_tokens_signs(6)) (auto simp: isWhiteSpace_def stops_def ch_def)
  from sp_tokens_int [OF int_word_itoa [of u "TagNumber h a"] _ this]
  have "tokens u sproto_ms (0x20 # rs (itoa (TagNumber h a)) @ ?c) ((Token_Numeral, rs (itoa (TagNumber h a))) # ?cts)"
    by (intro sp_tokens_skip(1) ident_stops(3) [OF int_word_itoa [of u]]) (auto simp: isWhiteSpace_def ends_name_def)
  from sp_tokens_skip(1) [OF _ ident_stops(1) [OF fd(1)] sp_tokens_ident [OF fd(1,2) _ this], of "0x09"]
  moreover have "s = fName ?fd @ rs '' '' @ rs (itoa (TagNumber h a)) @ rs '' : ''
     @ (if Repeatd ?fd then rs ''[]'' else []) @ printed_type (fType ?fd)"
    using assms(2) by (simp add: String_plain [OF assms(1)])
  ultimately show ?thesis
    unfolding field_toks_def array_toks_def type_word_def if_False
    by (simp add: Let_def rs_def isWhiteSpace_def ends_name_def ch_def)
qed

section \<open>The objects that the grammar builds\<close>

text \<open>The parser is at the tokens \<open>ts\<close>, has seen no comments and has the heap \<open>h\<close>.\<close>

definition at_tokens :: "unicode_tables \<Rightarrow> sproto \<Rightarrow> (int \<times> runes) list \<Rightarrow> schema \<Rightarrow> bool" where
  "at_tokens u p ts h \<longleftrightarrow> stream u sproto_ms p ts \<and> commentsByLine p = (\<lambda>_. None) \<and> heap p = h"

definition no_comment :: "(int \<times> runes) list \<Rightarrow> bool" where
  "no_comment ts \<longleftrightarrow> list_all (\<lambda>x. fst x \<noteq> Token_UnixComment \<and> fst x \<noteq> Token_CStyleComment) ts"

lemma no_comment_array [simp]: "list_all (\<lambda>x. fst x \<noteq> Token_UnixComment \<and> fst x \<noteq> Token_CStyleComment) (array_toks star)"
  by (simp add: array_toks_def)

lemma at_tokens_ID: "at_tokens u p ((i, v) # ts) h \<Longrightarrow> TokenID p = i \<and> TokenValue p = v \<and> i \<noteq> 0"
  by (simp add: at_tokens_def stream_def)

lemma at_tokens_heap [simp]: "at_tokens u (p\<lparr>heap := g\<rparr>) ts h \<longleftrightarrow> at_tokens u p ts (heap p) \<and> g = h"
  by (auto simp: at_tokens_def stream_def ahead_def TokenID_def TokenValue_def split: list.splits)

lemma next_at:
  assumes "at_tokens u p (x # ts) h" "no_comment ts"
  obtains p' where "sproto_NextToken u p = Some (Ok (), p')" "at_tokens u p' ts h"
proof -
  have "stream u sproto_ms p (x # ts)" "sproto_ms \<noteq> []"
    using assms(1) by (simp_all add: at_tokens_def sproto_ms_def)
  from NextToken_stream [OF this] obtain p' where p': "NextToken u p = Some (Ok (), p')" "stream u sproto_ms p' ts"
    "parser.more p' = parser.more p" by auto
  have "TokenID p' \<noteq> Token_UnixComment \<and> TokenID p' \<noteq> Token_CStyleComment"
    using stream_ID [OF p'(2)] assms(2) by (cases ts) (auto simp: no_comment_def)
  then have "sproto_NextToken u p = Some (Ok (), p')"
    by (simp add: sproto_NextToken.simps [of u p] bind_run_Ok p'(1) ret_def)
  moreover have "at_tokens u p' ts h"
    using assms(1) p'(2) more_eq [OF p'(3)] by (simp add: at_tokens_def)
  ultimately show ?thesis by (rule that)
qed

lemma expect_at:
  assumes "at_tokens u p ((i, v) # ts) h" "no_comment ts"
  obtains p' where "sproto_Expect u i p = Some (Ok (curr p), p')" "at_tokens u p' ts h"
    "Value (curr p) = v" "MatcherID (curr p) \<noteq> 0"
proof -
  from next_at [OF assms] obtain p' where "sproto_NextToken u p = Some (Ok (), p')" "at_tokens u p' ts h" by blast
  moreover from at_tokens_ID [OF assms(1)] have "TokenID p = i" "TokenValue p = v" "i \<noteq> 0" by simp_all
  ultimately show ?thesis
    by (intro that [of p']) (simp_all add: sproto_Expect_def bind_run_Ok ret_def TokenValue_def TokenID_def)
qed

lemma CommentGroup_at:
  assumes "at_tokens u p ts h"
  shows "CommentGroupByLine u line p = Some (Ok newCommentGroup, p)"
proof -
  have m: "commentsByLine p = (\<lambda>_. None)" using assms by (simp add: at_tokens_def)
  let ?l = "[gap_above (\<lambda>_. None) (line - 1) .. line - 1]"
  have "?l = [] \<or> (\<exists>i. ?l = [i])" by (cases "line - 1 < 0"; cases "line - 1 < 1") (auto simp: gap_above.simps upto.simps)
  then show ?thesis
    by (auto simp: CommentGroupByLine_def Let_def m addLineComment_def newCommentGroup_def)
qed

text \<open>The field that a printed field is parsed to, and the heap after it.\<close>

definition parsed_field :: "schema \<Rightarrow> nat \<Rightarrow> nat \<Rightarrow> FieldDescriptor" where
  "parsed_field h a d =
     \<lparr>fComment = newCommentGroup, fName = fName (fds h ! a), fType = fType (fds h ! a), Tag = TagNumber h a,
      AutoTag = -1, Repeatd = Repeatd (fds h ! a), MainIndex = None, Complex = None, Struct = d\<rparr>"

definition put_field :: "nat \<Rightarrow> FieldDescriptor \<Rightarrow> schema \<Rightarrow> schema" where
  "put_field d v h = addField d (length (fds h)) (h\<lparr>fds := fds h @ [v]\<rparr>)"

definition with_fd :: "schema \<Rightarrow> FieldDescriptor \<Rightarrow> schema" where
  "with_fd h v = h\<lparr>fds := fds h @ [v]\<rparr>"

lemma with_fd_simps [simp]:
  "fds (with_fd h v) ! length (fds h) = v" "ds (with_fd h v) = ds h" "fls (with_fd h v) = fls h"
  "set_fd (length (fds h)) w (with_fd h v) = with_fd h w"
  by (simp_all add: with_fd_def set_fd_def)

lemma field_name_at:
  assumes "at_tokens u p ((Token_Identifier, n) # ts) (with_fd h v)" "no_comment ts"
    "map_of (FieldByName (ds h ! d)) n = None"
  shows "\<exists>p'. field_name u d (length (fds h)) p = Some (Ok (), p') \<and> at_tokens u p' ts (with_fd h (v\<lparr>fName := n\<rparr>))"
proof -
  from expect_at [OF assms(1,2)] obtain p' where p': "sproto_Expect u Token_Identifier p = Some (Ok (curr p), p')"
    "at_tokens u p' ts (with_fd h v)" "Value (curr p) = n" by blast
  then have "heap p' = with_fd h v" by (simp add: at_tokens_def)
  with p' assms(3) show ?thesis by (simp add: field_name_def bind_run_Ok p'(1) ret_def)
qed

lemma tag_at:
  assumes "at_tokens u p ((Token_Numeral, rs (itoa t)) # ts) (with_fd h v)" "no_comment ts"
    "- (2 ^ 31) \<le> t" "t < 2 ^ 31"
  shows "\<exists>p'. (if TokenID p = Token_Numeral
       then bind_run (sproto_Expect u Token_Numeral) (\<lambda>t. upd_fd (length (fds h)) (\<lambda>fd. fd\<lparr>Tag := ToInt t\<rparr>)) p
       else auto_tag d (length (fds h)) p) = Some (Ok (), p') \<and> at_tokens u p' ts (with_fd h (v\<lparr>Tag := t\<rparr>))"
proof -
  from expect_at [OF assms(1,2)] obtain p' where p': "sproto_Expect u Token_Numeral p = Some (Ok (curr p), p')"
    "at_tokens u p' ts (with_fd h v)" "Value (curr p) = rs (itoa t)" "MatcherID (curr p) \<noteq> 0" by blast
  then have "heap p' = with_fd h v" "ToInt (curr p) = t"
    using ToInt_itoa [OF _ _ assms(3,4)] by (simp_all add: at_tokens_def)
  with p' at_tokens_ID [OF assms(1)] show ?thesis
    by (simp add: bind_run_Ok p'(1) upd_fd_def modify_def)
qed

lemma colon_at:
  assumes "at_tokens u p ((Token_Colon, c) # ts) h" "no_comment ts"
  shows "\<exists>p'. (if TokenID p = Token_Colon then sproto_NextToken u p else ret () p) = Some (Ok (), p') \<and> at_tokens u p' ts h"
  using next_at [OF assms] at_tokens_ID [OF assms(1)] by auto

lemma typeName_at:
  assumes "at_tokens u p ((if r then array_toks star else [])
      @ (Token_Identifier, n) # ts) (with_fd h v)" "no_comment ts" "\<not> Repeatd v"
  shows "\<exists>p'. parse_typeName u (length (fds h)) p = Some (Ok n, p') \<and> at_tokens u p' ts (with_fd h (v\<lparr>Repeatd := r\<rparr>))"
proof (cases r)
  case r: True
  obtain p1 where p1: "at_tokens u p1 ((Token_Identifier, n) # ts) (with_fd h v)"
    and k: "parse_typeName u (length (fds h)) p = bind_run (upd_fd (length (fds h)) (\<lambda>fd. fd\<lparr>Repeatd := True\<rparr>)) (\<lambda>_.
        bind_run (sproto_Expect u Token_Identifier) (\<lambda>t. ret (Value t))) p1"
  proof (cases star)
    case True
    with assms r have p: "at_tokens u p ((Token_Star, rs ''*'') # (Token_Identifier, n) # ts) (with_fd h v)"
      and c: "no_comment ((Token_Identifier, n) # ts)" by (simp_all add: no_comment_def array_toks_def)
    from next_at [OF p c] obtain p0 where p0: "sproto_NextToken u p = Some (Ok (), p0)"
      "at_tokens u p0 ((Token_Identifier, n) # ts) (with_fd h v)" by blast
    then show ?thesis using at_tokens_ID [OF p] by (intro that [OF p0(2)]) (simp add: parse_typeName_def bind_run_Ok)
  next
    case False
    with assms r have p: "at_tokens u p ((Token_BracketL, rs ''['') # (Token_BracketR, rs '']'') # (Token_Identifier, n) # ts) (with_fd h v)"
      and c: "no_comment ((Token_BracketR, rs '']'') # (Token_Identifier, n) # ts)" "no_comment ((Token_Identifier, n) # ts)"
      by (simp_all add: no_comment_def array_toks_def)
    from next_at [OF p c(1)] obtain p0 where p0: "sproto_NextToken u p = Some (Ok (), p0)"
      "at_tokens u p0 ((Token_BracketR, rs '']'') # (Token_Identifier, n) # ts) (with_fd h v)" by blast
    from expect_at [OF p0(2) c(2)] obtain p1 where p1: "sproto_Expect u Token_BracketR p0 = Some (Ok (curr p0), p1)"
      "at_tokens u p1 ((Token_Identifier, n) # ts) (with_fd h v)" by blast
    then show ?thesis using at_tokens_ID [OF p] p0(1) by (intro that [OF p1(2)]) (simp add: parse_typeName_def bind_run_Ok)
  qed
  let ?p1 = "p1\<lparr>heap := with_fd h (v\<lparr>Repeatd := True\<rparr>)\<rparr>"
  have "at_tokens u ?p1 ((Token_Identifier, n) # ts) (with_fd h (v\<lparr>Repeatd := True\<rparr>))" "heap p1 = with_fd h v"
    using p1 by (simp_all add: at_tokens_def stream_def ahead_def TokenID_def TokenValue_def)
  from expect_at [OF this(1) assms(2)] this(2) obtain p2 where "sproto_Expect u Token_Identifier ?p1 = Some (Ok (curr ?p1), p2)"
    "at_tokens u p2 ts (with_fd h (v\<lparr>Repeatd := True\<rparr>))" "Value (curr ?p1) = n" "heap p1 = with_fd h v" by blast
  with r show ?thesis by (simp add: k bind_run_Ok ret_def)
next
  case False
  with assms have p: "at_tokens u p ((Token_Identifier, n) # ts) (with_fd h v)" by simp
  from next_at [OF p assms(2)] obtain p1 where p1: "sproto_NextToken u p = Some (Ok (), p1)" "at_tokens u p1 ts (with_fd h v)" .
  moreover have "v\<lparr>Repeatd := False\<rparr> = v" using assms(3) by simp
  ultimately show ?thesis using at_tokens_ID [OF p] False
    by (simp add: parse_typeName_def bind_run_Ok p1(1) ret_def)
qed

lemma field_comment_at:
  assumes "at_tokens u p ts (with_fd h v)"
  shows "\<exists>p'. field_comment u t (length (fds h)) p = Some (Ok (), p') \<and> at_tokens u p' ts (with_fd h (v\<lparr>fComment := newCommentGroup\<rparr>))"
proof -
  have "heap p = with_fd h v" using assms by (simp add: at_tokens_def)
  with assms show ?thesis
    by (simp add: field_comment_def bind_run_Ok CommentGroup_at [OF assms] upd_fd_def modify_def)
qed

lemma first_pass_at:
  assumes "at_tokens u p ts (with_fd h v)" "ParseFieldType n = t" "t \<noteq> FieldType_None"
  shows "\<exists>p'. first_pass d (newLazyField n (length (fds h)) d tp) p = Some (Ok (), p')
     \<and> at_tokens u p' ts (with_fd h (v\<lparr>fType := t, Complex := None\<rparr>))"
proof -
  have h: "heap p = with_fd h v" using assms by (simp add: at_tokens_def)
  have "(resolve 1 (newLazyField n (length (fds h)) d tp) (with_fd h v) :: (runes, _) go)
    = Ok (False, None, newLazyField n (length (fds h)) d tp, with_fd h (v\<lparr>fType := t, Complex := None\<rparr>))"
    using assms(2,3) by (simp add: resolve_def parseType_def newLazyField_def Let_def)
  with assms(1) show ?thesis by (simp add: first_pass_def h)
qed

definition empty_field :: "nat \<Rightarrow> FieldDescriptor" where
  "empty_field d =
     \<lparr>fComment = newCommentGroup, fName = [], fType = FieldType_None, Tag = 0, AutoTag = -1, Repeatd = False,
      MainIndex = None, Complex = None, Struct = d\<rparr>"

lemma newField_at: "newFieldDescriptor d h = (length (fds h), with_fd h (empty_field d))"
  by (simp add: newFieldDescriptor_def with_fd_def empty_field_def)

lemma parseStructField_at:
  assumes "plain_field u h0 a" "at_tokens u p (field_toks star h0 a @ ts) h" "no_comment ts" "ts \<noteq> []"
    "fst (hd ts) \<noteq> Token_ParenL" "TagBase (ds h ! d) = 0"
    "map_of (FieldByName (ds h ! d)) (fName (fds h0 ! a)) = None"
    "map_of (FieldByTag (ds h ! d)) (TagNumber h0 a) = None"
  shows "\<exists>p'. parseStructField u d p = Some (Ok (), p') \<and> at_tokens u p' ts (put_field d (parsed_field h0 a d) h)"
proof -
  let ?fd = "fds h0 ! a" and ?b = "length (fds h)" and ?t = "TagNumber h0 a"
  let ?n = "type_word star (fType ?fd)"
  have fd: "builtin (fType ?fd)" "- (2 ^ 31) \<le> ?t" "?t < 2 ^ 31" using assms(1) by (simp_all add: plain_field_def Let_def)
  let ?ty = "(if Repeatd ?fd then array_toks star else [])
      @ (Token_Identifier, ?n) # ts"
  have c: "no_comment ?ty" "no_comment ((Token_Colon, rs '':'') # ?ty)"
    "no_comment ((Token_Numeral, rs (itoa ?t)) # (Token_Colon, rs '':'') # ?ty)"
    using assms(3) by (simp_all add: no_comment_def)
  define p1 where "p1 = p\<lparr>heap := with_fd h (empty_field d)\<rparr>"
  have p: "heap p = h" using assms(2) by (simp add: at_tokens_def)
  have "at_tokens u p1 ((Token_Identifier, fName ?fd) # (Token_Numeral, rs (itoa ?t)) # (Token_Colon, rs '':'') # ?ty)
      (with_fd h (empty_field d))"
    using assms(2) by (simp add: p1_def p field_toks_def Let_def)
  from field_name_at [OF this c(3) assms(7)] obtain p2 where p2: "field_name u d ?b p1 = Some (Ok (), p2)"
    "at_tokens u p2 ((Token_Numeral, rs (itoa ?t)) # (Token_Colon, rs '':'') # ?ty)
       (with_fd h ((empty_field d)\<lparr>fName := fName ?fd\<rparr>))" by blast
  from tag_at [OF p2(2) c(2) fd(2,3), of d] obtain p3 where p3: "(if TokenID p2 = Token_Numeral
       then bind_run (sproto_Expect u Token_Numeral) (\<lambda>t. upd_fd ?b (\<lambda>fd. fd\<lparr>Tag := ToInt t\<rparr>)) p2
       else auto_tag d ?b p2) = Some (Ok (), p3)"
    "at_tokens u p3 ((Token_Colon, rs '':'') # ?ty) (with_fd h ((empty_field d)\<lparr>fName := fName ?fd, Tag := ?t\<rparr>))" by blast
  from colon_at [OF p3(2) c(1)] obtain p4 where p4: "(if TokenID p3 = Token_Colon then sproto_NextToken u p3 else ret () p3)
      = Some (Ok (), p4)" "at_tokens u p4 ?ty (with_fd h ((empty_field d)\<lparr>fName := fName ?fd, Tag := ?t\<rparr>))" by blast
  from typeName_at [OF p4(2) assms(3)] obtain p5 where p5: "parse_typeName u ?b p4 = Some (Ok ?n, p5)"
    "at_tokens u p5 ts (with_fd h ((empty_field d)\<lparr>fName := fName ?fd, Tag := ?t, Repeatd := Repeatd ?fd\<rparr>))"
    by (auto simp: empty_field_def)
  let ?pf = "newLazyField ?n ?b d (pos_of p4)"
  have "TokenID p5 \<noteq> Token_ParenL"
    using assms(4,5) at_tokens_ID [of u p5 "fst (hd ts)" "snd (hd ts)" "tl ts"] p5(2) by simp
  then have p5': "parse_mainIndex u ?pf p5 = Some (Ok ?pf, p5)" by (simp add: parse_mainIndex_def ret_def)
  from field_comment_at [OF p5(2), of "curr p1"] obtain p6 where p6: "field_comment u (curr p1) ?b p5 = Some (Ok (), p6)"
    "at_tokens u p6 ts (with_fd h ((empty_field d)\<lparr>fName := fName ?fd, Tag := ?t, Repeatd := Repeatd ?fd,
       fComment := newCommentGroup\<rparr>))" by blast
  have "ParseFieldType ?n = fType ?fd" "fType ?fd \<noteq> FieldType_None"
    using type_word [OF fd(1), of u star] fd(1) by (auto simp: builtin_def)
  from first_pass_at [OF p6(2) this, of d "pos_of p4"] obtain p7 where p7: "first_pass d ?pf p6 = Some (Ok (), p7)"
    "at_tokens u p7 ts (with_fd h (parsed_field h0 a d))"
    by (auto simp: empty_field_def parsed_field_def)
  have h7: "heap p7 = with_fd h (parsed_field h0 a d)" using p7(2) by (simp add: at_tokens_def)
  have "TagNumber (with_fd h (parsed_field h0 a d)) ?b = ?t"
    using assms(6) by (simp add: TagNumber_def [of "with_fd _ _"] parsed_field_def Let_def)
  moreover have "fName (parsed_field h0 a d) = fName ?fd" by (simp add: parsed_field_def)
  ultimately have p8: "checkField d ?b p7 = Some (Ok (), p7)"
    using assms(7,8) by (simp add: checkField_def h7 Let_def ret_def)
  define tg where "tg = (\<lambda>p. if TokenID p = Token_Numeral
       then bind_run (sproto_Expect u Token_Numeral) (\<lambda>t. upd_fd ?b (\<lambda>fd. fd\<lparr>Tag := ToInt t\<rparr>)) p
       else auto_tag d ?b p)"
  define co where "co = (\<lambda>p. if TokenID p = Token_Colon then sproto_NextToken u p else ret () p)"
  have tgco: "tg p2 = Some (Ok (), p3)" "co p3 = Some (Ok (), p4)" using p3(1) p4(1) by (simp_all add: tg_def co_def)
  have "parseStructField u d p = bind_run raw_token (\<lambda>nameToken. bind_run (field_name u d ?b) (\<lambda>_.
      bind_run tg (\<lambda>_. bind_run co (\<lambda>_. bind_run token_pos (\<lambda>tp. bind_run (parse_typeName u ?b) (\<lambda>name.
      bind_run (parse_mainIndex u (newLazyField name ?b d tp)) (\<lambda>pf. bind_run (field_comment u nameToken ?b) (\<lambda>_.
      bind_run (first_pass d pf) (\<lambda>_. bind_run (checkField d ?b) (\<lambda>_. modify (addField d ?b))))))))))) p1"
    unfolding parseStructField_def bind_heap(5) p newField_at fst_conv snd_conv p1_def tg_def co_def by (rule refl)
  also have "\<dots> = Some (Ok (), p7\<lparr>heap := addField d ?b (heap p7)\<rparr>)"
    by (simp add: bind_run_Ok p2(1) tgco p5(1) p5' p6(1) p7(1) p8 modify_def)
  finally have "parseStructField u d p = Some (Ok (), p7\<lparr>heap := addField d ?b (heap p7)\<rparr>)" .
  moreover have "at_tokens u (p7\<lparr>heap := addField d ?b (heap p7)\<rparr>) ts (put_field d (parsed_field h0 a d) h)"
    using p7(2) by (simp add: h7 put_field_def with_fd_def)
  ultimately show ?thesis by blast
qed

lemma put_field_d:
  assumes "d < length (ds h)"
  shows "ds (put_field d v h) ! d = (ds h ! d)\<lparr>Fields := Fields (ds h ! d) @ [length (fds h)],
      FieldByName := AList.update (fName v) (length (fds h)) (FieldByName (ds h ! d)),
      FieldByTag := AList.update (Tag v) (length (fds h)) (FieldByTag (ds h ! d))\<rparr>"
    "length (ds (put_field d v h)) = length (ds h)" "fds (put_field d v h) = fds h @ [v]"
    "fls (put_field d v h) = fls h"
  using assms by (simp_all add: put_field_def addField_def set_d_def Let_def)

definition put_fields :: "schema \<Rightarrow> nat \<Rightarrow> nat list \<Rightarrow> schema \<Rightarrow> schema" where
  "put_fields h0 d l h = fold (\<lambda>a h. put_field d (parsed_field h0 a d) h) l h"

lemma put_fields_simps [simp]:
  "put_fields h0 d [] h = h" "put_fields h0 d (a # l) h = put_fields h0 d l (put_field d (parsed_field h0 a d) h)"
  by (simp_all add: put_fields_def)

lemma put_fields_d:
  assumes "d < length (ds h)"
  shows "Fields (ds (put_fields h0 d l h) ! d) = Fields (ds h ! d) @ [length (fds h) ..< length (fds h) + length l]
     \<and> fds (put_fields h0 d l h) = fds h @ map (\<lambda>a. parsed_field h0 a d) l
     \<and> fls (put_fields h0 d l h) = fls h \<and> length (ds (put_fields h0 d l h)) = length (ds h)
     \<and> dName (ds (put_fields h0 d l h) ! d) = dName (ds h ! d) \<and> dType (ds (put_fields h0 d l h) ! d) = dType (ds h ! d)
     \<and> TagBase (ds (put_fields h0 d l h) ! d) = TagBase (ds h ! d)"
  using assms
proof (induction l arbitrary: h)
  case (Cons a l)
  from Cons.IH [of "put_field d (parsed_field h0 a d) h"] Cons.prems put_field_d [OF Cons.prems, of "parsed_field h0 a d"]
  show ?case by (simp add: upt_conv_Cons del: upt_Suc)
qed simp

definition plain_fields :: "unicode_tables \<Rightarrow> schema \<Rightarrow> nat list \<Rightarrow> bool" where
  "plain_fields u h l \<longleftrightarrow> list_all (plain_field u h) l \<and> distinct (map (\<lambda>a. fName (fds h ! a)) l)
     \<and> distinct (map (TagNumber h) l)"

abbreviation brace_toks :: "(int \<times> runes) list \<Rightarrow> (int \<times> runes) list" where
  "brace_toks ts \<equiv> (Token_CurlyBraceR, rs ''}'') # ts"

lemma no_comment_fields: "no_comment (concat (map (field_toks star h) l) @ brace_toks ts) \<longleftrightarrow> no_comment ts"
  by (induction l) (auto simp: no_comment_def field_toks_def Let_def)

lemma hd_fields: "fst (hd (concat (map (field_toks star h) l) @ brace_toks ts)) \<noteq> Token_ParenL"
  by (cases l) (simp_all add: field_toks_def Let_def)

lemma fields_at:
  assumes "plain_fields u h0 l" "at_tokens u p (concat (map (field_toks star h0) l) @ brace_toks ts) h" "no_comment ts"
    "d < length (ds h)" "TagBase (ds h ! d) = 0"
    "\<forall>a \<in> set l. map_of (FieldByName (ds h ! d)) (fName (fds h0 ! a)) = None
       \<and> map_of (FieldByTag (ds h ! d)) (TagNumber h0 a) = None"
  shows "\<exists>p'. fields_until_brace u (parseStructField u d) p = Some (Ok (), p')
     \<and> at_tokens u p' (brace_toks ts) (put_fields h0 d l h)"
  using assms
proof (induction l arbitrary: p h)
  case Nil
  then have "at_tokens u p (brace_toks ts) h" by simp
  with at_tokens_ID [OF this] show ?case by (simp add: fields_until_brace.simps ret_def)
next
  case (Cons a l)
  let ?ts = "concat (map (field_toks star h0) l) @ brace_toks ts"
  let ?h = "put_field d (parsed_field h0 a d) h"
  have a: "plain_field u h0 a" "plain_fields u h0 l" using Cons.prems(1) by (simp_all add: plain_fields_def)
  have p: "at_tokens u p (field_toks star h0 a @ ?ts) h" using Cons.prems(2) by simp
  have c: "no_comment ?ts" "?ts \<noteq> []" using Cons.prems(3) no_comment_fields by simp_all
  from parseStructField_at [OF a(1) p c hd_fields Cons.prems(5)] Cons.prems(6) obtain p1 where
    p1: "parseStructField u d p = Some (Ok (), p1)" "at_tokens u p1 ?ts ?h" by auto
  have "\<forall>b \<in> set l. map_of (FieldByName (ds ?h ! d)) (fName (fds h0 ! b)) = None
       \<and> map_of (FieldByTag (ds ?h ! d)) (TagNumber h0 b) = None"
  proof
    fix b assume b: "b \<in> set l"
    then have "fName (fds h0 ! b) \<noteq> fName (fds h0 ! a)" "TagNumber h0 b \<noteq> TagNumber h0 a"
      using Cons.prems(1) by (simp_all add: plain_fields_def image_iff) metis+
    with b Cons.prems(6) show "map_of (FieldByName (ds ?h ! d)) (fName (fds h0 ! b)) = None
       \<and> map_of (FieldByTag (ds ?h ! d)) (TagNumber h0 b) = None"
      by (simp add: put_field_d(1) [OF Cons.prems(4)] update_conv' parsed_field_def)
  qed
  from Cons.IH [OF a(2) p1(2) Cons.prems(3) _ _ this] Cons.prems(4,5) put_field_d [OF Cons.prems(4), of "parsed_field h0 a d"]
  obtain p' where "fields_until_brace u (parseStructField u d) p1 = Some (Ok (), p')"
    "at_tokens u p' (brace_toks ts) (put_fields h0 d l ?h)" by auto
  moreover have "TokenID p \<noteq> Token_CurlyBraceR"
    using p at_tokens_ID [of u p] by (fastforce simp: field_toks_def Let_def)
  ultimately show ?case by (simp add: fields_until_brace.simps [of u _ p] bind_run_Ok p1(1))
qed

definition with_d :: "schema \<Rightarrow> Descriptor \<Rightarrow> schema" where
  "with_d h v = h\<lparr>ds := ds h @ [v]\<rparr>"

lemma with_d_simps [simp]:
  "ds (with_d h v) ! length (ds h) = v" "fls (with_d h v) = fls h" "fds (with_d h v) = fds h"
  "set_d (length (ds h)) w (with_d h v) = with_d h w" "length (ds (with_d h v)) = Suc (length (ds h))"
  by (simp_all add: with_d_def set_d_def)

definition empty_struct :: "nat \<Rightarrow> runes \<Rightarrow> Descriptor" where
  "empty_struct f n =
     \<lparr>dComment = newCommentGroup, dName = n, SrcName = [], dType = DescriptorType_Struct,
      Fields = [], FieldByName = [], FieldByTag = [], dFile = f, TagBase = 0\<rparr>"

definition put_struct :: "schema \<Rightarrow> nat \<Rightarrow> runes \<Rightarrow> runes \<Rightarrow> nat list \<Rightarrow> schema \<Rightarrow> schema" where
  "put_struct h0 f srcName n l h =
     addObject f (length (ds h)) srcName (put_fields h0 (length (ds h)) l (with_d h (empty_struct f n)))"

definition struct_toks :: "bool \<Rightarrow> schema \<Rightarrow> runes \<Rightarrow> nat list \<Rightarrow> (int \<times> runes) list" where
  "struct_toks star h n l =
     (Token_Dot, rs ''.'') # (Token_Identifier, n) # (Token_CurlyBraceL, rs ''{'') # concat (map (field_toks star h) l) @ brace_toks []"

lemma upd_d_at:
  "at_tokens u p ts (with_d h v) \<Longrightarrow>
     \<exists>p'. upd_d (length (ds h)) uf p = Some (Ok (), p') \<and> at_tokens u p' ts (with_d h (uf v))"
  by (auto simp: upd_d_def modify_def) (simp_all add: at_tokens_def)

lemma parseStruct_at:
  assumes "plain_fields u h0 l" "at_tokens u p (struct_toks star h0 n l) h" "\<not> NameExists (fls h ! f) n"
  shows "\<exists>p'. parseStruct u f srcName p = Some (Ok (), p') \<and> at_tokens u p' [] (put_struct h0 f srcName n l h)"
proof -
  let ?e = "length (ds h)" and ?fs = "concat (map (field_toks star h0) l) @ brace_toks []"
  have c: "no_comment ?fs" "no_comment ((Token_CurlyBraceL, rs ''{'') # ?fs)"
    "no_comment ((Token_Identifier, n) # (Token_CurlyBraceL, rs ''{'') # ?fs)" "no_comment []"
    using no_comment_fields [of star h0 l "[]"] by (simp_all add: no_comment_def)
  from next_at [OF assms(2) [unfolded struct_toks_def] c(3)] obtain p1 where p1: "sproto_NextToken u p = Some (Ok (), p1)"
    "at_tokens u p1 ((Token_Identifier, n) # (Token_CurlyBraceL, rs ''{'') # ?fs) h" .
  define p2 where "p2 = p1\<lparr>heap := with_d h (empty_struct f [])\<rparr>"
  have h1: "heap p1 = h" using p1(2) by (simp add: at_tokens_def)
  have "at_tokens u p2 ((Token_Identifier, n) # (Token_CurlyBraceL, rs ''{'') # ?fs) (with_d h (empty_struct f []))"
    using p1(2) by (simp add: p2_def h1)
  from expect_at [OF this c(2)] obtain p3 where p3: "sproto_Expect u Token_Identifier p2 = Some (Ok (curr p2), p3)"
    "at_tokens u p3 ((Token_CurlyBraceL, rs ''{'') # ?fs) (with_d h (empty_struct f []))" "Value (curr p2) = n" by blast
  from upd_d_at [OF p3(2), of "\<lambda>v. v\<lparr>dName := n\<rparr>"] obtain p4 where p4: "upd_d ?e (\<lambda>v. v\<lparr>dName := n\<rparr>) p3 = Some (Ok (), p4)"
    "at_tokens u p4 ((Token_CurlyBraceL, rs ''{'') # ?fs) (with_d h (empty_struct f n))"
    by (auto simp: empty_struct_def)
  from upd_d_at [OF p4(2), of "\<lambda>v. v\<lparr>dComment := newCommentGroup\<rparr>"] obtain p5 where
    p5: "upd_d ?e (\<lambda>v. v\<lparr>dComment := newCommentGroup\<rparr>) p4 = Some (Ok (), p5)"
    "at_tokens u p5 ((Token_CurlyBraceL, rs ''{'') # ?fs) (with_d h (empty_struct f n))"
    by (auto simp: empty_struct_def)
  from expect_at [OF p5(2) c(1)] obtain p6 where p6: "sproto_Expect u Token_CurlyBraceL p5 = Some (Ok (curr p5), p6)"
    "at_tokens u p6 ?fs (with_d h (empty_struct f n))" by blast
  from fields_at [OF assms(1) p6(2) c(4), of ?e] obtain p7 where
    p7: "fields_until_brace u (parseStructField u ?e) p6 = Some (Ok (), p7)"
    "at_tokens u p7 (brace_toks []) (put_fields h0 ?e l (with_d h (empty_struct f n)))"
    by (auto simp: empty_struct_def)
  from expect_at [OF p7(2) c(4)] obtain p8 where p8: "sproto_Expect u Token_CurlyBraceR p7 = Some (Ok (curr p7), p8)"
    "at_tokens u p8 [] (put_fields h0 ?e l (with_d h (empty_struct f n)))" by blast
  have h8: "heap p8 = put_fields h0 ?e l (with_d h (empty_struct f n))" using p8(2) by (simp add: at_tokens_def)
  have "fls (heap p8) = fls h" "dName (ds (heap p8) ! ?e) = n"
    using put_fields_d [of ?e "with_d h (empty_struct f n)" h0 l] by (simp_all add: h8 empty_struct_def)
  then have "add_checked f ?e srcName p8 = Some (Ok (), p8\<lparr>heap := put_struct h0 f srcName n l h\<rparr>)"
    using assms(3) by (simp add: add_checked_def modify_def put_struct_def h8)
  moreover have new: "newDescriptor f h = (?e, with_d h ((empty_struct f [])\<lparr>dType := DescriptorType_None\<rparr>))"
    by (simp add: newDescriptor_def with_d_def empty_struct_def)
  moreover have "upd_d ?e (\<lambda>v. v\<lparr>dType := DescriptorType_Struct\<rparr>) (p1\<lparr>heap := snd (newDescriptor f h)\<rparr>) = Some (Ok (), p2)"
    by (simp add: new upd_d_def modify_def p2_def) (simp add: empty_struct_def)
  ultimately have "parseStruct u f srcName p = Some (Ok (), p8\<lparr>heap := put_struct h0 f srcName n l h\<rparr>)"
    by (simp add: parseStruct_def bind_run_Ok p1(1) h1 p3(1,3) p4(1) CommentGroup_at [OF p4(2)] p5(1) p6(1) p7(1) p8(1)
        del: bind_heap(7))
  moreover have "at_tokens u (p8\<lparr>heap := put_struct h0 f srcName n l h\<rparr>) [] (put_struct h0 f srcName n l h)"
    using p8(2) by (simp add: h8)
  ultimately show ?thesis by blast
qed

section \<open>A printed structure is parsed back\<close>

text \<open>A structure in the syntax of schema files, with the lines that \<^verbatim>\<open>FieldDescriptor.String\<close> prints.\<close>

definition struct_text :: "schema \<Rightarrow> runes \<Rightarrow> nat list \<Rightarrow> (runes, runes) go" where
  "struct_text h n l =
     bind_go (field_lines h l) (\<lambda>ls. Ok (rs ''.'' @ n @ rs '' {'' @ [0x0A] @ ls @ rs ''}''))"

text \<open>What the text of a field says.\<close>

definition shape :: "schema \<Rightarrow> nat \<Rightarrow> runes \<times> int \<times> bool \<times> FieldType" where
  "shape h a = (let fd = fds h ! a in (fName fd, TagNumber h a, Repeatd fd, fType fd))"

lemma tokens_lines:
  assumes "list_all (plain_field u h) l" "(field_lines h l :: (runes, _) go) = Ok ls"
  shows "tokens u sproto_ms (ls @ rs ''}'') (concat (map (field_toks False h) l) @ brace_toks [])
    \<and> stops (\<lambda>c. c = 0x0A \<or> c = 0x0D) (ls @ rs ''}'')"
  using assms
proof (induction l arbitrary: ls)
  case Nil
  have "tokens u sproto_ms (ch (CHR ''}'') # []) (brace_toks [])"
    by (rule sp_tokens_signs(2)) (rule tokens_end [OF lexes_end])
  with Nil show ?case by (simp add: rs_def stops_def ch_def)
next
  case (Cons a l)
  from Cons.prems(2) obtain s ls' where s: "(FieldDescriptor_String h a :: (runes, _) go) = Ok s"
    "(field_lines h l :: (runes, _) go) = Ok ls'" "ls = 0x09 # s @ 0x0A # ls'" by (auto simp: bind_go_eq_Ok)
  from Cons.prems(1) Cons.IH [OF _ s(2)] have "plain_field u h a" and
    l: "tokens u sproto_ms (ls' @ rs ''}'') (concat (map (field_toks False h) l) @ brace_toks [])"
    "stops (\<lambda>c. c = 0x0A \<or> c = 0x0D) (ls' @ rs ''}'')" by simp_all
  from tokens_field [OF this(1) s(1) l] show ?case by (simp add: s(3) stops_def)
qed

lemma tokens_struct:
  assumes "plain_fields u h l" "ident_word u n" "no_keyword n" "struct_text h n l = Ok txt"
  shows "tokens u sproto_ms txt (struct_toks False h n l)"
proof -
  from assms(4) obtain ls where ls: "(field_lines h l :: (runes, _) go) = Ok ls"
    and t: "txt = rs ''.'' @ n @ rs '' {'' @ [0x0A] @ ls @ rs ''}''" by (auto simp: struct_text_def bind_go_eq_Ok)
  from tokens_lines [OF _ ls, of u] assms(1) have l:
    "tokens u sproto_ms (ls @ rs ''}'') (concat (map (field_toks False h) l) @ brace_toks [])"
    "stops (\<lambda>c. c = 0x0A \<or> c = 0x0D) (ls @ rs ''}'')" by (simp_all add: plain_fields_def)
  have "tokens u sproto_ms (0x20 # ch (CHR ''{'') # 0x0A # ls @ rs ''}'')
      ((Token_CurlyBraceL, rs ''{'') # concat (map (field_toks False h) l) @ brace_toks [])"
    by (rule sp_tokens_skip(1) [OF _ _ sp_tokens_signs(1) [OF sp_tokens_skip(2) [OF l(2,1)]]])
      (simp_all add: isWhiteSpace_def stops_def ch_def)
  from sp_tokens_signs(5) [OF sp_tokens_ident [OF assms(2,3) _ this]]
  show ?thesis by (simp add: t struct_toks_def rs_def ch_def ends_name_def)
qed

lemma put_struct_result:
  assumes "f < length (fls h)" "plain_fields u h0 l"
  shows "\<exists>e. map_of (StructByName (fls (put_struct h0 f srcName n l h) ! f)) n = Some e
     \<and> map (shape (put_struct h0 f srcName n l h)) (Fields (ds (put_struct h0 f srcName n l h) ! e)) = map (shape h0) l"
proof -
  let ?e = "length (ds h)" and ?b = "length (fds h)"
  define g where "g = put_fields h0 ?e l (with_d h (empty_struct f n))"
  have g: "Fields (ds g ! ?e) = [?b ..< ?b + length l]" "fds g = fds h @ map (\<lambda>a. parsed_field h0 a ?e) l"
    "fls g = fls h" "length (ds g) = Suc ?e" "dName (ds g ! ?e) = n" "dType (ds g ! ?e) = DescriptorType_Struct"
    "TagBase (ds g ! ?e) = 0"
    using put_fields_d [of ?e "with_d h (empty_struct f n)" h0 l] by (simp_all add: g_def empty_struct_def)
  define h' where "h' = put_struct h0 f srcName n l h"
  have h': "h' = addObject f ?e srcName g" by (simp add: h'_def put_struct_def g_def)
  have fds: "fds h' = fds g" and Fields: "Fields (ds h' ! ?e) = Fields (ds g ! ?e)" "TagBase (ds h' ! ?e) = 0"
    using g(4,7) by (simp_all add: h' addObject_def set_fl_def set_d_def Let_def)
  have "map_of (StructByName (fls h' ! f)) n = Some ?e"
    using assms(1) g by (simp add: h' addObject_def set_fl_def set_d_def Let_def update_conv')
  moreover have "shape h' (?b + i) = shape h0 (l ! i)" if "i < length l" for i
    using that g(2) Fields(2)
    by (simp add: shape_def Let_def fds nth_append TagNumber_def [of h'] parsed_field_def)
  then have "map (shape h') (Fields (ds h' ! ?e)) = map (shape h0) l"
    by (auto simp: Fields(1) g(1) intro!: nth_equalityI)
  ultimately show ?thesis by (auto simp: h'_def)
qed

lemma rawParse_start:
  assumes "tokens u sproto_ms txt ts" "no_comment ts"
  obtains p where "at_tokens u p ts h" "rawParse u f txt srcName h = map_option
      (\<lambda>(r, p'). (case r of
            Ok _ \<Rightarrow> Ok None
          | Err e \<Rightarrow> Ok (Some (TokenPos_String (prePos p') @ rs '' '' @ e))
          | Panic q \<Rightarrow> Panic q, heap p')) (parse_objects u f srcName p)"
proof -
  let ?l = "\<lparr>matchers = sproto_ms, running = False, tz = NewTokenizer [] DefaultTokenPos\<rparr>"
  let ?p = "parser.extend (NewParser ?l srcName) (sproto.fields (\<lambda>_. None) h)"
  let ?q = "?p\<lparr>lexer := Start txt (lexer ?p)\<rparr>"
  have new: "(newSProtoParser u srcName h :: (runes, _) go) = Ok ?p" by (simp add: newSProtoParser_def sproto_lexer_Ok)
  have "ahead u sproto_ms ?q ts"
    using assms(1) by (simp add: ahead_def Start_def NewParser_def parser.defs sproto_ms_def)
  from NextToken_ahead [OF this] obtain p1 where p1: "NextToken u ?q = Some (Ok (), p1)" "stream u sproto_ms p1 ts"
    "parser.more p1 = parser.more ?q" by blast
  have p1': "at_tokens u p1 ts h"
    using p1(2) more_eq [OF p1(3)] by (simp add: at_tokens_def parser.defs sproto.defs)
  have "TokenID p1 \<noteq> Token_UnixComment \<and> TokenID p1 \<noteq> Token_CStyleComment"
    using stream_ID [OF p1(2)] assms(2) by (cases ts) (auto simp: no_comment_def)
  then have "sproto_NextToken u ?q = Some (Ok (), p1)"
    by (simp add: sproto_NextToken.simps [of u ?q] bind_run_Ok p1(1) ret_def)
  with p1' new show ?thesis by (intro that [of p1]) (simp_all add: rawParse_def bind_run_Ok)
qed

lemma rawParse_tokens:
  assumes "tokens u sproto_ms txt ts" "no_comment ts"
    and "\<And>p. at_tokens u p ts h \<Longrightarrow> \<exists>p'. parse_objects u f srcName p = Some (Ok (), p') \<and> heap p' = h'"
  shows "rawParse u f txt srcName h = Some (Ok None, h')"
proof -
  from rawParse_start [OF assms(1,2)] obtain p where "at_tokens u p ts h" "rawParse u f txt srcName h = map_option
      (\<lambda>(r, p'). (case r of
            Ok _ \<Rightarrow> Ok None
          | Err e \<Rightarrow> Ok (Some (TokenPos_String (prePos p') @ rs '' '' @ e))
          | Panic q \<Rightarrow> Panic q, heap p')) (parse_objects u f srcName p)" .
  with assms(3) show ?thesis by fastforce
qed

lemma parsed_struct:
  assumes "tokens u sproto_ms txt (struct_toks star h0 n l)" "plain_fields u h0 l" "f < length (fls h)" "\<not> NameExists (fls h ! f) n"
  shows "\<exists>h' e. rawParse u f txt srcName h = Some (Ok None, h') \<and> map_of (StructByName (fls h' ! f)) n = Some e
     \<and> map (shape h') (Fields (ds h' ! e)) = map (shape h0) l"
proof -
  let ?h' = "put_struct h0 f srcName n l h"
  have "no_comment (struct_toks star h0 n l)"
    using no_comment_fields [of star h0 l "[]"] by (simp add: struct_toks_def no_comment_def)
  moreover have "\<exists>p'. parse_objects u f srcName p = Some (Ok (), p') \<and> heap p' = ?h'" if p: "at_tokens u p (struct_toks star h0 n l) h" for p
  proof -
    from parseStruct_at [OF assms(2) p assms(4)] obtain p1 where p1: "parseStruct u f srcName p = Some (Ok (), p1)"
      "at_tokens u p1 [] ?h'" by blast
    have "TokenID p1 = Token_EOF" using p1(2) by (simp add: at_tokens_def stream_def)
    moreover have "TokenID p = Token_Dot" using at_tokens_ID [OF p [unfolded struct_toks_def]] by simp
    ultimately show ?thesis
      using p1(2) by (simp add: parse_objects.simps [of u f srcName p] parse_objects.simps [of u f srcName p1] bind_run_Ok p1(1)
          ret_def at_tokens_def)
  qed
  ultimately have "rawParse u f txt srcName h = Some (Ok None, ?h')"
    by (intro rawParse_tokens [OF assms(1)])
  with put_struct_result [OF assms(3,2)] show ?thesis by blast
qed

text \<open>
  A structure written with the lines that \<^verbatim>\<open>String\<close> prints for its fields is parsed without an
  error into a structure of that name whose fields have the same names, tags, types and array marks
  in the same order; its fields have builtin types, names that do not begin with a keyword, and
  distinct names and tags.
\<close>

theorem printed_struct_parsed:
  assumes "plain_fields u h0 l" "ident_word u n" "no_keyword n" "struct_text h0 n l = Ok txt"
    "f < length (fls h)" "\<not> NameExists (fls h ! f) n"
  shows "\<exists>h' e. rawParse u f txt srcName h = Some (Ok None, h') \<and> map_of (StructByName (fls h' ! f)) n = Some e
     \<and> map (shape h') (Fields (ds h' ! e)) = map (shape h0) l"
  by (rule parsed_struct [OF tokens_struct [OF assms(1-4)] assms(1,5,6)])

definition sample_schema :: schema where
  "sample_schema = (snd (newDescriptor 0 NewFileDescriptorSet))
     \<lparr>fds := [tagged ''id'' 3 (-1), (tagged ''names'' 0 4)\<lparr>Repeatd := True, fType := FieldType_String\<rparr>]\<rparr>"

lemma sample_fields: "plain_fields latin sample_schema [0, 1]"
  "map (shape sample_schema) [0, 1] = [(rs ''id'', 3, False, FieldType_Int32), (rs ''names'', 4, True, FieldType_String)]"
  by (simp_all add: plain_fields_def plain_field_def sample_schema_def newDescriptor_def NewFileDescriptorSet_def
      tagged_def ident_word_def no_keyword_def builtin_def TagNumber_def shape_def rs_def ch_def ident_start_def
      ident_part_def IsLetter_def IsDigit_def)

lemma printed_struct_parsed_witness:
  "\<exists>txt h' e. struct_text sample_schema (rs ''user'') [0, 1] = Ok txt
     \<and> rawParse latin 0 txt (rs ''x.sp'') (snd (NewFileDescriptor NewFileDescriptorSet)) = Some (Ok None, h')
     \<and> map (shape h') (Fields (ds h' ! e))
         = [(rs ''id'', 3, False, FieldType_Int32), (rs ''names'', 4, True, FieldType_String)]"
proof -
  let ?h = "snd (NewFileDescriptor NewFileDescriptorSet)"
  have plain: "plain_field latin sample_schema 0" "plain_field latin sample_schema 1"
    using sample_fields(1) by (simp_all add: plain_fields_def)
  obtain w where t: "struct_text sample_schema (rs ''user'') [0, 1] = Ok w"
    by (simp add: struct_text_def String_plain [OF plain(1)] String_plain [OF plain(2), simplified])
  moreover have "ident_word latin (rs ''user'')" "no_keyword (rs ''user'')"
    by (simp_all add: ident_word_def no_keyword_def rs_def ch_def ident_start_def ident_part_def IsLetter_def IsDigit_def)
  moreover have "0 < length (fls ?h)" "\<not> NameExists (fls ?h ! 0) (rs ''user'')"
    by (simp_all add: NewFileDescriptor_def NewFileDescriptorSet_def NameExists_def)
  ultimately obtain h' e where "rawParse latin 0 w (rs ''x.sp'') ?h = Some (Ok None, h')"
    "map (shape h') (Fields (ds h' ! e)) = map (shape sample_schema) [0, 1]"
    using printed_struct_parsed [OF sample_fields(1)] by metis
  with t show ?thesis
    unfolding sample_fields(2) by (intro exI [of _ w] exI [of _ h'] exI [of _ e] conjI)
qed

end
