(* ===== verification/Gen_Proto.thy ===== *)
theory Gen_Proto
  imports Gen_Numbers Schema_Text
begin

text \<open>
  The converter of protobuf files to sproto files, \<^verbatim>\<open>gosproto/pb2sproto\<close> (\<^verbatim>\<open>gen_proto.go\<close>, \<^verbatim>\<open>main.go\<close>). The
  descriptions of protobuf files come from the library pbmeta; the records hold what its accessors return,
  with lists for the accessors that count.
\<close>

section \<open>The descriptions\<close>

text \<open>The types that the converter names; the others are numbers.\<close>

datatype pb_type =
    TYPE_INT64 | TYPE_UINT64 | TYPE_INT32 | TYPE_FLOAT | TYPE_DOUBLE | TYPE_UINT32 | TYPE_BOOL | TYPE_STRING
  | TYPE_MESSAGE | TYPE_ENUM | TYPE_OTHER int

record pb_value =
  pvName :: string
  pvNumber :: int

record pb_enum =
  peName :: string
  peLeading :: string
  peValues :: "pb_value list"

record pb_field =
  pfName :: string
  pfNumber :: int
  pfRepeated :: bool
  pfType :: pb_type
  pfMessageDesc :: string
  pfEnumDesc :: string
  pfTrailing :: string

record pb_message =
  pmName :: string
  pmLeading :: string
  pmFields :: "pb_field list"

record pb_file =
  pbFileName :: string
  pbPackageName :: string
  pbMessages :: "pb_message list"
  pbEnums :: "pb_enum list"

section \<open>Comments\<close>

text \<open>
  \<^verbatim>\<open>bufio.Scanner\<close> with lines: the line end and one carriage return before it are dropped, and a line that does
  not fit into the buffer of 64 KB ends the scan.
\<close>

definition drop_cr :: "string \<Rightarrow> string" where
  "drop_cr l = (if l \<noteq> [] \<and> last l = CHR 0x0D then butlast l else l)"

function scan_lines :: "string \<Rightarrow> string list" where
  "scan_lines s =
     (let l = takeWhile (\<lambda>c. c \<noteq> CHR 0x0A) s in
      if s = [] \<or> length l \<ge> 65536 then [] else drop_cr l # scan_lines (drop (Suc (length l)) s))"
  by pat_completeness auto
termination
  by (relation "measure length") auto

declare scan_lines.simps [simp del]

fun join_lines :: "string list \<Rightarrow> string" where
  "join_lines [] = []"
| "join_lines [l] = l"
| "join_lines (l # k # ls) = l @ [CHR 0x0A] @ join_lines (k # ls)"

definition addCommentSignAtEachLine :: "string \<Rightarrow> string \<Rightarrow> string" where
  "addCommentSignAtEachLine sign comment =
     (if comment = [] then [] else join_lines (map (\<lambda>l. sign @ '' '' @ l) (scan_lines comment)))"

section \<open>The text\<close>

definition TypeString :: "pb_field \<Rightarrow> string" where
  "TypeString f =
     (if pfRepeated f then ''*'' else []) @
     (case pfType f of
        TYPE_INT64 \<Rightarrow> ''int64'' | TYPE_UINT64 \<Rightarrow> ''uint64''
      | TYPE_INT32 \<Rightarrow> ''int32'' | TYPE_FLOAT \<Rightarrow> ''int32'' | TYPE_DOUBLE \<Rightarrow> ''int32''
      | TYPE_UINT32 \<Rightarrow> ''uint32'' | TYPE_BOOL \<Rightarrow> ''boolean'' | TYPE_STRING \<Rightarrow> ''string''
      | TYPE_MESSAGE \<Rightarrow> pfMessageDesc f | TYPE_ENUM \<Rightarrow> pfEnumDesc f | TYPE_OTHER n \<Rightarrow> [])"

definition pb_value_text :: "pb_value \<Rightarrow> string" where
  "pb_value_text v = ln 1 [] @ ln 1 (pvName v @ '' '' @ itoa (pvNumber v)) @ [CHR 0x09]"

definition enum_text :: "pb_enum \<Rightarrow> string" where
  "enum_text e =
     ln 0 [] @ ln 0 (addCommentSignAtEachLine ''#'' (peLeading e)) @ ln 0 (''enum '' @ peName e @ '' {'') @ [CHR 0x09]
     @ concat (map pb_value_text (peValues e)) @ ln 0 [] @ ln 0 ''}''"

definition pb_field_text :: "pb_field \<Rightarrow> string" where
  "pb_field_text f =
     ln 1 [] @ ln 1 (pfName f @ '' '' @ itoa (pfNumber f) @ '' : '' @ TypeString f @ '' ''
       @ addCommentSignAtEachLine ''#'' (pfTrailing f)) @ [CHR 0x09]"

definition message_text :: "pb_message \<Rightarrow> string" where
  "message_text m =
     ln 0 [] @ ln 0 (addCommentSignAtEachLine ''#'' (pmLeading m)) @ ln 0 (''.'' @ pmName m @ '' {'') @ [CHR 0x09]
     @ concat (map pb_field_text (pmFields m)) @ ln 0 [] @ ln 0 ''}''"

definition proto_template :: "pb_file \<Rightarrow> string" where
  "proto_template f =
     ln 0 ''# Generated by github.com/davyxu/gosproto/pb2sproto'' @ ln 0 (''# Source: '' @ pbFileName f) @ ln 0 []
     @ concat (map enum_text (pbEnums f)) @ ln 0 [] @ ln 0 [] @ concat (map message_text (pbMessages f)) @ ln 0 []"

section \<open>Names of files\<close>

text \<open>\<^verbatim>\<open>path.Ext\<close>: from the last point of the last element.\<close>

definition path_Ext :: "string \<Rightarrow> string" where
  "path_Ext s =
     (let w = rev (takeWhile (\<lambda>c. c \<noteq> CHR ''/'') (rev s)); e = takeWhile (\<lambda>c. c \<noteq> CHR ''.'') (rev w)
      in if CHR ''.'' \<in> set w then CHR ''.'' # rev e else [])"

definition changeExt :: "string \<Rightarrow> string \<Rightarrow> string" where
  "changeExt name newExt = take (length name - length (path_Ext name)) name @ newExt"

fun path_elems :: "string \<Rightarrow> string list" where
  "path_elems [] = [[]]"
| "path_elems (c # s) =
     (if c = CHR ''/'' then [] # path_elems s
      else case path_elems s of [] \<Rightarrow> [[c]] | e # es \<Rightarrow> (c # e) # es)"

text \<open>\<^verbatim>\<open>path.Clean\<close>: empty elements and points vanish, two points take the element before them away.\<close>

fun clean_elems :: "bool \<Rightarrow> string list \<Rightarrow> string list \<Rightarrow> string list" where
  "clean_elems rooted out [] = rev out"
| "clean_elems rooted out (e # es) =
     (if e = [] \<or> e = ''.'' then clean_elems rooted out es
      else if e = ''..'' then
        (case out of
           x # xs \<Rightarrow> if x = ''..'' then clean_elems rooted (e # out) es else clean_elems rooted xs es
         | [] \<Rightarrow> if rooted then clean_elems rooted [] es else clean_elems rooted [e] es)
      else clean_elems rooted (e # out) es)"

fun join_path :: "string list \<Rightarrow> string" where
  "join_path [] = []"
| "join_path [e] = e"
| "join_path (e # f # es) = e @ ''/'' @ join_path (f # es)"

definition path_Clean :: "string \<Rightarrow> string" where
  "path_Clean s =
     (let rooted = (s \<noteq> [] \<and> hd s = CHR ''/''); w = join_path (clean_elems rooted [] (path_elems s))
      in if rooted then CHR ''/'' # w else if w = [] then ''.'' else w)"

definition path_Join :: "string \<Rightarrow> string \<Rightarrow> string" where
  "path_Join a b =
     (if a \<noteq> [] then path_Clean (a @ ''/'' @ b) else if b \<noteq> [] then path_Clean b else [])"

section \<open>The program\<close>

datatype pb_error = LoadFailed string | WriteFailed string

text \<open>The parameter \<open>writable\<close> says which files \<^verbatim>\<open>ioutil.WriteFile\<close> can write.\<close>

definition gen_proto ::
    "(string \<Rightarrow> bool) \<Rightarrow> pb_file \<Rightarrow> string \<Rightarrow> (string \<Rightarrow> string option) \<Rightarrow> (pb_error, string \<Rightarrow> string option) go" where
  "gen_proto writable fileD outputDir files =
     (let final = path_Join outputDir (changeExt (pbFileName fileD) ''.sp'') in
      if writable final then Ok (files(final \<mapsto> proto_template fileD)) else Err (WriteFailed final))"

fun gen_protos ::
    "(string \<Rightarrow> bool) \<Rightarrow> pb_file list \<Rightarrow> string \<Rightarrow> (string \<Rightarrow> string option) \<Rightarrow> (pb_error, string \<Rightarrow> string option) go" where
  "gen_protos writable [] outdir files = Ok files"
| "gen_protos writable (f # fs) outdir files =
     bind_go (gen_proto writable f outdir files) (gen_protos writable fs outdir)"

definition pb2sproto_main ::
    "(string \<Rightarrow> string + pb_file list) \<Rightarrow> (string \<Rightarrow> bool) \<Rightarrow> string \<Rightarrow> string \<Rightarrow> (string \<Rightarrow> string option)
      \<Rightarrow> (pb_error, string \<Rightarrow> string option) go" where
  "pb2sproto_main getPbMeta writable pbmeta outdir files =
     (case getPbMeta pbmeta of
        Inl e \<Rightarrow> Err (LoadFailed e)
      | Inr pool \<Rightarrow> gen_protos writable pool outdir files)"

end
