(* ===== verification/Gen_Parsed.thy ===== *)
theory Gen_Parsed
  imports Gen_Proto
begin

text \<open>
  What the schema parser makes of the files that \<^verbatim>\<open>pb2sproto\<close> writes: the structure that is written for a
  message is parsed back, the text of an enumeration with values is refused.
\<close>

section \<open>Words between blanks\<close>

definition blank_rune :: "rune \<Rightarrow> bool" where
  "blank_rune c \<longleftrightarrow> isWhiteSpace c \<or> c = 0x0A"

lemma whitespace_run:
  assumes "rest t = pre @ w @ r" "list_all isWhiteSpace w" "stops isWhiteSpace r"
  shows "whitespace_loop t (length pre) x = (length pre + length w, x + sum_list w)"
  using assms
proof (induction w arbitrary: pre x)
  case Nil
  then have "\<not> isWhiteSpace (Peek t (length pre))"
    by (auto simp: Peek_rest nth_append stops_def isWhiteSpace_def split: list.splits)
  then show ?case by (simp add: whitespace_loop.simps [of t "length pre"])
next
  case (Cons c w)
  have "Peek t (length pre) = c" using Cons.prems(1) by (simp add: Peek_rest)
  then show ?case
    using Cons.IH [of "pre @ [c]" "x + c"] Cons.prems by (simp add: whitespace_loop.simps [of t "length pre"] add.assoc)
qed

lemma lineend_run:
  assumes "rest t = pre @ w @ r" "list_all (\<lambda>c. c = 0x0A) w" "stops (\<lambda>c. c = 0x0A \<or> c = 0x0D) r"
  shows "\<exists>t'. lineend_loop t (length pre) = (t', length pre + length w) \<and> rest t' = rest t"
  using assms
proof (induction w arbitrary: t pre)
  case Nil
  then have "Peek t (length pre) \<noteq> 0x0A \<and> Peek t (length pre) \<noteq> 0x0D"
    by (auto simp: Peek_rest nth_append stops_def split: list.splits)
  then show ?case by (simp add: lineend_loop.simps [of t "length pre"])
next
  case (Cons c w)
  have "Peek t (length pre) = 0x0A" "rest (increaseLine t) = (pre @ [c]) @ w @ r"
    using Cons.prems(1,2) by (simp_all add: Peek_rest)
  with Cons.IH [of "increaseLine t" "pre @ [c]"] Cons.prems show ?case
    by (simp add: lineend_loop.simps [of t "length pre"])
qed

lemma ignored_run:
  assumes "sproto_ms = take n sproto_ms @ (m, True) # drop (Suc n) sproto_ms" "accepts u m (c # w) v r"
    "list_all (\<lambda>mm. refuses u (fst mm) (c # w)) (take n sproto_ms)" "tokens u sproto_ms r ts"
  shows "tokens u sproto_ms (c # w) ts"
  using assms(4) lexes_ignored [OF assms(1,3,2)] by (rule tokens_skip) simp_all

lemma sp_tokens_whitespace:
  assumes "list_all isWhiteSpace w" "stops isWhiteSpace r" "tokens u sproto_ms r ts"
  shows "tokens u sproto_ms (w @ r) ts"
proof (cases w)
  case (Cons c w')
  have "accepts u (WhiteSpaceMatcher Token_WhiteSpace) (c # w' @ r) (rune_string (sum_list w)) r"
    using whitespace_run [of _ "[]" w r 0] assms(1,2)
    by (auto simp: accepts_def Cons Match_WhiteSpace_def found_def)
  moreover have "list_all (\<lambda>mm. refuses u (fst mm) (c # w' @ r)) (take 2 sproto_ms)"
    using assms(1) by (auto simp: Cons sproto_ms_def refuses_simps ch_def IsDigit_def isWhiteSpace_def)
  moreover have "sproto_ms = take 2 sproto_ms @ (WhiteSpaceMatcher Token_WhiteSpace, True) # drop (Suc 2) sproto_ms"
    by (simp add: sproto_ms_def)
  ultimately show ?thesis using ignored_run [OF _ _ _ assms(3)] by (simp only: Cons append_Cons)
qed (use assms in simp)

lemma sp_tokens_lines:
  assumes "list_all (\<lambda>c. c = 0x0A) w" "stops (\<lambda>c. c = 0x0A \<or> c = 0x0D) r" "tokens u sproto_ms r ts"
  shows "tokens u sproto_ms (w @ r) ts"
proof (cases w)
  case (Cons c w')
  have "accepts u (LineEndMatcher Token_LineEnd) (c # w' @ r) [0x0D] r"
    unfolding accepts_def
  proof (intro allI impI)
    fix t assume t: "rest t = c # w' @ r"
    with lineend_run [of t "[]" w r] assms(1,2) obtain t' where "lineend_loop t 0 = (t', length w)" "rest t' = rest t"
      by (auto simp: Cons)
    with t show "\<exists>tk t'. Match u (LineEndMatcher Token_LineEnd) t = (Ok tk, t')
        \<and> tmatcher tk = Some (LineEndMatcher Token_LineEnd) \<and> tvalue tk = [0x0D] \<and> rest t' = r"
      by (simp add: Match_LineEnd_def found_def Cons)
  qed
  moreover have "list_all (\<lambda>mm. refuses u (fst mm) (c # w' @ r)) (take 3 sproto_ms)"
    using assms(1) by (auto simp: Cons sproto_ms_def refuses_simps ch_def IsDigit_def isWhiteSpace_def)
  moreover have "sproto_ms = take 3 sproto_ms @ (LineEndMatcher Token_LineEnd, True) # drop (Suc 3) sproto_ms"
    by (simp add: sproto_ms_def)
  ultimately show ?thesis using ignored_run [OF _ _ _ assms(3)] by (simp only: Cons append_Cons)
qed (use assms in simp)

lemma stops_append: "stops P (w @ r)" if "w = [] \<Longrightarrow> stops P r" "\<And>d w'. w = d # w' \<Longrightarrow> \<not> P d"
  using that by (cases w) (simp_all add: stops_def)

lemma stops_weaken: "stops P r \<Longrightarrow> (\<And>c. Q c \<Longrightarrow> P c) \<Longrightarrow> stops Q r"
  by (auto simp: stops_def split: list.splits)

lemma sp_tokens_blank:
  assumes "list_all blank_rune w" "stops (\<lambda>c. blank_rune c \<or> c = 0x0D) r" "tokens u sproto_ms r ts"
  shows "tokens u sproto_ms (w @ r) ts"
  using assms(1)
proof (induction w rule: length_induct)
  case (1 w)
  show ?case
  proof (cases w)
    case Nil
    with assms(3) show ?thesis by simp
  next
    case (Cons c w')
    define p where "p = (\<lambda>d. isWhiteSpace d \<longleftrightarrow> isWhiteSpace c)"
    let ?a = "takeWhile p w" and ?b = "dropWhile p w"
    have w: "w = ?a @ ?b" by simp
    have a: "?a \<noteq> []" by (simp add: Cons p_def)
    have b: "list_all blank_rune ?b" using 1(2) by (simp add: list_all_iff) (meson set_dropWhileD)
    have hb: "\<not> p d \<and> blank_rune d" if "?b = d # b'" for d b'
      using b hd_dropWhile [of p w] that by (metis list.discI list.sel(1) list.pred_inject(2))
    have "length ?b < length w" using a by (metis w length_append length_greater_0_conv less_add_same_cancel2)
    with 1(1) b have t: "tokens u sproto_ms (?b @ r) ts" by blast
    have "list_all (\<lambda>d. blank_rune d \<and> p d) ?a" using 1(2) by (auto simp: list_all_iff dest: set_takeWhileD)
    then have "tokens u sproto_ms (?a @ ?b @ r) ts"
    proof (cases "isWhiteSpace c")
      case True
      have "list_all isWhiteSpace ?a" using \<open>list_all (\<lambda>d. blank_rune d \<and> p d) ?a\<close> True by (auto simp: list_all_iff p_def)
      moreover have "stops isWhiteSpace (?b @ r)"
      proof (rule stops_append)
        show "stops isWhiteSpace r" by (rule stops_weaken [OF assms(2)]) (simp add: blank_rune_def)
        show "\<not> isWhiteSpace d" if "?b = d # b'" for d b' using hb [OF that] True by (simp add: p_def)
      qed
      ultimately show ?thesis by (rule sp_tokens_whitespace [OF _ _ t])
    next
      case False
      have "list_all (\<lambda>c. c = 0x0A) ?a" using \<open>list_all (\<lambda>d. blank_rune d \<and> p d) ?a\<close> False by (auto simp: list_all_iff p_def blank_rune_def)
      moreover have "stops (\<lambda>c. c = 0x0A \<or> c = 0x0D) (?b @ r)"
      proof (rule stops_append)
        show "stops (\<lambda>c. c = 0x0A \<or> c = 0x0D) r" by (rule stops_weaken [OF assms(2)]) (auto simp: blank_rune_def)
        show "\<not> (d = 0x0A \<or> d = 0x0D)" if "?b = d # b'" for d b'
          using hb [OF that] False by (auto simp: p_def blank_rune_def isWhiteSpace_def)
      qed
      ultimately show ?thesis by (rule sp_tokens_lines [OF _ _ t])
    qed
    then show ?thesis using w by (metis append.assoc)
  qed
qed

text \<open>A text that begins with blanks, and then has the tokens \<open>ts\<close>.\<close>

definition spaced :: "unicode_tables \<Rightarrow> runes \<Rightarrow> (int \<times> runes) list \<Rightarrow> bool" where
  "spaced u x ts \<longleftrightarrow> (\<exists>b r. x = b @ r \<and> list_all blank_rune b \<and> stops (\<lambda>c. blank_rune c \<or> c = 0x0D) r \<and> tokens u sproto_ms r ts)"

lemma spaced_tokens: "spaced u x ts \<Longrightarrow> tokens u sproto_ms x ts"
  by (auto simp: spaced_def intro: sp_tokens_blank)

lemma spacedI: "stops (\<lambda>c. blank_rune c \<or> c = 0x0D) r \<Longrightarrow> tokens u sproto_ms r ts \<Longrightarrow> spaced u r ts"
  unfolding spaced_def by (intro exI [of _ "[]"] exI [of _ r]) simp

lemma spaced_end: "spaced u [] []"
  by (intro spacedI tokens_end [OF lexes_end]) (simp add: stops_def)

lemma spaced_blank: "blank_rune c \<Longrightarrow> spaced u x ts \<Longrightarrow> spaced u (c # x) ts"
  unfolding spaced_def by (elim exE conjE, rule_tac x = "c # b" in exI, rule_tac x = r in exI) simp

lemma word_starts:
  "ident_word u w \<Longrightarrow> stops (\<lambda>c. blank_rune c \<or> c = 0x0D) (w @ x)" "int_word u w \<Longrightarrow> stops (\<lambda>c. blank_rune c \<or> c = 0x0D) (w @ x)"
  by (auto simp: ident_word_def int_word_def stops_def blank_rune_def isWhiteSpace_def ident_start_def IsLetter_def IsDigit_def ch_def
      split: list.splits)

lemma spaced_ident:
  "ident_word u w \<Longrightarrow> no_keyword w \<Longrightarrow> ends_name x \<Longrightarrow> spaced u x ts \<Longrightarrow> spaced u (w @ x) ((Token_Identifier, w) # ts)"
  by (rule spacedI [OF word_starts(1) sp_tokens_ident [OF _ _ _ spaced_tokens]])

lemma spaced_int:
  "ends_name x \<Longrightarrow> spaced u x ts \<Longrightarrow> spaced u (rs (itoa k) @ x) ((Token_Numeral, rs (itoa k)) # ts)"
  by (rule spacedI [OF word_starts(2) [OF int_word_itoa] sp_tokens_int [OF int_word_itoa _ spaced_tokens]])

lemma sp_tokens_star:
  assumes "tokens u sproto_ms x ts"
  shows "tokens u sproto_ms (ch (CHR ''*'') # x) ((Token_Star, rs ''*'') # ts)"
proof -
  have "lexes u sproto_ms (ch (CHR ''*'') # x) Token_Star [ch (CHR ''*'')] x"
    by (rule sp_lexes_sign [where n = 12])
      (simp_all add: refuses_simps isWhiteSpace_def ch_def IsDigit_def rs_def sproto_ms_def isSign_def IsLetter_def)
  from tokens_more [OF this _ assms] show ?thesis by (simp add: rs_def)
qed

lemma spaced_signs:
  assumes "spaced u x ts"
  shows "spaced u (ch (CHR ''{'') # x) ((Token_CurlyBraceL, rs ''{'') # ts)"
    "spaced u (ch (CHR ''}'') # x) ((Token_CurlyBraceR, rs ''}'') # ts)"
    "spaced u (ch (CHR ''.'') # x) ((Token_Dot, rs ''.'') # ts)"
    "spaced u (ch (CHR '':'') # x) ((Token_Colon, rs '':'') # ts)"
    "spaced u (ch (CHR ''*'') # x) ((Token_Star, rs ''*'') # ts)"
  by (rule spacedI [OF _ sp_tokens_signs(1) [OF spaced_tokens [OF assms]]]
        spacedI [OF _ sp_tokens_signs(2) [OF spaced_tokens [OF assms]]]
        spacedI [OF _ sp_tokens_signs(5) [OF spaced_tokens [OF assms]]]
        spacedI [OF _ sp_tokens_signs(6) [OF spaced_tokens [OF assms]]]
        spacedI [OF _ sp_tokens_star [OF spaced_tokens [OF assms]]],
      simp add: stops_def blank_rune_def isWhiteSpace_def ch_def)+

lemma spaced_enum:
  assumes "spaced u x ts"
  shows "spaced u (rs ''enum'' @ x) ((Token_Enum, rs ''enum'') # ts)"
proof -
  let ?m = "KeywordMatcher Token_Enum (rs ''enum'')"
  have "accepts u ?m (rs ''enum'' @ x) (rs ''enum'') x"
    unfolding accepts_def
  proof (intro allI impI)
    fix t assume t: "rest t = rs ''enum'' @ x"
    have "keyword_at u t 0 (rs ''enum'')" using t by (simp add: rs_def ch_def isKeyword_def IsLetter_def Peek_rest)
    moreover have "index t + 4 \<le> length (src t)" using t length_rest [of t] by (simp add: rs_def)
    ultimately show "\<exists>tk t'. Match u ?m t = (Ok tk, t') \<and> tmatcher tk = Some ?m \<and> tvalue tk = rs ''enum'' \<and> rest t' = x"
      using t by (simp add: Match_Keyword_def found_def rs_def)
  qed
  moreover have "list_all (\<lambda>mm. refuses u (fst mm) (rs ''enum'' @ x)) (take 16 sproto_ms)"
    by (simp add: refuses_simps isWhiteSpace_def ch_def IsDigit_def rs_def sproto_ms_def)
  moreover have "sproto_ms = take 16 sproto_ms @ (?m, False) # drop 17 sproto_ms" by (simp add: sproto_ms_def)
  ultimately have "lexes u sproto_ms (rs ''enum'' @ x) (ID ?m) (rs ''enum'') x"
    by (intro lexes_accepts) (simp_all add: rs_def)
  from tokens_more [OF this _ spaced_tokens [OF assms]] show ?thesis
    by (intro spacedI) (simp_all add: stops_def blank_rune_def isWhiteSpace_def ch_def rs_def)
qed

section \<open>The tokens of the written text\<close>

definition plain_word :: "unicode_tables \<Rightarrow> string \<Rightarrow> bool" where
  "plain_word u s \<longleftrightarrow> ident_word u (rs s) \<and> no_keyword (rs s)"

lemma rs_text [simp]: "rs [] = []" "rs (c # s) = ch c # rs s" "rs (s @ t) = rs s @ rs t"
  by (simp_all add: rs_def)

definition pb_value_toks :: "pb_value \<Rightarrow> (int \<times> runes) list" where
  "pb_value_toks v = [(Token_Identifier, rs (pvName v)), (Token_Numeral, rs (itoa (pvNumber v)))]"

definition pb_enum_toks :: "pb_enum \<Rightarrow> (int \<times> runes) list" where
  "pb_enum_toks e =
     (Token_Enum, rs ''enum'') # (Token_Identifier, rs (peName e)) # (Token_CurlyBraceL, rs ''{'')
     # concat (map pb_value_toks (peValues e)) @ brace_toks []"

lemma blanks [simp]: "blank_rune (ch (CHR 0x0A))" "blank_rune (ch (CHR 0x09))" "blank_rune (ch (CHR '' ''))"
  by (simp_all add: blank_rune_def isWhiteSpace_def ch_def)

lemma ends [simp]: "ends_name (ch (CHR 0x0A) # x)" "ends_name (ch (CHR '' '') # x)"
  by (simp_all add: ends_name_def ch_def)

lemma spaced_value:
  assumes "plain_word u (pvName v)" "spaced u x ts"
  shows "spaced u (rs (pb_value_text v) @ x) (pb_value_toks v @ ts)"
  using assms by (simp add: pb_value_text_def pb_value_toks_def ln_def plain_word_def spaced_blank spaced_ident spaced_int)

lemma spaced_values:
  assumes "list_all (\<lambda>v. plain_word u (pvName v)) vs" "spaced u x ts"
  shows "spaced u (rs (concat (map pb_value_text vs)) @ x) (concat (map pb_value_toks vs) @ ts)"
  using assms by (induction vs) (simp_all add: spaced_value)

definition plain_enum :: "unicode_tables \<Rightarrow> pb_enum \<Rightarrow> bool" where
  "plain_enum u e \<longleftrightarrow> plain_word u (peName e) \<and> peLeading e = [] \<and> list_all (\<lambda>v. plain_word u (pvName v)) (peValues e)"

lemma tokens_enum:
  assumes "plain_enum u e"
  shows "tokens u sproto_ms (rs (enum_text e)) (pb_enum_toks e)"
proof -
  have "spaced u (rs (ln 0 [] @ ln 0 ''}'')) (brace_toks [])"
    using spaced_signs(2) [OF spaced_blank [OF _ spaced_end]] by (simp add: ln_def spaced_blank)
  with spaced_values assms have
    v: "spaced u (rs (concat (map pb_value_text (peValues e))) @ rs (ln 0 [] @ ln 0 ''}'')) (concat (map pb_value_toks (peValues e)) @ brace_toks [])"
    by (simp add: plain_enum_def)
  have "rs (enum_text e) = ch (CHR 0x0A) # ch (CHR 0x0A) # rs ''enum'' @ ch (CHR '' '') # rs (peName e) @ ch (CHR '' '') # ch (CHR ''{'')
      # ch (CHR 0x0A) # ch (CHR 0x09) # rs (concat (map pb_value_text (peValues e))) @ rs (ln 0 [] @ ln 0 ''}'')"
    using assms by (simp add: enum_text_def ln_def plain_enum_def addCommentSignAtEachLine_def)
  also have "spaced u \<dots> (pb_enum_toks e)"
    unfolding pb_enum_toks_def using assms
    by (intro spaced_blank spaced_enum spaced_ident spaced_signs(1) v) (simp_all add: plain_enum_def plain_word_def)
  finally show ?thesis by (rule spaced_tokens)
qed

section \<open>An enumeration is refused\<close>

lemma bind_run_Err: "m p = Some (Err e, p') \<Longrightarrow> bind_run m k p = Some (Err e, p')"
  by (simp add: bind_run_def)

lemma no_comment_values:
  "no_comment (concat (map pb_value_toks vs) @ brace_toks [])" "no_comment (tl (pb_enum_toks e))" "no_comment (pb_enum_toks e)"
proof -
  show v: "no_comment (concat (map pb_value_toks vs) @ brace_toks [])" for vs
    by (induction vs) (auto simp: no_comment_def pb_value_toks_def)
  show "no_comment (tl (pb_enum_toks e))" "no_comment (pb_enum_toks e)"
    using v [of "peValues e"] by (simp_all add: no_comment_def pb_enum_toks_def)
qed

text \<open>A token that is not expected.\<close>

lemma unexpected_at:
  assumes "at_tokens u p ((i, v) # ts) h" "i \<noteq> Token_Identifier"
  shows "sproto_Expect u Token_Identifier p = Some (Err (rs ''Expect IdentifierMatcher''), p)"
proof -
  have "matchers (lexer p) = sproto_ms" using assms(1) by (simp add: at_tokens_def stream_def ahead_def)
  then have "MatcherString (lexer p) Token_Identifier = rs ''IdentifierMatcher''"
    by (simp add: MatcherString_def MatcherByID_def sproto_ms_def matcher_String_def)
  with assms at_tokens_ID [OF assms(1)] show ?thesis by (simp add: sproto_Expect_def raise_def)
qed

text \<open>The first value gets the number 0, and the number that follows is where a name is expected.\<close>

lemma parseEnumField_first:
  assumes "at_tokens u p ((Token_Identifier, n) # (Token_Numeral, k) # ts) h" "no_comment ((Token_Numeral, k) # ts)"
    "d < length (ds h)" "Fields (ds h ! d) = []" "FieldByName (ds h ! d) = []" "FieldByTag (ds h ! d) = []"
  shows "\<exists>p' h'. parseEnumField u d p = Some (Ok (), p') \<and> at_tokens u p' ((Token_Numeral, k) # ts) h'"
proof -
  let ?a = "length (fds h)" and ?ts = "(Token_Numeral, k) # ts"
  define p1 where "p1 = p\<lparr>heap := with_fd h (empty_field d)\<rparr>"
  have p: "heap p = h" using assms(1) by (simp add: at_tokens_def)
  have "at_tokens u p1 ((Token_Identifier, n) # ?ts) (with_fd h (empty_field d))" using assms(1) by (simp add: p1_def p)
  from field_name_at [OF this assms(2), of d] assms(5) obtain p2 where p2: "field_name u d ?a p1 = Some (Ok (), p2)"
    "at_tokens u p2 ?ts (with_fd h ((empty_field d)\<lparr>fName := n\<rparr>))" by auto
  have h2: "heap p2 = with_fd h ((empty_field d)\<lparr>fName := n\<rparr>)" using p2(2) by (simp add: at_tokens_def)
  let ?v = "(empty_field d)\<lparr>fName := n, AutoTag := 0, fType := FieldType_Int32\<rparr>"
  define p3 where "p3 = p2\<lparr>heap := with_fd h ?v\<rparr>"
  have p3: "at_tokens u p3 ?ts (with_fd h ?v)" using p2(2) by (simp add: p3_def h2)
  from field_comment_at [OF this, of "curr p1"] obtain p4 where p4: "field_comment u (curr p1) ?a p3 = Some (Ok (), p4)"
    "at_tokens u p4 ?ts (with_fd h (?v\<lparr>fComment := newCommentGroup\<rparr>))" by blast
  have h4: "heap p4 = with_fd h (?v\<lparr>fComment := newCommentGroup\<rparr>)" using p4(2) by (simp add: at_tokens_def)
  have p5: "checkField d ?a p4 = Some (Ok (), p4)" using assms(5,6) by (simp add: checkField_def h4 Let_def ret_def)
  define tg where "tg = (\<lambda>p. if TokenID p = Token_Assign
       then bind_run (sproto_NextToken u) (\<lambda>_.
         bind_run (sproto_Expect u Token_Numeral) (\<lambda>t. upd_fd ?a (\<lambda>fd. fd\<lparr>Tag := ToInt t\<rparr>))) p
       else auto_tag d ?a p)"
  have tg: "bind_run tg (\<lambda>_. bind_run (upd_fd ?a (\<lambda>fd. fd\<lparr>fType := FieldType_Int32\<rparr>)) k) p2 = k () p3" for k :: "unit \<Rightarrow> unit parse"
    using at_tokens_ID [OF p2(2)] assms(4)
    by (simp add: tg_def bind_run_def auto_tag_def h2 upd_fd_def modify_def p3_def get_heap_def)
  have "parseEnumField u d p = bind_run raw_token (\<lambda>nameToken. bind_run (field_name u d ?a) (\<lambda>_. bind_run tg (\<lambda>_.
      bind_run (upd_fd ?a (\<lambda>fd. fd\<lparr>fType := FieldType_Int32\<rparr>)) (\<lambda>_. bind_run (field_comment u nameToken ?a) (\<lambda>_.
      bind_run (checkField d ?a) (\<lambda>_. modify (addField d ?a))))))) p1"
    unfolding parseEnumField_def bind_heap(5) p newField_at fst_conv snd_conv p1_def tg_def by (rule refl)
  also have "\<dots> = Some (Ok (), p4\<lparr>heap := addField d ?a (heap p4)\<rparr>)"
    by (simp add: bind_run_Ok p2(1) tg p4(1) p5 modify_def del: bind_heap(6))
  finally show ?thesis using p4(2) by (auto simp: h4)
qed

lemma fields_stop:
  assumes "at_tokens u p ((Token_Numeral, k) # ts) h"
  shows "fields_until_brace u (parseEnumField u d) p
    = Some (Err (rs ''Expect IdentifierMatcher''), p\<lparr>heap := snd (newFieldDescriptor d h)\<rparr>)"
proof -
  let ?p1 = "p\<lparr>heap := snd (newFieldDescriptor d h)\<rparr>"
  have p: "heap p = h" "TokenID p \<noteq> Token_CurlyBraceR"
    using assms at_tokens_ID [OF assms] by (simp_all add: at_tokens_def)
  have "at_tokens u ?p1 ((Token_Numeral, k) # ts) (snd (newFieldDescriptor d h))" using assms by (simp add: p(1))
  from unexpected_at [OF this] have "parseEnumField u d p = Some (Err (rs ''Expect IdentifierMatcher''), ?p1)"
    by (simp add: parseEnumField_def p(1) field_name_def bind_run_Err del: rs_text)
  with p(2) show ?thesis by (simp add: fields_until_brace.simps [of u _ p] bind_run_Err del: rs_text)
qed

abbreviation empty_enum :: "nat \<Rightarrow> runes \<Rightarrow> Descriptor" where
  "empty_enum f n \<equiv> (empty_struct f n)\<lparr>dType := DescriptorType_Enum\<rparr>"

lemma parseEnum_stops:
  assumes "at_tokens u p (pb_enum_toks e) h" "peValues e \<noteq> []"
  shows "\<exists>p'. parseEnum u f srcName p = Some (Err (rs ''Expect IdentifierMatcher''), p')"
proof -
  obtain v vs where vs: "peValues e = v # vs" using assms(2) by (cases "peValues e") auto
  let ?n = "rs (peName e)" and ?d = "length (ds h)"
  let ?ts = "concat (map pb_value_toks (peValues e)) @ brace_toks []"
  let ?vs = "concat (map pb_value_toks vs) @ brace_toks []"
  have c: "no_comment ?ts" "no_comment ((Token_CurlyBraceL, rs ''{'') # ?ts)"
    "no_comment ((Token_Identifier, ?n) # (Token_CurlyBraceL, rs ''{'') # ?ts)"
    using no_comment_values(2) [of e] by (simp_all add: pb_enum_toks_def no_comment_def del: rs_text)
  from expect_at [OF assms(1) [unfolded pb_enum_toks_def] c(3)] obtain p1 where
    p1: "sproto_Expect u Token_Enum p = Some (Ok (curr p), p1)"
    "at_tokens u p1 ((Token_Identifier, ?n) # (Token_CurlyBraceL, rs ''{'') # ?ts) h" by blast
  define p2 where "p2 = p1\<lparr>heap := with_d h (empty_enum f [])\<rparr>"
  have h1: "heap p1 = h" using p1(2) by (simp add: at_tokens_def)
  have "at_tokens u p2 ((Token_Identifier, ?n) # (Token_CurlyBraceL, rs ''{'') # ?ts) (with_d h (empty_enum f []))"
    using p1(2) by (simp add: p2_def h1)
  from expect_at [OF this c(2)] obtain p3 where p3: "sproto_Expect u Token_Identifier p2 = Some (Ok (curr p2), p3)"
    "at_tokens u p3 ((Token_CurlyBraceL, rs ''{'') # ?ts) (with_d h (empty_enum f []))" "Value (curr p2) = ?n" by blast
  from upd_d_at [OF p3(2), of "\<lambda>v. v\<lparr>dName := ?n\<rparr>"] obtain p4 where p4: "upd_d ?d (\<lambda>v. v\<lparr>dName := ?n\<rparr>) p3 = Some (Ok (), p4)"
    "at_tokens u p4 ((Token_CurlyBraceL, rs ''{'') # ?ts) (with_d h (empty_enum f ?n))"
    by (auto simp: empty_struct_def)
  from upd_d_at [OF p4(2), of "\<lambda>v. v\<lparr>dComment := newCommentGroup\<rparr>"] obtain p5 where
    p5: "upd_d ?d (\<lambda>v. v\<lparr>dComment := newCommentGroup\<rparr>) p4 = Some (Ok (), p5)"
    "at_tokens u p5 ((Token_CurlyBraceL, rs ''{'') # ?ts) (with_d h (empty_enum f ?n))"
    by (auto simp: empty_struct_def)
  from expect_at [OF p5(2) c(1)] obtain p6 where p6: "sproto_Expect u Token_CurlyBraceL p5 = Some (Ok (curr p5), p6)"
    "at_tokens u p6 ?ts (with_d h (empty_enum f ?n))" by blast
  from p6(2) have p6': "at_tokens u p6 ((Token_Identifier, rs (pvName v)) # (Token_Numeral, rs (itoa (pvNumber v))) # ?vs)
      (with_d h (empty_enum f ?n))" by (simp add: vs pb_value_toks_def del: rs_text)
  have "no_comment ((Token_Numeral, rs (itoa (pvNumber v))) # ?vs)"
    using c(1) by (simp add: vs pb_value_toks_def no_comment_def del: rs_text)
  from parseEnumField_first [OF p6' this, of ?d] obtain p7 h7 where p7: "parseEnumField u ?d p6 = Some (Ok (), p7)"
    "at_tokens u p7 ((Token_Numeral, rs (itoa (pvNumber v))) # ?vs) h7" by (auto simp: empty_struct_def)
  have "TokenID p6 \<noteq> Token_CurlyBraceR" using at_tokens_ID [OF p6'] by simp
  then have p8: "fields_until_brace u (parseEnumField u ?d) p6
      = Some (Err (rs ''Expect IdentifierMatcher''), p7\<lparr>heap := snd (newFieldDescriptor ?d h7)\<rparr>)"
    by (simp add: fields_until_brace.simps [of u _ p6] bind_run_Ok p7(1) fields_stop [OF p7(2)] del: rs_text)
  have new: "newDescriptor f h = (?d, with_d h ((empty_struct f [])\<lparr>dType := DescriptorType_None\<rparr>))"
    by (simp add: newDescriptor_def with_d_def empty_struct_def)
  have "upd_d ?d (\<lambda>v. v\<lparr>dType := DescriptorType_Enum\<rparr>) (p1\<lparr>heap := snd (newDescriptor f h)\<rparr>) = Some (Ok (), p2)"
    by (simp add: new upd_d_def modify_def p2_def)
  then show ?thesis
    by (simp add: parseEnum_def bind_run_Ok p1(1) h1 new p3(1,3) p4(1) CommentGroup_at [OF p4(2)] p5(1) p6(1) p8 bind_run_Err
        del: bind_heap(7) rs_text)
qed

text \<open>
  C39: The schema parser refuses the text that \<^verbatim>\<open>pb2sproto\<close> writes for an enumeration with a value: the
  number stands after the name without an equals sign, and a name is expected in its place.
\<close>

theorem written_enum_refused:
  assumes "plain_enum u e" "peValues e \<noteq> []"
  shows "\<exists>pos h'. rawParse u f (rs (enum_text e)) srcName h = Some (Ok (Some (pos @ rs '' Expect IdentifierMatcher'')), h')"
proof -
  obtain p where p: "at_tokens u p (pb_enum_toks e) h" "rawParse u f (rs (enum_text e)) srcName h = map_option
      (\<lambda>(r, p'). (case r of
            Ok _ \<Rightarrow> Ok None
          | Err e \<Rightarrow> Ok (Some (TokenPos_String (prePos p') @ rs '' '' @ e))
          | Panic q \<Rightarrow> Panic q, heap p')) (parse_objects u f srcName p)"
    by (rule rawParse_start [OF tokens_enum [OF assms(1)] no_comment_values(3)])
  obtain p' where "parseEnum u f srcName p = Some (Err (rs ''Expect IdentifierMatcher''), p')"
    using parseEnum_stops [OF p(1) assms(2)] by blast
  moreover have "TokenID p = Token_Enum" using at_tokens_ID [OF p(1) [unfolded pb_enum_toks_def]] by simp
  ultimately have "parse_objects u f srcName p = Some (Err (rs ''Expect IdentifierMatcher''), p')"
    by (simp add: parse_objects.simps [of u f srcName p] bind_run_Err del: rs_text)
  with p(2) show ?thesis by auto
qed

text \<open>The enumeration of \<^verbatim>\<open>pb.proto\<close>.\<close>

definition my_car :: pb_enum where
  "my_car = \<lparr>peName = ''MyCar'', peLeading = [],
     peValues = [\<lparr>pvName = ''Monkey'', pvNumber = 0\<rparr>, \<lparr>pvName = ''Monk'', pvNumber = 1\<rparr>, \<lparr>pvName = ''Pig'', pvNumber = 2\<rparr>]\<rparr>"

lemmas word_eval = plain_word_def ident_word_def no_keyword_def ident_start_def ident_part_def IsLetter_def IsDigit_def ch_def

lemma plain_my_car: "plain_enum latin my_car"
  by (simp add: plain_enum_def my_car_def word_eval)

theorem written_enum_refused_witness:
  "\<exists>pos h'. rawParse latin 0 (rs (enum_text my_car)) (rs ''pb.sp'') NewFileDescriptorSet
     = Some (Ok (Some (pos @ rs '' Expect IdentifierMatcher'')), h')"
  by (rule written_enum_refused [OF plain_my_car]) (simp add: my_car_def)

section \<open>A message is parsed back\<close>

text \<open>The type that \<open>TypeString\<close> writes for a scalar; messages and enumerations are references.\<close>

definition scalar_type :: "pb_type \<Rightarrow> FieldType" where
  "scalar_type t =
     (case t of TYPE_INT64 \<Rightarrow> FieldType_Int64 | TYPE_UINT64 \<Rightarrow> FieldType_UInt64 | TYPE_INT32 \<Rightarrow> FieldType_Int32
      | TYPE_FLOAT \<Rightarrow> FieldType_Int32 | TYPE_DOUBLE \<Rightarrow> FieldType_Int32 | TYPE_UINT32 \<Rightarrow> FieldType_UInt32
      | TYPE_BOOL \<Rightarrow> FieldType_Bool | TYPE_STRING \<Rightarrow> FieldType_String | _ \<Rightarrow> FieldType_None)"

definition pb_shape :: "pb_field \<Rightarrow> runes \<times> int \<times> bool \<times> FieldType" where
  "pb_shape f = (rs (pfName f), pfNumber f, pfRepeated f, scalar_type (pfType f))"

definition plain_pb_field :: "unicode_tables \<Rightarrow> pb_field \<Rightarrow> bool" where
  "plain_pb_field u f \<longleftrightarrow> plain_word u (pfName f) \<and> scalar_type (pfType f) \<noteq> FieldType_None \<and> pfTrailing f = []
     \<and> - (2 ^ 31) \<le> pfNumber f \<and> pfNumber f < 2 ^ 31"

definition plain_message :: "unicode_tables \<Rightarrow> pb_message \<Rightarrow> bool" where
  "plain_message u m \<longleftrightarrow> plain_word u (pmName m) \<and> pmLeading m = [] \<and> list_all (plain_pb_field u) (pmFields m)
     \<and> distinct (map (\<lambda>f. rs (pfName f)) (pmFields m)) \<and> distinct (map pfNumber (pmFields m))"

text \<open>The fields of the message as fields of a schema.\<close>

definition pb_schema :: "pb_field list \<Rightarrow> schema" where
  "pb_schema fs = NewFileDescriptorSet
     \<lparr>fds := map (\<lambda>f. \<lparr>fComment = newCommentGroup, FieldDescriptor.fName = rs (pfName f), FieldDescriptor.fType = scalar_type (pfType f),
         Tag = pfNumber f, AutoTag = -1, Repeatd = pfRepeated f, MainIndex = None, Complex = None, Struct = 0\<rparr>) fs,
      ds := [empty_struct 0 []]\<rparr>"

lemma pb_schema_shape:
  "i < length fs \<Longrightarrow> shape (pb_schema fs) i = pb_shape (fs ! i)" "i < length fs \<Longrightarrow> TagNumber (pb_schema fs) i = pfNumber (fs ! i)"
  by (simp_all add: shape_def pb_shape_def TagNumber_def pb_schema_def empty_struct_def Let_def)

lemma scalar_builtin: "scalar_type t \<noteq> FieldType_None \<Longrightarrow> builtin (scalar_type t)"
  by (cases t) (simp_all add: scalar_type_def builtin_def)

lemma pb_plain_fields:
  assumes "plain_message u m"
  shows "plain_fields u (pb_schema (pmFields m)) [0..<length (pmFields m)]"
proof -
  let ?fs = "pmFields m" and ?h = "pb_schema (pmFields m)"
  have n: "FieldDescriptor.fName (fds ?h ! i) = rs (pfName (?fs ! i))" "FieldDescriptor.fType (fds ?h ! i) = scalar_type (pfType (?fs ! i))"
    "MainIndex (fds ?h ! i) = None" if "i < length ?fs" for i
    using that by (simp_all add: pb_schema_def)
  have "plain_field u ?h i" if "i < length ?fs" for i
    using assms n [OF that] pb_schema_shape(2) [OF that] that
    by (simp add: plain_field_def plain_message_def plain_pb_field_def list_all_length plain_word_def scalar_builtin Let_def)
  moreover have "map (\<lambda>i. FieldDescriptor.fName (fds ?h ! i)) [0..<length ?fs] = map (\<lambda>f. rs (pfName f)) ?fs"
    "map (TagNumber ?h) [0..<length ?fs] = map pfNumber ?fs"
    using n pb_schema_shape(2) by (auto intro!: nth_equalityI)
  ultimately show ?thesis using assms by (simp add: plain_fields_def plain_message_def list_all_iff)
qed

lemma rs_TypeString:
  assumes "scalar_type (pfType f) \<noteq> FieldType_None"
  shows "rs (TypeString f) = (if pfRepeated f then [ch (CHR ''*'')] else []) @ type_word True (scalar_type (pfType f))"
  using assms
  by (cases "pfType f") (simp_all add: TypeString_def scalar_type_def type_word_def FieldType_name_def strByFieldtype_def fieldtypeByStr_def)

lemma spaced_field:
  assumes "plain_pb_field u f" "spaced u x ts"
    "field_toks True h a = [(Token_Identifier, rs (pfName f)), (Token_Numeral, rs (itoa (pfNumber f))), (Token_Colon, rs '':'')]
       @ (if pfRepeated f then [(Token_Star, rs ''*'')] else []) @ [(Token_Identifier, type_word True (scalar_type (pfType f)))]"
  shows "spaced u (rs (pb_field_text f) @ x) (field_toks True h a @ ts)"
proof -
  let ?w = "type_word True (scalar_type (pfType f))"
  have f: "plain_word u (pfName f)" "scalar_type (pfType f) \<noteq> FieldType_None" "pfTrailing f = []"
    using assms(1) by (simp_all add: plain_pb_field_def)
  have w: "ident_word u ?w" "no_keyword ?w" using type_word [OF scalar_builtin [OF f(2)], of u True] by blast+
  have t: "spaced u (?w @ ch (CHR '' '') # ch (CHR 0x0A) # ch (CHR 0x09) # x) ((Token_Identifier, ?w) # ts)"
    by (intro spaced_ident w spaced_blank assms(2)) simp_all
  then have "spaced u (rs (TypeString f) @ ch (CHR '' '') # ch (CHR 0x0A) # ch (CHR 0x09) # x)
      ((if pfRepeated f then [(Token_Star, rs ''*'')] else []) @ (Token_Identifier, ?w) # ts)"
    using spaced_signs(5) [OF t] by (simp add: rs_TypeString [OF f(2)] del: rs_text)
  then show ?thesis
    using f(1) by (simp add: assms(3) pb_field_text_def ln_def f(3) addCommentSignAtEachLine_def plain_word_def spaced_blank spaced_ident
        spaced_int spaced_signs(4) [simplified])
qed

lemma pb_field_toks:
  "i < length fs \<Longrightarrow> field_toks True (pb_schema fs) i =
     [(Token_Identifier, rs (pfName (fs ! i))), (Token_Numeral, rs (itoa (pfNumber (fs ! i)))), (Token_Colon, rs '':'')]
       @ (if pfRepeated (fs ! i) then [(Token_Star, rs ''*'')] else [])
       @ [(Token_Identifier, type_word True (scalar_type (pfType (fs ! i))))]"
  using pb_schema_shape(2) [of i fs] by (simp add: field_toks_def array_toks_def Let_def pb_schema_def)

lemma spaced_fields:
  assumes "list_all (plain_pb_field u) fs" "\<forall>i \<in> set l. i < length fs" "spaced u x ts"
  shows "spaced u (rs (concat (map (\<lambda>i. pb_field_text (fs ! i)) l)) @ x) (concat (map (field_toks True (pb_schema fs)) l) @ ts)"
  using assms(2)
proof (induction l)
  case (Cons i l)
  then have i: "i < length fs" by simp
  with assms(1) have "plain_pb_field u (fs ! i)" by (simp add: list_all_length)
  from spaced_field [OF this Cons.IH pb_field_toks [OF i]] Cons.prems show ?case by simp
qed (use assms in simp)

lemma tokens_message:
  assumes "plain_message u m"
  shows "tokens u sproto_ms (rs (message_text m)) (struct_toks True (pb_schema (pmFields m)) (rs (pmName m)) [0..<length (pmFields m)])"
proof -
  let ?fs = "pmFields m"
  have l: "map (\<lambda>i. pb_field_text (?fs ! i)) [0..<length ?fs] = map pb_field_text ?fs" by (auto intro: nth_equalityI)
  have "spaced u (rs (ln 0 [] @ ln 0 ''}'')) (brace_toks [])"
    using spaced_signs(2) [OF spaced_blank [OF _ spaced_end]] by (simp add: ln_def spaced_blank)
  from spaced_fields [OF _ _ this, of ?fs "[0..<length ?fs]"] assms
  have f: "spaced u (rs (concat (map pb_field_text ?fs)) @ rs (ln 0 [] @ ln 0 ''}''))
      (concat (map (field_toks True (pb_schema ?fs)) [0..<length ?fs]) @ brace_toks [])"
    by (simp add: plain_message_def l)
  have t: "rs (message_text m) = ch (CHR 0x0A) # ch (CHR 0x0A) # ch (CHR ''.'') # rs (pmName m) @ ch (CHR '' '') # ch (CHR ''{'')
      # ch (CHR 0x0A) # ch (CHR 0x09) # rs (concat (map pb_field_text ?fs)) @ rs (ln 0 [] @ ln 0 ''}'')"
    using assms by (simp add: message_text_def ln_def plain_message_def addCommentSignAtEachLine_def)
  show ?thesis
    unfolding t struct_toks_def using assms
    by (intro spaced_tokens spaced_blank spaced_ident spaced_signs(1,3) f) (simp_all add: plain_message_def plain_word_def)
qed

text \<open>
  C40: What \<^verbatim>\<open>pb2sproto\<close> writes for a message with scalar fields is parsed without an error into a structure
  of that name whose fields have the same names, numbers and array marks, in the same order, with the sproto types of
  the converter. The names are plain identifiers and differ, the numbers differ, and there are no comments.
\<close>

theorem written_message_parsed:
  assumes "plain_message u m" "f < length (fls h)" "\<not> NameExists (fls h ! f) (rs (pmName m))"
  shows "\<exists>h' e. rawParse u f (rs (message_text m)) srcName h = Some (Ok None, h')
     \<and> map_of (StructByName (fls h' ! f)) (rs (pmName m)) = Some e
     \<and> map (shape h') (Fields (ds h' ! e)) = map pb_shape (pmFields m)"
proof -
  have "map (shape (pb_schema (pmFields m))) [0..<length (pmFields m)] = map pb_shape (pmFields m)"
    using pb_schema_shape(1) by (auto intro!: nth_equalityI)
  with parsed_struct [OF tokens_message [OF assms(1)] pb_plain_fields [OF assms(1)] assms(2,3)] show ?thesis by simp
qed

definition person :: pb_message where
  "person = \<lparr>pmName = ''Person'', pmLeading = [],
     pmFields = [\<lparr>pfName = ''Name'', pfNumber = 1, pfRepeated = False, pfType = TYPE_STRING, pfMessageDesc = [], pfEnumDesc = [], pfTrailing = []\<rparr>,
       \<lparr>pfName = ''Ids'', pfNumber = 2, pfRepeated = True, pfType = TYPE_INT32, pfMessageDesc = [], pfEnumDesc = [], pfTrailing = []\<rparr>,
       \<lparr>pfName = ''Staff'', pfNumber = 5, pfRepeated = False, pfType = TYPE_BOOL, pfMessageDesc = [], pfEnumDesc = [], pfTrailing = []\<rparr>]\<rparr>"

lemma plain_person: "plain_message latin person"
  by (simp add: plain_message_def person_def plain_pb_field_def scalar_type_def word_eval)

theorem written_message_parsed_witness:
  "\<exists>h' e. rawParse latin 0 (rs (message_text person)) (rs ''pb.sp'') (snd (NewFileDescriptor NewFileDescriptorSet)) = Some (Ok None, h')
     \<and> map (shape h') (Fields (ds h' ! e))
         = [(rs ''Name'', 1, False, FieldType_String), (rs ''Ids'', 2, True, FieldType_Int32), (rs ''Staff'', 5, False, FieldType_Bool)]"
proof -
  let ?h = "snd (NewFileDescriptor NewFileDescriptorSet)"
  have "0 < length (fls ?h)" "\<not> NameExists (fls ?h ! 0) (rs (pmName person))"
    by (simp_all add: NewFileDescriptor_def NewFileDescriptorSet_def NameExists_def)
  from written_message_parsed [OF plain_person this] show ?thesis
    by (fastforce simp: person_def pb_shape_def scalar_type_def)
qed

text \<open>A type without a case leaves the type of the field empty, as for \<^verbatim>\<open>bytes\<close>.\<close>

lemma other_type_empty: "pfType f = TYPE_OTHER k \<Longrightarrow> TypeString f = (if pfRepeated f then ''*'' else [])"
  by (simp add: TypeString_def)

end
