(* ===== verification/Gen_Cellnet.thy ===== *)
theory Gen_Cellnet
  imports Gen_Proto Cellnet_Rpc
begin

text \<open>
  The generators of cellnet: \<^verbatim>\<open>objprotogen\<close>, which registers the structures of Go files for the binary codec
  (\<^verbatim>\<open>model.go\<close>, \<^verbatim>\<open>printer.go\<close>, \<^verbatim>\<open>main.go\<close>), and \<^verbatim>\<open>protoc-gen-msg\<close>, which registers the messages of
  protobuf files (\<^verbatim>\<open>file.go\<close>, \<^verbatim>\<open>main.go\<close>). A generated file is a text and a list of registrations, which run when the
  program starts. The syntax tree of a Go file has the nodes that the generator looks at.
\<close>

section \<open>Registrations\<close>

record registration =
  rCodec :: string
  rName :: string
  rType :: string
  rID :: u32

text \<open>The line of a generated file, and what it does; \<open>tp\<close> are the types of the package.\<close>

definition reg_line :: "registration \<Rightarrow> string" where
  "reg_line r =
     tabs 1 @ ''cellnet.RegisterMessageMeta('' @ in_quotes (rCodec r) @ '','' @ in_quotes (rName r) @ '', reflect.TypeOf((*''
     @ rType r @ '')(nil)).Elem(), '' @ show_nat (unat (rID r)) @ '')'' @ [CHR 0x09]"

fun run_init :: "(string \<Rightarrow> msgtype) \<Rightarrow> registration list \<Rightarrow> net \<Rightarrow> net Cellnet_Event.run" where
  "run_init tp [] n = Ok n"
| "run_init tp (r # regs) n =
     bind_go (RegisterMessageMeta (rCodec r) (rName r) (tp (rType r)) (rID r) n) (run_init tp regs)"

section \<open>Structures of Go files\<close>

datatype go_node =
    TypeSpec string go_node
  | StructType "go_field list"
  | GoIdent string
  | GoNode "go_node list"
and go_field = GoField "string list" go_node

record go_file =
  gfName :: string
  gfDecls :: "go_node list"

record obj_field =
  ofName :: string
  ofType :: string

record obj_struct =
  osName :: string
  osFields :: "obj_field list"

record obj_package =
  opName :: string
  opStructs :: "obj_struct list"

definition newFile :: obj_package where
  "newFile = \<lparr>opName = [], opStructs = []\<rparr>"

fun Field_Parse :: "go_field \<Rightarrow> ('e, obj_field) go" where
  "Field_Parse (GoField names t) =
     (case names of
        [] \<Rightarrow> Panic IndexOutOfRange
      | n # _ \<Rightarrow> Ok \<lparr>ofName = n, ofType = (case t of GoIdent x \<Rightarrow> x | _ \<Rightarrow> [])\<rparr>)"

fun Struct_Parse :: "obj_struct \<Rightarrow> go_field list \<Rightarrow> ('e, obj_struct) go" where
  "Struct_Parse st [] = Ok st"
| "Struct_Parse st (fd # l) =
     bind_go (Field_Parse fd) (\<lambda>f. Struct_Parse (st\<lparr>osFields := osFields st @ [f]\<rparr>) l)"

definition Struct_MsgID :: "obj_struct \<Rightarrow> u32" where
  "Struct_MsgID st = StringHash (osName st)"

text \<open>\<^verbatim>\<open>ast.Inspect\<close> visits a node before its children; the callback keeps the structures.\<close>

definition visit_node :: "go_node \<Rightarrow> obj_struct list \<Rightarrow> ('e, obj_struct list) go" where
  "visit_node nd sts =
     (case nd of
        TypeSpec n (StructType l) \<Rightarrow>
          bind_go (Struct_Parse \<lparr>osName = n, osFields = []\<rparr> l) (\<lambda>st. Ok (sts @ [st]))
      | _ \<Rightarrow> Ok sts)"

fun inspect :: "go_node \<Rightarrow> obj_struct list \<Rightarrow> ('e, obj_struct list) go"
  and inspect_fields :: "go_field list \<Rightarrow> obj_struct list \<Rightarrow> ('e, obj_struct list) go"
  and inspect_nodes :: "go_node list \<Rightarrow> obj_struct list \<Rightarrow> ('e, obj_struct list) go" where
  "inspect (TypeSpec n t) sts = bind_go (visit_node (TypeSpec n t) sts) (\<lambda>sts. inspect t sts)"
| "inspect (StructType l) sts = inspect_fields l sts"
| "inspect (GoIdent x) sts = Ok sts"
| "inspect (GoNode nds) sts = inspect_nodes nds sts"
| "inspect_fields [] sts = Ok sts"
| "inspect_fields (GoField names t # l) sts = bind_go (inspect t sts) (\<lambda>sts. inspect_fields l sts)"
| "inspect_nodes [] sts = Ok sts"
| "inspect_nodes (nd # nds) sts = bind_go (inspect nd sts) (\<lambda>sts. inspect_nodes nds sts)"

definition Package_Parse :: "obj_package \<Rightarrow> go_file \<Rightarrow> ('e, obj_package) go" where
  "Package_Parse p file =
     bind_go (inspect (GoNode (gfDecls file)) (opStructs p)) (\<lambda>sts. Ok \<lparr>opName = gfName file, opStructs = sts\<rparr>)"

section \<open>The program objprotogen\<close>

datatype objgen_error = NoFiles | BadSource string | BadTemplate gen_error

text \<open>The parameter \<open>parse_go\<close> stands for \<^verbatim>\<open>parser.ParseFile\<close>: an error or the tree of a file.\<close>

fun parse_files :: "(string \<Rightarrow> string + go_file) \<Rightarrow> string list \<Rightarrow> obj_package \<Rightarrow> (objgen_error, obj_package) go" where
  "parse_files parse_go [] p = Ok p"
| "parse_files parse_go (filename # names) p =
     (case parse_go filename of
        Inl e \<Rightarrow> Err (BadSource e)
      | Inr file \<Rightarrow> bind_go (Package_Parse p file) (parse_files parse_go names))"

definition obj_reg :: "obj_package \<Rightarrow> obj_struct \<Rightarrow> registration" where
  "obj_reg p st = \<lparr>rCodec = ''binary'', rName = opName p @ ''.'' @ osName st, rType = osName st, rID = Struct_MsgID st\<rparr>"

definition obj_regs :: "obj_package \<Rightarrow> registration list" where
  "obj_regs p = map (obj_reg p) (opStructs p)"

definition obj_template :: "obj_package \<Rightarrow> string" where
  "obj_template p =
     ln 0 ''// Generated by github.com/davyxu/cellnet/objprotogen'' @ ln 0 ''// DO NOT EDIT!'' @ ln 0 (''package '' @ opName p) @ ln 0 []
     @ (if opStructs p \<noteq> []
        then ln 0 [] @ ln 0 ''import ('' @ ln 1 (in_quotes ''github.com/davyxu/cellnet'') @ ln 1 (in_quotes ''github.com/davyxu/goobjfmt'')
          @ ln 1 (in_quotes ''reflect'') @ ln 0 '')''
        else []) @ ln 0 [] @ ln 0 []
     @ concat (map (\<lambda>st. ln 0 [] @ ''func (self *'' @ osName st @ '') String() string { return goobjfmt.CompactTextString(self) } '')
         (opStructs p)) @ ln 0 [] @ ln 0 []
     @ ln 0 ''func init() {'' @ [CHR 0x09] @ concat (map reg_line (obj_regs p)) @ ln 0 [] @ ln 0 ''}'' @ ln 0 []"

definition obj_genCode ::
    "(string \<Rightarrow> string option) \<Rightarrow> string \<Rightarrow> obj_package \<Rightarrow> (string \<Rightarrow> string option) \<Rightarrow> (gen_error, string \<times> (string \<Rightarrow> string option)) go" where
  "obj_genCode gofmt out p files = generateCode gofmt True (Ok (obj_template p)) out files"

definition objprotogen_parse ::
    "(string \<Rightarrow> string + go_file) \<Rightarrow> string list \<Rightarrow> (objgen_error, obj_package) go" where
  "objprotogen_parse parse_go names =
     (if names = [] then Err NoFiles else parse_files parse_go names newFile)"

fun lift_gen :: "(gen_error, 'a) go \<Rightarrow> (objgen_error, 'a) go" where
  "lift_gen (Ok x) = Ok x"
| "lift_gen (Err e) = Err (BadTemplate e)"
| "lift_gen (Panic q) = Panic q"

definition objprotogen_main ::
    "(string \<Rightarrow> string + go_file) \<Rightarrow> (string \<Rightarrow> string option) \<Rightarrow> string \<Rightarrow> string list \<Rightarrow> (string \<Rightarrow> string option)
      \<Rightarrow> (objgen_error, string \<times> (string \<Rightarrow> string option)) go" where
  "objprotogen_main parse_go gofmt paramOut names files =
     bind_go (objprotogen_parse parse_go names) (\<lambda>p. lift_gen (obj_genCode gofmt paramOut p files))"

section \<open>Messages of protobuf files\<close>

definition FullName :: "pb_file \<Rightarrow> pb_message \<Rightarrow> string" where
  "FullName f m = pbPackageName f @ ''.'' @ pmName m"

definition pb_MsgID :: "pb_file \<Rightarrow> pb_message \<Rightarrow> u32" where
  "pb_MsgID f m = StringHash (FullName f m)"

definition pb_reg :: "pb_file \<Rightarrow> pb_message \<Rightarrow> registration" where
  "pb_reg f m = \<lparr>rCodec = ''pb'', rName = FullName f m, rType = pmName m, rID = pb_MsgID f m\<rparr>"

definition pb_regs :: "pb_file list \<Rightarrow> registration list" where
  "pb_regs pool = concat (map (\<lambda>f. map (pb_reg f) (pbMessages f)) pool)"

definition TotalMessages :: "pb_file list \<Rightarrow> nat" where
  "TotalMessages pool = sum_list (map (\<lambda>f. length (pbMessages f)) pool)"

definition msg_template :: "string \<Rightarrow> pb_file list \<Rightarrow> string" where
  "msg_template package pool =
     ln 0 ''// Generated by github.com/davyxu/cellnet/protoc-gen-msg'' @ ''// DO NOT EDIT!''
     @ concat (map (\<lambda>f. ln 0 [] @ ''// Source: '' @ pbFileName f) pool) @ ln 0 [] @ ln 0 []
     @ ln 0 (''package '' @ package) @ ln 0 []
     @ (if TotalMessages pool > 0
        then ln 0 [] @ ln 0 ''import ('' @ ln 1 (in_quotes ''github.com/davyxu/cellnet'') @ ln 1 (in_quotes ''reflect'')
          @ ln 1 (''_ '' @ in_quotes ''github.com/davyxu/cellnet/codec/pb'') @ ln 0 '')''
        else []) @ ln 0 [] @ ln 0 []
     @ ln 0 ''func init() {'' @ [CHR 0x09]
     @ concat (map (\<lambda>f. ln 0 [] @ [CHR 0x09] @ ''// '' @ pbFileName f @ concat (map (\<lambda>m. reg_line (pb_reg f m)) (pbMessages f)) @ tabs 1) pool)
     @ ln 0 [] @ ln 0 ''}'' @ ln 0 []"

text \<open>Here a text that \<^verbatim>\<open>gofmt\<close> refuses is an error.\<close>

definition printFile :: "(string \<Rightarrow> string option) \<Rightarrow> pb_file list \<Rightarrow> string \<times> bool" where
  "printFile gofmt pool =
     (case pool of
        [] \<Rightarrow> ([], False)
      | f # _ \<Rightarrow> (case gofmt (msg_template (pbPackageName f) pool) of None \<Rightarrow> ([], False) | Some t \<Rightarrow> (t, True)))"

text \<open>
  The plugin for protoc; the messages of the log are left out, after which it goes on. The parameter \<open>unmarshal\<close> gives
  what the decoder of protobuf leaves in the request.
\<close>

record plugin_request =
  rqParameter :: string
  rqProtoFile :: "pb_file list"

definition protoc_gen_msg_main :: "(string \<Rightarrow> plugin_request) \<Rightarrow> (string \<Rightarrow> string option) \<Rightarrow> string \<Rightarrow> (string \<times> string) list option" where
  "protoc_gen_msg_main unmarshal gofmt data =
     (let request = unmarshal data; (content, ok) = printFile gofmt (rqProtoFile request)
      in if \<not> ok then None else Some [(rqParameter request, content)])"

section \<open>When a generated file can run\<close>

abbreviation type_of :: "(string \<Rightarrow> msgtype) \<Rightarrow> registration \<Rightarrow> string" where
  "type_of tp r \<equiv> tName (tp (rType r))"

definition free_for :: "(string \<Rightarrow> msgtype) \<Rightarrow> net \<Rightarrow> registration \<Rightarrow> bool" where
  "free_for tp n r \<longleftrightarrow> FetchCodec n (rCodec r) \<noteq> None \<and> metaByName n (rName r) = None \<and> metaByID n (rID r) = None
     \<and> metaByType n (type_of tp r) = None"

lemma run_init_Ok_iff:
  "(\<exists>n'. run_init tp regs n = Ok n') \<longleftrightarrow> list_all (free_for tp n) regs \<and> distinct (map rName regs) \<and> distinct (map rID regs)
     \<and> distinct (map (type_of tp) regs)"
proof (induction regs arbitrary: n)
  case (Cons r regs)
  show ?case
  proof (cases "free_for tp n r")
    case True
    obtain n1 where n1: "RegisterMessageMeta (rCodec r) (rName r) (tp (rType r)) (rID r) n = Ok n1"
      and free: "free_for tp n1 r' \<longleftrightarrow> free_for tp n r' \<and> rName r' \<noteq> rName r \<and> rID r' \<noteq> rID r \<and> type_of tp r' \<noteq> type_of tp r" for r'
      using True by (auto simp: RegisterMessageMeta_def Let_def free_for_def FetchCodec_def)
    have "list_all (free_for tp n1) regs \<longleftrightarrow> list_all (free_for tp n) regs \<and> rName r \<notin> rName ` set regs \<and> rID r \<notin> rID ` set regs
        \<and> type_of tp r \<notin> type_of tp ` set regs"
      unfolding list_all_iff free by (auto simp: image_iff)
    with n1 Cons.IH [of n1] True show ?thesis by auto
  next
    case False
    then have "\<nexists>n1. RegisterMessageMeta (rCodec r) (rName r) (tp (rType r)) (rID r) n = Ok n1"
      by (auto simp: RegisterMessageMeta_def Let_def free_for_def split: if_splits)
    with False show ?thesis by (auto simp: bind_go_eq_Ok)
  qed
qed simp

lemma run_init_no_Err: "run_init tp regs n \<noteq> Err e"
  by (induction regs arbitrary: n) (auto simp: bind_go_eq_Err RegisterMessageMeta_def Let_def split: if_splits)

lemma run_init_panics: "is_panic (run_init tp regs n) \<longleftrightarrow> (\<nexists>n'. run_init tp regs n = Ok n')"
  using run_init_no_Err [of tp regs n] by (cases "run_init tp regs n") auto

lemma run_init_keeps: "run_init tp regs n = Ok n' \<Longrightarrow> metaByID n i \<noteq> None \<Longrightarrow> metaByID n' i \<noteq> None"
  by (induction regs arbitrary: n) (force simp: bind_go_eq_Ok RegisterMessageMeta_def Let_def split: if_splits)+

lemma run_init_takes: "run_init tp regs n = Ok n' \<Longrightarrow> r \<in> set regs \<Longrightarrow> metaByID n' (rID r) \<noteq> None"
proof (induction regs arbitrary: n)
  case (Cons s regs)
  then obtain n1 where n1: "RegisterMessageMeta (rCodec s) (rName s) (tp (rType s)) (rID s) n = Ok n1" "run_init tp regs n1 = Ok n'"
    by (auto simp: bind_go_eq_Ok)
  moreover have "metaByID n1 (rID s) \<noteq> None" using n1(1) by (auto simp: RegisterMessageMeta_def Let_def split: if_splits)
  ultimately show ?case using Cons run_init_keeps by auto
qed simp

text \<open>
  A file that \<^verbatim>\<open>objprotogen\<close> generates runs without a panic exactly if the binary codec is registered, the full
  names, hashes and types are not registered yet, and no two of its structures have the same name or the same hash.
\<close>

theorem obj_file_runs:
  assumes "inj_on (\<lambda>t. tName (tp t)) (osName ` set (opStructs p))" "opStructs p \<noteq> []"
  shows "(\<exists>n'. run_init tp (obj_regs p) n = Ok n') \<longleftrightarrow>
    FetchCodec n ''binary'' \<noteq> None \<and> distinct (map osName (opStructs p)) \<and> distinct (map Struct_MsgID (opStructs p))
    \<and> (\<forall>st \<in> set (opStructs p). MessageMetaByName n (opName p @ ''.'' @ osName st) = None \<and> MessageMetaByID n (Struct_MsgID st) = None
         \<and> metaByType n (tName (tp (osName st))) = None)"
proof -
  let ?sts = "opStructs p"
  have "map rID (obj_regs p) = map Struct_MsgID ?sts" by (simp add: obj_regs_def obj_reg_def comp_def)
  moreover have "distinct (map rName (obj_regs p)) \<longleftrightarrow> distinct (map osName ?sts)"
    "distinct (map (type_of tp) (obj_regs p)) \<longleftrightarrow> distinct (map osName ?sts)"
    using assms(1) by (auto simp: obj_regs_def obj_reg_def comp_def distinct_map inj_on_def)
  moreover have "list_all (free_for tp n) (obj_regs p) \<longleftrightarrow> FetchCodec n ''binary'' \<noteq> None \<and>
      (\<forall>st \<in> set ?sts. MessageMetaByName n (opName p @ ''.'' @ osName st) = None \<and> MessageMetaByID n (Struct_MsgID st) = None
         \<and> metaByType n (tName (tp (osName st))) = None)"
    using assms(2) by (auto simp: list_all_iff obj_regs_def obj_reg_def free_for_def MessageMetaByName_def MessageMetaByID_def
        neq_Nil_conv)
  ultimately show ?thesis unfolding run_init_Ok_iff by auto
qed

text \<open>
  C38: Two packages with a structure of the same name cannot both be used: the number of a message is the hash
  of the bare name, and the generated file of the second package panics when the program starts.
\<close>

theorem same_struct_name_panics:
  assumes "run_init tp (obj_regs p) n = Ok n1" "st \<in> set (opStructs p)" "st' \<in> set (opStructs p')" "osName st = osName st'"
  shows "is_panic (run_init tp' (obj_regs p') n1)"
proof -
  have "obj_reg p st \<in> set (obj_regs p)" "obj_reg p' st' \<in> set (obj_regs p')" using assms(2,3) by (simp_all add: obj_regs_def)
  moreover have "rID (obj_reg p' st') = rID (obj_reg p st)" by (simp add: obj_reg_def Struct_MsgID_def assms(4))
  ultimately have "\<not> free_for tp' n1 (obj_reg p' st')" using run_init_takes [OF assms(1)] by (simp add: free_for_def)
  with \<open>obj_reg p' st' \<in> _\<close> show ?thesis by (auto simp: run_init_panics run_init_Ok_iff list_all_iff)
qed

section \<open>The system messages\<close>

text \<open>The tree of \<^verbatim>\<open>coredef/binmsg.go\<close>.\<close>

definition go_struct_decl :: "string \<Rightarrow> (string \<times> go_node) list \<Rightarrow> go_node" where
  "go_struct_decl name l = GoNode [TypeSpec name (StructType (map (\<lambda>(x, t). GoField [x] t) l))]"

definition result_field :: "string \<times> go_node" where
  "result_field = (''Result'', GoNode [GoIdent ''cellnet'', GoIdent ''Result''])"

definition core_file :: go_file where
  "core_file =
     \<lparr>gfName = ''coredef'',
      gfDecls = [GoNode [GoNode [], GoNode [GoIdent ''_'']], go_struct_decl ''SessionAccepted'' [], go_struct_decl ''SessionConnected'' [],
        go_struct_decl ''SessionAcceptFailed'' [result_field], go_struct_decl ''SessionConnectFailed'' [result_field],
        go_struct_decl ''SessionClosed'' [result_field],
        go_struct_decl ''RemoteCallACK''
          [(''MsgID'', GoIdent ''uint32''), (''Data'', GoNode [GoIdent ''byte'']), (''CallID'', GoIdent ''int64'')]]\<rparr>"

text \<open>The registrations of \<^verbatim>\<open>coredef/objproto_gen.go\<close>, up to the white space of \<^verbatim>\<open>gofmt\<close>.\<close>

definition no_space :: "string \<Rightarrow> string" where
  "no_space s = filter (\<lambda>c. c \<noteq> CHR '' '' \<and> c \<noteq> CHR 0x09 \<and> c \<noteq> CHR 0x0A) s"

definition core_gen_String :: "string \<Rightarrow> nat \<Rightarrow> string" where
  "core_gen_String name k =
     ln 0 (''func (self *'' @ name @ '') String() string'' @ replicate k (CHR '' '') @ ''{ return goobjfmt.CompactTextString(self) }'')"

definition core_gen_reg :: "string \<Rightarrow> string \<Rightarrow> string" where
  "core_gen_reg name i =
     ln 1 (''cellnet.RegisterMessageMeta('' @ in_quotes ''binary'' @ '', '' @ in_quotes (''coredef.'' @ name)
       @ '', reflect.TypeOf((*'' @ name @ '')(nil)).Elem(), '' @ i @ '')'')"

definition core_gen_file :: string where
  "core_gen_file =
     ln 0 ''// Generated by github.com/davyxu/cellnet/objprotogen'' @ ln 0 ''// DO NOT EDIT!'' @ ln 0 (''package '' @ ''coredef'') @ ln 0 []
     @ ln 0 ''import ('' @ ln 1 (in_quotes ''github.com/davyxu/cellnet'') @ ln 1 (in_quotes ''github.com/davyxu/goobjfmt'')
     @ ln 1 (in_quotes ''reflect'') @ ln 0 '')'' @ ln 0 []
     @ core_gen_String ''SessionAccepted'' 6 @ core_gen_String ''SessionConnected'' 5 @ core_gen_String ''SessionAcceptFailed'' 2
     @ core_gen_String ''SessionConnectFailed'' 1 @ core_gen_String ''SessionClosed'' 8 @ core_gen_String ''RemoteCallACK'' 8 @ ln 0 []
     @ ln 0 ''func init() {'' @ ln 0 []
     @ core_gen_reg ''SessionAccepted'' ''2087448307'' @ core_gen_reg ''SessionConnected'' ''3159799620''
     @ core_gen_reg ''SessionAcceptFailed'' ''3257237101'' @ core_gen_reg ''SessionConnectFailed'' ''290677256''
     @ core_gen_reg ''SessionClosed'' ''1747213404'' @ core_gen_reg ''RemoteCallACK'' ''14297662'' @ ln 0 ''}''"

definition core_package :: obj_package where
  "core_package =
     \<lparr>opName = ''coredef'',
      opStructs = [\<lparr>osName = ''SessionAccepted'', osFields = []\<rparr>, \<lparr>osName = ''SessionConnected'', osFields = []\<rparr>,
        \<lparr>osName = ''SessionAcceptFailed'', osFields = [\<lparr>ofName = ''Result'', ofType = []\<rparr>]\<rparr>,
        \<lparr>osName = ''SessionConnectFailed'', osFields = [\<lparr>ofName = ''Result'', ofType = []\<rparr>]\<rparr>,
        \<lparr>osName = ''SessionClosed'', osFields = [\<lparr>ofName = ''Result'', ofType = []\<rparr>]\<rparr>,
        \<lparr>osName = ''RemoteCallACK'', osFields = [\<lparr>ofName = ''MsgID'', ofType = ''uint32''\<rparr>, \<lparr>ofName = ''Data'', ofType = []\<rparr>,
          \<lparr>ofName = ''CallID'', ofType = ''int64''\<rparr>]\<rparr>]\<rparr>"

lemma core_package: "objprotogen_parse (\<lambda>_. Inr core_file) [''coredef/binmsg.go''] = Ok core_package"
  by (simp add: objprotogen_parse_def Package_Parse_def core_file_def go_struct_decl_def result_field_def visit_node_def newFile_def core_package_def)

definition core_reg :: "string \<times> gval list \<times> u32 \<Rightarrow> registration" where
  "core_reg m = (case m of (t, z, i) \<Rightarrow> \<lparr>rCodec = ''binary'', rName = ''coredef.'' @ t, rType = t, rID = i\<rparr>)"

lemma core_regs: "obj_regs core_package = map core_reg core_messages"
  by (simp add: obj_regs_def obj_reg_def core_package_def Struct_MsgID_def core_hashes core_messages_def core_reg_def)

lemma run_init_core:
  "\<forall>(t, z, i) \<in> set ms. tp t = \<lparr>tName = t, tZero = z\<rparr> \<Longrightarrow> run_init tp (map core_reg ms) = register_all ms"
proof (induction ms)
  case (Cons m ms)
  then have "run_init tp (map core_reg ms) = register_all ms" by simp
  with Cons.prems show ?case by (cases m) (auto simp: core_reg_def [of "(a, b, c)" for a b c] intro!: ext)
qed (simp add: fun_eq_iff)

lemma no_space_pieces:
  "no_space [] = []" "no_space (s @ t) = no_space s @ no_space t" "no_space (ln k s) = no_space s" "no_space (tabs k) = []"
  "no_space [CHR 0x09] = []" "no_space (replicate k (CHR '' '')) = []"
  by (simp_all add: no_space_def ln_def)

lemma no_space_literals:
  "no_space '', '' = '',''" "no_space '',''= '',''" "no_space '') String() string'' = '')String()string''"
  "no_space ''{ return goobjfmt.CompactTextString(self) }'' = ''{returngoobjfmt.CompactTextString(self)}''"
  "no_space '') String() string { return goobjfmt.CompactTextString(self) } '' = '')String()string'' @ ''{returngoobjfmt.CompactTextString(self)}''"
  by code_simp+

lemma digit_chars:
  "digit_char 0 = CHR ''0''" "digit_char (Suc 0) = CHR ''1''" "digit_char 2 = CHR ''2''" "digit_char 3 = CHR ''3''" "digit_char 4 = CHR ''4''"
  "digit_char 5 = CHR ''5''" "digit_char 6 = CHR ''6''" "digit_char 7 = CHR ''7''" "digit_char 8 = CHR ''8''" "digit_char 9 = CHR ''9''"
  by code_simp+

lemma core_text: "no_space (obj_template core_package) = no_space core_gen_file"
proof -
  have ids: "map (\<lambda>(t, z, i). show_nat (unat i)) core_messages
    = [''2087448307'', ''3159799620'', ''3257237101'', ''290677256'', ''1747213404'', ''14297662'']"
    by (simp add: core_messages_def show_nat.simps digit_chars)
  have l: "no_space (concat (map (\<lambda>st. ln 0 [] @ ''func (self *'' @ osName st @ '') String() string { return goobjfmt.CompactTextString(self) } '') sts))
     = concat (map (\<lambda>st. no_space (core_gen_String (osName st) 1)) sts)" for sts
    by (induction sts) (simp_all only: list.map concat.simps core_gen_String_def no_space_pieces no_space_literals append_Nil append_assoc)
  have r: "no_space (concat (map reg_line (map core_reg ms)))
     = concat (map (\<lambda>(t, z, i). no_space (core_gen_reg t (show_nat (unat i)))) ms)" for ms
    by (induction ms) (auto simp only: list.map concat.simps core_gen_reg_def reg_line_def core_reg_def no_space_pieces no_space_literals append_Nil append_Nil2
        append_assoc prod.case registration.select_convs split: prod.splits)
  show ?thesis
    using ids unfolding obj_template_def core_regs no_space_pieces l r core_gen_file_def
    by (simp only: core_package_def core_messages_def obj_package.select_convs obj_struct.select_convs list.map concat.simps prod.case
      list.inject no_space_pieces append_Nil append_Nil2 append_assoc core_gen_String_def core_gen_reg_def if_True simp_thms list.distinct
      not_False_eq_True no_space_literals)
qed

text \<open>
  The checked-in registrations of the system messages are what \<^verbatim>\<open>objprotogen\<close> makes of \<^verbatim>\<open>coredef/binmsg.go\<close>:
  the template yields the text of the file up to white space, and its registrations are the initialiser of the package,
  in the same order, with the same numbers.
\<close>

theorem core_file_regenerated:
  "\<exists>p. objprotogen_parse (\<lambda>_. Inr core_file) [''coredef/binmsg.go''] = Ok p
     \<and> no_space (obj_template p) = no_space core_gen_file
     \<and> run_init (\<lambda>t. \<lparr>tName = t, tZero = core_zeros t\<rparr>) (obj_regs p) = register_all core_messages"
proof -
  have "run_init (\<lambda>t. \<lparr>tName = t, tZero = core_zeros t\<rparr>) (map core_reg core_messages) = register_all core_messages"
    by (rule run_init_core) (simp add: core_messages_def core_zeros_def)
  with core_package core_text show ?thesis by (auto simp: core_regs)
qed

text \<open>A registry with the binary codec, and a second package with a structure that the first one has.\<close>

definition binary_net :: net where
  "binary_net = one_codec_net\<lparr>codecByName := [''binary'' \<mapsto> binaryCodec core_types]\<rparr>"

definition plain_type :: "string \<Rightarrow> msgtype" where
  "plain_type t = \<lparr>tName = t, tZero = []\<rparr>"

lemma core_hash_list:
  "map Struct_MsgID (opStructs core_package) = [2087448307, 3159799620, 3257237101, 290677256, 1747213404, 14297662]"
  by (simp add: core_package_def Struct_MsgID_def core_hashes)

theorem obj_file_runs_witness:
  "\<exists>n'. run_init plain_type (obj_regs core_package) binary_net = Ok n'"
proof -
  have "inj_on (\<lambda>t. tName (plain_type t)) (osName ` set (opStructs core_package))" "opStructs core_package \<noteq> []"
    by (simp_all add: plain_type_def inj_on_def core_package_def)
  moreover have "distinct (map osName (opStructs core_package))" by (simp add: core_package_def)
  ultimately show ?thesis
    using obj_file_runs [of plain_type core_package binary_net] core_hash_list
    by (simp add: binary_net_def one_codec_net_def empty_net_def FetchCodec_def MessageMetaByName_def MessageMetaByID_def)
qed

theorem same_struct_name_panics_witness:
  "\<exists>n1. is_panic (run_init (\<lambda>t. plain_type (''game.'' @ t))
     (obj_regs \<lparr>opName = ''game'', opStructs = [\<lparr>osName = ''SessionClosed'', osFields = []\<rparr>]\<rparr>) n1)
     \<and> run_init plain_type (obj_regs core_package) binary_net = Ok n1"
proof -
  have "distinct (map Struct_MsgID (opStructs core_package))" by (simp add: core_hash_list)
  then have "\<exists>n1. run_init plain_type (obj_regs core_package) binary_net = Ok n1"
    unfolding run_init_Ok_iff
    by (simp add: obj_regs_def obj_reg_def core_package_def free_for_def plain_type_def binary_net_def one_codec_net_def empty_net_def
        FetchCodec_def)
  then obtain n1 where n1: "run_init plain_type (obj_regs core_package) binary_net = Ok n1" by blast
  let ?p = "\<lparr>opName = ''game'', opStructs = [\<lparr>osName = ''SessionClosed'', osFields = []\<rparr>]\<rparr>"
  have "\<lparr>osName = ''SessionClosed'', osFields = [\<lparr>ofName = ''Result'', ofType = []\<rparr>]\<rparr> \<in> set (opStructs core_package)"
    by (simp add: core_package_def)
  from same_struct_name_panics [OF n1 this, of "\<lparr>osName = ''SessionClosed'', osFields = []\<rparr>" ?p] n1 show ?thesis by auto
qed

text \<open>A field without a name, such as an embedded structure, is an index out of range.\<close>

lemma embedded_field_panics: "Field_Parse (GoField [] t) = Panic IndexOutOfRange"
  by simp

text \<open>The checked-in number of the message of \<^verbatim>\<open>gamedef.proto\<close> is the hash of its full name.\<close>

definition gamedef_proto :: pb_file where
  "gamedef_proto = \<lparr>pbFileName = ''gamedef.proto'', pbPackageName = ''gamedef'',
     pbMessages = [\<lparr>pmName = ''TestEchoACK'', pmLeading = [],
       pmFields = [\<lparr>pfName = ''Content'', pfNumber = 1, pfRepeated = False, pfType = TYPE_STRING, pfMessageDesc = [], pfEnumDesc = [],
         pfTrailing = []\<rparr>]\<rparr>], pbEnums = []\<rparr>"

lemma gamedef_number:
  "pb_regs [gamedef_proto] = [\<lparr>rCodec = ''pb'', rName = ''gamedef.TestEchoACK'', rType = ''TestEchoACK'', rID = 1899977859\<rparr>]"
proof -
  have "StringHash ''gamedef.TestEchoACK'' = 1899977859" by (rule StringHash_eqI, simp add: shift8_def shift_int_def)
  then show ?thesis by (simp add: pb_regs_def pb_reg_def gamedef_proto_def FullName_def pb_MsgID_def)
qed

end
