(* ===== verification/Gen_Sp.thy ===== *)
theory Gen_Sp
  imports Gen_Proto
begin

text \<open>
  The output in the syntax of schema files, \<^verbatim>\<open>gosproto/sprotogen/gen_sp.go\<close>: the template and its methods. The
  generator itself has an empty body, so the template is never run.
\<close>

text \<open>Unlike the comments of \<^verbatim>\<open>pb2sproto\<close> there is no blank after the sign.\<close>

definition sp_comment :: "string \<Rightarrow> string" where
  "sp_comment comment = (if comment = [] then [] else join_lines (map (\<lambda>l. ''//'' @ l) (scan_lines comment)))"

definition SpTrailingComment :: "schema \<Rightarrow> nat \<Rightarrow> string" where
  "SpTrailingComment h a = sp_comment (go_string (Trailing (fComment (fds h ! a))))"

definition SpLeadingComment :: "CommentGroup \<Rightarrow> string" where
  "SpLeadingComment c = sp_comment (go_string (Leading c))"

definition TagString :: "schema \<Rightarrow> nat \<Rightarrow> string" where
  "TagString h a = (if AutoTag (fds h ! a) = -1 then itoa (Tag (fds h ! a)) else [])"

definition SpFieldString :: "schema \<Rightarrow> fileModel \<Rightarrow> nat \<Rightarrow> ('e, string) go" where
  "SpFieldString h fm a =
     bind_go (typeStr h (fds h ! a) False) (\<lambda>t.
       Ok (field_string h a @ '' '' @ (if forceAutoTag fm then [] else TagString h a @ '' '') @ go_string t @ SpTrailingComment h a))"

definition sp_TypeName :: "schema \<Rightarrow> structModel \<Rightarrow> string" where
  "sp_TypeName h st =
     (case dType (ds h ! smDesc st) of
        DescriptorType_Enum \<Rightarrow> ''enum'' | DescriptorType_Struct \<Rightarrow> ''message'' | DescriptorType_None \<Rightarrow> ''none'')"

definition sp_field :: "schema \<Rightarrow> fileModel \<Rightarrow> structModel \<Rightarrow> nat \<Rightarrow> ('e, string) go" where
  "sp_field h fm st a =
     bind_go (if IsStruct h st
              then bind_go (SpFieldString h fm a) (\<lambda>s. Ok (ln 0 [] @ ln 1 (s @ [CHR 0x09]) @ [CHR 0x09]))
              else Ok (ln 0 [] @ ln 1 (field_string h a @ '' = '' @ itoa (TagNumber h a) @ SpTrailingComment h a) @ [CHR 0x09])) (\<lambda>t.
       Ok (SpLeadingComment (fComment (fds h ! a)) @ t @ [CHR 0x09]))"

definition sp_object :: "schema \<Rightarrow> fileModel \<Rightarrow> structModel \<Rightarrow> ('e, string) go" where
  "sp_object h fm st =
     bind_go (field_texts (sp_field h fm st) st) (\<lambda>fields.
       Ok (ln 0 [] @ ln 0 (SpLeadingComment (dComment (ds h ! smDesc st))) @ ln 0 (sp_TypeName h st @ '' '' @ type_string h (smDesc st) @ '' {'')
         @ [CHR 0x09] @ fields @ ln 0 [] @ ln 0 ''}''))"

definition spCodeTemplate :: "schema \<Rightarrow> fileModel \<Rightarrow> ('e, string) go" where
  "spCodeTemplate h fm =
     bind_go (range_text (sp_object h fm) (mObjects fm)) (\<lambda>objects. Ok (ln 0 [] @ objects @ ln 0 [] @ ln 0 []))"

definition gen_sp :: "schema \<Rightarrow> bool \<Rightarrow> (string \<Rightarrow> string option) \<Rightarrow> (string \<Rightarrow> string option)" where
  "gen_sp h force files = files"

end
