(* ===== verification/Cellnet_Codecs.thy ===== *)
theory Cellnet_Codecs
  imports Cellnet_Codec
begin

text \<open>
  The codecs of cellnet that only call a library: \<^verbatim>\<open>codec/json/json.go\<close> on \<^verbatim>\<open>encoding/json\<close> and
  \<^verbatim>\<open>codec/pb/pb.go\<close> on the protobuf library. The functions of the library are parameters; where they restore a
  message, the message layer delivers it, whatever the codec.
\<close>

type_synonym marshaller = "message \<Rightarrow> string + bytes"
type_synonym unmarshaller = "bytes \<Rightarrow> message \<Rightarrow> string + message"

fun lift_library :: "string + 'a \<Rightarrow> 'a run" where
  "lift_library (Inl e) = Err ErrCodec"
| "lift_library (Inr x) = Ok x"

section \<open>JSON\<close>

definition jsonCodec :: "marshaller \<Rightarrow> unmarshaller \<Rightarrow> Codec" where
  "jsonCodec marshal unmarshal =
     \<lparr>cName = ''json'', cEncode = (\<lambda>m. lift_library (marshal m)), cDecode = (\<lambda>data m. lift_library (unmarshal data m))\<rparr>"

definition json_init :: "marshaller \<Rightarrow> unmarshaller \<Rightarrow> net \<Rightarrow> net run" where
  "json_init marshal unmarshal n = RegisterCodec ''json'' (jsonCodec marshal unmarshal) n"

section \<open>Protobuf\<close>

text \<open>The assertion \<^verbatim>\<open>msgObj.(proto.Message)\<close> panics for a type without the methods of that interface.\<close>

definition pb_Encode :: "(message \<Rightarrow> bool) \<Rightarrow> marshaller \<Rightarrow> message \<Rightarrow> bytes run" where
  "pb_Encode is_proto marshal m = (if is_proto m then lift_library (marshal m) else Panic TypeAssertion)"

definition pb_Decode :: "(message \<Rightarrow> bool) \<Rightarrow> unmarshaller \<Rightarrow> bytes \<Rightarrow> message \<Rightarrow> message run" where
  "pb_Decode is_proto unmarshal data m = (if is_proto m then lift_library (unmarshal data m) else Panic TypeAssertion)"

definition pbCodec :: "(message \<Rightarrow> bool) \<Rightarrow> marshaller \<Rightarrow> unmarshaller \<Rightarrow> Codec" where
  "pbCodec is_proto marshal unmarshal =
     \<lparr>cName = ''pb'', cEncode = pb_Encode is_proto marshal, cDecode = pb_Decode is_proto unmarshal\<rparr>"

definition pb_init :: "(message \<Rightarrow> bool) \<Rightarrow> marshaller \<Rightarrow> unmarshaller \<Rightarrow> net \<Rightarrow> net run" where
  "pb_init is_proto marshal unmarshal n = RegisterCodec ''pb'' (pbCodec is_proto marshal unmarshal) n"

section \<open>What the message layer relies on\<close>

text \<open>The messages that the library restores in an object of the type that passes \<open>fresh\<close>.\<close>

definition restored :: "(message \<Rightarrow> bool) \<Rightarrow> marshaller \<Rightarrow> unmarshaller \<Rightarrow> message \<Rightarrow> bool" where
  "restored fresh marshal unmarshal m \<longleftrightarrow>
     (\<exists>d. marshal m = Inr d \<and> (\<forall>m0. mType m0 = mType m \<and> mPtr m0 \<and> fresh m0 \<longrightarrow> unmarshal d m0 = Inr m))"

interpretation json: lawful_codec "jsonCodec marshal unmarshal" "restored fresh marshal unmarshal" fresh
  for fresh marshal unmarshal
  by unfold_locales (auto simp: restored_def jsonCodec_def)

text \<open>For protobuf the object in both directions has to have the methods.\<close>

interpretation pb: lawful_codec "pbCodec is_proto marshal unmarshal"
  "\<lambda>m. is_proto m \<and> restored (\<lambda>m0. fresh m0 \<and> is_proto m0) marshal unmarshal m" "\<lambda>m0. fresh m0 \<and> is_proto m0"
  for is_proto fresh marshal unmarshal
  by unfold_locales (auto simp: restored_def pbCodec_def pb_Encode_def pb_Decode_def)

text \<open>A message type of the tests, with its number from the hash of its full name.\<close>

definition json_message_init :: "net \<Rightarrow> net run" where
  "json_message_init n =
     RegisterMessageMeta ''json'' ''gamedef.TestEchoJsonACK'' \<lparr>tName = ''TestEchoJsonACK'', tZero = [GString []]\<rparr>
       (StringHash ''gamedef.TestEchoJsonACK'') n"

text \<open>With either codec a registered message that the library restores comes back from its encoding.\<close>

lemma json_message_round_trip:
  assumes "metas_ok n" "restored (\<lambda>_. True) marshal unmarshal m" "MessageMetaByType n m = Some meta"
    and "meta_Codec meta = Some (jsonCodec marshal unmarshal)"
  shows "\<exists>d. EncodeMessage n (Some m) = Ok (Some d, meta_ID meta, None) \<and> DecodeMessage n (meta_ID meta) (Some d) = Ok (Some m, None)"
  by (rule json.message_round_trip [where fresh = "\<lambda>_. True", OF assms TrueI])

lemma json_init_panics:
  "is_panic (json_init marshal unmarshal n) \<longleftrightarrow> FetchCodec n ''json'' \<noteq> None"
  "is_panic (pb_init is_proto marshal unmarshal n) \<longleftrightarrow> FetchCodec n ''pb'' \<noteq> None"
  by (simp_all add: json_init_def pb_init_def RegisterCodec_def FetchCodec_def)

end
