(* ===== verification/Spec2Isabelle.thy ===== *)
theory Spec2Isabelle
  imports Cellnet_Delivery Cellnet_Peers Cellnet_Websocket Cellnet_Timer Objfmt_Reading Golog_Calls Golog_Threads Cellnet_Queue Cellnet_Wspeers Gen_Accept Gen_Numbers Gen_Parsed Gen_Cellnet Gen_Sp Cellnet_Codecs
begin

text \<open>
  A verification development for cellorigin, a game server skeleton in Go. The server is built
  from four libraries that the repository carries: \<^verbatim>\<open>gosproto\<close> (the wire format of messages),
  \<^verbatim>\<open>goobjfmt\<close> (a second wire format, for the system messages), \<^verbatim>\<open>cellnet\<close> (sessions, message
  dispatch, rpc, timers) and \<^verbatim>\<open>golexer\<close> (the lexer of the schema compiler \<^verbatim>\<open>sprotogen\<close>, which writes the
  types of the messages in Go, C# and Lua). The paths below are
  under \<^verbatim>\<open>src/server/src/github.com/davyxu\<close>.

  \<^bold>\<open>How the parts work together.\<close> The application gives a message object to \<^verbatim>\<open>Session.Send\<close>. A chain of
  handlers encodes it with the codec that the message type was registered with and puts an
  event into the session's send list. The session's send thread frames the event as a packet
  (serial number, message number, size, payload) and writes it. At the other end the receive
  thread reads a packet into an event and hands a clone of it to every receive chain of the
  peer; a chain made by \<^verbatim>\<open>RegisterMessage\<close> compares the message number, decodes and runs the
  callback, directly or through the event queue. A remote call is such a message inside an
  envelope that carries the number of the chain which waits for the answer. Acceptors and
  connectors create the sessions and are started and stopped by the application. The theorem
  of this theory follows one message along the whole path.

  \<^bold>\<open>Conventions.\<close> A call that can fail yields \<open>Ok\<close>, \<open>Err\<close> (an \<^verbatim>\<open>error\<close> result) or \<open>Panic\<close>; a goroutine
  that waits for ever is \<open>Panic Blocked\<close>. Bytes and integers are machine words and wrap. Slices are
  lists with checked access; where code writes through an alias, the whole buffer is passed on.
  Objects behind pointers that are shared (events, sessions, peers, the type descriptions of
  gosproto) live in heaps and are addressed by index. Iteration over a Go map visits the
  entries in an order that is a parameter. Threads are rounds of a step relation. User
  callbacks are a parameter; where a theorem needs them to leave something alone, it says so.

  \<^bold>\<open>Theories.\<close>
  \<^item> \<open>Go_Prelude\<close>, \<open>Go_Strings\<close>: outcomes, slices, the locale of step relations with an invariant;
    number parsing and string splitting of the Go library.
  \<^item> \<open>Sproto_Wire\<close> to \<open>Sproto_Robust\<close>: \<^verbatim>\<open>gosproto\<close>. Little-endian numbers and chunks (\<^verbatim>\<open>encode.go\<close>,
    \<^verbatim>\<open>decode.go\<close>), zero packing (\<^verbatim>\<open>pack.go\<close>), type descriptions from struct tags and their registry
    (\<^verbatim>\<open>meta.go\<close>), encoder and decoder of fields and messages, \<^verbatim>\<open>Encode\<close>, \<^verbatim>\<open>Decode\<close> and the packed forms
    (\<^verbatim>\<open>sproto.go\<close>). Shown: the round trips of packing, of the message format and of both together;
    that the registry describes exactly the declared types and is always built; that no input
    makes \<^verbatim>\<open>Unpack\<close> panic, and \<^verbatim>\<open>Decode\<close> only through boolean and integer-slice fields; which
    integers change on the wire; the size of the packed form.
  \<^item> \<open>Objfmt_Binary\<close>: the binary format of \<^verbatim>\<open>goobjfmt\<close> (\<^verbatim>\<open>codec.go\<close>, \<^verbatim>\<open>binary_size.go\<close>,
    \<^verbatim>\<open>binary_writer.go\<close>, \<^verbatim>\<open>binary_reader.go\<close>): refinement of a reference wire form, round trip,
    exactness of the computed size.
  \<^item> \<open>Objfmt_Text\<close>, \<open>Objfmt_Layout\<close>, \<open>Objfmt_Reading\<close>: its text format (\<^verbatim>\<open>text_writer.go\<close>,
    \<^verbatim>\<open>text_marshaler.go\<close>, \<^verbatim>\<open>lib.go\<close>). The writer and the marshaller as the code has them; a value has a document
    and a document a layout, and the marshaller writes just that, as far as the underlying writer
    takes it; the compact form is one line, the order of map entries does not show, flat structures
    are read back.
  \<^item> \<open>Cellnet_Event\<close>: events, handlers and chains as data, the tables of codecs and messages
    (\<^verbatim>\<open>event.go\<close>, \<^verbatim>\<open>codec.go\<close>, \<^verbatim>\<open>msgmeta.go\<close>); the record \<open>net\<close> is the state of the process.
  \<^item> \<open>Cellnet_Codec\<close>: message numbers, the sproto codec, the locale \<open>lawful_codec\<close> of what the message
    layer needs of a codec, with the sproto codec as an instance; the messages of the game. \<open>Cellnet_Codecs\<close>: the
    codecs that call a library (\<^verbatim>\<open>codec/json\<close>, \<^verbatim>\<open>codec/pb\<close>), instances where the library restores the message.
  \<^item> \<open>Cellnet_Handler\<close>: the handlers, \<^verbatim>\<open>HandlerChain.Call\<close>, the dispatch over chains, the chain
    manager (locale \<open>chain_table\<close>), registration, the queue. Shown: chains do not disturb each
    other, what a registered chain does in each case, the chain list is current.
  \<^item> \<open>Cellnet_Queue\<close>: the event queue again (\<^verbatim>\<open>queue.go\<close>), as goroutines around the bounded channel: its
    order, that all posts are run, and how a callback that posts can block it.
  \<^item> \<open>Cellnet_Session\<close>: the session table and the peer's profile (\<^verbatim>\<open>sesmgr.go\<close>, \<^verbatim>\<open>peerprofile.go\<close>).
  \<^item> \<open>Cellnet_Packet\<close>, \<open>Cellnet_Socket\<close>, \<open>Cellnet_Lifetime\<close>: the packet protocol as a specification on
    bytes (locale \<open>framing\<close>), the socket sessions, the refinement of the specification by the
    read and write chains, delivery of any number of packets, and the life of a session as a
    step relation of its two threads: how they end each other and when the session leaves the
    table.
  \<^item> \<open>Cellnet_Rpc\<close>: the binary codec (a second instance of \<open>lawful_codec\<close>), the system messages and
    the \<^verbatim>\<open>rpc\<close> package: the envelope round trip, replies, the chains of calls, timeouts.
  \<^item> \<open>Cellnet_Kept\<close>, \<open>Cellnet_Peers\<close>: what the message layer leaves alone of a peer; acceptor and connector (\<^verbatim>\<open>socket/acceptor.go\<close>, \<^verbatim>\<open>socket/connector.go\<close>,
    \<^verbatim>\<open>socket/base.go\<close>) as step relations: what \<^verbatim>\<open>Stop\<close> guarantees and when it never returns.
  \<^item> \<open>Cellnet_Websocket\<close>: packets and sessions over websockets. \<open>Cellnet_Wspeers\<close>: their acceptor and
    connector (\<^verbatim>\<open>websocket/acceptor.go\<close>, \<^verbatim>\<open>websocket/connector.go\<close>) beside the sessions: no session leaves
    the table, and a connector connects once. \<open>Cellnet_Timer\<close>: loops.
  \<^item> \<open>Cellnet_Delivery\<close> and this theory: one message from \<^verbatim>\<open>Send\<close> to the callback.

  \<^item> \<open>Golexer\<close>, \<open>Golexer_Tokens\<close>, \<open>Golexer_KV\<close>: the lexer library (\<^verbatim>\<open>golexer\<close>): matchers, lexer and parser as
    the code has them; the contract of the matchers, the locale \<open>token_source\<close> of lexers that always
    return, and texts as lists of tokens; the key-value parser and container, with termination, a
    reference on tokens, and the round trip.
  \<^item> \<open>Schema_Meta\<close>, \<open>Schema_Heap\<close>, \<open>Schema_Parser\<close>, \<open>Schema_Returns\<close>, \<open>Schema_Grammar\<close>, \<open>Schema_Text\<close>: the schemas of the code
    generator (\<^verbatim>\<open>gosproto/meta\<close>). Files, structures, enumerations and fields as a heap with its
    invariant, the grammar, references to later types; parsing always returns and keeps the
    invariant, a list of files that parses without an error has all its fields typed, and a structure
    with printed field lines is parsed back.
  \<^item> \<open>Gen_Model\<close>, \<open>Gen_Go\<close>, \<open>Gen_Text\<close>, \<open>Sproto_Accept\<close>, \<open>Gen_Accept\<close>, \<open>Gen_Numbers\<close>: the code generator
    (\<^verbatim>\<open>gosproto/sprotogen\<close>). Its models of files and structures, the grouping of enumeration values, and the
    text of each template as a function of the model. When the registry of gosproto reports no error; that it
    accepts what the generator writes in Go, with the tags and wire types of the schema; that the
    clients number messages as the server does; that grouped values are given once.
  \<^item> \<open>Gen_Sp\<close>, \<open>Gen_Proto\<close>, \<open>Gen_Parsed\<close>, \<open>Gen_Cellnet\<close>: a template of \<^verbatim>\<open>sprotogen\<close> that is never run, the converter of
    protobuf files \<^verbatim>\<open>gosproto/pb2sproto\<close>, and the generators \<^verbatim>\<open>cellnet/objprotogen\<close> and \<^verbatim>\<open>cellnet/protoc-gen-msg\<close>, which
    register messages. Shown: the schema parser reads the structure written for a message back and refuses
    every enumeration with values; the registrations of the system messages are those of the generator; when a generated
    file can run, and that two packages with a structure of the same name cannot be used together.
  \<^item> \<open>Golog\<close>, \<open>Golog_Lines\<close>, \<open>Golog_Calls\<close>, \<open>Golog_Threads\<close>: the loggers (\<^verbatim>\<open>golog\<close>). What one call writes, down to
    the header and the colours; the states that programs reach, settings for all loggers, the name
    that is used twice; \<^verbatim>\<open>Output\<close> by several goroutines, with its mutex given back in between, as a step
    relation whose lines are those of single calls.

  \<^bold>\<open>Bounds.\<close> The functions that follow the recursion of declared types are total; the construction of
  a type description takes a fuel that the number of declared types bounds, and it is proved that
  this is enough. \<open>writeFull\<close> takes a fuel for its loop; one round suffices for a connection, which
  takes all bytes or reports an error. The lengths in the hypotheses (\<open>2 ^ 31\<close>, \<open>2 ^ 32\<close>) are those of the
  length fields on the wire.

  \<^bold>\<open>Not modelled.\<close> The network and the operating system (a connection is the bytes that have arrived
  and that were written; deadlines appear as the end of the bytes), time, the log lines of cellnet itself,
  \<^verbatim>\<open>HandlerLog\<close>; the libraries for json, protobuf, descriptions of protobuf files, Go syntax and websockets, which are parameters where
  the code calls them; the rpc handler that calls a user function by reflection; the counter for measurements and the helper for
  tests; the main program of the server; the client in C#; the tests.

  \<^bold>\<open>Plan.\<close> The subsystems that carry the logic of the program are modelled. What remains is listed
  above and only connects or measures these parts.
\<close>

section \<open>One message, end to end\<close>

text \<open>
  C1: A message sent is a message received. \<^verbatim>\<open>Send\<close> on one side, a turn of the send thread, and a turn
  of the receive thread at the other end of the connection, whose tables know the message, whose
  reader is in step and whose limit admits it: the callback that was registered for the message
  runs on a new event of the receiving session with the very message that was sent, and the
  receiver has consumed exactly this packet. The codec is any that restores what it encodes.
\<close>

theorem message_delivered:
  assumes codec: "lawful_codec cod good fresh" "good m" "metas_ok n" "MessageMetaByType n m = Some meta"
      "meta_Codec meta = Some cod" "fresh \<lparr>mType = mType m, mPtr = True, mBody = tZero (meta_Type meta)\<rparr>"
    and sender: "write_ready n s k" "sSendList (sessions n ! s) = []" "cOut (conn_of n s) = []" "\<not> debugEnabled n"
      "ChainSend (pChains (peers n ! sPeer (sessions n ! s))) = Some sch" "chain_list sch = [EncodePacketHandler]"
    and receiver: "read_ready n' t f l" "\<not> debugEnabled n'" "metaByID n' = metaByID n" "sers n' ! l = sers n ! k"
      "fst (ChainListRecv ord (pChains (peers n' ! sPeer (sessions n' ! t)))) = [c]"
      "chain_list c = [MatchMsgIDHandler (meta_ID meta), DecodePacketHandler, CallbackHandler j]"
      "\<forall>d. EncodeMessage n (Some m) = Ok (Some d, meta_ID meta, None) \<longrightarrow> packet_fits (size_limit n' t) (meta_ID meta, d)"
    and wire: "Send cb s (Some m) n = Ok n1" "send_round cb s n1 = Some (Ok (go_on, n2))"
      "cIn (conn_of n' t) = cOut (conn_of n2 s) @ later"
  shows "go_on \<and> (\<exists>b n3 a. evMsg (event n3 b) = Some m \<and> evSes (event n3 b) = Some t \<and> cIn (conn_of n3 t) = later \<and> a \<noteq> b \<and>
    recv_round cb' ord t n' =
      bind_go (cb' j b n3) (\<lambda>n4. let n4 = (if Result_of n4 b = Result_NextChain then SetResult Result_OK b n4 else n4)
        in if Result_of n4 a \<noteq> Result_OK then recv_onClose cb' ord t a n4 else Ok (True, n4)))"
proof -
  obtain d where d: "EncodeMessage n (Some m) = Ok (Some d, meta_ID meta, None)"
      "DecodeMessage n (meta_ID meta) (Some d) = Ok (Some m, None)"
    using lawful_codec.message_round_trip [OF codec(1,3,2,4,5,6)] by blast
  let ?a = "length (events n)"
  have n1: "sSendList (sessions n1 ! s) = [Some ?a]" "sendable n1 s ?a" "packet_of n1 ?a = (meta_ID meta, d)"
      "write_ready n1 s k" "conn_of n1 s = conn_of n s" "sers n1 = sers n"
    using Send_queues [OF sender(1,4-6) d(1), of cb] wire(1) sender(2) by auto
  have n2: "go_on" "cOut (conn_of n2 s) = packet_enc (sers n ! k) (meta_ID meta, d)"
    using send_round_writes [OF n1(4,1,2), of cb] wire(2) sender(3) n1(3,5,6) by auto
  have "DecodeMessage n' (meta_ID meta) (Some d) = Ok (Some m, None)"
    using d(2) receiver(3) by (simp add: DecodeMessage_def MessageMetaByID_def)
  with n2 wire(3) receiver d(1) recv_round_delivers [OF receiver(1,2) _ _ receiver(5,6), of d later m cb'] show ?thesis
    by simp
qed

theorem message_delivered_witness:
  "\<exists>n1 n2 b n3 a. Send quiet 0 (Some closed_msg) (wire_net []) = Ok n1 \<and> send_round quiet 0 n1 = Some (Ok (True, n2)) \<and>
     evMsg (event n3 b) = Some closed_msg \<and> cIn (conn_of n3 0) = [9] \<and>
     recv_round quiet id 0 (wire_net (cOut (conn_of n2 0) @ [9])) =
       bind_go (quiet 0 b n3) (\<lambda>n4. let n4 = (if Result_of n4 b = Result_NextChain then SetResult Result_OK b n4 else n4)
        in if Result_of n4 a \<noteq> Result_OK then recv_onClose quiet id 0 a n4 else Ok (True, n4))"
proof -
  have enc: "EncodeMessage (wire_net bs) (Some closed_msg) = Ok (Some [1, 0, 0, 0], 1747213404, None)" for bs
    using wire_net_tables(2) [of bs] closed_wire(1) by (simp add: EncodeMessage_def closed_meta_def binaryCodec_def)
  have id: "meta_ID closed_meta = 1747213404" "meta_Codec closed_meta = Some (binaryCodec core_types)"
    by (simp_all add: closed_meta_def)
  note w = wire_net_ready
  obtain n1 where n1: "Send quiet 0 (Some closed_msg) (wire_net []) = Ok n1" "sSendList (sessions n1 ! 0) = [Some 0]"
      "sendable n1 0 0" "write_ready n1 0 1"
    using Send_queues [OF w(1) wire_net_tables(4) w(8) _ enc, of quiet] w(3) by (auto simp: wire_net_def)
  obtain n2 where n2: "send_round quiet 0 n1 = Some (Ok (True, n2))"
    using send_round_writes [OF n1(4,2,3)] by blast
  let ?m = "wire_net (cOut (conn_of n2 0) @ [9])"
  have fits: "\<forall>d. EncodeMessage (wire_net []) (Some closed_msg) = Ok (Some d, meta_ID closed_meta, None) \<longrightarrow>
      packet_fits (size_limit ?m 0) (meta_ID closed_meta, d)"
    by (simp add: enc id w packet_fits_def)
  have "sers ?m ! 0 = sers (wire_net []) ! 1" "metaByID ?m = metaByID (wire_net [])"
    "chain_list closed_callback = [MatchMsgIDHandler (meta_ID closed_meta), DecodePacketHandler, CallbackHandler 0]"
    by (simp_all add: w wire_net_tables closed_callback_def id)
  from message_delivered [OF binary.lawful_codec_axioms closed_msg_good(1) wire_net_tables(1,2) id(2) closed_msg_good(2)
      w(1,3,4) wire_net_tables(4) w(8) _ w(2) wire_net_tables(4) this(2,1) w(9) this(3) fits n1(1) n2 w(5), of quiet]
  show ?thesis
    using n1(1) n2 by auto
qed

end
